(* ===== verification/Prelude.thy ===== *)
theory Prelude
  imports Main "HOL-Library.Sublist" "HOL-Library.Multiset"
begin

text \<open>
  Shared vocabulary of the development: the JavaScript runtime notions the components
  use (thrown errors, 32-bit truncation, the remainder operator, decimal printing,
  array splicing and stable sorting), and the generic list facts that carry the proofs.

  Numbers that the modelled code only uses as integers (line numbers, columns, offsets,
  indices) are \<open>int\<close>; array indices that are never negative are \<open>nat\<close>.
\<close>

section \<open>Collections of facts\<close>

named_theorems vs_defs \<open>unfolding rules of the straight-line operations\<close>
named_theorems js_simps \<open>facts about the runtime notions\<close>

section \<open>Errors\<close>

text \<open>
  \<open>src/patched-vscode/src/vs/base/common/errors.ts\<close>: the classes of errors the modelled
  code throws. A throwing operation returns \<open>Inl\<close> of one of them.
\<close>

datatype js_error = BugIndicatingError string | GenericError string | IllegalArgument string

type_synonym 'a result = "js_error + 'a"

definition is_ok :: "'a result \<Rightarrow> bool" where
  "is_ok r \<longleftrightarrow> (case r of Inl _ \<Rightarrow> False | Inr _ \<Rightarrow> True)"

text \<open>Sequencing: an error ends the computation, as a thrown exception does.\<close>

definition rbind :: "'a result \<Rightarrow> ('a \<Rightarrow> 'b result) \<Rightarrow> 'b result" where
  "rbind r f = (case r of Inl e \<Rightarrow> Inl e | Inr x \<Rightarrow> f x)"

fun rfold :: "('a \<Rightarrow> 's \<Rightarrow> 's result) \<Rightarrow> 'a list \<Rightarrow> 's \<Rightarrow> 's result" where
  "rfold f [] s = Inr s"
| "rfold f (x # xs) s = rbind (f x s) (rfold f xs)"

fun rmap :: "('a \<Rightarrow> 'b result) \<Rightarrow> 'a list \<Rightarrow> 'b list result" where
  "rmap f [] = Inr []"
| "rmap f (x # xs) = rbind (f x) (\<lambda>y. rbind (rmap f xs) (\<lambda>ys. Inr (y # ys)))"

section \<open>Numbers\<close>

text \<open>\<open>x | 0\<close> on an integer: reduction to a signed 32-bit value (ToInt32).\<close>

definition to_int32 :: "int \<Rightarrow> int" where
  "to_int32 x = (x + 2 ^ 31) mod 2 ^ 32 - 2 ^ 31"

text \<open>\<open>a % b\<close>: the remainder has the sign of the dividend.\<close>

definition js_rem :: "int \<Rightarrow> int \<Rightarrow> int" where
  "js_rem a b = sgn a * (\<bar>a\<bar> mod \<bar>b\<bar>)"

text \<open>Decimal printing of an integer, as string concatenation does it.\<close>

fun show_nat :: "nat \<Rightarrow> string" where
  "show_nat n = (if n < 10 then [char_of (48 + n)]
                 else show_nat (n div 10) @ [char_of (48 + n mod 10)])"

declare show_nat.simps [simp del]

definition show_int :: "int \<Rightarrow> string" where
  "show_int i = (if i < 0 then CHR ''-'' # show_nat (nat (- i)) else show_nat (nat i))"

section \<open>Arrays\<close>

text \<open>
  A relative index, as \<open>slice\<close> and \<open>splice\<close> read it: negative counts from the end,
  everything is clamped to the array.
\<close>

definition js_rel_index :: "'a list \<Rightarrow> int \<Rightarrow> nat" where
  "js_rel_index xs i =
     (if i < 0 then nat (max 0 (int (length xs) + i)) else nat (min i (int (length xs))))"

definition js_slice :: "'a list \<Rightarrow> int \<Rightarrow> int \<Rightarrow> 'a list" where
  "js_slice xs i j = drop (js_rel_index xs i) (take (js_rel_index xs j) xs)"

text \<open>\<open>str.substring(i, j)\<close>: both ends clamped to the string, swapped if out of order.\<close>

definition js_substring :: "'a list \<Rightarrow> int \<Rightarrow> int \<Rightarrow> 'a list" where
  "js_substring s i j =
     (let a = min (max i 0) (int (length s)); b = min (max j 0) (int (length s))
      in drop (nat (min a b)) (take (nat (max a b)) s))"

text \<open>\<open>xs.splice(i, n, ...ys)\<close>: the array after the call.\<close>

definition js_splice :: "'a list \<Rightarrow> int \<Rightarrow> int \<Rightarrow> 'a list \<Rightarrow> 'a list" where
  "js_splice xs i n ys =
     (let k = js_rel_index xs i in take k xs @ ys @ drop (k + nat (max 0 n)) xs)"

text \<open>
  \<open>while (i < xs.length && p(xs[i])) i++\<close>: the index at which the loop stops.
\<close>

definition while_index :: "('a \<Rightarrow> bool) \<Rightarrow> 'a list \<Rightarrow> nat \<Rightarrow> nat" where
  "while_index p xs i = i + length (takeWhile p (drop i xs))"

text \<open>
  \<open>xs.sort(cmp)\<close>: the stable sort by a comparator. For a consistent comparator the
  result is determined by the standard; stable insertion computes it.
\<close>

fun js_insort :: "('a \<Rightarrow> 'a \<Rightarrow> int) \<Rightarrow> 'a \<Rightarrow> 'a list \<Rightarrow> 'a list" where
  "js_insort cmp x [] = [x]"
| "js_insort cmp x (y # ys) = (if cmp x y \<le> 0 then x # y # ys else y # js_insort cmp x ys)"

fun js_sort :: "('a \<Rightarrow> 'a \<Rightarrow> int) \<Rightarrow> 'a list \<Rightarrow> 'a list" where
  "js_sort cmp [] = []"
| "js_sort cmp (x # xs) = js_insort cmp x (js_sort cmp xs)"

text \<open>\<open>xs.join(sep)\<close> of strings.\<close>

fun js_join :: "string \<Rightarrow> string list \<Rightarrow> string" where
  "js_join sep [] = []"
| "js_join sep [s] = s"
| "js_join sep (s # t # ts) = s @ sep @ js_join sep (t # ts)"

text \<open>\<open>xs.split(c)\<close> at a single character.\<close>

fun js_split :: "'a \<Rightarrow> 'a list \<Rightarrow> 'a list list" where
  "js_split c [] = [[]]"
| "js_split c (x # xs) =
     (if x = c then [] # js_split c xs
      else case js_split c xs of l # ls \<Rightarrow> (x # l) # ls | [] \<Rightarrow> [[x]])"

section \<open>Facts about errors and numbers\<close>

lemma is_ok_simps [simp]: "is_ok (Inr x)" "\<not> is_ok (Inl e)"
  by (simp_all add: is_ok_def)

lemma is_ok_iff: "is_ok r \<longleftrightarrow> (\<exists>x. r = Inr x)"
  by (cases r) simp_all

lemma rbind_simps [simp]: "rbind (Inl e) f = Inl e" "rbind (Inr x) f = f x"
  by (simp_all add: rbind_def)

lemma rbind_Inr_iff: "rbind r f = Inr y \<longleftrightarrow> (\<exists>x. r = Inr x \<and> f x = Inr y)"
  by (cases r) simp_all

lemma rbind_assoc: "rbind (rbind r f) g = rbind r (\<lambda>x. rbind (f x) g)"
  by (cases r) simp_all

lemma to_int32_id [js_simps]: "- (2 ^ 31) \<le> x \<Longrightarrow> x < 2 ^ 31 \<Longrightarrow> to_int32 x = x"
  by (simp add: to_int32_def)

lemma to_int32_range: "- (2 ^ 31) \<le> to_int32 x \<and> to_int32 x < 2 ^ 31"
proof -
  have "0 \<le> (x + 2 ^ 31) mod (2 ^ 32 :: int)" and "(x + 2 ^ 31) mod (2 ^ 32 :: int) < 2 ^ 32"
    by simp_all
  then show ?thesis by (simp add: to_int32_def)
qed

lemma js_rem_nonneg [js_simps]: "0 \<le> a \<Longrightarrow> 0 < b \<Longrightarrow> js_rem a b = a mod b"
  by (cases "a = 0") (simp_all add: js_rem_def)

lemma show_nat_nonempty: "show_nat n \<noteq> []"
  by (subst show_nat.simps) simp

section \<open>Facts about arrays\<close>

lemma js_rel_index_nat [js_simps]:
  "0 \<le> i \<Longrightarrow> i \<le> int (length xs) \<Longrightarrow> js_rel_index xs i = nat i"
  by (simp add: js_rel_index_def)

lemma js_splice_nat [js_simps]:
  "i \<le> length xs \<Longrightarrow> js_splice xs (int i) (int n) ys = take i xs @ ys @ drop (i + n) xs"
  by (simp add: js_splice_def js_rel_index_def Let_def)

lemma mset_js_insort [simp]: "mset (js_insort cmp x xs) = add_mset x (mset xs)"
  by (induction xs) auto

lemma mset_js_sort [simp]: "mset (js_sort cmp xs) = mset xs"
  by (induction xs) auto

lemma set_js_sort [simp]: "set (js_sort cmp xs) = set xs"
  by (metis mset_js_sort set_mset_mset)

lemma length_js_sort [simp]: "length (js_sort cmp xs) = length xs"
  by (metis mset_js_sort size_mset)

lemma js_sort_eq_Nil [simp]: "js_sort cmp xs = [] \<longleftrightarrow> xs = []"
  by (metis length_js_sort length_0_conv)

lemma while_index_0 [js_simps]: "while_index p xs 0 = length (takeWhile p xs)"
  by (simp add: while_index_def)

lemma while_index_from:
  "i \<le> length (takeWhile p xs) \<Longrightarrow> while_index p xs i = length (takeWhile p xs)"
proof (induction xs arbitrary: i)
  case Nil
  then show ?case by (simp add: while_index_def)
next
  case (Cons x xs)
  then show ?case by (cases i) (auto simp: while_index_def split: if_splits)
qed

section \<open>Comparators\<close>

text \<open>
  The contract of a comparator handed to \<open>sort\<close>: a sign-antisymmetric, transitive
  three-way comparison. Every comparator of the editor core is shown to satisfy it, and
  sorting with it is shown once here.
\<close>

locale comparison =
  fixes cmp :: "'a \<Rightarrow> 'a \<Rightarrow> int"
  assumes cmp_anti: "cmp x y \<le> 0 \<longleftrightarrow> 0 \<le> cmp y x"
    and cmp_trans: "cmp x y \<le> 0 \<Longrightarrow> cmp y z \<le> 0 \<Longrightarrow> cmp x z \<le> 0"
begin

lemma cmp_refl: "cmp x x = 0"
  using cmp_anti [of x x] by linarith

lemma cmp_total: "cmp x y \<le> 0 \<or> cmp y x \<le> 0"
  using cmp_anti [of x y] by linarith

lemma sorted_insort:
  "sorted_wrt (\<lambda>a b. cmp a b \<le> 0) xs \<Longrightarrow> sorted_wrt (\<lambda>a b. cmp a b \<le> 0) (js_insort cmp x xs)"
proof (induction xs)
  case Nil
  then show ?case by simp
next
  case (Cons y ys)
  have set_ins: "set (js_insort cmp x ys) = insert x (set ys)"
    by (metis mset_js_insort set_mset_add_mset_insert set_mset_mset)
  show ?case
  proof (cases "cmp x y \<le> 0")
    case True
    with Cons.prems show ?thesis by (auto intro: cmp_trans)
  next
    case False
    then have "cmp y x \<le> 0" using cmp_total by blast
    with False Cons show ?thesis by (auto simp: set_ins)
  qed
qed

lemma sorted_sort: "sorted_wrt (\<lambda>a b. cmp a b \<le> 0) (js_sort cmp xs)"
  by (induction xs) (simp_all add: sorted_insort)

end

section \<open>Prefix-closed predicates on arrays\<close>

text \<open>
  \<open>arr.map(p)\<close> is \<open>[true, ..., true, false, ..., false]\<close>: the precondition the
  binary searches of \<open>arraysFind.ts\<close> document.
\<close>

definition monotonous :: "('a \<Rightarrow> bool) \<Rightarrow> 'a list \<Rightarrow> bool" where
  "monotonous p xs \<longleftrightarrow> sorted_wrt (\<lambda>x y. p y \<longrightarrow> p x) xs"

lemma monotonous_nth:
  "monotonous p xs \<Longrightarrow> i \<le> j \<Longrightarrow> j < length xs \<Longrightarrow> p (xs ! j) \<Longrightarrow> p (xs ! i)"
  by (metis monotonous_def sorted_wrt_iff_nth_less le_neq_implies_less)

lemma monotonous_iff_nth:
  "monotonous p xs \<longleftrightarrow> (\<forall>i j. i < j \<longrightarrow> j < length xs \<longrightarrow> p (xs ! j) \<longrightarrow> p (xs ! i))"
  by (auto simp: monotonous_def sorted_wrt_iff_nth_less)

lemma monotonous_takeWhile:
  "monotonous p xs \<Longrightarrow> i < length xs \<Longrightarrow> p (xs ! i) \<longleftrightarrow> i < length (takeWhile p xs)"
proof (induction xs arbitrary: i)
  case Nil
  then show ?case by simp
next
  case (Cons x xs)
  show ?case
  proof (cases i)
    case 0
    then show ?thesis by simp
  next
    case (Suc j)
    with Cons.prems have "monotonous p xs" and "j < length xs" and "p (xs ! j) \<Longrightarrow> p x"
      by (auto simp: monotonous_def)
    with Suc Cons.IH [of j] show ?thesis by auto
  qed
qed

lemma monotonous_in_takeWhile:
  "monotonous p xs \<Longrightarrow> x \<in> set xs \<Longrightarrow> p x \<Longrightarrow> x \<in> set (takeWhile p xs)"
  by (induction xs) (auto simp: monotonous_def)

lemma takeWhile_last:
  "takeWhile p xs \<noteq> [] \<Longrightarrow> last (takeWhile p xs) \<in> set xs \<and> p (last (takeWhile p xs))"
  by (metis last_in_set set_takeWhileD)

section \<open>Facts about splitting and joining\<close>

lemma js_split_nonempty [simp]: "js_split c xs \<noteq> []"
  by (induction xs) (auto split: list.splits)

lemma js_split_none [simp]: "c \<notin> set xs \<Longrightarrow> js_split c xs = [xs]"
  by (induction xs) auto

lemma js_split_append: "js_split c (xs @ c # ys) = js_split c xs @ js_split c ys"
  by (induction xs) (auto split: list.splits)

lemma js_split_snoc:
  "x \<noteq> c \<Longrightarrow> js_split c (xs @ [x]) = butlast (js_split c xs) @ [last (js_split c xs) @ [x]]"
  by (induction xs) (auto split: list.splits)

lemma js_split_not_in: "l \<in> set (js_split c xs) \<Longrightarrow> c \<notin> set l"
  by (induction xs arbitrary: l) (auto split: if_splits list.splits)

lemma js_join_snoc [simp]:
  "js_join sep (xs @ [x]) = (if xs = [] then x else js_join sep xs @ sep @ x)"
  by (induction sep xs rule: js_join.induct) auto

lemma js_join_Cons: "js_join sep (x # xs) = (if xs = [] then x else x @ sep @ js_join sep xs)"
  by (cases xs) auto

lemma js_split_join:
  "xs \<noteq> [] \<Longrightarrow> \<forall>x\<in>set xs. c \<notin> set x \<Longrightarrow> js_split c (js_join [c] xs) = xs"
proof (induction xs rule: rev_induct)
  case (snoc x xs)
  then show ?case by (cases "xs = []") (auto simp: js_split_append)
qed simp

lemma js_join_split [simp]: "js_join [c] (js_split c xs) = xs"
proof (induction xs)
  case (Cons x xs)
  then show ?case by (cases "js_split c xs") (auto simp: js_join_Cons split: if_splits)
qed simp

end
