(* ===== verification/TernarySearchTrees.thy ===== *)
theory TernarySearchTrees
  imports Prelude
begin

text \<open>
  \<open>src/patched-vscode/src/vs/base/common/ternarySearchTree.ts\<close>: the classes \<open>TernarySearchTreeNode\<close> and
  \<open>TernarySearchTree\<close>.

  The operations change nodes in place and keep stacks of references to them, and \<open>_delete\<close> calls itself
  while it holds such a stack, so nodes live in a store from numbers to nodes. The tree is used through
  the interface \<open>IKeyIterator\<close>, which is an argument (record \<open>key_iterator\<close>), as is which values and
  keys count as true (\<open>!node.value\<close>, \<open>if (min.key)\<close>). An iterator may throw when it is asked to compare,
  and it may have no value, which throws when it is compared.

  A loop that goes from node to node has a bound, and \<open>Unfinished\<close> says that the bound was too small;
  \<open>Threw\<close> is an error that is thrown. Stacks have their last element first.
\<close>

section \<open>Outcomes\<close>

datatype 'a outcome = Returned 'a | Threw | Unfinished

fun obind :: "'a outcome \<Rightarrow> ('a \<Rightarrow> 'b outcome) \<Rightarrow> 'b outcome" where
  "obind (Returned x) f = f x"
| "obind Threw f = Threw"
| "obind Unfinished f = Unfinished"

section \<open>Nodes and trees\<close>

record ('k, 'i) key_iterator =
  reset_key :: "'k \<Rightarrow> 'i"
  next_segment :: "'i \<Rightarrow> 'i"
  hasNext :: "'i \<Rightarrow> bool"
  cmp :: "'i \<Rightarrow> string \<Rightarrow> int option"
  segment_value :: "'i \<Rightarrow> string option"

record ('k, 'i, 'v) tree_class =
  iterator :: "('k, 'i) key_iterator"
  truthy_value :: "'v \<Rightarrow> bool"
  truthy_key :: "'k \<Rightarrow> bool"

record ('k, 'v) tree_node =
  node_height :: int
  segment :: string
  node_value :: "'v option"
  node_key :: "'k option"
  node_left :: "nat option"
  node_mid :: "nat option"
  node_right :: "nat option"

record ('k, 'v) search_tree =
  nodes :: "nat \<Rightarrow> ('k, 'v) tree_node"
  allocated :: nat
  tree_root :: "nat option"

datatype dir = Left | Mid | Right

definition TernarySearchTreeNode_new :: "string \<Rightarrow> ('k, 'v) tree_node" where
  "TernarySearchTreeNode_new s =
     \<lparr>node_height = 1, segment = s, node_value = None, node_key = None, node_left = None, node_mid = None, node_right = None\<rparr>"

text \<open>What is in the store before a node is, is never read.\<close>

definition TernarySearchTree_new :: "('k, 'v) search_tree" where
  "TernarySearchTree_new = \<lparr>nodes = (\<lambda>_. TernarySearchTreeNode_new []), allocated = 0, tree_root = None\<rparr>"

fun child :: "dir \<Rightarrow> ('k, 'v) tree_node \<Rightarrow> nat option" where
  "child Left n = node_left n"
| "child Mid n = node_mid n"
| "child Right n = node_right n"

fun set_child :: "dir \<Rightarrow> nat option \<Rightarrow> ('k, 'v) tree_node \<Rightarrow> ('k, 'v) tree_node" where
  "set_child Left c n = n\<lparr>node_left := c\<rparr>"
| "set_child Mid c n = n\<lparr>node_mid := c\<rparr>"
| "set_child Right c n = n\<lparr>node_right := c\<rparr>"

definition upd_node :: "nat \<Rightarrow> (('k, 'v) tree_node \<Rightarrow> ('k, 'v) tree_node) \<Rightarrow> ('k, 'v) search_tree \<Rightarrow> ('k, 'v) search_tree" where
  "upd_node a f t = t\<lparr>nodes := (nodes t)(a := f (nodes t a))\<rparr>"

definition alloc_node :: "string \<Rightarrow> ('k, 'v) search_tree \<Rightarrow> nat \<times> ('k, 'v) search_tree" where
  "alloc_node s t =
     (allocated t, t\<lparr>nodes := (nodes t)(allocated t := TernarySearchTreeNode_new s), allocated := allocated t + 1\<rparr>)"

section \<open>Heights and rotations\<close>

definition height_of :: "nat option \<Rightarrow> ('k, 'v) search_tree \<Rightarrow> int" where
  "height_of c t = (case c of None \<Rightarrow> 0 | Some a \<Rightarrow> node_height (nodes t a))"

definition updateHeight :: "nat \<Rightarrow> ('k, 'v) search_tree \<Rightarrow> ('k, 'v) search_tree" where
  "updateHeight this t =
     upd_node this (\<lambda>n. n\<lparr>node_height := 1 + max (height_of (node_left n) t) (height_of (node_right n) t)\<rparr>) t"

definition balanceFactor :: "nat \<Rightarrow> ('k, 'v) search_tree \<Rightarrow> int" where
  "balanceFactor this t = height_of (node_right (nodes t this)) t - height_of (node_left (nodes t this)) t"

definition isEmpty :: "('v \<Rightarrow> bool) \<Rightarrow> ('k, 'v) tree_node \<Rightarrow> bool" where
  "isEmpty tr n \<longleftrightarrow> node_left n = None \<and> node_mid n = None \<and> node_right n = None \<and>
     \<not> (case node_value n of None \<Rightarrow> False | Some v \<Rightarrow> tr v)"

definition rotateLeft :: "nat \<Rightarrow> ('k, 'v) search_tree \<Rightarrow> (nat \<times> ('k, 'v) search_tree) outcome" where
  "rotateLeft this t =
     (case node_right (nodes t this) of
        None \<Rightarrow> Threw
      | Some tmp \<Rightarrow>
          let t = upd_node this (\<lambda>n. n\<lparr>node_right := node_left (nodes t tmp)\<rparr>) t;
              t = upd_node tmp (\<lambda>n. n\<lparr>node_left := Some this\<rparr>) t
          in Returned (tmp, updateHeight tmp (updateHeight this t)))"

definition rotateRight :: "nat \<Rightarrow> ('k, 'v) search_tree \<Rightarrow> (nat \<times> ('k, 'v) search_tree) outcome" where
  "rotateRight this t =
     (case node_left (nodes t this) of
        None \<Rightarrow> Threw
      | Some tmp \<Rightarrow>
          let t = upd_node this (\<lambda>n. n\<lparr>node_left := node_right (nodes t tmp)\<rparr>) t;
              t = upd_node tmp (\<lambda>n. n\<lparr>node_right := Some this\<rparr>) t
          in Returned (tmp, updateHeight tmp (updateHeight this t)))"

text \<open>\<open>stack[i - 1][1].<dir> = stack[i][1]\<close>, or the root for the first element of the stack.\<close>

fun patch :: "(dir \<times> nat) list \<Rightarrow> nat option \<Rightarrow> ('k, 'v) search_tree \<Rightarrow> ('k, 'v) search_tree" where
  "patch [] c t = t\<lparr>tree_root := c\<rparr>"
| "patch ((d, parent) # up) c t = upd_node parent (set_child d c) t"

section \<open>Insertion\<close>

definition clear_tree :: "('k, 'v) search_tree \<Rightarrow> ('k, 'v) search_tree" where
  "clear_tree t = t\<lparr>tree_root := None\<rparr>"

text \<open>
  The step that every search makes at a node: where it goes, or nowhere if the key ends here, and the
  iterator behind it. A value that is not a number (\<open>NaN\<close>) compares as equal.
\<close>

definition search_step :: "('k, 'i, 'v) tree_class \<Rightarrow> 'i \<Rightarrow> string \<Rightarrow> (dir option \<times> 'i) outcome" where
  "search_step C i s =
     (case cmp (iterator C) i s of
        None \<Rightarrow> Threw
      | Some val \<Rightarrow>
          Returned
            (if val > 0 then (Some Left, i)
             else if val < 0 then (Some Right, i)
             else if hasNext (iterator C) i then (Some Mid, next_segment (iterator C) i)
             else (None, i)))"

text \<open>The segment of a new node: with an undefined one the comparison that follows throws.\<close>

definition new_segment :: "('k, 'i, 'v) tree_class \<Rightarrow> 'i \<Rightarrow> string outcome" where
  "new_segment C i = (case segment_value (iterator C) i of None \<Rightarrow> Threw | Some s \<Rightarrow> Returned s)"

text \<open>The child in a direction, which is created when it is missing.\<close>

definition child_or_new :: "('k, 'i, 'v) tree_class \<Rightarrow> dir \<Rightarrow> 'i \<Rightarrow> nat \<Rightarrow> ('k, 'v) search_tree \<Rightarrow> (nat \<times> ('k, 'v) search_tree) outcome" where
  "child_or_new C d i node t =
     (case child d (nodes t node) of
        Some c \<Rightarrow> Returned (c, t)
      | None \<Rightarrow> obind (new_segment C i) (\<lambda>s.
          case alloc_node s t of (c, t) \<Rightarrow> Returned (c, upd_node node (set_child d (Some c)) t)))"

definition root_or_new :: "('k, 'i, 'v) tree_class \<Rightarrow> 'i \<Rightarrow> ('k, 'v) search_tree \<Rightarrow> (nat \<times> ('k, 'v) search_tree) outcome" where
  "root_or_new C i t =
     (case tree_root t of
        Some r \<Rightarrow> Returned (r, t)
      | None \<Rightarrow> obind (new_segment C i) (\<lambda>s.
          case alloc_node s t of (r, t) \<Rightarrow> Returned (r, t\<lparr>tree_root := Some r\<rparr>)))"

fun set_descend ::
  "nat \<Rightarrow> ('k, 'i, 'v) tree_class \<Rightarrow> 'i \<Rightarrow> nat \<Rightarrow> (dir \<times> nat) list \<Rightarrow> ('k, 'v) search_tree \<Rightarrow>
   (nat \<times> (dir \<times> nat) list \<times> ('k, 'v) search_tree) outcome" where
  "set_descend 0 C i node stack t = Unfinished"
| "set_descend (Suc n) C i node stack t =
     obind (search_step C i (segment (nodes t node))) (\<lambda>(way, i).
       case way of
         None \<Rightarrow> Returned (node, stack, t)
       | Some d \<Rightarrow> obind (child_or_new C d i node t) (\<lambda>(c, t). set_descend n C i c ((d, node) # stack) t))"

text \<open>The rotation that \<open>set\<close> chooses, by the directions in which it has gone.\<close>

definition set_rotate :: "dir \<Rightarrow> nat \<Rightarrow> (dir \<times> nat) option \<Rightarrow> ('k, 'v) search_tree \<Rightarrow> (nat \<times> ('k, 'v) search_tree) outcome" where
  "set_rotate d1 node below t =
     (case below of
        None \<Rightarrow> Threw
      | Some (d2, b) \<Rightarrow>
          if d1 = Right \<and> d2 = Right then rotateLeft node t
          else if d1 = Left \<and> d2 = Left then rotateRight node t
          else if d1 = Right \<and> d2 = Left then
            obind (rotateRight b t) (\<lambda>(b, t). rotateLeft node (upd_node node (\<lambda>n. n\<lparr>node_right := Some b\<rparr>) t))
          else if d1 = Left \<and> d2 = Right then
            obind (rotateLeft b t) (\<lambda>(b, t). rotateRight node (upd_node node (\<lambda>n. n\<lparr>node_left := Some b\<rparr>) t))
          else Threw)"

fun set_balance ::
  "(dir \<times> nat) option \<Rightarrow> (dir \<times> nat) list \<Rightarrow> ('k, 'v) search_tree \<Rightarrow> ('k, 'v) search_tree outcome" where
  "set_balance below [] t = Returned t"
| "set_balance below ((d1, node) # up) t =
     (let t = updateHeight node t; bf = balanceFactor node t in
      if bf < - 1 \<or> bf > 1 then
        obind (set_rotate d1 node below t) (\<lambda>(top, t). set_balance (Some (d1, top)) up (patch up (Some top) t))
      else set_balance (Some (d1, node)) up t)"

definition set_key ::
  "nat \<Rightarrow> ('k, 'i, 'v) tree_class \<Rightarrow> 'k \<Rightarrow> 'v \<Rightarrow> ('k, 'v) search_tree \<Rightarrow> ('v option \<times> ('k, 'v) search_tree) outcome" where
  "set_key n C key element t =
     (let i = reset_key (iterator C) key in
      obind (root_or_new C i t) (\<lambda>(node, t).
        obind (set_descend n C i node [] t) (\<lambda>(node, stack, t).
          let oldElement = node_value (nodes t node);
              t = upd_node node (\<lambda>n. n\<lparr>node_value := Some element, node_key := Some key\<rparr>) t
          in obind (set_balance None stack t) (\<lambda>t. Returned (oldElement, t)))))"

fun fill_entries :: "nat \<Rightarrow> ('k, 'i, 'v) tree_class \<Rightarrow> ('k \<times> 'v) list \<Rightarrow> ('k, 'v) search_tree \<Rightarrow> ('k, 'v) search_tree outcome" where
  "fill_entries n C [] t = Returned t"
| "fill_entries n C ((k, v) # es) t = obind (set_key n C k v t) (\<lambda>(_, t). fill_entries n C es t)"

text \<open>\<open>fill\<close> of entries, and of keys with one value; \<open>shuffle\<close> is what the call of it does.\<close>

definition fill :: "nat \<Rightarrow> ('k, 'i, 'v) tree_class \<Rightarrow> (('k \<times> 'v) list \<Rightarrow> ('k \<times> 'v) list) \<Rightarrow> ('k \<times> 'v) list \<Rightarrow> ('k, 'v) search_tree \<Rightarrow> ('k, 'v) search_tree outcome" where
  "fill n C shuffle es t = fill_entries n C (shuffle es) t"

definition fill_keys :: "nat \<Rightarrow> ('k, 'i, 'v) tree_class \<Rightarrow> ('k list \<Rightarrow> 'k list) \<Rightarrow> 'v \<Rightarrow> 'k list \<Rightarrow> ('k, 'v) search_tree \<Rightarrow> ('k, 'v) search_tree outcome" where
  "fill_keys n C shuffle element ks t = fill_entries n C (map (\<lambda>k. (k, element)) (shuffle ks)) t"

section \<open>Search\<close>

fun getNode_loop :: "nat \<Rightarrow> ('k, 'i, 'v) tree_class \<Rightarrow> 'i \<Rightarrow> nat option \<Rightarrow> ('k, 'v) search_tree \<Rightarrow> nat option outcome" where
  "getNode_loop n C i None t = Returned None"
| "getNode_loop 0 C i (Some node) t = Unfinished"
| "getNode_loop (Suc n) C i (Some node) t =
     obind (search_step C i (segment (nodes t node))) (\<lambda>(way, i).
       case way of
         None \<Rightarrow> Returned (Some node)
       | Some d \<Rightarrow> getNode_loop n C i (child d (nodes t node)) t)"

definition getNode :: "nat \<Rightarrow> ('k, 'i, 'v) tree_class \<Rightarrow> 'k \<Rightarrow> ('k, 'v) search_tree \<Rightarrow> nat option outcome" where
  "getNode n C key t = getNode_loop n C (reset_key (iterator C) key) (tree_root t) t"

definition get_key :: "nat \<Rightarrow> ('k, 'i, 'v) tree_class \<Rightarrow> 'k \<Rightarrow> ('k, 'v) search_tree \<Rightarrow> 'v option outcome" where
  "get_key n C key t =
     obind (getNode n C key t) (\<lambda>node. Returned (case node of None \<Rightarrow> None | Some a \<Rightarrow> node_value (nodes t a)))"

definition has_key :: "nat \<Rightarrow> ('k, 'i, 'v) tree_class \<Rightarrow> 'k \<Rightarrow> ('k, 'v) search_tree \<Rightarrow> bool outcome" where
  "has_key n C key t =
     obind (getNode n C key t) (\<lambda>node. Returned
       (case node of None \<Rightarrow> False | Some a \<Rightarrow> \<not> (node_value (nodes t a) = None \<and> node_mid (nodes t a) = None)))"

text \<open>\<open>a || b\<close> on values that may be missing.\<close>

definition or_else :: "('v \<Rightarrow> bool) \<Rightarrow> 'v option \<Rightarrow> 'v option \<Rightarrow> 'v option" where
  "or_else tr a b = (case a of None \<Rightarrow> b | Some v \<Rightarrow> if tr v then Some v else b)"

fun findSubstr_loop ::
  "nat \<Rightarrow> ('k, 'i, 'v) tree_class \<Rightarrow> 'i \<Rightarrow> nat option \<Rightarrow> 'v option \<Rightarrow> ('k, 'v) search_tree \<Rightarrow> 'v option outcome" where
  "findSubstr_loop n C i None candidate t = Returned candidate"
| "findSubstr_loop 0 C i (Some node) candidate t = Unfinished"
| "findSubstr_loop (Suc n) C i (Some node) candidate t =
     obind (search_step C i (segment (nodes t node))) (\<lambda>(way, i).
       let candidate' = or_else (truthy_value C) (node_value (nodes t node)) candidate in
       case way of
         None \<Rightarrow> Returned candidate'
       | Some d \<Rightarrow> findSubstr_loop n C i (child d (nodes t node)) (if d = Mid then candidate' else candidate) t)"

definition findSubstr :: "nat \<Rightarrow> ('k, 'i, 'v) tree_class \<Rightarrow> 'k \<Rightarrow> ('k, 'v) search_tree \<Rightarrow> 'v option outcome" where
  "findSubstr n C key t = findSubstr_loop n C (reset_key (iterator C) key) (tree_root t) None t"

section \<open>Entries\<close>

fun dfsEntries ::
  "nat \<Rightarrow> ('k, 'i, 'v) tree_class \<Rightarrow> nat option \<Rightarrow> ('k option \<times> 'v) list \<Rightarrow> ('k, 'v) search_tree \<Rightarrow> ('k option \<times> 'v) list outcome" where
  "dfsEntries n C None bucket t = Returned bucket"
| "dfsEntries 0 C (Some node) bucket t = Unfinished"
| "dfsEntries (Suc n) C (Some node) bucket t =
     obind (dfsEntries n C (node_left (nodes t node)) bucket t) (\<lambda>bucket.
       let bucket = bucket @ (case node_value (nodes t node) of
                                None \<Rightarrow> []
                              | Some v \<Rightarrow> if truthy_value C v then [(node_key (nodes t node), v)] else [])
       in obind (dfsEntries n C (node_mid (nodes t node)) bucket t) (\<lambda>bucket.
            dfsEntries n C (node_right (nodes t node)) bucket t))"

definition entries_from :: "nat \<Rightarrow> ('k, 'i, 'v) tree_class \<Rightarrow> nat option \<Rightarrow> ('k, 'v) search_tree \<Rightarrow> ('k option \<times> 'v) list outcome" where
  "entries_from n C node t = dfsEntries n C node [] t"

definition tree_entries :: "nat \<Rightarrow> ('k, 'i, 'v) tree_class \<Rightarrow> ('k, 'v) search_tree \<Rightarrow> ('k option \<times> 'v) list outcome" where
  "tree_entries n C t = entries_from n C (tree_root t) t"

text \<open>The calls that \<open>forEach\<close> makes.\<close>

definition forEach_calls :: "nat \<Rightarrow> ('k, 'i, 'v) tree_class \<Rightarrow> ('k, 'v) search_tree \<Rightarrow> ('v \<times> 'k option) list outcome" where
  "forEach_calls n C t = obind (tree_entries n C t) (\<lambda>es. Returned (map (\<lambda>(key, value). (value, key)) es))"

text \<open>\<open>_findSuperstrOrElement\<close>: nothing, an element, or the entries below the key.\<close>

datatype ('k, 'v) superstr = Nothing | Element 'v | Entries "('k option \<times> 'v) list"

fun findSuperstr_loop ::
  "nat \<Rightarrow> ('k, 'i, 'v) tree_class \<Rightarrow> bool \<Rightarrow> 'i \<Rightarrow> nat option \<Rightarrow> ('k, 'v) search_tree \<Rightarrow> ('k, 'v) superstr outcome" where
  "findSuperstr_loop n C allowValue i None t = Returned Nothing"
| "findSuperstr_loop 0 C allowValue i (Some node) t = Unfinished"
| "findSuperstr_loop (Suc n) C allowValue i (Some node) t =
     obind (search_step C i (segment (nodes t node))) (\<lambda>(way, i).
       case way of
         Some d \<Rightarrow> findSuperstr_loop n C allowValue i (child d (nodes t node)) t
       | None \<Rightarrow>
           (case node_mid (nodes t node) of
              None \<Rightarrow> Returned (if allowValue then (case node_value (nodes t node) of None \<Rightarrow> Nothing | Some v \<Rightarrow> Element v) else Nothing)
            | Some m \<Rightarrow> obind (entries_from n C (Some m) t) (\<lambda>es. Returned (Entries es))))"

definition findSuperstrOrElement :: "nat \<Rightarrow> ('k, 'i, 'v) tree_class \<Rightarrow> 'k \<Rightarrow> bool \<Rightarrow> ('k, 'v) search_tree \<Rightarrow> ('k, 'v) superstr outcome" where
  "findSuperstrOrElement n C key allowValue t = findSuperstr_loop n C allowValue (reset_key (iterator C) key) (tree_root t) t"

definition findSuperstr :: "nat \<Rightarrow> ('k, 'i, 'v) tree_class \<Rightarrow> 'k \<Rightarrow> ('k, 'v) search_tree \<Rightarrow> ('k, 'v) superstr outcome" where
  "findSuperstr n C key t = findSuperstrOrElement n C key False t"

definition hasElementOrSubtree :: "nat \<Rightarrow> ('k, 'i, 'v) tree_class \<Rightarrow> 'k \<Rightarrow> ('k, 'v) search_tree \<Rightarrow> bool outcome" where
  "hasElementOrSubtree n C key t = obind (findSuperstrOrElement n C key True t) (\<lambda>r. Returned (r \<noteq> Nothing))"

section \<open>Deletion\<close>

fun delete_descend ::
  "nat \<Rightarrow> ('k, 'i, 'v) tree_class \<Rightarrow> 'i \<Rightarrow> nat option \<Rightarrow> (dir \<times> nat) list \<Rightarrow> ('k, 'v) search_tree \<Rightarrow>
   (nat option \<times> (dir \<times> nat) list) outcome" where
  "delete_descend n C i None stack t = Returned (None, stack)"
| "delete_descend 0 C i (Some node) stack t = Unfinished"
| "delete_descend (Suc n) C i (Some node) stack t =
     obind (search_step C i (segment (nodes t node))) (\<lambda>(way, i).
       case way of
         None \<Rightarrow> Returned (Some node, stack)
       | Some d \<Rightarrow> delete_descend n C i (child d (nodes t node)) ((d, node) # stack) t)"

fun min_node :: "nat \<Rightarrow> nat \<Rightarrow> ('k, 'v) search_tree \<Rightarrow> nat outcome" where
  "min_node 0 node t = Unfinished"
| "min_node (Suc n) node t =
     (case node_left (nodes t node) of None \<Rightarrow> Returned node | Some l \<Rightarrow> min_node n l t)"

definition child_balance :: "nat option \<Rightarrow> ('k, 'v) search_tree \<Rightarrow> int outcome" where
  "child_balance c t = (case c of None \<Rightarrow> Threw | Some a \<Rightarrow> Returned (balanceFactor a t))"

definition delete_rotate :: "nat \<Rightarrow> ('k, 'v) search_tree \<Rightarrow> (nat \<times> ('k, 'v) search_tree) outcome" where
  "delete_rotate node t =
     (let bf = balanceFactor node t in
      if bf > 1 then
        obind (child_balance (node_right (nodes t node)) t) (\<lambda>b.
          if b \<ge> 0 then rotateLeft node t
          else obind (rotateRight (the (node_right (nodes t node))) t) (\<lambda>(r, t).
                 rotateLeft node (upd_node node (\<lambda>n. n\<lparr>node_right := Some r\<rparr>) t)))
      else if bf < - 1 then
        obind (child_balance (node_left (nodes t node)) t) (\<lambda>b.
          if b \<le> 0 then rotateRight node t
          else obind (rotateLeft (the (node_left (nodes t node))) t) (\<lambda>(l, t).
                 rotateRight node (upd_node node (\<lambda>n. n\<lparr>node_left := Some l\<rparr>) t)))
      else Returned (node, t))"

fun delete_balance :: "(dir \<times> nat) list \<Rightarrow> ('k, 'v) search_tree \<Rightarrow> ('k, 'v) search_tree outcome" where
  "delete_balance [] t = Returned t"
| "delete_balance ((d, node) # up) t =
     obind (delete_rotate node (updateHeight node t)) (\<lambda>(top, t). delete_balance up (patch up (Some top) t))"

definition delete_clear :: "bool \<Rightarrow> ('k, 'v) tree_node \<Rightarrow> ('k, 'v) tree_node" where
  "delete_clear superStr n =
     (if superStr then n\<lparr>node_left := None, node_mid := None, node_right := None, node_height := 1\<rparr>
      else n\<lparr>node_key := None, node_value := None\<rparr>)"

fun delete_rec :: "nat \<Rightarrow> ('k, 'i, 'v) tree_class \<Rightarrow> 'k \<Rightarrow> bool \<Rightarrow> ('k, 'v) search_tree \<Rightarrow> ('k, 'v) search_tree outcome" where
  "delete_rec 0 C key superStr t = Unfinished"
| "delete_rec (Suc n) C key superStr t =
     obind (delete_descend n C (reset_key (iterator C) key) (tree_root t) [] t) (\<lambda>(found, stack).
       case found of
         None \<Rightarrow> Returned t
       | Some node \<Rightarrow>
           let t = upd_node node (delete_clear superStr) t;
               nd = nodes t node
           in obind
                (if node_mid nd = None \<and> \<not> (case node_value nd of None \<Rightarrow> False | Some v \<Rightarrow> truthy_value C v) then
                   (case (node_left nd, node_right nd) of
                      (Some l, Some r) \<Rightarrow>
                        obind (min_node n r t) (\<lambda>m.
                          let mn = nodes t m in
                          (case node_key mn of
                             None \<Rightarrow> Returned t
                           | Some k \<Rightarrow>
                               if truthy_key C k then
                                 obind (delete_rec n C k False t) (\<lambda>t. Returned
                                   (upd_node node (\<lambda>n. n\<lparr>node_key := node_key mn, node_value := node_value mn, segment := segment mn\<rparr>) t))
                               else Returned t))
                    | _ \<Rightarrow> Returned (patch stack (case node_left nd of None \<Rightarrow> node_right nd | Some l \<Rightarrow> Some l) t))
                 else Returned t)
                (delete_balance stack))"

definition delete_key :: "nat \<Rightarrow> ('k, 'i, 'v) tree_class \<Rightarrow> 'k \<Rightarrow> ('k, 'v) search_tree \<Rightarrow> ('k, 'v) search_tree outcome" where
  "delete_key n C key t = delete_rec n C key False t"

definition deleteSuperstr :: "nat \<Rightarrow> ('k, 'i, 'v) tree_class \<Rightarrow> 'k \<Rightarrow> ('k, 'v) search_tree \<Rightarrow> ('k, 'v) search_tree outcome" where
  "deleteSuperstr n C key t = delete_rec n C key True t"

section \<open>Balance\<close>

fun nodeIsBalanced :: "nat \<Rightarrow> nat option \<Rightarrow> ('k, 'v) search_tree \<Rightarrow> bool outcome" where
  "nodeIsBalanced n None t = Returned True"
| "nodeIsBalanced 0 (Some node) t = Unfinished"
| "nodeIsBalanced (Suc n) (Some node) t =
     (let bf = balanceFactor node t in
      if bf < - 1 \<or> bf > 1 then Returned False
      else obind (nodeIsBalanced n (node_left (nodes t node)) t) (\<lambda>b.
             if b then nodeIsBalanced n (node_right (nodes t node)) t else Returned False))"

definition isBalanced :: "nat \<Rightarrow> ('k, 'v) search_tree \<Rightarrow> bool outcome" where
  "isBalanced n t = nodeIsBalanced n (tree_root t) t"

end
