(* ===== verification/JsValues.thy ===== *)
theory JsValues
  imports Prelude Complex_Main "HOL-Library.Monad_Syntax"
begin

text \<open>
  The JavaScript values and conversions that the context key expressions rely on: numbers,
  primitive values, arrays and records of them (\<open>ContextKeyValue\<close>), truthiness, loose and
  strict equality, the relational operators and \<open>parseFloat\<close>.

  A number is \<open>NaN\<close>, an infinity or a rational number; decimal literals are read exactly, so
  rounding to double precision is not modelled. Strings are lists of characters with codes
  below 256. Two services of the engine are parameters, the record \<open>engine\<close>: the decimal
  printing of a number and the matching of a regular expression (source, flags, input).
\<close>

section \<open>Values\<close>

datatype jsnum = NaN | NegInf | Fin rat | PosInf

datatype prim = Undefined | Null | Bool bool | Num jsnum | Str string

datatype jsval = Prim prim | Arr "prim list" | Obj "(string \<times> prim) list"

record engine =
  num_to_string :: "jsnum \<Rightarrow> string"
  regexp_test :: "string \<Rightarrow> string \<Rightarrow> string \<Rightarrow> bool"

text \<open>A concrete engine for examples.\<close>

definition sample_engine :: engine where
  "sample_engine = \<lparr>num_to_string = (\<lambda>_. ''0''), regexp_test = (\<lambda>source flags input. source = input)\<rparr>"

section \<open>Comparison of strings and numbers\<close>

fun str_less :: "string \<Rightarrow> string \<Rightarrow> bool" where
  "str_less [] [] = False"
| "str_less [] (d # ds) = True"
| "str_less (c # cs) [] = False"
| "str_less (c # cs) (d # ds) =
     (if (of_char c :: nat) < of_char d then True else if c = d then str_less cs ds else False)"

fun num_less :: "jsnum \<Rightarrow> jsnum \<Rightarrow> bool" where
  "num_less (Fin a) (Fin b) = (a < b)"
| "num_less NegInf (Fin b) = True"
| "num_less NegInf PosInf = True"
| "num_less (Fin a) PosInf = True"
| "num_less _ _ = False"

definition num_eq :: "jsnum \<Rightarrow> jsnum \<Rightarrow> bool" where
  "num_eq a b \<longleftrightarrow> a \<noteq> NaN \<and> a = b"

section \<open>Reading numbers\<close>

definition is_digit :: "char \<Rightarrow> bool" where
  "is_digit c \<longleftrightarrow> 48 \<le> (of_char c :: nat) \<and> (of_char c :: nat) \<le> 57"

definition is_space :: "char \<Rightarrow> bool" where
  "is_space c \<longleftrightarrow> (of_char c :: nat) \<in> {9, 10, 11, 12, 13, 32, 160}"

definition digits_value :: "string \<Rightarrow> nat" where
  "digits_value ds = foldl (\<lambda>n c. 10 * n + (of_char c - 48)) 0 ds"

definition scale10 :: "rat \<Rightarrow> int \<Rightarrow> rat" where
  "scale10 r e = (if 0 \<le> e then r * 10 ^ nat e else r / 10 ^ nat (- e))"

text \<open>An exponent part \<open>e+12\<close> at the start of a string: its value and the rest.\<close>

definition read_exponent :: "string \<Rightarrow> int \<times> string" where
  "read_exponent s =
     (case s of
        [] \<Rightarrow> (0, s)
      | c # t \<Rightarrow>
          if c \<noteq> CHR ''e'' \<and> c \<noteq> CHR ''E'' then (0, s)
          else
            let neg = (t \<noteq> [] \<and> hd t = CHR ''-'');
                u = (if t \<noteq> [] \<and> (hd t = CHR ''-'' \<or> hd t = CHR ''+'') then tl t else t);
                ds = takeWhile is_digit u
            in if ds = [] then (0, s)
               else (if neg then - int (digits_value ds) else int (digits_value ds), drop (length ds) u))"

text \<open>The longest unsigned decimal literal at the start of a string.\<close>

definition read_decimal :: "string \<Rightarrow> (rat \<times> string) option" where
  "read_decimal s =
     (let whole = takeWhile is_digit s; r = drop (length whole) s;
          dot = (r \<noteq> [] \<and> hd r = CHR ''.'');
          frac = (if dot then takeWhile is_digit (tl r) else [])
      in if whole = [] \<and> frac = [] then None
         else
           let r = (if dot then drop (length frac) (tl r) else r);
               (e, r) = read_exponent r
           in Some (scale10 (of_nat (digits_value (whole @ frac))) (e - int (length frac)), r))"

definition read_number :: "string \<Rightarrow> (jsnum \<times> string) option" where
  "read_number s =
     (let neg = (s \<noteq> [] \<and> hd s = CHR ''-'');
          u = (if s \<noteq> [] \<and> (hd s = CHR ''-'' \<or> hd s = CHR ''+'') then tl s else s)
      in if take 8 u = ''Infinity'' then Some (if neg then NegInf else PosInf, drop 8 u)
         else map_option (\<lambda>(r, rest). (Fin (if neg then - r else r), rest)) (read_decimal u))"

text \<open>\<open>parseFloat\<close> on a string: the number at the start, after white space.\<close>

definition parse_float :: "string \<Rightarrow> jsnum" where
  "parse_float s =
     (case read_number (dropWhile is_space s) of None \<Rightarrow> NaN | Some (n, _) \<Rightarrow> n)"

text \<open>Integer literals with a radix prefix, as \<open>Number\<close> reads them.\<close>

definition radix_digit :: "char \<Rightarrow> nat" where
  "radix_digit c =
     (let n = (of_char c :: nat) in
      if 48 \<le> n \<and> n \<le> 57 then n - 48 else if 97 \<le> n \<and> n \<le> 102 then n - 87
      else if 65 \<le> n \<and> n \<le> 70 then n - 55 else 99)"

definition read_radix :: "nat \<Rightarrow> string \<Rightarrow> jsnum" where
  "read_radix base ds =
     (if ds \<noteq> [] \<and> list_all (\<lambda>c. radix_digit c < base) ds
      then Fin (of_nat (foldl (\<lambda>n c. base * n + radix_digit c) 0 ds)) else NaN)"

text \<open>\<open>Number\<close> on a string: the whole string, without surrounding white space.\<close>

definition string_to_number :: "string \<Rightarrow> jsnum" where
  "string_to_number s =
     (let t = rev (dropWhile is_space (rev (dropWhile is_space s))) in
      if t = [] then Fin 0
      else if take 2 t = ''0x'' \<or> take 2 t = ''0X'' then read_radix 16 (drop 2 t)
      else if take 2 t = ''0o'' \<or> take 2 t = ''0O'' then read_radix 8 (drop 2 t)
      else if take 2 t = ''0b'' \<or> take 2 t = ''0B'' then read_radix 2 (drop 2 t)
      else case read_number t of Some (n, []) \<Rightarrow> n | _ \<Rightarrow> NaN)"

section \<open>Conversions\<close>

fun to_number :: "prim \<Rightarrow> jsnum" where
  "to_number Undefined = NaN"
| "to_number Null = Fin 0"
| "to_number (Bool b) = Fin (if b then 1 else 0)"
| "to_number (Num n) = n"
| "to_number (Str s) = string_to_number s"

fun prim_to_string :: "engine \<Rightarrow> prim \<Rightarrow> string" where
  "prim_to_string eng Undefined = ''undefined''"
| "prim_to_string eng Null = ''null''"
| "prim_to_string eng (Bool b) = (if b then ''true'' else ''false'')"
| "prim_to_string eng (Num n) = num_to_string eng n"
| "prim_to_string eng (Str s) = s"

text \<open>An array prints its elements with commas, undefined and null as nothing.\<close>

definition elem_to_string :: "engine \<Rightarrow> prim \<Rightarrow> string" where
  "elem_to_string eng p = (if p = Undefined \<or> p = Null then [] else prim_to_string eng p)"

fun to_string :: "engine \<Rightarrow> jsval \<Rightarrow> string" where
  "to_string eng (Prim p) = prim_to_string eng p"
| "to_string eng (Arr ps) = js_join '','' (map (elem_to_string eng) ps)"
| "to_string eng (Obj fs) = ''[object Object]''"

definition to_primitive :: "engine \<Rightarrow> jsval \<Rightarrow> prim" where
  "to_primitive eng v = (case v of Prim p \<Rightarrow> p | _ \<Rightarrow> Str (to_string eng v))"

text \<open>\<open>parseFloat(v)\<close> of any value, and \<open>!!v\<close>.\<close>

definition parseFloat :: "engine \<Rightarrow> jsval \<Rightarrow> jsnum" where
  "parseFloat eng v = parse_float (to_string eng v)"

fun truthy :: "jsval \<Rightarrow> bool" where
  "truthy (Prim Undefined) = False"
| "truthy (Prim Null) = False"
| "truthy (Prim (Bool b)) = b"
| "truthy (Prim (Num n)) = (n \<noteq> NaN \<and> n \<noteq> Fin 0)"
| "truthy (Prim (Str s)) = (s \<noteq> [])"
| "truthy _ = True"

section \<open>Equality and order\<close>

text \<open>\<open>a === b\<close> and, for \<open>includes\<close>, the same with \<open>NaN\<close> equal to itself.\<close>

definition strict_eq :: "prim \<Rightarrow> prim \<Rightarrow> bool" where
  "strict_eq a b \<longleftrightarrow> a = b \<and> a \<noteq> Num NaN"

definition prim_loose_eq :: "prim \<Rightarrow> prim \<Rightarrow> bool" where
  "prim_loose_eq a b =
     (if a \<in> {Undefined, Null} \<or> b \<in> {Undefined, Null}
      then a \<in> {Undefined, Null} \<and> b \<in> {Undefined, Null}
      else case (a, b) of
             (Str s, Str t) \<Rightarrow> s = t
           | _ \<Rightarrow> num_eq (to_number a) (to_number b))"

text \<open>\<open>v == p\<close>; an array or a record is not equal to null or undefined.\<close>

definition loose_eq :: "engine \<Rightarrow> jsval \<Rightarrow> prim \<Rightarrow> bool" where
  "loose_eq eng v p = prim_loose_eq (to_primitive eng v) p"

text \<open>\<open>a < b\<close>: two strings by code units, anything else as numbers.\<close>

definition prim_less :: "prim \<Rightarrow> prim \<Rightarrow> bool" where
  "prim_less a b =
     (case (a, b) of
        (Str s, Str t) \<Rightarrow> str_less s t
      | _ \<Rightarrow> num_less (to_number a) (to_number b))"

section \<open>Facts\<close>

lemma str_less_irrefl [simp]: "\<not> str_less s s"
  by (induction s) simp_all

lemma str_less_linear: "str_less s t \<or> s = t \<or> str_less t s"
  by (induction s t rule: str_less.induct) (auto simp: linorder_neq_iff)

lemma num_less_irrefl [simp]: "\<not> num_less n n"
  by (cases n) simp_all

lemma num_less_linear: "a \<noteq> NaN \<Longrightarrow> b \<noteq> NaN \<Longrightarrow> num_less a b \<or> a = b \<or> num_less b a"
  by (cases a; cases b) auto

lemma num_less_antisym: "num_less a b \<Longrightarrow> \<not> num_less b a"
  by (cases a; cases b) auto

end
