(* ===== verification/SegmentIterators.thy ===== *)
theory SegmentIterators
  imports TernarySearchTrees JsValues
begin

text \<open>
  The iterators of \<open>src/patched-vscode/src/vs/base/common/ternarySearchTree.ts\<close>, with the comparisons of
  \<open>strings.ts\<close> they use. Strings and paths keep the contract \<open>segmented_keys\<close>. \<open>lower\<close> is
  \<open>toLowerCase\<close>, which is only called for characters that are not ASCII.
\<close>

section \<open>Comparisons of strings\<close>

definition compare :: "string \<Rightarrow> string \<Rightarrow> int" where
  "compare a b = (if str_less a b then - 1 else if str_less b a then 1 else 0)"

definition code_at :: "string \<Rightarrow> nat \<Rightarrow> int" where
  "code_at s i = int (of_char (s ! i))"

definition compare_lengths :: "nat \<Rightarrow> nat \<Rightarrow> nat \<Rightarrow> nat \<Rightarrow> int" where
  "compare_lengths aStart aEnd bStart bEnd =
     (let aLen = int aEnd - int aStart; bLen = int bEnd - int bStart in
      if aLen < bLen then - 1 else if aLen > bLen then 1 else 0)"

function compareSubstring :: "string \<Rightarrow> string \<Rightarrow> nat \<Rightarrow> nat \<Rightarrow> nat \<Rightarrow> nat \<Rightarrow> int" where
  "compareSubstring a b aStart aEnd bStart bEnd =
     (if aStart < aEnd \<and> bStart < bEnd then
        let codeA = code_at a aStart; codeB = code_at b bStart in
        if codeA < codeB then - 1
        else if codeA > codeB then 1
        else compareSubstring a b (aStart + 1) aEnd (bStart + 1) bEnd
      else compare_lengths aStart aEnd bStart bEnd)"
  by pat_completeness auto
termination
  by (relation "measure (\<lambda>(a, b, aStart, aEnd, bStart, bEnd). aEnd - aStart)") auto

declare compareSubstring.simps [simp del]

definition isLowerAsciiLetter :: "int \<Rightarrow> bool" where
  "isLowerAsciiLetter code \<longleftrightarrow> 97 \<le> code \<and> code \<le> 122"

definition upper_code :: "int \<Rightarrow> int" where
  "upper_code code = (if isLowerAsciiLetter code then code - 32 else code)"

function compareSubstringIgnoreCase :: "(string \<Rightarrow> string) \<Rightarrow> string \<Rightarrow> string \<Rightarrow> nat \<Rightarrow> nat \<Rightarrow> nat \<Rightarrow> nat \<Rightarrow> int" where
  "compareSubstringIgnoreCase lower a b aStart aEnd bStart bEnd =
     (if aStart < aEnd \<and> bStart < bEnd then
        let codeA = code_at a aStart; codeB = code_at b bStart in
        if codeA = codeB then compareSubstringIgnoreCase lower a b (aStart + 1) aEnd (bStart + 1) bEnd
        else if codeA \<ge> 128 \<or> codeB \<ge> 128 then compareSubstring (lower a) (lower b) aStart aEnd bStart bEnd
        else
          let diff = upper_code codeA - upper_code codeB in
          if diff = 0 then compareSubstringIgnoreCase lower a b (aStart + 1) aEnd (bStart + 1) bEnd
          else diff
      else compare_lengths aStart aEnd bStart bEnd)"
  by pat_completeness auto
termination
  by (relation "measure (\<lambda>(lower, a, b, aStart, aEnd, bStart, bEnd). aEnd - aStart)") auto

declare compareSubstringIgnoreCase.simps [simp del]

definition compareIgnoreCase :: "(string \<Rightarrow> string) \<Rightarrow> string \<Rightarrow> string \<Rightarrow> int" where
  "compareIgnoreCase lower a b = compareSubstringIgnoreCase lower a b 0 (length a) 0 (length b)"

section \<open>StringIterator\<close>

record string_iterator =
  si_value :: string
  si_pos :: nat

definition StringIterator_reset :: "string \<Rightarrow> string_iterator" where
  "StringIterator_reset key = \<lparr>si_value = key, si_pos = 0\<rparr>"

definition StringIterator_next :: "string_iterator \<Rightarrow> string_iterator" where
  "StringIterator_next i = i\<lparr>si_pos := si_pos i + 1\<rparr>"

definition StringIterator_hasNext :: "string_iterator \<Rightarrow> bool" where
  "StringIterator_hasNext i \<longleftrightarrow> int (si_pos i) < int (length (si_value i)) - 1"

text \<open>The code of a character that is not there is \<open>NaN\<close>, and so is the difference.\<close>

definition StringIterator_cmp :: "string_iterator \<Rightarrow> string \<Rightarrow> int option" where
  "StringIterator_cmp i a =
     Some (if a = [] \<or> length (si_value i) \<le> si_pos i then 0 else code_at a 0 - code_at (si_value i) (si_pos i))"

definition StringIterator_value :: "string_iterator \<Rightarrow> string option" where
  "StringIterator_value i = (if si_pos i < length (si_value i) then Some [si_value i ! si_pos i] else None)"

definition StringIterator :: "(string, string_iterator) key_iterator" where
  "StringIterator = \<lparr>reset_key = StringIterator_reset, next_segment = StringIterator_next, hasNext = StringIterator_hasNext,
     cmp = StringIterator_cmp, segment_value = StringIterator_value\<rparr>"

section \<open>ConfigKeysIterator and PathIterator\<close>

text \<open>Both go from segment to segment with the same loop, up to different ends and for different separators.\<close>

function next_loop :: "(char \<Rightarrow> bool) \<Rightarrow> string \<Rightarrow> nat \<Rightarrow> nat \<Rightarrow> nat \<Rightarrow> bool \<Rightarrow> nat \<times> nat" where
  "next_loop sep v stop from to justSeps =
     (if to < stop then
        if sep (v ! to) then
          if justSeps then next_loop sep v stop (from + 1) (to + 1) justSeps else (from, to)
        else next_loop sep v stop from (to + 1) False
      else (from, to))"
  by pat_completeness auto
termination
  by (relation "measure (\<lambda>(sep, v, stop, from, to, justSeps). stop - to)") auto

declare next_loop.simps [simp del]

record segment_iterator =
  it_value :: string
  it_stop :: nat
  it_from :: nat
  it_to :: nat

definition segment_next :: "(char \<Rightarrow> bool) \<Rightarrow> segment_iterator \<Rightarrow> segment_iterator" where
  "segment_next sep i =
     (case next_loop sep (it_value i) (it_stop i) (it_to i) (it_to i) True of (from, to) \<Rightarrow> i\<lparr>it_from := from, it_to := to\<rparr>)"

definition segment_hasNext :: "segment_iterator \<Rightarrow> bool" where
  "segment_hasNext i \<longleftrightarrow> it_to i < it_stop i"

definition segment_cmp :: "(string \<Rightarrow> string) \<Rightarrow> bool \<Rightarrow> segment_iterator \<Rightarrow> string \<Rightarrow> int option" where
  "segment_cmp lower caseSensitive i a =
     Some (if caseSensitive then compareSubstring a (it_value i) 0 (length a) (it_from i) (it_to i)
           else compareSubstringIgnoreCase lower a (it_value i) 0 (length a) (it_from i) (it_to i))"

definition segment_string :: "segment_iterator \<Rightarrow> string option" where
  "segment_string i = Some (drop (it_from i) (take (it_to i) (it_value i)))"

definition ConfigKeysIterator_reset :: "string \<Rightarrow> segment_iterator" where
  "ConfigKeysIterator_reset key =
     segment_next (\<lambda>c. c = CHR ''.'') \<lparr>it_value = key, it_stop = length key, it_from = 0, it_to = 0\<rparr>"

definition ConfigKeysIterator :: "(string \<Rightarrow> string) \<Rightarrow> bool \<Rightarrow> (string, segment_iterator) key_iterator" where
  "ConfigKeysIterator lower caseSensitive =
     \<lparr>reset_key = ConfigKeysIterator_reset, next_segment = segment_next (\<lambda>c. c = CHR ''.''), hasNext = segment_hasNext,
      cmp = segment_cmp lower caseSensitive, segment_value = segment_string\<rparr>"

text \<open>The loop of \<open>reset\<close> that leaves out separators at the end.\<close>

fun value_length :: "(char \<Rightarrow> bool) \<Rightarrow> string \<Rightarrow> nat \<Rightarrow> nat" where
  "value_length sep v 0 = 0"
| "value_length sep v (Suc pos) = (if sep (v ! pos) then value_length sep v pos else Suc pos)"

definition path_sep :: "bool \<Rightarrow> char \<Rightarrow> bool" where
  "path_sep splitOnBackslash c \<longleftrightarrow> c = CHR ''/'' \<or> splitOnBackslash \<and> c = CHR 0x5C"

definition PathIterator_reset :: "bool \<Rightarrow> string \<Rightarrow> segment_iterator" where
  "PathIterator_reset splitOnBackslash key =
     segment_next (path_sep splitOnBackslash)
       \<lparr>it_value = key, it_stop = value_length (path_sep splitOnBackslash) key (length key), it_from = 0, it_to = 0\<rparr>"

definition PathIterator :: "(string \<Rightarrow> string) \<Rightarrow> bool \<Rightarrow> bool \<Rightarrow> (string, segment_iterator) key_iterator" where
  "PathIterator lower splitOnBackslash caseSensitive =
     \<lparr>reset_key = PathIterator_reset splitOnBackslash, next_segment = segment_next (path_sep splitOnBackslash),
      hasNext = segment_hasNext, cmp = segment_cmp lower caseSensitive, segment_value = segment_string\<rparr>"

section \<open>UriIterator\<close>

record uri =
  scheme :: string
  authority :: string
  uri_path :: string
  query :: string
  fragment :: string

datatype UriIteratorState = Scheme | Authority | Path | Query | Fragment

record uri_iterator =
  ui_value :: uri
  ui_path :: segment_iterator
  ui_sensitive :: bool
  ui_states :: "UriIteratorState list"
  ui_idx :: nat

definition UriIterator_reset :: "(uri \<Rightarrow> bool) \<Rightarrow> (uri \<Rightarrow> bool) \<Rightarrow> uri \<Rightarrow> uri_iterator" where
  "UriIterator_reset ignorePathCasing ignoreQueryAndFragment key =
     (let p = PathIterator_reset False (uri_path key) in
      \<lparr>ui_value = key, ui_path = p, ui_sensitive = (\<not> ignorePathCasing key),
       ui_states =
         (if scheme key \<noteq> [] then [Scheme] else []) @
         (if authority key \<noteq> [] then [Authority] else []) @
         (if uri_path key \<noteq> [] \<and> segment_string p \<noteq> Some [] then [Path] else []) @
         (if ignoreQueryAndFragment key then []
          else (if query key \<noteq> [] then [Query] else []) @ (if fragment key \<noteq> [] then [Fragment] else [])),
       ui_idx = 0\<rparr>)"

definition ui_state :: "uri_iterator \<Rightarrow> UriIteratorState option" where
  "ui_state i = (if ui_idx i < length (ui_states i) then Some (ui_states i ! ui_idx i) else None)"

definition UriIterator_next :: "uri_iterator \<Rightarrow> uri_iterator" where
  "UriIterator_next i =
     (if ui_state i = Some Path \<and> segment_hasNext (ui_path i) then i\<lparr>ui_path := segment_next (path_sep False) (ui_path i)\<rparr>
      else i\<lparr>ui_idx := ui_idx i + 1\<rparr>)"

definition UriIterator_hasNext :: "uri_iterator \<Rightarrow> bool" where
  "UriIterator_hasNext i \<longleftrightarrow>
     ui_state i = Some Path \<and> segment_hasNext (ui_path i) \<or> int (ui_idx i) < int (length (ui_states i)) - 1"

definition UriIterator_cmp :: "(string \<Rightarrow> string) \<Rightarrow> uri_iterator \<Rightarrow> string \<Rightarrow> int option" where
  "UriIterator_cmp lower i a =
     (case ui_state i of
        Some Scheme \<Rightarrow> Some (compareIgnoreCase lower a (scheme (ui_value i)))
      | Some Authority \<Rightarrow> Some (compareIgnoreCase lower a (authority (ui_value i)))
      | Some Path \<Rightarrow> segment_cmp lower (ui_sensitive i) (ui_path i) a
      | Some Query \<Rightarrow> Some (compare a (query (ui_value i)))
      | Some Fragment \<Rightarrow> Some (compare a (fragment (ui_value i)))
      | None \<Rightarrow> None)"

definition UriIterator_value :: "uri_iterator \<Rightarrow> string option" where
  "UriIterator_value i =
     (case ui_state i of
        Some Scheme \<Rightarrow> Some (scheme (ui_value i))
      | Some Authority \<Rightarrow> Some (authority (ui_value i))
      | Some Path \<Rightarrow> segment_string (ui_path i)
      | Some Query \<Rightarrow> Some (query (ui_value i))
      | Some Fragment \<Rightarrow> Some (fragment (ui_value i))
      | None \<Rightarrow> None)"

definition UriIterator :: "(string \<Rightarrow> string) \<Rightarrow> (uri \<Rightarrow> bool) \<Rightarrow> (uri \<Rightarrow> bool) \<Rightarrow> (uri, uri_iterator) key_iterator" where
  "UriIterator lower ignorePathCasing ignoreQueryAndFragment =
     \<lparr>reset_key = UriIterator_reset ignorePathCasing ignoreQueryAndFragment, next_segment = UriIterator_next,
      hasNext = UriIterator_hasNext, cmp = UriIterator_cmp lower, segment_value = UriIterator_value\<rparr>"

section \<open>The trees\<close>

text \<open>A key that is a string is true if it is not empty; a \<open>URI\<close> is an object, so it is true.\<close>

definition forStrings :: "('v \<Rightarrow> bool) \<Rightarrow> (string, string_iterator, 'v) tree_class" where
  "forStrings tr = \<lparr>iterator = StringIterator, truthy_value = tr, truthy_key = (\<lambda>k. k \<noteq> [])\<rparr>"

definition forPaths :: "(string \<Rightarrow> string) \<Rightarrow> ('v \<Rightarrow> bool) \<Rightarrow> bool \<Rightarrow> (string, segment_iterator, 'v) tree_class" where
  "forPaths lower tr ignorePathCasing =
     \<lparr>iterator = PathIterator lower True (\<not> ignorePathCasing), truthy_value = tr, truthy_key = (\<lambda>k. k \<noteq> [])\<rparr>"

definition forConfigKeys :: "(string \<Rightarrow> string) \<Rightarrow> ('v \<Rightarrow> bool) \<Rightarrow> (string, segment_iterator, 'v) tree_class" where
  "forConfigKeys lower tr = \<lparr>iterator = ConfigKeysIterator lower True, truthy_value = tr, truthy_key = (\<lambda>k. k \<noteq> [])\<rparr>"

definition forUris :: "(string \<Rightarrow> string) \<Rightarrow> ('v \<Rightarrow> bool) \<Rightarrow> (uri \<Rightarrow> bool) \<Rightarrow> (uri \<Rightarrow> bool) \<Rightarrow> (uri, uri_iterator, 'v) tree_class" where
  "forUris lower tr ignorePathCasing ignoreQueryAndFragment =
     \<lparr>iterator = UriIterator lower ignorePathCasing ignoreQueryAndFragment, truthy_value = tr, truthy_key = (\<lambda>_. True)\<rparr>"

end
