(* ===== verification/TernaryTrees.thy ===== *)
theory TernaryTrees
  imports TernarySearchTrees
begin

text \<open>
  The trees that the nodes in the store of a \<open>TernarySearchTree\<close> make up, as a datatype whose nodes know
  their place in the store, and paths into them as lists of frames. The operations that change one place
  of the store (\<open>updateHeight\<close>, rotations, patching a parent) are shown to do to these trees what their
  names say.
\<close>

section \<open>Trees\<close>

datatype ('k, 'v) ltree =
    Lf
  | Nd nat int string "'v option" "'k option" "('k, 'v) ltree" "('k, 'v) ltree" "('k, 'v) ltree"

fun rt :: "('k, 'v) ltree \<Rightarrow> nat option" where
  "rt Lf = None"
| "rt (Nd a h s v k l m r) = Some a"

fun ht :: "('k, 'v) ltree \<Rightarrow> int" where
  "ht Lf = 0"
| "ht (Nd a h s v k l m r) = h"

fun refs :: "('k, 'v) ltree \<Rightarrow> nat list" where
  "refs Lf = []"
| "refs (Nd a h s v k l m r) = a # refs l @ refs m @ refs r"

text \<open>A store has the nodes of the tree.\<close>

fun rep :: "(nat \<Rightarrow> ('k, 'v) tree_node) \<Rightarrow> ('k, 'v) ltree \<Rightarrow> bool" where
  "rep f Lf = True"
| "rep f (Nd a h s v k l m r) \<longleftrightarrow>
     f a = \<lparr>node_height = h, segment = s, node_value = v, node_key = k, node_left = rt l, node_mid = rt m, node_right = rt r\<rparr> \<and>
     rep f l \<and> rep f m \<and> rep f r"

lemma rep_cong: "(\<And>a. a \<in> set (refs x) \<Longrightarrow> f a = g a) \<Longrightarrow> rep f x \<longleftrightarrow> rep g x"
  by (induction x) simp_all

lemma rep_upd_other [simp]: "a \<notin> set (refs x) \<Longrightarrow> rep (f(a := n)) x \<longleftrightarrow> rep f x"
  by (rule rep_cong) auto

lemma rt_in_refs: "rt x = Some a \<Longrightarrow> a \<in> set (refs x)"
  by (cases x) simp_all

lemma height_of_rep: "rep (nodes t) x \<Longrightarrow> height_of (rt x) t = ht x"
  by (cases x) (simp_all add: height_of_def)

section \<open>Frames\<close>

text \<open>A node without the child in one direction, with its other children from left to right.\<close>

datatype ('k, 'v) frame = Fr dir nat int string "'v option" "'k option" "('k, 'v) ltree" "('k, 'v) ltree"

fun plug1 :: "('k, 'v) frame \<Rightarrow> ('k, 'v) ltree \<Rightarrow> ('k, 'v) ltree" where
  "plug1 (Fr Left a h s v k m r) x = Nd a h s v k x m r"
| "plug1 (Fr Mid a h s v k l r) x = Nd a h s v k l x r"
| "plug1 (Fr Right a h s v k l m) x = Nd a h s v k l m x"

fun plug :: "('k, 'v) frame list \<Rightarrow> ('k, 'v) ltree \<Rightarrow> ('k, 'v) ltree" where
  "plug [] x = x"
| "plug (F # zs) x = plug zs (plug1 F x)"

fun frame_entry :: "('k, 'v) frame \<Rightarrow> dir \<times> nat" where
  "frame_entry (Fr d a h s v k o1 o2) = (d, a)"

abbreviation stack_of :: "('k, 'v) frame list \<Rightarrow> (dir \<times> nat) list" where
  "stack_of zs \<equiv> map frame_entry zs"

fun frame_refs :: "('k, 'v) frame \<Rightarrow> nat list" where
  "frame_refs (Fr d a h s v k o1 o2) = a # refs o1 @ refs o2"

text \<open>The node of a frame when its missing child is \<open>p\<close>.\<close>

fun frame_node :: "('k, 'v) frame \<Rightarrow> nat option \<Rightarrow> ('k, 'v) tree_node" where
  "frame_node (Fr Left a h s v k m r) p =
     \<lparr>node_height = h, segment = s, node_value = v, node_key = k, node_left = p, node_mid = rt m, node_right = rt r\<rparr>"
| "frame_node (Fr Mid a h s v k l r) p =
     \<lparr>node_height = h, segment = s, node_value = v, node_key = k, node_left = rt l, node_mid = p, node_right = rt r\<rparr>"
| "frame_node (Fr Right a h s v k l m) p =
     \<lparr>node_height = h, segment = s, node_value = v, node_key = k, node_left = rt l, node_mid = rt m, node_right = p\<rparr>"

fun rep_frame :: "(nat \<Rightarrow> ('k, 'v) tree_node) \<Rightarrow> ('k, 'v) frame \<Rightarrow> nat option \<Rightarrow> bool" where
  "rep_frame f (Fr d a h s v k o1 o2) p \<longleftrightarrow> f a = frame_node (Fr d a h s v k o1 o2) p \<and> rep f o1 \<and> rep f o2"

fun rep_ctx :: "('k, 'v) search_tree \<Rightarrow> ('k, 'v) frame list \<Rightarrow> nat option \<Rightarrow> bool" where
  "rep_ctx t [] p \<longleftrightarrow> tree_root t = p"
| "rep_ctx t (F # zs) p \<longleftrightarrow> rep_frame (nodes t) F p \<and> rep_ctx t zs (Some (snd (frame_entry F)))"

definition ctx_refs :: "('k, 'v) frame list \<Rightarrow> nat list" where
  "ctx_refs zs = concat (map frame_refs zs)"

lemma ctx_refs_simps [simp]: "ctx_refs [] = []" "ctx_refs (F # zs) = frame_refs F @ ctx_refs zs"
  by (simp_all add: ctx_refs_def)

lemma rep_frame_cong:
  assumes "\<And>a. a \<in> set (frame_refs F) \<Longrightarrow> f a = g a"
  shows "rep_frame f F p \<longleftrightarrow> rep_frame g F p"
proof (cases F)
  case (Fr d a h s v k o1 o2)
  then show ?thesis
    using assms rep_cong [of o1 f g] rep_cong [of o2 f g] by simp
qed

lemma rep_ctx_cong:
  assumes "\<And>a. a \<in> set (ctx_refs zs) \<Longrightarrow> nodes t a = nodes t' a" "tree_root t = tree_root t'"
  shows "rep_ctx t zs p \<longleftrightarrow> rep_ctx t' zs p"
  using assms(1)
proof (induction zs arbitrary: p)
  case (Cons F zs)
  have "rep_frame (nodes t) F p \<longleftrightarrow> rep_frame (nodes t') F p"
    by (rule rep_frame_cong) (simp add: Cons.prems)
  with Cons show ?case by simp
qed (simp add: assms(2))

text \<open>
  The store holds the tree \<open>x\<close> at the place that the frames leave open; what their last node (or the
  root) points to there is \<open>p\<close>.
\<close>

definition holds :: "('k, 'v) search_tree \<Rightarrow> ('k, 'v) frame list \<Rightarrow> nat option \<Rightarrow> ('k, 'v) ltree \<Rightarrow> bool" where
  "holds t zs p x \<longleftrightarrow>
     rep_ctx t zs p \<and> rep (nodes t) x \<and> distinct (refs x @ ctx_refs zs) \<and> (\<forall>a\<in>set (refs x @ ctx_refs zs). a < allocated t)"

lemma holdsD:
  assumes "holds t zs p x"
  shows "rep_ctx t zs p" "rep (nodes t) x" "distinct (refs x)" "distinct (ctx_refs zs)"
    "set (refs x) \<inter> set (ctx_refs zs) = {}"
  using assms by (auto simp: holds_def)

lemma holds_empty_tree: "holds TernarySearchTree_new [] None Lf"
  by (simp add: holds_def TernarySearchTree_new_def)

lemma holds_frame:
  "holds t (F # zs) (rt x) x \<longleftrightarrow> holds t zs (Some (snd (frame_entry F))) (plug1 F x)"
proof (cases F)
  case (Fr d a h s v k o1 o2)
  then show ?thesis by (cases d) (auto simp: holds_def)
qed

lemma rt_plug1 [simp]: "rt (plug1 F x) = Some (snd (frame_entry F))"
  by (cases "(F, x)" rule: plug1.cases) simp_all

lemma holds_plug: "holds t zs (rt x) x \<longleftrightarrow> holds t [] (rt (plug zs x)) (plug zs x)"
proof (induction zs arbitrary: x)
  case (Cons F zs)
  then show ?case by (metis holds_frame plug.simps(2) rt_plug1)
qed simp

lemma upd_node_sels [simp]:
  "nodes (upd_node a f t) = (nodes t)(a := f (nodes t a))" "tree_root (upd_node a f t) = tree_root t"
  "allocated (upd_node a f t) = allocated t"
  by (simp_all add: upd_node_def)

text \<open>Changes of the node in focus, and of what points to it.\<close>

lemma rep_ctx_upd_other [simp]: "a \<notin> set (ctx_refs zs) \<Longrightarrow> rep_ctx (upd_node a f t) zs p \<longleftrightarrow> rep_ctx t zs p"
  by (rule rep_ctx_cong) auto

lemma holds_upd_focus:
  assumes "holds t zs p (Nd a h s v k l m r)"
    "f (nodes t a) = \<lparr>node_height = h', segment = s', node_value = v', node_key = k', node_left = rt l, node_mid = rt m, node_right = rt r\<rparr>"
  shows "holds (upd_node a f t) zs p (Nd a h' s' v' k' l m r)"
  using assms by (auto simp: holds_def)

lemma holds_patch:
  assumes "holds t zs p x"
  shows "holds (patch (stack_of zs) (rt x) t) zs (rt x) x"
proof (cases zs)
  case Nil
  then show ?thesis using assms rep_cong by (auto simp: holds_def)
next
  case (Cons F zs')
  obtain d a h s v k o1 o2 where F: "F = Fr d a h s v k o1 o2" by (cases F)
  show ?thesis
    using assms unfolding Cons F by (cases d) (auto simp: holds_def)
qed

section \<open>Heights and rotations\<close>

fun fix_height :: "('k, 'v) ltree \<Rightarrow> ('k, 'v) ltree" where
  "fix_height Lf = Lf"
| "fix_height (Nd a h s v k l m r) = Nd a (1 + max (ht l) (ht r)) s v k l m r"

lemma rt_fix_height [simp]: "rt (fix_height x) = rt x"
  by (cases x) simp_all

lemma holds_updateHeight:
  assumes "holds t zs p x" "rt x = Some a"
  shows "holds (updateHeight a t) zs p (fix_height x)"
proof -
  obtain h s v k l m r where x: "x = Nd a h s v k l m r" using assms(2) by (cases x) auto
  have "rep (nodes t) l" "rep (nodes t) r"
    "nodes t a = \<lparr>node_height = h, segment = s, node_value = v, node_key = k, node_left = rt l, node_mid = rt m, node_right = rt r\<rparr>"
    using assms(1) by (simp_all add: holds_def x)
  then show ?thesis
    unfolding updateHeight_def x fix_height.simps using assms(1) [unfolded x]
    by (intro holds_upd_focus) (simp_all add: height_of_rep)
qed

lemma balanceFactor_holds:
  assumes "holds t zs p (Nd a h s v k l m r)"
  shows "balanceFactor a t = ht r - ht l"
  using assms by (simp add: holds_def balanceFactor_def height_of_rep)

fun rotL :: "('k, 'v) ltree \<Rightarrow> ('k, 'v) ltree" where
  "rotL (Nd a h s v k l m (Nd b h2 s2 v2 k2 l2 m2 r2)) =
     fix_height (Nd b h2 s2 v2 k2 (fix_height (Nd a h s v k l m l2)) m2 r2)"
| "rotL x = x"

fun rotR :: "('k, 'v) ltree \<Rightarrow> ('k, 'v) ltree" where
  "rotR (Nd a h s v k (Nd b h2 s2 v2 k2 l2 m2 r2) m r) =
     fix_height (Nd b h2 s2 v2 k2 l2 m2 (fix_height (Nd a h s v k r2 m r)))"
| "rotR x = x"

lemma rotateLeft_holds:
  assumes "holds t zs p (Nd a h s v k l m (Nd b h2 s2 v2 k2 l2 m2 r2))"
  shows "\<exists>t'. rotateLeft a t = Returned (b, t') \<and> holds t' zs p (rotL (Nd a h s v k l m (Nd b h2 s2 v2 k2 l2 m2 r2)))"
proof -
  define t1 where "t1 = upd_node b (\<lambda>n. n\<lparr>node_left := Some a\<rparr>) (upd_node a (\<lambda>n. n\<lparr>node_right := rt l2\<rparr>) t)"
  let ?F = "Fr Left b h2 s2 v2 k2 m2 r2" and ?y = "Nd a h s v k l m l2"
  have h1: "holds t1 zs p (Nd b h2 s2 v2 k2 (Nd a h s v k l m l2) m2 r2)"
    using assms by (auto simp: holds_def t1_def)
  have "holds t1 (?F # zs) (rt ?y) ?y" if "p = Some b"
    using h1 that holds_frame [of t1 ?F zs ?y] by simp
  have ne: "a \<noteq> b" using assms by (auto simp: holds_def)
  define t2 where "t2 = updateHeight a t1"
  have l2: "rep (nodes t1) l" "rep (nodes t1) l2" using h1 by (simp_all add: holds_def)
  have h2: "holds t2 zs p (Nd b h2 s2 v2 k2 (fix_height (Nd a h s v k l m l2)) m2 r2)"
    using h1 unfolding t2_def updateHeight_def by (auto simp: holds_def height_of_rep)
  have h3: "holds (updateHeight b t2) zs p (rotL (Nd a h s v k l m (Nd b h2 s2 v2 k2 l2 m2 r2)))"
    using holds_updateHeight [OF h2, of b] by simp
  have "rotateLeft a t = Returned (b, updateHeight b t2)"
    using assms by (simp add: rotateLeft_def holds_def t1_def t2_def Let_def)
  with h3 show ?thesis by blast
qed

lemma rotateRight_holds:
  assumes "holds t zs p (Nd a h s v k (Nd b h2 s2 v2 k2 l2 m2 r2) m r)"
  shows "\<exists>t'. rotateRight a t = Returned (b, t') \<and> holds t' zs p (rotR (Nd a h s v k (Nd b h2 s2 v2 k2 l2 m2 r2) m r))"
proof -
  define t1 where "t1 = upd_node b (\<lambda>n. n\<lparr>node_right := Some a\<rparr>) (upd_node a (\<lambda>n. n\<lparr>node_left := rt r2\<rparr>) t)"
  have h1: "holds t1 zs p (Nd b h2 s2 v2 k2 l2 m2 (Nd a h s v k r2 m r))"
    using assms by (auto simp: holds_def t1_def)
  define t2 where "t2 = updateHeight a t1"
  have h2: "holds t2 zs p (Nd b h2 s2 v2 k2 l2 m2 (fix_height (Nd a h s v k r2 m r)))"
    using h1 unfolding t2_def updateHeight_def by (auto simp: holds_def height_of_rep)
  have h3: "holds (updateHeight b t2) zs p (rotR (Nd a h s v k (Nd b h2 s2 v2 k2 l2 m2 r2) m r))"
    using holds_updateHeight [OF h2, of b] by simp
  have "rotateRight a t = Returned (b, updateHeight b t2)"
    using assms by (simp add: rotateRight_def holds_def t1_def t2_def Let_def)
  with h3 show ?thesis by blast
qed

section \<open>Balance\<close>

fun avl :: "('k, 'v) ltree \<Rightarrow> bool" where
  "avl Lf = True"
| "avl (Nd a h s v k l m r) \<longleftrightarrow>
     h = 1 + max (ht l) (ht r) \<and> ht l \<le> ht r + 1 \<and> ht r \<le> ht l + 1 \<and> avl l \<and> avl m \<and> avl r"

text \<open>A frame that is balanced around a child of height \<open>ho\<close>, and one whose height is that of its node.\<close>

fun frame_ht :: "('k, 'v) frame \<Rightarrow> int" where
  "frame_ht (Fr d a h s v k o1 o2) = h"

fun avl_frame :: "('k, 'v) frame \<Rightarrow> int \<Rightarrow> bool" where
  "avl_frame (Fr Left a h s v k m r) ho \<longleftrightarrow>
     h = 1 + max ho (ht r) \<and> ho \<le> ht r + 1 \<and> ht r \<le> ho + 1 \<and> avl m \<and> avl r"
| "avl_frame (Fr Mid a h s v k l r) ho \<longleftrightarrow>
     h = 1 + max (ht l) (ht r) \<and> ht l \<le> ht r + 1 \<and> ht r \<le> ht l + 1 \<and> avl l \<and> avl r"
| "avl_frame (Fr Right a h s v k l m) ho \<longleftrightarrow>
     h = 1 + max (ht l) ho \<and> ht l \<le> ho + 1 \<and> ho \<le> ht l + 1 \<and> avl l \<and> avl m"

fun avl_ctx :: "('k, 'v) frame list \<Rightarrow> int \<Rightarrow> bool" where
  "avl_ctx [] ho = True"
| "avl_ctx (F # zs) ho \<longleftrightarrow> avl_frame F ho \<and> avl_ctx zs (frame_ht F)"

lemma ht_nonneg: "avl x \<Longrightarrow> 0 \<le> ht x"
  by (induction x) auto

lemma ht_zero: "avl x \<Longrightarrow> ht x = 0 \<longleftrightarrow> x = Lf"
  using ht_nonneg by (cases x) fastforce+

lemma avl_plug1: "avl (plug1 F x) \<longleftrightarrow> avl x \<and> avl_frame F (ht x)"
  by (cases "(F, x)" rule: plug1.cases) auto

lemma ht_plug1 [simp]: "ht (plug1 F x) = frame_ht F"
  by (cases "(F, x)" rule: plug1.cases) simp_all

lemma avl_plug: "avl (plug zs x) \<longleftrightarrow> avl x \<and> avl_ctx zs (ht x)"
  by (induction zs arbitrary: x) (auto simp: avl_plug1)

section \<open>Contents\<close>

text \<open>
  The entries of a tree with the segments that lead to them, in order. Segments are compared by
  their \<open>norm\<close> (for instance without case).
\<close>

fun content :: "(string \<Rightarrow> 'n) \<Rightarrow> ('k, 'v) ltree \<Rightarrow> ('n list \<times> 'k option \<times> 'v) list" where
  "content norm Lf = []"
| "content norm (Nd a h s v k l m r) =
     content norm l @ (case v of None \<Rightarrow> [] | Some v \<Rightarrow> [([norm s], k, v)]) @
     map (apfst (Cons (norm s))) (content norm m) @ content norm r"

text \<open>The segments on the level of the root, and the order of the levels.\<close>

fun level :: "(string \<Rightarrow> 'n) \<Rightarrow> ('k, 'v) ltree \<Rightarrow> 'n set" where
  "level norm Lf = {}"
| "level norm (Nd a h s v k l m r) = {norm s} \<union> level norm l \<union> level norm r"

fun bst :: "(string \<Rightarrow> 'n::linorder) \<Rightarrow> ('k, 'v) ltree \<Rightarrow> bool" where
  "bst norm Lf = True"
| "bst norm (Nd a h s v k l m r) \<longleftrightarrow>
     (\<forall>x\<in>level norm l. x < norm s) \<and> (\<forall>x\<in>level norm r. norm s < x) \<and> bst norm l \<and> bst norm m \<and> bst norm r"

text \<open>Every segment is one that the iterators can compare with.\<close>

fun segments_of :: "('k, 'v) ltree \<Rightarrow> string set" where
  "segments_of Lf = {}"
| "segments_of (Nd a h s v k l m r) = {s} \<union> segments_of l \<union> segments_of m \<union> segments_of r"

text \<open>Trees that differ by rotations and heights only.\<close>

definition alike :: "(string \<Rightarrow> 'n::linorder) \<Rightarrow> ('k, 'v) ltree \<Rightarrow> ('k, 'v) ltree \<Rightarrow> bool" where
  "alike norm x y \<longleftrightarrow>
     content norm x = content norm y \<and> level norm x = level norm y \<and> (bst norm x \<longleftrightarrow> bst norm y) \<and>
     segments_of x = segments_of y \<and> length (refs x) = length (refs y)"

lemma alike_refl [simp]: "alike norm x x"
  by (simp add: alike_def)

lemma alike_trans: "alike norm x y \<Longrightarrow> alike norm y z \<Longrightarrow> alike norm x z"
  by (simp add: alike_def)

lemma alike_plug1: "alike norm x y \<Longrightarrow> alike norm (plug1 F x) (plug1 F y)"
  by (cases "(F, x)" rule: plug1.cases) (auto simp: alike_def)

lemma alike_plug: "alike norm x y \<Longrightarrow> alike norm (plug zs x) (plug zs y)"
  by (induction zs arbitrary: x y) (simp_all add: alike_plug1)

lemma alike_fix_height: "alike norm (fix_height x) x"
  by (cases x) (simp_all add: alike_def)

lemma alike_rotL: "alike norm (rotL x) x"
  by (cases x rule: rotL.cases) (auto simp: alike_def)

lemma alike_rotR: "alike norm (rotR x) x"
  by (cases x rule: rotR.cases) (auto simp: alike_def)

end
