(* ===== verification/TernaryBalance.thy ===== *)
theory TernaryBalance
  imports TernaryTrees
begin

text \<open>
  The loops with which \<open>set\<close> and \<open>_delete\<close> go back to the root restore the balance and change nothing
  else, when the heights above have grown or shrunk by at most one.
\<close>

section \<open>Double rotations\<close>

lemma set_child_eq:
  "set_child Left c = (\<lambda>n. n\<lparr>node_left := c\<rparr>)" "set_child Right c = (\<lambda>n. n\<lparr>node_right := c\<rparr>)"
  by (simp_all add: fun_eq_iff)

lemma double_rotation_RL:
  assumes "holds t zs (Some a) (Nd a h s v k l m (Nd b h2 s2 v2 k2 (Nd c h3 s3 v3 k3 l3 m3 r3) m2 r2))"
  shows "\<exists>t'. obind (rotateRight b t) (\<lambda>(b, t). rotateLeft a (upd_node a (\<lambda>n. n\<lparr>node_right := Some b\<rparr>) t)) = Returned (c, t') \<and>
    holds t' zs (Some a) (rotL (Nd a h s v k l m (rotR (Nd b h2 s2 v2 k2 (Nd c h3 s3 v3 k3 l3 m3 r3) m2 r2))))"
proof -
  let ?F = "Fr Right a h s v k l m" and ?x = "Nd b h2 s2 v2 k2 (Nd c h3 s3 v3 k3 l3 m3 r3) m2 r2"
  have "holds t (?F # zs) (Some b) ?x" using assms holds_frame [of t ?F zs ?x] by simp
  then obtain t1 where t1: "rotateRight b t = Returned (c, t1)" "holds t1 (?F # zs) (Some b) (rotR ?x)"
    using rotateRight_holds by blast
  then have "holds (upd_node a (\<lambda>n. n\<lparr>node_right := Some c\<rparr>) t1) (?F # zs) (rt (rotR ?x)) (rotR ?x)"
    using holds_patch [OF t1(2)] by (simp add: set_child_eq)
  then have "holds (upd_node a (\<lambda>n. n\<lparr>node_right := Some c\<rparr>) t1) zs (Some a) (Nd a h s v k l m (rotR ?x))"
    using holds_frame [of "upd_node a (\<lambda>n. n\<lparr>node_right := Some c\<rparr>) t1" ?F zs "rotR ?x"] by simp
  then show ?thesis using rotateLeft_holds t1(1) by fastforce
qed

lemma double_rotation_LR:
  assumes "holds t zs (Some a) (Nd a h s v k (Nd b h2 s2 v2 k2 l2 m2 (Nd c h3 s3 v3 k3 l3 m3 r3)) m r)"
  shows "\<exists>t'. obind (rotateLeft b t) (\<lambda>(b, t). rotateRight a (upd_node a (\<lambda>n. n\<lparr>node_left := Some b\<rparr>) t)) = Returned (c, t') \<and>
    holds t' zs (Some a) (rotR (Nd a h s v k (rotL (Nd b h2 s2 v2 k2 l2 m2 (Nd c h3 s3 v3 k3 l3 m3 r3))) m r))"
proof -
  let ?F = "Fr Left a h s v k m r" and ?x = "Nd b h2 s2 v2 k2 l2 m2 (Nd c h3 s3 v3 k3 l3 m3 r3)"
  have "holds t (?F # zs) (Some b) ?x" using assms holds_frame [of t ?F zs ?x] by simp
  then obtain t1 where t1: "rotateLeft b t = Returned (c, t1)" "holds t1 (?F # zs) (Some b) (rotL ?x)"
    using rotateLeft_holds by blast
  then have "holds (upd_node a (\<lambda>n. n\<lparr>node_left := Some c\<rparr>) t1) (?F # zs) (rt (rotL ?x)) (rotL ?x)"
    using holds_patch [OF t1(2)] by (simp add: set_child_eq)
  then have "holds (upd_node a (\<lambda>n. n\<lparr>node_left := Some c\<rparr>) t1) zs (Some a) (Nd a h s v k (rotL ?x) m r)"
    using holds_frame [of "upd_node a (\<lambda>n. n\<lparr>node_left := Some c\<rparr>) t1" ?F zs "rotL ?x"] by simp
  then show ?thesis using rotateRight_holds t1(1) by fastforce
qed

text \<open>What a rotation is to give: the tree, balanced, with the same contents.\<close>

definition rotated :: "(string \<Rightarrow> 'n::linorder) \<Rightarrow> ('k, 'v) frame list \<Rightarrow> nat \<Rightarrow> ('k, 'v) ltree \<Rightarrow> int set \<Rightarrow>
    (nat \<times> ('k, 'v) search_tree) outcome \<Rightarrow> bool" where
  "rotated norm zs a x hs result \<longleftrightarrow>
     (\<exists>top t' x'. result = Returned (top, t') \<and> holds t' zs (Some a) x' \<and> rt x' = Some top \<and> avl x' \<and> ht x' \<in> hs \<and> alike norm x' x)"

lemma rotated_left:
  assumes "holds t zs (Some a) (Nd a h s v k l m x)" "avl l" "avl m" "avl x" "x = Nd b h2 s2 v2 k2 l2 m2 r2"
    "ht x = ht l + 2" "ht l2 \<le> ht r2"
  shows "rotated norm zs a (Nd a h s v k l m x) {ht x, ht x + 1} (rotateLeft a t)"
    "ht l2 < ht r2 \<Longrightarrow> rotated norm zs a (Nd a h s v k l m x) {ht x} (rotateLeft a t)"
proof -
  obtain t' where t': "rotateLeft a t = Returned (b, t')" "holds t' zs (Some a) (rotL (Nd a h s v k l m x))"
    using rotateLeft_holds assms(1) unfolding assms(5) by blast
  have "avl (rotL (Nd a h s v k l m x))" "ht (rotL (Nd a h s v k l m x)) \<in> {ht x, ht x + 1}"
    "ht l2 < ht r2 \<Longrightarrow> ht (rotL (Nd a h s v k l m x)) = ht x" "rt (rotL (Nd a h s v k l m x)) = Some b"
    using assms(2-7) by auto
  then show "rotated norm zs a (Nd a h s v k l m x) {ht x, ht x + 1} (rotateLeft a t)"
    "ht l2 < ht r2 \<Longrightarrow> rotated norm zs a (Nd a h s v k l m x) {ht x} (rotateLeft a t)"
    unfolding rotated_def using t' alike_rotL by blast+
qed

lemma rotated_right:
  assumes "holds t zs (Some a) (Nd a h s v k x m r)" "avl r" "avl m" "avl x" "x = Nd b h2 s2 v2 k2 l2 m2 r2"
    "ht x = ht r + 2" "ht r2 \<le> ht l2"
  shows "rotated norm zs a (Nd a h s v k x m r) {ht x, ht x + 1} (rotateRight a t)"
    "ht r2 < ht l2 \<Longrightarrow> rotated norm zs a (Nd a h s v k x m r) {ht x} (rotateRight a t)"
proof -
  obtain t' where t': "rotateRight a t = Returned (b, t')" "holds t' zs (Some a) (rotR (Nd a h s v k x m r))"
    using rotateRight_holds assms(1) unfolding assms(5) by blast
  have "avl (rotR (Nd a h s v k x m r))" "ht (rotR (Nd a h s v k x m r)) \<in> {ht x, ht x + 1}"
    "ht r2 < ht l2 \<Longrightarrow> ht (rotR (Nd a h s v k x m r)) = ht x" "rt (rotR (Nd a h s v k x m r)) = Some b"
    using assms(2-7) by auto
  then show "rotated norm zs a (Nd a h s v k x m r) {ht x, ht x + 1} (rotateRight a t)"
    "ht r2 < ht l2 \<Longrightarrow> rotated norm zs a (Nd a h s v k x m r) {ht x} (rotateRight a t)"
    unfolding rotated_def using t' alike_rotR by blast+
qed

lemma alike_children:
  "alike norm x y \<Longrightarrow> alike norm (Nd a h s v k l m x) (Nd a h s v k l m y)"
  "alike norm x y \<Longrightarrow> alike norm (Nd a h s v k x m r) (Nd a h s v k y m r)"
  by (auto simp: alike_def)

lemma rotated_right_left:
  assumes "holds t zs (Some a) (Nd a h s v k l m x)" "avl l" "avl m" "avl x" "x = Nd b h2 s2 v2 k2 l2 m2 r2"
    "ht x = ht l + 2" "ht r2 < ht l2"
  shows "rotated norm zs a (Nd a h s v k l m x) {ht x}
    (obind (rotateRight b t) (\<lambda>(b, t). rotateLeft a (upd_node a (\<lambda>n. n\<lparr>node_right := Some b\<rparr>) t)))"
proof -
  have "0 \<le> ht r2" using assms(4,5) ht_nonneg by auto
  then obtain c h3 s3 v3 k3 l3 m3 r3 where l2: "l2 = Nd c h3 s3 v3 k3 l3 m3 r3"
    using assms(7) by (cases l2) auto
  obtain t' where t': "obind (rotateRight b t) (\<lambda>(b, t). rotateLeft a (upd_node a (\<lambda>n. n\<lparr>node_right := Some b\<rparr>) t)) = Returned (c, t')"
    "holds t' zs (Some a) (rotL (Nd a h s v k l m (rotR x)))"
    using double_rotation_RL [OF assms(1) [unfolded assms(5) l2]] unfolding assms(5) l2 by blast
  have "avl (rotL (Nd a h s v k l m (rotR x)))" "ht (rotL (Nd a h s v k l m (rotR x))) = ht x"
    "rt (rotL (Nd a h s v k l m (rotR x))) = Some c"
    using assms(2-7) l2 by auto
  moreover have "alike norm (rotL (Nd a h s v k l m (rotR x))) (Nd a h s v k l m x)"
    using alike_rotL alike_children(1) [OF alike_rotR] alike_trans by blast
  ultimately show ?thesis unfolding rotated_def using t' by blast
qed

lemma rotated_left_right:
  assumes "holds t zs (Some a) (Nd a h s v k x m r)" "avl r" "avl m" "avl x" "x = Nd b h2 s2 v2 k2 l2 m2 r2"
    "ht x = ht r + 2" "ht l2 < ht r2"
  shows "rotated norm zs a (Nd a h s v k x m r) {ht x}
    (obind (rotateLeft b t) (\<lambda>(b, t). rotateRight a (upd_node a (\<lambda>n. n\<lparr>node_left := Some b\<rparr>) t)))"
proof -
  have "0 \<le> ht l2" using assms(4,5) ht_nonneg by auto
  then obtain c h3 s3 v3 k3 l3 m3 r3 where r2: "r2 = Nd c h3 s3 v3 k3 l3 m3 r3"
    using assms(7) by (cases r2) auto
  obtain t' where t': "obind (rotateLeft b t) (\<lambda>(b, t). rotateRight a (upd_node a (\<lambda>n. n\<lparr>node_left := Some b\<rparr>) t)) = Returned (c, t')"
    "holds t' zs (Some a) (rotR (Nd a h s v k (rotL x) m r))"
    using double_rotation_LR [OF assms(1) [unfolded assms(5) r2]] unfolding assms(5) r2 by blast
  have "avl (rotR (Nd a h s v k (rotL x) m r))" "ht (rotR (Nd a h s v k (rotL x) m r)) = ht x"
    "rt (rotR (Nd a h s v k (rotL x) m r)) = Some c"
    using assms(2-7) r2 by auto
  moreover have "alike norm (rotR (Nd a h s v k (rotL x) m r)) (Nd a h s v k x m r)"
    using alike_rotR alike_children(2) [OF alike_rotL] alike_trans by blast
  ultimately show ?thesis unfolding rotated_def using t' by blast
qed

section \<open>The way back of an insertion\<close>

fun leans :: "dir \<Rightarrow> ('k, 'v) ltree \<Rightarrow> bool" where
  "leans Left (Nd a h s v k l m r) \<longleftrightarrow> ht l = ht r + 1"
| "leans Right (Nd a h s v k l m r) \<longleftrightarrow> ht r = ht l + 1"
| "leans d x \<longleftrightarrow> False"

text \<open>
  A subtree that had the height \<open>ho\<close>, and the direction in which \<open>set\<close> has gone on from it: if it has
  grown, it leans in this direction, or it is new.
\<close>

definition grown :: "int \<Rightarrow> (dir \<times> nat) option \<Rightarrow> ('k, 'v) ltree \<Rightarrow> bool" where
  "grown ho below x \<longleftrightarrow>
     (\<forall>d b. below = Some (d, b) \<longrightarrow> rt x = Some b) \<and>
     (ht x = ho \<or> ht x = ho + 1 \<and> (ho = 0 \<or> (\<exists>d b. below = Some (d, b) \<and> leans d x)))"

text \<open>Frames around nodes of which some are new, with a height of 1 where there was nothing.\<close>

fun new_ctx :: "('k, 'v) frame list \<Rightarrow> int \<Rightarrow> bool" where
  "new_ctx [] ho = True"
| "new_ctx (F # zs) ho \<longleftrightarrow>
     avl_frame F ho \<and> (new_ctx zs (frame_ht F) \<or> fst (frame_entry F) = Mid \<and> frame_ht F = 1 \<and> new_ctx zs 0)"

lemma avl_new_ctx: "avl_ctx zs ho \<Longrightarrow> new_ctx zs ho"
  by (induction zs arbitrary: ho) simp_all

text \<open>One step of the way back.\<close>

lemma set_balance_step:
  assumes "holds t (F # zs) (rt x) x" "avl_frame F ho" "avl x" "grown ho below x" "0 \<le> ho"
  obtains (fine) "balanceFactor (snd (frame_entry F)) (updateHeight (snd (frame_entry F)) t) \<in> {- 1..1}"
      "avl (fix_height (plug1 F x))" "grown (frame_ht F) (Some (frame_entry F)) (fix_height (plug1 F x))"
      "fst (frame_entry F) = Mid \<Longrightarrow> ht (fix_height (plug1 F x)) = frame_ht F"
      "holds (updateHeight (snd (frame_entry F)) t) zs (Some (snd (frame_entry F))) (fix_height (plug1 F x))"
  | (rotate) "balanceFactor (snd (frame_entry F)) (updateHeight (snd (frame_entry F)) t) \<notin> {- 1..1}"
      "fst (frame_entry F) \<noteq> Mid"
      "rotated norm zs (snd (frame_entry F)) (plug1 F x) {frame_ht F}
        (set_rotate (fst (frame_entry F)) (snd (frame_entry F)) below (updateHeight (snd (frame_entry F)) t))"
proof -
  obtain d a h s v k o1 o2 where F: "F = Fr d a h s v k o1 o2" by (cases F)
  have h0: "holds t zs (Some a) (plug1 F x)" using assms(1) holds_frame [of t F zs x] by (simp add: F)
  have h1: "holds (updateHeight a t) zs (Some a) (fix_height (plug1 F x))"
    using holds_updateHeight [OF h0] by (simp add: F)
  have r: "alike norm (fix_height (plug1 F x)) (plug1 F x)" by (rule alike_fix_height)
  show thesis
  proof (cases d)
    case Mid
    then have "fix_height (plug1 F x) = plug1 F x" using assms(2) by (simp add: F)
    moreover have "avl (plug1 F x)" using assms(2,3) Mid by (auto simp: F)
    ultimately show thesis
      using h1 balanceFactor_holds [of "updateHeight a t" zs "Some a"] assms(2) Mid
      by (intro fine) (auto simp: F grown_def)
  next
    case Left
    let ?m = o1 and ?r = o2
    have y: "fix_height (plug1 F x) = Nd a (1 + max (ht x) (ht ?r)) s v k x ?m ?r" by (simp add: F Left)
    have f: "h = 1 + max ho (ht ?r)" "ho \<le> ht ?r + 1" "ht ?r \<le> ho + 1" "avl ?m" "avl ?r"
      using assms(2) by (simp_all add: F Left)
    have b: "balanceFactor a (updateHeight a t) = ht ?r - ht x"
      using balanceFactor_holds h1 unfolding y by blast
    show thesis
    proof (cases "ht x \<le> ht ?r + 1")
      case True
      then have "avl (fix_height (plug1 F x))" "ht ?r - ht x \<in> {- 1..1}"
        using f assms(3,4) unfolding y by (auto simp: grown_def)
      moreover have "grown h (Some (Left, a)) (fix_height (plug1 F x))"
        using f True assms(4) unfolding y by (auto simp: grown_def)
      ultimately show thesis using h1 b by (intro fine) (simp_all add: F Left)
    next
      case False
      then have x: "ht x = ho + 1" "ho = ht ?r + 1" using f assms(4) by (auto simp: grown_def)
      then have "ho \<noteq> 0" using ht_nonneg [OF f(5)] by simp
      then obtain d2 where d2: "below = Some (d2, the (rt x))" "leans d2 x"
        using assms(4) x by (auto simp: grown_def)
      obtain b h2 s2 v2 k2 l2 m2 r2 where xx: "x = Nd b h2 s2 v2 k2 l2 m2 r2"
        using x(1) assms(5) by (cases x) auto
      have hx: "ht x = ht ?r + 2" "h = ht x" using x f by simp_all
      have al: "alike norm (Nd a (1 + max (ht x) (ht ?r)) s v k x ?m ?r) (plug1 F x)" using r unfolding y .
      have rot: "rotated norm zs a (plug1 F x) {h} (set_rotate Left a below (updateHeight a t))"
      proof (cases d2)
        case Left
        then have "ht r2 < ht l2" using d2(2) by (simp add: xx)
        then have "rotated norm zs a (Nd a (1 + max (ht x) (ht ?r)) s v k x ?m ?r) {ht x} (rotateRight a (updateHeight a t))"
          using rotated_right(2) [OF h1 [unfolded y] f(5,4) assms(3) xx hx(1)] by simp
        then show ?thesis
          using al hx(2) Left alike_trans unfolding rotated_def by (simp add: set_rotate_def d2(1)) blast
      next
        case Right
        then have "ht l2 < ht r2" using d2(2) by (simp add: xx)
        then have "rotated norm zs a (Nd a (1 + max (ht x) (ht ?r)) s v k x ?m ?r) {ht x}
            (obind (rotateLeft b (updateHeight a t)) (\<lambda>(b, t). rotateRight a (upd_node a (\<lambda>n. n\<lparr>node_left := Some b\<rparr>) t)))"
          by (rule rotated_left_right [OF h1 [unfolded y] f(5,4) assms(3) xx hx(1)])
        then show ?thesis
          using al hx(2) Right alike_trans unfolding rotated_def by (simp add: set_rotate_def d2(1) xx) blast
      qed (use d2 in simp)
      then show thesis using b False by (intro rotate) (simp_all add: F Left)
    qed
  next
    case Right
    let ?l = o1 and ?m = o2
    have y: "fix_height (plug1 F x) = Nd a (1 + max (ht ?l) (ht x)) s v k ?l ?m x" by (simp add: F Right)
    have f: "h = 1 + max (ht ?l) ho" "ht ?l \<le> ho + 1" "ho \<le> ht ?l + 1" "avl ?l" "avl ?m"
      using assms(2) by (simp_all add: F Right)
    have b: "balanceFactor a (updateHeight a t) = ht x - ht ?l"
      using balanceFactor_holds h1 unfolding y by blast
    show thesis
    proof (cases "ht x \<le> ht ?l + 1")
      case True
      then have "avl (fix_height (plug1 F x))" "ht x - ht ?l \<in> {- 1..1}"
        using f assms(3,4) unfolding y by (auto simp: grown_def)
      moreover have "grown h (Some (Right, a)) (fix_height (plug1 F x))"
        using f True assms(4) unfolding y by (auto simp: grown_def)
      ultimately show thesis using h1 b by (intro fine) (simp_all add: F Right)
    next
      case False
      then have x: "ht x = ho + 1" "ho = ht ?l + 1" using f assms(4) by (auto simp: grown_def)
      then have "ho \<noteq> 0" using ht_nonneg [OF f(4)] by simp
      then obtain d2 where d2: "below = Some (d2, the (rt x))" "leans d2 x"
        using assms(4) x by (auto simp: grown_def)
      obtain b h2 s2 v2 k2 l2 m2 r2 where xx: "x = Nd b h2 s2 v2 k2 l2 m2 r2"
        using x(1) assms(5) by (cases x) auto
      have hx: "ht x = ht ?l + 2" "h = ht x" using x f by simp_all
      have al: "alike norm (Nd a (1 + max (ht ?l) (ht x)) s v k ?l ?m x) (plug1 F x)" using r unfolding y .
      have rot: "rotated norm zs a (plug1 F x) {h} (set_rotate Right a below (updateHeight a t))"
      proof (cases d2)
        case Right
        then have "ht l2 < ht r2" using d2(2) by (simp add: xx)
        then have "rotated norm zs a (Nd a (1 + max (ht ?l) (ht x)) s v k ?l ?m x) {ht x} (rotateLeft a (updateHeight a t))"
          using rotated_left(2) [OF h1 [unfolded y] f(4,5) assms(3) xx hx(1)] by simp
        then show ?thesis
          using al hx(2) Right alike_trans unfolding rotated_def by (simp add: set_rotate_def d2(1)) blast
      next
        case Left
        then have "ht r2 < ht l2" using d2(2) by (simp add: xx)
        then have "rotated norm zs a (Nd a (1 + max (ht ?l) (ht x)) s v k ?l ?m x) {ht x}
            (obind (rotateRight b (updateHeight a t)) (\<lambda>(b, t). rotateLeft a (upd_node a (\<lambda>n. n\<lparr>node_right := Some b\<rparr>) t)))"
          by (rule rotated_right_left [OF h1 [unfolded y] f(4,5) assms(3) xx hx(1)])
        then show ?thesis
          using al hx(2) Left alike_trans unfolding rotated_def by (simp add: set_rotate_def d2(1) xx) blast
      qed (use d2 in simp)
      then show thesis using b False by (intro rotate) (simp_all add: F Right)
    qed
  qed
qed

lemma set_balance_holds:
  fixes norm :: "string \<Rightarrow> 'n::linorder"
  assumes "holds t zs (rt x) x" "new_ctx zs ho" "avl x" "grown ho below x" "0 \<le> ho"
  shows "\<exists>t' x'. set_balance below (stack_of zs) t = Returned t' \<and> holds t' [] (rt x') x' \<and> avl x' \<and>
    alike norm x' (plug zs x)"
  using assms
proof (induction zs arbitrary: t x ho below)
  case Nil
  then show ?case by (metis alike_refl list.simps(8) plug.simps(1) set_balance.simps(1))
next
  case (Cons F zs)
  define d where "d = fst (frame_entry F)"
  define a where "a = snd (frame_entry F)"
  have e: "frame_entry F = (d, a)" by (simp add: d_def a_def)
  have F: "avl_frame F ho" using Cons.prems(2) by simp
  have h0: "0 \<le> frame_ht F"
    using F Cons.prems(3-5) by (cases "(F, ho)" rule: avl_frame.cases) (auto dest: ht_nonneg)
  have cont: "\<exists>ho'. new_ctx zs ho' \<and> 0 \<le> ho' \<and> (grown (frame_ht F) below' y \<longrightarrow> (d = Mid \<longrightarrow> ht y = frame_ht F) \<longrightarrow> grown ho' below' y)"
    for below' and y :: "('a, 'b) ltree"
    using Cons.prems(2) h0 by (auto simp: d_def grown_def)
  show ?case
  proof (rule set_balance_step [OF Cons.prems(1) F Cons.prems(3-5), where norm = norm])
    assume s: "balanceFactor (snd (frame_entry F)) (updateHeight (snd (frame_entry F)) t) \<in> {- 1..1}"
      "avl (fix_height (plug1 F x))" "grown (frame_ht F) (Some (frame_entry F)) (fix_height (plug1 F x))"
      "fst (frame_entry F) = Mid \<Longrightarrow> ht (fix_height (plug1 F x)) = frame_ht F"
      "holds (updateHeight (snd (frame_entry F)) t) zs (Some (snd (frame_entry F))) (fix_height (plug1 F x))"
    obtain ho' where "new_ctx zs ho'" "0 \<le> ho'" "grown ho' (Some (d, a)) (fix_height (plug1 F x))"
      using cont [of "Some (d, a)" "fix_height (plug1 F x)"] s(3,4) by (auto simp: e)
    then obtain t' x' where b: "set_balance (Some (d, a)) (stack_of zs) (updateHeight a t) = Returned t'"
      "holds t' [] (rt x') x'" "avl x'" "alike norm x' (plug zs (fix_height (plug1 F x)))"
      using Cons.IH [of "updateHeight a t" "fix_height (plug1 F x)" ho' "Some (d, a)"] s(2,5) by (auto simp: e)
    then have "alike norm x' (plug (F # zs) x)"
      using alike_trans [OF b(4) alike_plug [OF alike_fix_height]] by simp
    moreover have "set_balance below (stack_of (F # zs)) t = Returned t'" using s(1) b(1) by (simp add: e Let_def)
    ultimately show ?thesis using b(2,3) by blast
  next
    assume s: "balanceFactor (snd (frame_entry F)) (updateHeight (snd (frame_entry F)) t) \<notin> {- 1..1}"
      "fst (frame_entry F) \<noteq> Mid"
      "rotated norm zs (snd (frame_entry F)) (plug1 F x) {frame_ht F}
        (set_rotate (fst (frame_entry F)) (snd (frame_entry F)) below (updateHeight (snd (frame_entry F)) t))"
    then obtain top t1 y where y: "set_rotate d a below (updateHeight a t) = Returned (top, t1)" "holds t1 zs (Some a) y"
      "rt y = Some top" "avl y" "ht y = frame_ht F" "alike norm y (plug1 F x)"
      by (auto simp: rotated_def e)
    define t2 where "t2 = patch (stack_of zs) (Some top) t1"
    have t2: "holds t2 zs (rt y) y" using holds_patch [OF y(2)] by (simp add: t2_def y(3))
    have "new_ctx zs (frame_ht F)" "grown (frame_ht F) (Some (d, top)) y"
      using Cons.prems(2) s(2) y(3,5) by (simp_all add: grown_def)
    then obtain t' x' where b: "set_balance (Some (d, top)) (stack_of zs) t2 = Returned t'"
      "holds t' [] (rt x') x'" "avl x'" "alike norm x' (plug zs y)"
      using Cons.IH [OF t2 _ y(4) _ h0] by blast
    then have "alike norm x' (plug (F # zs) x)"
      using alike_trans [OF b(4) alike_plug [OF y(6)]] by simp
    moreover have "set_balance below (stack_of (F # zs)) t = Returned t'"
      using s(1) b(1) y(1) by (auto simp: e Let_def t2_def)
    ultimately show ?thesis using b(2,3) by blast
  qed
qed

section \<open>The way back of a deletion\<close>

lemma rotated_mono: "rotated norm zs a x hs res \<Longrightarrow> hs \<subseteq> hs' \<Longrightarrow> alike norm x y \<Longrightarrow> rotated norm zs a y hs' res"
  unfolding rotated_def using alike_trans by blast

lemma delete_rotate_right_heavy:
  assumes "holds t zs (Some a) (Nd a h s v k l m x)" "avl l" "avl m" "avl x" "ht x = ht l + 2"
  shows "rotated norm zs a (Nd a h s v k l m x) {ht x, ht x + 1} (delete_rotate a t)"
proof -
  have "0 \<le> ht l" by (rule ht_nonneg [OF assms(2)])
  then obtain b h2 s2 v2 k2 l2 m2 r2 where x: "x = Nd b h2 s2 v2 k2 l2 m2 r2" using assms(5) by (cases x) auto
  have n: "node_right (nodes t a) = Some b" using assms(1) by (simp add: holds_def x)
  have "holds t (Fr Right a h s v k l m # zs) (rt x) x" using assms(1) holds_frame [of t "Fr Right a h s v k l m" zs x] by simp
  then have bx: "balanceFactor b t = ht r2 - ht l2" using balanceFactor_holds unfolding x by fastforce
  have b: "balanceFactor a t = 2" using balanceFactor_holds [OF assms(1)] assms(5) by simp
  show ?thesis
  proof (cases "ht l2 \<le> ht r2")
    case True
    then show ?thesis
      using rotated_left(1) [OF assms(1-4) x assms(5)] by (simp add: delete_rotate_def b n child_balance_def bx Let_def)
  next
    case False
    then have "rotated norm zs a (Nd a h s v k l m x) {ht x}
      (obind (rotateRight b t) (\<lambda>(b, t). rotateLeft a (upd_node a (\<lambda>n. n\<lparr>node_right := Some b\<rparr>) t)))"
      by (intro rotated_right_left [OF assms(1-4) x assms(5)]) simp
    then have "rotated norm zs a (Nd a h s v k l m x) {ht x} (delete_rotate a t)"
      using False by (simp add: delete_rotate_def b n child_balance_def bx Let_def)
    then show ?thesis by (rule rotated_mono) simp_all
  qed
qed

lemma delete_rotate_left_heavy:
  assumes "holds t zs (Some a) (Nd a h s v k x m r)" "avl r" "avl m" "avl x" "ht x = ht r + 2"
  shows "rotated norm zs a (Nd a h s v k x m r) {ht x, ht x + 1} (delete_rotate a t)"
proof -
  have "0 \<le> ht r" by (rule ht_nonneg [OF assms(2)])
  then obtain b h2 s2 v2 k2 l2 m2 r2 where x: "x = Nd b h2 s2 v2 k2 l2 m2 r2" using assms(5) by (cases x) auto
  have n: "node_left (nodes t a) = Some b" using assms(1) by (simp add: holds_def x)
  have "holds t (Fr Left a h s v k m r # zs) (rt x) x" using assms(1) holds_frame [of t "Fr Left a h s v k m r" zs x] by simp
  then have bx: "balanceFactor b t = ht r2 - ht l2" using balanceFactor_holds unfolding x by fastforce
  have b: "balanceFactor a t = - 2" using balanceFactor_holds [OF assms(1)] assms(5) by simp
  show ?thesis
  proof (cases "ht r2 \<le> ht l2")
    case True
    then show ?thesis
      using rotated_right(1) [OF assms(1-4) x assms(5)] by (simp add: delete_rotate_def b n child_balance_def bx Let_def)
  next
    case False
    then have "rotated norm zs a (Nd a h s v k x m r) {ht x}
      (obind (rotateLeft b t) (\<lambda>(b, t). rotateRight a (upd_node a (\<lambda>n. n\<lparr>node_left := Some b\<rparr>) t)))"
      by (intro rotated_left_right [OF assms(1-4) x assms(5)]) simp
    then have "rotated norm zs a (Nd a h s v k x m r) {ht x} (delete_rotate a t)"
      using False by (simp add: delete_rotate_def b n child_balance_def bx Let_def)
    then show ?thesis by (rule rotated_mono) simp_all
  qed
qed

lemma delete_balance_step:
  assumes "holds t (F # zs) (rt x) x" "avl_frame F ho" "avl x" "ht x = ho \<or> ht x = ho - 1"
  shows "rotated norm zs (snd (frame_entry F)) (plug1 F x) {frame_ht F - 1, frame_ht F}
    (delete_rotate (snd (frame_entry F)) (updateHeight (snd (frame_entry F)) t))"
proof -
  obtain d a h s v k o1 o2 where F: "F = Fr d a h s v k o1 o2" by (cases F)
  have "holds t zs (Some a) (plug1 F x)" using assms(1) holds_frame [of t F zs x] by (simp add: F)
  then have h1: "holds (updateHeight a t) zs (Some a) (fix_height (plug1 F x))"
    using holds_updateHeight by (fastforce simp: F)
  note al = alike_fix_height [of norm "plug1 F x"]
  have fine: ?thesis if "avl (fix_height (plug1 F x))" "ht (fix_height (plug1 F x)) \<in> {h - 1, h}"
  proof -
    obtain h' l m r where y: "fix_height (plug1 F x) = Nd a h' s v k l m r" by (cases d) (auto simp: F)
    have "balanceFactor a (updateHeight a t) = ht r - ht l" using balanceFactor_holds h1 unfolding y by blast
    then have "delete_rotate a (updateHeight a t) = Returned (a, updateHeight a t)"
      using that(1) by (simp add: y delete_rotate_def)
    then show ?thesis using h1 that al unfolding rotated_def y by (auto simp: F)
  qed
  show ?thesis
  proof (cases d)
    case Mid
    then have "fix_height (plug1 F x) = plug1 F x" "avl (plug1 F x)" using assms(2,3) by (auto simp: F)
    then show ?thesis using fine by (simp add: F)
  next
    case Left
    have f: "h = 1 + max ho (ht o2)" "ho \<le> ht o2 + 1" "ht o2 \<le> ho + 1" "avl o1" "avl o2"
      using assms(2) by (simp_all add: F Left)
    have y: "fix_height (plug1 F x) = Nd a (1 + max (ht x) (ht o2)) s v k x o1 o2" by (simp add: F Left)
    show ?thesis
    proof (cases "ht o2 = ht x + 2")
      case True
      then have "{ht o2, ht o2 + 1} \<subseteq> {h - 1, h}" using f assms(4) by auto
      then show ?thesis
        using rotated_mono [OF delete_rotate_right_heavy [OF h1 [unfolded y] assms(3) f(4,5) True] _ al [unfolded y]]
        by (simp add: F)
    next
      case False
      then have "avl (fix_height (plug1 F x))" using f assms(3,4) unfolding y by auto
      moreover have "ht (fix_height (plug1 F x)) \<in> {h - 1, h}" using f assms(4) unfolding y by (auto simp: max_def)
      ultimately show ?thesis by (rule fine)
    qed
  next
    case Right
    have f: "h = 1 + max (ht o1) ho" "ht o1 \<le> ho + 1" "ho \<le> ht o1 + 1" "avl o1" "avl o2"
      using assms(2) by (simp_all add: F Right)
    have y: "fix_height (plug1 F x) = Nd a (1 + max (ht o1) (ht x)) s v k o1 o2 x" by (simp add: F Right)
    show ?thesis
    proof (cases "ht o1 = ht x + 2")
      case True
      then have "{ht o1, ht o1 + 1} \<subseteq> {h - 1, h}" using f assms(4) by auto
      then show ?thesis
        using rotated_mono [OF delete_rotate_left_heavy [OF h1 [unfolded y] assms(3) f(5,4) True] _ al [unfolded y]]
        by (simp add: F)
    next
      case False
      then have "avl (fix_height (plug1 F x))" using f assms(3,4) unfolding y by auto
      moreover have "ht (fix_height (plug1 F x)) \<in> {h - 1, h}" using f assms(4) unfolding y by (auto simp: max_def)
      ultimately show ?thesis by (rule fine)
    qed
  qed
qed

lemma delete_balance_holds:
  fixes norm :: "string \<Rightarrow> 'n::linorder"
  assumes "holds t zs (rt x) x" "avl_ctx zs ho" "avl x" "ht x = ho \<or> ht x = ho - 1"
  shows "\<exists>t' x'. delete_balance (stack_of zs) t = Returned t' \<and> holds t' [] (rt x') x' \<and> avl x' \<and> alike norm x' (plug zs x)"
  using assms
proof (induction zs arbitrary: t x ho)
  case Nil
  then show ?case by (metis alike_refl list.simps(8) plug.simps(1) delete_balance.simps(1))
next
  case (Cons F zs)
  obtain d a where e: "frame_entry F = (d, a)" by fastforce
  have "rotated norm zs a (plug1 F x) {frame_ht F - 1, frame_ht F} (delete_rotate a (updateHeight a t))"
    using delete_balance_step [OF Cons.prems(1) _ Cons.prems(3,4), where norm = norm] Cons.prems(2) by (simp add: e)
  then obtain top t1 y where y: "delete_rotate a (updateHeight a t) = Returned (top, t1)" "holds t1 zs (Some a) y"
    "rt y = Some top" "avl y" "ht y = frame_ht F \<or> ht y = frame_ht F - 1" "alike norm y (plug1 F x)"
    by (auto simp: rotated_def)
  define t2 where "t2 = patch (stack_of zs) (Some top) t1"
  have t2: "holds t2 zs (rt y) y" using holds_patch [OF y(2)] by (simp add: t2_def y(3))
  have "avl_ctx zs (frame_ht F)" using Cons.prems(2) by simp
  then obtain t' x' where b: "delete_balance (stack_of zs) t2 = Returned t'"
    "holds t' [] (rt x') x'" "avl x'" "alike norm x' (plug zs y)"
    using Cons.IH [OF t2 _ y(4,5)] by blast
  have "alike norm x' (plug (F # zs) x)" using alike_trans [OF b(4) alike_plug [OF y(6)]] by simp
  moreover have "delete_balance (stack_of (F # zs)) t = Returned t'" using b(1) y(1) by (simp add: e t2_def)
  ultimately show ?case using b(2,3) by blast
qed

end
