(* ===== verification/TernaryContents.thy ===== *)
theory TernaryContents
  imports TernaryBalance "HOL-Library.List_Lexorder"
begin

text \<open>
  The contents of a tree are a list of entries in the lexicographic order of their segments; searching
  by segments finds them, and frames add a path in front.
\<close>

section \<open>Order\<close>

definition keys :: "(string \<Rightarrow> 'n) \<Rightarrow> ('k, 'v) ltree \<Rightarrow> 'n list list" where
  "keys norm x = map fst (content norm x)"

lemma keys_simps [simp]:
  "keys norm Lf = []"
  "keys norm (Nd a h s v k l m r) =
     keys norm l @ (case v of None \<Rightarrow> [] | Some v \<Rightarrow> [[norm s]]) @ map (Cons (norm s)) (keys norm m) @ keys norm r"
  by (simp_all add: keys_def split: option.splits)

lemma keys_level: "ks \<in> set (keys norm x) \<Longrightarrow> ks \<noteq> [] \<and> hd ks \<in> level norm x"
  by (induction x arbitrary: ks) (auto split: option.splits)

lemma hd_less: "xs \<noteq> [] \<Longrightarrow> ys \<noteq> [] \<Longrightarrow> hd xs < hd ys \<Longrightarrow> xs < ys"
  by (cases xs; cases ys) simp_all

lemma keys_sorted: "bst norm x \<Longrightarrow> sorted_wrt (<) (keys norm x)"
proof (induction x)
  case (Nd a h s v k l m r)
  define own where "own = (case v of None \<Rightarrow> [] | Some v \<Rightarrow> [[norm s]])"
  define ms where "ms = own @ map (Cons (norm s)) (keys norm m)"
  have own: "sorted_wrt (<) own" "set own \<subseteq> {[norm s]}" by (auto simp: own_def split: option.splits)
  have "sorted_wrt (<) (map (Cons (norm s)) (keys norm m))" using Nd by (simp add: sorted_wrt_map)
  moreover have "[norm s] < norm s # y" if "y \<in> set (keys norm m)" for y
    using keys_level [OF that] by (cases y) simp_all
  ultimately have ms: "sorted_wrt (<) ms" using own by (auto simp: ms_def sorted_wrt_append)
  have hd_ms: "y \<noteq> [] \<and> hd y = norm s" if "y \<in> set ms" for y
    using that own(2) by (auto simp: ms_def)
  have lm: "x < y" if "x \<in> set (keys norm l)" "y \<in> set ms" for x y
    using keys_level [OF that(1)] hd_ms [OF that(2)] Nd.prems by (intro hd_less) auto
  have mr: "x < y" if "x \<in> set ms" "y \<in> set (keys norm r)" for x y
    using keys_level [OF that(2)] hd_ms [OF that(1)] Nd.prems by (intro hd_less) auto
  have lr: "x < y" if "x \<in> set (keys norm l)" "y \<in> set (keys norm r)" for x y
    using keys_level [OF that(1)] keys_level [OF that(2)] Nd.prems by (intro hd_less) (auto dest: less_trans)
  have "keys norm (Nd a h s v k l m r) = keys norm l @ ms @ keys norm r" by (simp add: ms_def own_def)
  then show ?case using Nd ms lm mr lr by (auto simp: sorted_wrt_append)
qed simp

lemma distinct_keys: "bst norm x \<Longrightarrow> distinct (keys norm x)"
  using keys_sorted strict_sorted_iff by blast

section \<open>Search\<close>

text \<open>The node at the end of a list of segments.\<close>

fun seek :: "(string \<Rightarrow> 'n::linorder) \<Rightarrow> ('k, 'v) ltree \<Rightarrow> 'n list \<Rightarrow> ('k, 'v) ltree" where
  "seek norm Lf ss = Lf"
| "seek norm (Nd a h s v k l m r) ss =
     (if hd ss < norm s then seek norm l ss
      else if norm s < hd ss then seek norm r ss
      else if tl ss = [] then Nd a h s v k l m r
      else seek norm m (tl ss))"

fun value_of :: "('k, 'v) ltree \<Rightarrow> ('k option \<times> 'v) option" where
  "value_of Lf = None"
| "value_of (Nd a h s v k l m r) = map_option (Pair k) v"

fun mid_of :: "('k, 'v) ltree \<Rightarrow> ('k, 'v) ltree" where
  "mid_of Lf = Lf"
| "mid_of (Nd a h s v k l m r) = m"

lemma map_of_none: "ks \<notin> set (keys norm x) \<Longrightarrow> map_of (content norm x) ks = None"
  by (simp add: keys_def map_of_eq_None_iff image_iff)

lemma map_of_content_other:
  "ss \<noteq> [] \<Longrightarrow> hd ss \<notin> level norm x \<Longrightarrow> map_of (content norm x) ss = None"
  using keys_level map_of_none by blast

lemma map_of_map_Cons:
  "map_of (map (apfst (Cons a)) xs) ss = (if ss \<noteq> [] \<and> hd ss = a then map_of xs (tl ss) else None)"
  by (induction xs) (auto simp: apfst_def map_prod_def split: prod.splits)

lemma map_of_content:
  "bst norm x \<Longrightarrow> ss \<noteq> [] \<Longrightarrow> map_of (content norm x) ss = value_of (seek norm x ss)"
proof (induction x arbitrary: ss)
  case (Nd a h s v k l m r)
  have l: "hd ss \<notin> level norm l" if "\<not> hd ss < norm s" using Nd.prems(1) that by auto
  have r: "hd ss \<notin> level norm r" if "\<not> norm s < hd ss" using Nd.prems(1) that by auto
  have own: "map_of (case v of None \<Rightarrow> [] | Some v \<Rightarrow> [([norm s], k, v)]) ss = (if ss = [norm s] then map_option (Pair k) v else None)"
    by (cases v) auto
  have m: "map_of (content norm m) [] = None" using keys_level [of "[]" norm m] map_of_none by blast
  consider "hd ss < norm s" | "norm s < hd ss" | "hd ss = norm s" by fastforce
  then show ?case
  proof cases
    case 1
    then have "ss \<noteq> [norm s]" by auto
    with 1 show ?thesis
      using Nd r map_of_content_other [OF Nd.prems(2), of norm r] by (auto simp: own map_of_map_Cons map_add_def split: option.splits)
  next
    case 2
    then have "ss \<noteq> [norm s]" by auto
    with 2 show ?thesis
      using Nd l map_of_content_other [OF Nd.prems(2), of norm l] by (auto simp: own map_of_map_Cons map_add_def split: option.splits)
  next
    case 3
    then have lr: "map_of (content norm l) ss = None" "map_of (content norm r) ss = None"
      using l r map_of_content_other [OF Nd.prems(2)] by auto
    show ?thesis
    proof (cases "tl ss = []")
      case True
      then have "ss = [norm s]" using 3 Nd.prems(2) by (cases ss) simp_all
      then show ?thesis using lr m by (auto simp: own map_of_map_Cons map_add_def split: option.splits)
    next
      case False
      then have "ss \<noteq> [norm s]" by auto
      then show ?thesis
        using Nd.IH(2) [of "tl ss"] Nd.prems False 3 lr by (auto simp: own map_of_map_Cons map_add_def split: option.splits)
    qed
  qed
qed simp

text \<open>The entries behind a list of segments are those of the tree in the middle of its node.\<close>

lemma filter_prefix_other:
  "ss \<noteq> [] \<Longrightarrow> hd ss \<notin> level norm x \<Longrightarrow> filter (\<lambda>(ks, _). strict_prefix ss ks) (content norm x) = []"
proof -
  assume ss: "ss \<noteq> []" "hd ss \<notin> level norm x"
  have "\<not> strict_prefix ss ks" if "(ks, e) \<in> set (content norm x)" for ks e
  proof
    assume "strict_prefix ss ks"
    then have "hd ks = hd ss" using ss(1) by (auto simp: strict_prefix_def prefix_def)
    moreover have "hd ks \<in> level norm x" using keys_level that by (force simp: keys_def)
    ultimately show False using ss(2) by simp
  qed
  then show ?thesis by (auto simp: filter_empty_conv)
qed

lemma filter_map_Cons:
  "ss \<noteq> [] \<Longrightarrow> filter (\<lambda>(ks, _). strict_prefix ss ks) (map (apfst (Cons a)) xs) =
     (if hd ss = a then map (apfst (Cons a)) (filter (\<lambda>(ks, _). strict_prefix (tl ss) ks) xs) else [])"
  by (cases ss) (auto simp: filter_map o_def case_prod_unfold)

lemma filter_content:
  "bst norm x \<Longrightarrow> ss \<noteq> [] \<Longrightarrow>
   filter (\<lambda>(ks, _). strict_prefix ss ks) (content norm x) = map (apfst ((@) ss)) (content norm (mid_of (seek norm x ss)))"
proof (induction x arbitrary: ss)
  case (Nd a h s v k l m r)
  have l: "hd ss \<notin> level norm l" if "\<not> hd ss < norm s" using Nd.prems(1) that by auto
  have r: "hd ss \<notin> level norm r" if "\<not> norm s < hd ss" using Nd.prems(1) that by auto
  have own: "filter (\<lambda>(ks, _). strict_prefix ss ks) (case v of None \<Rightarrow> [] | Some v \<Rightarrow> [([norm s], k, v)]) = []"
    using Nd.prems(2) by (cases v) (auto simp: strict_prefix_def prefix_Cons)
  consider "hd ss < norm s" | "norm s < hd ss" | "hd ss = norm s" by fastforce
  then show ?case
  proof cases
    case 1
    then show ?thesis
      using Nd r filter_prefix_other [OF Nd.prems(2), of norm r] by (auto simp: own filter_map_Cons)
  next
    case 2
    then show ?thesis
      using Nd l filter_prefix_other [OF Nd.prems(2), of norm l] by (auto simp: own filter_map_Cons)
  next
    case 3
    then have lr: "filter (\<lambda>(ks, _). strict_prefix ss ks) (content norm l) = []" "filter (\<lambda>(ks, _). strict_prefix ss ks) (content norm r) = []"
      using l r filter_prefix_other [OF Nd.prems(2)] by auto
    obtain ss' where ss: "ss = norm s # ss'" using 3 Nd.prems(2) by (cases ss) simp_all
    show ?thesis
    proof (cases "ss' = []")
      case True
      have "filter (\<lambda>(ks, _). strict_prefix [] ks) (content norm m) = content norm m"
        using keys_level [of _ norm m] by (force simp: filter_id_conv keys_def strict_prefix_def)
      then show ?thesis using lr own True by (simp add: filter_map_Cons ss)
    next
      case False
      then show ?thesis
        using Nd.IH(2) [of ss'] Nd.prems(1) lr own
        by (simp add: filter_map_Cons ss) (simp add: apfst_def map_prod_def o_def case_prod_unfold)
    qed
  qed
qed simp

section \<open>Paths\<close>

fun path :: "(string \<Rightarrow> 'n) \<Rightarrow> ('k, 'v) frame list \<Rightarrow> 'n list" where
  "path norm [] = []"
| "path norm (Fr d a h s v k o1 o2 # zs) = path norm zs @ (if d = Mid then [norm s] else [])"

text \<open>A segment that can be inserted where the frames leave a place.\<close>

fun fits :: "(string \<Rightarrow> 'n::linorder) \<Rightarrow> ('k, 'v) frame list \<Rightarrow> 'n \<Rightarrow> bool" where
  "fits norm [] x = True"
| "fits norm (Fr Left a h s v k o1 o2 # zs) x \<longleftrightarrow> x < norm s \<and> fits norm zs x"
| "fits norm (Fr Right a h s v k o1 o2 # zs) x \<longleftrightarrow> norm s < x \<and> fits norm zs x"
| "fits norm (Fr Mid a h s v k o1 o2 # zs) x = True"

lemma bst_plug:
  "bst norm (plug zs x) \<Longrightarrow> bst norm y \<Longrightarrow> level norm y \<subseteq> level norm x \<union> S \<Longrightarrow> (\<And>u. u \<in> S \<Longrightarrow> fits norm zs u) \<Longrightarrow>
   bst norm (plug zs y)"
proof (induction zs arbitrary: x y S)
  case (Cons F zs)
  have bF: "bst norm (plug1 F x)" if "bst norm (plug zs (plug1 F x))"
    using that
  proof (induction zs arbitrary: x F)
    case (Cons G zs)
    then have "bst norm (plug1 G (plug1 F x))" using Cons.IH by simp
    then show ?case by (cases "(G, plug1 F x)" rule: plug1.cases) simp_all
  qed simp
  obtain d a h s v k o1 o2 where F: "F = Fr d a h s v k o1 o2" by (cases F)
  have b: "bst norm (plug1 F x)" using bF Cons.prems(1) by simp
  show ?case
  proof (cases d)
    case Mid
    have "bst norm (plug zs (plug1 F y))"
      by (rule Cons.IH [of "plug1 F x" _ "{}"]) (use Cons.prems b in \<open>auto simp: F Mid\<close>)
    then show ?thesis by simp
  next
    case Left
    have "bst norm (plug zs (plug1 F y))"
    proof (rule Cons.IH [of "plug1 F x" _ S])
      show "bst norm (plug1 F y)" using Cons.prems(2-4) b by (fastforce simp: F Left)
    qed (use Cons.prems in \<open>auto simp: F Left\<close>)
    then show ?thesis by simp
  next
    case Right
    have "bst norm (plug zs (plug1 F y))"
    proof (rule Cons.IH [of "plug1 F x" _ S])
      show "bst norm (plug1 F y)" using Cons.prems(2-4) b by (fastforce simp: F Right)
    qed (use Cons.prems in \<open>auto simp: F Right\<close>)
    then show ?thesis by simp
  qed
qed simp

lemma bst_plugD: "bst norm (plug zs x) \<Longrightarrow> bst norm x"
proof (induction zs arbitrary: x)
  case (Cons F zs)
  then have "bst norm (plug1 F x)" by simp
  then show ?case by (cases "(F, x)" rule: plug1.cases) simp_all
qed simp

lemma segments_of_plug: "segments_of (plug zs x) = segments_of x \<union> segments_of (plug zs Lf)"
proof (induction zs arbitrary: x)
  case (Cons F zs)
  have "segments_of (plug1 F x) = segments_of x \<union> segments_of (plug1 F Lf)"
    by (cases "(F, x)" rule: plug1.cases) auto
  then show ?case using Cons [of "plug1 F x"] Cons [of "plug1 F Lf"] by auto
qed simp

lemma map_apfst_Nil [simp]: "map (apfst ((@) [])) xs = xs" "map (apfst (\<lambda>x. x)) xs = xs"
  by (induction xs) auto

lemma content_plug:
  "\<exists>pre post. \<forall>x. content norm (plug zs x) = pre @ map (apfst ((@) (path norm zs))) (content norm x) @ post"
proof (induction zs)
  case Nil
  then show ?case by (intro exI [of _ "[]"]) simp
next
  case (Cons F zs)
  obtain d a h s v k o1 o2 where F: "F = Fr d a h s v k o1 o2" by (cases F)
  obtain pre post where z: "\<And>x. content norm (plug zs x) = pre @ map (apfst ((@) (path norm zs))) (content norm x) @ post"
    using Cons by blast
  have "\<exists>pre' post'. \<forall>x. content norm (plug1 F x) = pre' @ map (apfst ((@) (if d = Mid then [norm s] else []))) (content norm x) @ post'"
  proof (cases d)
    case Mid
    show ?thesis
      by (rule exI [of _ "content norm o1 @ (case v of None \<Rightarrow> [] | Some v \<Rightarrow> [([norm s], k, v)])"], rule exI [of _ "content norm o2"])
        (simp add: F Mid)
  next
    case Left
    show ?thesis
      by (rule exI [of _ "[]"], rule exI [of _ "(case v of None \<Rightarrow> [] | Some v \<Rightarrow> [([norm s], k, v)]) @
         map (apfst (Cons (norm s))) (content norm o1) @ content norm o2"]) (simp add: F Left)
  next
    case Right
    show ?thesis
      by (rule exI [of _ "content norm o1 @ (case v of None \<Rightarrow> [] | Some v \<Rightarrow> [([norm s], k, v)]) @
         map (apfst (Cons (norm s))) (content norm o2)"], rule exI [of _ "[]"]) (simp add: F Right)
  qed
  then obtain pre' post' where f: "\<And>x. content norm (plug1 F x) = pre' @ map (apfst ((@) (if d = Mid then [norm s] else []))) (content norm x) @ post'"
    by blast
  have "content norm (plug (F # zs) x) =
      (pre @ map (apfst ((@) (path norm zs))) pre') @ map (apfst ((@) (path norm (F # zs)))) (content norm x) @
      (map (apfst ((@) (path norm zs))) post' @ post)" for x
  proof -
    have "content norm (plug (F # zs) x) = pre @ map (apfst ((@) (path norm zs))) (content norm (plug1 F x)) @ post"
      by (simp add: z)
    also have "map (apfst ((@) (path norm zs))) (content norm (plug1 F x)) =
        map (apfst ((@) (path norm zs))) pre' @ map (apfst ((@) (path norm (F # zs)))) (content norm x) @
        map (apfst ((@) (path norm zs))) post'"
      unfolding f by (simp add: F apfst_def map_prod_def o_def case_prod_unfold)
    finally show ?thesis by simp
  qed
  then show ?case by blast
qed

lemma content_plug_cong: "content norm x = content norm y \<Longrightarrow> content norm (plug zs x) = content norm (plug zs y)"
  using content_plug [of norm zs] by metis

text \<open>Changing the value of one node.\<close>

lemma content_node:
  obtains P Q where "\<And>a h v k. content norm (plug zs (Nd a h s v k l m r)) =
    P @ (case v of None \<Rightarrow> [] | Some v \<Rightarrow> [(path norm zs @ [norm s], k, v)]) @ Q"
proof -
  obtain pre post where z: "\<And>x. content norm (plug zs x) = pre @ map (apfst ((@) (path norm zs))) (content norm x) @ post"
    using content_plug by blast
  have "content norm (plug zs (Nd a h s v k l m r)) =
    (pre @ map (apfst ((@) (path norm zs))) (content norm l)) @
    (case v of None \<Rightarrow> [] | Some v \<Rightarrow> [(path norm zs @ [norm s], k, v)]) @
    (map (apfst ((@) (path norm zs))) (map (apfst (Cons (norm s))) (content norm m) @ content norm r) @ post)" for a h v k
    by (cases v) (simp_all add: z)
  then show thesis by (rule that)
qed

lemma map_of_change:
  assumes "distinct (map fst (P @ (x, e) # Q))"
  shows "map_of (P @ Q) = (map_of (P @ (x, e) # Q))(x := None)" "map_of (P @ (x, e) # Q) x = Some e"
proof -
  have "x \<notin> fst ` set P" "x \<notin> fst ` set Q" using assms by auto
  then have "map_of P x = None" "map_of Q x = None" by (simp_all add: map_of_eq_None_iff)
  then show "map_of (P @ Q) = (map_of (P @ (x, e) # Q))(x := None)" "map_of (P @ (x, e) # Q) x = Some e"
    by (auto simp: map_add_def fun_eq_iff split: option.splits)
qed

lemma content_change:
  assumes "bst norm (plug zs (Nd a h s v k l m r))"
  shows "map_of (content norm (plug zs (Nd a h s v k l m r))) (path norm zs @ [norm s]) = map_option (Pair k) v"
    "map_of (content norm (plug zs (Nd a h' s (Some e) k' l m r))) =
      (map_of (content norm (plug zs (Nd a h s v k l m r))))(path norm zs @ [norm s] \<mapsto> (k', e))"
    "map_of (content norm (plug zs (Nd a h' s None k' l m r))) =
      (map_of (content norm (plug zs (Nd a h s v k l m r))))(path norm zs @ [norm s] := None)"
proof -
  obtain P Q where c: "\<And>a h v k. content norm (plug zs (Nd a h s v k l m r)) =
    P @ (case v of None \<Rightarrow> [] | Some v \<Rightarrow> [(path norm zs @ [norm s], k, v)]) @ Q"
    using content_node by blast
  let ?p = "path norm zs @ [norm s]"
  have "bst norm (plug zs (Nd a h' s v' k' l m r))" for h' v' k'
    by (rule bst_plug [OF assms, of _ "{}"]) (use bst_plugD [OF assms] in simp_all)
  then have d: "distinct (map fst (P @ (?p, k', e) # Q))" for k' e
    using distinct_keys [of norm "plug zs (Nd a h s (Some e) k' l m r)"] by (simp add: keys_def c)
  have n: "map_of (P @ Q) ?p = None" using map_of_change(1) [OF d, of undefined undefined] by (metis fun_upd_same)
  show "map_of (content norm (plug zs (Nd a h s v k l m r))) ?p = map_option (Pair k) v"
    using map_of_change(2) [OF d] n by (cases v) (simp_all add: c)
  have PQ: "map_of (P @ Q) = (map_of (content norm (plug zs (Nd a h s v k l m r))))(?p := None)"
    using map_of_change(1) [OF d] n by (cases v) (simp_all add: c fun_upd_idem)
  then show "map_of (content norm (plug zs (Nd a h' s None k' l m r))) =
      (map_of (content norm (plug zs (Nd a h s v k l m r))))(?p := None)"
    by (simp add: c)
  have "map_of (P @ (?p, k', e) # Q) = (map_of (P @ Q))(?p \<mapsto> (k', e))"
    using map_of_change [OF d, of k' e] by (metis fun_upd_triv fun_upd_upd)
  moreover have "content norm (plug zs (Nd a h' s (Some e) k' l m r)) = P @ (?p, k', e) # Q" by (simp add: c)
  ultimately show "map_of (content norm (plug zs (Nd a h' s (Some e) k' l m r))) =
      (map_of (content norm (plug zs (Nd a h s v k l m r))))(?p \<mapsto> (k', e))"
    by (simp only: PQ fun_upd_upd)
qed

end
