(* ===== verification/TernaryMaps.thy ===== *)
theory TernaryMaps
  imports TernaryContents
begin

text \<open>
  What \<open>TernarySearchTree\<close> relies on of an iterator is the locale \<open>segmented_keys\<close>: it goes through the
  segments of a key, and compares them with those in the nodes by a linear order. On such iterators the
  tree refines a map from lists of segments.
\<close>

section \<open>What queries find\<close>

text \<open>\<open>findSubstr\<close>: the value of the longest prefix of the key that has one which counts as true.\<close>

definition longest_prefix :: "('v \<Rightarrow> bool) \<Rightarrow> ('n list \<rightharpoonup> 'k option \<times> 'v) \<Rightarrow> 'n list \<Rightarrow> 'v option \<Rightarrow> 'v option" where
  "longest_prefix tr m ss candidate =
     fold (\<lambda>p c. or_else tr (map_option snd (m p)) c) (filter (\<lambda>p. p \<noteq> []) (prefixes ss)) candidate"

lemma or_else_simps [simp]: "or_else tr None c = c"
  by (simp add: or_else_def)

lemma prefixes_nonempty: "filter (\<lambda>p. p \<noteq> []) (prefixes (s # ss)) = map (Cons s) (prefixes ss)"
  by (simp add: filter_map o_def)

lemma prefixes_eq: "prefixes ss = [] # filter (\<lambda>p. p \<noteq> []) (prefixes ss)"
  by (cases ss) (simp_all add: filter_map o_def)

lemma fold_constant [simp]: "fold (\<lambda>p c. c) ps c = c"
  by (induction ps arbitrary: c) simp_all

lemma longest_prefix_empty [simp]: "longest_prefix tr Map.empty ss c = c" "longest_prefix tr m [] c = c"
  by (simp_all add: longest_prefix_def)

text \<open>The entries whose value counts as true, in the order of the contents.\<close>

abbreviation truthy_entries :: "('v \<Rightarrow> bool) \<Rightarrow> ('n list \<times> 'k option \<times> 'v) list \<Rightarrow> ('k option \<times> 'v) list" where
  "truthy_entries tr es \<equiv> map snd (filter (\<lambda>(_, _, v). tr v) es)"

lemma truthy_entries_map [simp]: "truthy_entries tr (map (apfst f) es) = truthy_entries tr es"
  by (induction es) auto

section \<open>The contract of iterators\<close>

locale segmented_keys =
  fixes C :: "('k, 'i, 'v) tree_class" and norm :: "string \<Rightarrow> 'n::linorder" and seg_ok :: "string \<Rightarrow> bool"
    and key_ok :: "'k \<Rightarrow> bool" and segs :: "'k \<Rightarrow> 'n list" and at :: "'i \<Rightarrow> 'n list \<Rightarrow> bool"
  assumes at_reset: "key_ok k \<Longrightarrow> at (reset_key (iterator C) k) (segs k)"
    and at_nonempty: "at i ss \<Longrightarrow> ss \<noteq> []"
    and at_value: "at i ss \<Longrightarrow> \<exists>v. segment_value (iterator C) i = Some v \<and> seg_ok v \<and> norm v = hd ss"
    and at_cmp: "at i ss \<Longrightarrow> seg_ok v \<Longrightarrow>
      \<exists>c. cmp (iterator C) i v = Some c \<and> (0 < c \<longleftrightarrow> hd ss < norm v) \<and> (c < 0 \<longleftrightarrow> norm v < hd ss)"
    and at_hasNext: "at i ss \<Longrightarrow> hasNext (iterator C) i \<longleftrightarrow> tl ss \<noteq> []"
    and at_next: "at i ss \<Longrightarrow> tl ss \<noteq> [] \<Longrightarrow> at (next_segment (iterator C) i) (tl ss)"
begin

lemma segs_nonempty: "key_ok k \<Longrightarrow> segs k \<noteq> []"
  using at_reset at_nonempty by blast

lemma search_step_at:
  assumes "at i ss" "seg_ok v"
  shows "search_step C i v = Returned
    (if hd ss < norm v then (Some Left, i) else if norm v < hd ss then (Some Right, i)
     else if tl ss = [] then (None, i) else (Some Mid, next_segment (iterator C) i))"
  using at_cmp [OF assms] at_hasNext [OF assms(1)] by (auto simp: search_step_def)

lemma new_segment_at:
  assumes "at i ss"
  obtains v where "new_segment C i = Returned v" "seg_ok v" "norm v = hd ss"
  using at_value [OF assms] by (auto simp: new_segment_def)

abbreviation segs_ok :: "('k, 'v) ltree \<Rightarrow> bool" where
  "segs_ok x \<equiv> (\<forall>s\<in>segments_of x. seg_ok s)"

definition stored :: "('k, 'v) search_tree \<Rightarrow> ('k, 'v) ltree \<Rightarrow> bool" where
  "stored t x \<longleftrightarrow> holds t [] (rt x) x \<and> avl x \<and> bst norm x \<and> segs_ok x"

lemma stored_root: "stored t x \<Longrightarrow> tree_root t = rt x" "stored t x \<Longrightarrow> rep (nodes t) x"
  by (simp_all add: stored_def holds_def)

section \<open>Queries\<close>

lemma getNode_loop_seek:
  assumes "rep (nodes t) x" "segs_ok x" "at i ss" "length (refs x) \<le> n"
  shows "getNode_loop n C i (rt x) t = Returned (rt (seek norm x ss))"
  using assms
proof (induction x arbitrary: i ss n)
  case (Nd a h s v k l m r)
  then obtain n' where n: "n = Suc n'" "length (refs l) \<le> n'" "length (refs m) \<le> n'" "length (refs r) \<le> n'"
    by (cases n) auto
  have "at (next_segment (iterator C) i) (tl ss)" if "tl ss \<noteq> []" using at_next Nd.prems(3) that by blast
  then show ?case
    using Nd n search_step_at [OF Nd.prems(3), of s] by simp
qed simp

lemma seek_rep: "rep (nodes t) x \<Longrightarrow> rep (nodes t) (seek norm x ss)"
  by (induction norm x ss rule: seek.induct) simp_all

lemma getNode_seek:
  assumes "stored t x" "key_ok key" "length (refs x) \<le> n"
  shows "getNode n C key t = Returned (rt (seek norm x (segs key)))"
  unfolding getNode_def stored_root(1) [OF assms(1)]
  using assms at_reset by (intro getNode_loop_seek) (auto simp: stored_def holds_def)

lemma get_key_map:
  assumes "stored t x" "key_ok key" "length (refs x) \<le> n"
  shows "get_key n C key t = Returned (map_option snd (map_of (content norm x) (segs key)))"
proof -
  have "rep (nodes t) (seek norm x (segs key))" using seek_rep stored_root(2) [OF assms(1)] by blast
  moreover have "map_of (content norm x) (segs key) = value_of (seek norm x (segs key))"
    using assms segs_nonempty by (intro map_of_content) (auto simp: stored_def)
  ultimately show ?thesis
    by (cases "seek norm x (segs key)") (simp_all add: get_key_def getNode_seek [OF assms] option.map_comp o_def option.map_ident)
qed

lemma longest_prefix_Nd:
  assumes "bst norm (Nd a h s v k l m r)" "ss \<noteq> []"
  shows "longest_prefix (truthy_value C) (map_of (content norm (Nd a h s v k l m r))) ss c =
    (if hd ss < norm s then longest_prefix (truthy_value C) (map_of (content norm l)) ss c
     else if norm s < hd ss then longest_prefix (truthy_value C) (map_of (content norm r)) ss c
     else longest_prefix (truthy_value C) (map_of (content norm m)) (tl ss) (or_else (truthy_value C) v c))"
proof -
  let ?x = "Nd a h s v k l m r"
  define M where "M = map_of (content norm ?x)"
  let ?ps = "filter (\<lambda>p. p \<noteq> []) (prefixes ss)"
  have ps: "p \<noteq> [] \<and> hd p = hd ss" if "p \<in> set ?ps" for p
    using that assms(2) by (cases ss) auto
  have eq: "M p = value_of (seek norm ?x p)" "map_of (content norm l) p = value_of (seek norm l p)"
    "map_of (content norm m) p = value_of (seek norm m p)"
    "map_of (content norm r) p = value_of (seek norm r p)" if "p \<noteq> []" for p
    using map_of_content [OF assms(1) that] map_of_content [OF _ that, of norm l] map_of_content [OF _ that, of norm m]
      map_of_content [OF _ that, of norm r] assms(1)
    unfolding M_def by (simp_all del: content.simps)
  have same: "longest_prefix (truthy_value C) M ss c = longest_prefix (truthy_value C) M' ss c" if "\<And>p. p \<in> set ?ps \<Longrightarrow> M p = M' p" for M'
    unfolding longest_prefix_def by (rule fold_cong) (simp_all only: that)
  consider "hd ss < norm s" | "norm s < hd ss" | "hd ss = norm s" by fastforce
  then show ?thesis
  proof cases
    case 1
    have "M p = map_of (content norm l) p" if "p \<in> set ?ps" for p
      using eq(1,2) [of p] ps [OF that] 1 by simp
    then show ?thesis using same [of "map_of (content norm l)"] 1 by (simp only: M_def [symmetric] if_True)
  next
    case 2
    have "M p = map_of (content norm r) p" if "p \<in> set ?ps" for p
      using eq(1,4) [of p] ps [OF that] 2 by auto
    then show ?thesis using same [of "map_of (content norm r)"] 2 by (auto simp: M_def [symmetric] simp del: content.simps)
  next
    case 3
    obtain ss' where ss: "ss = norm s # ss'" using 3 assms(2) by (cases ss) simp_all
    have "?ps = [norm s] # map (Cons (norm s)) (filter (\<lambda>p. p \<noteq> []) (prefixes ss'))"
      unfolding ss prefixes_nonempty by (subst prefixes_eq) simp
    moreover have "fold (\<lambda>p c. or_else (truthy_value C) (map_option snd (M p)) c)
        (map (Cons (norm s)) (filter (\<lambda>p. p \<noteq> []) (prefixes ss'))) c' =
      fold (\<lambda>p c. or_else (truthy_value C) (map_option snd (map_of (content norm m) p)) c) (filter (\<lambda>p. p \<noteq> []) (prefixes ss')) c'" for c'
      unfolding fold_map by (rule fold_cong) (auto simp: eq)
    ultimately show ?thesis
      unfolding M_def [symmetric] using 3 eq(1) [of "[norm s]"]
      by (simp add: longest_prefix_def ss option.map_comp o_def option.map_ident)
  qed
qed

lemma findSubstr_loop_longest:
  assumes "rep (nodes t) x" "segs_ok x" "bst norm x" "at i ss" "length (refs x) \<le> n"
  shows "findSubstr_loop n C i (rt x) candidate t = Returned (longest_prefix (truthy_value C) (map_of (content norm x)) ss candidate)"
  using assms
proof (induction x arbitrary: i ss n candidate)
  case Lf
  then show ?case by simp
next
  case (Nd a h s v k l m r)
  then obtain n' where n: "n = Suc n'" "length (refs l) \<le> n'" "length (refs m) \<le> n'" "length (refs r) \<le> n'"
    by (cases n) auto
  have "at (next_segment (iterator C) i) (tl ss)" if "tl ss \<noteq> []" using at_next Nd.prems(4) that by blast
  then show ?case
    using Nd n search_step_at [OF Nd.prems(4), of s] longest_prefix_Nd [OF Nd.prems(3) at_nonempty [OF Nd.prems(4)], of candidate]
    by (simp add: Let_def)
qed

lemma findSubstr_longest:
  assumes "stored t x" "key_ok key" "length (refs x) \<le> n"
  shows "findSubstr n C key t = Returned (longest_prefix (truthy_value C) (map_of (content norm x)) (segs key) None)"
  unfolding findSubstr_def stored_root(1) [OF assms(1)]
  using assms at_reset by (intro findSubstr_loop_longest) (auto simp: stored_def holds_def)

lemma dfsEntries_content:
  assumes "rep (nodes t) x" "length (refs x) \<le> n"
  shows "dfsEntries n C (rt x) bucket t = Returned (bucket @ truthy_entries (truthy_value C) (content norm x))"
  using assms
proof (induction x arbitrary: n bucket)
  case (Nd a h s v k l m r)
  then obtain n' where n: "n = Suc n'" "length (refs l) \<le> n'" "length (refs m) \<le> n'" "length (refs r) \<le> n'"
    by (cases n) auto
  have "truthy_entries (truthy_value C) (map (apfst ((#) (norm s))) (content norm m)) = truthy_entries (truthy_value C) (content norm m)" by simp
  then show ?case using Nd n by (cases v) (simp_all add: Let_def)
qed simp

lemma tree_entries_content:
  assumes "stored t x" "length (refs x) \<le> n"
  shows "tree_entries n C t = Returned (truthy_entries (truthy_value C) (content norm x))"
  using dfsEntries_content [OF stored_root(2) [OF assms(1)] assms(2), of "[]"]
  by (simp add: tree_entries_def entries_from_def stored_root(1) [OF assms(1)])

lemma findSuperstr_loop_seek:
  assumes "rep (nodes t) x" "segs_ok x" "at i ss" "length (refs x) \<le> n"
  shows "findSuperstr_loop n C allowValue i (rt x) t = Returned
    (case seek norm x ss of
       Lf \<Rightarrow> Nothing
     | Nd a h s v k l m r \<Rightarrow>
         if m = Lf then (if allowValue then (case v of None \<Rightarrow> Nothing | Some v \<Rightarrow> Element v) else Nothing)
         else Entries (truthy_entries (truthy_value C) (content norm m)))"
  using assms
proof (induction x arbitrary: i ss n)
  case (Nd a h s v k l m r)
  then obtain n' where n: "n = Suc n'" "length (refs l) \<le> n'" "length (refs m) \<le> n'" "length (refs r) \<le> n'"
    by (cases n) auto
  have "at (next_segment (iterator C) i) (tl ss)" if "tl ss \<noteq> []" using at_next Nd.prems(3) that by blast
  moreover have "(case rt m of None \<Rightarrow> Returned z | Some y \<Rightarrow> obind (entries_from n' C (Some y) t) (\<lambda>es. Returned (Entries es))) =
      Returned (if m = Lf then z else Entries (truthy_entries (truthy_value C) (content norm m)))" for z
    using dfsEntries_content [of t m n' "[]"] Nd.prems(1) n(3) by (cases m) (simp_all add: entries_from_def)
  ultimately show ?case
    using Nd n search_step_at [OF Nd.prems(3), of s] by simp
qed simp

lemma findSuperstr_entries:
  assumes "stored t x" "key_ok key" "length (refs x) \<le> n"
  shows "findSuperstr n C key t =
      Returned (Entries (truthy_entries (truthy_value C) (filter (\<lambda>(ks, _). strict_prefix (segs key) ks) (content norm x)))) \<or>
    findSuperstr n C key t = Returned Nothing \<and> filter (\<lambda>(ks, _). strict_prefix (segs key) ks) (content norm x) = []"
proof -
  have "filter (\<lambda>(ks, _). strict_prefix (segs key) ks) (content norm x) =
      map (apfst ((@) (segs key))) (content norm (mid_of (seek norm x (segs key))))"
    using assms segs_nonempty by (intro filter_content) (auto simp: stored_def)
  moreover have "findSuperstr n C key t = Returned
    (case seek norm x (segs key) of
       Lf \<Rightarrow> Nothing
     | Nd a h s v k l m r \<Rightarrow> if m = Lf then Nothing else Entries (truthy_entries (truthy_value C) (content norm m)))"
    unfolding findSuperstr_def findSuperstrOrElement_def stored_root(1) [OF assms(1)]
    using assms at_reset findSuperstr_loop_seek [of t x "reset_key (iterator C) key" "segs key" n False]
    by (simp add: stored_def holds_def if_distrib cong: ltree.case_cong)
  ultimately show ?thesis
    by (cases "seek norm x (segs key)") (simp_all del: map_map)
qed

lemma nodeIsBalanced_avl:
  assumes "holds t zs (rt x) x" "avl x" "length (refs x) \<le> n"
  shows "nodeIsBalanced n (rt x) t = Returned True"
  using assms
proof (induction x arbitrary: n zs)
  case (Nd a h s v k l m r)
  then obtain n' where n: "n = Suc n'" "length (refs l) \<le> n'" "length (refs r) \<le> n'"
    by (cases n) auto
  have "balanceFactor a t = ht r - ht l" using balanceFactor_holds Nd.prems(1) by fastforce
  moreover have "holds t (Fr Left a h s v k m r # zs) (rt l) l" "holds t (Fr Right a h s v k l m # zs) (rt r) r"
    using Nd.prems(1) by (simp_all add: holds_frame)
  moreover have "rep (nodes t) (Nd a h s v k l m r)" using Nd.prems(1) by (simp add: holds_def)
  ultimately show ?case using Nd n by (simp add: Let_def)
qed simp

lemma isBalanced_stored: "stored t x \<Longrightarrow> length (refs x) \<le> n \<Longrightarrow> isBalanced n t = Returned True"
  using nodeIsBalanced_avl [of t "[]" x n] by (simp add: isBalanced_def stored_def holds_def)

end

end
