(* ===== verification/SegmentProps.thy ===== *)
theory SegmentProps
  imports SegmentIterators TernaryMaps
begin

text \<open>
  The iterators over strings, configuration keys and paths go through segments and compare them by the
  codes of their characters, without regard to case if so asked (for ASCII): they keep the contract of
  \<open>TernarySearchTree\<close>.
\<close>

section \<open>Comparisons\<close>

definition codes :: "string \<Rightarrow> nat list" where
  "codes s = map of_char s"

definition upper_codes :: "string \<Rightarrow> nat list" where
  "upper_codes s = map (\<lambda>c. nat (upper_code (int (of_char c)))) s"

definition ascii :: "string \<Rightarrow> bool" where
  "ascii s \<longleftrightarrow> (\<forall>c\<in>set s. (of_char c :: nat) < 128)"

lemma codes_inj: "codes s = codes t \<longleftrightarrow> s = t"
  unfolding codes_def by (rule inj_map_eq_map) (auto intro!: injI)

text \<open>The sign of a comparison.\<close>

definition compares :: "int \<Rightarrow> nat list \<Rightarrow> nat list \<Rightarrow> bool" where
  "compares c xs ys \<longleftrightarrow> (c < 0 \<longleftrightarrow> xs < ys) \<and> (0 < c \<longleftrightarrow> ys < xs)"

lemma compares_Cons:
  "x < y \<Longrightarrow> c < 0 \<Longrightarrow> compares c (x # xs) (y # ys)"
  "y < x \<Longrightarrow> 0 < c \<Longrightarrow> compares c (x # xs) (y # ys)"
  "compares c xs ys \<Longrightarrow> compares c (x # xs) (x # ys)"
  by (auto simp: compares_def)

lemma slice_Cons: "i < j \<Longrightarrow> j \<le> length s \<Longrightarrow> drop i (take j s) = s ! i # drop (Suc i) (take j s)"
  using Cons_nth_drop_Suc [of i "take j s"] by simp

lemma compare_lengths_compares:
  assumes "aStart \<le> aEnd" "bStart \<le> bEnd" "aStart = aEnd \<or> bStart = bEnd" "length xs = aEnd - aStart" "length ys = bEnd - bStart"
  shows "compares (compare_lengths aStart aEnd bStart bEnd) xs ys"
  using assms by (cases xs; cases ys) (auto simp: compares_def compare_lengths_def Let_def)

lemma compareSubstring_compares:
  assumes "aStart \<le> aEnd" "aEnd \<le> length a" "bStart \<le> bEnd" "bEnd \<le> length b"
  shows "compares (compareSubstring a b aStart aEnd bStart bEnd) (codes (drop aStart (take aEnd a))) (codes (drop bStart (take bEnd b)))"
  using assms
proof (induction a b aStart aEnd bStart bEnd rule: compareSubstring.induct)
  case (1 a b i j k l)
  show ?case
  proof (cases "i < j \<and> k < l")
    case True
    have ab: "drop i (take j a) = a ! i # drop (Suc i) (take j a)" "drop k (take l b) = b ! k # drop (Suc k) (take l b)"
      using True 1(3,5) by (simp_all add: slice_Cons)
    have e: "compareSubstring a b i j k l =
        (if code_at a i < code_at b k then - 1 else if code_at a i > code_at b k then 1 else compareSubstring a b (i + 1) j (k + 1) l)"
      using True by (subst compareSubstring.simps) (simp add: Let_def)
    show ?thesis
    proof (cases "code_at a i = code_at b k")
      case eq: True
      have "compares (compareSubstring a b (i + 1) j (k + 1) l) (codes (drop (i + 1) (take j a))) (codes (drop (k + 1) (take l b)))"
        using 1 True eq by simp
      then show ?thesis using eq unfolding ab e by (simp add: codes_def code_at_def compares_Cons(3))
    next
      case False
      then show ?thesis unfolding ab e by (auto simp: codes_def code_at_def intro: compares_Cons)
    qed
  next
    case False
    then have "compareSubstring a b i j k l = compare_lengths i j k l" by (subst compareSubstring.simps) auto
    then show ?thesis using False 1(2-5) compare_lengths_compares [of i j k l] by (auto simp: codes_def)
  qed
qed

lemma upper_codes_Cons: "upper_codes (c # s) = nat (upper_code (int (of_char c))) # upper_codes s"
  by (simp add: upper_codes_def)

lemma upper_codes_nth: "nat (upper_code (int n)) < nat (upper_code (int m)) \<longleftrightarrow> upper_code (int n) < upper_code (int m)"
  by (auto simp: upper_code_def isLowerAsciiLetter_def)

lemma compareSubstringIgnoreCase_compares:
  assumes "aStart \<le> aEnd" "aEnd \<le> length a" "bStart \<le> bEnd" "bEnd \<le> length b" "ascii a" "ascii b"
  shows "compares (compareSubstringIgnoreCase lower a b aStart aEnd bStart bEnd)
    (upper_codes (drop aStart (take aEnd a))) (upper_codes (drop bStart (take bEnd b)))"
  using assms
proof (induction lower a b aStart aEnd bStart bEnd rule: compareSubstringIgnoreCase.induct)
  case (1 lower a b i j k l)
  show ?case
  proof (cases "i < j \<and> k < l")
    case True
    have ab: "drop i (take j a) = a ! i # drop (Suc i) (take j a)" "drop k (take l b) = b ! k # drop (Suc k) (take l b)"
      using True 1(4,6) by (simp_all add: slice_Cons)
    have "a ! i \<in> set a" "b ! k \<in> set b" using True 1(4,6) by auto
    then have asc: "code_at a i < 128" "code_at b k < 128" using 1(7,8) by (auto simp: code_at_def ascii_def)
    let ?u = "upper_code (code_at a i)" and ?w = "upper_code (code_at b k)"
    have e: "compareSubstringIgnoreCase lower a b i j k l =
        (if ?u = ?w then compareSubstringIgnoreCase lower a b (i + 1) j (k + 1) l else ?u - ?w)"
      using True asc by (subst compareSubstringIgnoreCase.simps) (auto simp: Let_def)
    show ?thesis
    proof (cases "?u = ?w")
      case eq: True
      have "compares (compareSubstringIgnoreCase lower a b (i + 1) j (k + 1) l)
          (upper_codes (drop (i + 1) (take j a))) (upper_codes (drop (k + 1) (take l b)))"
      proof (cases "code_at a i = code_at b k")
        case True
        then show ?thesis using 1(1) [OF \<open>i < j \<and> k < l\<close> refl refl True] 1(3-) \<open>i < j \<and> k < l\<close> by simp
      next
        case False
        then show ?thesis using 1(2) [OF \<open>i < j \<and> k < l\<close> refl refl False _ refl] eq asc 1(3-) \<open>i < j \<and> k < l\<close> by simp
      qed
      then show ?thesis using eq unfolding ab e by (simp add: upper_codes_def code_at_def compares_Cons(3))
    next
      case False
      then consider "?u < ?w" | "?w < ?u" by linarith
      then show ?thesis
      proof cases
        case 1
        then have "nat ?u < nat ?w" using upper_codes_nth by (simp only: code_at_def)
        then have "compares (?u - ?w) (nat ?u # upper_codes (drop (Suc i) (take j a))) (nat ?w # upper_codes (drop (Suc k) (take l b)))"
          using 1 by (intro compares_Cons(1)) linarith+
        then show ?thesis using False unfolding ab e by (simp only: upper_codes_Cons code_at_def if_False)
      next
        case 2
        then have "nat ?w < nat ?u" using upper_codes_nth by (simp only: code_at_def)
        then have "compares (?u - ?w) (nat ?u # upper_codes (drop (Suc i) (take j a))) (nat ?w # upper_codes (drop (Suc k) (take l b)))"
          using 2 by (intro compares_Cons(2)) linarith+
        then show ?thesis using False unfolding ab e by (simp only: upper_codes_Cons code_at_def if_False)
      qed
    qed
  next
    case False
    then have "compareSubstringIgnoreCase lower a b i j k l = compare_lengths i j k l" by (subst compareSubstringIgnoreCase.simps) auto
    then show ?thesis using False 1(3-6) compare_lengths_compares [of i j k l] by (auto simp: upper_codes_def)
  qed
qed

section \<open>Segments\<close>

text \<open>What is between separators; there is always a first segment, which may be empty.\<close>

function pieces :: "(char \<Rightarrow> bool) \<Rightarrow> string \<Rightarrow> string list" where
  "pieces sep s =
     (let t = dropWhile sep s; rest = dropWhile (\<lambda>c. \<not> sep c) t in
      takeWhile (\<lambda>c. \<not> sep c) t # (if rest = [] then [] else pieces sep rest))"
  by pat_completeness auto
termination
proof (relation "measure (\<lambda>(_, s). length s)", goal_cases)
  case (2 sep s t rest)
  then have "t \<noteq> []" by (metis dropWhile.simps(1))
  then have "\<not> sep (hd t)" using 2(1) hd_dropWhile [of sep s] by simp
  then have "length rest < length t" using 2(2) \<open>t \<noteq> []\<close> by (cases t) (auto simp: less_Suc_eq_le length_dropWhile_le)
  also have "\<dots> \<le> length s" using 2(1) by (simp add: length_dropWhile_le)
  finally show ?case by simp
qed simp

declare pieces.simps [simp del]

lemma pieces_length: "length (pieces sep s) \<le> length s + 1"
proof (induction sep s rule: pieces.induct)
  case (1 sep s)
  let ?t = "dropWhile sep s" and ?rest = "dropWhile (\<lambda>c. \<not> sep c) (dropWhile sep s)"
  show ?case
  proof (cases "?rest = []")
    case False
    then have "?t \<noteq> []" by (metis dropWhile.simps(1))
    then have "\<not> sep (hd ?t)" using hd_dropWhile by blast
    then have "length ?rest < length ?t" using \<open>?t \<noteq> []\<close> by (cases ?t) (auto simp: less_Suc_eq_le length_dropWhile_le)
    then have "length ?rest < length s" using length_dropWhile_le [of sep s] by linarith
    moreover have "length (pieces sep ?rest) \<le> length ?rest + 1" using 1 [OF refl refl False] .
    ultimately show ?thesis by (subst pieces.simps) (simp add: Let_def)
  next
    case True
    then show ?thesis by (subst pieces.simps) (simp add: Let_def)
  qed
qed

lemma next_loop_inside:
  assumes "to \<le> stop" "stop \<le> length v"
  shows "next_loop sep v stop from to False = (from, to + length (takeWhile (\<lambda>c. \<not> sep c) (drop to (take stop v))))"
  using assms
proof (induction sep v stop "from" to "False" rule: next_loop.induct)
  case (1 sep v stop frm to)
  then show ?case
    by (subst next_loop.simps) (auto simp: slice_Cons)
qed

lemma next_loop_start:
  assumes "to \<le> stop" "stop \<le> length v"
  shows "next_loop sep v stop from to True =
    (from + length (takeWhile sep (drop to (take stop v))),
     to + length (takeWhile sep (drop to (take stop v))) +
       length (takeWhile (\<lambda>c. \<not> sep c) (dropWhile sep (drop to (take stop v)))))"
  using assms
proof (induction sep v stop "from" to "True" rule: next_loop.induct)
  case (1 sep v stop frm to)
  then show ?case
    by (subst next_loop.simps) (auto simp: slice_Cons next_loop_inside)
qed

section \<open>The contract\<close>

definition at_string :: "string_iterator \<Rightarrow> nat list list \<Rightarrow> bool" where
  "at_string i ss \<longleftrightarrow> si_pos i < length (si_value i) \<and> ss = map (\<lambda>c. codes [c]) (drop (si_pos i) (si_value i))"

lemma at_stringD:
  assumes "at_string i ss"
  shows "ss = codes [si_value i ! si_pos i] # map (\<lambda>c. codes [c]) (drop (Suc (si_pos i)) (si_value i))"
proof -
  have "drop (si_pos i) (si_value i) = si_value i ! si_pos i # drop (Suc (si_pos i)) (si_value i)"
    using assms Cons_nth_drop_Suc [of "si_pos i" "si_value i"] by (simp add: at_string_def)
  then show ?thesis using assms unfolding at_string_def by (simp only: list.map)
qed

interpretation string_keys: segmented_keys "forStrings tr" codes "\<lambda>v::string. length v = 1" "\<lambda>k. k \<noteq> []" "map (\<lambda>c. codes [c])" at_string
  for tr :: "'v \<Rightarrow> bool"
proof
  fix i ss and v :: string
  assume i: "at_string i ss"
  then have p: "si_pos i < length (si_value i)" by (simp add: at_string_def)
  note ss = at_stringD [OF i]
  show "ss \<noteq> []" by (simp add: ss)
  show "\<exists>v. segment_value (iterator (forStrings tr)) i = Some v \<and> length v = 1 \<and> codes v = hd ss"
    using p by (simp add: forStrings_def StringIterator_def StringIterator_value_def ss)
  show "hasNext (iterator (forStrings tr)) i \<longleftrightarrow> tl ss \<noteq> []"
    by (auto simp: forStrings_def StringIterator_def StringIterator_hasNext_def ss)
  show "tl ss \<noteq> [] \<Longrightarrow> at_string (next_segment (iterator (forStrings tr)) i) (tl ss)"
    by (simp add: forStrings_def StringIterator_def StringIterator_next_def at_string_def ss)
  assume "length v = 1"
  then obtain c where "v = [c]" by (auto simp: length_Suc_conv)
  then show "\<exists>c. cmp (iterator (forStrings tr)) i v = Some c \<and> (0 < c \<longleftrightarrow> hd ss < codes v) \<and> (c < 0 \<longleftrightarrow> codes v < hd ss)"
    using p by (auto simp: forStrings_def StringIterator_def StringIterator_cmp_def ss code_at_def codes_def)
qed (simp add: forStrings_def StringIterator_def StringIterator_reset_def at_string_def)

text \<open>The segments of the iterators that skip separators.\<close>

definition seg_norm :: "bool \<Rightarrow> string \<Rightarrow> nat list" where
  "seg_norm caseSensitive = (if caseSensitive then codes else upper_codes)"

definition case_ok :: "bool \<Rightarrow> string \<Rightarrow> bool" where
  "case_ok caseSensitive s \<longleftrightarrow> caseSensitive \<or> ascii s"

definition at_segment :: "(char \<Rightarrow> bool) \<Rightarrow> bool \<Rightarrow> segment_iterator \<Rightarrow> nat list list \<Rightarrow> bool" where
  "at_segment sep caseSensitive i ss \<longleftrightarrow>
     it_from i \<le> it_to i \<and> it_to i \<le> it_stop i \<and> it_stop i \<le> length (it_value i) \<and> case_ok caseSensitive (it_value i) \<and>
     ss = seg_norm caseSensitive (drop (it_from i) (take (it_to i) (it_value i))) #
       (if it_to i < it_stop i then map (seg_norm caseSensitive) (pieces sep (drop (it_to i) (take (it_stop i) (it_value i)))) else [])"

lemma at_segment_next:
  assumes "it_to i \<le> it_stop i" "it_stop i \<le> length (it_value i)" "case_ok caseSensitive (it_value i)"
  shows "at_segment sep caseSensitive (segment_next sep i) (map (seg_norm caseSensitive) (pieces sep (drop (it_to i) (take (it_stop i) (it_value i)))))"
proof -
  let ?v = "it_value i" and ?stop = "it_stop i" and ?to = "it_to i"
  define t where "t = drop ?to (take ?stop ?v)"
  define p where "p = length (takeWhile sep t)"
  define q where "q = length (takeWhile (\<lambda>c. \<not> sep c) (dropWhile sep t))"
  have i: "segment_next sep i = i\<lparr>it_from := ?to + p, it_to := ?to + p + q\<rparr>"
    using next_loop_start [OF assms(1,2)] by (simp add: segment_next_def t_def p_def q_def)
  have lt: "length t = ?stop - ?to" using assms(2) by (simp add: t_def)
  have "p + length (dropWhile sep t) = length t"
    unfolding p_def by (metis length_append takeWhile_dropWhile_id)
  moreover have "q \<le> length (dropWhile sep t)" by (simp add: q_def length_takeWhile_le)
  ultimately have le: "?to + p + q \<le> ?stop" using lt assms(1) by linarith
  have dp: "drop p t = dropWhile sep t" by (simp add: p_def dropWhile_eq_drop)
  have "drop (?to + p) (take (?to + p + q) ?v) = take q (drop p t)"
  proof -
    have "take (?to + p + q) ?v = take (?to + p + q) (take ?stop ?v)" using le by (simp add: min_def)
    then have "drop (?to + p) (take (?to + p + q) ?v) = take q (drop (?to + p) (take ?stop ?v))"
      by (simp only: drop_take) simp
    then show ?thesis by (simp add: t_def add.commute)
  qed
  also have "\<dots> = takeWhile (\<lambda>c. \<not> sep c) (dropWhile sep t)" by (simp add: dp q_def flip: takeWhile_eq_take)
  finally have seg: "drop (?to + p) (take (?to + p + q) ?v) = takeWhile (\<lambda>c. \<not> sep c) (dropWhile sep t)" .
  have "drop (?to + p + q) (take ?stop ?v) = drop q (drop p t)" by (simp add: t_def add.commute add.left_commute)
  also have "\<dots> = dropWhile (\<lambda>c. \<not> sep c) (dropWhile sep t)" by (simp add: dp q_def flip: dropWhile_eq_drop)
  finally have rest: "drop (?to + p + q) (take ?stop ?v) = dropWhile (\<lambda>c. \<not> sep c) (dropWhile sep t)" .
  have "dropWhile (\<lambda>c. \<not> sep c) (dropWhile sep t) = [] \<longleftrightarrow> \<not> ?to + p + q < ?stop"
    unfolding rest [symmetric] using assms(2) by (simp add: not_less)
  then have "pieces sep t = takeWhile (\<lambda>c. \<not> sep c) (dropWhile sep t) #
      (if ?to + p + q < ?stop then pieces sep (drop (?to + p + q) (take ?stop ?v)) else [])"
    by (subst pieces.simps) (simp add: Let_def rest)
  then show ?thesis
    using le assms(2,3) by (simp add: at_segment_def i seg flip: t_def)
qed

lemma case_ok_slice: "case_ok cs s \<Longrightarrow> case_ok cs (drop i (take j s))"
  by (auto simp: case_ok_def ascii_def dest!: in_set_dropD in_set_takeD)

lemma segment_keys:
  assumes "\<And>k. key_ok k \<Longrightarrow> at_segment sep caseSensitive (rs k) (segs k)"
  shows "segmented_keys \<lparr>iterator = \<lparr>reset_key = rs, next_segment = segment_next sep, hasNext = segment_hasNext,
      cmp = segment_cmp lower caseSensitive, segment_value = segment_string\<rparr>, truthy_value = tr, truthy_key = tk\<rparr>
    (seg_norm caseSensitive) (case_ok caseSensitive) key_ok segs (at_segment sep caseSensitive)"
proof
  fix i ss v
  assume i: "at_segment sep caseSensitive i ss"
  then have j: "it_from i \<le> it_to i" "it_to i \<le> it_stop i" "it_stop i \<le> length (it_value i)" "case_ok caseSensitive (it_value i)"
    and ss: "ss = seg_norm caseSensitive (drop (it_from i) (take (it_to i) (it_value i))) #
       (if it_to i < it_stop i then map (seg_norm caseSensitive) (pieces sep (drop (it_to i) (take (it_stop i) (it_value i)))) else [])"
    by (simp_all add: at_segment_def)
  let ?C = "\<lparr>iterator = \<lparr>reset_key = rs, next_segment = segment_next sep, hasNext = segment_hasNext,
      cmp = segment_cmp lower caseSensitive, segment_value = segment_string\<rparr>, truthy_value = tr, truthy_key = tk\<rparr>"
  have ne: "pieces sep s \<noteq> []" for s by (subst pieces.simps) (simp add: Let_def)
  show "ss \<noteq> []" by (simp add: ss)
  show "\<exists>v. segment_value (iterator ?C) i = Some v \<and> case_ok caseSensitive v \<and> seg_norm caseSensitive v = hd ss"
    using case_ok_slice [OF j(4)] by (simp add: segment_string_def ss)
  show "hasNext (iterator ?C) i \<longleftrightarrow> tl ss \<noteq> []"
    using ne by (simp add: segment_hasNext_def ss)
  show "tl ss \<noteq> [] \<Longrightarrow> at_segment sep caseSensitive (next_segment (iterator ?C) i) (tl ss)"
    using at_segment_next [OF j(2-4)] by (auto simp: ss split: if_splits)
  assume v: "case_ok caseSensitive v"
  show "\<exists>c. cmp (iterator ?C) i v = Some c \<and> (0 < c \<longleftrightarrow> hd ss < seg_norm caseSensitive v) \<and> (c < 0 \<longleftrightarrow> seg_norm caseSensitive v < hd ss)"
  proof (cases caseSensitive)
    case True
    then show ?thesis
      using compareSubstring_compares [of 0 "length v" v "it_from i" "it_to i" "it_value i"] j(1-3)
      by (auto simp: segment_cmp_def ss seg_norm_def compares_def)
  next
    case False
    then show ?thesis
      using compareSubstringIgnoreCase_compares [of 0 "length v" v "it_from i" "it_to i" "it_value i" lower] j v
      by (auto simp: segment_cmp_def ss seg_norm_def compares_def case_ok_def)
  qed
qed (use assms in simp)

definition config_segments :: "string \<Rightarrow> nat list list" where
  "config_segments key = map codes (pieces (\<lambda>c. c = CHR ''.'') key)"

interpretation config_keys: segmented_keys "forConfigKeys lower tr" codes "\<lambda>_. True" "\<lambda>_. True" config_segments
    "at_segment (\<lambda>c. c = CHR ''.'') True"
  for lower and tr :: "'v \<Rightarrow> bool"
proof -
  have "at_segment (\<lambda>c. c = CHR ''.'') True (ConfigKeysIterator_reset k) (config_segments k)" for k
    using at_segment_next [of "\<lparr>it_value = k, it_stop = length k, it_from = 0, it_to = 0\<rparr>" True "\<lambda>c. c = CHR ''.''"]
    by (simp add: ConfigKeysIterator_reset_def config_segments_def seg_norm_def case_ok_def)
  then show "segmented_keys (forConfigKeys lower tr) codes (\<lambda>_. True) (\<lambda>_. True) config_segments (at_segment (\<lambda>c. c = CHR ''.'') True)"
    using segment_keys [of "\<lambda>_. True" "\<lambda>c. c = CHR ''.''" True ConfigKeysIterator_reset config_segments lower tr "\<lambda>k. k \<noteq> []"]
    by (simp add: forConfigKeys_def ConfigKeysIterator_def seg_norm_def case_ok_def [abs_def])
qed

text \<open>A path without the separators at its end.\<close>

definition path_segments :: "bool \<Rightarrow> string \<Rightarrow> nat list list" where
  "path_segments caseSensitive key =
     map (seg_norm caseSensitive) (pieces (path_sep True) (rev (dropWhile (path_sep True) (rev key))))"

lemma take_value_length: "n \<le> length v \<Longrightarrow> take (value_length sep v n) v = rev (dropWhile sep (rev (take n v)))"
  by (induction sep v n rule: value_length.induct) (auto simp: take_Suc_conv_app_nth)

lemma value_length_le: "value_length sep v n \<le> n"
  by (induction sep v n rule: value_length.induct) auto

interpretation path_keys: segmented_keys "forPaths lower tr ignorePathCasing" "seg_norm (\<not> ignorePathCasing)" "case_ok (\<not> ignorePathCasing)"
    "case_ok (\<not> ignorePathCasing)" "path_segments (\<not> ignorePathCasing)" "at_segment (path_sep True) (\<not> ignorePathCasing)"
  for lower and tr :: "'v \<Rightarrow> bool" and ignorePathCasing
proof -
  let ?cs = "\<not> ignorePathCasing"
  have "at_segment (path_sep True) ?cs (PathIterator_reset True k) (path_segments ?cs k)" if "case_ok ?cs k" for k
    using at_segment_next [of "\<lparr>it_value = k, it_stop = value_length (path_sep True) k (length k), it_from = 0, it_to = 0\<rparr>" ?cs "path_sep True"]
      that value_length_le [of "path_sep True" k "length k"] take_value_length [of "length k" k "path_sep True"]
    by (simp add: PathIterator_reset_def path_segments_def)
  then show "segmented_keys (forPaths lower tr ignorePathCasing) (seg_norm ?cs) (case_ok ?cs) (case_ok ?cs) (path_segments ?cs) (at_segment (path_sep True) ?cs)"
    using segment_keys [of "case_ok ?cs" "path_sep True" ?cs "PathIterator_reset True" "path_segments ?cs" lower tr "\<lambda>k. k \<noteq> []"]
    by (simp add: forPaths_def PathIterator_def)
qed

lemma path_segments_length: "length (path_segments cs key) \<le> length key + 1"
proof -
  have "length (rev (dropWhile (path_sep True) (rev key))) \<le> length key"
    using length_dropWhile_le [of "path_sep True" "rev key"] by simp
  then show ?thesis
    using pieces_length [of "path_sep True" "rev (dropWhile (path_sep True) (rev key))"] by (simp add: path_segments_def)
qed

end
