(* ===== verification/TernaryInsertion.thy ===== *)
theory TernaryInsertion
  imports TernaryMaps
begin

text \<open>\<open>set\<close>: the way down, which creates the nodes that are missing, and the entry that changes.\<close>

context segmented_keys begin

lemma child_or_new_existing:
  assumes "holds t zs (Some a) (plug1 F y)" "frame_entry F = (d, a)" "rt y = Some c"
  shows "child_or_new C d i a t = Returned (c, t)"
proof -
  have "child d (nodes t a) = rt y"
    using assms(1,2) by (cases "(F, y)" rule: plug1.cases) (auto simp: holds_def)
  then show ?thesis by (simp add: child_or_new_def assms(3))
qed

lemma child_or_new_new:
  assumes "holds t zs (Some a) (plug1 F Lf)" "frame_entry F = (d, a)" "new_segment C i = Returned sg"
  shows "\<exists>t'. child_or_new C d i a t = Returned (allocated t, t') \<and>
    holds t' (F # zs) (Some (allocated t)) (Nd (allocated t) 1 sg None None Lf Lf Lf)"
proof -
  let ?c = "allocated t"
  define t1 where "t1 = t\<lparr>nodes := (nodes t)(?c := TernarySearchTreeNode_new sg), allocated := ?c + 1\<rparr>"
  have "holds t (F # zs) None Lf" using assms(1,2) holds_frame [of t F zs Lf] by simp
  then have c: "?c \<notin> set (ctx_refs (F # zs))" and h: "rep_ctx t (F # zs) None" "distinct (ctx_refs (F # zs))"
    "\<forall>a\<in>set (ctx_refs (F # zs)). a < allocated t" by (auto simp: holds_def)
  have "rep_ctx t (F # zs) None \<longleftrightarrow> rep_ctx t1 (F # zs) None"
    by (rule rep_ctx_cong) (use c in \<open>auto simp: t1_def\<close>)
  with h(1) have "rep_ctx t1 (F # zs) None" by blast
  then have "holds t1 (F # zs) None (Nd ?c 1 sg None None Lf Lf Lf)"
    using h c by (auto simp: holds_def t1_def TernarySearchTreeNode_new_def less_Suc_eq)
  then have "holds (patch (stack_of (F # zs)) (Some ?c) t1) (F # zs) (Some ?c) (Nd ?c 1 sg None None Lf Lf Lf)"
    using holds_patch by fastforce
  moreover have "child d (nodes t a) = None"
    using assms(1,2) by (cases "(F, Lf :: ('k, 'v) ltree)" rule: plug1.cases) (auto simp: holds_def)
  ultimately show ?thesis
    using assms(2,3) by (simp add: child_or_new_def alloc_node_def t1_def)
qed

text \<open>The way down ends at the node of the key, and has changed nothing that counts.\<close>

definition descended :: "('k, 'v) ltree \<Rightarrow> 'n list \<Rightarrow> (nat \<times> (dir \<times> nat) list \<times> ('k, 'v) search_tree) outcome \<Rightarrow> bool" where
  "descended z ks result \<longleftrightarrow>
     (\<exists>a t zs ho h s v k l m r. result = Returned (a, stack_of zs, t) \<and>
        holds t zs (Some a) (Nd a h s v k l m r) \<and> avl (Nd a h s v k l m r) \<and>
        new_ctx zs ho \<and> 0 \<le> ho \<and> (h = ho \<or> ho = 0 \<and> h = 1) \<and>
        content norm (plug zs (Nd a h s v k l m r)) = content norm z \<and> bst norm (plug zs (Nd a h s v k l m r)) \<and>
        segs_ok (plug zs (Nd a h s v k l m r)) \<and> path norm zs @ [norm s] = ks)"

lemma descended_content:
  assumes "descended z' ks res" "content norm z' = content norm z"
  shows "descended z ks res"
  using assms(1) unfolding descended_def assms(2) .

lemma descended_here:
  assumes "holds t zs (Some a) (Nd a h s v k l m r)" "avl (Nd a h s v k l m r)" "new_ctx zs ho" "0 \<le> ho" "h = ho \<or> ho = 0 \<and> h = 1"
    "bst norm (plug zs (Nd a h s v k l m r))" "segs_ok (plug zs (Nd a h s v k l m r))"
  shows "descended (plug zs (Nd a h s v k l m r)) (path norm zs @ [norm s]) (Returned (a, stack_of zs, t))"
  unfolding descended_def using assms by blast

lemma set_descend_new:
  assumes "at i ss" "holds t zs (Some a) (Nd a 1 sg None None Lf Lf Lf)" "norm sg = hd ss" "seg_ok sg" "new_ctx zs 0"
    "bst norm (plug zs (Nd a 1 sg None None Lf Lf Lf))" "segs_ok (plug zs (Nd a 1 sg None None Lf Lf Lf))" "length ss \<le> n"
  shows "descended (plug zs (Nd a 1 sg None None Lf Lf Lf)) (path norm zs @ ss) (set_descend n C i a (stack_of zs) t)"
  using assms
proof (induction ss arbitrary: i t zs a sg n)
  case Nil
  then show ?case using at_nonempty by blast
next
  case (Cons s ss)
  let ?x = "Nd a 1 sg None None Lf Lf Lf"
  obtain n' where n: "n = Suc n'" "length ss \<le> n'" using Cons.prems(8) by (cases n) auto
  have sg: "segment (nodes t a) = sg" using Cons.prems(2) by (simp add: holds_def)
  show ?case
  proof (cases "ss = []")
    case True
    then have "set_descend n C i a (stack_of zs) t = Returned (a, stack_of zs, t)"
      using search_step_at [OF Cons.prems(1,4)] Cons.prems(3) by (simp add: n sg)
    moreover have "descended (plug zs ?x) (path norm zs @ [norm sg]) (Returned (a, stack_of zs, t))"
      by (rule descended_here [OF Cons.prems(2) _ Cons.prems(5) _ _ Cons.prems(6,7)]) simp_all
    ultimately show ?thesis using True Cons.prems(3) by simp
  next
    case False
    define i' where "i' = next_segment (iterator C) i"
    have i': "at i' ss" using at_next [OF Cons.prems(1)] False by (simp add: i'_def)
    obtain w where w: "new_segment C i' = Returned w" "seg_ok w" "norm w = hd ss" using new_segment_at [OF i'] .
    let ?F = "Fr Mid a 1 sg None None Lf Lf"
    obtain t' where t': "child_or_new C Mid i' a t = Returned (allocated t, t')"
      "holds t' (?F # zs) (Some (allocated t)) (Nd (allocated t) 1 w None None Lf Lf Lf)"
      using child_or_new_new [of t zs a ?F Mid i' w] Cons.prems(2) w(1) by auto
    let ?y = "Nd (allocated t) 1 w None None Lf Lf Lf"
    have b: "bst norm (plug (?F # zs) ?y)"
      unfolding plug.simps by (rule bst_plug [OF Cons.prems(6), of _ "{}"]) simp_all
    have so: "segs_ok (plug (?F # zs) ?y)"
      using Cons.prems(4,7) w(2) segments_of_plug [of zs "plug1 ?F ?y"] segments_of_plug [of zs ?x] by simp
    have "descended (plug (?F # zs) ?y) (path norm (?F # zs) @ ss) (set_descend n' C i' (allocated t) (stack_of (?F # zs)) t')"
      by (rule Cons.IH [OF i' t'(2) w(3,2) _ b so n(2)]) (use Cons.prems(5) in simp)
    moreover have "set_descend n C i a (stack_of zs) t = set_descend n' C i' (allocated t) (stack_of (?F # zs)) t'"
      using search_step_at [OF Cons.prems(1,4)] Cons.prems(3) False t'(1) by (simp add: n sg i'_def)
    moreover have "content norm (plug (?F # zs) ?y) = content norm (plug zs ?x)"
      unfolding plug.simps by (rule content_plug_cong) simp
    ultimately show ?thesis
      using descended_content Cons.prems(3) by auto
  qed
qed

lemma set_descend_child_new:
  assumes "at i ss" "holds t zs (Some a) (plug1 F Lf)" "frame_entry F = (d, a)" "new_ctx (F # zs) 0"
    "bst norm (plug (F # zs) Lf)" "segs_ok (plug (F # zs) Lf)" "fits norm (F # zs) (hd ss)" "length ss \<le> n"
  shows "descended (plug (F # zs) Lf) (path norm (F # zs) @ ss)
    (obind (child_or_new C d i a t) (\<lambda>(c, t). set_descend n C i c ((d, a) # stack_of zs) t))"
proof -
  obtain w where w: "new_segment C i = Returned w" "seg_ok w" "norm w = hd ss" using new_segment_at [OF assms(1)] .
  obtain t' where t': "child_or_new C d i a t = Returned (allocated t, t')"
    "holds t' (F # zs) (Some (allocated t)) (Nd (allocated t) 1 w None None Lf Lf Lf)"
    using child_or_new_new [OF assms(2,3) w(1)] by blast
  let ?y = "Nd (allocated t) 1 w None None Lf Lf Lf"
  have b: "bst norm (plug (F # zs) ?y)"
    by (rule bst_plug [OF assms(5), of _ "{hd ss}"]) (use assms(7) w(3) in simp_all)
  have so: "segs_ok (plug (F # zs) ?y)"
    using assms(6) w(2) segments_of_plug [of "F # zs" ?y] by simp
  have "descended (plug (F # zs) ?y) (path norm (F # zs) @ ss) (set_descend n C i (allocated t) (stack_of (F # zs)) t')"
    by (rule set_descend_new [OF assms(1) t'(2) w(3,2) assms(4) b so assms(8)])
  moreover have "content norm (plug (F # zs) ?y) = content norm (plug (F # zs) Lf)"
    by (rule content_plug_cong) simp
  ultimately show ?thesis using descended_content t'(1) assms(3) by simp
qed

lemma set_descend_holds:
  assumes "at i ss" "holds t zs (Some a) x" "rt x = Some a" "avl x" "avl_ctx zs (ht x)"
    "bst norm (plug zs x)" "segs_ok (plug zs x)" "fits norm zs (hd ss)" "length (refs x) + length ss \<le> n"
  shows "descended (plug zs x) (path norm zs @ ss) (set_descend n C i a (stack_of zs) t)"
  using assms
proof (induction x arbitrary: i ss t zs a n)
  case (Nd a' h s v k l m r)
  let ?x = "Nd a h s v k l m r"
  have a: "a' = a" using Nd.prems(3) by simp
  note prems = Nd.prems [unfolded a]
  obtain n' where n: "n = Suc n'" "length (refs l) + length ss \<le> n'" "length (refs m) + length ss \<le> n'" "length (refs r) + length ss \<le> n'"
    "length ss \<le> n'"
    using prems(9) by (cases n) auto
  have sg: "segment (nodes t a) = s" using prems(2) by (simp add: holds_def)
  have sok: "seg_ok s" using prems(7) segments_of_plug [of zs ?x] by simp
  have go: "descended (plug zs ?x) (path norm (F # zs) @ ss')
      (obind (child_or_new C d i' a t) (\<lambda>(c, t). set_descend n' C i' c ((d, a) # stack_of zs) t))"
    if F: "frame_entry F = (d, a)" "plug1 F y = ?x" and i': "at i' ss'" "length ss' \<le> length ss" and fits: "fits norm (F # zs) (hd ss')"
      and y: "length (refs y) + length ss' \<le> n'"
      and IH: "\<And>i ss t zs a n. \<lbrakk>at i ss; holds t zs (Some a) y; rt y = Some a; avl y; avl_ctx zs (ht y); bst norm (plug zs y); segs_ok (plug zs y);
        fits norm zs (hd ss); length (refs y) + length ss \<le> n\<rbrakk> \<Longrightarrow> descended (plug zs y) (path norm zs @ ss) (set_descend n C i a (stack_of zs) t)"
    for F d y i' ss'
  proof -
    have avl: "avl y" "avl_ctx (F # zs) (ht y)" using prems(4,5) avl_plug1 [of F y] F(2) ht_plug1 [of F y] by auto
    have z: "plug (F # zs) y = plug zs ?x" by (simp add: F(2))
    show ?thesis
    proof (cases y)
      case Lf
      then show ?thesis
        using set_descend_child_new [of i' ss' t zs a F d n'] i' prems(2,6,7) F fits avl(2) z y avl_new_ctx [of "F # zs" 0] by simp
    next
      case (Nd c h2 s2 v2 k2 l2 m2 r2)
      have "holds t (F # zs) (rt y) y" using prems(2) holds_frame [of t F zs y] F by simp
      then have "descended (plug (F # zs) y) (path norm (F # zs) @ ss') (set_descend n' C i' c (stack_of (F # zs)) t)"
        using Nd avl prems(6,7) z by (intro IH [OF i'(1)]) (use fits y in simp_all)
      moreover have "child_or_new C d i' a t = Returned (c, t)"
        using child_or_new_existing [of t zs a F y d c i'] prems(2) F Nd by simp
      ultimately show ?thesis using F z by simp
    qed
  qed
  have step: "set_descend n C i a (stack_of zs) t = obind (search_step C i s) (\<lambda>(way, i).
       case way of
         None \<Rightarrow> Returned (a, stack_of zs, t)
       | Some d \<Rightarrow> obind (child_or_new C d i a t) (\<lambda>(c, t). set_descend n' C i c ((d, a) # stack_of zs) t))"
    by (simp add: n(1) sg)
  note st = search_step_at [OF prems(1) sok]
  consider "hd ss < norm s" | "norm s < hd ss" | "hd ss = norm s" "tl ss = []" | "hd ss = norm s" "tl ss \<noteq> []" by fastforce
  then have "descended (plug zs ?x) (path norm zs @ ss) (set_descend n C i a (stack_of zs) t)"
  proof cases
    case 1
    then show ?thesis
      using go [of "Fr Left a h s v k m r" Left l i ss] Nd.IH(1) prems(1,8) n(2) unfolding step st by simp
  next
    case 2
    then show ?thesis
      using go [of "Fr Right a h s v k l m" Right r i ss] Nd.IH(3) prems(1,8) n(4) unfolding step st by auto
  next
    case 3
    then have "ss = [norm s]" using at_nonempty [OF prems(1)] by (cases ss) simp_all
    moreover have "descended (plug zs ?x) (path norm zs @ [norm s]) (Returned (a, stack_of zs, t))"
      by (rule descended_here [OF prems(2,4) avl_new_ctx [OF prems(5)] _ _ prems(6,7)]) (use ht_nonneg [OF prems(4)] in simp_all)
    ultimately show ?thesis using 3 unfolding step st by simp
  next
    case 4
    then have ss: "ss = norm s # tl ss" using at_nonempty [OF prems(1)] by (cases ss) simp_all
    have "path norm (Fr Mid a h s v k l r # zs) @ tl ss = path norm zs @ ss" using ss by simp
    then show ?thesis
      using go [of "Fr Mid a h s v k l r" Mid m "next_segment (iterator C) i" "tl ss"] Nd.IH(2) at_next [OF prems(1) 4(2)] n(3) 4
      unfolding step st by simp
  qed
  then show ?case by (simp add: a)
qed simp

lemma set_key_map:
  assumes "stored t x" "key_ok key" "length (refs x) + length (segs key) \<le> n"
  obtains t' x' where "set_key n C key e t = Returned (map_option snd (map_of (content norm x) (segs key)), t')" "stored t' x'"
    "map_of (content norm x') = (map_of (content norm x))(segs key \<mapsto> (Some key, e))"
proof -
  let ?i = "reset_key (iterator C) key"
  have i: "at ?i (segs key)" by (rule at_reset [OF assms(2)])
  have s: "holds t [] (rt x) x" "avl x" "bst norm x" "segs_ok x" using assms(1) by (simp_all add: stored_def)
  have "\<exists>a t1. root_or_new C ?i t = Returned (a, t1) \<and> descended x (segs key) (set_descend n C ?i a [] t1)"
  proof (cases x)
    case (Nd a h s' v k l m r)
    have "descended x (segs key) (set_descend n C ?i a [] t)"
      using set_descend_holds [OF i, where t = t and zs = "[]" and x = x and a = a and n = n] s assms(3) Nd by simp
    then show ?thesis using stored_root(1) [OF assms(1)] Nd by (simp add: root_or_new_def)
  next
    case Lf
    obtain w where w: "new_segment C ?i = Returned w" "seg_ok w" "norm w = hd (segs key)" using new_segment_at [OF i] .
    let ?a = "allocated t" and ?y = "Nd (allocated t) 1 w None None Lf Lf Lf"
    define t1 where "t1 = t\<lparr>nodes := (nodes t)(?a := TernarySearchTreeNode_new w), allocated := ?a + 1, tree_root := Some ?a\<rparr>"
    have "holds t1 [] (Some ?a) ?y" by (simp add: holds_def t1_def TernarySearchTreeNode_new_def)
    then have "descended ?y (segs key) (set_descend n C ?i ?a [] t1)"
      using set_descend_new [OF i, where t = t1 and zs = "[]" and a = ?a and sg = w and n = n] w assms(3) Lf by simp
    then have "descended x (segs key) (set_descend n C ?i ?a [] t1)"
      using descended_content by (simp add: Lf)
    moreover have "root_or_new C ?i t = Returned (?a, t1)"
      using stored_root(1) [OF assms(1)] by (simp add: root_or_new_def Lf w(1) alloc_node_def t1_def)
    ultimately show ?thesis by blast
  qed
  then obtain a t1 where r: "root_or_new C ?i t = Returned (a, t1)" and d: "descended x (segs key) (set_descend n C ?i a [] t1)"
    by blast
  obtain a' t2 zs ho h s' v k l m r where d: "set_descend n C ?i a [] t1 = Returned (a', stack_of zs, t2)"
    "holds t2 zs (Some a') (Nd a' h s' v k l m r)" "avl (Nd a' h s' v k l m r)" "new_ctx zs ho" "0 \<le> ho" "h = ho \<or> ho = 0 \<and> h = 1"
    "content norm (plug zs (Nd a' h s' v k l m r)) = content norm x" "bst norm (plug zs (Nd a' h s' v k l m r))"
    "segs_ok (plug zs (Nd a' h s' v k l m r))" "path norm zs @ [norm s'] = segs key"
    using d unfolding descended_def by blast
  define t3 where "t3 = upd_node a' (\<lambda>n. n\<lparr>node_value := Some e, node_key := Some key\<rparr>) t2"
  let ?y = "Nd a' h s' (Some e) (Some key) l m r"
  have n: "nodes t2 a' = \<lparr>node_height = h, segment = s', node_value = v, node_key = k, node_left = rt l, node_mid = rt m, node_right = rt r\<rparr>"
    using d(2) by (simp add: holds_def)
  have t3: "holds t3 zs (rt ?y) ?y"
    unfolding t3_def rt.simps by (rule holds_upd_focus [OF d(2)]) (simp add: n)
  have y: "avl ?y" using d(3) by simp
  have "grown ho None ?y" using d(6) by (auto simp: grown_def)
  then obtain t' x' where b: "set_balance None (stack_of zs) t3 = Returned t'" "holds t' [] (rt x') x'" "avl x'" "alike norm x' (plug zs ?y)"
    using set_balance_holds [OF t3 d(4) y _ d(5), of None norm] by blast
  have c: "map_of (content norm (plug zs ?y)) = (map_of (content norm x))(segs key \<mapsto> (Some key, e))"
    "map_of (content norm x) (segs key) = map_option (Pair k) v"
    using content_change(1,2) [OF d(8)] unfolding d(7,10) by auto
  have "bst norm (plug zs ?y)" by (rule bst_plug [OF d(8), of _ "{}"]) (use bst_plugD [OF d(8)] in simp_all)
  moreover have "segs_ok (plug zs ?y)"
    using d(9) segments_of_plug [of zs ?y] segments_of_plug [of zs "Nd a' h s' v k l m r"] by simp
  ultimately have "stored t' x'" using b by (simp add: stored_def alike_def)
  moreover have "map_of (content norm x') = (map_of (content norm x))(segs key \<mapsto> (Some key, e))"
    using b(4) c(1) by (simp add: alike_def)
  moreover have "set_key n C key e t = Returned (map_option snd (map_of (content norm x) (segs key)), t')"
    using r d(1) b(1) by (simp add: set_key_def Let_def t3_def n c(2) option.map_comp o_def option.map_ident)
  ultimately show thesis using that by blast
qed

end

end
