(* ===== verification/TernaryDeletion.thy ===== *)
theory TernaryDeletion
  imports TernaryInsertion
begin

text \<open>
  \<open>delete\<close> and \<open>deleteSuperstr\<close>, as long as the node that goes does not take siblings with it: a node
  with children on both sides of its level is the exception (see \<open>TernaryProps\<close>).
\<close>

lemma holds_smaller:
  assumes "holds t zs p y" "rep (nodes t) c" "set (refs c) \<subseteq> set (refs y)" "distinct (refs c)"
  shows "holds t zs p c"
  using assms by (auto simp: holds_def)

lemma holds_replace:
  assumes "holds t zs p (Nd a h s v k l m r)" "c = Lf \<or> c = l \<or> c = r"
  shows "holds (patch (stack_of zs) (rt c) t) zs (rt c) c"
  by (rule holds_patch [OF holds_smaller [OF assms(1)]]) (use assms in \<open>auto simp: holds_def\<close>)

context segmented_keys begin

lemma delete_descend_seek:
  assumes "rep (nodes t) x" "segs_ok x" "at i ss" "length (refs x) \<le> n"
  shows "\<exists>zs'. delete_descend n C i (rt x) (stack_of zs) t = Returned (rt (seek norm x ss), stack_of zs') \<and>
    (\<forall>a h s v k l m r. seek norm x ss = Nd a h s v k l m r \<longrightarrow>
       plug zs' (Nd a h s v k l m r) = plug zs x \<and> path norm zs' @ [norm s] = path norm zs @ ss)"
  using assms
proof (induction x arbitrary: i ss n zs)
  case (Nd a h s v k l m r)
  let ?x = "Nd a h s v k l m r"
  obtain n' where n: "n = Suc n'" "length (refs l) \<le> n'" "length (refs m) \<le> n'" "length (refs r) \<le> n'"
    using Nd.prems(4) by (cases n) auto
  have rep: "nodes t a = \<lparr>node_height = h, segment = s, node_value = v, node_key = k, node_left = rt l, node_mid = rt m, node_right = rt r\<rparr>"
    "rep (nodes t) l" "rep (nodes t) m" "rep (nodes t) r" and so: "seg_ok s" "segs_ok l" "segs_ok m" "segs_ok r"
    using Nd.prems(1,2) by simp_all
  note st = search_step_at [OF Nd.prems(3) so(1)]
  have step: "delete_descend n C i (rt ?x) (stack_of zs) t = obind (search_step C i s) (\<lambda>(way, i).
       case way of
         None \<Rightarrow> Returned (Some a, stack_of zs)
       | Some d \<Rightarrow> delete_descend n' C i (child d (nodes t a)) ((d, a) # stack_of zs) t)"
    by (simp add: n(1) rep(1))
  consider "hd ss < norm s" | "norm s < hd ss" | "hd ss = norm s" "tl ss = []" | "hd ss = norm s" "tl ss \<noteq> []" by fastforce
  then show ?case
  proof cases
    case 1
    then show ?thesis
      using Nd.IH(1) [OF rep(2) so(2) Nd.prems(3) n(2), of "Fr Left a h s v k m r # zs"] unfolding step st by (simp add: rep(1))
  next
    case 2
    then have "\<not> hd ss < norm s" by simp
    with 2 show ?thesis
      using Nd.IH(3) [OF rep(4) so(4) Nd.prems(3) n(4), of "Fr Right a h s v k l m # zs"] unfolding step st by (simp add: rep(1))
  next
    case 3
    then have "ss = [norm s]" using at_nonempty [OF Nd.prems(3)] by (cases ss) simp_all
    then show ?thesis unfolding step st by (intro exI [of _ zs]) simp
  next
    case 4
    then have ss: "ss = norm s # tl ss" using at_nonempty [OF Nd.prems(3)] by (cases ss) simp_all
    obtain zs' where zs': "delete_descend n' C (next_segment (iterator C) i) (rt m) (stack_of (Fr Mid a h s v k l r # zs)) t =
        Returned (rt (seek norm m (tl ss)), stack_of zs')"
      "\<forall>b h' s' v' k' l' m' r'. seek norm m (tl ss) = Nd b h' s' v' k' l' m' r' \<longrightarrow>
        plug zs' (Nd b h' s' v' k' l' m' r') = plug (Fr Mid a h s v k l r # zs) m \<and>
        path norm zs' @ [norm s'] = path norm (Fr Mid a h s v k l r # zs) @ tl ss"
      using Nd.IH(2) [OF rep(3) so(3) at_next [OF Nd.prems(3) 4(2)] n(3)] by blast
    have "path norm (Fr Mid a h s v k l r # zs) @ tl ss = path norm zs @ ss" using ss by simp
    then show ?thesis
      using zs' 4 unfolding step st by (intro exI [of _ zs']) (simp add: rep(1))
  qed
qed (auto intro: exI [of _ zs])

text \<open>The end of a deletion: a subtree has been replaced, and the way back balances.\<close>

lemma delete_balance_stored:
  assumes "holds t zs (rt y') y'" "avl (plug zs y)" "avl y'" "ht y' = ht y \<or> ht y' = ht y - 1"
    "bst norm (plug zs y)" "bst norm y'" "level norm y' \<subseteq> level norm y" "segs_ok (plug zs y)" "segments_of y' \<subseteq> segments_of y"
  shows "\<exists>t' x'. delete_balance (stack_of zs) t = Returned t' \<and> stored t' x' \<and> content norm x' = content norm (plug zs y')"
proof -
  have "avl_ctx zs (ht y)" using assms(2) avl_plug by blast
  then obtain t' x' where b: "delete_balance (stack_of zs) t = Returned t'" "holds t' [] (rt x') x'" "avl x'" "alike norm x' (plug zs y')"
    using delete_balance_holds [OF assms(1) _ assms(3,4)] by blast
  have "bst norm (plug zs y')" by (rule bst_plug [OF assms(5,6), of "{}"]) (use assms(7) in simp_all)
  moreover have "segs_ok (plug zs y')" using assms(8,9) segments_of_plug [of zs y] segments_of_plug [of zs y'] by auto
  ultimately show ?thesis using b by (auto simp: stored_def alike_def)
qed

definition not_full :: "('k, 'v) ltree \<Rightarrow> bool" where
  "not_full y \<longleftrightarrow> (case y of Lf \<Rightarrow> True | Nd a h s v k l m r \<Rightarrow> m \<noteq> Lf \<or> l = Lf \<or> r = Lf)"

lemma delete_key_map:
  assumes "stored t x" "key_ok key" "length (refs x) < n" "not_full (seek norm x (segs key))"
  obtains t' x' where "delete_key n C key t = Returned t'" "stored t' x'"
    "map_of (content norm x') = (map_of (content norm x))(segs key := None)"
proof -
  obtain n' where n: "n = Suc n'" "length (refs x) \<le> n'" using assms(3) by (cases n) auto
  let ?ss = "segs key"
  have s: "holds t [] (rt x) x" "avl x" "bst norm x" "segs_ok x" using assms(1) by (simp_all add: stored_def)
  obtain zs where zs: "delete_descend n' C (reset_key (iterator C) key) (rt x) [] t = Returned (rt (seek norm x ?ss), stack_of zs)"
    "\<And>a h s v k l m r. seek norm x ?ss = Nd a h s v k l m r \<Longrightarrow>
       plug zs (Nd a h s v k l m r) = x \<and> path norm zs @ [norm s] = ?ss"
    using delete_descend_seek [OF stored_root(2) [OF assms(1)] s(4) at_reset [OF assms(2)] n(2), of "[]"] by auto
  have map: "map_of (content norm x) ?ss = value_of (seek norm x ?ss)"
    using map_of_content [OF s(3) segs_nonempty [OF assms(2)]] .
  show thesis
  proof (cases "seek norm x ?ss")
    case Lf
    then have "delete_key n C key t = Returned t"
      using zs(1) stored_root(1) [OF assms(1)] by (simp add: delete_key_def n(1))
    then show thesis using that assms(1) map Lf by (simp add: fun_upd_idem)
  next
    case (Nd a h sg v k l m r)
    let ?y = "Nd a h sg v k l m r" and ?y1 = "Nd a h sg None None l m r"
    have z: "plug zs ?y = x" "path norm zs @ [norm sg] = ?ss" using zs(2) [OF Nd] by simp_all
    have y: "holds t zs (Some a) ?y" using s(1) holds_plug [of t zs ?y] by (simp add: z)
    define t1 where "t1 = upd_node a (delete_clear False) t"
    have nd: "nodes t a = \<lparr>node_height = h, segment = sg, node_value = v, node_key = k, node_left = rt l, node_mid = rt m, node_right = rt r\<rparr>"
      using y by (simp add: holds_def)
    have y1: "holds t1 zs (Some a) ?y1"
      unfolding t1_def by (rule holds_upd_focus [OF y]) (simp add: nd delete_clear_def)
    have avlz: "avl (plug zs ?y)" unfolding z(1) by (rule s(2))
    have avl: "avl ?y" "avl (plug zs ?y)" using avlz avl_plug by blast+
    have bst: "bst norm (plug zs ?y)" "bst norm ?y" using s(3) bst_plugD [of norm zs ?y] by (simp_all add: z)
    have so: "segs_ok (plug zs ?y)" using s(4) by (simp add: z)
    define c where "c = (if m \<noteq> Lf then ?y1 else if l \<noteq> Lf then l else r)"
    have nf: "m \<noteq> Lf \<or> l = Lf \<or> r = Lf" using assms(4) by (simp add: not_full_def Nd)
    have map': "map_of (content norm (plug zs ?y1)) = (map_of (content norm x))(?ss := None)"
      using content_change(3) [OF bst(1), of h None] by (simp add: z)
    have "content norm c = content norm ?y1" using nf by (auto simp: c_def)
    then have cont: "content norm (plug zs c) = content norm (plug zs ?y1)" by (rule content_plug_cong)
    have hc: "avl c" "ht c = ht ?y \<or> ht c = ht ?y - 1" "bst norm c" "level norm c \<subseteq> level norm ?y" "segments_of c \<subseteq> segments_of ?y"
      using nf avl(1) bst(2) ht_nonneg [of l] ht_nonneg [of r] by (auto simp: c_def)
    define t2 where "t2 = (if m \<noteq> Lf then t1 else patch (stack_of zs) (rt c) t1)"
    have t2: "holds t2 zs (rt c) c"
      using y1 holds_replace [OF y1, of c] nf by (auto simp: t2_def c_def)
    obtain t' x' where b: "delete_balance (stack_of zs) t2 = Returned t'" "stored t' x'" "content norm x' = content norm (plug zs c)"
      using delete_balance_stored [OF t2 avl(2) hc(1,2) bst(1) hc(3,4) so hc(5)] by blast
    have "delete_key n C key t = delete_balance (stack_of zs) t2"
    proof (cases m)
      case Lf
      have rc: "rt c = (case rt l of None \<Rightarrow> rt r | Some l \<Rightarrow> Some l)" by (cases l) (simp_all add: c_def Lf)
      have "rt l = None \<or> rt r = None" using nf Lf by (cases l; cases r) simp_all
      then show ?thesis
        using zs(1) stored_root(1) [OF assms(1)] Lf rc
        by (auto simp: delete_key_def n(1) Nd nd t2_def t1_def Let_def delete_clear_def split: option.splits)
    next
      case (Nd b h2 s2 v2 k2 l2 m2 r2)
      then show ?thesis
        using zs(1) stored_root(1) [OF assms(1)] \<open>seek norm x ?ss = ?y\<close>
        by (simp add: delete_key_def n(1) nd t2_def t1_def Let_def delete_clear_def)
    qed
    then show thesis using that b cont map' by simp
  qed
qed

text \<open>\<open>deleteSuperstr\<close> of a key whose node has no children to its sides.\<close>

lemma filter_middle:
  assumes "filter P (A @ B @ D) = B"
  shows "filter (\<lambda>x. \<not> P x) (A @ B @ D) = A @ D"
proof -
  have "length (filter P A) + length (filter P B) + length (filter P D) = length B"
    using arg_cong [OF assms, of length] by simp
  moreover have "set B = set (filter P (A @ B @ D))" by (simp only: assms)
  then have "set B \<subseteq> Collect P" by auto
  then have B: "\<forall>x\<in>set B. P x" by blast
  then have "filter P B = B" by (simp add: filter_id_conv)
  ultimately have "length (filter P A) = 0" "length (filter P D) = 0" by simp_all
  then show ?thesis using B by (auto simp: filter_empty_conv filter_id_conv)
qed

definition single :: "('k, 'v) ltree \<Rightarrow> bool" where
  "single y \<longleftrightarrow> (case y of Lf \<Rightarrow> True | Nd a h s v k l m r \<Rightarrow> l = Lf \<and> r = Lf)"

lemma deleteSuperstr_content:
  assumes "stored t x" "key_ok key" "length (refs x) < n" "single (seek norm x (segs key))"
  obtains t' x' where "deleteSuperstr n C key t = Returned t'" "stored t' x'"
    "content norm x' = filter (\<lambda>(ks, _, v). \<not> (strict_prefix (segs key) ks \<or> ks = segs key \<and> \<not> truthy_value C v)) (content norm x)"
proof -
  obtain n' where n: "n = Suc n'" "length (refs x) \<le> n'" using assms(3) by (cases n) auto
  let ?ss = "segs key"
  let ?gone = "\<lambda>(ks, _, v). strict_prefix ?ss ks \<or> ks = ?ss \<and> \<not> truthy_value C v"
  have neg: "(\<lambda>(ks, _, v). \<not> (strict_prefix ?ss ks \<or> ks = ?ss \<and> \<not> truthy_value C v)) = (\<lambda>e. \<not> ?gone e)" by auto
  have s: "holds t [] (rt x) x" "avl x" "bst norm x" "segs_ok x" using assms(1) by (simp_all add: stored_def)
  have ne: "?ss \<noteq> []" by (rule segs_nonempty [OF assms(2)])
  obtain zs where zs: "delete_descend n' C (reset_key (iterator C) key) (rt x) [] t = Returned (rt (seek norm x ?ss), stack_of zs)"
    "\<And>a h s v k l m r. seek norm x ?ss = Nd a h s v k l m r \<Longrightarrow>
       plug zs (Nd a h s v k l m r) = x \<and> path norm zs @ [norm s] = ?ss"
    using delete_descend_seek [OF stored_root(2) [OF assms(1)] s(4) at_reset [OF assms(2)] n(2), of "[]"] by auto
  have map: "map_of (content norm x) ?ss = value_of (seek norm x ?ss)"
    using map_of_content [OF s(3) ne] .
  have below: "filter (\<lambda>(ks, _). strict_prefix ?ss ks) (content norm x) = map (apfst ((@) ?ss)) (content norm (mid_of (seek norm x ?ss)))"
    using filter_content [OF s(3) ne] .
  show thesis
  proof (cases "seek norm x ?ss")
    case Lf
    then have "deleteSuperstr n C key t = Returned t"
      using zs(1) stored_root(1) [OF assms(1)] by (simp add: deleteSuperstr_def n(1))
    moreover have "filter ?gone (content norm x) = []"
    proof -
      have "fst e \<noteq> ?ss" if "e \<in> set (content norm x)" for e
        using map Lf that by (metis image_eqI map_of_eq_None_iff value_of.simps(1))
      moreover have "\<not> strict_prefix ?ss (fst e)" if "e \<in> set (content norm x)" for e
        using below Lf that by (auto simp: filter_empty_conv)
      ultimately show ?thesis unfolding filter_empty_conv by (metis (mono_tags, lifting) case_prod_beta)
    qed
    then have "filter (\<lambda>e. \<not> ?gone e) (content norm x) = content norm x" by (auto simp: filter_empty_conv filter_id_conv)
    ultimately show thesis using that assms(1) unfolding neg by metis
  next
    case (Nd a h sg v k l m r)
    let ?y = "Nd a h sg v k l m r" and ?y1 = "Nd a 1 sg v k Lf Lf Lf"
    have lr: "l = Lf" "r = Lf" using assms(4) by (simp_all add: single_def Nd)
    have z: "plug zs ?y = x" "path norm zs @ [norm sg] = ?ss" using zs(2) [OF Nd] by simp_all
    have y: "holds t zs (Some a) ?y" using s(1) holds_plug [of t zs ?y] by (simp add: z)
    define t1 where "t1 = upd_node a (delete_clear True) t"
    have nd: "nodes t a = \<lparr>node_height = h, segment = sg, node_value = v, node_key = k, node_left = rt l, node_mid = rt m, node_right = rt r\<rparr>"
      using y by (simp add: holds_def)
    have y1: "holds t1 zs (Some a) ?y1"
      using y by (auto simp: holds_def t1_def delete_clear_def)
    have avlz: "avl (plug zs ?y)" unfolding z(1) by (rule s(2))
    have avl: "avl ?y" "avl (plug zs ?y)" using avlz avl_plug by blast+
    have bst: "bst norm (plug zs ?y)" "bst norm ?y" using s(3) bst_plugD [of norm zs ?y] by (simp_all add: z)
    have so: "segs_ok (plug zs ?y)" using s(4) by (simp add: z)
    define keep where "keep = (case v of None \<Rightarrow> False | Some v \<Rightarrow> truthy_value C v)"
    define c where "c = (if keep then ?y1 else Lf)"
    have hc: "avl c" "ht c = ht ?y \<or> ht c = ht ?y - 1" "bst norm c" "level norm c \<subseteq> level norm ?y" "segments_of c \<subseteq> segments_of ?y"
      using avl(1) by (auto simp: c_def lr)
    define t2 where "t2 = (if keep then t1 else patch (stack_of zs) (rt c) t1)"
    have t2: "holds t2 zs (rt c) c"
      using y1 holds_replace [OF y1, of Lf] by (auto simp: t2_def c_def)
    obtain t' x' where b: "delete_balance (stack_of zs) t2 = Returned t'" "stored t' x'" "content norm x' = content norm (plug zs c)"
      using delete_balance_stored [OF t2 avl(2) hc(1,2) bst(1) hc(3,4) so hc(5)] by blast
    have del: "deleteSuperstr n C key t = delete_balance (stack_of zs) t2"
      using zs(1) stored_root(1) [OF assms(1)]
      by (auto simp: deleteSuperstr_def n(1) Nd nd t2_def t1_def Let_def delete_clear_def keep_def c_def split: option.splits)
    obtain pre post where pp: "\<And>x. content norm (plug zs x) = pre @ map (apfst ((@) (path norm zs))) (content norm x) @ post"
      using content_plug by blast
    let ?own = "case v of None \<Rightarrow> [] | Some v \<Rightarrow> [(?ss, k, v)]" and ?M = "map (apfst ((@) ?ss)) (content norm m)"
    have own: "map (apfst ((@) (path norm zs))) (case v of None \<Rightarrow> [] | Some v \<Rightarrow> [([norm sg], k, v)]) = ?own"
      by (cases v) (simp_all add: z(2))
    have M: "map (apfst ((@) (path norm zs))) (map (apfst ((#) (norm sg))) (content norm m)) = ?M"
      unfolding z(2) [symmetric] by (simp add: apfst_def map_prod_def o_def case_prod_unfold)
    have x: "content norm x = pre @ ?own @ ?M @ post"
      using pp [of ?y, unfolded z(1)] own M by (simp add: lr del: map_map)
    have "filter (\<lambda>(ks, _). strict_prefix ?ss ks) ((pre @ ?own) @ ?M @ post) = ?M" using below by (simp add: x Nd)
    then have sp: "filter (\<lambda>e. \<not> (\<lambda>(ks, _). strict_prefix ?ss ks) e) ((pre @ ?own) @ ?M @ post) = (pre @ ?own) @ post"
      by (rule filter_middle)
    have d: "distinct (map fst (content norm x))" using distinct_keys [OF s(3)] by (simp add: keys_def)
    have other: "filter (\<lambda>(ks, _, v). \<not> (ks = ?ss \<and> \<not> truthy_value C v)) (pre @ ?own @ post) = pre @ (if keep then ?own else []) @ post"
    proof (cases v)
      case None
      then have "?ss \<notin> fst ` set (content norm x)" using map by (simp add: map_of_eq_None_iff Nd)
      then have "?ss \<notin> fst ` set (pre @ post)" by (auto simp: x)
      then have "filter (\<lambda>(ks, _, v). \<not> (ks = ?ss \<and> \<not> truthy_value C v)) pre = pre" "filter (\<lambda>(ks, _, v). \<not> (ks = ?ss \<and> \<not> truthy_value C v)) post = post"
        by (force simp: filter_id_conv)+
      then show ?thesis using None by (simp add: keep_def)
    next
      case (Some w)
      then have "?ss \<notin> fst ` set pre" "?ss \<notin> fst ` set post" using d by (auto simp: x)
      then have "filter (\<lambda>(ks, _, v). \<not> (ks = ?ss \<and> \<not> truthy_value C v)) pre = pre" "filter (\<lambda>(ks, _, v). \<not> (ks = ?ss \<and> \<not> truthy_value C v)) post = post"
        by (force simp: filter_id_conv)+
      then show ?thesis using Some by (simp add: keep_def)
    qed
    have "content norm (plug zs c) = pre @ (if keep then ?own else []) @ post"
      using own by (simp add: pp c_def)
    also have "\<dots> = filter (\<lambda>(ks, _, v). \<not> (ks = ?ss \<and> \<not> truthy_value C v)) (filter (\<lambda>e. \<not> (\<lambda>(ks, _). strict_prefix ?ss ks) e) (content norm x))"
      using sp other by (simp add: x)
    also have "\<dots> = filter (\<lambda>(ks, _, v). \<not> (strict_prefix ?ss ks \<or> ks = ?ss \<and> \<not> truthy_value C v)) (content norm x)"
      by (simp add: case_prod_unfold conj_commute)
    finally show thesis using that del b by simp
  qed
qed

end

end
