(* ===== verification/TernaryProps.thy ===== *)
theory TernaryProps
  imports SegmentProps TernaryInsertion TernaryDeletion
begin

text \<open>
  What a \<open>TernarySearchTree\<close> over paths promises: it is a map from the segments of paths, in their order,
  and stays balanced.
\<close>

section \<open>Trees as maps\<close>

text \<open>
  A tree whose segments are ordered as their images under \<open>norm\<close> represents a list of entries: the
  segments of the key, the key and the value. The tree is a search tree in each of its levels, and balanced.
\<close>

definition represents ::
  "(string \<Rightarrow> 'n::linorder) \<Rightarrow> (string \<Rightarrow> bool) \<Rightarrow> ('k, 'v) search_tree \<Rightarrow> ('n list \<times> 'k option \<times> 'v) list \<Rightarrow> bool" where
  "represents nrm seg_ok t es \<longleftrightarrow>
     (\<exists>x. holds t [] (rt x) x \<and> avl x \<and> bst nrm x \<and> (\<forall>s\<in>segments_of x. seg_ok s) \<and> es = content nrm x)"

lemma represents_sorted: "represents nrm seg_ok t es \<Longrightarrow> sorted_wrt (<) (map fst es)"
  by (auto simp: represents_def keys_def dest: keys_sorted)

lemma represents_empty_tree: "represents nrm seg_ok TernarySearchTree_new []"
  unfolding represents_def by (rule exI [of _ Lf]) (simp add: holds_empty_tree)

lemma holds_allocated:
  assumes "holds t zs p x"
  shows "length (refs x) \<le> allocated t"
proof -
  have "distinct (refs x)" "set (refs x) \<subseteq> {..<allocated t}" using assms by (auto simp: holds_def)
  then have "card (set (refs x)) \<le> card {..<allocated t}" by (intro card_mono) auto
  then show ?thesis using \<open>distinct (refs x)\<close> by (simp add: distinct_card)
qed

context segmented_keys begin

lemma stored_represents: "stored t x \<Longrightarrow> represents norm seg_ok t (content norm x)"
  unfolding represents_def stored_def by blast

lemma represents_stored:
  assumes "represents norm seg_ok t es"
  obtains x where "stored t x" "length (refs x) \<le> allocated t" "es = content norm x"
  using assms holds_allocated unfolding represents_def stored_def by blast

lemma set_key_represents:
  assumes "represents norm seg_ok t es" "key_ok key" "allocated t + length (segs key) \<le> n"
  shows "\<exists>t' es'. set_key n C key e t = Returned (map_option snd (map_of es (segs key)), t') \<and>
    represents norm seg_ok t' es' \<and> map_of es' = (map_of es)(segs key \<mapsto> (Some key, e))"
proof -
  obtain x where x: "stored t x" "length (refs x) \<le> allocated t" "es = content norm x"
    using represents_stored [OF assms(1)] .
  have "length (refs x) + length (segs key) \<le> n" using x(2) assms(3) by simp
  from set_key_map [OF x(1) assms(2) this]
  obtain t' x' where t': "set_key n C key e t = Returned (map_option snd (map_of (content norm x) (segs key)), t')" "stored t' x'"
    "map_of (content norm x') = (map_of (content norm x))(segs key \<mapsto> (Some key, e))" .
  then have "represents norm seg_ok t' (content norm x')"
    using stored_represents by blast
  with t' show ?thesis unfolding x(3) by blast
qed

text \<open>The node of a key, in the store and in the tree.\<close>

lemma getNode_children:
  assumes "stored t x" "key_ok key" "length (refs x) \<le> n" "getNode n C key t = Returned found"
  shows "found = None \<Longrightarrow> seek norm x (segs key) = Lf"
    "found = Some a \<Longrightarrow> \<exists>h s v k l m r. seek norm x (segs key) = Nd a h s v k l m r \<and>
       node_left (nodes t a) = rt l \<and> node_mid (nodes t a) = rt m \<and> node_right (nodes t a) = rt r"
proof -
  have f: "rt (seek norm x (segs key)) = found" using getNode_seek [OF assms(1-3)] assms(4) by simp
  have r: "rep (nodes t) (seek norm x (segs key))" using seek_rep stored_root(2) [OF assms(1)] by blast
  show "found = None \<Longrightarrow> seek norm x (segs key) = Lf" using f by (cases "seek norm x (segs key)") simp_all
  show "\<exists>h s v k l m r. seek norm x (segs key) = Nd a h s v k l m r \<and>
      node_left (nodes t a) = rt l \<and> node_mid (nodes t a) = rt m \<and> node_right (nodes t a) = rt r" if "found = Some a"
    using f r that by (cases "seek norm x (segs key)") simp_all
qed

lemma rt_None [simp]: "rt x = None \<longleftrightarrow> x = Lf" "None = rt x \<longleftrightarrow> x = Lf"
  by (cases x; simp)+

lemma delete_key_represents:
  assumes "represents norm seg_ok t es" "key_ok key" "allocated t < n"
    "getNode n C key t = Returned found"
    "\<And>a. found = Some a \<Longrightarrow> node_mid (nodes t a) \<noteq> None \<or> node_left (nodes t a) = None \<or> node_right (nodes t a) = None"
  shows "\<exists>t' es'. delete_key n C key t = Returned t' \<and>
    represents norm seg_ok t' es' \<and> map_of es' = (map_of es)(segs key := None)"
proof -
  obtain x where x: "stored t x" "length (refs x) \<le> allocated t" "es = content norm x"
    using represents_stored [OF assms(1)] .
  have n: "length (refs x) < n" using x(2) assms(3) by simp
  have "not_full (seek norm x (segs key))"
    using getNode_children [OF x(1) assms(2) less_imp_le [OF n] assms(4)] assms(5)
    by (cases found) (auto simp: not_full_def)
  from delete_key_map [OF x(1) assms(2) n this]
  obtain t' x' where t': "delete_key n C key t = Returned t'" "stored t' x'"
    "map_of (content norm x') = (map_of (content norm x))(segs key := None)" .
  then have "represents norm seg_ok t' (content norm x')"
    using stored_represents by blast
  with t' show ?thesis unfolding x(3) by blast
qed

lemma deleteSuperstr_represents:
  assumes "represents norm seg_ok t es" "key_ok key" "allocated t < n"
    "getNode n C key t = Returned found"
    "\<And>a. found = Some a \<Longrightarrow> node_left (nodes t a) = None \<and> node_right (nodes t a) = None"
  shows "\<exists>t'. deleteSuperstr n C key t = Returned t' \<and>
    represents norm seg_ok t' (filter (\<lambda>(ks, _, v). \<not> (strict_prefix (segs key) ks \<or> ks = segs key \<and> \<not> truthy_value C v)) es)"
proof -
  obtain x where x: "stored t x" "length (refs x) \<le> allocated t" "es = content norm x"
    using represents_stored [OF assms(1)] .
  have n: "length (refs x) < n" using x(2) assms(3) by simp
  have "single (seek norm x (segs key))"
    using getNode_children [OF x(1) assms(2) less_imp_le [OF n] assms(4)] assms(5)
    by (cases found) (auto simp: single_def)
  from deleteSuperstr_content [OF x(1) assms(2) n this]
  obtain t' x' where t': "deleteSuperstr n C key t = Returned t'" "stored t' x'"
    "content norm x' = filter (\<lambda>(ks, _, v). \<not> (strict_prefix (segs key) ks \<or> ks = segs key \<and> \<not> truthy_value C v)) (content norm x)" .
  then have "represents norm seg_ok t' (content norm x')"
    using stored_represents by blast
  with t'(1,3) show ?thesis unfolding x(3) by (intro exI [of _ t']) simp
qed

lemma queries_represents:
  assumes "represents norm seg_ok t es" "key_ok key" "allocated t \<le> n"
  shows "get_key n C key t = Returned (map_option snd (map_of es (segs key)))"
    "findSubstr n C key t = Returned (longest_prefix (truthy_value C) (map_of es) (segs key) None)"
    "tree_entries n C t = Returned (truthy_entries (truthy_value C) es)"
    "findSuperstr n C key t = Returned (Entries (truthy_entries (truthy_value C) (filter (\<lambda>(ks, _). strict_prefix (segs key) ks) es))) \<or>
      findSuperstr n C key t = Returned Nothing \<and> filter (\<lambda>(ks, _). strict_prefix (segs key) ks) es = []"
    "isBalanced n t = Returned True"
proof -
  obtain x where x: "stored t x" "length (refs x) \<le> allocated t" "es = content norm x"
    using represents_stored [OF assms(1)] .
  have n: "length (refs x) \<le> n" using x(2) assms(3) by simp
  show "get_key n C key t = Returned (map_option snd (map_of es (segs key)))"
    unfolding x(3) by (rule get_key_map [OF x(1) assms(2) n])
  show "findSubstr n C key t = Returned (longest_prefix (truthy_value C) (map_of es) (segs key) None)"
    unfolding x(3) by (rule findSubstr_longest [OF x(1) assms(2) n])
  show "tree_entries n C t = Returned (truthy_entries (truthy_value C) es)"
    unfolding x(3) by (rule tree_entries_content [OF x(1) n])
  show "findSuperstr n C key t = Returned (Entries (truthy_entries (truthy_value C) (filter (\<lambda>(ks, _). strict_prefix (segs key) ks) es))) \<or>
      findSuperstr n C key t = Returned Nothing \<and> filter (\<lambda>(ks, _). strict_prefix (segs key) ks) es = []"
    unfolding x(3) by (rule findSuperstr_entries [OF x(1) assms(2) n])
  show "isBalanced n t = Returned True" by (rule isBalanced_stored [OF x(1) n])
qed

end

text \<open>The tree of one path.\<close>

definition a_path :: "(string, nat) search_tree" where
  "a_path = \<lparr>nodes = (\<lambda>_. \<lparr>node_height = 1, segment = ''a'', node_value = Some 7, node_key = Some ''/a'',
      node_left = None, node_mid = None, node_right = None\<rparr>), allocated = 1, tree_root = Some 0\<rparr>"

lemma a_path_represents: "represents (seg_norm True) (case_ok True) a_path [([codes ''a''], Some ''/a'', 7)]"
  unfolding represents_def
  by (rule exI [of _ "Nd 0 1 ''a'' (Some 7) (Some ''/a'') Lf Lf Lf"])
    (simp add: a_path_def holds_def case_ok_def seg_norm_def)

lemma a_path_segments:
  "path_segments True ''a'' = [codes ''a'']" "path_segments True ''a/'' = [codes ''a'']"
  "path_segments True ''/a/b/c'' = [codes ''a'', codes ''b'', codes ''c'']"
  by code_simp+

section \<open>Trees over paths\<close>

text \<open>C30. Setting a path in a tree over paths never throws: it returns the value the path had, and the tree represents the map in which the path has the new value; it is balanced and sorted by the segments of the paths.\<close>
theorem TernarySearchTree_set_refines:
  assumes "represents (seg_norm (\<not> ignorePathCasing)) (case_ok (\<not> ignorePathCasing)) t es" "case_ok (\<not> ignorePathCasing) key"
    "allocated t + length key < n"
  shows "\<exists>t' es'. set_key n (forPaths lower tr ignorePathCasing) key e t =
      Returned (map_option snd (map_of es (path_segments (\<not> ignorePathCasing) key)), t') \<and>
    represents (seg_norm (\<not> ignorePathCasing)) (case_ok (\<not> ignorePathCasing)) t' es' \<and> sorted_wrt (<) (map fst es') \<and>
    map_of es' = (map_of es)(path_segments (\<not> ignorePathCasing) key \<mapsto> (Some key, e))"
proof -
  have "allocated t + length (path_segments (\<not> ignorePathCasing) key) \<le> n"
    using assms(3) path_segments_length [of "\<not> ignorePathCasing" key] by simp
  from path_keys.set_key_represents [OF assms(1,2) this, of lower tr e] show ?thesis
    using represents_sorted by blast
qed

theorem TernarySearchTree_set_refines_witness:
  "\<exists>t' es'. set_key 10 (forPaths (\<lambda>s. s) (\<lambda>v. v \<noteq> (0::nat)) True) ''/a/b'' 1 TernarySearchTree_new = Returned (None, t') \<and>
    represents (seg_norm False) (case_ok False) t' es' \<and> sorted_wrt (<) (map fst es') \<and>
    map_of es' = [path_segments False ''/a/b'' \<mapsto> (Some ''/a/b'', 1)]"
proof -
  have "allocated (TernarySearchTree_new :: (string, nat) search_tree) + length ''/a/b'' < 10" "case_ok (\<not> True) ''/a/b''"
    by (simp_all add: TernarySearchTree_new_def case_ok_def ascii_def)
  from TernarySearchTree_set_refines [OF represents_empty_tree this(2,1), of "\<lambda>s. s" "\<lambda>v. v \<noteq> 0" 1] show ?thesis
    by simp
qed

text \<open>C32. On a tree over paths that represents a list of entries, \<open>get\<close> is the lookup in it, \<open>findSubstr\<close> finds the longest path above the key that has a value, iterating goes through the entries in the order of their segments, \<open>findSuperstr\<close> finds exactly those below the key, and the tree is balanced.\<close>
theorem TernarySearchTree_queries_correct:
  assumes "represents (seg_norm (\<not> ignorePathCasing)) (case_ok (\<not> ignorePathCasing)) t es" "case_ok (\<not> ignorePathCasing) key"
    "allocated t \<le> n"
  shows "get_key n (forPaths lower tr ignorePathCasing) key t = Returned (map_option snd (map_of es (path_segments (\<not> ignorePathCasing) key))) \<and>
    findSubstr n (forPaths lower tr ignorePathCasing) key t = Returned (longest_prefix tr (map_of es) (path_segments (\<not> ignorePathCasing) key) None) \<and>
    tree_entries n (forPaths lower tr ignorePathCasing) t = Returned (truthy_entries tr es) \<and>
    findSuperstr n (forPaths lower tr ignorePathCasing) key t \<in>
      (let below = filter (\<lambda>(ks, _). strict_prefix (path_segments (\<not> ignorePathCasing) key) ks) es in
       if below = [] then {Returned (Entries []), Returned Nothing} else {Returned (Entries (truthy_entries tr below))}) \<and>
    isBalanced n t = Returned True"
proof -
  have tr: "truthy_value (forPaths lower tr ignorePathCasing) = tr" by (simp add: forPaths_def)
  show ?thesis
    using path_keys.queries_represents(1-3) [OF assms, where lower = lower and tr = tr]
      path_keys.queries_represents(4) [OF assms, where lower = lower and tr = tr] path_keys.queries_represents(5) [OF assms]
    by (auto simp: tr Let_def simp del: filter_filter)
qed

theorem TernarySearchTree_queries_correct_witness:
  "get_key 3 (forPaths (\<lambda>s. s) (\<lambda>v. v \<noteq> (0::nat)) False) ''a'' a_path = Returned (Some 7) \<and>
   findSubstr 3 (forPaths (\<lambda>s. s) (\<lambda>v. v \<noteq> (0::nat)) False) ''/a/b/c'' a_path = Returned (Some 7)"
proof -
  have ok: "case_ok (\<not> False) key" for key by (simp add: case_ok_def)
  have r: "represents (seg_norm (\<not> False)) (case_ok (\<not> False)) a_path [([codes ''a''], Some ''/a'', 7)]"
    by (simp add: a_path_represents)
  have a: "allocated a_path \<le> 3" by (simp add: a_path_def)
  show ?thesis
    using TernarySearchTree_queries_correct [OF r ok a, where lower = "\<lambda>s. s" and tr = "\<lambda>v. v \<noteq> 0" and key = "''a''"]
      TernarySearchTree_queries_correct [OF r ok a, where lower = "\<lambda>s. s" and tr = "\<lambda>v. v \<noteq> 0" and key = "''/a/b/c''"]
    by (simp add: a_path_segments longest_prefix_def or_else_def)
qed

text \<open>C31. Deleting a path from a tree over paths removes it and nothing else, provided that its node has something below it or misses one of its neighbours; deleting what is below a path removes that and nothing else, provided that its node has no neighbours.\<close>
theorem TernarySearchTree_delete_refines:
  assumes "represents (seg_norm (\<not> ignorePathCasing)) (case_ok (\<not> ignorePathCasing)) t es" "case_ok (\<not> ignorePathCasing) key"
    "allocated t < n" "getNode n (forPaths lower tr ignorePathCasing) key t = Returned found"
  shows "((\<forall>a. found = Some a \<longrightarrow> node_mid (nodes t a) \<noteq> None \<or> node_left (nodes t a) = None \<or> node_right (nodes t a) = None) \<longrightarrow>
      (\<exists>t' es'. delete_key n (forPaths lower tr ignorePathCasing) key t = Returned t' \<and>
        represents (seg_norm (\<not> ignorePathCasing)) (case_ok (\<not> ignorePathCasing)) t' es' \<and>
        map_of es' = (map_of es)(path_segments (\<not> ignorePathCasing) key := None))) \<and>
    ((\<forall>a. found = Some a \<longrightarrow> node_left (nodes t a) = None \<and> node_right (nodes t a) = None) \<longrightarrow>
      (\<exists>t'. deleteSuperstr n (forPaths lower tr ignorePathCasing) key t = Returned t' \<and>
        represents (seg_norm (\<not> ignorePathCasing)) (case_ok (\<not> ignorePathCasing)) t'
          (filter (\<lambda>(ks, _, v). \<not> (strict_prefix (path_segments (\<not> ignorePathCasing) key) ks \<or>
             ks = path_segments (\<not> ignorePathCasing) key \<and> \<not> tr v)) es)))"
proof -
  have tr: "truthy_value (forPaths lower tr ignorePathCasing) = tr" by (simp add: forPaths_def)
  show ?thesis
    using path_keys.delete_key_represents [OF assms] path_keys.deleteSuperstr_represents [OF assms] unfolding tr by blast
qed

theorem TernarySearchTree_delete_refines_witness:
  "(\<exists>t' es'. delete_key 3 (forPaths (\<lambda>s. s) (\<lambda>v. v \<noteq> (0::nat)) False) ''a/'' a_path = Returned t' \<and>
     represents (seg_norm True) (case_ok True) t' es' \<and> map_of es' = Map.empty) \<and>
   (\<exists>t'. deleteSuperstr 3 (forPaths (\<lambda>s. s) (\<lambda>v. v \<noteq> (0::nat)) False) ''a/'' a_path = Returned t' \<and>
     represents (seg_norm True) (case_ok True) t' [([codes ''a''], Some ''/a'', 7)])"
proof -
  have g: "getNode 3 (forPaths (\<lambda>s. s) (\<lambda>v. v \<noteq> (0::nat)) False) ''a/'' a_path = Returned (Some 0)" by code_simp
  have ok: "case_ok (\<not> False) ''a/''" "represents (seg_norm (\<not> False)) (case_ok (\<not> False)) a_path [([codes ''a''], Some ''/a'', 7)]"
    by (simp_all add: case_ok_def a_path_represents)
  have a: "node_left (nodes a_path 0) = None" "node_right (nodes a_path 0) = None" "allocated a_path < 3"
    by (simp_all add: a_path_def)
  show ?thesis
    using TernarySearchTree_delete_refines [OF ok(2,1) a(3) g] a by (simp add: a_path_segments)
qed

end
