(* ===== verification/TernaryLosses.thy ===== *)
theory TernaryLosses
  imports SegmentIterators
begin

text \<open>
  What a \<open>TernarySearchTree\<close> loses: deleting the key of a node with both neighbours can lose other keys, and
  so can \<open>deleteSuperstr\<close>; \<open>has\<close> finds what is not there; the empty key takes the place of another.
\<close>

text \<open>A tree over strings whose values are numbers, with the given keys set in their order.\<close>

definition letter_class :: "(string, string_iterator, nat) tree_class" where
  "letter_class = forStrings (\<lambda>v. v \<noteq> 0)"

definition letters :: "string list \<Rightarrow> (string, nat) search_tree outcome" where
  "letters ks = fill 10 letter_class (\<lambda>es. es) (map (\<lambda>k. (k, 1)) ks) TernarySearchTree_new"

definition kept :: "(string, nat) search_tree outcome \<Rightarrow> string list outcome" where
  "kept t = obind (obind t (tree_entries 10 letter_class)) (\<lambda>es. Returned (map (\<lambda>e. case fst e of None \<Rightarrow> [] | Some k \<Rightarrow> k) es))"

lemma obind_weak_cong: "x = y \<Longrightarrow> obind x f = obind y f"
  by simp

lemmas lettered = letters_def kept_def letter_class_def fill_def set_key_def get_key_def has_key_def getNode_def tree_entries_def
  entries_from_def delete_key_def deleteSuperstr_def delete_clear_def delete_rotate_def child_balance_def
  root_or_new_def child_or_new_def new_segment_def search_step_def alloc_node_def upd_node_def updateHeight_def
  balanceFactor_def height_of_def rotateLeft_def rotateRight_def set_rotate_def TernarySearchTree_new_def
  TernarySearchTreeNode_new_def forStrings_def StringIterator_def StringIterator_reset_def StringIterator_next_def
  StringIterator_hasNext_def StringIterator_cmp_def StringIterator_value_def code_at_def Let_def eval_nat_numeral

text \<open>
  The node of \<open>b\<close> has both neighbours: the key that takes its place is deleted by a call of \<open>_delete\<close> that
  rotates the tree, then the stack of the first call is used as if it had not, and five keys are lost.
\<close>

lemma delete_loses_keys:
  "kept (obind (letters [''e'', ''b'', ''h'', ''a'', ''c'', ''f'', ''k'', ''d'', ''g'', ''j'', ''l'', ''i'']) (delete_key 10 letter_class ''b'')) =
     Returned [''a'', ''c'', ''d'', ''e'', ''f'', ''g'']"
  by (simp add: lettered cong: obind_weak_cong)

text \<open>The key that takes the place of a deleted one has keys below it, which are no longer found.\<close>

lemma delete_hides_keys:
  "kept (obind (letters [''b'', ''a'', ''c'', ''cd'']) (delete_key 10 letter_class ''b'')) = Returned [''a'', ''c'', ''cd'']"
  "obind (obind (letters [''b'', ''a'', ''c'', ''cd'']) (delete_key 10 letter_class ''b'')) (get_key 10 letter_class ''cd'') = Returned None"
  by (simp_all add: lettered cong: obind_weak_cong)

text \<open>\<open>deleteSuperstr\<close> drops the neighbours of the node too, which do not start with the key.\<close>

lemma deleteSuperstr_deletes_others:
  "kept (letters [''b'', ''a'', ''c'']) = Returned [''a'', ''b'', ''c'']"
  "kept (obind (letters [''b'', ''a'', ''c'']) (deleteSuperstr 10 letter_class ''b'')) = Returned [''b'']"
  by (simp_all add: lettered cong: obind_weak_cong)

text \<open>\<open>has\<close> asks for nodes, which stay when there is nothing left below them.\<close>

lemma has_without_keys:
  "obind (letters [''foo'']) (has_key 10 letter_class ''fo'') = Returned True"
  "obind (obind (letters [''abc'']) (delete_key 10 letter_class ''abc'')) (has_key 10 letter_class ''a'') = Returned True"
  "kept (obind (letters [''abc'']) (delete_key 10 letter_class ''abc'')) = Returned []"
  by (simp_all add: lettered cong: obind_weak_cong)

text \<open>The empty key has no segment: it throws when the tree is empty, and else takes the root's value.\<close>

lemma empty_key_takes_root:
  "letters [''''] = Threw"
  "kept (letters [''b'', '''']) = Returned ['''']"
  by (simp_all add: lettered cong: obind_weak_cong)

text \<open>
  \<open>forUris\<close> tells segments apart by their text only: what was set for a path is found for a URI that has
  the last segment of the path as its query.
\<close>

definition uri_class :: "(uri, uri_iterator, nat) tree_class" where
  "uri_class = forUris (\<lambda>s. s) (\<lambda>v. v \<noteq> 0) (\<lambda>_. False) (\<lambda>_. False)"

definition file_uri :: "string \<Rightarrow> string \<Rightarrow> uri" where
  "file_uri p q = \<lparr>scheme = ''file'', authority = [], uri_path = p, query = q, fragment = []\<rparr>"

definition found_after_set :: "uri \<Rightarrow> uri \<Rightarrow> nat option outcome" where
  "found_after_set key other = obind (set_key 10 uri_class key 1 TernarySearchTree_new) (\<lambda>(_, t). get_key 10 uri_class other t)"

lemma forUris_confuses:
  "file_uri ''/a/b'' [] \<noteq> file_uri ''/a'' ''b''"
  "found_after_set (file_uri ''/a/b'' []) (file_uri ''/a'' ''b'') = Returned (Some 1)"
  by code_simp+

end
