(* ===== verification/ArraysFind.thy ===== *)
theory ArraysFind
  imports Prelude
begin

text \<open>
  \<open>src/patched-vscode/src/vs/base/common/arraysFind.ts\<close>: linear and binary searches in
  arrays. Indices are \<open>int\<close> as in the source, where -1 means "not found". The binary
  searches read \<open>array[k]\<close> for \<open>startIdx \<le> k < endIdxEx\<close> only, so the model's
  \<open>array ! k\<close> is in range whenever \<open>endIdxEx \<le> length array\<close>.
\<close>

section \<open>Definitions\<close>

function findLastIdxFrom :: "'a list \<Rightarrow> ('a \<Rightarrow> bool) \<Rightarrow> int \<Rightarrow> int" where
  "findLastIdxFrom array predicate i =
     (if i < 0 then -1
      else if predicate (array ! nat i) then i
      else findLastIdxFrom array predicate (i - 1))"
  by pat_completeness auto
termination
  by (relation "measure (\<lambda>(array, predicate, i). nat (i + 1))") auto

declare findLastIdxFrom.simps [simp del]

definition findLastIdx :: "'a list \<Rightarrow> ('a \<Rightarrow> bool) \<Rightarrow> int" where
  "findLastIdx array predicate = findLastIdxFrom array predicate (int (length array) - 1)"

definition findLast :: "'a list \<Rightarrow> ('a \<Rightarrow> bool) \<Rightarrow> 'a option" where
  "findLast array predicate =
     (let idx = findLastIdx array predicate
      in if idx = -1 then None else Some (array ! nat idx))"

text \<open>The loop of \<open>findLastIdxMonotonous\<close>; the result is the final \<open>i\<close>.\<close>

function findLastLoop :: "'a list \<Rightarrow> ('a \<Rightarrow> bool) \<Rightarrow> nat \<Rightarrow> nat \<Rightarrow> nat" where
  "findLastLoop array predicate i j =
     (if i < j then
        (let k = (i + j) div 2
         in if predicate (array ! k) then findLastLoop array predicate (k + 1) j
            else findLastLoop array predicate i k)
      else i)"
  by pat_completeness auto
termination
  by (relation "measure (\<lambda>(array, predicate, i, j). j - i)") auto

declare findLastLoop.simps [simp del]

definition findLastIdxMonotonous :: "'a list \<Rightarrow> ('a \<Rightarrow> bool) \<Rightarrow> nat \<Rightarrow> nat \<Rightarrow> int" where
  "findLastIdxMonotonous array predicate startIdx endIdxEx =
     int (findLastLoop array predicate startIdx endIdxEx) - 1"

definition findLastMonotonous :: "'a list \<Rightarrow> ('a \<Rightarrow> bool) \<Rightarrow> 'a option" where
  "findLastMonotonous array predicate =
     (let idx = findLastIdxMonotonous array predicate 0 (length array)
      in if idx = -1 then None else Some (array ! nat idx))"

text \<open>The loop of \<open>findFirstIdxMonotonousOrArrLen\<close>.\<close>

function findFirstLoop :: "'a list \<Rightarrow> ('a \<Rightarrow> bool) \<Rightarrow> nat \<Rightarrow> nat \<Rightarrow> nat" where
  "findFirstLoop array predicate i j =
     (if i < j then
        (let k = (i + j) div 2
         in if predicate (array ! k) then findFirstLoop array predicate i k
            else findFirstLoop array predicate (k + 1) j)
      else i)"
  by pat_completeness auto
termination
  by (relation "measure (\<lambda>(array, predicate, i, j). j - i)") auto

declare findFirstLoop.simps [simp del]

definition findFirstIdxMonotonousOrArrLen :: "'a list \<Rightarrow> ('a \<Rightarrow> bool) \<Rightarrow> nat \<Rightarrow> nat \<Rightarrow> nat" where
  "findFirstIdxMonotonousOrArrLen array predicate startIdx endIdxEx =
     findFirstLoop array predicate startIdx endIdxEx"

definition findFirstIdxMonotonous :: "'a list \<Rightarrow> ('a \<Rightarrow> bool) \<Rightarrow> nat \<Rightarrow> nat \<Rightarrow> int" where
  "findFirstIdxMonotonous array predicate startIdx endIdxEx =
     (let idx = findFirstIdxMonotonousOrArrLen array predicate startIdx endIdxEx
      in if idx = length array then -1 else int idx)"

definition findFirstMonotonous :: "'a list \<Rightarrow> ('a \<Rightarrow> bool) \<Rightarrow> 'a option" where
  "findFirstMonotonous array predicate =
     (let idx = findFirstIdxMonotonousOrArrLen array predicate 0 (length array)
      in if idx = length array then None else Some (array ! idx))"

text \<open>
  \<open>MonotonousArray\<close>: the array, the index the next search starts from, and the previous
  predicate (only kept when \<open>assertInvariants\<close> is set).
\<close>

record 'a monotonous_array =
  ma_array :: "'a list"
  ma_findLastMonotonousLastIdx :: nat
  ma_prevFindLastPredicate :: "('a \<Rightarrow> bool) option"

definition MonotonousArray_new :: "'a list \<Rightarrow> 'a monotonous_array" where
  "MonotonousArray_new arr =
     \<lparr>ma_array = arr, ma_findLastMonotonousLastIdx = 0, ma_prevFindLastPredicate = None\<rparr>"

definition MonotonousArray_findLastMonotonous ::
  "bool \<Rightarrow> 'a monotonous_array \<Rightarrow> ('a \<Rightarrow> bool) \<Rightarrow> ('a monotonous_array \<times> 'a option) result" where
  "MonotonousArray_findLastMonotonous assertInvariants m predicate =
     (let violated = (case ma_prevFindLastPredicate m of
            None \<Rightarrow> False
          | Some prev \<Rightarrow> list_ex (\<lambda>item. prev item \<and> \<not> predicate item) (ma_array m))
      in if assertInvariants \<and> violated then
           Inl (GenericError ''MonotonousArray: current predicate must be weaker than (or equal to) the previous predicate.'')
         else
           (let m1 = (if assertInvariants then m\<lparr>ma_prevFindLastPredicate := Some predicate\<rparr> else m);
                idx = findLastIdxMonotonous (ma_array m) predicate
                        (ma_findLastMonotonousLastIdx m) (length (ma_array m));
                m2 = m1\<lparr>ma_findLastMonotonousLastIdx := nat (idx + 1)\<rparr>
            in Inr (m2, if idx = -1 then None else Some (ma_array m ! nat idx))))"

fun findFirstMaxLoop :: "('a \<Rightarrow> 'a \<Rightarrow> int) \<Rightarrow> 'a \<Rightarrow> 'a list \<Rightarrow> 'a" where
  "findFirstMaxLoop comparator m [] = m"
| "findFirstMaxLoop comparator m (item # items) =
     findFirstMaxLoop comparator (if comparator item m > 0 then item else m) items"

definition findFirstMax :: "'a list \<Rightarrow> ('a \<Rightarrow> 'a \<Rightarrow> int) \<Rightarrow> 'a option" where
  "findFirstMax array comparator =
     (case array of [] \<Rightarrow> None | x # xs \<Rightarrow> Some (findFirstMaxLoop comparator x xs))"

fun findLastMaxLoop :: "('a \<Rightarrow> 'a \<Rightarrow> int) \<Rightarrow> 'a \<Rightarrow> 'a list \<Rightarrow> 'a" where
  "findLastMaxLoop comparator m [] = m"
| "findLastMaxLoop comparator m (item # items) =
     findLastMaxLoop comparator (if comparator item m \<ge> 0 then item else m) items"

definition findLastMax :: "'a list \<Rightarrow> ('a \<Rightarrow> 'a \<Rightarrow> int) \<Rightarrow> 'a option" where
  "findLastMax array comparator =
     (case array of [] \<Rightarrow> None | x # xs \<Rightarrow> Some (findLastMaxLoop comparator x xs))"

definition findFirstMin :: "'a list \<Rightarrow> ('a \<Rightarrow> 'a \<Rightarrow> int) \<Rightarrow> 'a option" where
  "findFirstMin array comparator = findFirstMax array (\<lambda>a b. - comparator a b)"

fun findMaxIdxLoop :: "('a \<Rightarrow> 'a \<Rightarrow> int) \<Rightarrow> 'a list \<Rightarrow> nat \<Rightarrow> nat \<Rightarrow> 'a list \<Rightarrow> nat" where
  "findMaxIdxLoop comparator array maxIdx i [] = maxIdx"
| "findMaxIdxLoop comparator array maxIdx i (item # items) =
     findMaxIdxLoop comparator array
       (if comparator item (array ! maxIdx) > 0 then i else maxIdx) (Suc i) items"

definition findMaxIdx :: "'a list \<Rightarrow> ('a \<Rightarrow> 'a \<Rightarrow> int) \<Rightarrow> int" where
  "findMaxIdx array comparator =
     (if array = [] then -1 else int (findMaxIdxLoop comparator array 0 1 (tl array)))"

fun mapFindFirst :: "'a list \<Rightarrow> ('a \<Rightarrow> 'b option) \<Rightarrow> 'b option" where
  "mapFindFirst [] mapFn = None"
| "mapFindFirst (value # items) mapFn =
     (case mapFn value of Some mapped \<Rightarrow> Some mapped | None \<Rightarrow> mapFindFirst items mapFn)"

section \<open>Linear searches\<close>

lemma findLastIdxFrom_bounds: "-1 \<le> i \<Longrightarrow> -1 \<le> findLastIdxFrom xs p i \<and> findLastIdxFrom xs p i \<le> i"
proof (induction xs p i rule: findLastIdxFrom.induct)
  case (1 xs p i)
  then show ?case by (subst (1 2) findLastIdxFrom.simps) auto
qed

lemma findLastIdxFrom_hit:
  "-1 \<le> i \<Longrightarrow> findLastIdxFrom xs p i \<noteq> -1 \<Longrightarrow> p (xs ! nat (findLastIdxFrom xs p i))"
proof (induction xs p i rule: findLastIdxFrom.induct)
  case (1 xs p i)
  show ?case
  proof (cases "i < 0 \<or> p (xs ! nat i)")
    case True
    with "1.prems" show ?thesis by (auto simp: findLastIdxFrom.simps [of xs p i] split: if_splits)
  next
    case False
    with "1" show ?thesis by (simp add: findLastIdxFrom.simps [of xs p i])
  qed
qed

lemma findLastIdxFrom_after:
  "findLastIdxFrom xs p i < int k \<Longrightarrow> int k \<le> i \<Longrightarrow> \<not> p (xs ! k)"
proof (induction xs p i rule: findLastIdxFrom.induct)
  case (1 xs p i)
  show ?case
  proof (cases "p (xs ! nat i)")
    case True
    with "1.prems" show ?thesis by (auto simp: findLastIdxFrom.simps [of xs p i])
  next
    case False
    with "1" show ?thesis
      by (cases "int k = i") (auto simp: findLastIdxFrom.simps [of xs p i])
  qed
qed

lemma findLastIdx_unique:
  assumes "n \<le> length xs" and "0 < n \<Longrightarrow> p (xs ! (n - 1))"
    and "\<And>k. n \<le> k \<Longrightarrow> k < length xs \<Longrightarrow> \<not> p (xs ! k)"
  shows "findLastIdx xs p = int n - 1"
proof -
  define r where "r = findLastIdx xs p"
  have r_def': "r = findLastIdxFrom xs p (int (length xs) - 1)"
    by (simp add: r_def findLastIdx_def)
  have b: "-1 \<le> r" "r \<le> int (length xs) - 1"
    using findLastIdxFrom_bounds [of "int (length xs) - 1" xs p] by (auto simp: r_def')
  have "r < int n"
  proof (rule ccontr)
    assume "\<not> r < int n"
    then have "p (xs ! nat r)" and "n \<le> nat r" and "nat r < length xs"
      using findLastIdxFrom_hit [of "int (length xs) - 1" xs p] b by (auto simp: r_def')
    with assms(3) show False by blast
  qed
  moreover have "\<not> r < int n - 1"
  proof
    assume "r < int n - 1"
    moreover from this b have "0 < n" by linarith
    ultimately have "\<not> p (xs ! (n - 1))"
      using findLastIdxFrom_after [of xs p "int (length xs) - 1" "n - 1"] assms(1)
      by (auto simp: r_def')
    with \<open>0 < n\<close> assms(2) show False by blast
  qed
  ultimately show ?thesis by (simp add: r_def)
qed

section \<open>Binary searches\<close>

text \<open>
  On a monotonous array both loops return the length of the true prefix, clamped to the
  searched interval.
\<close>

lemma findLastLoop_eq:
  "monotonous p xs \<Longrightarrow> i \<le> j \<Longrightarrow> j \<le> length xs \<Longrightarrow>
     findLastLoop xs p i j = max i (min j (length (takeWhile p xs)))"
proof (induction xs p i j rule: findLastLoop.induct)
  case (1 xs p i j)
  let ?n = "length (takeWhile p xs)"
  let ?k = "(i + j) div 2"
  show ?case
  proof (cases "i < j")
    case False
    with "1.prems" show ?thesis by (simp add: findLastLoop.simps [of xs p j j])
  next
    case True
    with "1.prems" have k: "i \<le> ?k" "?k < j" by auto
    with "1.prems" have pk: "p (xs ! ?k) \<longleftrightarrow> ?k < ?n"
      by (intro monotonous_takeWhile) auto
    show ?thesis
    proof (cases "p (xs ! ?k)")
      case T: True
      then have "findLastLoop xs p (?k + 1) j = max (?k + 1) (min j ?n)"
        using "1.IH"(1) True "1.prems" k by simp
      with True T k pk show ?thesis by (simp add: findLastLoop.simps [of xs p i j] Let_def)
    next
      case F: False
      then have "findLastLoop xs p i ?k = max i (min ?k ?n)"
        using "1.IH"(2) True "1.prems" k by simp
      with True F k pk show ?thesis by (simp add: findLastLoop.simps [of xs p i j] Let_def)
    qed
  qed
qed

lemma findFirstLoop_eq_findLastLoop:
  "findFirstLoop xs p i j = findLastLoop xs (\<lambda>x. \<not> p x) i j"
proof (induction xs p i j rule: findFirstLoop.induct)
  case (1 xs p i j)
  then show ?case
    by (simp add: findFirstLoop.simps [of xs p i j] findLastLoop.simps [of xs _ i j] Let_def)
qed

lemma findLastIdxMonotonous_eq:
  assumes "monotonous p xs"
  shows "findLastIdxMonotonous xs p 0 (length xs) = int (length (takeWhile p xs)) - 1"
  using assms length_takeWhile_le [of p xs]
  by (simp add: findLastIdxMonotonous_def findLastLoop_eq)

lemma findFirstIdxMonotonousOrArrLen_eq:
  assumes "monotonous (\<lambda>x. \<not> p x) xs"
  shows "findFirstIdxMonotonousOrArrLen xs p 0 (length xs) = length (takeWhile (\<lambda>x. \<not> p x) xs)"
  using assms length_takeWhile_le [of "\<lambda>x. \<not> p x" xs]
  by (simp add: findFirstIdxMonotonousOrArrLen_def findFirstLoop_eq_findLastLoop findLastLoop_eq)

lemma findLastMonotonous_eq:
  assumes "monotonous p xs"
  shows "findLastMonotonous xs p =
           (if takeWhile p xs = [] then None else Some (last (takeWhile p xs)))"
proof -
  let ?n = "length (takeWhile p xs)"
  have "xs ! (?n - 1) = last (takeWhile p xs)" if "takeWhile p xs \<noteq> []"
    using that by (simp add: last_conv_nth takeWhile_nth)
  moreover have "nat (int ?n - 1) = ?n - 1" by simp
  ultimately show ?thesis
    using assms by (auto simp: findLastMonotonous_def findLastIdxMonotonous_eq Let_def)
qed

lemma findLastIdx_monotonous:
  assumes "monotonous p xs"
  shows "findLastIdx xs p = int (length (takeWhile p xs)) - 1"
proof (rule findLastIdx_unique)
  show "length (takeWhile p xs) \<le> length xs" by (rule length_takeWhile_le)
  show "p (xs ! (length (takeWhile p xs) - 1))" if "0 < length (takeWhile p xs)"
    using that assms monotonous_takeWhile [of p xs "length (takeWhile p xs) - 1"]
      length_takeWhile_le [of p xs] by linarith
  show "\<not> p (xs ! k)" if "length (takeWhile p xs) \<le> k" "k < length xs" for k
    using that assms monotonous_takeWhile [of p xs k] by simp
qed

section \<open>Repeated searches\<close>

text \<open>
  The state of a \<open>MonotonousArray\<close> is coherent for the next predicate when the stored
  start index does not lie beyond that predicate's true prefix.
\<close>

definition ma_ready :: "'a monotonous_array \<Rightarrow> ('a \<Rightarrow> bool) \<Rightarrow> bool" where
  "ma_ready m p \<longleftrightarrow> monotonous p (ma_array m)
     \<and> ma_findLastMonotonousLastIdx m \<le> length (takeWhile p (ma_array m))"

fun ma_queries :: "'a monotonous_array \<Rightarrow> ('a \<Rightarrow> bool) list \<Rightarrow> 'a option list result" where
  "ma_queries m [] = Inr []"
| "ma_queries m (p # ps) =
     (case MonotonousArray_findLastMonotonous False m p of
        Inl e \<Rightarrow> Inl e
      | Inr (m', r) \<Rightarrow> (case ma_queries m' ps of Inl e \<Rightarrow> Inl e | Inr rs \<Rightarrow> Inr (r # rs)))"

lemma takeWhile_weaker:
  "(\<And>x. x \<in> set xs \<Longrightarrow> p x \<Longrightarrow> q x) \<Longrightarrow> length (takeWhile p xs) \<le> length (takeWhile q xs)"
  by (induction xs) auto

lemma MonotonousArray_step:
  assumes "ma_ready m p"
  shows "\<exists>m'. MonotonousArray_findLastMonotonous False m p
                = Inr (m', findLastMonotonous (ma_array m) p)
            \<and> ma_array m' = ma_array m
            \<and> ma_findLastMonotonousLastIdx m' = length (takeWhile p (ma_array m))"
proof -
  let ?xs = "ma_array m" and ?s = "ma_findLastMonotonousLastIdx m"
  let ?n = "length (takeWhile p ?xs)"
  have mono: "monotonous p ?xs" and s: "?s \<le> ?n"
    using assms by (auto simp: ma_ready_def)
  have "findLastIdxMonotonous ?xs p ?s (length ?xs) = int ?n - 1"
    using mono s length_takeWhile_le [of p ?xs]
    by (simp add: findLastIdxMonotonous_def findLastLoop_eq)
  moreover have "findLastIdxMonotonous ?xs p 0 (length ?xs) = int ?n - 1"
    using mono by (rule findLastIdxMonotonous_eq)
  ultimately show ?thesis
    by (simp add: MonotonousArray_findLastMonotonous_def findLastMonotonous_def Let_def)
qed

lemma ma_queries_correct:
  assumes "\<forall>p \<in> set ps. monotonous p (ma_array m)"
    and "sorted_wrt (\<lambda>p q. \<forall>x \<in> set (ma_array m). p x \<longrightarrow> q x) ps"
    and "\<forall>p \<in> set ps. ma_findLastMonotonousLastIdx m \<le> length (takeWhile p (ma_array m))"
  shows "ma_queries m ps = Inr (map (findLastMonotonous (ma_array m)) ps)"
  using assms
proof (induction ps arbitrary: m)
  case Nil
  then show ?case by simp
next
  case (Cons p ps)
  then have "ma_ready m p" by (simp add: ma_ready_def)
  then obtain m' where m': "MonotonousArray_findLastMonotonous False m p
        = Inr (m', findLastMonotonous (ma_array m) p)"
      and arr: "ma_array m' = ma_array m"
      and idx: "ma_findLastMonotonousLastIdx m' = length (takeWhile p (ma_array m))"
    using MonotonousArray_step by blast
  have "ma_queries m' ps = Inr (map (findLastMonotonous (ma_array m')) ps)"
    using Cons.prems by (intro Cons.IH) (auto simp: arr idx intro!: takeWhile_weaker)
  with m' arr show ?case by simp
qed

section \<open>Extrema\<close>

context comparison
begin

lemma findFirstMaxLoop_spec:
  "findFirstMaxLoop cmp m xs \<in> insert m (set xs)
   \<and> (\<forall>y \<in> insert m (set xs). cmp y (findFirstMaxLoop cmp m xs) \<le> 0)"
proof (induction xs arbitrary: m)
  case Nil
  then show ?case by (simp add: cmp_refl)
next
  case (Cons x xs)
  let ?m = "if cmp x m > 0 then x else m"
  have le: "cmp m ?m \<le> 0" "cmp x ?m \<le> 0"
    using cmp_total [of m x] by (auto simp: cmp_refl)
  from Cons.IH [of ?m] have "cmp ?m (findFirstMaxLoop cmp ?m xs) \<le> 0" by blast
  with le have "cmp m (findFirstMaxLoop cmp ?m xs) \<le> 0" "cmp x (findFirstMaxLoop cmp ?m xs) \<le> 0"
    by (blast intro: cmp_trans)+
  with Cons.IH [of ?m] show ?case by (auto split: if_splits)
qed

lemma findFirstMax_spec:
  assumes "findFirstMax xs cmp = Some m"
  shows "m \<in> set xs \<and> (\<forall>y \<in> set xs. cmp y m \<le> 0)"
  using assms findFirstMaxLoop_spec
  by (auto simp: findFirstMax_def split: list.splits)

end

lemma findMaxIdxLoop_spec:
  "maxIdx < i \<Longrightarrow> i \<le> length array \<Longrightarrow>
   findMaxIdxLoop cmp array maxIdx i (drop i array) < length array
   \<and> array ! findMaxIdxLoop cmp array maxIdx i (drop i array)
       = findFirstMaxLoop cmp (array ! maxIdx) (drop i array)"
proof (induction "length array - i" arbitrary: maxIdx i)
  case 0
  then show ?case by simp
next
  case (Suc n)
  then have "drop i array = array ! i # drop (Suc i) array"
    by (intro Cons_nth_drop_Suc [symmetric]) simp
  with Suc show ?case by auto
qed

section \<open>Properties\<close>

text \<open>
  The binary search \<open>findLastMonotonous\<close> returns, on every array that is monotonous
  for the predicate, exactly the element the linear scan \<open>findLast\<close> returns.
\<close>

lemma findLastMonotonous_correct:
  assumes "monotonous p xs"
  shows "findLastMonotonous xs p = findLast xs p"
  using assms
  by (simp add: findLastMonotonous_def findLast_def findLastIdx_monotonous findLastIdxMonotonous_eq)

text \<open>
  A \<open>MonotonousArray\<close> answers a whole sequence of ever weaker monotonous queries, each
  search starting where the previous one ended, with the answers that independent searches
  of the full array give.
\<close>

lemma MonotonousArray_queries_correct:
  assumes "\<forall>p \<in> set ps. monotonous p xs"
    and "sorted_wrt (\<lambda>p q. \<forall>x \<in> set xs. p x \<longrightarrow> q x) ps"
  shows "ma_queries (MonotonousArray_new xs) ps = Inr (map (findLastMonotonous xs) ps)"
  using assms ma_queries_correct [of ps "MonotonousArray_new xs"]
  by (simp add: MonotonousArray_new_def)

text \<open>
  \<open>findMaxIdx\<close> and \<open>findFirstMax\<close> select the same element of a non-empty array,
  and the index is in range.
\<close>

lemma findMaxIdx_findFirstMax:
  assumes "array \<noteq> []"
  shows "0 \<le> findMaxIdx array cmp \<and> findMaxIdx array cmp < int (length array)
    \<and> findFirstMax array cmp = Some (array ! nat (findMaxIdx array cmp))"
proof -
  from assms obtain x xs where a: "array = x # xs" by (cases array) auto
  show ?thesis
    using findMaxIdxLoop_spec [of 0 1 array cmp] by (simp add: a findMaxIdx_def findFirstMax_def)
qed

end
