(* ===== verification/Positions.thy ===== *)
theory Positions
  imports Prelude
begin

text \<open>
  \<open>src/patched-vscode/src/vs/editor/common/core/position.ts\<close>: a position is a line number
  and a column. The interface \<open>IPosition\<close> and the class \<open>Position\<close> have the same two
  fields and are one record here. Positions are made an instance of \<open>linorder\<close> (line
  first, then column), so that the library's intervals, minima and maxima apply to them;
  the comparison operations of the class are shown to decide that order.
\<close>

section \<open>Definitions\<close>

record position =
  lineNumber :: int
  column :: int

definition Position_new :: "int \<Rightarrow> int \<Rightarrow> position" where
  "Position_new l c = \<lparr>lineNumber = l, column = c\<rparr>"

text \<open>Omitted arguments of \<open>with\<close> and \<open>delta\<close> are \<open>None\<close> and take their defaults.\<close>

definition Position_with :: "position \<Rightarrow> int option \<Rightarrow> int option \<Rightarrow> position" where
  "Position_with this newLineNumber newColumn =
     (let nl = (case newLineNumber of None \<Rightarrow> lineNumber this | Some l \<Rightarrow> l);
          nc = (case newColumn of None \<Rightarrow> column this | Some c \<Rightarrow> c)
      in if nl = lineNumber this \<and> nc = column this then this else Position_new nl nc)"

definition Position_delta :: "position \<Rightarrow> int option \<Rightarrow> int option \<Rightarrow> position" where
  "Position_delta this deltaLineNumber deltaColumn =
     (let dl = (case deltaLineNumber of None \<Rightarrow> 0 | Some l \<Rightarrow> l);
          dc = (case deltaColumn of None \<Rightarrow> 0 | Some c \<Rightarrow> c)
      in Position_with this (Some (lineNumber this + dl)) (Some (column this + dc)))"

text \<open>\<open>null\<close> arguments of the static \<open>equals\<close> are \<open>None\<close>.\<close>

definition Position_equals :: "position option \<Rightarrow> position option \<Rightarrow> bool" where
  "Position_equals a b =
     (case (a, b) of
        (None, None) \<Rightarrow> True
      | (Some p, Some q) \<Rightarrow> lineNumber p = lineNumber q \<and> column p = column q
      | _ \<Rightarrow> False)"

definition Position_isBefore :: "position \<Rightarrow> position \<Rightarrow> bool" where
  "Position_isBefore a b =
     (if lineNumber a < lineNumber b then True
      else if lineNumber b < lineNumber a then False
      else column a < column b)"

definition Position_isBeforeOrEqual :: "position \<Rightarrow> position \<Rightarrow> bool" where
  "Position_isBeforeOrEqual a b =
     (if lineNumber a < lineNumber b then True
      else if lineNumber b < lineNumber a then False
      else column a \<le> column b)"

definition Position_compare :: "position \<Rightarrow> position \<Rightarrow> int" where
  "Position_compare a b =
     (let aLineNumber = to_int32 (lineNumber a); bLineNumber = to_int32 (lineNumber b)
      in if aLineNumber = bLineNumber then to_int32 (column a) - to_int32 (column b)
         else aLineNumber - bLineNumber)"

definition Position_clone :: "position \<Rightarrow> position" where
  "Position_clone this = Position_new (lineNumber this) (column this)"

definition Position_toString :: "position \<Rightarrow> string" where
  "Position_toString this =
     ''('' @ show_int (lineNumber this) @ '','' @ show_int (column this) @ '')''"

definition Position_lift :: "position \<Rightarrow> position" where
  "Position_lift pos = Position_new (lineNumber pos) (column pos)"

section \<open>The order of positions\<close>

instantiation position_ext :: (linorder) linorder
begin

definition less_eq_position_ext :: "'a position_scheme \<Rightarrow> 'a position_scheme \<Rightarrow> bool" where
  "less_eq_position_ext a b \<longleftrightarrow> lineNumber a < lineNumber b
     \<or> lineNumber a = lineNumber b
         \<and> (column a < column b \<or> column a = column b \<and> position.more a \<le> position.more b)"

definition less_position_ext :: "'a position_scheme \<Rightarrow> 'a position_scheme \<Rightarrow> bool" where
  "less_position_ext a b \<longleftrightarrow> lineNumber a < lineNumber b
     \<or> lineNumber a = lineNumber b
         \<and> (column a < column b \<or> column a = column b \<and> position.more a < position.more b)"

instance
  by standard (auto simp: less_eq_position_ext_def less_position_ext_def)

end

lemma position_le_iff:
  "(a :: position) \<le> b \<longleftrightarrow>
     lineNumber a < lineNumber b \<or> lineNumber a = lineNumber b \<and> column a \<le> column b"
  by (auto simp: less_eq_position_ext_def)

lemma position_less_iff:
  "(a :: position) < b \<longleftrightarrow>
     lineNumber a < lineNumber b \<or> lineNumber a = lineNumber b \<and> column a < column b"
  by (auto simp: less_position_ext_def)

lemma position_eq_iff:
  "(a :: position) = b \<longleftrightarrow> lineNumber a = lineNumber b \<and> column a = column b"
  by (cases a; cases b) simp

lemmas position_order = position_le_iff position_less_iff position_eq_iff

lemma Position_new_sel [simp]:
  "lineNumber (Position_new l c) = l" "column (Position_new l c) = c"
  by (simp_all add: Position_new_def)

lemma Position_with_eq:
  "Position_with p l c = Position_new (case l of None \<Rightarrow> lineNumber p | Some x \<Rightarrow> x)
                                      (case c of None \<Rightarrow> column p | Some x \<Rightarrow> x)"
  by (auto simp: Position_with_def Let_def position_eq_iff split: option.splits)

lemma Position_equals_iff: "Position_equals a b \<longleftrightarrow> a = b"
  by (auto simp: Position_equals_def position_eq_iff split: option.splits)

lemma Position_isBefore_iff: "Position_isBefore a b \<longleftrightarrow> a < b"
  by (auto simp: Position_isBefore_def position_less_iff)

lemma Position_isBeforeOrEqual_iff: "Position_isBeforeOrEqual a b \<longleftrightarrow> a \<le> b"
  by (auto simp: Position_isBeforeOrEqual_def position_le_iff)

text \<open>Positions whose coordinates fit 32 bits, where \<open>| 0\<close> is the identity.\<close>

definition position_int32 :: "position \<Rightarrow> bool" where
  "position_int32 p \<longleftrightarrow> lineNumber p \<in> {- (2 ^ 31) ..< 2 ^ 31} \<and> column p \<in> {- (2 ^ 31) ..< 2 ^ 31}"

text \<open>The comparison function is a consistent comparator on all positions.\<close>

interpretation position_cmp: comparison Position_compare
  by unfold_locales (auto simp: Position_compare_def Let_def split: if_splits)

lemma Position_compare_sign:
  assumes "position_int32 a" and "position_int32 b"
  shows "Position_compare a b < 0 \<longleftrightarrow> a < b" and "Position_compare a b = 0 \<longleftrightarrow> a = b"
  using assms
  by (auto simp: Position_compare_def Let_def position_int32_def position_order to_int32_id)

section \<open>Properties\<close>

text \<open>
  The four comparison operations of \<open>Position\<close> agree: on positions whose coordinates
  fit 32 bits, \<open>isBefore\<close>, \<open>isBeforeOrEqual\<close> and \<open>equals\<close> are decided by the sign of
  \<open>compare\<close>.
\<close>

lemma Position_comparisons_agree:
  assumes "position_int32 a" and "position_int32 b"
  shows "(Position_isBefore a b \<longleftrightarrow> Position_compare a b < 0)
    \<and> (Position_isBeforeOrEqual a b \<longleftrightarrow> Position_compare a b \<le> 0)
    \<and> (Position_equals (Some a) (Some b) \<longleftrightarrow> Position_compare a b = 0)"
proof -
  note sign = Position_compare_sign [OF assms]
  have "Position_compare a b \<le> 0 \<longleftrightarrow> a < b \<or> a = b"
    using sign by linarith
  then show ?thesis
    by (simp add: sign Position_isBefore_iff Position_equals_iff Position_isBeforeOrEqual_iff le_less)
qed

end
