(* ===== verification/Ranges.thy ===== *)
theory Ranges
  imports Positions
begin

text \<open>
  \<open>src/patched-vscode/src/vs/editor/common/core/range.ts\<close> and \<open>selection.ts\<close>. A range is
  a pair of positions stored as four numbers; a selection extends a range with an
  orientation, as the class \<open>Selection\<close> extends \<open>Range\<close>, so the static operations of
  \<open>Range\<close> take any record that extends \<open>range\<close>. The abstraction of a range is the set
  of positions between its two ends.
\<close>

section \<open>Range\<close>

record range =
  startLineNumber :: int
  startColumn :: int
  endLineNumber :: int
  endColumn :: int

text \<open>The constructor swaps its two ends when they are out of order.\<close>

definition Range_new :: "int \<Rightarrow> int \<Rightarrow> int \<Rightarrow> int \<Rightarrow> range" where
  "Range_new sl sc el ec =
     (if sl > el \<or> sl = el \<and> sc > ec
      then \<lparr>startLineNumber = el, startColumn = ec, endLineNumber = sl, endColumn = sc\<rparr>
      else \<lparr>startLineNumber = sl, startColumn = sc, endLineNumber = el, endColumn = ec\<rparr>)"

definition Range_isEmpty :: "'a range_scheme \<Rightarrow> bool" where
  "Range_isEmpty r \<longleftrightarrow> startLineNumber r = endLineNumber r \<and> startColumn r = endColumn r"

definition Range_containsPosition :: "'a range_scheme \<Rightarrow> position \<Rightarrow> bool" where
  "Range_containsPosition r p =
     (if lineNumber p < startLineNumber r \<or> lineNumber p > endLineNumber r then False
      else if lineNumber p = startLineNumber r \<and> column p < startColumn r then False
      else if lineNumber p = endLineNumber r \<and> column p > endColumn r then False
      else True)"

definition Range_strictContainsPosition :: "'a range_scheme \<Rightarrow> position \<Rightarrow> bool" where
  "Range_strictContainsPosition r p =
     (if lineNumber p < startLineNumber r \<or> lineNumber p > endLineNumber r then False
      else if lineNumber p = startLineNumber r \<and> column p \<le> startColumn r then False
      else if lineNumber p = endLineNumber r \<and> column p \<ge> endColumn r then False
      else True)"

definition Range_containsRange :: "'a range_scheme \<Rightarrow> 'b range_scheme \<Rightarrow> bool" where
  "Range_containsRange r other =
     (if startLineNumber other < startLineNumber r \<or> endLineNumber other < startLineNumber r then False
      else if startLineNumber other > endLineNumber r \<or> endLineNumber other > endLineNumber r then False
      else if startLineNumber other = startLineNumber r \<and> startColumn other < startColumn r then False
      else if endLineNumber other = endLineNumber r \<and> endColumn other > endColumn r then False
      else True)"

definition Range_strictContainsRange :: "'a range_scheme \<Rightarrow> 'b range_scheme \<Rightarrow> bool" where
  "Range_strictContainsRange r other =
     (if startLineNumber other < startLineNumber r \<or> endLineNumber other < startLineNumber r then False
      else if startLineNumber other > endLineNumber r \<or> endLineNumber other > endLineNumber r then False
      else if startLineNumber other = startLineNumber r \<and> startColumn other \<le> startColumn r then False
      else if endLineNumber other = endLineNumber r \<and> endColumn other \<ge> endColumn r then False
      else True)"

definition Range_plusRange :: "'a range_scheme \<Rightarrow> 'b range_scheme \<Rightarrow> range" where
  "Range_plusRange a b =
     (let (sl, sc) =
        (if startLineNumber b < startLineNumber a then (startLineNumber b, startColumn b)
         else if startLineNumber b = startLineNumber a
              then (startLineNumber b, min (startColumn b) (startColumn a))
         else (startLineNumber a, startColumn a));
      (el, ec) =
        (if endLineNumber b > endLineNumber a then (endLineNumber b, endColumn b)
         else if endLineNumber b = endLineNumber a
              then (endLineNumber b, max (endColumn b) (endColumn a))
         else (endLineNumber a, endColumn a))
      in Range_new sl sc el ec)"

definition Range_intersectRanges :: "'a range_scheme \<Rightarrow> 'b range_scheme \<Rightarrow> range option" where
  "Range_intersectRanges a b =
     (let (sl, sc) =
        (if startLineNumber a < startLineNumber b then (startLineNumber b, startColumn b)
         else if startLineNumber a = startLineNumber b
              then (startLineNumber a, max (startColumn a) (startColumn b))
         else (startLineNumber a, startColumn a));
      (el, ec) =
        (if endLineNumber a > endLineNumber b then (endLineNumber b, endColumn b)
         else if endLineNumber a = endLineNumber b
              then (endLineNumber a, min (endColumn a) (endColumn b))
         else (endLineNumber a, endColumn a))
      in if sl > el then None
         else if sl = el \<and> sc > ec then None
         else Some (Range_new sl sc el ec))"

definition Range_equalsRange :: "'a range_scheme option \<Rightarrow> 'b range_scheme option \<Rightarrow> bool" where
  "Range_equalsRange a b =
     (case (a, b) of
        (None, None) \<Rightarrow> True
      | (Some a, Some b) \<Rightarrow> startLineNumber a = startLineNumber b \<and> startColumn a = startColumn b
          \<and> endLineNumber a = endLineNumber b \<and> endColumn a = endColumn b
      | _ \<Rightarrow> False)"

definition Range_getEndPosition :: "'a range_scheme \<Rightarrow> position" where
  "Range_getEndPosition r = Position_new (endLineNumber r) (endColumn r)"

definition Range_getStartPosition :: "'a range_scheme \<Rightarrow> position" where
  "Range_getStartPosition r = Position_new (startLineNumber r) (startColumn r)"

definition Range_toString :: "'a range_scheme \<Rightarrow> string" where
  "Range_toString r =
     ''['' @ show_int (startLineNumber r) @ '','' @ show_int (startColumn r) @ '' -> ''
       @ show_int (endLineNumber r) @ '','' @ show_int (endColumn r) @ '']''"

definition Range_setEndPosition :: "'a range_scheme \<Rightarrow> int \<Rightarrow> int \<Rightarrow> range" where
  "Range_setEndPosition this el ec = Range_new (startLineNumber this) (startColumn this) el ec"

definition Range_setStartPosition :: "'a range_scheme \<Rightarrow> int \<Rightarrow> int \<Rightarrow> range" where
  "Range_setStartPosition this sl sc = Range_new sl sc (endLineNumber this) (endColumn this)"

definition Range_collapseToStart :: "'a range_scheme \<Rightarrow> range" where
  "Range_collapseToStart r =
     Range_new (startLineNumber r) (startColumn r) (startLineNumber r) (startColumn r)"

definition Range_collapseToEnd :: "'a range_scheme \<Rightarrow> range" where
  "Range_collapseToEnd r =
     Range_new (endLineNumber r) (endColumn r) (endLineNumber r) (endColumn r)"

definition Range_delta :: "'a range_scheme \<Rightarrow> int \<Rightarrow> range" where
  "Range_delta this lineCount =
     Range_new (startLineNumber this + lineCount) (startColumn this)
               (endLineNumber this + lineCount) (endColumn this)"

text \<open>The default of the second argument, \<open>end = start\<close>, is \<open>None\<close>.\<close>

definition Range_fromPositions :: "position \<Rightarrow> position option \<Rightarrow> range" where
  "Range_fromPositions st en_opt =
     (let en = (case en_opt of None \<Rightarrow> st | Some e \<Rightarrow> e)
      in Range_new (lineNumber st) (column st) (lineNumber en) (column en))"

definition Range_lift :: "'a range_scheme option \<Rightarrow> range option" where
  "Range_lift ro = (case ro of None \<Rightarrow> None
     | Some r \<Rightarrow> Some (Range_new (startLineNumber r) (startColumn r) (endLineNumber r) (endColumn r)))"

definition Range_areIntersectingOrTouching :: "'a range_scheme \<Rightarrow> 'b range_scheme \<Rightarrow> bool" where
  "Range_areIntersectingOrTouching a b =
     (if endLineNumber a < startLineNumber b
         \<or> endLineNumber a = startLineNumber b \<and> endColumn a < startColumn b then False
      else if endLineNumber b < startLineNumber a
         \<or> endLineNumber b = startLineNumber a \<and> endColumn b < startColumn a then False
      else True)"

definition Range_areIntersecting :: "'a range_scheme \<Rightarrow> 'b range_scheme \<Rightarrow> bool" where
  "Range_areIntersecting a b =
     (if endLineNumber a < startLineNumber b
         \<or> endLineNumber a = startLineNumber b \<and> endColumn a \<le> startColumn b then False
      else if endLineNumber b < startLineNumber a
         \<or> endLineNumber b = startLineNumber a \<and> endColumn b \<le> startColumn a then False
      else True)"

definition Range_compareRangesUsingStarts :: "range option \<Rightarrow> range option \<Rightarrow> int" where
  "Range_compareRangesUsingStarts ao bo =
     (case (ao, bo) of
        (Some a, Some b) \<Rightarrow>
          (let aStartLineNumber = to_int32 (startLineNumber a);
               bStartLineNumber = to_int32 (startLineNumber b)
           in if aStartLineNumber = bStartLineNumber then
                (let aStartColumn = to_int32 (startColumn a); bStartColumn = to_int32 (startColumn b)
                 in if aStartColumn = bStartColumn then
                      (let aEndLineNumber = to_int32 (endLineNumber a);
                           bEndLineNumber = to_int32 (endLineNumber b)
                       in if aEndLineNumber = bEndLineNumber
                          then to_int32 (endColumn a) - to_int32 (endColumn b)
                          else aEndLineNumber - bEndLineNumber)
                    else aStartColumn - bStartColumn)
              else aStartLineNumber - bStartLineNumber)
      | _ \<Rightarrow> (if ao = None then 0 else 1) - (if bo = None then 0 else 1))"

definition Range_compareRangesUsingEnds :: "range \<Rightarrow> range \<Rightarrow> int" where
  "Range_compareRangesUsingEnds a b =
     (if endLineNumber a = endLineNumber b then
        (if endColumn a = endColumn b then
           (if startLineNumber a = startLineNumber b then startColumn a - startColumn b
            else startLineNumber a - startLineNumber b)
         else endColumn a - endColumn b)
      else endLineNumber a - endLineNumber b)"

definition Range_spansMultipleLines :: "'a range_scheme \<Rightarrow> bool" where
  "Range_spansMultipleLines r \<longleftrightarrow> endLineNumber r > startLineNumber r"

section \<open>Selection\<close>

record selection = range +
  selectionStartLineNumber :: int
  selectionStartColumn :: int
  positionLineNumber :: int
  positionColumn :: int

datatype SelectionDirection = LTR | RTL

definition Selection_new :: "int \<Rightarrow> int \<Rightarrow> int \<Rightarrow> int \<Rightarrow> selection" where
  "Selection_new ssl ssc pl pc =
     range.extend (Range_new ssl ssc pl pc)
       (selection.fields ssl ssc pl pc)"

definition Selection_toString :: "selection \<Rightarrow> string" where
  "Selection_toString this =
     ''['' @ show_int (selectionStartLineNumber this) @ '','' @ show_int (selectionStartColumn this)
       @ '' -> '' @ show_int (positionLineNumber this) @ '','' @ show_int (positionColumn this) @ '']''"

definition Selection_selectionsEqual :: "selection \<Rightarrow> selection \<Rightarrow> bool" where
  "Selection_selectionsEqual a b \<longleftrightarrow>
     selectionStartLineNumber a = selectionStartLineNumber b
     \<and> selectionStartColumn a = selectionStartColumn b
     \<and> positionLineNumber a = positionLineNumber b
     \<and> positionColumn a = positionColumn b"

definition Selection_getDirection :: "selection \<Rightarrow> SelectionDirection" where
  "Selection_getDirection this =
     (if selectionStartLineNumber this = startLineNumber this
         \<and> selectionStartColumn this = startColumn this then LTR else RTL)"

definition Selection_setEndPosition :: "selection \<Rightarrow> int \<Rightarrow> int \<Rightarrow> selection" where
  "Selection_setEndPosition this el ec =
     (if Selection_getDirection this = LTR
      then Selection_new (startLineNumber this) (startColumn this) el ec
      else Selection_new el ec (startLineNumber this) (startColumn this))"

definition Selection_getPosition :: "selection \<Rightarrow> position" where
  "Selection_getPosition this = Position_new (positionLineNumber this) (positionColumn this)"

definition Selection_getSelectionStart :: "selection \<Rightarrow> position" where
  "Selection_getSelectionStart this =
     Position_new (selectionStartLineNumber this) (selectionStartColumn this)"

definition Selection_setStartPosition :: "selection \<Rightarrow> int \<Rightarrow> int \<Rightarrow> selection" where
  "Selection_setStartPosition this sl sc =
     (if Selection_getDirection this = LTR
      then Selection_new sl sc (endLineNumber this) (endColumn this)
      else Selection_new (endLineNumber this) (endColumn this) sl sc)"

definition Selection_fromPositions :: "position \<Rightarrow> position option \<Rightarrow> selection" where
  "Selection_fromPositions st en_opt =
     (let en = (case en_opt of None \<Rightarrow> st | Some e \<Rightarrow> e)
      in Selection_new (lineNumber st) (column st) (lineNumber en) (column en))"

definition Selection_fromRange :: "'a range_scheme \<Rightarrow> SelectionDirection \<Rightarrow> selection" where
  "Selection_fromRange r direction =
     (if direction = LTR
      then Selection_new (startLineNumber r) (startColumn r) (endLineNumber r) (endColumn r)
      else Selection_new (endLineNumber r) (endColumn r) (startLineNumber r) (startColumn r))"

definition Selection_liftSelection :: "selection \<Rightarrow> selection" where
  "Selection_liftSelection sel =
     Selection_new (selectionStartLineNumber sel) (selectionStartColumn sel)
                   (positionLineNumber sel) (positionColumn sel)"

text \<open>Absent arrays are \<open>None\<close>.\<close>

definition Selection_selectionsArrEqual :: "selection list option \<Rightarrow> selection list option \<Rightarrow> bool" where
  "Selection_selectionsArrEqual ao bo =
     (case (ao, bo) of
        (None, None) \<Rightarrow> True
      | (Some a, Some b) \<Rightarrow>
          (if length a \<noteq> length b then False
           else list_all (\<lambda>(x, y). Selection_selectionsEqual x y) (zip a b))
      | _ \<Rightarrow> False)"

definition Selection_createWithDirection ::
  "int \<Rightarrow> int \<Rightarrow> int \<Rightarrow> int \<Rightarrow> SelectionDirection \<Rightarrow> selection" where
  "Selection_createWithDirection sl sc el ec direction =
     (if direction = LTR then Selection_new sl sc el ec else Selection_new el ec sl sc)"

section \<open>Ranges as intervals of positions\<close>

abbreviation rstart :: "'a range_scheme \<Rightarrow> position" where
  "rstart r \<equiv> Range_getStartPosition r"

abbreviation rend :: "'a range_scheme \<Rightarrow> position" where
  "rend r \<equiv> Range_getEndPosition r"

text \<open>The class invariant: the start does not come after the end.\<close>

definition range_ok :: "'a range_scheme \<Rightarrow> bool" where
  "range_ok r \<longleftrightarrow> rstart r \<le> rend r"

definition positions_of :: "'a range_scheme \<Rightarrow> position set" where
  "positions_of r = {rstart r .. rend r}"

lemmas range_ends = Range_getStartPosition_def Range_getEndPosition_def

lemma range_eqI:
  "rstart r = rstart s \<Longrightarrow> rend r = rend s \<Longrightarrow> (r :: range) = s"
  by (cases r; cases s) (simp add: range_ends position_eq_iff)

lemma Range_new_start [simp]:
  "rstart (Range_new sl sc el ec) = min (Position_new sl sc) (Position_new el ec)"
  by (auto simp: Range_new_def range_ends min_def position_order)

lemma Range_new_end [simp]:
  "rend (Range_new sl sc el ec) = max (Position_new sl sc) (Position_new el ec)"
  by (auto simp: Range_new_def range_ends max_def position_order)

lemma Range_new_ok [simp]: "range_ok (Range_new sl sc el ec)"
  by (simp add: range_ok_def le_max_iff_disj min_le_iff_disj)

lemma Range_new_of_ends: "range_ok r \<Longrightarrow>
   Range_new (startLineNumber r) (startColumn r) (endLineNumber r) (endColumn r) = range.truncate r"
  by (auto simp: Range_new_def range_ok_def range_ends position_le_iff range.truncate_def)

lemma Range_isEmpty_iff: "Range_isEmpty r \<longleftrightarrow> rstart r = rend r"
  by (simp add: Range_isEmpty_def range_ends position_eq_iff)

lemma Range_containsPosition_iff: "Range_containsPosition r p \<longleftrightarrow> p \<in> positions_of r"
  by (auto simp: Range_containsPosition_def positions_of_def range_ends position_le_iff)

lemma Range_strictContainsPosition_iff:
  "Range_strictContainsPosition r p \<longleftrightarrow> p \<in> {rstart r <..< rend r}"
  by (auto simp: Range_strictContainsPosition_def range_ends position_less_iff)

lemma Range_containsRange_iff:
  "range_ok s \<Longrightarrow> Range_containsRange r s \<longleftrightarrow> rstart r \<le> rstart s \<and> rend s \<le> rend r"
  by (auto simp: Range_containsRange_def range_ok_def range_ends position_le_iff)

lemma Range_strictContainsRange_iff:
  "range_ok s \<Longrightarrow> Range_strictContainsRange r s \<longleftrightarrow> rstart r < rstart s \<and> rend s < rend r"
  by (auto simp: Range_strictContainsRange_def range_ok_def range_ends position_order)

lemma Position_new_id [simp]: "Position_new (lineNumber p) (column p) = p"
  by (simp add: position_eq_iff)

text \<open>The two-level case distinctions of the code compute minima and maxima of positions.\<close>

lemma position_min_eq:
  "min (Position_new al ac) (Position_new bl bc) =
     (if bl < al then Position_new bl bc else if bl = al then Position_new bl (min bc ac)
      else Position_new al ac)"
  by (simp add: min_def position_order)

lemma position_max_eq:
  "max (Position_new al ac) (Position_new bl bc) =
     (if bl > al then Position_new bl bc else if bl = al then Position_new bl (max bc ac)
      else Position_new al ac)"
  by (simp add: max_def position_order)

lemma Range_plusRange_eq:
  "Range_plusRange a b =
     (let s = min (rstart a) (rstart b); e = max (rend a) (rend b)
      in Range_new (lineNumber s) (column s) (lineNumber e) (column e))"
  by (simp add: Range_plusRange_def range_ends position_min_eq position_max_eq Let_def)

lemma Range_plusRange_ends:
  assumes "range_ok a" and "range_ok b"
  shows "rstart (Range_plusRange a b) = min (rstart a) (rstart b)
       \<and> rend (Range_plusRange a b) = max (rend a) (rend b)"
proof -
  have "min (rstart a) (rstart b) \<le> max (rend a) (rend b)"
    using assms by (auto simp: range_ok_def min_le_iff_disj le_max_iff_disj)
  then show ?thesis
    by (simp add: Range_plusRange_eq Let_def min_absorb1 max_absorb2)
qed

lemma Range_intersectRanges_eq:
  "Range_intersectRanges a b =
     (let s = max (rstart a) (rstart b); e = min (rend a) (rend b)
      in if e < s then None else Some (Range_new (lineNumber s) (column s) (lineNumber e) (column e)))"
  by (auto simp: Range_intersectRanges_def range_ends position_min_eq position_max_eq Let_def
      position_less_iff max.commute min.commute)

lemma Range_intersectRanges_None:
  "Range_intersectRanges a b = None \<longleftrightarrow> min (rend a) (rend b) < max (rstart a) (rstart b)"
  by (simp add: Range_intersectRanges_eq Let_def)

lemma Range_intersectRanges_Some:
  assumes "Range_intersectRanges a b = Some r"
  shows "range_ok r \<and> rstart r = max (rstart a) (rstart b) \<and> rend r = min (rend a) (rend b)"
  using assms
  by (auto simp: Range_intersectRanges_eq Let_def min_absorb1 max_absorb2 not_less simp del: min.bounded_iff max.bounded_iff split: if_splits)

lemma Range_areIntersectingOrTouching_iff:
  "Range_areIntersectingOrTouching a b \<longleftrightarrow> rstart b \<le> rend a \<and> rstart a \<le> rend b"
  by (auto simp: Range_areIntersectingOrTouching_def range_ends position_le_iff)

lemma Range_areIntersecting_iff:
  "Range_areIntersecting a b \<longleftrightarrow> rstart b < rend a \<and> rstart a < rend b"
  by (auto simp: Range_areIntersecting_def range_ends position_less_iff)

text \<open>Every range-valued operation keeps the invariant.\<close>

lemma range_ops_ok [simp]:
  "range_ok (Range_plusRange a b)" "range_ok (Range_setEndPosition a el ec)"
  "range_ok (Range_setStartPosition a sl sc)" "range_ok (Range_collapseToStart a)"
  "range_ok (Range_collapseToEnd a)" "range_ok (Range_delta a n)" "range_ok (Range_fromPositions p q)"
  by (simp_all add: Range_plusRange_def Range_setEndPosition_def Range_setStartPosition_def
      Range_collapseToStart_def Range_collapseToEnd_def Range_delta_def Range_fromPositions_def
      Let_def split: prod.splits)

section \<open>The comparators of ranges\<close>

interpretation range_starts_cmp: comparison Range_compareRangesUsingStarts
proof
  show "Range_compareRangesUsingStarts x y \<le> 0 \<longleftrightarrow> 0 \<le> Range_compareRangesUsingStarts y x" for x y
    by (auto simp: Range_compareRangesUsingStarts_def Let_def split: option.splits)
  show "Range_compareRangesUsingStarts x z \<le> 0"
    if "Range_compareRangesUsingStarts x y \<le> 0" "Range_compareRangesUsingStarts y z \<le> 0" for x y z
    using that
    by (auto simp: Range_compareRangesUsingStarts_def Let_def split: option.splits if_splits)
qed

interpretation range_ends_cmp: comparison Range_compareRangesUsingEnds
  by unfold_locales (auto simp: Range_compareRangesUsingEnds_def split: if_splits)

section \<open>Selections\<close>

lemma Selection_new_range [simp]:
  "range.truncate (Selection_new a b c d) = Range_new a b c d"
  by (simp add: Selection_new_def range.truncate_def range.extend_def Range_new_def)

lemma Selection_new_sel [simp]:
  "selectionStartLineNumber (Selection_new a b c d) = a"
  "selectionStartColumn (Selection_new a b c d) = b"
  "positionLineNumber (Selection_new a b c d) = c"
  "positionColumn (Selection_new a b c d) = d"
  "startLineNumber (Selection_new a b c d) = startLineNumber (Range_new a b c d)"
  "startColumn (Selection_new a b c d) = startColumn (Range_new a b c d)"
  "endLineNumber (Selection_new a b c d) = endLineNumber (Range_new a b c d)"
  "endColumn (Selection_new a b c d) = endColumn (Range_new a b c d)"
  by (simp_all add: Selection_new_def range.extend_def selection.fields_def)

text \<open>A selection object: the range part is the normalised pair of its two oriented ends.\<close>

definition selection_ok :: "selection \<Rightarrow> bool" where
  "selection_ok s \<longleftrightarrow> s = Selection_new (selectionStartLineNumber s) (selectionStartColumn s)
                                    (positionLineNumber s) (positionColumn s)"

lemma Selection_new_ok [simp]: "selection_ok (Selection_new a b c d)"
  by (simp add: selection_ok_def)

lemma Selection_fromRange_range:
  "range_ok r \<Longrightarrow> range.truncate (Selection_fromRange r d) = range.truncate r"
  by (cases d) (auto simp: Selection_fromRange_def Range_new_def range_ok_def range_ends
      position_le_iff range.truncate_def)

lemma Selection_fromRange_direction:
  "range_ok r \<Longrightarrow> Selection_getDirection (Selection_fromRange r d) = (if Range_isEmpty r then LTR else d)"
  by (cases d) (auto simp: Selection_fromRange_def Selection_getDirection_def Range_new_def
      range_ok_def range_ends position_le_iff Range_isEmpty_def)

lemma Selection_of_range_direction:
  assumes "selection_ok s"
  shows "Selection_fromRange s (Selection_getDirection s) = s"
proof -
  obtain a b c d where s: "s = Selection_new a b c d"
    using assms by (auto simp: selection_ok_def)
  show ?thesis
    by (auto simp: s Selection_fromRange_def Selection_getDirection_def Range_new_def)
qed

section \<open>Properties\<close>

text \<open>
  \<open>Range.intersectRanges\<close> computes the intersection: the result, when there is one,
  holds exactly the positions in both ranges, and \<open>null\<close> is returned exactly when the two
  ranges share no position, which is what \<open>areIntersectingOrTouching\<close> decides.
\<close>

lemma Range_intersectRanges_correct:
  assumes "range_ok a" and "range_ok b"
  shows "(case Range_intersectRanges a b of
            None \<Rightarrow> positions_of a \<inter> positions_of b = {} \<and> \<not> Range_areIntersectingOrTouching a b
          | Some r \<Rightarrow> range_ok r \<and> positions_of r = positions_of a \<inter> positions_of b
                      \<and> Range_areIntersectingOrTouching a b)"
proof (cases "Range_intersectRanges a b")
  case None
  then have "min (rend a) (rend b) < max (rstart a) (rstart b)"
    by (simp add: Range_intersectRanges_None)
  with assms None show ?thesis
    by (auto simp: positions_of_def range_ok_def Range_areIntersectingOrTouching_iff
        min_def max_def split: if_splits)
next
  case (Some r)
  from Range_intersectRanges_Some [OF this] Some assms show ?thesis
    by (auto simp: positions_of_def range_ok_def Range_areIntersectingOrTouching_iff)
qed

text \<open>
  \<open>Range.containsRange\<close> decides inclusion of the position sets, and \<open>Range.plusRange\<close>
  is the least range that contains both arguments.
\<close>

lemma Range_plusRange_least:
  assumes "range_ok a" and "range_ok b" and "range_ok c"
  shows "(Range_containsRange a b \<longleftrightarrow> positions_of b \<subseteq> positions_of a)
    \<and> (Range_containsRange c (Range_plusRange a b)
         \<longleftrightarrow> Range_containsRange c a \<and> Range_containsRange c b)"
proof
  show "Range_containsRange a b \<longleftrightarrow> positions_of b \<subseteq> positions_of a"
    using assms by (auto simp: Range_containsRange_iff positions_of_def range_ok_def)
  show "Range_containsRange c (Range_plusRange a b)
         \<longleftrightarrow> Range_containsRange c a \<and> Range_containsRange c b"
    using assms Range_plusRange_ends [OF assms(1,2)]
    by (auto simp: Range_containsRange_iff)
qed

text \<open>
  \<open>Range.areIntersecting\<close> is false for every pair of ranges that only touch (the end of
  one is the start of the other), although its comment says that it returns true for them.
\<close>

lemma Range_areIntersecting_touching:
  assumes "rend a = rstart b"
  shows "\<not> Range_areIntersecting a b \<and> \<not> Range_areIntersecting b a"
  using assms by (simp add: Range_areIntersecting_iff)

text \<open>
  A selection is determined by its range and its direction: rebuilding a selection from
  them gives it back, and a selection built from a range and a direction has that range and,
  unless the range is empty, that direction.
\<close>

lemma Selection_range_direction_roundtrip:
  assumes "selection_ok s" and "range_ok r"
  shows "Selection_fromRange s (Selection_getDirection s) = s
    \<and> range.truncate (Selection_fromRange r d) = range.truncate r
    \<and> Selection_getDirection (Selection_fromRange r d) = (if Range_isEmpty r then LTR else d)"
  using assms
  by (simp add: Selection_of_range_direction Selection_fromRange_range Selection_fromRange_direction)

end
