(* ===== verification/Intervals.thy ===== *)
theory Intervals
  imports Prelude
begin

text \<open>
  Half-open integer intervals and sorted lists of them: the contract that \<open>OffsetRange\<close>
  (offsets) and \<open>LineRange\<close> (line numbers) share, and the facts about merging an interval
  into a sorted list that both \<open>OffsetRangeSet\<close> and \<open>LineRangeSet\<close> rest on.
\<close>

section \<open>Sets of intervals\<close>

definition ivl_union :: "('r \<Rightarrow> int) \<Rightarrow> ('r \<Rightarrow> int) \<Rightarrow> 'r list \<Rightarrow> int set" where
  "ivl_union lo hi rs = (\<Union>r \<in> set rs. {lo r ..< hi r})"

text \<open>Sorted, and no two intervals touch or intersect.\<close>

definition normalized :: "('r \<Rightarrow> int) \<Rightarrow> ('r \<Rightarrow> int) \<Rightarrow> 'r list \<Rightarrow> bool" where
  "normalized lo hi rs \<longleftrightarrow>
     sorted_wrt (\<lambda>a b. hi a < lo b) rs \<and> (\<forall>r \<in> set rs. lo r \<le> hi r)"

lemma ivl_union_simps [simp]:
  "ivl_union lo hi [] = {}"
  "ivl_union lo hi (r # rs) = {lo r ..< hi r} \<union> ivl_union lo hi rs"
  "ivl_union lo hi (rs @ ss) = ivl_union lo hi rs \<union> ivl_union lo hi ss"
  by (auto simp: ivl_union_def)

lemma ivl_union_iff: "x \<in> ivl_union lo hi rs \<longleftrightarrow> (\<exists>r \<in> set rs. lo r \<le> x \<and> x < hi r)"
  by (auto simp: ivl_union_def)

lemma normalized_Nil [simp]: "normalized lo hi []"
  by (simp add: normalized_def)

lemma normalized_Cons:
  "normalized lo hi (r # rs) \<longleftrightarrow> lo r \<le> hi r \<and> (\<forall>s \<in> set rs. hi r < lo s) \<and> normalized lo hi rs"
  by (auto simp: normalized_def)

lemma normalized_append:
  "normalized lo hi (rs @ ss) \<longleftrightarrow>
     normalized lo hi rs \<and> normalized lo hi ss \<and> (\<forall>r \<in> set rs. \<forall>s \<in> set ss. hi r < lo s)"
  by (auto simp: normalized_def sorted_wrt_append)

lemma normalized_hd_le: "normalized lo hi rs \<Longrightarrow> r \<in> set rs \<Longrightarrow> lo (hd rs) \<le> lo r"
  by (cases rs) (force simp: normalized_Cons)+

lemma normalized_le_last: "normalized lo hi rs \<Longrightarrow> r \<in> set rs \<Longrightarrow> hi r \<le> hi (last rs)"
proof (induction rs)
  case Nil
  then show ?case by simp
next
  case (Cons s rs)
  show ?case
  proof (cases "rs = []")
    case True
    with Cons.prems show ?thesis by simp
  next
    case False
    with Cons.prems have "hi s < lo (last rs)" "lo (last rs) \<le> hi (last rs)"
      by (auto simp: normalized_Cons normalized_def)
    then have "hi s \<le> hi (last rs)" by linarith
    with Cons False show ?thesis by (auto simp: normalized_Cons)
  qed
qed

lemma normalized_dropWhile_before:
  assumes "normalized lo hi rs" and "r \<in> set (dropWhile (\<lambda>s. hi s < a) rs)"
  shows "a \<le> hi r"
  using assms
proof (induction rs)
  case Nil
  then show ?case by simp
next
  case (Cons s rs)
  show ?case
  proof (cases "hi s < a")
    case True
    with Cons show ?thesis by (simp add: normalized_Cons)
  next
    case False
    with Cons.prems have "r = s \<or> (hi s < lo r \<and> lo r \<le> hi r)"
      by (auto simp: normalized_Cons normalized_def)
    with False show ?thesis by auto
  qed
qed

lemma normalized_dropWhile_after:
  assumes "normalized lo hi rs" and "r \<in> set (dropWhile (\<lambda>s. lo s \<le> b) rs)"
  shows "b < lo r"
  using assms
proof (induction rs)
  case Nil
  then show ?case by simp
next
  case (Cons s rs)
  show ?case
  proof (cases "lo s \<le> b")
    case True
    with Cons show ?thesis by (simp add: normalized_Cons)
  next
    case False
    with Cons.prems have "r = s \<or> (hi s < lo r \<and> lo s \<le> hi s)"
      by (auto simp: normalized_Cons)
    with False show ?thesis by auto
  qed
qed

lemma normalized_monotonous_before:
  "normalized lo hi rs \<Longrightarrow> monotonous (\<lambda>s. hi s < a) rs"
  unfolding monotonous_def normalized_def
  by (auto elim!: sorted_wrt_mono_rel [rotated])

lemma normalized_monotonous_starts:
  "normalized lo hi rs \<Longrightarrow> monotonous (\<lambda>s. lo s \<le> b) rs"
  unfolding monotonous_def normalized_def
  by (auto elim!: sorted_wrt_mono_rel [rotated])

lemma normalized_monotonous_starts_less:
  "normalized lo hi rs \<Longrightarrow> monotonous (\<lambda>s. lo s < b) rs"
  unfolding monotonous_def normalized_def
  by (auto elim!: sorted_wrt_mono_rel [rotated])

section \<open>Merging an interval into a sorted list\<close>

text \<open>
  The list is \<open>xs @ ms @ ys\<close>: \<open>xs\<close> ends before \<open>[a, b)\<close>, \<open>ms\<close> touches it, \<open>ys\<close>
  starts after it. \<open>ms\<close> is replaced by one interval from the smaller start to the larger end.
\<close>

lemma merge_normalized:
  assumes "normalized lo hi (xs @ ms @ ys)" and "ms \<noteq> []" and "a \<le> b"
    and "\<forall>x \<in> set xs. hi x < a" and "\<forall>y \<in> set ys. b < lo y"
    and "lo j = min a (lo (hd ms))" and "hi j = max b (hi (last ms))"
  shows "normalized lo hi (xs @ j # ys)"
proof -
  from assms(1,2) have "\<forall>x \<in> set xs. hi x < lo (hd ms)" "\<forall>y \<in> set ys. hi (last ms) < lo y"
    by (simp_all add: normalized_append)
  with assms show ?thesis by (auto simp: normalized_append normalized_Cons)
qed

lemma merge_union:
  assumes "normalized lo hi ms" and "ms \<noteq> []" and "a \<le> b"
    and touch: "\<forall>m \<in> set ms. lo m \<le> b \<and> a \<le> hi m"
  shows "{min a (lo (hd ms)) ..< max b (hi (last ms))} = {a ..< b} \<union> ivl_union lo hi ms"
proof
  have hd: "hd ms \<in> set ms" and last: "last ms \<in> set ms"
    using assms(2) by simp_all
  show "{min a (lo (hd ms)) ..< max b (hi (last ms))} \<subseteq> {a ..< b} \<union> ivl_union lo hi ms"
  proof
    fix x assume x: "x \<in> {min a (lo (hd ms)) ..< max b (hi (last ms))}"
    consider "a \<le> x \<and> x < b" | "x < a" | "b \<le> x" by linarith
    then show "x \<in> {a ..< b} \<union> ivl_union lo hi ms"
    proof cases
      case 1
      then show ?thesis by simp
    next
      case 2
      with x touch hd have "lo (hd ms) \<le> x \<and> x < hi (hd ms)" by force
      with hd show ?thesis by (auto simp: ivl_union_iff)
    next
      case 3
      with x touch last have "lo (last ms) \<le> x \<and> x < hi (last ms)" by force
      with last show ?thesis by (auto simp: ivl_union_iff)
    qed
  qed
  show "{a ..< b} \<union> ivl_union lo hi ms \<subseteq> {min a (lo (hd ms)) ..< max b (hi (last ms))}"
  proof
    fix x assume "x \<in> {a ..< b} \<union> ivl_union lo hi ms"
    then consider "a \<le> x \<and> x < b" | m where "m \<in> set ms" "lo m \<le> x" "x < hi m"
      by (auto simp: ivl_union_iff)
    then show "x \<in> {min a (lo (hd ms)) ..< max b (hi (last ms))}"
    proof cases
      case 1
      then show ?thesis by auto
    next
      case 2
      with normalized_hd_le [OF assms(1)] normalized_le_last [OF assms(1)] show ?thesis by force
    qed
  qed
qed

text \<open>
  The indices \<open>i\<close> and \<open>j\<close> delimit the intervals of \<open>rs\<close> that touch \<open>[a, b)\<close>.
\<close>

definition touching_at :: "('r \<Rightarrow> int) \<Rightarrow> ('r \<Rightarrow> int) \<Rightarrow> int \<Rightarrow> int \<Rightarrow> 'r list \<Rightarrow> nat \<Rightarrow> nat \<Rightarrow> bool" where
  "touching_at lo hi a b rs i j \<longleftrightarrow> i \<le> j \<and> j \<le> length rs
     \<and> (\<forall>x \<in> set (take i rs). hi x < a)
     \<and> (\<forall>m \<in> set (drop i (take j rs)). lo m \<le> b \<and> a \<le> hi m)
     \<and> (\<forall>y \<in> set (drop j rs). b < lo y)"

lemma touching_at_le: "touching_at lo hi a b rs i j \<Longrightarrow> i \<le> j \<and> j \<le> length rs"
  by (simp only: touching_at_def)

lemma touching_at_split:
  "i \<le> j \<Longrightarrow> rs = take i rs @ drop i (take j rs) @ drop j rs"
proof -
  assume "i \<le> j"
  then have "take j rs = take i rs @ drop i (take j rs)"
    using append_take_drop_id [of i "take j rs"] by (simp add: min_absorb1)
  note tj = this
  have "rs = take j rs @ drop j rs" by simp
  also have "\<dots> = (take i rs @ drop i (take j rs)) @ drop j rs"
    by (subst tj) (rule refl)
  finally show ?thesis by (simp only: append_assoc)
qed

lemma touching_at_takeWhile:
  assumes norm: "normalized lo hi rs" and "a \<le> b"
  shows "touching_at lo hi a b rs (length (takeWhile (\<lambda>s. hi s < a) rs))
                                  (length (takeWhile (\<lambda>s. lo s \<le> b) rs))"
proof -
  let ?p = "\<lambda>s. hi s < a" and ?q = "\<lambda>s. lo s \<le> b"
  have weaker: "\<And>x. x \<in> set rs \<Longrightarrow> ?p x \<Longrightarrow> ?q x"
    using norm \<open>a \<le> b\<close> by (force simp: normalized_def)
  have "length (takeWhile ?p rs) \<le> length (takeWhile ?q rs)"
    using weaker by (induction rs) auto
  moreover have "\<forall>y \<in> set (drop (length (takeWhile ?q rs)) rs). b < lo y"
    using normalized_dropWhile_after [OF norm] by (simp add: dropWhile_eq_drop)
  moreover have "lo m \<le> b \<and> a \<le> hi m"
    if "m \<in> set (drop (length (takeWhile ?p rs)) (take (length (takeWhile ?q rs)) rs))" for m
  proof
    from that have "m \<in> set (takeWhile ?q rs)"
      by (metis in_set_dropD takeWhile_eq_take)
    then show "lo m \<le> b" by (auto dest: set_takeWhileD)
    from that have "m \<in> set (dropWhile ?p rs)"
      by (metis drop_take dropWhile_eq_drop in_set_takeD)
    then show "a \<le> hi m" by (rule normalized_dropWhile_before [OF norm])
  qed
  moreover have "\<forall>x \<in> set (take (length (takeWhile ?p rs)) rs). ?p x"
    by (metis set_takeWhileD takeWhile_eq_take)
  ultimately show ?thesis
    unfolding touching_at_def using length_takeWhile_le [of ?q rs] by blast
qed

section \<open>The contract of an interval class\<close>

text \<open>
  \<open>mk\<close> is the constructor: it accepts exactly the ordered pairs and the two accessors read
  them back.
\<close>

locale interval_class =
  fixes lo hi :: "'r \<Rightarrow> int" and mk :: "int \<Rightarrow> int \<Rightarrow> 'r result"
  assumes mk_ok: "a \<le> b \<Longrightarrow> \<exists>r. mk a b = Inr r \<and> lo r = a \<and> hi r = b"
    and mk_err: "b < a \<Longrightarrow> \<not> is_ok (mk a b)"
    and ends_eq: "lo r = lo s \<Longrightarrow> hi r = hi s \<Longrightarrow> r = s"
begin

lemma mk_ends: "mk a b = Inr r \<Longrightarrow> a \<le> b \<and> lo r = a \<and> hi r = b"
  using mk_ok [of a b] mk_err [of b a] by (cases "a \<le> b") force+

lemma mk_is_ok: "is_ok (mk a b) \<longleftrightarrow> a \<le> b"
  using mk_ok [of a b] mk_err [of b a] by (cases "a \<le> b") auto

lemma mk_join:
  assumes "lo r \<le> hi r" and "lo s \<le> hi s"
  shows "\<exists>j. mk (min (lo r) (lo s)) (max (hi r) (hi s)) = Inr j
           \<and> lo j = min (lo r) (lo s) \<and> hi j = max (hi r) (hi s)"
  using assms by (intro mk_ok) auto

lemma splice_insert:
  assumes "normalized lo hi rs" and "lo r \<le> hi r" and "touching_at lo hi (lo r) (hi r) rs i i"
  shows "normalized lo hi (take i rs @ r # drop i rs)
    \<and> ivl_union lo hi (take i rs @ r # drop i rs) = ivl_union lo hi rs \<union> {lo r ..< hi r}"
proof -
  define xs ys where "xs = take i rs" and "ys = drop i rs"
  then have "rs = xs @ ys" by simp
  moreover have "\<forall>x \<in> set xs. hi x < lo r" "\<forall>y \<in> set ys. hi r < lo y"
    using assms(3) by (simp_all add: touching_at_def xs_def ys_def)
  ultimately show ?thesis
    using assms(1,2) unfolding xs_def [symmetric] ys_def [symmetric]
    by (auto simp: normalized_append normalized_Cons)
qed

lemma splice_replace:
  assumes norm: "normalized lo hi rs" and "lo r \<le> hi r"
    and at: "touching_at lo hi (lo r) (hi r) rs i j" and "i < j"
    and n: "lo n = min (lo r) (lo (rs ! i))" "hi n = max (hi r) (hi (rs ! (j - 1)))"
  shows "normalized lo hi (take i rs @ n # drop j rs)
    \<and> ivl_union lo hi (take i rs @ n # drop j rs) = ivl_union lo hi rs \<union> {lo r ..< hi r}"
proof -
  define ms where "ms = drop i (take j rs)"
  have rs: "rs = take i rs @ ms @ drop j rs"
    unfolding ms_def using \<open>i < j\<close> by (intro touching_at_split) simp
  have "j \<le> length rs" using at by (simp add: touching_at_def)
  with \<open>i < j\<close> have ms: "ms \<noteq> []" "hd ms = rs ! i" "last ms = rs ! (j - 1)"
    by (auto simp: ms_def hd_drop_conv_nth last_conv_nth)
  have norm': "normalized lo hi (take i rs @ ms @ drop j rs)"
    using norm rs by simp
  have touch: "\<forall>m \<in> set ms. lo m \<le> hi r \<and> lo r \<le> hi m"
    using at by (simp add: touching_at_def ms_def)
  have norm_ms: "normalized lo hi ms"
    using norm' by (simp add: normalized_append)
  have "normalized lo hi (take i rs @ n # drop j rs)"
    using at by (intro merge_normalized [OF norm' ms(1) assms(2)]) (auto simp: touching_at_def n ms)
  moreover have "{lo n ..< hi n} = {lo r ..< hi r} \<union> ivl_union lo hi ms"
    using merge_union [OF norm_ms ms(1) assms(2) touch] by (simp add: n ms)
  moreover have "ivl_union lo hi rs
      = ivl_union lo hi (take i rs) \<union> ivl_union lo hi ms \<union> ivl_union lo hi (drop j rs)"
    by (subst rs) auto
  ultimately show ?thesis by auto
qed

end

end
