(* ===== verification/OffsetRanges.thy ===== *)
theory OffsetRanges
  imports Intervals
begin

text \<open>
  \<open>src/patched-vscode/src/vs/editor/common/core/offsetRange.ts\<close>: half-open ranges of
  offsets and sets of them. The constructor throws on an inverted range, so every
  operation that constructs one returns a \<open>result\<close>.
\<close>

section \<open>OffsetRange\<close>

record offset_range =
  start :: int
  endExclusive :: int

definition OffsetRange_toString :: "offset_range \<Rightarrow> string" where
  "OffsetRange_toString this = ''['' @ show_int (start this) @ '', '' @ show_int (endExclusive this) @ '')''"

definition OffsetRange_new :: "int \<Rightarrow> int \<Rightarrow> offset_range result" where
  "OffsetRange_new s e =
     (let this = \<lparr>start = s, endExclusive = e\<rparr>
      in if s > e then Inl (BugIndicatingError (''Invalid range: '' @ OffsetRange_toString this))
         else Inr this)"

text \<open>The static \<open>addRange\<close>; the array \<open>sortedRanges\<close> is returned updated.\<close>

definition OffsetRange_addRange :: "offset_range \<Rightarrow> offset_range list \<Rightarrow> offset_range list result" where
  "OffsetRange_addRange rng sortedRanges =
     (let i = while_index (\<lambda>s. endExclusive s < start rng) sortedRanges 0;
          j = while_index (\<lambda>s. start s \<le> endExclusive rng) sortedRanges i
      in if i = j then Inr (js_splice sortedRanges (int i) 0 [rng])
         else rbind (OffsetRange_new (min (start rng) (start (sortedRanges ! i)))
                                     (max (endExclusive rng) (endExclusive (sortedRanges ! (j - 1)))))
                (\<lambda>r. Inr (js_splice sortedRanges (int i) (int (j - i)) [r])))"

definition OffsetRange_tryCreate :: "int \<Rightarrow> int \<Rightarrow> offset_range option result" where
  "OffsetRange_tryCreate s e =
     (if s > e then Inr None else rbind (OffsetRange_new s e) (\<lambda>r. Inr (Some r)))"

definition OffsetRange_ofLength :: "int \<Rightarrow> offset_range result" where
  "OffsetRange_ofLength len = OffsetRange_new 0 len"

definition OffsetRange_ofStartAndLength :: "int \<Rightarrow> int \<Rightarrow> offset_range result" where
  "OffsetRange_ofStartAndLength s len = OffsetRange_new s (s + len)"

definition OffsetRange_isEmpty :: "offset_range \<Rightarrow> bool" where
  "OffsetRange_isEmpty this \<longleftrightarrow> start this = endExclusive this"

definition OffsetRange_delta :: "offset_range \<Rightarrow> int \<Rightarrow> offset_range result" where
  "OffsetRange_delta this offset = OffsetRange_new (start this + offset) (endExclusive this + offset)"

definition OffsetRange_deltaStart :: "offset_range \<Rightarrow> int \<Rightarrow> offset_range result" where
  "OffsetRange_deltaStart this offset = OffsetRange_new (start this + offset) (endExclusive this)"

definition OffsetRange_deltaEnd :: "offset_range \<Rightarrow> int \<Rightarrow> offset_range result" where
  "OffsetRange_deltaEnd this offset = OffsetRange_new (start this) (endExclusive this + offset)"

definition OffsetRange_length :: "offset_range \<Rightarrow> int" where
  "OffsetRange_length this = endExclusive this - start this"

definition OffsetRange_equals :: "offset_range \<Rightarrow> offset_range \<Rightarrow> bool" where
  "OffsetRange_equals this other \<longleftrightarrow>
     start this = start other \<and> endExclusive this = endExclusive other"

definition OffsetRange_containsRange :: "offset_range \<Rightarrow> offset_range \<Rightarrow> bool" where
  "OffsetRange_containsRange this other \<longleftrightarrow>
     start this \<le> start other \<and> endExclusive other \<le> endExclusive this"

definition OffsetRange_contains :: "offset_range \<Rightarrow> int \<Rightarrow> bool" where
  "OffsetRange_contains this offset \<longleftrightarrow> start this \<le> offset \<and> offset < endExclusive this"

definition OffsetRange_join :: "offset_range \<Rightarrow> offset_range \<Rightarrow> offset_range result" where
  "OffsetRange_join this other =
     OffsetRange_new (min (start this) (start other)) (max (endExclusive this) (endExclusive other))"

definition OffsetRange_intersect :: "offset_range \<Rightarrow> offset_range \<Rightarrow> offset_range option result" where
  "OffsetRange_intersect this other =
     (let s = max (start this) (start other); e = min (endExclusive this) (endExclusive other)
      in if s \<le> e then rbind (OffsetRange_new s e) (\<lambda>r. Inr (Some r)) else Inr None)"

definition OffsetRange_intersects :: "offset_range \<Rightarrow> offset_range \<Rightarrow> bool" where
  "OffsetRange_intersects this other \<longleftrightarrow>
     max (start this) (start other) < min (endExclusive this) (endExclusive other)"

definition OffsetRange_intersectsOrTouches :: "offset_range \<Rightarrow> offset_range \<Rightarrow> bool" where
  "OffsetRange_intersectsOrTouches this other \<longleftrightarrow>
     max (start this) (start other) \<le> min (endExclusive this) (endExclusive other)"

definition OffsetRange_isBefore :: "offset_range \<Rightarrow> offset_range \<Rightarrow> bool" where
  "OffsetRange_isBefore this other \<longleftrightarrow> endExclusive this \<le> start other"

definition OffsetRange_isAfter :: "offset_range \<Rightarrow> offset_range \<Rightarrow> bool" where
  "OffsetRange_isAfter this other \<longleftrightarrow> start this \<ge> endExclusive other"

definition OffsetRange_slice :: "offset_range \<Rightarrow> 'a list \<Rightarrow> 'a list" where
  "OffsetRange_slice this arr = js_slice arr (start this) (endExclusive this)"

definition OffsetRange_substring :: "offset_range \<Rightarrow> string \<Rightarrow> string" where
  "OffsetRange_substring this str = js_substring str (start this) (endExclusive this)"

definition OffsetRange_clip :: "offset_range \<Rightarrow> int \<Rightarrow> int result" where
  "OffsetRange_clip this value =
     (if OffsetRange_isEmpty this
      then Inl (BugIndicatingError (''Invalid clipping range: '' @ OffsetRange_toString this))
      else Inr (max (start this) (min (endExclusive this - 1) value)))"

definition OffsetRange_clipCyclic :: "offset_range \<Rightarrow> int \<Rightarrow> int result" where
  "OffsetRange_clipCyclic this value =
     (if OffsetRange_isEmpty this
      then Inl (BugIndicatingError (''Invalid clipping range: '' @ OffsetRange_toString this))
      else if value < start this
        then Inr (endExclusive this - js_rem (start this - value) (OffsetRange_length this))
      else if value \<ge> endExclusive this
        then Inr (start this + js_rem (value - start this) (OffsetRange_length this))
      else Inr value)"

text \<open>The two loops \<open>for (let i = start; i < endExclusive; i++)\<close>; the effects of the
  callback of \<open>forEach\<close> are a state passed along.\<close>

definition OffsetRange_map :: "offset_range \<Rightarrow> (int \<Rightarrow> 'a) \<Rightarrow> 'a list" where
  "OffsetRange_map this f = map f [start this .. endExclusive this - 1]"

definition OffsetRange_forEach :: "offset_range \<Rightarrow> (int \<Rightarrow> 's \<Rightarrow> 's) \<Rightarrow> 's \<Rightarrow> 's" where
  "OffsetRange_forEach this f s = fold f [start this .. endExclusive this - 1] s"

section \<open>OffsetRangeSet\<close>

record offset_range_set =
  sortedRanges :: "offset_range list"

definition OffsetRangeSet_new :: offset_range_set where
  "OffsetRangeSet_new = \<lparr>sortedRanges = []\<rparr>"

definition OffsetRangeSet_addRange :: "offset_range_set \<Rightarrow> offset_range \<Rightarrow> offset_range_set result" where
  "OffsetRangeSet_addRange this rng =
     (let rs = sortedRanges this;
          i = while_index (\<lambda>s. endExclusive s < start rng) rs 0;
          j = while_index (\<lambda>s. start s \<le> endExclusive rng) rs i
      in if i = j then Inr (this\<lparr>sortedRanges := js_splice rs (int i) 0 [rng]\<rparr>)
         else rbind (OffsetRange_new (min (start rng) (start (rs ! i)))
                                     (max (endExclusive rng) (endExclusive (rs ! (j - 1)))))
                (\<lambda>r. Inr (this\<lparr>sortedRanges := js_splice rs (int i) (int (j - i)) [r]\<rparr>)))"

definition OffsetRangeSet_toString :: "offset_range_set \<Rightarrow> string" where
  "OffsetRangeSet_toString this = js_join '', '' (map OffsetRange_toString (sortedRanges this))"

definition OffsetRangeSet_intersectsStrict :: "offset_range_set \<Rightarrow> offset_range \<Rightarrow> bool" where
  "OffsetRangeSet_intersectsStrict this other =
     (let rs = sortedRanges this; i = while_index (\<lambda>s. endExclusive s \<le> start other) rs 0
      in i < length rs \<and> start (rs ! i) < endExclusive other)"

definition OffsetRangeSet_intersectWithRange ::
  "offset_range_set \<Rightarrow> offset_range \<Rightarrow> offset_range_set result" where
  "OffsetRangeSet_intersectWithRange this other =
     rfold (\<lambda>rng res.
        rbind (OffsetRange_intersect rng other)
          (\<lambda>x. case x of None \<Rightarrow> Inr res | Some r \<Rightarrow> OffsetRangeSet_addRange res r))
       (sortedRanges this) OffsetRangeSet_new"

definition OffsetRangeSet_length :: "offset_range_set \<Rightarrow> int" where
  "OffsetRangeSet_length this = foldl (\<lambda>prev cur. prev + OffsetRange_length cur) 0 (sortedRanges this)"

definition OffsetRangeSet_intersectWithRangeLength :: "offset_range_set \<Rightarrow> offset_range \<Rightarrow> int result" where
  "OffsetRangeSet_intersectWithRangeLength this other =
     rbind (OffsetRangeSet_intersectWithRange this other) (\<lambda>s. Inr (OffsetRangeSet_length s))"

section \<open>The interval contract\<close>

interpretation offset_ivl: interval_class start endExclusive OffsetRange_new
  by unfold_locales (auto simp: OffsetRange_new_def Let_def)

text \<open>The class invariant of an \<open>OffsetRange\<close>, which the constructor establishes.\<close>

abbreviation offset_range_ok :: "offset_range \<Rightarrow> bool" where
  "offset_range_ok r \<equiv> start r \<le> endExclusive r"

abbreviation offsets :: "offset_range \<Rightarrow> int set" where
  "offsets r \<equiv> {start r ..< endExclusive r}"

abbreviation offsets_of :: "offset_range list \<Rightarrow> int set" where
  "offsets_of rs \<equiv> ivl_union start endExclusive rs"

abbreviation offsets_normalized :: "offset_range list \<Rightarrow> bool" where
  "offsets_normalized rs \<equiv> normalized start endExclusive rs"

lemma OffsetRange_new_Inr [simp]:
  "OffsetRange_new s e = Inr r \<longleftrightarrow> s \<le> e \<and> r = \<lparr>start = s, endExclusive = e\<rparr>"
  by (auto simp: OffsetRange_new_def Let_def)

lemma OffsetRange_new_ok: "s \<le> e \<Longrightarrow> OffsetRange_new s e = Inr \<lparr>start = s, endExclusive = e\<rparr>"
  by simp

lemma OffsetRange_intersect_eq:
  "OffsetRange_intersect r s =
     (let a = max (start r) (start s); b = min (endExclusive r) (endExclusive s)
      in Inr (if a \<le> b then Some \<lparr>start = a, endExclusive = b\<rparr> else None))"
  by (simp add: OffsetRange_intersect_def Let_def OffsetRange_new_ok)

section \<open>Adding a range to a sorted array\<close>

text \<open>The two loop indices delimit the ranges that touch the new one.\<close>

lemma addRange_indices:
  assumes "offsets_normalized rs" and "offset_range_ok rng"
  shows "while_index (\<lambda>s. start s \<le> endExclusive rng) rs
           (while_index (\<lambda>s. endExclusive s < start rng) rs 0)
         = length (takeWhile (\<lambda>s. start s \<le> endExclusive rng) rs)"
proof (rule while_index_from)
  show "while_index (\<lambda>s. endExclusive s < start rng) rs 0
      \<le> length (takeWhile (\<lambda>s. start s \<le> endExclusive rng) rs)"
    using touching_at_le [OF touching_at_takeWhile [OF assms]] by (simp only: while_index_0)
qed

lemma OffsetRange_addRange_correct:
  assumes norm: "offsets_normalized rs" and ok: "offset_range_ok rng"
  shows "\<exists>rs'. OffsetRange_addRange rng rs = Inr rs' \<and> offsets_normalized rs'
              \<and> offsets_of rs' = offsets_of rs \<union> offsets rng"
proof -
  define i where "i = length (takeWhile (\<lambda>s. endExclusive s < start rng) rs)"
  define j where "j = length (takeWhile (\<lambda>s. start s \<le> endExclusive rng) rs)"
  have at: "touching_at start endExclusive (start rng) (endExclusive rng) rs i j"
    unfolding i_def j_def by (rule touching_at_takeWhile [OF norm ok])
  then have ij: "i \<le> j" "j \<le> length rs" by (simp_all add: touching_at_le)
  have wi: "while_index (\<lambda>s. start s \<le> endExclusive rng) rs i = j"
    using addRange_indices [OF norm ok] by (simp only: while_index_0 i_def j_def)
  define r where "r = \<lparr>start = min (start rng) (start (rs ! i)),
                       endExclusive = max (endExclusive rng) (endExclusive (rs ! (j - 1)))\<rparr>"
  have mk: "OffsetRange_new (min (start rng) (start (rs ! i)))
      (max (endExclusive rng) (endExclusive (rs ! (j - 1)))) = Inr r"
    using ok by (simp add: r_def min_le_iff_disj le_max_iff_disj)
  have "OffsetRange_addRange rng rs =
      (if i = j then Inr (js_splice rs (int i) 0 [rng])
       else Inr (js_splice rs (int i) (int (j - i)) [r]))"
    unfolding OffsetRange_addRange_def
    by (simp only: Let_def while_index_0 i_def [symmetric] wi mk rbind_simps)
  also have "\<dots> = Inr (if i = j then take i rs @ rng # drop i rs else take i rs @ r # drop j rs)"
    using ij js_splice_nat [of i rs 0 "[rng]"] js_splice_nat [of i rs "j - i" "[r]"] by auto
  finally show ?thesis
    using offset_ivl.splice_insert [OF norm ok, of i]
      offset_ivl.splice_replace [OF norm ok at, of r] at ij
    by (cases "i = j") (simp_all add: r_def)
qed

section \<open>Offset range sets\<close>

definition offset_set_ok :: "offset_range_set \<Rightarrow> bool" where
  "offset_set_ok s \<longleftrightarrow> offsets_normalized (sortedRanges s)"

definition offsets_in :: "offset_range_set \<Rightarrow> int set" where
  "offsets_in s = offsets_of (sortedRanges s)"

text \<open>The method repeats the code of the static operation.\<close>

lemma OffsetRangeSet_addRange_eq:
  "OffsetRangeSet_addRange this rng =
     rbind (OffsetRange_addRange rng (sortedRanges this)) (\<lambda>rs. Inr (this\<lparr>sortedRanges := rs\<rparr>))"
  by (simp add: OffsetRangeSet_addRange_def OffsetRange_addRange_def Let_def rbind_assoc)

lemma OffsetRangeSet_addRange_correct:
  assumes "offset_set_ok s" and "offset_range_ok rng"
  shows "\<exists>s'. OffsetRangeSet_addRange s rng = Inr s' \<and> offset_set_ok s'
             \<and> offsets_in s' = offsets_in s \<union> offsets rng"
  using OffsetRange_addRange_correct [of "sortedRanges s" rng] assms
  by (auto simp: OffsetRangeSet_addRange_eq offset_set_ok_def offsets_in_def)

lemma OffsetRangeSet_new_ok [simp]:
  "offset_set_ok OffsetRangeSet_new" "offsets_in OffsetRangeSet_new = {}"
  by (simp_all add: offset_set_ok_def offsets_in_def OffsetRangeSet_new_def)

lemma intersectWithRange_fold:
  assumes "\<forall>r \<in> set rs. offset_range_ok r" and "offset_range_ok other" and "offset_set_ok acc"
  shows "\<exists>s. rfold (\<lambda>rng res.
            rbind (OffsetRange_intersect rng other)
              (\<lambda>x. case x of None \<Rightarrow> Inr res | Some r \<Rightarrow> OffsetRangeSet_addRange res r)) rs acc = Inr s
          \<and> offset_set_ok s \<and> offsets_in s = offsets_in acc \<union> (offsets_of rs \<inter> offsets other)"
  using assms
proof (induction rs arbitrary: acc)
  case Nil
  then show ?case by simp
next
  case (Cons r rs)
  let ?a = "max (start r) (start other)" and ?b = "min (endExclusive r) (endExclusive other)"
  show ?case
  proof (cases "?a \<le> ?b")
    case True
    then obtain acc' where acc': "OffsetRangeSet_addRange acc \<lparr>start = ?a, endExclusive = ?b\<rparr> = Inr acc'"
      and ok: "offset_set_ok acc'" and set: "offsets_in acc' = offsets_in acc \<union> {?a ..< ?b}"
      using OffsetRangeSet_addRange_correct [of acc "\<lparr>start = ?a, endExclusive = ?b\<rparr>"] Cons.prems(3)
      by auto
    from Cons.IH [OF _ Cons.prems(2) ok] Cons.prems(1) acc' set True
    show ?thesis by (auto simp: OffsetRange_intersect_eq Let_def)
  next
    case False
    with Cons.IH [OF _ Cons.prems(2,3)] Cons.prems(1)
    show ?thesis by (auto simp: OffsetRange_intersect_eq Let_def)
  qed
qed

lemma OffsetRangeSet_intersectWithRange_correct:
  assumes "offset_set_ok s" and "offset_range_ok other"
  shows "\<exists>s'. OffsetRangeSet_intersectWithRange s other = Inr s' \<and> offset_set_ok s'
             \<and> offsets_in s' = offsets_in s \<inter> offsets other"
proof -
  have "\<forall>r \<in> set (sortedRanges s). offset_range_ok r"
    using assms(1) by (simp add: offset_set_ok_def normalized_def)
  from intersectWithRange_fold [OF this assms(2) OffsetRangeSet_new_ok(1)]
  show ?thesis
    unfolding OffsetRangeSet_intersectWithRange_def
    by (simp only: OffsetRangeSet_new_ok(2) Un_empty_left offsets_in_def [of s])
qed

lemma OffsetRangeSet_length_sum_list:
  "OffsetRangeSet_length s = sum_list (map OffsetRange_length (sortedRanges s))"
proof -
  have "foldl (\<lambda>prev cur. prev + OffsetRange_length cur) n rs = n + sum_list (map OffsetRange_length rs)"
    for n rs by (induction rs arbitrary: n) simp_all
  then show ?thesis by (simp add: OffsetRangeSet_length_def)
qed

lemma sum_list_card:
  "offsets_normalized rs \<Longrightarrow> finite (offsets_of rs) \<and> sum_list (map OffsetRange_length rs) = int (card (offsets_of rs))"
proof (induction rs)
  case Nil
  then show ?case by simp
next
  case (Cons r rs)
  then have "offset_range_ok r" and "offsets r \<inter> offsets_of rs = {}" and "finite (offsets_of rs)"
    by (force simp: normalized_Cons ivl_union_iff)+
  with Cons show ?case
    by (simp add: card_Un_disjoint OffsetRange_length_def normalized_Cons)
qed

section \<open>Properties\<close>

text \<open>
  Adding a range to an \<open>OffsetRangeSet\<close> never throws, keeps the array sorted and free of
  touching ranges, and adds exactly the offsets of the range; the operation is the same for the
  static \<open>OffsetRange.addRange\<close> on arrays.
\<close>

lemma OffsetRangeSet_addRange_adds:
  assumes "offset_set_ok s" and "offset_range_ok rng"
  shows "\<exists>s'. OffsetRangeSet_addRange s rng = Inr s' \<and> offset_set_ok s'
             \<and> offsets_in s' = offsets_in s \<union> offsets rng
             \<and> OffsetRange_addRange rng (sortedRanges s) = Inr (sortedRanges s')"
proof -
  obtain rs' where "OffsetRange_addRange rng (sortedRanges s) = Inr rs'"
    using OffsetRange_addRange_correct [of "sortedRanges s" rng] assms
    by (auto simp: offset_set_ok_def)
  with OffsetRangeSet_addRange_correct [OF assms] show ?thesis
    by (auto simp: OffsetRangeSet_addRange_eq)
qed

text \<open>
  \<open>intersectWithRangeLength\<close> never throws on a well-formed set and returns the number of
  offsets the set shares with the range.
\<close>

lemma OffsetRangeSet_intersectWithRangeLength_card:
  assumes "offset_set_ok s" and "offset_range_ok other"
  shows "OffsetRangeSet_intersectWithRangeLength s other = Inr (int (card (offsets_in s \<inter> offsets other)))"
proof -
  obtain s' where s': "OffsetRangeSet_intersectWithRange s other = Inr s'" "offset_set_ok s'"
      "offsets_in s' = offsets_in s \<inter> offsets other"
    using OffsetRangeSet_intersectWithRange_correct [OF assms] by blast
  then show ?thesis
    using sum_list_card [of "sortedRanges s'"]
    by (simp add: OffsetRangeSet_intersectWithRangeLength_def OffsetRangeSet_length_sum_list
        offset_set_ok_def offsets_in_def)
qed

text \<open>
  The documented laws of \<open>intersect\<close>: an offset is in the intersection exactly when it is
  in both ranges, and the result is \<open>undefined\<close> exactly when the ranges do not even touch.
\<close>

lemma OffsetRange_intersect_correct:
  assumes "offset_range_ok r" and "offset_range_ok s"
  shows "case OffsetRange_intersect r s of
           Inl e \<Rightarrow> False
         | Inr None \<Rightarrow> \<not> OffsetRange_intersectsOrTouches r s \<and> offsets r \<inter> offsets s = {}
         | Inr (Some t) \<Rightarrow> offset_range_ok t \<and> OffsetRange_intersectsOrTouches r s
             \<and> (\<forall>n. OffsetRange_contains t n \<longleftrightarrow> OffsetRange_contains r n \<and> OffsetRange_contains s n)
             \<and> (OffsetRange_isEmpty t \<longleftrightarrow> \<not> OffsetRange_intersects r s)"
  using assms
  by (auto simp: OffsetRange_intersect_eq Let_def OffsetRange_intersectsOrTouches_def
      OffsetRange_intersects_def OffsetRange_contains_def OffsetRange_isEmpty_def)

text \<open>
  \<open>clipCyclic\<close> leaves the range it is documented to clip into: for a value that lies a
  positive multiple of the length below the start, it returns \<open>endExclusive\<close>, which the range
  does not contain.
\<close>

lemma OffsetRange_clipCyclic_escapes:
  assumes "start r < endExclusive r" and "0 < k"
  shows "OffsetRange_clipCyclic r (start r - k * OffsetRange_length r) = Inr (endExclusive r)
    \<and> \<not> OffsetRange_contains r (endExclusive r)"
proof -
  have len: "0 < OffsetRange_length r" using assms(1) by (simp add: OffsetRange_length_def)
  then have "0 < k * OffsetRange_length r" using assms(2) by simp
  moreover have "js_rem (k * OffsetRange_length r) (OffsetRange_length r) = 0"
    using len calculation by (simp add: js_rem_nonneg)
  ultimately show ?thesis
    using assms(1) by (simp add: OffsetRange_clipCyclic_def OffsetRange_isEmpty_def OffsetRange_contains_def)
qed

text \<open>
  Everywhere else \<open>clipCyclic\<close> does what its comment says: it returns the value shifted
  by a multiple of the length, and that value is in the range.
\<close>

lemma OffsetRange_clipCyclic_correct:
  assumes "start r < endExclusive r"
    and "value < start r \<longrightarrow> \<not> OffsetRange_length r dvd start r - value"
  shows "\<exists>x k. OffsetRange_clipCyclic r value = Inr x \<and> OffsetRange_contains r x
              \<and> x = value + k * OffsetRange_length r"
proof -
  define L where "L = OffsetRange_length r"
  have L: "0 < L" "endExclusive r = start r + L"
    using assms(1) by (simp_all add: L_def OffsetRange_length_def)
  consider "value < start r" | "value \<ge> endExclusive r" | "start r \<le> value \<and> value < endExclusive r"
    by linarith
  then show ?thesis
  proof cases
    case 1
    have m: "0 < (start r - value) mod L" "(start r - value) mod L < L"
      using assms(2) 1 L pos_mod_sign [of L "start r - value"]
      by (auto simp: L_def [symmetric] dvd_eq_mod_eq_0 le_less)
    have "start r - value = (start r - value) div L * L + (start r - value) mod L" by simp
    then have "endExclusive r - (start r - value) mod L = value + ((start r - value) div L + 1) * L"
      using L(2) by (simp add: algebra_simps)
    moreover have "OffsetRange_clipCyclic r value = Inr (endExclusive r - (start r - value) mod L)"
      using 1 L by (simp add: OffsetRange_clipCyclic_def OffsetRange_isEmpty_def js_rem_nonneg
          L_def [symmetric])
    moreover have "OffsetRange_contains r (endExclusive r - (start r - value) mod L)"
      unfolding OffsetRange_contains_def using m L by linarith
    ultimately show ?thesis unfolding L_def by metis
  next
    case 2
    have m: "0 \<le> (value - start r) mod L" "(value - start r) mod L < L" using L by simp_all
    have "value - start r = (value - start r) div L * L + (value - start r) mod L" by simp
    then have "start r + (value - start r) mod L = value + (- ((value - start r) div L)) * L"
      by (simp add: algebra_simps)
    moreover have "OffsetRange_clipCyclic r value = Inr (start r + (value - start r) mod L)"
      using 2 L by (simp add: OffsetRange_clipCyclic_def OffsetRange_isEmpty_def js_rem_nonneg
          L_def [symmetric])
    moreover have "OffsetRange_contains r (start r + (value - start r) mod L)"
      unfolding OffsetRange_contains_def using m L by linarith
    ultimately show ?thesis unfolding L_def by metis
  next
    case 3
    then have "OffsetRange_clipCyclic r value = Inr value \<and> OffsetRange_contains r value
        \<and> value = value + 0 * OffsetRange_length r"
      by (auto simp: OffsetRange_clipCyclic_def OffsetRange_isEmpty_def OffsetRange_contains_def)
    then show ?thesis by blast
  qed
qed

end
