(* ===== verification/LineRanges.thy ===== *)
theory LineRanges
  imports ArraysFind Ranges OffsetRanges
begin

text \<open>
  \<open>src/patched-vscode/src/vs/editor/common/core/lineRange.ts\<close>: half-open ranges of line
  numbers and normalised sets of them. Index loops over an array are recursions over the
  rest of the array; the binary searches are those of \<open>arraysFind.ts\<close>.
\<close>

section \<open>LineRange\<close>

record line_range =
  lr_startLineNumber :: int
  lr_endLineNumberExclusive :: int

definition LineRange_new :: "int \<Rightarrow> int \<Rightarrow> line_range result" where
  "LineRange_new s e =
     (if s > e
      then Inl (BugIndicatingError (''startLineNumber '' @ show_int s
                  @ '' cannot be after endLineNumberExclusive '' @ show_int e))
      else Inr \<lparr>lr_startLineNumber = s, lr_endLineNumberExclusive = e\<rparr>)"

definition LineRange_fromRange :: "range \<Rightarrow> line_range result" where
  "LineRange_fromRange r = LineRange_new (startLineNumber r) (endLineNumber r)"

definition LineRange_fromRangeInclusive :: "range \<Rightarrow> line_range result" where
  "LineRange_fromRangeInclusive r = LineRange_new (startLineNumber r) (endLineNumber r + 1)"

definition LineRange_subtract :: "line_range \<Rightarrow> line_range option \<Rightarrow> line_range list result" where
  "LineRange_subtract a bo =
     (case bo of
        None \<Rightarrow> Inr [a]
      | Some b \<Rightarrow>
          (if lr_startLineNumber a < lr_startLineNumber b
              \<and> lr_endLineNumberExclusive b < lr_endLineNumberExclusive a then
             rmap (\<lambda>(s, e). LineRange_new s e)
               [(lr_startLineNumber a, lr_startLineNumber b),
                (lr_endLineNumberExclusive b, lr_endLineNumberExclusive a)]
           else if lr_startLineNumber b \<le> lr_startLineNumber a
              \<and> lr_endLineNumberExclusive a \<le> lr_endLineNumberExclusive b then Inr []
           else if lr_endLineNumberExclusive b < lr_endLineNumberExclusive a then
             rmap (\<lambda>(s, e). LineRange_new s e)
               [(max (lr_endLineNumberExclusive b) (lr_startLineNumber a), lr_endLineNumberExclusive a)]
           else
             rmap (\<lambda>(s, e). LineRange_new s e)
               [(lr_startLineNumber a, min (lr_startLineNumber b) (lr_endLineNumberExclusive a))]))"

text \<open>The loop of \<open>join\<close> over the ranges after the first.\<close>

fun LineRange_joinLoop :: "int \<Rightarrow> int \<Rightarrow> line_range list \<Rightarrow> int \<times> int" where
  "LineRange_joinLoop s e [] = (s, e)"
| "LineRange_joinLoop s e (r # rs) =
     LineRange_joinLoop (min s (lr_startLineNumber r)) (max e (lr_endLineNumberExclusive r)) rs"

definition LineRange_joinAll :: "line_range list \<Rightarrow> line_range result" where
  "LineRange_joinAll lineRanges =
     (case lineRanges of
        [] \<Rightarrow> Inl (BugIndicatingError ''lineRanges cannot be empty'')
      | r # rs \<Rightarrow>
          (let (s, e) = LineRange_joinLoop (lr_startLineNumber r) (lr_endLineNumberExclusive r) rs
           in LineRange_new s e))"

definition LineRange_ofLength :: "int \<Rightarrow> int \<Rightarrow> line_range result" where
  "LineRange_ofLength s len = LineRange_new s (s + len)"

definition LineRange_deserialize :: "int \<times> int \<Rightarrow> line_range result" where
  "LineRange_deserialize p = LineRange_new (fst p) (snd p)"

definition LineRange_contains :: "line_range \<Rightarrow> int \<Rightarrow> bool" where
  "LineRange_contains this l \<longleftrightarrow> lr_startLineNumber this \<le> l \<and> l < lr_endLineNumberExclusive this"

definition LineRange_isEmpty :: "line_range \<Rightarrow> bool" where
  "LineRange_isEmpty this \<longleftrightarrow> lr_startLineNumber this = lr_endLineNumberExclusive this"

definition LineRange_delta :: "line_range \<Rightarrow> int \<Rightarrow> line_range result" where
  "LineRange_delta this offset =
     LineRange_new (lr_startLineNumber this + offset) (lr_endLineNumberExclusive this + offset)"

definition LineRange_deltaLength :: "line_range \<Rightarrow> int \<Rightarrow> line_range result" where
  "LineRange_deltaLength this offset =
     LineRange_new (lr_startLineNumber this) (lr_endLineNumberExclusive this + offset)"

definition LineRange_length :: "line_range \<Rightarrow> int" where
  "LineRange_length this = lr_endLineNumberExclusive this - lr_startLineNumber this"

definition LineRange_join :: "line_range \<Rightarrow> line_range \<Rightarrow> line_range result" where
  "LineRange_join this other =
     LineRange_new (min (lr_startLineNumber this) (lr_startLineNumber other))
                   (max (lr_endLineNumberExclusive this) (lr_endLineNumberExclusive other))"

definition LineRange_toString :: "line_range \<Rightarrow> string" where
  "LineRange_toString this =
     ''['' @ show_int (lr_startLineNumber this) @ '','' @ show_int (lr_endLineNumberExclusive this) @ '')''"

definition LineRange_intersect :: "line_range \<Rightarrow> line_range \<Rightarrow> line_range option result" where
  "LineRange_intersect this other =
     (let s = max (lr_startLineNumber this) (lr_startLineNumber other);
          e = min (lr_endLineNumberExclusive this) (lr_endLineNumberExclusive other)
      in if s \<le> e then rbind (LineRange_new s e) (\<lambda>r. Inr (Some r)) else Inr None)"

definition LineRange_intersectsStrict :: "line_range \<Rightarrow> line_range \<Rightarrow> bool" where
  "LineRange_intersectsStrict this other \<longleftrightarrow>
     lr_startLineNumber this < lr_endLineNumberExclusive other
     \<and> lr_startLineNumber other < lr_endLineNumberExclusive this"

definition LineRange_overlapOrTouch :: "line_range \<Rightarrow> line_range \<Rightarrow> bool" where
  "LineRange_overlapOrTouch this other \<longleftrightarrow>
     lr_startLineNumber this \<le> lr_endLineNumberExclusive other
     \<and> lr_startLineNumber other \<le> lr_endLineNumberExclusive this"

definition LineRange_equals :: "line_range \<Rightarrow> line_range \<Rightarrow> bool" where
  "LineRange_equals this b \<longleftrightarrow> lr_startLineNumber this = lr_startLineNumber b
     \<and> lr_endLineNumberExclusive this = lr_endLineNumberExclusive b"

text \<open>\<open>Number.MAX_SAFE_INTEGER\<close>.\<close>

definition MAX_SAFE_INTEGER :: int where
  "MAX_SAFE_INTEGER = 2 ^ 53 - 1"

definition LineRange_toInclusiveRange :: "line_range \<Rightarrow> range option" where
  "LineRange_toInclusiveRange this =
     (if LineRange_isEmpty this then None
      else Some (Range_new (lr_startLineNumber this) 1 (lr_endLineNumberExclusive this - 1) MAX_SAFE_INTEGER))"

definition LineRange_toExclusiveRange :: "line_range \<Rightarrow> range" where
  "LineRange_toExclusiveRange this =
     Range_new (lr_startLineNumber this) 1 (lr_endLineNumberExclusive this) 1"

definition LineRange_mapToLineArray :: "line_range \<Rightarrow> (int \<Rightarrow> 'a) \<Rightarrow> 'a list" where
  "LineRange_mapToLineArray this f = map f [lr_startLineNumber this .. lr_endLineNumberExclusive this - 1]"

definition LineRange_forEach :: "line_range \<Rightarrow> (int \<Rightarrow> 's \<Rightarrow> 's) \<Rightarrow> 's \<Rightarrow> 's" where
  "LineRange_forEach this f s = fold f [lr_startLineNumber this .. lr_endLineNumberExclusive this - 1] s"

definition LineRange_serialize :: "line_range \<Rightarrow> int \<times> int" where
  "LineRange_serialize this = (lr_startLineNumber this, lr_endLineNumberExclusive this)"

definition LineRange_includes :: "line_range \<Rightarrow> int \<Rightarrow> bool" where
  "LineRange_includes this l \<longleftrightarrow> lr_startLineNumber this \<le> l \<and> l < lr_endLineNumberExclusive this"

definition LineRange_toOffsetRange :: "line_range \<Rightarrow> offset_range result" where
  "LineRange_toOffsetRange this =
     OffsetRange_new (lr_startLineNumber this - 1) (lr_endLineNumberExclusive this - 1)"

section \<open>LineRangeSet\<close>

record line_range_set =
  normalizedRanges :: "line_range list"

definition LineRangeSet_new :: "line_range list \<Rightarrow> line_range_set" where
  "LineRangeSet_new rs = \<lparr>normalizedRanges = rs\<rparr>"

text \<open>The two searches \<open>addRange\<close> and \<open>subtractFrom\<close> start with.\<close>

definition joinRangeStartIdx :: "line_range list \<Rightarrow> line_range \<Rightarrow> nat" where
  "joinRangeStartIdx rs r =
     findFirstIdxMonotonousOrArrLen rs
       (\<lambda>s. lr_endLineNumberExclusive s \<ge> lr_startLineNumber r) 0 (length rs)"

definition joinRangeEndIdxExclusive :: "line_range list \<Rightarrow> line_range \<Rightarrow> nat" where
  "joinRangeEndIdxExclusive rs r =
     nat (findLastIdxMonotonous rs
            (\<lambda>s. lr_startLineNumber s \<le> lr_endLineNumberExclusive r) 0 (length rs) + 1)"

definition LineRangeSet_addRange :: "line_range_set \<Rightarrow> line_range \<Rightarrow> line_range_set result" where
  "LineRangeSet_addRange this rng =
     (if LineRange_length rng = 0 then Inr this
      else
        (let rs = normalizedRanges this;
             i = joinRangeStartIdx rs rng;
             j = joinRangeEndIdxExclusive rs rng
         in if i = j then Inr (this\<lparr>normalizedRanges := js_splice rs (int i) 0 [rng]\<rparr>)
            else if int i = int j - 1 then
              rbind (LineRange_join (rs ! i) rng)
                (\<lambda>r. Inr (this\<lparr>normalizedRanges := rs[i := r]\<rparr>))
            else
              rbind (LineRange_join (rs ! i) (rs ! (j - 1)))
                (\<lambda>r. rbind (LineRange_join r rng)
                   (\<lambda>r'. Inr (this\<lparr>normalizedRanges := js_splice rs (int i) (int j - int i) [r']\<rparr>)))))"

definition LineRangeSet_contains :: "line_range_set \<Rightarrow> int \<Rightarrow> bool" where
  "LineRangeSet_contains this l =
     (case findLastMonotonous (normalizedRanges this) (\<lambda>r. lr_startLineNumber r \<le> l) of
        None \<Rightarrow> False
      | Some r \<Rightarrow> lr_endLineNumberExclusive r > l)"

definition LineRangeSet_intersects :: "line_range_set \<Rightarrow> line_range \<Rightarrow> bool" where
  "LineRangeSet_intersects this rng =
     (case findLastMonotonous (normalizedRanges this)
             (\<lambda>r. lr_startLineNumber r < lr_endLineNumberExclusive rng) of
        None \<Rightarrow> False
      | Some r \<Rightarrow> lr_endLineNumberExclusive r > lr_startLineNumber rng)"

text \<open>
  The merge loop of \<open>getUnion\<close>: the rests of the two arrays, the current range and the
  result so far.
\<close>

fun getUnion_step ::
  "line_range option \<Rightarrow> line_range \<Rightarrow> line_range list \<Rightarrow> (line_range option \<times> line_range list) result" where
  "getUnion_step None nxt res = Inr (Some nxt, res)"
| "getUnion_step (Some cur) nxt res =
     (if lr_endLineNumberExclusive cur \<ge> lr_startLineNumber nxt then
        rbind (LineRange_new (lr_startLineNumber cur)
                 (max (lr_endLineNumberExclusive cur) (lr_endLineNumberExclusive nxt)))
          (\<lambda>r. Inr (Some r, res))
      else Inr (Some nxt, res @ [cur]))"

fun getUnion_loop ::
  "line_range list \<Rightarrow> line_range list \<Rightarrow> line_range option \<Rightarrow> line_range list \<Rightarrow>
     (line_range option \<times> line_range list) result" where
  "getUnion_loop [] [] cur res = Inr (cur, res)"
| "getUnion_loop (r1 # rs1) (r2 # rs2) cur res =
     (if lr_startLineNumber r1 < lr_startLineNumber r2
      then rbind (getUnion_step cur r1 res) (\<lambda>(c, r). getUnion_loop rs1 (r2 # rs2) c r)
      else rbind (getUnion_step cur r2 res) (\<lambda>(c, r). getUnion_loop (r1 # rs1) rs2 c r))"
| "getUnion_loop (r1 # rs1) [] cur res =
     rbind (getUnion_step cur r1 res) (\<lambda>(c, r). getUnion_loop rs1 [] c r)"
| "getUnion_loop [] (r2 # rs2) cur res =
     rbind (getUnion_step cur r2 res) (\<lambda>(c, r). getUnion_loop [] rs2 c r)"

definition LineRangeSet_getUnion :: "line_range_set \<Rightarrow> line_range_set \<Rightarrow> line_range_set result" where
  "LineRangeSet_getUnion this other =
     (if normalizedRanges this = [] then Inr other
      else if normalizedRanges other = [] then Inr this
      else rbind (getUnion_loop (normalizedRanges this) (normalizedRanges other) None [])
             (\<lambda>(cur, res). Inr (LineRangeSet_new
                (case cur of None \<Rightarrow> res | Some c \<Rightarrow> res @ [c]))))"

definition LineRange_joinMany :: "line_range list list \<Rightarrow> line_range list result" where
  "LineRange_joinMany lineRanges =
     (case lineRanges of
        [] \<Rightarrow> Inr []
      | l # ls \<Rightarrow>
          rbind (rfold (\<lambda>l res. LineRangeSet_getUnion res (LineRangeSet_new l)) ls (LineRangeSet_new l))
            (\<lambda>res. Inr (normalizedRanges res)))"

fun subtractFrom_loop :: "line_range list \<Rightarrow> int \<Rightarrow> line_range list \<Rightarrow> (int \<times> line_range list) result" where
  "subtractFrom_loop [] s res = Inr (s, res)"
| "subtractFrom_loop (r # rs) s res =
     rbind (if lr_startLineNumber r > s
            then rbind (LineRange_new s (lr_startLineNumber r)) (\<lambda>x. Inr (res @ [x]))
            else Inr res)
       (\<lambda>res'. subtractFrom_loop rs (lr_endLineNumberExclusive r) res')"

definition LineRangeSet_subtractFrom :: "line_range_set \<Rightarrow> line_range \<Rightarrow> line_range_set result" where
  "LineRangeSet_subtractFrom this rng =
     (let rs = normalizedRanges this;
          i = joinRangeStartIdx rs rng;
          j = joinRangeEndIdxExclusive rs rng
      in if i = j then Inr (LineRangeSet_new [rng])
         else rbind (subtractFrom_loop (drop i (take j rs)) (lr_startLineNumber rng) [])
                (\<lambda>(s, res).
                   if s < lr_endLineNumberExclusive rng
                   then rbind (LineRange_new s (lr_endLineNumberExclusive rng))
                          (\<lambda>x. Inr (LineRangeSet_new (res @ [x])))
                   else Inr (LineRangeSet_new res)))"

definition LineRangeSet_toString :: "line_range_set \<Rightarrow> string" where
  "LineRangeSet_toString this = js_join '', '' (map LineRange_toString (normalizedRanges this))"

fun getIntersection_loop ::
  "line_range list \<Rightarrow> line_range list \<Rightarrow> line_range list \<Rightarrow> line_range list result" where
  "getIntersection_loop (r1 # rs1) (r2 # rs2) res =
     rbind (LineRange_intersect r1 r2)
       (\<lambda>i. let res' = (case i of Some x \<Rightarrow> if LineRange_isEmpty x then res else res @ [x]
                                | None \<Rightarrow> res)
            in if lr_endLineNumberExclusive r1 < lr_endLineNumberExclusive r2
               then getIntersection_loop rs1 (r2 # rs2) res'
               else getIntersection_loop (r1 # rs1) rs2 res')"
| "getIntersection_loop _ _ res = Inr res"

definition LineRangeSet_getIntersection :: "line_range_set \<Rightarrow> line_range_set \<Rightarrow> line_range_set result" where
  "LineRangeSet_getIntersection this other =
     rbind (getIntersection_loop (normalizedRanges this) (normalizedRanges other) [])
       (\<lambda>res. Inr (LineRangeSet_new res))"

definition LineRangeSet_getWithDelta :: "line_range_set \<Rightarrow> int \<Rightarrow> line_range_set result" where
  "LineRangeSet_getWithDelta this value =
     rbind (rmap (\<lambda>r. LineRange_delta r value) (normalizedRanges this)) (\<lambda>rs. Inr (LineRangeSet_new rs))"

section \<open>The interval contract\<close>

interpretation line_ivl: interval_class lr_startLineNumber lr_endLineNumberExclusive LineRange_new
  by unfold_locales (auto simp: LineRange_new_def)

abbreviation line_range_ok :: "line_range \<Rightarrow> bool" where
  "line_range_ok r \<equiv> lr_startLineNumber r \<le> lr_endLineNumberExclusive r"

abbreviation line_range_nonempty :: "line_range \<Rightarrow> bool" where
  "line_range_nonempty r \<equiv> lr_startLineNumber r < lr_endLineNumberExclusive r"

abbreviation lines :: "line_range \<Rightarrow> int set" where
  "lines r \<equiv> {lr_startLineNumber r ..< lr_endLineNumberExclusive r}"

abbreviation lines_of :: "line_range list \<Rightarrow> int set" where
  "lines_of rs \<equiv> ivl_union lr_startLineNumber lr_endLineNumberExclusive rs"

abbreviation lines_normalized :: "line_range list \<Rightarrow> bool" where
  "lines_normalized rs \<equiv> normalized lr_startLineNumber lr_endLineNumberExclusive rs"

text \<open>
  The class invariant of a \<open>LineRangeSet\<close>: the ranges are sorted, do not touch, and none
  is empty.
\<close>

definition line_set_ok :: "line_range_set \<Rightarrow> bool" where
  "line_set_ok s \<longleftrightarrow> lines_normalized (normalizedRanges s)
     \<and> (\<forall>r \<in> set (normalizedRanges s). line_range_nonempty r)"

definition lines_in :: "line_range_set \<Rightarrow> int set" where
  "lines_in s = lines_of (normalizedRanges s)"

lemma LineRange_new_Inr [simp]:
  "LineRange_new s e = Inr r \<longleftrightarrow> s \<le> e \<and> r = \<lparr>lr_startLineNumber = s, lr_endLineNumberExclusive = e\<rparr>"
  by (auto simp: LineRange_new_def)

lemma LineRange_new_ok:
  "s \<le> e \<Longrightarrow> LineRange_new s e = Inr \<lparr>lr_startLineNumber = s, lr_endLineNumberExclusive = e\<rparr>"
  by simp

lemma LineRangeSet_new_sel [simp]: "normalizedRanges (LineRangeSet_new rs) = rs"
  by (simp add: LineRangeSet_new_def)

lemma LineRange_intersect_eq:
  "LineRange_intersect r s =
     (let a = max (lr_startLineNumber r) (lr_startLineNumber s);
          b = min (lr_endLineNumberExclusive r) (lr_endLineNumberExclusive s)
      in Inr (if a \<le> b then Some \<lparr>lr_startLineNumber = a, lr_endLineNumberExclusive = b\<rparr> else None))"
  by (simp add: LineRange_intersect_def Let_def LineRange_new_ok)

section \<open>Adding a range\<close>

lemma joinRangeStartIdx_eq:
  assumes "lines_normalized rs"
  shows "joinRangeStartIdx rs r
    = length (takeWhile (\<lambda>s. lr_endLineNumberExclusive s < lr_startLineNumber r) rs)"
  using findFirstIdxMonotonousOrArrLen_eq
    [of "\<lambda>s. lr_endLineNumberExclusive s \<ge> lr_startLineNumber r" rs]
    normalized_monotonous_before [OF assms]
  by (simp add: joinRangeStartIdx_def not_le)

lemma joinRangeEndIdxExclusive_eq:
  assumes "lines_normalized rs"
  shows "joinRangeEndIdxExclusive rs r
    = length (takeWhile (\<lambda>s. lr_startLineNumber s \<le> lr_endLineNumberExclusive r) rs)"
  using normalized_monotonous_starts [OF assms]
  by (simp add: joinRangeEndIdxExclusive_def findLastIdxMonotonous_eq)

lemma joinRange_touching:
  assumes "lines_normalized rs" and "line_range_ok r"
  shows "touching_at lr_startLineNumber lr_endLineNumberExclusive
           (lr_startLineNumber r) (lr_endLineNumberExclusive r) rs
           (joinRangeStartIdx rs r) (joinRangeEndIdxExclusive rs r)"
  unfolding joinRangeStartIdx_eq [OF assms(1)] joinRangeEndIdxExclusive_eq [OF assms(1)]
  by (rule touching_at_takeWhile [OF assms])

text \<open>What the three branches of \<open>addRange\<close> store.\<close>

lemma LineRangeSet_addRange_eq:
  assumes norm: "lines_normalized (normalizedRanges s)" and ne: "line_range_nonempty r"
  defines "rs \<equiv> normalizedRanges s"
  defines "i \<equiv> joinRangeStartIdx rs r" and "j \<equiv> joinRangeEndIdxExclusive rs r"
  defines "n \<equiv> \<lparr>lr_startLineNumber = min (lr_startLineNumber r) (lr_startLineNumber (rs ! i)),
                lr_endLineNumberExclusive =
                  max (lr_endLineNumberExclusive r) (lr_endLineNumberExclusive (rs ! (j - 1)))\<rparr>"
  shows "LineRangeSet_addRange s r = Inr (s\<lparr>normalizedRanges :=
           (if i = j then take i rs @ r # drop i rs else take i rs @ n # drop j rs)\<rparr>)"
proof -
  have ok: "\<forall>x \<in> set rs. line_range_ok x" using norm by (simp add: normalized_def rs_def)
  have ij: "i \<le> j" "j \<le> length rs"
    using touching_at_le [OF joinRange_touching [of rs r]] norm ne
    by (auto simp: rs_def i_def j_def)
  have len: "LineRange_length r \<noteq> 0" using ne by (simp add: LineRange_length_def)
  have sorted: "lr_startLineNumber (rs ! i) \<le> lr_startLineNumber (rs ! (j - 1))
      \<and> lr_endLineNumberExclusive (rs ! i) \<le> lr_endLineNumberExclusive (rs ! (j - 1))"
    if "i < j - 1"
  proof -
    have "lr_endLineNumberExclusive (rs ! i) < lr_startLineNumber (rs ! (j - 1))"
      using norm that ij by (auto simp: normalized_def rs_def sorted_wrt_iff_nth_less)
    moreover have "line_range_ok (rs ! i)" "line_range_ok (rs ! (j - 1))"
      using ok that ij by simp_all
    ultimately show ?thesis by linarith
  qed
  consider "i = j" | "i < j" "i = j - 1" | "i < j - 1" using ij by linarith
  then show ?thesis
  proof cases
    case 1
    then show ?thesis
      using len ij js_splice_nat [of i rs 0 "[r]"]
      by (simp add: LineRangeSet_addRange_def rs_def [symmetric] i_def [symmetric] j_def [symmetric] Let_def)
  next
    case 2
    then have "LineRange_join (rs ! i) r = Inr n"
      using ok ij ne by (auto simp: LineRange_join_def n_def min.commute max.commute)
    moreover have "rs[i := n] = take i rs @ n # drop j rs"
      using 2 ij by (simp add: upd_conv_take_nth_drop)
    ultimately show ?thesis
      using 2 len ij
      by (simp add: LineRangeSet_addRange_def rs_def [symmetric] i_def [symmetric] j_def [symmetric] Let_def)
  next
    case 3
    define m where "m = \<lparr>lr_startLineNumber = lr_startLineNumber (rs ! i),
        lr_endLineNumberExclusive = lr_endLineNumberExclusive (rs ! (j - 1))\<rparr>"
    have oki: "line_range_ok (rs ! i)" using ok 3 ij by simp
    have "LineRange_join (rs ! i) (rs ! (j - 1)) = Inr m"
      using sorted [OF 3] oki by (auto simp: LineRange_join_def m_def min_absorb1 max_absorb2)
    moreover have "LineRange_join m r = Inr n"
      using sorted [OF 3] oki ne by (auto simp: LineRange_join_def m_def n_def min.commute max.commute)
    moreover have "i \<noteq> j" "int i \<noteq> int j - 1" using 3 by simp_all
    ultimately show ?thesis
      using len ij js_splice_nat [of i rs "j - i" "[n]"]
      by (simp add: LineRangeSet_addRange_def rs_def [symmetric] i_def [symmetric] j_def [symmetric] Let_def)
  qed
qed

text \<open>
  Adding a range to a \<open>LineRangeSet\<close>, with the position found by two binary searches,
  never throws, keeps the set normalised (sorted, nothing touching, nothing empty) and adds
  exactly the lines of the range.
\<close>

lemma LineRangeSet_addRange_adds:
  assumes "line_set_ok s" and "line_range_ok r"
  shows "\<exists>s'. LineRangeSet_addRange s r = Inr s' \<and> line_set_ok s' \<and> lines_in s' = lines_in s \<union> lines r"
proof (cases "line_range_nonempty r")
  case False
  with assms show ?thesis by (auto simp: LineRangeSet_addRange_def LineRange_length_def)
next
  case True
  let ?rs = "normalizedRanges s"
  let ?i = "joinRangeStartIdx ?rs r" and ?j = "joinRangeEndIdxExclusive ?rs r"
  have norm: "lines_normalized ?rs" and ne: "\<forall>x \<in> set ?rs. line_range_nonempty x"
    using assms(1) by (simp_all add: line_set_ok_def)
  have at: "touching_at lr_startLineNumber lr_endLineNumberExclusive
      (lr_startLineNumber r) (lr_endLineNumberExclusive r) ?rs ?i ?j"
    by (rule joinRange_touching [OF norm assms(2)])
  define n where "n = \<lparr>lr_startLineNumber = min (lr_startLineNumber r) (lr_startLineNumber (?rs ! ?i)),
      lr_endLineNumberExclusive =
        max (lr_endLineNumberExclusive r) (lr_endLineNumberExclusive (?rs ! (?j - 1)))\<rparr>"
  define rs' where "rs' = (if ?i = ?j then take ?i ?rs @ r # drop ?i ?rs else take ?i ?rs @ n # drop ?j ?rs)"
  have "lines_normalized rs' \<and> lines_of rs' = lines_of ?rs \<union> lines r"
    using line_ivl.splice_insert [OF norm assms(2), of ?i]
      line_ivl.splice_replace [OF norm assms(2) at, of n] at touching_at_le [OF at]
    by (cases "?i = ?j") (simp_all add: rs'_def n_def)
  moreover have "\<forall>x \<in> set rs'. line_range_nonempty x"
    using ne True by (auto simp: rs'_def n_def dest: in_set_takeD in_set_dropD)
  moreover have "LineRangeSet_addRange s r = Inr (s\<lparr>normalizedRanges := rs'\<rparr>)"
    unfolding rs'_def n_def by (rule LineRangeSet_addRange_eq [OF norm True])
  ultimately show ?thesis by (simp add: line_set_ok_def lines_in_def)
qed

section \<open>Membership\<close>

lemma takeWhile_last_owner:
  assumes norm: "lines_normalized rs" and mono: "monotonous p rs"
    and p: "\<And>r. r \<in> set rs \<Longrightarrow> P r \<Longrightarrow> p r"
    and P: "\<And>r s. r \<in> set rs \<Longrightarrow> s \<in> set rs \<Longrightarrow>
              lr_endLineNumberExclusive r < lr_startLineNumber s \<Longrightarrow> p s \<Longrightarrow> \<not> P r"
  shows "(\<exists>r \<in> set rs. P r) \<longleftrightarrow>
    (case findLastMonotonous rs p of None \<Rightarrow> False | Some r \<Rightarrow> P r)"
proof (cases "takeWhile p rs = []")
  case True
  then have "\<forall>r \<in> set rs. \<not> p r"
    using mono by (cases rs) (auto simp: monotonous_def split: if_splits)
  with True p show ?thesis by (auto simp: findLastMonotonous_eq [OF mono])
next
  case False
  define ts where "ts = takeWhile p rs"
  have last: "last ts \<in> set rs" "p (last ts)"
    using takeWhile_last [OF False] by (simp_all add: ts_def)
  have ts: "ts = butlast ts @ [last ts]" using False by (simp add: ts_def)
  have "lines_normalized (ts @ dropWhile p rs)" using norm by (simp add: ts_def)
  then have "lines_normalized (butlast ts @ [last ts])"
    using ts by (simp add: normalized_append)
  then have before: "lr_endLineNumberExclusive r < lr_startLineNumber (last ts)"
    if "r \<in> set (butlast ts)" for r
    using that by (simp add: normalized_append)
  have "r = last ts" if r: "r \<in> set rs" "P r" for r
  proof (rule ccontr)
    assume "r \<noteq> last ts"
    moreover have "r \<in> set ts"
      unfolding ts_def using mono r p by (blast intro: monotonous_in_takeWhile)
    ultimately have "r \<in> set (butlast ts)" using ts by (metis Un_iff empty_iff insert_iff list.set set_append)
    with P [OF r(1) last(1) before last(2)] r(2) show False by blast
  qed
  then have "(\<exists>r \<in> set rs. P r) \<longleftrightarrow> P (last ts)" using last by metis
  then show ?thesis using False by (simp add: findLastMonotonous_eq [OF mono] ts_def)
qed

lemma LineRangeSet_contains_iff:
  assumes "lines_normalized (normalizedRanges s)"
  shows "LineRangeSet_contains s l \<longleftrightarrow> l \<in> lines_in s"
proof -
  let ?rs = "normalizedRanges s" and ?P = "\<lambda>r. lr_startLineNumber r \<le> l \<and> l < lr_endLineNumberExclusive r"
  have mono: "monotonous (\<lambda>r. lr_startLineNumber r \<le> l) ?rs"
    by (rule normalized_monotonous_starts [OF assms])
  have "(\<exists>r \<in> set ?rs. ?P r) \<longleftrightarrow>
    (case findLastMonotonous ?rs (\<lambda>r. lr_startLineNumber r \<le> l) of None \<Rightarrow> False | Some r \<Rightarrow> ?P r)"
    by (rule takeWhile_last_owner [OF assms mono]) auto
  moreover have "lr_startLineNumber r \<le> l"
    if "findLastMonotonous ?rs (\<lambda>r. lr_startLineNumber r \<le> l) = Some r" for r
    using that takeWhile_last [of "\<lambda>r. lr_startLineNumber r \<le> l" ?rs]
    by (auto simp: findLastMonotonous_eq [OF mono] split: if_splits)
  ultimately show ?thesis
    by (auto simp: LineRangeSet_contains_def lines_in_def ivl_union_iff split: option.splits)
qed

lemma LineRangeSet_intersects_iff:
  assumes "line_set_ok s" and "line_range_nonempty rng"
  shows "LineRangeSet_intersects s rng \<longleftrightarrow> lines_in s \<inter> lines rng \<noteq> {}"
proof -
  let ?rs = "normalizedRanges s"
  let ?p = "\<lambda>r. lr_startLineNumber r < lr_endLineNumberExclusive rng"
  let ?P = "\<lambda>r. ?p r \<and> lr_startLineNumber rng < lr_endLineNumberExclusive r"
  have norm: "lines_normalized ?rs" and ne: "\<forall>r \<in> set ?rs. line_range_nonempty r"
    using assms(1) by (simp_all add: line_set_ok_def)
  have mono: "monotonous ?p ?rs" by (rule normalized_monotonous_starts_less [OF norm])
  have hit: "?p r" if "findLastMonotonous ?rs ?p = Some r" for r
    using that takeWhile_last [of ?p ?rs]
    by (auto simp: findLastMonotonous_eq [OF mono] split: if_splits)
  have share: "lines r \<inter> lines rng \<noteq> {} \<longleftrightarrow> ?P r" if "r \<in> set ?rs" for r
  proof
    show "lines r \<inter> lines rng \<noteq> {} \<Longrightarrow> ?P r" by auto
    assume "?P r"
    then have "max (lr_startLineNumber r) (lr_startLineNumber rng) \<in> lines r \<inter> lines rng"
      using ne that assms(2) by auto
    then show "lines r \<inter> lines rng \<noteq> {}" by blast
  qed
  have "lines_in s \<inter> lines rng \<noteq> {} \<longleftrightarrow> (\<exists>r \<in> set ?rs. lines r \<inter> lines rng \<noteq> {})"
    unfolding lines_in_def ivl_union_def by blast
  also have "\<dots> \<longleftrightarrow> (\<exists>r \<in> set ?rs. ?P r)" using share by blast
  also have "\<dots> \<longleftrightarrow> LineRangeSet_intersects s rng"
  proof (cases "findLastMonotonous ?rs ?p")
    case None
    then have "takeWhile ?p ?rs = []" by (auto simp: findLastMonotonous_eq [OF mono] split: if_splits)
    then have "\<forall>r \<in> set ?rs. \<not> ?p r" using monotonous_in_takeWhile [OF mono] by fastforce
    with None show ?thesis by (auto simp: LineRangeSet_intersects_def)
  next
    case (Some l)
    then have l: "l \<in> set ?rs" "?p l" "l = last (takeWhile ?p ?rs)"
      using takeWhile_last [of ?p ?rs] by (auto simp: findLastMonotonous_eq [OF mono] split: if_splits)
    have "lr_endLineNumberExclusive r \<le> lr_endLineNumberExclusive l" if "r \<in> set ?rs" "?p r" for r
      using monotonous_in_takeWhile [OF mono that] norm l(3) normalized_le_last
      by (metis normalized_append takeWhile_dropWhile_id)
    with l Some show ?thesis by (force simp: LineRangeSet_intersects_def)
  qed
  finally show ?thesis by blast
qed

section \<open>Union\<close>

text \<open>The ranges the loop has already fixed, with the current one last.\<close>

abbreviation with_current :: "line_range option \<Rightarrow> line_range list \<Rightarrow> line_range list" where
  "with_current cur res \<equiv> (case cur of None \<Rightarrow> res | Some c \<Rightarrow> res @ [c])"

definition union_state :: "line_range option \<Rightarrow> line_range list \<Rightarrow> bool" where
  "union_state cur res \<longleftrightarrow> (cur = None \<longrightarrow> res = []) \<and> lines_normalized (with_current cur res)
     \<and> (\<forall>r \<in> set (with_current cur res). line_range_nonempty r)"

lemma getUnion_step_correct:
  assumes st: "union_state cur res" and n: "line_range_nonempty n"
    and le: "\<And>c. cur = Some c \<Longrightarrow> lr_startLineNumber c \<le> lr_startLineNumber n"
  shows "\<exists>c res'. getUnion_step cur n res = Inr (Some c, res') \<and> union_state (Some c) res'
    \<and> lr_startLineNumber c \<le> lr_startLineNumber n
    \<and> lines_of (res' @ [c]) = lines_of (with_current cur res) \<union> lines n"
proof (cases cur)
  case None
  with st n show ?thesis by (auto simp: union_state_def normalized_Cons)
next
  case (Some c)
  with le have c: "lr_startLineNumber c \<le> lr_startLineNumber n" by simp
  show ?thesis
  proof (cases "lr_endLineNumberExclusive c \<ge> lr_startLineNumber n")
    case True
    with Some st n c show ?thesis
      by (auto simp: union_state_def normalized_append normalized_Cons LineRange_new_ok)
  next
    case False
    with Some st n c show ?thesis
      by (force simp: union_state_def normalized_append normalized_Cons)
  qed
qed

text \<open>The loop takes the ranges of both arrays in the order of their starts.\<close>

fun union_order :: "line_range list \<Rightarrow> line_range list \<Rightarrow> line_range list" where
  "union_order [] ys = ys"
| "union_order xs [] = xs"
| "union_order (x # xs) (y # ys) =
     (if lr_startLineNumber x < lr_startLineNumber y then x # union_order xs (y # ys)
      else y # union_order (x # xs) ys)"

fun step_all ::
  "line_range list \<Rightarrow> line_range option \<Rightarrow> line_range list \<Rightarrow> (line_range option \<times> line_range list) result" where
  "step_all [] cur res = Inr (cur, res)"
| "step_all (n # ns) cur res = rbind (getUnion_step cur n res) (\<lambda>(c, r). step_all ns c r)"

lemma union_order_Nil [simp]: "union_order xs [] = xs"
  by (cases xs) simp_all

lemma getUnion_loop_eq: "getUnion_loop xs ys cur res = step_all (union_order xs ys) cur res"
  by (induction xs ys cur res rule: getUnion_loop.induct)
     (auto simp: rbind_def split: sum.splits prod.splits)

lemma set_union_order [simp]: "set (union_order xs ys) = set xs \<union> set ys"
  by (induction xs ys rule: union_order.induct) auto

lemma normalized_starts_sorted: "lines_normalized rs \<Longrightarrow> sorted (map lr_startLineNumber rs)"
  by (induction rs) (force simp: normalized_Cons)+

lemma sorted_union_order:
  "sorted (map lr_startLineNumber xs) \<Longrightarrow> sorted (map lr_startLineNumber ys) \<Longrightarrow>
   sorted (map lr_startLineNumber (union_order xs ys))"
  by (induction xs ys rule: union_order.induct) auto

lemma step_all_correct:
  assumes "sorted (map lr_startLineNumber ns)" and "\<forall>r \<in> set ns. line_range_nonempty r"
    and "union_state cur res"
    and "\<And>c r. cur = Some c \<Longrightarrow> r \<in> set ns \<Longrightarrow> lr_startLineNumber c \<le> lr_startLineNumber r"
  shows "\<exists>cur' res'. step_all ns cur res = Inr (cur', res') \<and> union_state cur' res'
    \<and> lines_of (with_current cur' res') = lines_of (with_current cur res) \<union> lines_of ns"
  using assms
proof (induction ns arbitrary: cur res)
  case Nil
  then show ?case by simp
next
  case (Cons n ns)
  obtain c res' where step: "getUnion_step cur n res = Inr (Some c, res')"
      "union_state (Some c) res'" "lr_startLineNumber c \<le> lr_startLineNumber n"
      "lines_of (res' @ [c]) = lines_of (with_current cur res) \<union> lines n"
    using getUnion_step_correct [of cur res n] Cons.prems by auto
  have le: "lr_startLineNumber c \<le> lr_startLineNumber r" if "r \<in> set ns" for r
    using step(3) Cons.prems(1) that by force
  obtain cur' res'' where rest: "step_all ns (Some c) res' = Inr (cur', res'')" "union_state cur' res''"
      "lines_of (with_current cur' res'') = lines_of (res' @ [c]) \<union> lines_of ns"
    using Cons.IH [OF _ _ step(2)] Cons.prems(1,2) le by auto
  have "lines_of (with_current cur' res'') = lines_of (with_current cur res) \<union> lines_of (n # ns)"
    unfolding rest(3) step(4) by (simp add: Un_assoc)
  with step(1) rest(1,2) show ?case by simp
qed

lemma getUnion_loop_correct:
  assumes "lines_normalized xs" and "lines_normalized ys"
    and "\<forall>r \<in> set xs \<union> set ys. line_range_nonempty r"
  shows "\<exists>cur res. getUnion_loop xs ys None [] = Inr (cur, res) \<and> union_state cur res
    \<and> lines_of (with_current cur res) = lines_of xs \<union> lines_of ys"
proof -
  have "lines_of (union_order xs ys) = lines_of xs \<union> lines_of ys"
    by (auto simp: ivl_union_def)
  moreover have "sorted (map lr_startLineNumber (union_order xs ys))"
    using assms(1,2) by (intro sorted_union_order normalized_starts_sorted)
  ultimately show ?thesis
    using step_all_correct [of "union_order xs ys" None "[]"] assms(3)
    by (simp add: getUnion_loop_eq union_state_def)
qed

lemma LineRangeSet_getUnion_correct:
  assumes "line_set_ok s" and "line_set_ok t"
  shows "\<exists>u. LineRangeSet_getUnion s t = Inr u \<and> line_set_ok u \<and> lines_in u = lines_in s \<union> lines_in t"
proof (cases "normalizedRanges s = [] \<or> normalizedRanges t = []")
  case True
  with assms show ?thesis by (auto simp: LineRangeSet_getUnion_def lines_in_def)
next
  case False
  obtain cur res where "getUnion_loop (normalizedRanges s) (normalizedRanges t) None [] = Inr (cur, res)"
      "union_state cur res"
      "lines_of (with_current cur res) = lines_of (normalizedRanges s) \<union> lines_of (normalizedRanges t)"
    using getUnion_loop_correct [of "normalizedRanges s" "normalizedRanges t"] assms
    by (auto simp: line_set_ok_def)
  with False show ?thesis
    by (simp add: LineRangeSet_getUnion_def line_set_ok_def lines_in_def union_state_def)
qed

section \<open>Subtraction\<close>

text \<open>A list of ranges that may be the content of a \<open>LineRangeSet\<close>.\<close>

abbreviation ranges_ok :: "line_range list \<Rightarrow> bool" where
  "ranges_ok rs \<equiv> lines_normalized rs \<and> (\<forall>r \<in> set rs. line_range_nonempty r)"

lemma ranges_ok_snoc:
  "ranges_ok res \<Longrightarrow> a < b \<Longrightarrow> \<forall>x \<in> set res. lr_endLineNumberExclusive x < a \<Longrightarrow>
   ranges_ok (res @ [\<lparr>lr_startLineNumber = a, lr_endLineNumberExclusive = b\<rparr>])"
  by (auto simp: normalized_append normalized_Cons)

lemma subtractFrom_loop_correct:
  assumes "ranges_ok rs" and "ranges_ok res" and "\<forall>x \<in> set res. lr_endLineNumberExclusive x < s"
    and "\<forall>r \<in> set rs. s \<le> lr_endLineNumberExclusive r"
  shows "\<exists>res'. subtractFrom_loop rs s res
            = Inr (if rs = [] then s else lr_endLineNumberExclusive (last rs), res')
    \<and> ranges_ok res'
    \<and> (\<forall>x \<in> set res'. lr_endLineNumberExclusive x
          < (if rs = [] then s else lr_endLineNumberExclusive (last rs)))
    \<and> lines_of res' = lines_of res
        \<union> ({s ..< (if rs = [] then s else lr_endLineNumberExclusive (last rs))} - lines_of rs)"
  using assms
proof (induction rs arbitrary: s res)
  case Nil
  then show ?case by simp
next
  case (Cons r rs)
  let ?a = "lr_startLineNumber r" and ?b = "lr_endLineNumberExclusive r"
  let ?gap = "\<lparr>lr_startLineNumber = s, lr_endLineNumberExclusive = ?a\<rparr>"
  define res1 where "res1 = (if ?a > s then res @ [?gap] else res)"
  have r: "?a < ?b" "s \<le> ?b" and rs: "ranges_ok rs"
    and after: "\<forall>x \<in> set rs. ?b < lr_startLineNumber x"
    using Cons.prems by (auto simp: normalized_Cons)
  have step: "subtractFrom_loop (r # rs) s res = subtractFrom_loop rs ?b res1"
    by (simp add: res1_def LineRange_new_ok)
  have "ranges_ok res1"
    using Cons.prems(2,3) ranges_ok_snoc [of res s ?a] by (simp add: res1_def)
  moreover have "\<forall>x \<in> set res1. lr_endLineNumberExclusive x < ?b"
    using Cons.prems(3) r unfolding res1_def by (auto intro: less_le_trans)
  moreover have "\<forall>x \<in> set rs. ?b \<le> lr_endLineNumberExclusive x"
    using after rs by force
  ultimately obtain res' where res': "subtractFrom_loop rs ?b res1
        = Inr (if rs = [] then ?b else lr_endLineNumberExclusive (last rs), res')" "ranges_ok res'"
      "\<forall>x \<in> set res'. lr_endLineNumberExclusive x < (if rs = [] then ?b else lr_endLineNumberExclusive (last rs))"
      "lines_of res' = lines_of res1
         \<union> ({?b ..< (if rs = [] then ?b else lr_endLineNumberExclusive (last rs))} - lines_of rs)"
    using Cons.IH [OF rs] by blast
  define e where "e = (if rs = [] then ?b else lr_endLineNumberExclusive (last rs))"
  have "?b \<le> e"
  proof (cases "rs = []")
    case False
    then have "last rs \<in> set rs" by simp
    with after rs have "?b < lr_startLineNumber (last rs)" "line_range_nonempty (last rs)" by blast+
    with False show ?thesis by (simp add: e_def)
  qed (simp add: e_def)
  moreover have "lines_of rs \<inter> {s ..< ?b} = {}"
    using after by (force simp: ivl_union_iff)
  ultimately have "lines_of res1 \<union> ({?b ..< e} - lines_of rs)
      = lines_of res \<union> ({s ..< e} - lines_of (r # rs))"
    using r by (auto simp: res1_def)
  with res' step show ?case by (auto simp: e_def split: if_splits)
qed

lemma LineRangeSet_subtractFrom_correct:
  assumes "line_set_ok s" and "line_range_nonempty rng"
  shows "\<exists>u. LineRangeSet_subtractFrom s rng = Inr u \<and> line_set_ok u
            \<and> lines_in u = lines rng - lines_in s"
proof -
  define rs where "rs = normalizedRanges s"
  define i where "i = joinRangeStartIdx rs rng"
  define j where "j = joinRangeEndIdxExclusive rs rng"
  define ms where "ms = drop i (take j rs)"
  have norm: "lines_normalized rs" and ne: "\<forall>r \<in> set rs. line_range_nonempty r"
    using assms(1) by (simp_all add: line_set_ok_def rs_def)
  have at: "touching_at lr_startLineNumber lr_endLineNumberExclusive
      (lr_startLineNumber rng) (lr_endLineNumberExclusive rng) rs i j"
    unfolding i_def j_def using assms(2) by (intro joinRange_touching [OF norm]) simp
  have split: "rs = take i rs @ ms @ drop j rs"
    unfolding ms_def using touching_at_le [OF at] by (intro touching_at_split) simp
  have ms: "ranges_ok ms"
  proof
    from norm have "lines_normalized (take i rs @ ms @ drop j rs)"
      by (simp only: split [symmetric])
    then show "lines_normalized ms" by (simp add: normalized_append)
    show "\<forall>r \<in> set ms. line_range_nonempty r"
      using ne by (auto simp: ms_def dest: in_set_dropD in_set_takeD)
  qed
  have touch: "\<forall>m \<in> set ms. lr_startLineNumber m \<le> lr_endLineNumberExclusive rng
      \<and> lr_startLineNumber rng \<le> lr_endLineNumberExclusive m"
    using at by (simp add: touching_at_def ms_def)
  have "lines_of rs = lines_of (take i rs) \<union> lines_of ms \<union> lines_of (drop j rs)"
    by (subst split) (simp add: Un_assoc)
  then have minus: "lines rng - lines_of rs = lines rng - lines_of ms"
    using at by (force simp: touching_at_def ivl_union_iff)
  show ?thesis
  proof (cases "ms = []")
    case True
    then have "i = j" using touching_at_le [OF at] by (simp add: ms_def)
    with True assms(2) minus show ?thesis
      by (simp add: LineRangeSet_subtractFrom_def rs_def [symmetric] i_def [symmetric] j_def [symmetric]
          line_set_ok_def lines_in_def normalized_Cons)
  next
    case False
    then have "i \<noteq> j" by (auto simp: ms_def)
    define e where "e = lr_endLineNumberExclusive (last ms)"
    obtain res where res: "subtractFrom_loop ms (lr_startLineNumber rng) [] = Inr (e, res)"
        "ranges_ok res" "\<forall>x \<in> set res. lr_endLineNumberExclusive x < e"
        "lines_of res = {lr_startLineNumber rng ..< e} - lines_of ms"
      using subtractFrom_loop_correct [OF ms, of "[]" "lr_startLineNumber rng"] touch False
      by (auto simp: e_def)
    define out where "out = (if e < lr_endLineNumberExclusive rng
      then res @ [\<lparr>lr_startLineNumber = e, lr_endLineNumberExclusive = lr_endLineNumberExclusive rng\<rparr>]
      else res)"
    have "LineRangeSet_subtractFrom s rng = Inr (LineRangeSet_new out)"
      using \<open>i \<noteq> j\<close> res(1)
      by (simp add: LineRangeSet_subtractFrom_def rs_def [symmetric] i_def [symmetric] j_def [symmetric]
          ms_def [symmetric] out_def LineRange_new_ok)
    moreover have "ranges_ok out"
      using res(2,3) ranges_ok_snoc [of res e "lr_endLineNumberExclusive rng"] by (simp add: out_def)
    moreover have "lines_of out = lines rng - lines_of ms"
    proof -
      have last: "last ms \<in> set ms" using False by simp
      have le_e: "\<forall>m \<in> set ms. lr_endLineNumberExclusive m \<le> e"
        using normalized_le_last [of lr_startLineNumber lr_endLineNumberExclusive ms] ms by (simp add: e_def)
      have "{lr_endLineNumberExclusive rng ..< e} \<subseteq> lines_of ms"
      proof
        fix x assume "x \<in> {lr_endLineNumberExclusive rng ..< e}"
        moreover have "lr_startLineNumber (last ms) \<le> lr_endLineNumberExclusive rng"
          using last touch by blast
        ultimately have "x \<in> lines (last ms)" by (simp add: e_def)
        with last show "x \<in> lines_of ms" unfolding ivl_union_def by blast
      qed
      moreover have "lr_startLineNumber rng \<le> e" using last touch by (simp add: e_def)
      moreover have "lines_of ms \<inter> {e ..< lr_endLineNumberExclusive rng} = {}"
        using le_e by (force simp: ivl_union_iff)
      moreover have "x < lr_endLineNumberExclusive rng"
        if "x < e" "x \<notin> lines_of ms" for x
        using that calculation(1) by (meson atLeastLessThan_iff not_le subsetD)
      ultimately show ?thesis by (auto simp: out_def res(4))
    qed
    ultimately show ?thesis
      using minus by (simp add: line_set_ok_def lines_in_def rs_def)
  qed
qed

section \<open>Intersection and translation\<close>

lemma getIntersection_loop_correct:
  assumes "ranges_ok xs" and "ranges_ok ys" and "ranges_ok res"
    and "\<forall>x \<in> set res. \<forall>a \<in> set xs. \<forall>b \<in> set ys.
           lr_endLineNumberExclusive x < max (lr_startLineNumber a) (lr_startLineNumber b)"
  shows "\<exists>res'. getIntersection_loop xs ys res = Inr res' \<and> ranges_ok res'
            \<and> lines_of res' = lines_of res \<union> (lines_of xs \<inter> lines_of ys)"
  using assms
proof (induction xs ys res rule: getIntersection_loop.induct)
  case (1 r1 rs1 r2 rs2 res)
  let ?a = "max (lr_startLineNumber r1) (lr_startLineNumber r2)"
  let ?b = "min (lr_endLineNumberExclusive r1) (lr_endLineNumberExclusive r2)"
  let ?i = "\<lparr>lr_startLineNumber = ?a, lr_endLineNumberExclusive = ?b\<rparr>"
  define o' where "o' = (if ?a \<le> ?b then Some ?i else None)"
  define res1 where "res1 = (case o' of None \<Rightarrow> res
      | Some x \<Rightarrow> if LineRange_isEmpty x then res else res @ [x])"
  have res1: "res1 = (if ?a < ?b then res @ [?i] else res)"
    by (auto simp: res1_def o'_def LineRange_isEmpty_def)
  have step: "getIntersection_loop (r1 # rs1) (r2 # rs2) res =
      (if lr_endLineNumberExclusive r1 < lr_endLineNumberExclusive r2
       then getIntersection_loop rs1 (r2 # rs2) res1 else getIntersection_loop (r1 # rs1) rs2 res1)"
    by (simp only: getIntersection_loop.simps LineRange_intersect_eq Let_def rbind_simps
        o'_def [symmetric] res1_def [symmetric])
  have ok1: "ranges_ok res1"
    using "1.prems"(3,4) ranges_ok_snoc [of res ?a ?b] by (simp add: res1)
  have set1: "lines_of res1 = lines_of res \<union> (lines r1 \<inter> lines r2)"
    by (auto simp: res1)
  have tails: "ranges_ok rs1" "ranges_ok rs2"
    and gap1: "\<forall>a \<in> set rs1. lr_endLineNumberExclusive r1 < lr_startLineNumber a"
    and gap2: "\<forall>b \<in> set rs2. lr_endLineNumberExclusive r2 < lr_startLineNumber b"
    using "1.prems"(1,2) by (simp_all add: normalized_Cons)
  have end1: "lr_endLineNumberExclusive x < max (lr_startLineNumber a) (lr_startLineNumber b)"
    if "x \<in> set res1" "a \<in> set (r1 # rs1)" "b \<in> set (r2 # rs2)"
      "?b < max (lr_startLineNumber a) (lr_startLineNumber b)" for x a b
    using that "1.prems"(4) unfolding res1 by (auto split: if_splits)
  show ?case
  proof (cases "lr_endLineNumberExclusive r1 < lr_endLineNumberExclusive r2")
    case True
    have "\<forall>x \<in> set res1. \<forall>a \<in> set rs1. \<forall>b \<in> set (r2 # rs2).
        lr_endLineNumberExclusive x < max (lr_startLineNumber a) (lr_startLineNumber b)"
      using end1 gap1 True by (meson list.set_intros(2) less_max_iff_disj min_less_iff_disj)
    then obtain res' where res': "getIntersection_loop rs1 (r2 # rs2) res1 = Inr res'"
        "ranges_ok res'" "lines_of res' = lines_of res1 \<union> (lines_of rs1 \<inter> lines_of (r2 # rs2))"
      using "1.IH"(1) [OF res1_def True tails(1) "1.prems"(2) ok1] by blast
    have "lines r1 \<inter> lines_of rs2 = {}"
      using True gap2 by (force simp: ivl_union_iff)
    then have "lines_of res' = lines_of res \<union> (lines_of (r1 # rs1) \<inter> lines_of (r2 # rs2))"
      unfolding res'(3) set1 ivl_union_simps by blast
    with True step res' show ?thesis by simp
  next
    case False
    have "\<forall>x \<in> set res1. \<forall>a \<in> set (r1 # rs1). \<forall>b \<in> set rs2.
        lr_endLineNumberExclusive x < max (lr_startLineNumber a) (lr_startLineNumber b)"
      using end1 gap2 False by (meson list.set_intros(2) less_max_iff_disj min_less_iff_disj)
    then obtain res' where res': "getIntersection_loop (r1 # rs1) rs2 res1 = Inr res'"
        "ranges_ok res'" "lines_of res' = lines_of res1 \<union> (lines_of (r1 # rs1) \<inter> lines_of rs2)"
      using "1.IH"(2) [OF res1_def False "1.prems"(1) tails(2) ok1] by blast
    have "lines r2 \<inter> lines_of rs1 = {}"
      using False gap1 by (force simp: ivl_union_iff)
    then have "lines_of res' = lines_of res \<union> (lines_of (r1 # rs1) \<inter> lines_of (r2 # rs2))"
      unfolding res'(3) set1 ivl_union_simps by blast
    with False step res' show ?thesis by simp
  qed
qed simp_all

lemma rmap_delta:
  assumes "\<forall>r \<in> set rs. line_range_ok r"
  shows "rmap (\<lambda>r. LineRange_delta r v) rs = Inr (map (\<lambda>r.
    \<lparr>lr_startLineNumber = lr_startLineNumber r + v, lr_endLineNumberExclusive = lr_endLineNumberExclusive r + v\<rparr>) rs)"
  using assms by (induction rs) (simp_all add: LineRange_delta_def LineRange_new_ok)

lemma LineRangeSet_getWithDelta_correct:
  assumes "line_set_ok s"
  shows "\<exists>u. LineRangeSet_getWithDelta s v = Inr u \<and> line_set_ok u \<and> lines_in u = (\<lambda>l. l + v) ` lines_in s"
proof -
  let ?f = "\<lambda>r. \<lparr>lr_startLineNumber = lr_startLineNumber r + v,
                 lr_endLineNumberExclusive = lr_endLineNumberExclusive r + v\<rparr>"
  let ?rs = "normalizedRanges s"
  have "ranges_ok (map ?f ?rs)"
    using assms by (auto simp: line_set_ok_def normalized_def sorted_wrt_map)
  moreover have "lines_of (map ?f ?rs) = (\<lambda>l. l + v) ` lines_of ?rs"
  proof -
    have "lines (?f r) = (\<lambda>l. l + v) ` lines r" for r by simp
    then show ?thesis by (simp only: ivl_union_def set_map image_UN image_image UN_simps)
  qed
  moreover have "\<forall>r \<in> set ?rs. line_range_ok r"
    using assms by (simp add: line_set_ok_def normalized_def)
  ultimately show ?thesis
    using rmap_delta [of ?rs v]
    by (auto simp: LineRangeSet_getWithDelta_def line_set_ok_def lines_in_def)
qed

section \<open>Properties\<close>

text \<open>
  C28. \<open>LineRangeSet\<close> implements sets of lines: on normalised sets, union, intersection,
  subtraction from a non-empty range and translation never throw, return normalised sets, and
  compute the corresponding operation on the sets of lines.
\<close>

theorem LineRangeSet_algebra:
  assumes "line_set_ok s" and "line_set_ok t" and "line_range_nonempty r"
  shows "(\<exists>u. LineRangeSet_getUnion s t = Inr u \<and> line_set_ok u \<and> lines_in u = lines_in s \<union> lines_in t)
    \<and> (\<exists>u. LineRangeSet_getIntersection s t = Inr u \<and> line_set_ok u \<and> lines_in u = lines_in s \<inter> lines_in t)
    \<and> (\<exists>u. LineRangeSet_subtractFrom s r = Inr u \<and> line_set_ok u \<and> lines_in u = lines r - lines_in s)
    \<and> (\<exists>u. LineRangeSet_getWithDelta s v = Inr u \<and> line_set_ok u \<and> lines_in u = (\<lambda>l. l + v) ` lines_in s)"
proof -
  obtain res where "getIntersection_loop (normalizedRanges s) (normalizedRanges t) [] = Inr res"
      "ranges_ok res" "lines_of res = lines_of (normalizedRanges s) \<inter> lines_of (normalizedRanges t)"
    using getIntersection_loop_correct [of "normalizedRanges s" "normalizedRanges t" "[]"] assms
    by (auto simp: line_set_ok_def)
  then have "\<exists>u. LineRangeSet_getIntersection s t = Inr u \<and> line_set_ok u
      \<and> lines_in u = lines_in s \<inter> lines_in t"
    by (simp add: LineRangeSet_getIntersection_def line_set_ok_def lines_in_def)
  with LineRangeSet_getUnion_correct [OF assms(1,2)] LineRangeSet_subtractFrom_correct [OF assms(1,3)]
    LineRangeSet_getWithDelta_correct [OF assms(1)]
  show ?thesis by blast
qed

theorem LineRangeSet_algebra_witness:
  "\<exists>u. LineRangeSet_subtractFrom (LineRangeSet_new [\<lparr>lr_startLineNumber = 3, lr_endLineNumberExclusive = 5\<rparr>])
         \<lparr>lr_startLineNumber = 1, lr_endLineNumberExclusive = 9\<rparr> = Inr u
     \<and> lines_in u = lines \<lparr>lr_startLineNumber = 1, lr_endLineNumberExclusive = 9\<rparr>
         - lines_in (LineRangeSet_new [\<lparr>lr_startLineNumber = 3, lr_endLineNumberExclusive = 5\<rparr>])"
proof -
  have "line_set_ok (LineRangeSet_new [\<lparr>lr_startLineNumber = 3, lr_endLineNumberExclusive = 5\<rparr>])"
    by (simp add: line_set_ok_def normalized_Cons)
  from LineRangeSet_algebra [OF this this,
      of "\<lparr>lr_startLineNumber = 1, lr_endLineNumberExclusive = 9\<rparr>" 0]
  show ?thesis by auto
qed

text \<open>
  The binary-search queries of a normalised \<open>LineRangeSet\<close> are exact: \<open>contains\<close> decides
  membership of a line, and \<open>intersects\<close> decides whether a non-empty range shares a line with
  the set.
\<close>

lemma LineRangeSet_queries:
  assumes "line_set_ok s" and "line_range_nonempty r"
  shows "(LineRangeSet_contains s l \<longleftrightarrow> l \<in> lines_in s)
    \<and> (LineRangeSet_intersects s r \<longleftrightarrow> lines_in s \<inter> lines r \<noteq> {})"
  using assms LineRangeSet_contains_iff [of s l] LineRangeSet_intersects_iff [of s r]
  by (simp add: line_set_ok_def)

text \<open>
  \<open>LineRange.subtract\<close> never throws on two line ranges and returns at most two ranges
  that hold exactly the lines of the first range outside the second.
\<close>

lemma LineRange_subtract_exact:
  assumes "line_range_ok a" and "line_range_ok b"
  shows "\<exists>rs. LineRange_subtract a (Some b) = Inr rs \<and> length rs \<le> 2
            \<and> (\<forall>r \<in> set rs. line_range_ok r) \<and> lines_of rs = lines a - lines b"
  using assms by (auto simp: LineRange_subtract_def LineRange_new_ok)

end
