(* ===== verification/TextLengths.thy ===== *)
theory TextLengths
  imports Ranges
begin

text \<open>
  Lengths of text as a line count and a column count:

    \<^item> \<open>src/patched-vscode/src/vs/editor/common/core/textLength.ts\<close> (class \<open>TextLength\<close>);
    \<^item> \<open>src/patched-vscode/src/vs/editor/common/core/eolCounter.ts\<close> (\<open>countEOL\<close>);
    \<^item> \<open>src/patched-vscode/src/vs/editor/common/model/bracketPairsTextModelPart/bracketPairsTree/length.ts\<close>,
      where a length is packed into one number, lines in the upper and columns in the
      lower 26 bits, and \<open>splitLines\<close> of \<open>base/common/strings.ts\<close> which it calls.

  A text is the list of its UTF-16 code units (\<open>nat\<close>). The packed arithmetic is shown to
  refine the arithmetic of \<open>TextLength\<close>, and the three ways the code measures a text are
  compared with each other. The packed numbers are doubles in the code; all their sums
  and products stay below \<open>2 ^ 53\<close>, where doubles are exact, as long as line counts stay
  below \<open>2 ^ 26\<close>, so they are integers here.
\<close>

section \<open>Definitions\<close>

type_synonym utf16 = "nat list"

subsection \<open>TextLength\<close>

record textLength =
  lineCount :: int
  columnCount :: int

definition TextLength_new :: "int \<Rightarrow> int \<Rightarrow> textLength" where
  "TextLength_new l c = \<lparr>lineCount = l, columnCount = c\<rparr>"

definition TextLength_zero :: textLength where
  "TextLength_zero = TextLength_new 0 0"

definition TextLength_isLessThan :: "textLength \<Rightarrow> textLength \<Rightarrow> bool" where
  "TextLength_isLessThan this other =
     (if lineCount this \<noteq> lineCount other then lineCount this < lineCount other
      else columnCount this < columnCount other)"

definition TextLength_lengthDiffNonNegative :: "textLength \<Rightarrow> textLength \<Rightarrow> textLength" where
  "TextLength_lengthDiffNonNegative start endLength =
     (if TextLength_isLessThan endLength start then TextLength_zero
      else if lineCount start = lineCount endLength
      then TextLength_new 0 (columnCount endLength - columnCount start)
      else TextLength_new (lineCount endLength - lineCount start) (columnCount endLength))"

definition TextLength_betweenPositions :: "position \<Rightarrow> position \<Rightarrow> textLength" where
  "TextLength_betweenPositions position1 position2 =
     (if lineNumber position1 = lineNumber position2
      then TextLength_new 0 (column position2 - column position1)
      else TextLength_new (lineNumber position2 - lineNumber position1) (column position2 - 1))"

definition TextLength_ofRange :: "range \<Rightarrow> textLength" where
  "TextLength_ofRange r =
     TextLength_betweenPositions (Range_getStartPosition r) (Range_getEndPosition r)"

text \<open>
  \<open>for (const c of text)\<close> visits code points: a high surrogate followed by a low
  surrogate is one iteration.
\<close>

definition is_high_surrogate :: "nat \<Rightarrow> bool" where
  "is_high_surrogate u \<longleftrightarrow> 0xD800 \<le> u \<and> u \<le> 0xDBFF"

definition is_low_surrogate :: "nat \<Rightarrow> bool" where
  "is_low_surrogate u \<longleftrightarrow> 0xDC00 \<le> u \<and> u \<le> 0xDFFF"

fun code_points :: "utf16 \<Rightarrow> utf16 list" where
  "code_points [] = []"
| "code_points [u] = [[u]]"
| "code_points (u # v # us) =
     (if is_high_surrogate u \<and> is_low_surrogate v then [u, v] # code_points us
      else [u] # code_points (v # us))"

definition TextLength_ofText_step :: "int \<times> int \<Rightarrow> utf16 \<Rightarrow> int \<times> int" where
  "TextLength_ofText_step lc c =
     (case lc of (line, col) \<Rightarrow> if c = [10] then (line + 1, 0) else (line, col + 1))"

definition TextLength_ofText :: "utf16 \<Rightarrow> textLength" where
  "TextLength_ofText text =
     (case foldl TextLength_ofText_step (0, 0) (code_points text) of
        (line, col) \<Rightarrow> TextLength_new line col)"

definition TextLength_isZero :: "textLength \<Rightarrow> bool" where
  "TextLength_isZero this \<longleftrightarrow> lineCount this = 0 \<and> columnCount this = 0"

definition TextLength_isGreaterThan :: "textLength \<Rightarrow> textLength \<Rightarrow> bool" where
  "TextLength_isGreaterThan this other =
     (if lineCount this \<noteq> lineCount other then lineCount this > lineCount other
      else columnCount this > columnCount other)"

definition TextLength_isGreaterThanOrEqualTo :: "textLength \<Rightarrow> textLength \<Rightarrow> bool" where
  "TextLength_isGreaterThanOrEqualTo this other =
     (if lineCount this \<noteq> lineCount other then lineCount this > lineCount other
      else columnCount this \<ge> columnCount other)"

definition TextLength_equals :: "textLength \<Rightarrow> textLength \<Rightarrow> bool" where
  "TextLength_equals this other \<longleftrightarrow>
     lineCount this = lineCount other \<and> columnCount this = columnCount other"

definition TextLength_compare :: "textLength \<Rightarrow> textLength \<Rightarrow> int" where
  "TextLength_compare this other =
     (if lineCount this \<noteq> lineCount other then lineCount this - lineCount other
      else columnCount this - columnCount other)"

definition TextLength_add :: "textLength \<Rightarrow> textLength \<Rightarrow> textLength" where
  "TextLength_add this other =
     (if lineCount other = 0
      then TextLength_new (lineCount this) (columnCount this + columnCount other)
      else TextLength_new (lineCount this + lineCount other) (columnCount other))"

definition TextLength_createRange :: "textLength \<Rightarrow> position \<Rightarrow> range" where
  "TextLength_createRange this startPosition =
     (if lineCount this = 0
      then Range_new (lineNumber startPosition) (column startPosition)
             (lineNumber startPosition) (column startPosition + columnCount this)
      else Range_new (lineNumber startPosition) (column startPosition)
             (lineNumber startPosition + lineCount this) (columnCount this + 1))"

definition TextLength_toRange :: "textLength \<Rightarrow> range" where
  "TextLength_toRange this = Range_new 1 1 (lineCount this + 1) (columnCount this + 1)"

definition TextLength_addToPosition :: "textLength \<Rightarrow> position \<Rightarrow> position" where
  "TextLength_addToPosition this pos =
     (if lineCount this = 0 then Position_new (lineNumber pos) (column pos + columnCount this)
      else Position_new (lineNumber pos + lineCount this) (columnCount this + 1))"

definition TextLength_toString :: "textLength \<Rightarrow> string" where
  "TextLength_toString this = show_int (lineCount this) @ '','' @ show_int (columnCount this)"

subsection \<open>countEOL\<close>

text \<open>
  The values of \<open>StringEOL\<close> are the bit masks 0 (Unknown), 1 (LF), 2 (CRLF), 3 (Invalid);
  \<open>eol |= m\<close> is \<open>or eol m\<close>.
\<close>

definition StringEOL_Unknown :: nat where "StringEOL_Unknown = 0"
definition StringEOL_LF :: nat where "StringEOL_LF = 1"
definition StringEOL_CRLF :: nat where "StringEOL_CRLF = 2"
definition StringEOL_Invalid :: nat where "StringEOL_Invalid = 3"

record eol_state =
  eolCount :: nat
  firstLineLength :: nat
  lastLineStart :: nat
  eol :: nat

text \<open>One turn of the loop at \<open>i\<close>: the new state and the index of the next turn.\<close>

definition countEOL_step :: "utf16 \<Rightarrow> nat \<Rightarrow> eol_state \<Rightarrow> eol_state \<times> nat" where
  "countEOL_step text i s =
     (let chr = text ! i in
      if chr = 13 then
        let s = (if eolCount s = 0 then s\<lparr>firstLineLength := i\<rparr> else s);
            s = s\<lparr>eolCount := eolCount s + 1\<rparr>;
            (s, i) = (if i + 1 < length text \<and> text ! (i + 1) = 10
                      then (s\<lparr>eol := or (eol s) StringEOL_CRLF\<rparr>, i + 1)
                      else (s\<lparr>eol := or (eol s) StringEOL_Invalid\<rparr>, i))
        in (s\<lparr>lastLineStart := i + 1\<rparr>, i + 1)
      else if chr = 10 then
        let s = s\<lparr>eol := or (eol s) StringEOL_LF\<rparr>;
            s = (if eolCount s = 0 then s\<lparr>firstLineLength := i\<rparr> else s);
            s = s\<lparr>eolCount := eolCount s + 1\<rparr>
        in (s\<lparr>lastLineStart := i + 1\<rparr>, i + 1)
      else (s, i + 1))"

lemma countEOL_step_next: "snd (countEOL_step text i s) = i + 1 \<or> snd (countEOL_step text i s) = i + 2"
  by (simp add: countEOL_step_def Let_def split: prod.splits)

function countEOL_loop :: "utf16 \<Rightarrow> nat \<Rightarrow> eol_state \<Rightarrow> eol_state" where
  "countEOL_loop text i s =
     (if i < length text
      then (let (s', i') = countEOL_step text i s in countEOL_loop text i' s')
      else s)"
  by pat_completeness auto
termination
  by (relation "measure (\<lambda>(text, i, s). length text - i)", simp)
    (metis (no_types, lifting) countEOL_step_next add_2_eq_Suc' diff_less_mono2 in_measure
      less_add_one less_SucI lessI prod.simps(2) snd_conv Suc_eq_plus1 case_prod_conv)

declare countEOL_loop.simps [simp del]

definition countEOL :: "utf16 \<Rightarrow> nat \<times> nat \<times> nat \<times> nat" where
  "countEOL text =
     (let s = countEOL_loop text 0
                \<lparr>eolCount = 0, firstLineLength = 0, lastLineStart = 0, eol = StringEOL_Unknown\<rparr>;
          s = (if eolCount s = 0 then s\<lparr>firstLineLength := length text\<rparr> else s)
      in (eolCount s, firstLineLength s, length text - lastLineStart s, eol s))"

subsection \<open>Packed lengths\<close>

text \<open>\<open>str.split(/\r\n|\r|\n/)\<close>.\<close>

fun splitLines :: "utf16 \<Rightarrow> utf16 list" where
  "splitLines [] = [[]]"
| "splitLines (c # cs) =
     (if c = 13 then [] # splitLines (if cs \<noteq> [] \<and> hd cs = 10 then tl cs else cs)
      else if c = 10 then [] # splitLines cs
      else (c # hd (splitLines cs)) # tl (splitLines cs))"

type_synonym length = int

definition factor :: int where
  "factor = 2 ^ 26"

definition lengthZero :: length where
  "lengthZero = 0"

definition lengthIsZero :: "length \<Rightarrow> bool" where
  "lengthIsZero l \<longleftrightarrow> l = 0"

definition toLength :: "int \<Rightarrow> int \<Rightarrow> length" where
  "toLength lines columns = lines * factor + columns"

definition lengthDiff :: "int \<Rightarrow> int \<Rightarrow> int \<Rightarrow> int \<Rightarrow> length" where
  "lengthDiff startLineCount startColumnCount endLineCount endColumnCount =
     (if startLineCount \<noteq> endLineCount
      then toLength (endLineCount - startLineCount) endColumnCount
      else toLength 0 (endColumnCount - startColumnCount))"

definition lengthToObj :: "length \<Rightarrow> textLength" where
  "lengthToObj l =
     (let lines = l div factor; columns = l - lines * factor
      in TextLength_new lines columns)"

definition lengthGetLineCount :: "length \<Rightarrow> int" where
  "lengthGetLineCount l = l div factor"

definition lengthGetColumnCountIfZeroLineCount :: "length \<Rightarrow> int" where
  "lengthGetColumnCountIfZeroLineCount l = l"

definition lengthAdd :: "length \<Rightarrow> length \<Rightarrow> length" where
  "lengthAdd l1 l2 = (let r = l1 + l2 in if l2 \<ge> factor then r - js_rem l1 factor else r)"

definition sumLengths :: "'a list \<Rightarrow> ('a \<Rightarrow> length) \<Rightarrow> length" where
  "sumLengths items lengthFn = foldl (\<lambda>a b. lengthAdd a (lengthFn b)) lengthZero items"

definition lengthEquals :: "length \<Rightarrow> length \<Rightarrow> bool" where
  "lengthEquals length1 length2 \<longleftrightarrow> length1 = length2"

definition lengthDiffNonNegative :: "length \<Rightarrow> length \<Rightarrow> length" where
  "lengthDiffNonNegative l1 l2 =
     (let diff = l2 - l1 in
      if diff \<le> 0 then lengthZero
      else
        let lineCount1 = l1 div factor; lineCount2 = l2 div factor;
            colCount2 = l2 - lineCount2 * factor
        in if lineCount1 = lineCount2
           then let colCount1 = l1 - lineCount1 * factor in toLength 0 (colCount2 - colCount1)
           else toLength (lineCount2 - lineCount1) colCount2)"

definition lengthLessThan :: "length \<Rightarrow> length \<Rightarrow> bool" where
  "lengthLessThan length1 length2 \<longleftrightarrow> length1 < length2"

definition lengthLessThanEqual :: "length \<Rightarrow> length \<Rightarrow> bool" where
  "lengthLessThanEqual length1 length2 \<longleftrightarrow> length1 \<le> length2"

definition lengthGreaterThanEqual :: "length \<Rightarrow> length \<Rightarrow> bool" where
  "lengthGreaterThanEqual length1 length2 \<longleftrightarrow> length1 \<ge> length2"

definition lengthToPosition :: "length \<Rightarrow> position" where
  "lengthToPosition l =
     (let lines = l div factor; colCount = l - lines * factor
      in Position_new (lines + 1) (colCount + 1))"

definition positionToLength :: "position \<Rightarrow> length" where
  "positionToLength p = toLength (lineNumber p - 1) (column p - 1)"

definition lengthsToRange :: "length \<Rightarrow> length \<Rightarrow> range" where
  "lengthsToRange l l2 =
     (let lineCount1 = l div factor; colCount = l - lineCount1 * factor;
          lineCount2 = l2 div factor; colCount2 = l2 - lineCount2 * factor
      in Range_new (lineCount1 + 1) (colCount + 1) (lineCount2 + 1) (colCount2 + 1))"

definition lengthOfRange :: "range \<Rightarrow> textLength" where
  "lengthOfRange r =
     (if startLineNumber r = endLineNumber r then TextLength_new 0 (endColumn r - startColumn r)
      else TextLength_new (endLineNumber r - startLineNumber r) (endColumn r - 1))"

definition lengthCompare :: "length \<Rightarrow> length \<Rightarrow> int" where
  "lengthCompare l1 l2 = l1 - l2"

definition lengthOfString :: "utf16 \<Rightarrow> length" where
  "lengthOfString str =
     (let lines = splitLines str
      in toLength (int (List.length lines) - 1) (int (List.length (last lines))))"

definition lengthOfStringObj :: "utf16 \<Rightarrow> textLength" where
  "lengthOfStringObj str =
     (let lines = splitLines str
      in TextLength_new (int (List.length lines) - 1) (int (List.length (last lines))))"

definition lengthHash :: "length \<Rightarrow> int" where
  "lengthHash l = l"

definition lengthMax :: "length \<Rightarrow> length \<Rightarrow> length" where
  "lengthMax length1 length2 = (if length1 > length2 then length1 else length2)"

section \<open>Text lengths and positions\<close>

lemma TextLength_new_sel [simp]:
  "lineCount (TextLength_new l c) = l" "columnCount (TextLength_new l c) = c"
  by (simp_all add: TextLength_new_def)

lemma textLength_eq_iff:
  "(a :: textLength) = b \<longleftrightarrow> lineCount a = lineCount b \<and> columnCount a = columnCount b"
  by (cases a, cases b) simp

lemma TextLength_equals_iff: "TextLength_equals a b \<longleftrightarrow> a = b"
  by (simp add: TextLength_equals_def textLength_eq_iff)

interpretation text_length_cmp: comparison TextLength_compare
  by unfold_locales (auto simp: TextLength_compare_def split: if_splits)

lemma TextLength_order:
  "TextLength_isLessThan a b \<longleftrightarrow> TextLength_compare a b < 0"
  "TextLength_isGreaterThan a b \<longleftrightarrow> TextLength_compare a b > 0"
  "TextLength_isGreaterThanOrEqualTo a b \<longleftrightarrow> TextLength_compare a b \<ge> 0"
  by (auto simp: TextLength_isLessThan_def TextLength_isGreaterThan_def
      TextLength_isGreaterThanOrEqualTo_def TextLength_compare_def)

text \<open>Lengths of actual text are non-negative.\<close>

definition textLength_ok :: "textLength \<Rightarrow> bool" where
  "textLength_ok l \<longleftrightarrow> 0 \<le> lineCount l \<and> 0 \<le> columnCount l"

lemma TextLength_add_zero [simp]: "TextLength_add TextLength_zero a = a" "TextLength_add a TextLength_zero = a"
  by (auto simp: TextLength_add_def TextLength_zero_def textLength_eq_iff)

lemma TextLength_add_assoc:
  "0 \<le> lineCount b \<Longrightarrow> 0 \<le> lineCount c \<Longrightarrow>
   TextLength_add (TextLength_add a b) c = TextLength_add a (TextLength_add b c)"
  by (auto simp: TextLength_add_def textLength_eq_iff)

lemma TextLength_addToPosition_add:
  "0 \<le> lineCount a \<Longrightarrow> 0 \<le> lineCount b \<Longrightarrow>
   TextLength_addToPosition (TextLength_add a b) p =
   TextLength_addToPosition b (TextLength_addToPosition a p)"
  by (auto simp: TextLength_add_def TextLength_addToPosition_def position_eq_iff)

lemma TextLength_addToPosition_between:
  "TextLength_addToPosition (TextLength_betweenPositions p q) p = q"
  by (auto simp: TextLength_addToPosition_def TextLength_betweenPositions_def position_eq_iff)

lemma TextLength_between_addToPosition:
  "0 \<le> lineCount a \<Longrightarrow> TextLength_betweenPositions p (TextLength_addToPosition a p) = a"
  by (auto simp: TextLength_addToPosition_def TextLength_betweenPositions_def textLength_eq_iff)

lemma TextLength_createRange_ends:
  assumes "textLength_ok a"
  shows "Range_getStartPosition (TextLength_createRange a p) = p"
    and "Range_getEndPosition (TextLength_createRange a p) = TextLength_addToPosition a p"
  using assms
  by (auto simp: TextLength_createRange_def TextLength_addToPosition_def Range_new_def
      textLength_ok_def range_ends position_eq_iff)

text \<open>
  Positions and text lengths: the length between two positions, added to the first,
  is the second; a non-negative length added to a position is recovered as the length
  between the two; adding lengths one after the other is adding their sum; and the range
  created from a length and a start has that length.
\<close>

lemma TextLength_position_roundtrip:
  "TextLength_addToPosition (TextLength_betweenPositions p q) p = q
   \<and> (textLength_ok a \<and> textLength_ok b \<longrightarrow>
        TextLength_betweenPositions p (TextLength_addToPosition a p) = a
      \<and> TextLength_addToPosition b (TextLength_addToPosition a p) =
          TextLength_addToPosition (TextLength_add a b) p
      \<and> TextLength_ofRange (TextLength_createRange a p) = a)"
  by (simp add: TextLength_addToPosition_between TextLength_between_addToPosition
      TextLength_addToPosition_add TextLength_createRange_ends TextLength_ofRange_def
      textLength_ok_def)

section \<open>Packed lengths refine text lengths\<close>

lemma factor_pos [simp]: "0 < factor"
  by (simp add: factor_def)

lemma lengthToObj_sel [simp]:
  "lineCount (lengthToObj l) = l div factor" "columnCount (lengthToObj l) = l mod factor"
  by (simp_all add: lengthToObj_def Let_def minus_div_mult_eq_mod)

text \<open>A text length that fits: the column count has 26 bits.\<close>

definition packable :: "textLength \<Rightarrow> bool" where
  "packable l \<longleftrightarrow> 0 \<le> lineCount l \<and> 0 \<le> columnCount l \<and> columnCount l < factor"

definition pack :: "textLength \<Rightarrow> length" where
  "pack l = toLength (lineCount l) (columnCount l)"

lemma lengthToObj_pack: "packable l \<Longrightarrow> lengthToObj (pack l) = l"
  by (simp add: packable_def pack_def toLength_def textLength_eq_iff)

lemma pack_lengthToObj [simp]: "pack (lengthToObj l) = l"
  by (simp add: pack_def toLength_def)

lemma packable_lengthToObj [simp]: "0 \<le> l \<Longrightarrow> packable (lengthToObj l)"
  by (simp add: packable_def pos_imp_zdiv_nonneg_iff)

lemma pack_nonneg: "packable l \<Longrightarrow> 0 \<le> pack l"
  by (simp add: packable_def pack_def toLength_def)

lemma pack_ge_factor: "packable l \<Longrightarrow> factor \<le> pack l \<longleftrightarrow> lineCount l \<noteq> 0"
proof -
  assume l: "packable l"
  show ?thesis
  proof (cases "lineCount l = 0")
    case True
    with l show ?thesis by (simp add: packable_def pack_def toLength_def)
  next
    case False
    with l have "1 * factor \<le> lineCount l * factor"
      by (intro mult_right_mono) (auto simp: packable_def less_imp_le)
    moreover have "0 \<le> columnCount l" using l by (simp add: packable_def)
    ultimately have "factor \<le> lineCount l * factor + columnCount l" by linarith
    with False show ?thesis by (simp add: pack_def toLength_def)
  qed
qed

lemma lengthAdd_pack:
  assumes "packable a" "packable b"
  shows "lengthAdd (pack a) (pack b) = pack (TextLength_add a b)"
proof -
  have "js_rem (pack a) factor = columnCount a"
    using assms pack_nonneg [of a]
    by (simp add: js_rem_nonneg) (simp add: pack_def toLength_def packable_def)
  then show ?thesis
    using pack_ge_factor [OF assms(2)]
    by (simp add: lengthAdd_def Let_def pack_def toLength_def TextLength_add_def algebra_simps)
qed

lemma pack_order:
  assumes "packable a" "packable b"
  shows "pack a < pack b \<longleftrightarrow> TextLength_isLessThan a b"
proof -
  have less: "pack x < pack y" if "lineCount x < lineCount y" "packable x" "packable y" for x y
  proof -
    have "pack x < (lineCount x + 1) * factor"
      using that by (simp add: pack_def toLength_def packable_def algebra_simps)
    also have "\<dots> \<le> lineCount y * factor"
      using that by (intro mult_right_mono) (auto simp: less_imp_le)
    also have "\<dots> \<le> pack y" using that by (simp add: pack_def toLength_def packable_def)
    finally show ?thesis .
  qed
  show ?thesis
    using less [of a b] less [of b a] assms
    by (cases "lineCount a" "lineCount b" rule: linorder_cases)
      (auto simp: TextLength_isLessThan_def, auto simp: pack_def toLength_def)
qed

lemma lengthDiffNonNegative_pack:
  assumes "packable a" "packable b"
  shows "lengthDiffNonNegative (pack a) (pack b) = pack (TextLength_lengthDiffNonNegative a b)"
proof -
  have sel: "pack x div factor = lineCount x" "pack x - lineCount x * factor = columnCount x"
    if "packable x" for x
    using that by (auto simp: pack_def toLength_def packable_def)
  consider "pack b < pack a" | "pack b = pack a" | "pack a < pack b" by linarith
  then show ?thesis
  proof cases
    case 1
    then show ?thesis
      using pack_order [OF assms(2,1)]
      by (simp add: lengthDiffNonNegative_def TextLength_lengthDiffNonNegative_def
          lengthZero_def TextLength_zero_def pack_def toLength_def)
  next
    case 2
    then have "b = a" using assms lengthToObj_pack by metis
    then show ?thesis
      by (simp add: lengthDiffNonNegative_def TextLength_lengthDiffNonNegative_def
          lengthZero_def TextLength_zero_def pack_def toLength_def)
  next
    case 3
    then have "\<not> TextLength_isLessThan b a" using pack_order [OF assms(2,1)] by simp
    with 3 assms show ?thesis
      by (simp add: lengthDiffNonNegative_def TextLength_lengthDiffNonNegative_def Let_def sel)
        (auto simp: pack_def toLength_def)
  qed
qed

text \<open>
  C29. The packed lengths of the bracket tree implement \<open>TextLength\<close>: converting to an
  object and packing are inverse, and on lengths whose columns fit in 26 bits packed
  addition, difference and comparison are the operations of the objects.
\<close>

theorem packed_length_refines:
  assumes "packable a" "packable b"
  shows "lengthToObj (toLength (lineCount a) (columnCount a)) = a
    \<and> lengthAdd (pack a) (pack b) = pack (TextLength_add a b)
    \<and> lengthDiffNonNegative (pack a) (pack b) = pack (TextLength_lengthDiffNonNegative a b)
    \<and> (lengthLessThan (pack a) (pack b) \<longleftrightarrow> TextLength_isLessThan a b)
    \<and> (lengthGreaterThanEqual (pack a) (pack b) \<longleftrightarrow> TextLength_isGreaterThanOrEqualTo a b)
    \<and> sgn (lengthCompare (pack a) (pack b)) = sgn (TextLength_compare a b)"
proof -
  have "pack a < pack b \<longleftrightarrow> TextLength_compare a b < 0" "pack b < pack a \<longleftrightarrow> TextLength_compare a b > 0"
    using pack_order [OF assms] pack_order [OF assms(2,1)] text_length_cmp.cmp_anti
    by (simp_all add: TextLength_order) (metis linorder_not_le)
  note order = this
  have "sgn (lengthCompare (pack a) (pack b)) = sgn (TextLength_compare a b)"
    using order by (auto simp: lengthCompare_def sgn_if)
  moreover have "lengthToObj (toLength (lineCount a) (columnCount a)) = a"
    using lengthToObj_pack [OF assms(1)] by (simp add: pack_def)
  ultimately show ?thesis
    using order assms
    by (simp add: lengthAdd_pack lengthDiffNonNegative_pack lengthLessThan_def
        lengthGreaterThanEqual_def TextLength_order) linarith
qed

theorem packed_length_refines_witness:
  "lengthAdd (pack (TextLength_new 10 5)) (pack (TextLength_new 20 3)) = pack (TextLength_new 30 3)
   \<and> lengthLessThan (pack (TextLength_new 10 5)) (pack (TextLength_new 20 3))"
  using packed_length_refines [of "TextLength_new 10 5" "TextLength_new 20 3"]
  by (simp add: packable_def factor_def TextLength_add_def TextLength_isLessThan_def)

text \<open>
  The documented contract of \<open>lengthDiffNonNegative\<close>: the result is non-negative, and
  adding it to the first length gives the second whenever the second is not smaller;
  otherwise it is zero, and no length would do.
\<close>

lemma lengthDiffNonNegative_correct:
  assumes "0 \<le> l1" "0 \<le> l2"
  shows "0 \<le> lengthDiffNonNegative l1 l2
    \<and> (l1 \<le> l2 \<longrightarrow> lengthAdd l1 (lengthDiffNonNegative l1 l2) = l2)
    \<and> (l2 < l1 \<longrightarrow> lengthDiffNonNegative l1 l2 = lengthZero
         \<and> (\<forall>d\<ge>0. lengthAdd l1 d \<noteq> l2))"
proof -
  have mono: "l1 \<le> lengthAdd l1 d" if "0 \<le> d" for d
  proof -
    have "l1 mod factor < factor" by simp
    then have "factor \<le> d \<Longrightarrow> l1 mod factor \<le> d" by linarith
    with that assms show ?thesis by (simp add: lengthAdd_def Let_def js_rem_nonneg)
  qed
  have split: "l = l div factor * factor + l mod factor" "l mod factor < factor" for l by simp_all
  have "0 \<le> lengthDiffNonNegative l1 l2 \<and> lengthAdd l1 (lengthDiffNonNegative l1 l2) = l2"
    if le: "l1 < l2"
  proof (cases "l1 div factor = l2 div factor")
    case True
    then have "lengthDiffNonNegative l1 l2 = l2 - l1"
      using le by (simp add: lengthDiffNonNegative_def Let_def toLength_def)
    moreover have "l2 - l1 < factor"
    proof -
      have "l1 mod factor = l1 - l2 div factor * factor" "l2 mod factor = l2 - l2 div factor * factor"
        using minus_div_mult_eq_mod [of l1 factor] minus_div_mult_eq_mod [of l2 factor] True by simp_all
      then have "l2 - l1 = l2 mod factor - l1 mod factor" by linarith
      moreover have "0 \<le> l1 mod factor" by simp
      ultimately show ?thesis using split(2) [of l2] by linarith
    qed
    ultimately show ?thesis using le by (simp add: lengthAdd_def Let_def)
  next
    case False
    have "l1 div factor \<le> l2 div factor" using le by (simp add: zdiv_mono1)
    with False have lt: "1 \<le> l2 div factor - l1 div factor" by simp
    have d: "lengthDiffNonNegative l1 l2 = (l2 div factor - l1 div factor) * factor + l2 mod factor"
      using le False
      by (simp add: lengthDiffNonNegative_def Let_def toLength_def minus_div_mult_eq_mod)
    have "1 * factor \<le> (l2 div factor - l1 div factor) * factor"
      using lt by (intro mult_right_mono) (auto simp: less_imp_le)
    moreover have "0 \<le> l2 mod factor" by simp
    ultimately have ge: "factor \<le> lengthDiffNonNegative l1 l2" using d by linarith
    have "lengthAdd l1 (lengthDiffNonNegative l1 l2) = l2"
      using ge assms split(1) [of l1] split(1) [of l2]
      by (simp add: lengthAdd_def Let_def js_rem_nonneg d algebra_simps)
    with ge show ?thesis using factor_pos by linarith
  qed
  moreover have "lengthAdd l1 0 = l1" by (simp add: lengthAdd_def factor_def)
  moreover have "l2 < l1 \<Longrightarrow> \<forall>d\<ge>0. lengthAdd l1 d \<noteq> l2" using mono by (metis not_le)
  ultimately show ?thesis
    by (cases "l1 < l2") (auto simp: lengthDiffNonNegative_def lengthZero_def)
qed

section \<open>Measuring texts\<close>

lemma splitLines_nonempty [simp]: "splitLines cs \<noteq> []"
  by (cases cs) simp_all

text \<open>The kinds of the line ends of a text, as the values of \<open>StringEOL\<close>.\<close>

fun eol_kinds :: "utf16 \<Rightarrow> nat list" where
  "eol_kinds [] = []"
| "eol_kinds (c # cs) =
     (if c = 13 then (if cs \<noteq> [] \<and> hd cs = 10 then StringEOL_CRLF # eol_kinds (tl cs)
                      else StringEOL_Invalid # eol_kinds cs)
      else if c = 10 then StringEOL_LF # eol_kinds cs
      else eol_kinds cs)"

text \<open>What the loop of \<open>countEOL\<close> has computed when it ends, from any turn on.\<close>

definition eol_result :: "utf16 \<Rightarrow> nat \<Rightarrow> eol_state \<Rightarrow> eol_state" where
  "eol_result text i s =
     (let ls = splitLines (drop i text) in
      \<lparr>eolCount = eolCount s + (List.length ls - 1),
       firstLineLength = (if eolCount s = 0 \<and> List.length ls > 1 then i + List.length (hd ls)
                          else firstLineLength s),
       lastLineStart = (if List.length ls > 1 then List.length text - List.length (last ls)
                        else lastLineStart s),
       eol = foldl or (eol s) (eol_kinds (drop i text))\<rparr>)"

lemma eol_state_eqI:
  fixes s t :: eol_state
  assumes "eolCount s = eolCount t" "firstLineLength s = firstLineLength t"
    "lastLineStart s = lastLineStart t" "eol s = eol t"
  shows "s = t"
  using assms by simp

lemma length_last_splitLines: "List.length (last (splitLines cs)) \<le> List.length cs"
proof (induction cs rule: splitLines.induct)
  case 1
  then show ?case by simp
next
  case (2 c cs)
  have "List.length (last ((c # hd (splitLines cs)) # tl (splitLines cs))) \<le> Suc (List.length cs)"
    if "List.length (last (splitLines cs)) \<le> List.length cs"
    using that by (cases "splitLines cs") auto
  with 2 show ?case by (auto simp: le_SucI intro: le_trans)
qed

lemma splitLines_single: "List.length (splitLines cs) = Suc 0 \<Longrightarrow> splitLines cs = [cs]"
proof (induction cs)
  case Nil
  then show ?case by simp
next
  case (Cons c cs)
  then show ?case by (cases "splitLines cs") (auto split: if_splits)
qed

lemma eol_result_skip:
  assumes "i < List.length t" "t ! i \<noteq> 13" "t ! i \<noteq> 10"
  shows "eol_result t (i + 1) s = eol_result t i s"
proof -
  have drop: "drop i t = t ! i # drop (Suc i) t" using assms by (simp add: Cons_nth_drop_Suc)
  show ?thesis
    using assms by (cases "splitLines (drop (Suc i) t)")
      (auto simp: eol_result_def Let_def drop)
qed

lemma eol_result_break:
  assumes "i < List.length t" "splitLines (drop i t) = [] # splitLines (drop j t)"
    and "eol_kinds (drop i t) = k # eol_kinds (drop j t)" "j \<le> List.length t"
    and "eolCount s' = eolCount s + 1"
    and "firstLineLength s' = (if eolCount s = 0 then i else firstLineLength s)"
    and "lastLineStart s' = j" "eol s' = or (eol s) k"
  shows "eol_result t j s' = eol_result t i s"
proof -
  have "last (splitLines (drop i t)) = last (splitLines (drop j t))" using assms(2) by simp
  moreover have "List.length (splitLines (drop j t)) = Suc 0 \<Longrightarrow> last (splitLines (drop j t)) = drop j t"
    using splitLines_single by fastforce
  ultimately show ?thesis
    using assms by (cases "splitLines (drop j t)") (auto simp: eol_result_def Let_def)
qed

lemma eol_result_step:
  assumes "i < List.length t"
  shows "eol_result t (snd (countEOL_step t i s)) (fst (countEOL_step t i s)) = eol_result t i s"
proof -
  have drop: "drop i t = t ! i # drop (Suc i) t" using assms by (simp add: Cons_nth_drop_Suc)
  have hd_drop: "Suc i < List.length t \<Longrightarrow> hd (drop (Suc i) t) = t ! Suc i" by (simp add: hd_drop_conv_nth)
  consider "t ! i \<noteq> 13" "t ! i \<noteq> 10" | "t ! i = 10"
    | "t ! i = 13" "Suc i < List.length t" "t ! Suc i = 10"
    | "t ! i = 13" "\<not> (Suc i < List.length t \<and> t ! Suc i = 10)" by blast
  then show ?thesis
  proof cases
    case 1
    then show ?thesis using eol_result_skip assms by (simp add: countEOL_step_def)
  next
    case 2
    then have "splitLines (drop i t) = [] # splitLines (drop (Suc i) t)"
      and "eol_kinds (drop i t) = StringEOL_LF # eol_kinds (drop (Suc i) t)"
      by (simp_all add: drop)
    note break = eol_result_break [OF assms this, where s = s]
    show ?thesis
      using 2 assms by (simp add: countEOL_step_def Let_def) (intro impI conjI; rule break; simp)
  next
    case 3
    have "drop (i + 2) t = tl (drop (Suc i) t)" by (simp add: tl_drop drop_Suc [symmetric] flip: drop_Suc)
    with 3 have "splitLines (drop i t) = [] # splitLines (drop (i + 2) t)"
      and "eol_kinds (drop i t) = StringEOL_CRLF # eol_kinds (drop (i + 2) t)"
      by (simp_all add: drop hd_drop)
    note break = eol_result_break [OF assms this, where s = s]
    show ?thesis
      using 3 by (simp add: countEOL_step_def Let_def) (intro impI conjI; rule break [simplified]; simp)
  next
    case 4
    then have "splitLines (drop i t) = [] # splitLines (drop (Suc i) t)"
      and "eol_kinds (drop i t) = StringEOL_Invalid # eol_kinds (drop (Suc i) t)"
      using hd_drop by (auto simp: drop)
    note break = eol_result_break [OF assms this, where s = s]
    have "fst (countEOL_step t i s) = (if eolCount s = 0 then s\<lparr>firstLineLength := i\<rparr> else s)
        \<lparr>eolCount := eolCount s + 1, eol := or (eol s) StringEOL_Invalid, lastLineStart := Suc i\<rparr>"
      and "snd (countEOL_step t i s) = Suc i"
      using 4 by (auto simp: countEOL_step_def Let_def)
    then show ?thesis
      using assms by (simp only:) (rule break; simp)
  qed
qed

lemma countEOL_loop_eq: "countEOL_loop t i s = eol_result t i s"
proof (induction t i s rule: countEOL_loop.induct)
  case (1 t i s)
  show ?case
  proof (cases "i < List.length t")
    case False
    then show ?thesis by (simp add: countEOL_loop.simps [of t i s] eol_result_def)
  next
    case True
    with 1 have "countEOL_loop t i s = eol_result t (snd (countEOL_step t i s)) (fst (countEOL_step t i s))"
      by (simp add: countEOL_loop.simps [of t i s] split: prod.splits)
    with eol_result_step [OF True] show ?thesis by simp
  qed
qed

lemma countEOL_splitLines:
  "countEOL t = (List.length (splitLines t) - 1, List.length (hd (splitLines t)),
                 List.length (last (splitLines t)), foldl or 0 (eol_kinds t))"
proof (cases "List.length (splitLines t) = Suc 0")
  case True
  with splitLines_single [OF True] show ?thesis
    by (simp add: countEOL_def countEOL_loop_eq eol_result_def StringEOL_Unknown_def Let_def)
next
  case False
  then have "List.length (splitLines t) > 1"
    by (cases "splitLines t") (auto simp: Suc_lessI splitLines_nonempty)
  with length_last_splitLines [of t] show ?thesis
    by (simp add: countEOL_def countEOL_loop_eq eol_result_def StringEOL_Unknown_def Let_def)
qed

lemma eol_kinds_range: "set (eol_kinds t) \<subseteq> {1, 2, 3}"
  by (induction t rule: eol_kinds.induct)
    (auto simp: StringEOL_LF_def StringEOL_CRLF_def StringEOL_Invalid_def)

lemma or_mask_cases:
  fixes e k :: nat
  assumes "e \<in> {0, 1, 2, 3}" "k \<in> {1, 2, 3}"
  shows "or e k \<in> {1, 2, 3}" "or e k = 1 \<longleftrightarrow> e \<in> {0, 1} \<and> k = 1" "or e k = 2 \<longleftrightarrow> e \<in> {0, 2} \<and> k = 2"
proof -
  have "or 0 1 = (1::nat)" "or 0 2 = (2::nat)" "or 0 3 = (3::nat)" "or 1 1 = (1::nat)"
    "or 1 2 = (3::nat)" "or 1 3 = (3::nat)" "or 2 1 = (3::nat)" "or 2 2 = (2::nat)"
    "or 2 3 = (3::nat)" "or 3 1 = (3::nat)" "or 3 2 = (3::nat)" "or 3 3 = (3::nat)"
    by code_simp+
  with assms show "or e k \<in> {1, 2, 3}" "or e k = 1 \<longleftrightarrow> e \<in> {0, 1} \<and> k = 1"
    "or e k = 2 \<longleftrightarrow> e \<in> {0, 2} \<and> k = 2"
    by auto
qed

lemma foldl_or_mask:
  assumes "e \<in> {0, 1, 2, 3 :: nat}" "set ks \<subseteq> {1, 2, 3}"
  shows "(foldl or e ks = 0 \<longleftrightarrow> e = 0 \<and> ks = [])
    \<and> (foldl or e ks = 1 \<longleftrightarrow> e \<in> {0, 1} \<and> set ks \<subseteq> {1} \<and> (e = 1 \<or> ks \<noteq> []))
    \<and> (foldl or e ks = 2 \<longleftrightarrow> e \<in> {0, 2} \<and> set ks \<subseteq> {2} \<and> (e = 2 \<or> ks \<noteq> []))"
  using assms
proof (induction ks arbitrary: e)
  case Nil
  then show ?case by auto
next
  case (Cons k ks)
  have k: "k \<in> {1, 2, 3}" and ks: "set ks \<subseteq> {1, 2, 3}" using Cons.prems by auto
  note mask = or_mask_cases [OF Cons.prems(1) k]
  have "or e k \<in> {0, 1, 2, 3}" using mask(1) by blast
  note IH = Cons.IH [OF this ks]
  have "or e k \<noteq> 0" using mask(1) by auto
  then show ?case using IH mask(2,3) by (simp only: foldl.simps) auto
qed

text \<open>
  \<open>countEOL\<close> computes, in one pass, the number of line ends, the lengths of the first
  and of the last of the lines \<open>splitLines\<close> returns, and the kind of the line ends:
  unknown when there is none, LF when all are LF, CRLF when all are CRLF, and invalid
  otherwise.
\<close>

lemma countEOL_correct:
  "\<exists>e. countEOL t = (List.length (splitLines t) - 1, List.length (hd (splitLines t)),
                     List.length (last (splitLines t)), e)
     \<and> e = (if eol_kinds t = [] then StringEOL_Unknown
            else if set (eol_kinds t) = {StringEOL_LF} then StringEOL_LF
            else if set (eol_kinds t) = {StringEOL_CRLF} then StringEOL_CRLF
            else StringEOL_Invalid)"
proof -
  have "foldl or 0 ks \<in> {0, 1, 2, 3}" if "set ks \<subseteq> {1, 2, 3 :: nat}" for ks
    using that by (induction ks rule: rev_induct) (auto dest: or_mask_cases(1))
  then have "foldl or 0 (eol_kinds t) \<in> {0, 1, 2, 3}" using eol_kinds_range by blast
  with foldl_or_mask [of 0 "eol_kinds t"] eol_kinds_range [of t] show ?thesis
    by (auto simp: countEOL_splitLines StringEOL_Unknown_def StringEOL_LF_def StringEOL_CRLF_def
        StringEOL_Invalid_def subset_singleton_iff)
qed

definition no_pair :: "utf16 \<Rightarrow> bool" where
  "no_pair t \<longleftrightarrow> (\<forall>i. Suc i < List.length t \<longrightarrow>
     \<not> (is_high_surrogate (t ! i) \<and> is_low_surrogate (t ! Suc i)))"

lemma code_points_no_pair: "no_pair t \<Longrightarrow> code_points t = map (\<lambda>u. [u]) t"
proof (induction t rule: code_points.induct)
  case (3 u v us)
  have "\<not> (is_high_surrogate u \<and> is_low_surrogate v)"
    using 3(3) unfolding no_pair_def by (metis One_nat_def length_Cons nth_Cons_0 nth_Cons_Suc
        Suc_less_eq zero_less_Suc)
  moreover have "no_pair (v # us)"
    using 3(3) unfolding no_pair_def by (metis length_Cons nth_Cons_Suc Suc_less_eq)
  ultimately show ?case using 3(2) by auto
qed simp_all

lemma ofText_fold_lines:
  "13 \<notin> set t \<Longrightarrow> foldl TextLength_ofText_step (l, c) (map (\<lambda>u. [u]) t) =
     (l + int (List.length (splitLines t)) - 1,
      (if List.length (splitLines t) = 1 then c else 0) + int (List.length (last (splitLines t))))"
proof (induction t arbitrary: l c)
  case Nil
  then show ?case by simp
next
  case (Cons u t)
  then show ?case
    by (cases "splitLines t") (auto simp: TextLength_ofText_step_def)
qed

text \<open>
  The ways of measuring a text agree: on a text without carriage returns and without
  surrogate pairs \<open>TextLength.ofText\<close> is \<open>lengthOfStringObj\<close>, and the packed
  \<open>lengthOfString\<close> always is the packed form of the latter.
\<close>

lemma text_measures_agree:
  "lengthOfString t = pack (lengthOfStringObj t)
   \<and> (13 \<notin> set t \<and> no_pair t \<longrightarrow> TextLength_ofText t = lengthOfStringObj t)"
  by (auto simp: lengthOfString_def lengthOfStringObj_def pack_def Let_def TextLength_ofText_def
      code_points_no_pair ofText_fold_lines)

text \<open>
  \<open>TextLength.ofText\<close> iterates over code points while columns count UTF-16 code units:
  a character outside the basic plane has one column by \<open>ofText\<close> and two by
  \<open>lengthOfStringObj\<close>.
\<close>

lemma TextLength_ofText_surrogates:
  assumes "is_high_surrogate u" "is_low_surrogate v"
  shows "TextLength_ofText [u, v] = TextLength_new 0 1
    \<and> lengthOfStringObj [u, v] = TextLength_new 0 2"
  using assms
  by (auto simp: TextLength_ofText_def TextLength_ofText_step_def lengthOfStringObj_def Let_def
      is_high_surrogate_def is_low_surrogate_def)

end
