(* ===== verification/PrefixSums.thy ===== *)
theory PrefixSums
  imports Prelude "HOL-Library.Word"
begin

text \<open>
  \<open>src/patched-vscode/src/vs/editor/common/model/prefixSumComputer.ts\<close>, with the helpers
  \<open>toUint8\<close> and \<open>toUint32\<close> of \<open>base/common/uint.ts\<close> and \<open>arrayInsert\<close> of
  \<open>base/common/arrays.ts\<close>: two classes that keep a list of values and answer prefix sum
  queries, caching partial sums and repairing the cache after an edit. The first keeps
  \<open>Uint32Array\<close>s (lists of 32-bit words, so that sums wrap as they do in the code), the
  second plain arrays and an inverse table.

  A method returns its result and the new object. A value of type \<open>option\<close> is a JavaScript
  number that may be undefined (or \<open>NaN\<close>): what reading outside of an array gives.
  The contract of both classes is the locale \<open>prefix_sums\<close>, interpreted on each.
\<close>

section \<open>Definitions\<close>

subsection \<open>uint.ts\<close>

definition toUint8 :: "int \<Rightarrow> int" where
  "toUint8 v = (if v < 0 then 0 else if v > 255 then 255 else to_int32 v)"

definition toUint32 :: "int \<Rightarrow> int" where
  "toUint32 v = (if v < 0 then 0 else if v > 4294967295 then 4294967295 else to_int32 v)"

subsection \<open>Typed arrays\<close>

type_synonym uint32array = "32 word list"

text \<open>Reading and writing an element: outside of the array reads are undefined, writes ignored.\<close>

definition js_get :: "'a list \<Rightarrow> int \<Rightarrow> 'a option" where
  "js_get xs i = (if 0 \<le> i \<and> i < int (length xs) then Some (xs ! nat i) else None)"

definition ta_put :: "'a list \<Rightarrow> int \<Rightarrow> 'a \<Rightarrow> 'a list" where
  "ta_put xs i v = (if 0 \<le> i \<and> i < int (length xs) then xs[nat i := v] else xs)"

text \<open>\<open>xs.set(ys, offset)\<close> throws when \<open>ys\<close> does not fit; \<open>xs.subarray(i, j)\<close> clamps.\<close>

definition ta_set :: "'a list \<Rightarrow> 'a list \<Rightarrow> int \<Rightarrow> 'a list result" where
  "ta_set xs ys offset =
     (if offset < 0 \<or> offset + int (length ys) > int (length xs)
      then Inl (GenericError ''RangeError: offset is out of bounds'')
      else Inr (take (nat offset) xs @ ys @ drop (nat offset + length ys) xs))"

definition ta_subarray :: "'a list \<Rightarrow> int \<Rightarrow> int \<Rightarrow> 'a list" where
  "ta_subarray xs i j = js_slice xs i j"

definition ta_new :: "nat \<Rightarrow> uint32array" where
  "ta_new n = replicate n 0"

subsection \<open>PrefixSumComputer\<close>

record psc =
  "values" :: uint32array
  prefixSum :: uint32array
  prefixSumValidIndex :: int

definition PrefixSumComputer_new :: "uint32array \<Rightarrow> psc" where
  "PrefixSumComputer_new vs =
     \<lparr>values = vs, prefixSum = ta_new (length vs), prefixSumValidIndex = - 1\<rparr>"

definition PrefixSumComputer_getCount :: "psc \<Rightarrow> int" where
  "PrefixSumComputer_getCount this = int (length (values this))"

text \<open>The last lines of the two splicing operations: copy the part of the cache that is still valid.\<close>

definition psc_keep_prefix :: "psc \<Rightarrow> uint32array \<Rightarrow> psc result" where
  "psc_keep_prefix this oldPrefixSum =
     (let this = this\<lparr>prefixSum := ta_new (length (values this))\<rparr> in
      if prefixSumValidIndex this \<ge> 0
      then rbind (ta_set (prefixSum this)
                    (ta_subarray oldPrefixSum 0 (prefixSumValidIndex this + 1)) 0)
             (\<lambda>p. Inr (this\<lparr>prefixSum := p\<rparr>))
      else Inr this)"

definition psc_lower_valid :: "psc \<Rightarrow> int \<Rightarrow> psc" where
  "psc_lower_valid this index =
     (if index - 1 < prefixSumValidIndex this then this\<lparr>prefixSumValidIndex := index - 1\<rparr> else this)"

definition PrefixSumComputer_insertValues ::
  "psc \<Rightarrow> int \<Rightarrow> uint32array \<Rightarrow> (bool \<times> psc) result" where
  "PrefixSumComputer_insertValues this insertIndex insertValues =
     (let insertIndex = toUint32 insertIndex; oldValues = values this;
          oldPrefixSum = prefixSum this; insertValuesLen = length insertValues
      in if insertValuesLen = 0 then Inr (False, this)
         else
           rbind (ta_set (ta_new (length oldValues + insertValuesLen))
                    (ta_subarray oldValues 0 insertIndex) 0) (\<lambda>v1.
           rbind (ta_set v1 (ta_subarray oldValues insertIndex (int (length oldValues)))
                    (insertIndex + int insertValuesLen)) (\<lambda>v2.
           rbind (ta_set v2 insertValues insertIndex) (\<lambda>v3.
           rbind (psc_keep_prefix (psc_lower_valid (this\<lparr>values := v3\<rparr>) insertIndex) oldPrefixSum)
             (\<lambda>this. Inr (True, this))))))"

definition PrefixSumComputer_setValue :: "psc \<Rightarrow> int \<Rightarrow> int \<Rightarrow> bool \<times> psc" where
  "PrefixSumComputer_setValue this index value =
     (let index = toUint32 index; value = toUint32 value in
      if map_option uint (js_get (values this) index) = Some value then (False, this)
      else (True, psc_lower_valid (this\<lparr>values := ta_put (values this) index (of_int value)\<rparr>) index))"

definition PrefixSumComputer_removeValues :: "psc \<Rightarrow> int \<Rightarrow> int \<Rightarrow> (bool \<times> psc) result" where
  "PrefixSumComputer_removeValues this startIndex cnt =
     (let startIndex = toUint32 startIndex; cnt = toUint32 cnt; oldValues = values this;
          oldPrefixSum = prefixSum this
      in if startIndex \<ge> int (length oldValues) then Inr (False, this)
         else
           let maxCount = int (length oldValues) - startIndex;
               cnt = (if cnt \<ge> maxCount then maxCount else cnt)
           in if cnt = 0 then Inr (False, this)
              else
                rbind (ta_set (ta_new (nat (int (length oldValues) - cnt)))
                         (ta_subarray oldValues 0 startIndex) 0) (\<lambda>v1.
                rbind (ta_set v1 (ta_subarray oldValues (startIndex + cnt) (int (length oldValues)))
                         startIndex) (\<lambda>v2.
                rbind (psc_keep_prefix (psc_lower_valid (this\<lparr>values := v2\<rparr>) startIndex) oldPrefixSum)
                  (\<lambda>this. Inr (True, this)))))"

text \<open>One turn of the summation loop; the stored value is reduced modulo \<open>2 ^ 32\<close>.\<close>

definition psc_sum_step :: "uint32array \<Rightarrow> int \<Rightarrow> uint32array \<Rightarrow> uint32array" where
  "psc_sum_step vs i p =
     ta_put p i (case (js_get p (i - 1), js_get vs i) of
                   (Some a, Some b) \<Rightarrow> a + b | _ \<Rightarrow> 0)"

definition PrefixSumComputer_getPrefixSum_valid :: "psc \<Rightarrow> int \<Rightarrow> int option \<times> psc" where
  "PrefixSumComputer_getPrefixSum_valid this index =
     (if index \<le> prefixSumValidIndex this
      then (map_option uint (js_get (prefixSum this) index), this)
      else
        let startIndex = prefixSumValidIndex this + 1;
            (p, startIndex) =
              (if startIndex = 0
               then (ta_put (prefixSum this) 0 (case js_get (values this) 0 of Some v \<Rightarrow> v | None \<Rightarrow> 0),
                     startIndex + 1)
               else (prefixSum this, startIndex));
            index = (if index \<ge> int (length (values this)) then int (length (values this)) - 1
                     else index);
            p = fold (psc_sum_step (values this)) [startIndex..index] p
        in (map_option uint (js_get p index),
            this\<lparr>prefixSum := p, prefixSumValidIndex := max (prefixSumValidIndex this) index\<rparr>))"

definition PrefixSumComputer_getTotalSum :: "psc \<Rightarrow> int option \<times> psc" where
  "PrefixSumComputer_getTotalSum this =
     (if length (values this) = 0 then (Some 0, this)
      else PrefixSumComputer_getPrefixSum_valid this (int (length (values this)) - 1))"

definition PrefixSumComputer_getPrefixSum :: "psc \<Rightarrow> int \<Rightarrow> int option \<times> psc" where
  "PrefixSumComputer_getPrefixSum this index =
     (if index < 0 then (Some 0, this)
      else PrefixSumComputer_getPrefixSum_valid this (toUint32 index))"

text \<open>
  The binary search; \<open>(low + (high - low) / 2) | 0\<close> is the midpoint rounded down, array
  lengths being below \<open>2 ^ 31\<close>. The state is \<open>(mid, midStart)\<close>.
\<close>

function psc_search :: "uint32array \<Rightarrow> uint32array \<Rightarrow> int \<Rightarrow> int \<Rightarrow> int \<Rightarrow> int \<times> int \<Rightarrow> int \<times> int" where
  "psc_search p vs query low high s =
     (if low \<le> high then
        let mid = low + (high - low) div 2;
            midStop = uint (p ! nat mid);
            midStart = midStop - uint (vs ! nat mid)
        in if query < midStart then psc_search p vs query low (mid - 1) (mid, midStart)
           else if query \<ge> midStop then psc_search p vs query (mid + 1) high (mid, midStart)
           else (mid, midStart)
      else s)"
  by pat_completeness auto
termination
  by (relation "measure (\<lambda>(p, vs, query, low, high, s). nat (high + 1 - low))") auto

declare psc_search.simps [simp del]

definition PrefixSumComputer_getIndexOf :: "psc \<Rightarrow> int \<Rightarrow> (int \<times> int) \<times> psc" where
  "PrefixSumComputer_getIndexOf this query =
     (let this = snd (PrefixSumComputer_getTotalSum this);
          (mid, midStart) =
            psc_search (prefixSum this) (values this) query 0 (int (length (values this)) - 1) (0, 0)
      in ((mid, query - midStart), this))"

subsection \<open>ConstantTimePrefixSumComputer\<close>

text \<open>
  Plain arrays of numbers: an element is \<open>None\<close> where it is missing or \<open>NaN\<close>. Writing
  behind the end extends the array; a negative index writes a property, not an element.
\<close>

definition js_put :: "'a option list \<Rightarrow> int \<Rightarrow> 'a option \<Rightarrow> 'a option list" where
  "js_put xs i v =
     (if i < 0 then xs
      else if i < int (length xs) then xs[nat i := v]
      else xs @ replicate (nat i - length xs) None @ [v])"

definition js_elem :: "'a option list \<Rightarrow> int \<Rightarrow> 'a option" where
  "js_elem xs i = (case js_get xs i of Some v \<Rightarrow> v | None \<Rightarrow> None)"

definition js_set_length :: "'a option list \<Rightarrow> nat \<Rightarrow> 'a option list" where
  "js_set_length xs n = take n xs @ replicate (n - length xs) None"

definition arrayInsert :: "'a list \<Rightarrow> int \<Rightarrow> 'a list \<Rightarrow> 'a list" where
  "arrayInsert target insertIndex insertArr =
     js_slice target 0 insertIndex @ insertArr @ js_slice target insertIndex (int (length target))"

record ctsc =
  ct_values :: "nat option list"
  ct_isValid :: bool
  ct_validEndIndex :: int
  ct_prefixSum :: "nat option list"
  ct_indexBySum :: "int option list"

definition ConstantTime_new :: "nat option list \<Rightarrow> ctsc" where
  "ConstantTime_new vs =
     \<lparr>ct_values = vs, ct_isValid = False, ct_validEndIndex = - 1, ct_prefixSum = [],
      ct_indexBySum = []\<rparr>"

definition ConstantTime_invalidate :: "ctsc \<Rightarrow> int \<Rightarrow> ctsc" where
  "ConstantTime_invalidate this index =
     this\<lparr>ct_isValid := False, ct_validEndIndex := min (ct_validEndIndex this) (index - 1)\<rparr>"

text \<open>The turn at \<open>i\<close> of the loop of \<open>_ensureValid\<close>, with its inner loop over \<open>j < value\<close>.\<close>

definition ct_fill :: "int \<Rightarrow> nat \<Rightarrow> nat \<Rightarrow> int option list \<Rightarrow> int option list" where
  "ct_fill i sumAbove value ix =
     fold (\<lambda>j ix. js_put ix (int (sumAbove + j)) (Some i)) [0..<value] ix"

definition ct_ensure_step ::
  "nat option list \<Rightarrow> int \<Rightarrow> nat option list \<times> int option list \<Rightarrow> nat option list \<times> int option list" where
  "ct_ensure_step vs i s =
     (case s of (p, ix) \<Rightarrow>
        let value = js_elem vs i;
            sumAbove = (if i > 0 then js_elem p (i - 1) else Some 0)
        in case (sumAbove, value) of
             (Some a, Some v) \<Rightarrow> (js_put p i (Some (a + v)), ct_fill i a v ix)
           | _ \<Rightarrow> (js_put p i None, ix))"

definition ConstantTime_ensureValid :: "ctsc \<Rightarrow> ctsc result" where
  "ConstantTime_ensureValid this =
     (if ct_isValid this then Inr this
      else
        let len = int (length (ct_values this));
            (p, ix) = fold (ct_ensure_step (ct_values this)) [ct_validEndIndex this + 1..len - 1]
                        (ct_prefixSum this, ct_indexBySum this);
            p = js_set_length p (length (ct_values this))
        in case js_elem p (int (length p) - 1) of
             None \<Rightarrow> Inl (GenericError ''RangeError: Invalid array length'')
           | Some n \<Rightarrow>
               Inr (this\<lparr>ct_prefixSum := p, ct_indexBySum := js_set_length ix n, ct_isValid := True,
                         ct_validEndIndex := len - 1\<rparr>))"

definition ConstantTime_getTotalSum :: "ctsc \<Rightarrow> (nat \<times> ctsc) result" where
  "ConstantTime_getTotalSum this =
     rbind (ConstantTime_ensureValid this) (\<lambda>this. Inr (length (ct_indexBySum this), this))"

definition ConstantTime_getPrefixSum :: "ctsc \<Rightarrow> int \<Rightarrow> (nat option \<times> ctsc) result" where
  "ConstantTime_getPrefixSum this cnt =
     rbind (ConstantTime_ensureValid this) (\<lambda>this.
       Inr (if cnt = 0 then Some 0 else js_elem (ct_prefixSum this) (cnt - 1), this))"

text \<open>The result is the index (undefined behind the last value) and the remainder.\<close>

definition ConstantTime_getIndexOf ::
  "ctsc \<Rightarrow> int \<Rightarrow> ((int option \<times> int option) \<times> ctsc) result" where
  "ConstantTime_getIndexOf this query =
     rbind (ConstantTime_ensureValid this) (\<lambda>this.
       let idx = js_elem (ct_indexBySum this) query;
           viewLinesAbove = (case idx of Some i \<Rightarrow> if i > 0 then js_elem (ct_prefixSum this) (i - 1)
                                                   else Some 0
                                       | None \<Rightarrow> Some 0)
       in Inr ((idx, map_option (\<lambda>v. query - int v) viewLinesAbove), this))"

definition ConstantTime_removeValues :: "ctsc \<Rightarrow> int \<Rightarrow> int \<Rightarrow> ctsc" where
  "ConstantTime_removeValues this start deleteCount =
     ConstantTime_invalidate (this\<lparr>ct_values := js_splice (ct_values this) start deleteCount []\<rparr>) start"

definition ConstantTime_insertValues :: "ctsc \<Rightarrow> int \<Rightarrow> nat option list \<Rightarrow> ctsc" where
  "ConstantTime_insertValues this insertIndex insertArr =
     ConstantTime_invalidate
       (this\<lparr>ct_values := arrayInsert (ct_values this) insertIndex insertArr\<rparr>) insertIndex"

definition ConstantTime_setValue :: "ctsc \<Rightarrow> int \<Rightarrow> nat \<Rightarrow> ctsc" where
  "ConstantTime_setValue this index value =
     (if js_elem (ct_values this) index = Some value then this
      else ConstantTime_invalidate
             (this\<lparr>ct_values := js_put (ct_values this) index (Some value)\<rparr>) index)"

section \<open>Arrays and indices\<close>

lemma toUint32_id: "0 \<le> v \<Longrightarrow> v < 2 ^ 31 \<Longrightarrow> toUint32 v = v"
  by (simp add: toUint32_def to_int32_id)

lemma of_int_toUint32: "0 \<le> v \<Longrightarrow> v \<le> 4294967295 \<Longrightarrow> of_int (toUint32 v) = (of_int v :: 32 word)"
proof -
  assume "0 \<le> v" "v \<le> 4294967295"
  moreover have "of_int (to_int32 v) = (of_int v :: 32 word)"
    by (rule word_of_int_eq_iff [THEN iffD2]) (simp add: to_int32_def take_bit_eq_mod mod_simps)
  ultimately show ?thesis by (simp add: toUint32_def)
qed

lemma js_get_nat [simp]: "i < length xs \<Longrightarrow> js_get xs (int i) = Some (xs ! i)"
  by (simp add: js_get_def)

lemma js_get_outside: "i < 0 \<or> int (length xs) \<le> i \<Longrightarrow> js_get xs i = None"
  by (auto simp: js_get_def)

lemma ta_put_nat [simp]: "i < length xs \<Longrightarrow> ta_put xs (int i) v = xs[i := v]"
  by (simp add: ta_put_def)

lemma length_ta_put [simp]: "length (ta_put xs i v) = length xs"
  by (simp add: ta_put_def)

lemma js_slice_take: "i \<le> length xs \<Longrightarrow> js_slice xs 0 (int i) = take i xs"
  by (simp add: js_slice_def js_rel_index_def)

lemma js_slice_drop: "i \<le> length xs \<Longrightarrow> js_slice xs (int i) (int (length xs)) = drop i xs"
  by (simp add: js_slice_def js_rel_index_def)

lemma arrayInsert_nat:
  "i \<le> length xs \<Longrightarrow> arrayInsert xs (int i) ys = take i xs @ ys @ drop i xs"
  by (simp add: arrayInsert_def js_slice_take js_slice_drop)

lemma ta_set_nat:
  "k + length ys \<le> length xs \<Longrightarrow>
   ta_set xs ys (int k) = Inr (take k xs @ ys @ drop (k + length ys) xs)"
  by (simp add: ta_set_def)

lemma ta_set_0: "length ys \<le> length xs \<Longrightarrow> ta_set xs ys 0 = Inr (ys @ drop (length ys) xs)"
  using ta_set_nat [of 0 ys xs] by simp

section \<open>The cache of PrefixSumComputer\<close>

text \<open>
  The comments of the class as an invariant: the entries of \<open>prefixSum\<close> up to
  \<open>prefixSumValidIndex\<close> are the prefix sums of \<open>values\<close>.
\<close>

definition psc_cache_ok :: "uint32array \<Rightarrow> uint32array \<Rightarrow> int \<Rightarrow> bool" where
  "psc_cache_ok vs p k \<longleftrightarrow>
     (\<forall>i. int i \<le> k \<longrightarrow> i < length p \<and> p ! i = sum_list (take (Suc i) vs))"

definition psc_inv :: "psc \<Rightarrow> bool" where
  "psc_inv s \<longleftrightarrow> length (prefixSum s) = length (values s) \<and> - 1 \<le> prefixSumValidIndex s
     \<and> prefixSumValidIndex s < int (length (values s))
     \<and> psc_cache_ok (values s) (prefixSum s) (prefixSumValidIndex s)"

lemma psc_inv_new: "psc_inv (PrefixSumComputer_new vs)"
  by (simp add: psc_inv_def PrefixSumComputer_new_def ta_new_def psc_cache_ok_def)

lemma psc_cache_ok_take:
  assumes "psc_cache_ok vs p k" "k' \<le> k" "take n vs' = take n vs" "k' < int n"
  shows "psc_cache_ok vs' p k'"
proof -
  have "take (Suc i) vs' = take (Suc i) vs" if "int i \<le> k'" for i
    using arg_cong [OF assms(3), of "take (Suc i)"] assms(4) that by (simp add: min_def split: if_splits)
  with assms(1,2) show ?thesis unfolding psc_cache_ok_def by (metis order_trans)
qed

lemma psc_keep_prefix_ok:
  assumes "psc_cache_ok (values s) q (prefixSumValidIndex s)" "- 1 \<le> prefixSumValidIndex s"
    and "prefixSumValidIndex s < int (length (values s))"
  shows "\<exists>s'. psc_keep_prefix s q = Inr s' \<and> values s' = values s \<and> psc_inv s'"
proof (cases "prefixSumValidIndex s \<ge> 0")
  case False
  with assms show ?thesis
    by (simp add: psc_keep_prefix_def psc_inv_def ta_new_def psc_cache_ok_def)
next
  case True
  then obtain k where k: "prefixSumValidIndex s = int k" using nonneg_int_cases by blast
  with assms(1) have q: "k < length q" "\<And>i. i \<le> k \<Longrightarrow> q ! i = sum_list (take (Suc i) (values s))"
    by (auto simp: psc_cache_ok_def)
  have sub: "ta_subarray q 0 (int k + 1) = take (Suc k) q"
    using js_slice_take [of "Suc k" q] q(1) by (simp add: ta_subarray_def add.commute)
  have "psc_keep_prefix s q =
      Inr (s\<lparr>prefixSum := take (Suc k) q @ drop (Suc k) (ta_new (length (values s)))\<rparr>)"
    using q(1) k assms(3) by (simp add: psc_keep_prefix_def sub ta_set_0 ta_new_def min_def)
  moreover have "psc_cache_ok (values s)
      (take (Suc k) q @ drop (Suc k) (ta_new (length (values s)))) (int k)"
    using q by (auto simp: psc_cache_ok_def nth_append)
  ultimately show ?thesis
    using k q(1) assms(3) by (simp add: psc_inv_def ta_new_def)
qed

lemma psc_lower_valid_sel [simp]:
  "values (psc_lower_valid s i) = values s" "prefixSum (psc_lower_valid s i) = prefixSum s"
  "prefixSumValidIndex (psc_lower_valid s i) = min (i - 1) (prefixSumValidIndex s)"
  by (auto simp: psc_lower_valid_def)

text \<open>A splice that keeps the first \<open>i\<close> values leaves a valid cache.\<close>

lemma psc_splice_ok:
  assumes "psc_inv s" "i \<le> length (values s)" "i \<le> length vs" "take i vs = take i (values s)"
  shows "\<exists>s'. psc_keep_prefix (psc_lower_valid (s\<lparr>values := vs\<rparr>) (int i)) (prefixSum s) = Inr s'
    \<and> values s' = vs \<and> psc_inv s'"
proof -
  let ?t = "psc_lower_valid (s\<lparr>values := vs\<rparr>) (int i)"
  have "psc_cache_ok (values ?t) (prefixSum s) (prefixSumValidIndex ?t)"
    using assms psc_cache_ok_take [of "values s" "prefixSum s" "prefixSumValidIndex s"
        "min (int i - 1) (prefixSumValidIndex s)" i vs]
    by (simp add: psc_inv_def)
  moreover have "- 1 \<le> prefixSumValidIndex ?t" "prefixSumValidIndex ?t < int (length (values ?t))"
    using assms(1,3) by (auto simp: psc_inv_def)
  ultimately show ?thesis
    using psc_keep_prefix_ok [of ?t "prefixSum s"] by simp
qed

lemma insertValues_splice:
  fixes vs ins :: uint32array
  assumes "i \<le> length vs"
  shows "rbind (ta_set (ta_new (length vs + length ins)) (take i vs) 0) (\<lambda>v1.
         rbind (ta_set v1 (drop i vs) (int i + int (length ins))) (\<lambda>v2. ta_set v2 ins (int i)))
         = Inr (take i vs @ ins @ drop i vs)"
proof -
  have 1: "ta_set (ta_new (length vs + length ins)) (take i vs) 0
      = Inr (take i vs @ replicate (length vs + length ins - i) 0)"
    using assms by (simp add: ta_set_0 ta_new_def min_def)
  have 2: "ta_set (take i vs @ replicate (length vs + length ins - i) 0) (drop i vs) (int i + int (length ins))
      = Inr (take i vs @ replicate (length ins) 0 @ drop i vs)"
    using assms ta_set_nat [of "i + length ins" "drop i vs" "take i vs @ replicate (length vs + length ins - i) 0"]
    by (simp add: min_def)
  have 3: "ta_set (take i vs @ replicate (length ins) 0 @ drop i vs) ins (int i)
      = Inr (take i vs @ ins @ drop i vs)"
    using assms by (simp add: ta_set_nat min_def)
  show ?thesis by (simp only: 1 2 3 rbind_simps)
qed

lemma removeValues_splice:
  fixes vs :: uint32array
  assumes "i + n \<le> length vs"
  shows "rbind (ta_set (ta_new (length vs - n)) (take i vs) 0) (\<lambda>v1. ta_set v1 (drop (i + n) vs) (int i))
         = Inr (take i vs @ drop (i + n) vs)"
proof -
  have 1: "ta_set (ta_new (length vs - n)) (take i vs) 0
      = Inr (take i vs @ replicate (length vs - n - i) 0)"
  proof -
    have "min (length vs) i = i" "i \<le> length vs - n" using assms by auto
    then show ?thesis
      using ta_set_0 [of "take i vs" "ta_new (length vs - n)"] by (simp add: ta_new_def)
  qed
  have "ta_set (take i vs @ replicate (length vs - n - i) 0) (drop (i + n) vs) (int i)
      = Inr (take i vs @ drop (i + n) vs)"
  proof -
    have "min (length vs) i = i" "i + (length vs - (i + n)) \<ge> i + (length vs - n - i)" using assms by auto
    then show ?thesis
      using assms ta_set_nat [of i "drop (i + n) vs" "take i vs @ replicate (length vs - n - i) 0"]
      by simp
  qed
  then show ?thesis by (simp only: 1 rbind_simps)
qed

lemma PrefixSumComputer_insertValues_ok:
  assumes "psc_inv s" "i \<le> length (values s)" "int i < 2 ^ 31"
  shows "\<exists>s'. PrefixSumComputer_insertValues s (int i) ins = Inr (ins \<noteq> [], s') \<and> psc_inv s'
    \<and> values s' = take i (values s) @ ins @ drop i (values s)"
proof (cases "ins = []")
  case True
  with assms show ?thesis by (simp add: PrefixSumComputer_insertValues_def)
next
  case False
  let ?vs = "take i (values s) @ ins @ drop i (values s)"
  have idx: "toUint32 (int i) = int i" using assms(3) by (simp add: toUint32_id)
  have "PrefixSumComputer_insertValues s (int i) ins =
      rbind (psc_keep_prefix (psc_lower_valid (s\<lparr>values := ?vs\<rparr>) (int i)) (prefixSum s))
        (\<lambda>this. Inr (True, this))"
    using False insertValues_splice [OF assms(2), of ins]
    by (auto simp: PrefixSumComputer_insertValues_def idx ta_subarray_def js_slice_take [OF assms(2)]
        js_slice_drop [OF assms(2)] rbind_Inr_iff rbind_assoc [symmetric])
  moreover obtain s' where "psc_keep_prefix (psc_lower_valid (s\<lparr>values := ?vs\<rparr>) (int i)) (prefixSum s)
      = Inr s'" "values s' = ?vs" "psc_inv s'"
    using psc_splice_ok [OF assms(1,2), of ?vs] assms(2) by auto
  ultimately show ?thesis using False by simp
qed

lemma PrefixSumComputer_removeValues_ok:
  assumes "psc_inv s" "int i < 2 ^ 31" "int n < 2 ^ 31" "length (values s) < 2 ^ 31"
  shows "\<exists>b s'. PrefixSumComputer_removeValues s (int i) (int n) = Inr (b, s') \<and> psc_inv s'
    \<and> values s' = take i (values s) @ drop (i + n) (values s)"
proof (cases "i \<ge> length (values s) \<or> n = 0")
  case True
  with assms show ?thesis
    by (auto simp: PrefixSumComputer_removeValues_def toUint32_id Let_def)
next
  case False
  define m where "m = min n (length (values s) - i)"
  let ?vs = "take i (values s) @ drop (i + m) (values s)"
  have m: "(if int n \<ge> int (length (values s)) - int i then int (length (values s)) - int i else int n) = int m"
    "m \<noteq> 0" "i + m \<le> length (values s)" "drop (i + n) (values s) = drop (i + m) (values s)"
    using False by (auto simp: m_def min_def)
  have "PrefixSumComputer_removeValues s (int i) (int n) =
      rbind (psc_keep_prefix (psc_lower_valid (s\<lparr>values := ?vs\<rparr>) (int i)) (prefixSum s))
        (\<lambda>this. Inr (True, this))"
  proof -
    have idx: "toUint32 (int i) = int i" "toUint32 (int n) = int n"
      using assms(2,3) by (simp_all add: toUint32_id)
    have sub: "ta_subarray (values s) 0 (int i) = take i (values s)"
      "ta_subarray (values s) (int i + int m) (int (length (values s))) = drop (i + m) (values s)"
      using m(3) js_slice_take [of i "values s"] js_slice_drop [of "i + m" "values s"]
      by (simp_all add: ta_subarray_def)
    have "nat (int (length (values s)) - int m) = length (values s) - m" using m(3) by simp
    with False m(2) removeValues_splice [OF m(3)] show ?thesis
      by (simp add: PrefixSumComputer_removeValues_def idx Let_def m(1) sub
          flip: rbind_assoc)
  qed
  moreover obtain s' where "psc_keep_prefix (psc_lower_valid (s\<lparr>values := ?vs\<rparr>) (int i)) (prefixSum s)
      = Inr s'" "values s' = ?vs" "psc_inv s'"
  proof -
    have "i \<le> length (values s)" "i \<le> length ?vs" "take i ?vs = take i (values s)"
      using m(3) by auto
    from psc_splice_ok [OF assms(1) this] that show ?thesis by blast
  qed
  ultimately show ?thesis using m(4) by simp blast
qed

lemma PrefixSumComputer_setValue_ok:
  assumes "psc_inv s" "i < length (values s)" "int i < 2 ^ 31" "0 \<le> v" "v \<le> 4294967295"
  shows "psc_inv (snd (PrefixSumComputer_setValue s (int i) v))
    \<and> values (snd (PrefixSumComputer_setValue s (int i) v)) = (values s)[i := of_int v]"
proof (cases "uint (values s ! i) = toUint32 v")
  case True
  then have "values s ! i = of_int v"
    using of_int_toUint32 [OF assms(4,5)] by (metis word_of_int_uint)
  then have "(values s)[i := of_int v] = values s" by (metis list_update_id)
  with True assms show ?thesis by (simp add: PrefixSumComputer_setValue_def toUint32_id)
next
  case False
  let ?vs = "(values s)[i := of_int v]"
  have "psc_cache_ok ?vs (prefixSum s) (min (int i - 1) (prefixSumValidIndex s))"
    using assms(1) psc_cache_ok_take [of "values s" "prefixSum s" "prefixSumValidIndex s"
        "min (int i - 1) (prefixSumValidIndex s)" i ?vs]
    by (simp add: psc_inv_def)
  with False assms show ?thesis
    by (auto simp: PrefixSumComputer_setValue_def toUint32_id of_int_toUint32 psc_inv_def)
qed

lemma psc_sum_step_ok:
  assumes "0 < k" "k < length vs" "length p = length vs" "psc_cache_ok vs p (int k - 1)"
  shows "length (psc_sum_step vs (int k) p) = length vs"
    and "psc_cache_ok vs (psc_sum_step vs (int k) p) (int k)"
proof -
  have "js_get p (int k - 1) = Some (p ! (k - 1))"
    using assms(1-3) js_get_nat [of "k - 1" p] by (simp add: of_nat_diff)
  then have step: "psc_sum_step vs (int k) p = p[k := p ! (k - 1) + vs ! k]"
    using assms by (simp add: psc_sum_step_def)
  have "p ! (k - 1) = sum_list (take k vs)" using assms(1,4) by (simp add: psc_cache_ok_def)
  then have "p ! (k - 1) + vs ! k = sum_list (take (Suc k) vs)"
    using assms(2) by (simp add: take_Suc_conv_app_nth)
  with assms show "psc_cache_ok vs (psc_sum_step vs (int k) p) (int k)"
    by (auto simp: step psc_cache_ok_def nth_list_update)
  show "length (psc_sum_step vs (int k) p) = length vs" using assms(3) by (simp add: step)
qed

lemma psc_sum_loop:
  assumes "0 < k" "m < length vs" "length p = length vs" "psc_cache_ok vs p (int k - 1)"
  shows "length (fold (psc_sum_step vs) [int k..int m] p) = length vs
    \<and> psc_cache_ok vs (fold (psc_sum_step vs) [int k..int m] p) (max (int k - 1) (int m))"
  using assms
proof (induction "Suc m - k" arbitrary: k p)
  case 0
  then have "int m \<le> int k - 1" "[int k..int m] = []" by simp_all
  with 0 show ?case by (simp add: max_absorb1)
next
  case (Suc d)
  then have le: "k \<le> m" by simp
  then have upto: "[int k..int m] = int k # [int (Suc k)..int m]"
    by (subst upto.simps) (simp add: add.commute)
  note step = psc_sum_step_ok [of k vs p]
  have "length (fold (psc_sum_step vs) [int (Suc k)..int m] (psc_sum_step vs (int k) p)) = length vs
    \<and> psc_cache_ok vs (fold (psc_sum_step vs) [int (Suc k)..int m] (psc_sum_step vs (int k) p))
        (max (int (Suc k) - 1) (int m))"
    using Suc le step by (intro Suc.hyps(1)) auto
  then show ?case using le by (simp add: upto max_def split: if_splits)
qed

text \<open>
  \<open>_getPrefixSum\<close> returns the prefix sum, whatever part of the cache was valid, and only
  extends the cache. An index behind the last value gives the total.
\<close>

lemma PrefixSumComputer_getPrefixSum_valid_ok:
  assumes "psc_inv s" "values s \<noteq> []"
  shows "\<exists>s'. PrefixSumComputer_getPrefixSum_valid s (int i)
      = (Some (uint (sum_list (take (Suc i) (values s)))), s')
    \<and> psc_inv s' \<and> values s' = values s
    \<and> int (min i (length (values s) - 1)) \<le> prefixSumValidIndex s'"
proof (cases "int i \<le> prefixSumValidIndex s")
  case True
  with assms show ?thesis
    by (auto simp: PrefixSumComputer_getPrefixSum_valid_def psc_inv_def psc_cache_ok_def)
next
  case False
  let ?vs = "values s"
  define m where "m = min i (length ?vs - 1)"
  have m: "m < length ?vs" "(if int i \<ge> int (length ?vs) then int (length ?vs) - 1 else int i) = int m"
    "take (Suc i) ?vs = take (Suc m) ?vs" "prefixSumValidIndex s \<le> int m"
  proof -
    obtain n where n: "length ?vs = Suc n" using assms(2) by (cases ?vs) auto
    show "m < length ?vs" "(if int i \<ge> int (length ?vs) then int (length ?vs) - 1 else int i) = int m"
      by (auto simp: m_def n)
    show "take (Suc i) ?vs = take (Suc m) ?vs" by (auto simp: m_def n min_def)
    show "prefixSumValidIndex s \<le> int m"
      using False assms(1) by (auto simp: m_def n min_def psc_inv_def)
  qed
  define p0 where "p0 = (if prefixSumValidIndex s = - 1 then (prefixSum s)[0 := ?vs ! 0] else prefixSum s)"
  define k where "k = (if prefixSumValidIndex s = - 1 then 1 else nat (prefixSumValidIndex s + 1))"
  have p0: "length p0 = length ?vs" "0 < k" "psc_cache_ok ?vs p0 (int k - 1)"
    "max (int k - 1) (int m) = int m"
    using assms m by (auto simp: p0_def k_def psc_inv_def psc_cache_ok_def take_Suc_conv_app_nth)
  let ?p = "fold (psc_sum_step ?vs) [int k..int m] p0"
  have p: "length ?p = length ?vs" "psc_cache_ok ?vs ?p (int m)"
    using psc_sum_loop [OF p0(2) m(1) p0(1,3)] p0(4) by auto
  have "js_get ?vs 0 = Some (?vs ! 0)" "ta_put (prefixSum s) 0 (?vs ! 0) = (prefixSum s)[0 := ?vs ! 0]"
    using assms by (auto simp: js_get_def ta_put_def psc_inv_def)
  then have "PrefixSumComputer_getPrefixSum_valid s (int i) =
      (map_option uint (js_get ?p (int m)),
       s\<lparr>prefixSum := ?p, prefixSumValidIndex := max (prefixSumValidIndex s) (int m)\<rparr>)"
    using False assms m(2)
    by (auto simp: PrefixSumComputer_getPrefixSum_valid_def Let_def p0_def k_def psc_inv_def)
  moreover have "js_get ?p (int m) = Some (sum_list (take (Suc i) ?vs))"
    using p m by (auto simp: psc_cache_ok_def)
  moreover have "min i (length ?vs - 1) = m" by (simp add: m_def)
  ultimately show ?thesis
    using p m by (auto simp: psc_inv_def max_def)
qed

lemma PrefixSumComputer_getTotalSum_ok:
  assumes "psc_inv s"
  shows "\<exists>s'. PrefixSumComputer_getTotalSum s = (Some (uint (sum_list (values s))), s')
    \<and> psc_inv s' \<and> values s' = values s
    \<and> prefixSumValidIndex s' = int (length (values s)) - 1"
proof (cases "values s = []")
  case True
  with assms show ?thesis by (auto simp: PrefixSumComputer_getTotalSum_def psc_inv_def)
next
  case False
  then obtain n where n: "length (values s) = Suc n" by (cases "values s") auto
  obtain s' where s': "PrefixSumComputer_getPrefixSum_valid s (int n)
      = (Some (uint (sum_list (take (Suc n) (values s)))), s')"
    "psc_inv s'" "values s' = values s" "int n \<le> prefixSumValidIndex s'"
    using PrefixSumComputer_getPrefixSum_valid_ok [OF assms False, of n] n by auto
  have "PrefixSumComputer_getTotalSum s = (Some (uint (sum_list (values s))), s')"
    using s'(1) n by (simp add: PrefixSumComputer_getTotalSum_def)
  moreover have "prefixSumValidIndex s' = int n"
    using s'(2,3,4) n by (simp add: psc_inv_def)
  ultimately show ?thesis using s'(2,3) n by simp
qed

lemma PrefixSumComputer_getPrefixSum_ok:
  assumes "psc_inv s" "values s \<noteq> []" "int i < 2 ^ 31"
  shows "\<exists>s'. PrefixSumComputer_getPrefixSum s (int i)
      = (Some (uint (sum_list (take (Suc i) (values s)))), s') \<and> psc_inv s' \<and> values s' = values s"
  using PrefixSumComputer_getPrefixSum_valid_ok [OF assms(1,2), of i] assms(3)
  by (auto simp: PrefixSumComputer_getPrefixSum_def toUint32_id)

section \<open>The contract of a prefix sum table\<close>

text \<open>
  What both classes promise: \<open>prefix s n\<close> is the sum of the first \<open>n\<close> values, and
  \<open>index s x\<close> is the value that the \<open>x\<close>-th unit falls into, with the offset inside of it.
  The law determines the answer, so that any two implementations agree and the index of a
  unit given by its value and offset is found again.
\<close>

lemma sum_list_take_mono:
  fixes xs :: "nat list"
  assumes "i \<le> j"
  shows "sum_list (take i xs) \<le> sum_list (take j xs)"
proof -
  have "take j xs = take i xs @ take (j - i) (drop i xs)"
    using assms by (metis le_add_diff_inverse take_add)
  then show ?thesis by simp
qed

lemma sum_list_take_Suc:
  "i < length xs \<Longrightarrow> sum_list (take (Suc i) xs) = sum_list (take i xs) + (xs ! i :: nat)"
  by (simp add: take_Suc_conv_app_nth)

lemma unit_unique:
  fixes xs :: "nat list"
  assumes "sum_list (take i xs) + r = sum_list (take j xs) + q"
    and "i < length xs" "j < length xs" "r < xs ! i" "q < xs ! j"
  shows "i = j"
proof (rule ccontr)
  assume "i \<noteq> j"
  then consider "Suc i \<le> j" | "Suc j \<le> i" by linarith
  then show False
  proof cases
    case 1
    with assms show False using sum_list_take_mono [OF 1, of xs] sum_list_take_Suc [of i xs] by linarith
  next
    case 2
    with assms show False using sum_list_take_mono [OF 2, of xs] sum_list_take_Suc [of j xs] by linarith
  qed
qed

locale prefix_sums =
  fixes vals :: "'s \<Rightarrow> nat list"
    and ok :: "'s \<Rightarrow> bool"
    and prefix :: "'s \<Rightarrow> nat \<Rightarrow> int option"
    and index :: "'s \<Rightarrow> nat \<Rightarrow> (int \<times> int) option"
  assumes prefix_law: "ok s \<Longrightarrow> n \<le> length (vals s) \<Longrightarrow>
      prefix s n = Some (int (sum_list (take n (vals s))))"
    and index_law: "ok s \<Longrightarrow> x < sum_list (vals s) \<Longrightarrow>
      \<exists>i r. index s x = Some (int i, int r) \<and> i < length (vals s)
        \<and> sum_list (take i (vals s)) + r = x \<and> r < vals s ! i"
begin

lemma index_of_unit:
  assumes "ok s" "i < length (vals s)" "r < vals s ! i"
  shows "index s (sum_list (take i (vals s)) + r) = Some (int i, int r)"
proof -
  have "sum_list (take i (vals s)) + r < sum_list (take (Suc i) (vals s))"
    using assms(2,3) sum_list_take_Suc [of i "vals s"] by simp
  also have "\<dots> \<le> sum_list (vals s)"
    using sum_list_take_mono [of "Suc i" "length (vals s)" "vals s"] assms(2) by simp
  finally obtain j q where j: "index s (sum_list (take i (vals s)) + r) = Some (int j, int q)"
    "j < length (vals s)" "sum_list (take j (vals s)) + q = sum_list (take i (vals s)) + r"
    "q < vals s ! j"
    using index_law [OF assms(1)] by blast
  with unit_unique [OF j(3) j(2) assms(2) j(4) assms(3)] show ?thesis by simp
qed

lemma index_mono:
  assumes "ok s" "x \<le> y" "y < sum_list (vals s)" "index s x = Some (i, r)" "index s y = Some (j, q)"
  shows "i \<le> j"
proof -
  have x: "x < sum_list (vals s)" using assms(2,3) by simp
  obtain i' r' where i: "i = int i'" "sum_list (take i' (vals s)) + r' = x"
    using index_law [OF assms(1) x] assms(4) by auto
  obtain j' q' where j: "j = int j'" "j' < length (vals s)"
    "sum_list (take j' (vals s)) + q' = y" "q' < vals s ! j'"
    using index_law [OF assms(1,3)] assms(5) by auto
  show ?thesis
  proof (rule ccontr)
    assume "\<not> i \<le> j"
    then have "Suc j' \<le> i'" using i j by simp
    with i j assms(2) show False
      using sum_list_take_mono [of "Suc j'" i' "vals s"] sum_list_take_Suc [of j' "vals s"] by linarith
  qed
qed

end

subsection \<open>PrefixSumComputer meets it\<close>

lemma sum_list_of_nat: "sum_list ws = of_nat (sum_list (map unat (ws :: 32 word list)))"
  by (induction ws) simp_all

lemma unat_sum_list:
  "sum_list (map unat (ws :: 32 word list)) < 2 ^ 32 \<Longrightarrow> unat (sum_list ws) = sum_list (map unat ws)"
  by (subst sum_list_of_nat) (simp add: unat_of_nat)

definition psc_vals :: "psc \<Rightarrow> nat list" where
  "psc_vals s = map unat (values s)"

definition psc_ok :: "psc \<Rightarrow> bool" where
  "psc_ok s \<longleftrightarrow> psc_inv s \<and> values s \<noteq> [] \<and> length (values s) < 2 ^ 31
     \<and> sum_list (psc_vals s) < 2 ^ 32"

definition psc_prefix :: "psc \<Rightarrow> nat \<Rightarrow> int option" where
  "psc_prefix s n = fst (PrefixSumComputer_getPrefixSum s (int n - 1))"

definition psc_index :: "psc \<Rightarrow> nat \<Rightarrow> (int \<times> int) option" where
  "psc_index s x = Some (fst (PrefixSumComputer_getIndexOf s (int x)))"

lemma uint_sum_take:
  assumes "psc_ok s"
  shows "uint (sum_list (take n (values s))) = int (sum_list (take n (psc_vals s)))"
proof -
  have "sum_list (take n (psc_vals s)) \<le> sum_list (psc_vals s)"
    using sum_list_take_mono [of n "max n (length (psc_vals s))" "psc_vals s"] by simp
  with assms have "sum_list (map unat (take n (values s))) < 2 ^ 32"
    by (simp add: psc_ok_def psc_vals_def take_map)
  from unat_sum_list [OF this] show ?thesis by (simp add: psc_vals_def take_map uint_nat)
qed

lemma psc_prefix_law:
  assumes "psc_ok s" "n \<le> length (psc_vals s)"
  shows "psc_prefix s n = Some (int (sum_list (take n (psc_vals s))))"
proof (cases n)
  case 0
  then show ?thesis by (simp add: psc_prefix_def PrefixSumComputer_getPrefixSum_def)
next
  case (Suc i)
  have "int i < 2 ^ 31" "psc_inv s" "values s \<noteq> []"
    using assms Suc by (simp_all add: psc_ok_def psc_vals_def)
  from PrefixSumComputer_getPrefixSum_ok [OF this(2,3,1)] Suc show ?thesis
    using uint_sum_take [OF assms(1), of n] by (auto simp: psc_prefix_def)
qed

lemma psc_search_inside:
  fixes g :: "nat \<Rightarrow> int"
  assumes "mono g" "\<And>i. i < length vs \<Longrightarrow> uint (p ! i) = g (Suc i) \<and> uint (vs ! i) = g (Suc i) - g i"
    and "high < length vs" "g low \<le> x" "x < g (Suc high)"
  shows "\<exists>i. psc_search p vs x (int low) (int high) s = (int i, g i) \<and> i \<le> high
    \<and> g i \<le> x \<and> x < g (Suc i)"
  using assms(3-)
proof (induction "Suc high - low" arbitrary: low high s rule: less_induct)
  case less
  have "g low < g (Suc high)" using less.prems by simp
  then have le: "low \<le> high"
    using monoD [OF assms(1), of "Suc high" low] by (metis not_less not_less_eq_eq)
  define m where "m = low + (high - low) div 2"
  have m: "low \<le> m" "m \<le> high" "int low + (int high - int low) div 2 = int m" "nat (int m) = m"
    using le by (auto simp: m_def zdiv_int of_nat_diff)
  have p: "uint (p ! m) = g (Suc m)" "g (Suc m) - uint (vs ! m) = g m"
    using assms(2) [of m] m less.prems by simp_all
  consider "x < g m" | "g (Suc m) \<le> x" | "g m \<le> x" "x < g (Suc m)" by linarith
  then show ?case
  proof cases
    case 1
    then have "low < m" using less.prems m by (metis le_neq_implies_less not_le)
    then obtain k where k: "m = Suc k" "low \<le> k" by (metis Suc_le_D less_eq_Suc_le Suc_le_mono)
    have "psc_search p vs x (int low) (int high) s = psc_search p vs x (int low) (int k) (int m, g m)"
      using 1 le m(3,4) p k by (subst psc_search.simps) (simp add: Let_def)
    moreover have "Suc k - low < Suc high - low" "k < length vs" "x < g (Suc k)" "k \<le> high"
      using 1 k m less.prems by auto
    ultimately show ?thesis
      using less.hyps [of k low "(int m, g m)"] less.prems(2) by (metis le_trans)
  next
    case 2
    then have "\<not> x < g m" using monoD [OF assms(1), of m "Suc m"] by simp
    have "m \<noteq> high" using 2 less.prems by auto
    have "psc_search p vs x (int low) (int high) s = psc_search p vs x (int (Suc m)) (int high) (int m, g m)"
      using 2 \<open>\<not> x < g m\<close> le m(3,4) p by (subst psc_search.simps) (simp add: Let_def add.commute)
    with less.hyps [of high "Suc m" "(int m, g m)"] 2 \<open>m \<noteq> high\<close> m less.prems show ?thesis by auto
  next
    case 3
    then have "psc_search p vs x (int low) (int high) s = (int m, g m)"
      using le m(3,4) p by (subst psc_search.simps) (simp add: Let_def)
    with 3 m show ?thesis by blast
  qed
qed

lemma psc_index_law:
  assumes "psc_ok s" "x < sum_list (psc_vals s)"
  shows "\<exists>i r. psc_index s x = Some (int i, int r) \<and> i < length (psc_vals s)
        \<and> sum_list (take i (psc_vals s)) + r = x \<and> r < psc_vals s ! i"
proof -
  define g where "g n = int (sum_list (take n (psc_vals s)))" for n
  obtain s' where s': "PrefixSumComputer_getTotalSum s = (Some (uint (sum_list (values s))), s')"
    "psc_inv s'" "values s' = values s" "prefixSumValidIndex s' = int (length (values s)) - 1"
    using PrefixSumComputer_getTotalSum_ok [of s] assms(1) by (auto simp: psc_ok_def)
  obtain n where n: "length (values s) = Suc n"
    using assms(1) by (cases "values s") (auto simp: psc_ok_def)
  have len: "length (psc_vals s) = Suc n" by (simp add: psc_vals_def n)
  have g_step: "g (Suc i) - g i = int (psc_vals s ! i)" if "i < Suc n" for i
    using sum_list_take_Suc [of i "psc_vals s"] that len by (simp add: g_def)
  have "uint (prefixSum s' ! i) = g (Suc i) \<and> uint (values s ! i) = g (Suc i) - g i"
    if "i < length (values s)" for i
  proof
    have "prefixSum s' ! i = sum_list (take (Suc i) (values s))"
      using s'(2-4) that by (simp add: psc_inv_def psc_cache_ok_def)
    then show "uint (prefixSum s' ! i) = g (Suc i)" using uint_sum_take [OF assms(1)] by (simp add: g_def)
    show "uint (values s ! i) = g (Suc i) - g i"
      using g_step [of i] that n by (simp add: psc_vals_def)
  qed
  moreover have "mono g" by (simp add: mono_def g_def sum_list_take_mono)
  moreover have "g 0 \<le> int x" "int x < g (Suc n)" using assms(2) len by (simp_all add: g_def)
  ultimately obtain i where i: "psc_search (prefixSum s') (values s) (int x) (int 0) (int n) (0, 0) = (int i, g i)"
    "i \<le> n" "g i \<le> int x" "int x < g (Suc i)"
    using psc_search_inside [of g "values s" "prefixSum s'" n 0 "int x" "(0, 0)"] n
    by (metis lessI)
  have "psc_index s x = Some (int i, int (x - sum_list (take i (psc_vals s))))"
    using i s'(1,3) n by (simp add: psc_index_def PrefixSumComputer_getIndexOf_def g_def of_nat_diff)
  moreover have "sum_list (take i (psc_vals s)) + (x - sum_list (take i (psc_vals s))) = x"
    using i(3) by (simp add: g_def)
  moreover have "x - sum_list (take i (psc_vals s)) < psc_vals s ! i"
    using i(3,4) g_step [of i] i(2) by (simp add: g_def)
  ultimately show ?thesis using i(2) len by (metis le_imp_less_Suc)
qed

interpretation psc_sums: prefix_sums psc_vals psc_ok psc_prefix psc_index
  by unfold_locales (auto intro: psc_prefix_law psc_index_law)

subsection \<open>ConstantTimePrefixSumComputer meets it\<close>

text \<open>
  The entries of the two tables that can be trusted for the first \<open>n\<close> values: the prefix
  sums, and for every unit below the \<open>n\<close>-th prefix sum the value it falls into.
\<close>

definition ct_prefix_ok :: "nat list \<Rightarrow> nat \<Rightarrow> nat option list \<Rightarrow> bool" where
  "ct_prefix_ok vs n p \<longleftrightarrow>
     n \<le> length p \<and> (\<forall>i<n. p ! i = Some (sum_list (take (Suc i) vs)))"

definition ct_table_ok :: "nat list \<Rightarrow> nat \<Rightarrow> int option list \<Rightarrow> bool" where
  "ct_table_ok vs n ix \<longleftrightarrow> sum_list (take n vs) \<le> length ix
     \<and> (\<forall>x < sum_list (take n vs). \<exists>i<n. ix ! x = Some (int i)
          \<and> sum_list (take i vs) \<le> x \<and> x < sum_list (take (Suc i) vs))"

definition ct_vals :: "ctsc \<Rightarrow> nat list" where
  "ct_vals s = map the (ct_values s)"

definition ct_inv :: "ctsc \<Rightarrow> bool" where
  "ct_inv s \<longleftrightarrow> None \<notin> set (ct_values s)
     \<and> - 1 \<le> ct_validEndIndex s \<and> ct_validEndIndex s < int (length (ct_values s))
     \<and> ct_prefix_ok (ct_vals s) (nat (ct_validEndIndex s + 1)) (ct_prefixSum s)
     \<and> ct_table_ok (ct_vals s) (nat (ct_validEndIndex s + 1)) (ct_indexBySum s)
     \<and> (ct_isValid s \<longrightarrow> ct_values s \<noteq> [] \<and> ct_validEndIndex s = int (length (ct_values s)) - 1
          \<and> length (ct_prefixSum s) = length (ct_values s)
          \<and> length (ct_indexBySum s) = sum_list (ct_vals s))"

lemma length_ct_vals [simp]: "length (ct_vals s) = length (ct_values s)"
  by (simp add: ct_vals_def)

lemma ct_inv_new: "None \<notin> set vs \<Longrightarrow> ct_inv (ConstantTime_new vs)"
  by (auto simp: ct_inv_def ConstantTime_new_def ct_prefix_ok_def ct_table_ok_def)

lemma js_elem_nat [simp]: "i < length xs \<Longrightarrow> js_elem xs (int i) = xs ! i"
  by (simp add: js_elem_def)

lemma js_put_nat:
  "js_put xs (int i) v = (if i < length xs then xs[i := v] else xs @ replicate (i - length xs) None @ [v])"
  by (simp add: js_put_def)

lemma js_put_length: "i \<le> length xs \<Longrightarrow> length (js_put xs (int i) v) = max (length xs) (Suc i)"
  by (auto simp: js_put_nat max_def)

lemma js_put_nth:
  "i \<le> length xs \<Longrightarrow> k < length xs \<or> k = i \<Longrightarrow> js_put xs (int i) v ! k = (if k = i then v else xs ! k)"
  by (auto simp: js_put_nat nth_append)

text \<open>The inner loop fills the entries of one value and touches nothing below.\<close>

lemma ct_fill_ok:
  assumes "a \<le> length ix"
  shows "length (ct_fill i a v ix) = max (length ix) (a + v)"
    and "x < a \<Longrightarrow> ct_fill i a v ix ! x = ix ! x"
    and "a \<le> x \<Longrightarrow> x < a + v \<Longrightarrow> ct_fill i a v ix ! x = Some i"
proof -
  have "length (ct_fill i a v ix) = max (length ix) (a + v)
    \<and> (\<forall>x<a + v. ct_fill i a v ix ! x = (if x < a then ix ! x else Some i))"
  proof (induction v)
    case 0
    with assms show ?case by (simp add: ct_fill_def)
  next
    case (Suc v)
    have step: "ct_fill i a (Suc v) ix = js_put (ct_fill i a v ix) (int (a + v)) (Some i)"
      by (simp add: ct_fill_def)
    have le: "a + v \<le> length (ct_fill i a v ix)" using Suc by simp
    have "length (ct_fill i a (Suc v) ix) = max (length ix) (a + Suc v)"
      using Suc le js_put_length [OF le, of "Some i"] by (simp add: step)
    moreover have "ct_fill i a (Suc v) ix ! x = (if x < a then ix ! x else Some i)"
      if "x < a + Suc v" for x
    proof -
      have "x < length (ct_fill i a v ix) \<or> x = a + v" using Suc that by auto
      with js_put_nth [OF le this, of "Some i"] Suc that show ?thesis by (auto simp: step)
    qed
    ultimately show ?case by blast
  qed
  then show "length (ct_fill i a v ix) = max (length ix) (a + v)"
    and "x < a \<Longrightarrow> ct_fill i a v ix ! x = ix ! x"
    and "a \<le> x \<Longrightarrow> x < a + v \<Longrightarrow> ct_fill i a v ix ! x = Some i"
    by auto
qed

lemma ct_ensure_step_ok:
  assumes "k < length vs" "None \<notin> set vs" "ct_prefix_ok (map the vs) k p" "ct_table_ok (map the vs) k ix"
  shows "\<exists>p' ix'. ct_ensure_step vs (int k) (p, ix) = (p', ix')
    \<and> ct_prefix_ok (map the vs) (Suc k) p' \<and> ct_table_ok (map the vs) (Suc k) ix'"
proof -
  let ?a = "sum_list (take k (map the vs))" and ?v = "the (vs ! k)"
  have v: "vs ! k = Some ?v" using assms(1,2) by (metis nth_mem option.collapse)
  have above: "(if int k > 0 then js_elem p (int k - 1) else Some 0) = Some ?a"
  proof (cases k)
    case (Suc j)
    then show ?thesis using assms(3) js_elem_nat [of j p] by (simp add: ct_prefix_ok_def)
  qed simp
  have sum: "sum_list (take (Suc k) (map the vs)) = ?a + ?v"
    using assms(1) sum_list_take_Suc [of k "map the vs"] by simp
  have "ct_ensure_step vs (int k) (p, ix) = (js_put p (int k) (Some (?a + ?v)), ct_fill (int k) ?a ?v ix)"
    using assms(1) v above by (cases "vs ! k") (simp_all add: ct_ensure_step_def Let_def)
  moreover have "ct_prefix_ok (map the vs) (Suc k) (js_put p (int k) (Some (?a + ?v)))"
  proof -
    have k: "k \<le> length p" using assms(3) by (simp add: ct_prefix_ok_def)
    have "js_put p (int k) (Some (?a + ?v)) ! i = Some (sum_list (take (Suc i) (map the vs)))"
      if "i < Suc k" for i
      using js_put_nth [OF k, of i "Some (?a + ?v)"] that k sum assms(3)
      by (auto simp: ct_prefix_ok_def less_Suc_eq)
    with js_put_length [OF k] show ?thesis by (simp add: ct_prefix_ok_def)
  qed
  moreover have "ct_table_ok (map the vs) (Suc k) (ct_fill (int k) ?a ?v ix)"
  proof -
    have le: "?a \<le> length ix" using assms(4) by (simp add: ct_table_ok_def)
    note fill = ct_fill_ok [OF le, where i = "int k" and v = ?v]
    have "\<exists>i<Suc k. ct_fill (int k) ?a ?v ix ! x = Some (int i)
        \<and> sum_list (take i (map the vs)) \<le> x \<and> x < sum_list (take (Suc i) (map the vs))"
      if x: "x < sum_list (take (Suc k) (map the vs))" for x
    proof (cases "x < ?a")
      case True
      then obtain i where "i < k" "ix ! x = Some (int i)" "sum_list (take i (map the vs)) \<le> x"
        "x < sum_list (take (Suc i) (map the vs))"
        using assms(4) unfolding ct_table_ok_def by blast
      with fill(2) [OF True] show ?thesis by (metis less_SucI)
    next
      case False
      with fill(3) [of x] x sum show ?thesis by (intro exI [of _ k]) simp
    qed
    with fill(1) sum show ?thesis unfolding ct_table_ok_def by simp
  qed
  ultimately show ?thesis by blast
qed

lemma ct_ensure_loop:
  assumes "k \<le> length vs" "None \<notin> set vs" "ct_prefix_ok (map the vs) k p" "ct_table_ok (map the vs) k ix"
  shows "\<exists>p' ix'. fold (ct_ensure_step vs) [int k..int (length vs) - 1] (p, ix) = (p', ix')
    \<and> ct_prefix_ok (map the vs) (length vs) p' \<and> ct_table_ok (map the vs) (length vs) ix'"
  using assms
proof (induction "length vs - k" arbitrary: k p ix)
  case 0
  then show ?case by simp
next
  case (Suc d)
  then have k: "k < length vs" by simp
  then have upto: "[int k..int (length vs) - 1] = int k # [int (Suc k)..int (length vs) - 1]"
    by (subst upto.simps) (simp add: add.commute)
  obtain p' ix' where step: "ct_ensure_step vs (int k) (p, ix) = (p', ix')"
    "ct_prefix_ok (map the vs) (Suc k) p'" "ct_table_ok (map the vs) (Suc k) ix'"
    using ct_ensure_step_ok [OF k Suc.prems(2-4)] by blast
  have "d = length vs - Suc k" "Suc k \<le> length vs" using Suc.hyps(2) k by simp_all
  from Suc.hyps(1) [OF this Suc.prems(2) step(2,3)] show ?case by (simp add: upto step(1))
qed

lemma ConstantTime_ensureValid_ok:
  assumes "ct_inv s" "ct_values s \<noteq> []"
  shows "\<exists>s'. ConstantTime_ensureValid s = Inr s' \<and> ct_inv s' \<and> ct_isValid s' \<and> ct_values s' = ct_values s"
proof (cases "ct_isValid s")
  case True
  with assms show ?thesis by (simp add: ConstantTime_ensureValid_def)
next
  case False
  let ?vs = "ct_values s" and ?n = "length (ct_values s)"
  define k where "k = nat (ct_validEndIndex s + 1)"
  have k: "int k = ct_validEndIndex s + 1" "k \<le> ?n" using assms(1) by (auto simp: k_def ct_inv_def)
  obtain p ix where loop: "fold (ct_ensure_step ?vs) [int k..int ?n - 1] (ct_prefixSum s, ct_indexBySum s) = (p, ix)"
    and p: "ct_prefix_ok (ct_vals s) ?n p" and ix: "ct_table_ok (ct_vals s) ?n ix"
    using ct_ensure_loop [OF k(2), of "ct_prefixSum s" "ct_indexBySum s"] assms(1)
    by (auto simp: ct_inv_def ct_vals_def k_def)
  have len: "?n \<le> length p" "js_set_length p ?n = take ?n p"
    using p by (simp_all add: ct_prefix_ok_def js_set_length_def)
  obtain m where m: "?n = Suc m" using assms(2) by (cases ?vs) auto
  have total: "sum_list (take ?n (ct_vals s)) = sum_list (ct_vals s)" by simp
  have "js_elem (take ?n p) (int ?n - 1) = Some (sum_list (ct_vals s))"
    using p len m total js_elem_nat [of m "take ?n p"] by (simp add: ct_prefix_ok_def)
  then have "ConstantTime_ensureValid s =
      Inr (s\<lparr>ct_prefixSum := take ?n p, ct_indexBySum := js_set_length ix (sum_list (ct_vals s)),
             ct_isValid := True, ct_validEndIndex := int ?n - 1\<rparr>)" (is "_ = Inr ?t")
    using False len loop k(1) by (simp add: ConstantTime_ensureValid_def Let_def)
  moreover have "ct_inv ?t"
  proof -
    have vals: "ct_vals ?t = ct_vals s" by (simp add: ct_vals_def)
    have "ct_prefix_ok (ct_vals s) ?n (take ?n p)" using p by (simp add: ct_prefix_ok_def)
    moreover have "js_set_length ix (sum_list (ct_vals s)) = take (sum_list (ct_vals s)) ix"
      using ix total by (simp add: ct_table_ok_def js_set_length_def)
    moreover have "ct_table_ok (ct_vals s) ?n (take (sum_list (ct_vals s)) ix)"
      using ix by (simp add: ct_table_ok_def)
    ultimately show ?thesis
      using assms len ix total unfolding ct_inv_def vals by (simp add: ct_table_ok_def)
  qed
  ultimately show ?thesis by simp
qed

lemma ct_prefix_ok_take:
  assumes "ct_prefix_ok vs n p" "m \<le> n" "take m vs' = take m vs"
  shows "ct_prefix_ok vs' m p"
proof -
  have "take (Suc i) vs' = take (Suc i) vs" if "i < m" for i
    using arg_cong [OF assms(3), of "take (Suc i)"] that by (simp add: min_def split: if_splits)
  with assms(1,2) show ?thesis by (simp add: ct_prefix_ok_def)
qed

lemma ct_table_ok_take:
  assumes "ct_table_ok vs n ix" "m \<le> n" "take m vs' = take m vs"
  shows "ct_table_ok vs' m ix"
proof -
  have take: "take i vs' = take i vs" if "i \<le> m" for i
    using arg_cong [OF assms(3), of "take i"] that by (simp add: min_def)
  have le: "sum_list (take m vs) \<le> sum_list (take n vs)" using sum_list_take_mono [OF assms(2)] .
  have "\<exists>i<m. ix ! x = Some (int i) \<and> sum_list (take i vs') \<le> x \<and> x < sum_list (take (Suc i) vs')"
    if x: "x < sum_list (take m vs')" for x
  proof -
    have "x < sum_list (take n vs)" using x le take [of m] by simp
    then obtain i where i: "ix ! x = Some (int i)" "sum_list (take i vs) \<le> x"
      "x < sum_list (take (Suc i) vs)"
      using assms(1) unfolding ct_table_ok_def by blast
    have "i < m"
      using sum_list_take_mono [of m i vs] x take [of m] i(2) by (metis leD le_trans linorder_le_less_linear order_refl)
    then show ?thesis using i take [of i] take [of "Suc i"] by auto
  qed
  with assms(1) le take [of m] show ?thesis unfolding ct_table_ok_def by auto
qed

lemma ConstantTime_invalidate_ok:
  assumes "ct_inv s" "i \<le> length (ct_values s)" "i \<le> length vs" "None \<notin> set vs"
    and "take i vs = take i (ct_values s)"
  shows "ct_inv (ConstantTime_invalidate (s\<lparr>ct_values := vs\<rparr>) (int i))"
proof -
  define m where "m = min i (nat (ct_validEndIndex s + 1))"
  have m: "min (ct_validEndIndex s) (int i - 1) = int m - 1" "m \<le> nat (ct_validEndIndex s + 1)" "m \<le> i"
    using assms(1) by (auto simp: m_def ct_inv_def min_def)
  have "take m (map the vs) = take m (ct_vals s)"
    using arg_cong [OF assms(5), of "\<lambda>x. map the (take m x)"] m(3)
    by (simp add: ct_vals_def take_map min_def)
  note tk = m(2) this
  have "ct_prefix_ok (map the vs) m (ct_prefixSum s)" "ct_table_ok (map the vs) m (ct_indexBySum s)"
    using assms(1) ct_prefix_ok_take [OF _ tk] ct_table_ok_take [OF _ tk] by (auto simp: ct_inv_def)
  then show ?thesis
    using m assms(3,4) by (simp add: ct_inv_def ConstantTime_invalidate_def ct_vals_def)
qed

lemma ConstantTime_invalidate_sel [simp]: "ct_values (ConstantTime_invalidate s i) = ct_values s"
  by (simp add: ConstantTime_invalidate_def)

definition ct_ok :: "ctsc \<Rightarrow> bool" where
  "ct_ok s \<longleftrightarrow> ct_inv s \<and> ct_values s \<noteq> []"

definition ct_prefix :: "ctsc \<Rightarrow> nat \<Rightarrow> int option" where
  "ct_prefix s n =
     (case ConstantTime_getPrefixSum s (int n) of Inr (v, _) \<Rightarrow> map_option int v | Inl _ \<Rightarrow> None)"

definition ct_index :: "ctsc \<Rightarrow> nat \<Rightarrow> (int \<times> int) option" where
  "ct_index s x =
     (case ConstantTime_getIndexOf s (int x) of
        Inr ((Some i, Some r), _) \<Rightarrow> Some (i, r) | _ \<Rightarrow> None)"

lemma ct_valid_tables:
  assumes "ct_inv s" "ct_isValid s"
  shows "ct_prefix_ok (ct_vals s) (length (ct_values s)) (ct_prefixSum s)"
    and "ct_table_ok (ct_vals s) (length (ct_values s)) (ct_indexBySum s)"
    and "length (ct_indexBySum s) = sum_list (ct_vals s)"
  using assms by (auto simp: ct_inv_def)

lemma ct_prefix_law:
  assumes "ct_ok s" "n \<le> length (ct_vals s)"
  shows "ct_prefix s n = Some (int (sum_list (take n (ct_vals s))))"
proof -
  obtain s' where s': "ConstantTime_ensureValid s = Inr s'" "ct_inv s'" "ct_isValid s'"
    "ct_values s' = ct_values s"
    using ConstantTime_ensureValid_ok assms(1) unfolding ct_ok_def by blast
  show ?thesis
  proof (cases n)
    case 0
    then show ?thesis using s'(1) by (simp add: ct_prefix_def ConstantTime_getPrefixSum_def)
  next
    case (Suc i)
    have "js_elem (ct_prefixSum s') (int i) = Some (sum_list (take n (ct_vals s)))"
      using ct_valid_tables(1) [OF s'(2,3)] s'(4) Suc assms(2)
      by (simp add: ct_prefix_ok_def ct_vals_def)
    with Suc s'(1) show ?thesis by (simp add: ct_prefix_def ConstantTime_getPrefixSum_def)
  qed
qed

lemma ct_index_law:
  assumes "ct_ok s" "x < sum_list (ct_vals s)"
  shows "\<exists>i r. ct_index s x = Some (int i, int r) \<and> i < length (ct_vals s)
        \<and> sum_list (take i (ct_vals s)) + r = x \<and> r < ct_vals s ! i"
proof -
  obtain s' where s': "ConstantTime_ensureValid s = Inr s'" "ct_inv s'" "ct_isValid s'"
    "ct_values s' = ct_values s"
    using ConstantTime_ensureValid_ok assms(1) unfolding ct_ok_def by blast
  have vals: "ct_vals s' = ct_vals s" using s'(4) by (simp add: ct_vals_def)
  note tables = ct_valid_tables [OF s'(2,3), unfolded vals s'(4)]
  obtain i where i: "i < length (ct_values s)" "ct_indexBySum s' ! x = Some (int i)"
    "sum_list (take i (ct_vals s)) \<le> x" "x < sum_list (take (Suc i) (ct_vals s))"
    using tables(2) assms(2) by (auto simp: ct_table_ok_def)
  have "(if int i > 0 then js_elem (ct_prefixSum s') (int i - 1) else Some 0)
      = Some (sum_list (take i (ct_vals s)))"
  proof (cases i)
    case (Suc j)
    then show ?thesis using tables(1) i(1) js_elem_nat [of j "ct_prefixSum s'"] by (simp add: ct_prefix_ok_def)
  qed simp
  then have "ct_index s x = Some (int i, int (x - sum_list (take i (ct_vals s))))"
    using s'(1) i(2,3) tables(3) assms(2) js_elem_nat [of x "ct_indexBySum s'"]
    by (simp add: ct_index_def ConstantTime_getIndexOf_def Let_def of_nat_diff)
  moreover have "x - sum_list (take i (ct_vals s)) < ct_vals s ! i"
    using i sum_list_take_Suc [of i "ct_vals s"] by simp
  moreover have "sum_list (take i (ct_vals s)) + (x - sum_list (take i (ct_vals s))) = x" using i(3) by simp
  ultimately show ?thesis using i(1) length_ct_vals by metis
qed

interpretation ct_sums: prefix_sums ct_vals ct_ok ct_prefix ct_index
  by unfold_locales (rule ct_prefix_law ct_index_law; assumption)+

section \<open>Properties\<close>

text \<open>
  C37. The edits of \<open>PrefixSumComputer\<close> keep the cache invariant and edit the list of values:
  from a state whose cache is valid up to its index, inserting, removing and setting values
  at indices inside the array (below \<open>2 ^ 31\<close>) never throw, leave such a state, and change
  the values as a list insertion, a (clamped) removal and an update do.
\<close>

theorem PrefixSumComputer_edits:
  assumes "psc_inv s" "length (values s) < 2 ^ 31" "i < length (values s)" "n < 2 ^ 31"
    and "0 \<le> v" "v \<le> 4294967295"
  shows "(\<exists>s'. PrefixSumComputer_insertValues s (int i) ins = Inr (ins \<noteq> [], s') \<and> psc_inv s'
            \<and> values s' = take i (values s) @ ins @ drop i (values s))
    \<and> (\<exists>b s'. PrefixSumComputer_removeValues s (int i) (int n) = Inr (b, s') \<and> psc_inv s'
            \<and> values s' = take i (values s) @ drop (i + n) (values s))
    \<and> psc_inv (snd (PrefixSumComputer_setValue s (int i) v))
    \<and> values (snd (PrefixSumComputer_setValue s (int i) v)) = (values s)[i := of_int v]"
proof -
  have i: "int i < 2 ^ 31" "i \<le> length (values s)" and n: "int n < 2 ^ 31" using assms(2-4) by simp_all
  show ?thesis
    using PrefixSumComputer_insertValues_ok [OF assms(1) i(2,1)]
      PrefixSumComputer_removeValues_ok [OF assms(1) i(1) n assms(2)]
      PrefixSumComputer_setValue_ok [OF assms(1,3) i(1) assms(5,6)]
    by blast
qed

theorem PrefixSumComputer_edits_witness:
  "\<exists>s'. PrefixSumComputer_insertValues (PrefixSumComputer_new [3, 4]) 1 [7] = Inr (True, s')
     \<and> psc_inv s' \<and> values s' = [3, 7, 4]"
  using PrefixSumComputer_edits [OF psc_inv_new, of "[3, 4]" 1 0 5 "[7]"]
  by (simp add: PrefixSumComputer_new_def)

text \<open>
  C38. The queries of \<open>PrefixSumComputer\<close> in any state with a valid cache and a total below
  \<open>2 ^ 32\<close>: \<open>getPrefixSum\<close> and \<open>getTotalSum\<close> return the sums of the values (the whole sum
  for an index behind the end), and \<open>getIndexOf\<close> returns the value that the unit falls
  into and the offset in it. All of them leave the values unchanged and the cache valid.
\<close>

theorem PrefixSumComputer_queries:
  assumes "psc_ok s"
  shows "(int i < 2 ^ 31 \<longrightarrow>
            fst (PrefixSumComputer_getPrefixSum s (int i)) = Some (int (sum_list (take (Suc i) (psc_vals s))))
          \<and> psc_ok (snd (PrefixSumComputer_getPrefixSum s (int i)))
          \<and> values (snd (PrefixSumComputer_getPrefixSum s (int i))) = values s)
    \<and> fst (PrefixSumComputer_getTotalSum s) = Some (int (sum_list (psc_vals s)))
    \<and> (i < length (psc_vals s) \<and> r < psc_vals s ! i \<longrightarrow>
        fst (PrefixSumComputer_getIndexOf s (int (sum_list (take i (psc_vals s)) + r))) = (int i, int r))"
proof -
  have s: "psc_inv s" "values s \<noteq> []" using assms by (simp_all add: psc_ok_def)
  have "fst (PrefixSumComputer_getPrefixSum s (int i)) = Some (int (sum_list (take (Suc i) (psc_vals s))))
          \<and> psc_ok (snd (PrefixSumComputer_getPrefixSum s (int i)))
          \<and> values (snd (PrefixSumComputer_getPrefixSum s (int i))) = values s" if "int i < 2 ^ 31"
    using PrefixSumComputer_getPrefixSum_ok [OF s that] assms uint_sum_take [OF assms, of "Suc i"]
    by (auto simp: psc_ok_def psc_vals_def)
  moreover have "fst (PrefixSumComputer_getTotalSum s) = Some (int (sum_list (psc_vals s)))"
    using PrefixSumComputer_getTotalSum_ok [OF s(1)] uint_sum_take [OF assms, of "length (values s)"]
    by (auto simp: psc_vals_def)
  moreover have "fst (PrefixSumComputer_getIndexOf s (int (sum_list (take i (psc_vals s)) + r))) = (int i, int r)"
    if "i < length (psc_vals s) \<and> r < psc_vals s ! i"
    using psc_sums.index_of_unit [OF assms] that by (simp add: psc_index_def)
  ultimately show ?thesis by blast
qed

theorem PrefixSumComputer_queries_witness:
  "fst (PrefixSumComputer_getIndexOf (PrefixSumComputer_new [3, 0, 4]) 5) = (2, 2)
   \<and> fst (PrefixSumComputer_getTotalSum (PrefixSumComputer_new [3, 0, 4])) = Some 7"
proof -
  have "psc_ok (PrefixSumComputer_new [3, 0, 4])"
    using psc_inv_new [of "[3, 0, 4]"]
    by (simp add: psc_ok_def PrefixSumComputer_new_def psc_vals_def)
  from PrefixSumComputer_queries [OF this, of 2 2] show ?thesis
    by (simp add: PrefixSumComputer_new_def psc_vals_def)
qed

text \<open>
  C39. The edits of \<open>ConstantTimePrefixSumComputer\<close> keep the invariant of its two tables and
  edit the list of values.
\<close>

theorem ConstantTime_edits:
  assumes "ct_inv s" "i \<le> length (ct_values s)"
  shows "ct_inv (ConstantTime_removeValues s (int i) (int n))
    \<and> ct_vals (ConstantTime_removeValues s (int i) (int n)) = take i (ct_vals s) @ drop (i + n) (ct_vals s)
    \<and> ct_inv (ConstantTime_insertValues s (int i) (map Some ins))
    \<and> ct_vals (ConstantTime_insertValues s (int i) (map Some ins)) = take i (ct_vals s) @ ins @ drop i (ct_vals s)
    \<and> (i < length (ct_values s) \<longrightarrow> ct_inv (ConstantTime_setValue s (int i) v)
        \<and> ct_vals (ConstantTime_setValue s (int i) v) = (ct_vals s)[i := v])"
proof -
  have some: "None \<notin> set (ct_values s)" using assms(1) by (simp add: ct_inv_def)
  have remove: "js_splice (ct_values s) (int i) (int n) [] = take i (ct_values s) @ drop (i + n) (ct_values s)"
    using js_splice_nat [OF assms(2), of n "[]"] by simp
  have "ct_inv (ConstantTime_removeValues s (int i) (int n))"
    unfolding ConstantTime_removeValues_def remove
    using assms some by (intro ConstantTime_invalidate_ok) (auto dest: in_set_takeD in_set_dropD)
  moreover have "ct_inv (ConstantTime_insertValues s (int i) (map Some ins))"
    unfolding ConstantTime_insertValues_def arrayInsert_nat [OF assms(2)]
    using assms some by (intro ConstantTime_invalidate_ok) (auto dest: in_set_takeD in_set_dropD)
  moreover have "ct_inv (ConstantTime_setValue s (int i) v)" if "i < length (ct_values s)"
  proof -
    have "None \<notin> set ((ct_values s)[i := Some v])"
      using some set_update_subset_insert [of "ct_values s" i "Some v"] by auto
    with assms that show ?thesis
      by (auto simp: ConstantTime_setValue_def js_put_nat intro!: ConstantTime_invalidate_ok)
  qed
  moreover have "ct_vals (ConstantTime_setValue s (int i) v) = (ct_vals s)[i := v]"
    if "i < length (ct_values s)"
  proof (cases "ct_values s ! i = Some v")
    case True
    then have "(ct_values s)[i := Some v] = ct_values s" by (metis list_update_id)
    then have "(ct_vals s)[i := v] = ct_vals s" by (metis ct_vals_def map_update option.sel)
    with True that show ?thesis by (simp add: ConstantTime_setValue_def)
  next
    case False
    with that show ?thesis by (simp add: ConstantTime_setValue_def js_put_nat ct_vals_def map_update)
  qed
  moreover have "ct_vals (ConstantTime_removeValues s (int i) (int n)) = take i (ct_vals s) @ drop (i + n) (ct_vals s)"
    by (simp add: ConstantTime_removeValues_def remove ct_vals_def take_map drop_map)
  moreover have "ct_vals (ConstantTime_insertValues s (int i) (map Some ins)) = take i (ct_vals s) @ ins @ drop i (ct_vals s)"
    by (simp add: ConstantTime_insertValues_def arrayInsert_nat [OF assms(2)] ct_vals_def take_map drop_map comp_def)
  ultimately show ?thesis by blast
qed

theorem ConstantTime_edits_witness:
  "ct_inv (ConstantTime_insertValues (ConstantTime_new [Some 2, Some 5]) 1 [Some 9])
   \<and> ct_vals (ConstantTime_insertValues (ConstantTime_new [Some 2, Some 5]) 1 [Some 9]) = [2, 9, 5]"
  using ConstantTime_edits [OF ct_inv_new, of "[Some 2, Some 5]" 1 0 "[9]" 0]
  by (simp add: ConstantTime_new_def ct_vals_def)

text \<open>
  C40. The constant-time table answers as the binary search does: for states of the two
  classes that hold the same values, \<open>getIndexOf\<close> gives the same index and remainder for
  every unit below the total, and adding the remainder to the prefix sum of the index gives
  the unit back, as the documentation of \<open>getIndexOf\<close> says.
\<close>

theorem ConstantTime_agrees_with_search:
  assumes "psc_ok p" "ct_ok c" "ct_vals c = psc_vals p" "x < sum_list (ct_vals c)"
  shows "\<exists>i r. ct_index c x = Some (int i, int r) \<and> psc_index p x = Some (int i, int r)
    \<and> ct_prefix c i = Some (int x - int r) \<and> psc_prefix p i = Some (int x - int r)"
proof -
  obtain i r where i: "psc_index p x = Some (int i, int r)" "i < length (psc_vals p)"
    "sum_list (take i (psc_vals p)) + r = x" "r < psc_vals p ! i"
    using psc_sums.index_law [OF assms(1), of x] assms(3,4) by auto
  have "ct_index c x = Some (int i, int r)"
    using ct_sums.index_of_unit [OF assms(2), of i r] i assms(3) by simp
  moreover have "ct_prefix c i = Some (int x - int r)" "psc_prefix p i = Some (int x - int r)"
    using ct_sums.prefix_law [OF assms(2), of i] psc_sums.prefix_law [OF assms(1), of i] i assms(3) by auto
  ultimately show ?thesis using i(1) by blast
qed

theorem ConstantTime_agrees_with_search_witness:
  "\<exists>i r. ct_index (ConstantTime_new [Some 2, Some 5]) 4 = Some (int i, int r)
     \<and> psc_index (PrefixSumComputer_new [2, 5]) 4 = Some (int i, int r)
     \<and> ct_prefix (ConstantTime_new [Some 2, Some 5]) i = Some (int 4 - int r)
     \<and> psc_prefix (PrefixSumComputer_new [2, 5]) i = Some (int 4 - int r)"
proof (rule ConstantTime_agrees_with_search)
  show "psc_ok (PrefixSumComputer_new [2, 5])"
    using psc_inv_new [of "[2, 5]"]
    by (simp add: psc_ok_def PrefixSumComputer_new_def psc_vals_def)
  show "ct_ok (ConstantTime_new [Some 2, Some 5])"
    using ct_inv_new [of "[Some 2, Some 5]"] by (simp add: ct_ok_def ConstantTime_new_def)
  show "ct_vals (ConstantTime_new [Some 2, Some 5]) = psc_vals (PrefixSumComputer_new [2, 5])"
    by (simp add: ct_vals_def psc_vals_def ConstantTime_new_def PrefixSumComputer_new_def)
  show "4 < sum_list (ct_vals (ConstantTime_new [Some 2, Some 5]))"
    by (simp add: ct_vals_def ConstantTime_new_def)
qed

text \<open>
  The helper \<open>toUint32\<close> is not the identity on unsigned 32-bit numbers: from \<open>2 ^ 31\<close> on
  it returns the negative number with the same bits, because it ends in \<open>v | 0\<close>. A
  \<open>ConstantTimePrefixSumComputer\<close> without values throws on every query, because it sets
  the length of its inverse table to an undefined last prefix sum.
\<close>

lemma prefix_sum_edge_cases:
  "(2 ^ 31 \<le> v \<and> v < 2 ^ 32 \<longrightarrow> toUint32 v = v - 2 ^ 32)
   \<and> ConstantTime_getTotalSum (ConstantTime_new [])
       = Inl (GenericError ''RangeError: Invalid array length'')"
proof -
  have "(v + 2147483648) mod 4294967296 = v - 2147483648" if "2147483648 \<le> v" "v < 4294967296"
    using that mod_add_self2 [of "v - 2147483648" 4294967296] by (simp add: add.commute)
  then show ?thesis
    by (auto simp: toUint32_def to_int32_def ConstantTime_getTotalSum_def ConstantTime_ensureValid_def
        ConstantTime_new_def js_set_length_def js_elem_def js_get_def Let_def)
qed

end
