(* ===== verification/ContextKeys.thy ===== *)
theory ContextKeys
  imports JsValues
begin

text \<open>
  \<open>src/patched-vscode/src/vs/platform/contextkey/common/contextkey.ts\<close>: the expressions of
  \<open>when\<close> clauses. Every class of expressions is a constructor of the datatype \<open>expr\<close>, every
  method a definition \<open><Class>_<method>\<close>, and the virtual calls are the dispatching functions
  \<open>evaluate\<close>, \<open>expr_cmp\<close>, \<open>expr_equals\<close>, \<open>serialize\<close>, \<open>expr_keys\<close>, \<open>map_expr\<close>, \<open>negate\<close> and
  \<open>substituteConstants\<close>.

  The field \<open>negated\<close> that a constructor receives is kept in the value (\<open>None\<close> for \<open>null\<close>). The
  code also stores the result of \<open>negate\<close> in it, which later calls return: as the other fields
  never change this stored result is the one a new computation gives, so it is not part of the
  value. \<open>substituteConstants\<close> of a conjunction or disjunction hands the field on to the expression
  it creates; the model hands on what the constructor received, so after an earlier call of
  \<open>negate\<close> the two may differ in the negation that is kept, not in the expression that is created.
  The table \<open>CONSTANT_VALUES\<close> is an argument of the operations that read it.

  Creating a conjunction distributes it over disjunctions and looks for complementary
  elements, creating a disjunction does the latter, and negating calls both: the three are
  mutually recursive. Their bodies are the definitions \<open>..._normalizeArr\<close> and \<open>..._negate\<close>, with
  the recursive calls as arguments; \<open>and_create\<close>, \<open>or_create\<close> and \<open>negate\<close> tie the knot with a
  bound on the depth of nested calls. \<open>None\<close> is a bound that was too small; the code's
  \<open>undefined\<close> is an inner \<open>None\<close>.
\<close>

section \<open>Constants and expressions\<close>

type_synonym consts_map = "string \<rightharpoonup> bool"

text \<open>The flags of \<open>base/common/platform.ts\<close> that the table of constants is filled with.\<close>

record platform =
  isMacintosh :: bool
  isLinux :: bool
  isWindows :: bool
  isWeb :: bool
  isEdge :: bool
  isFirefox :: bool
  isChrome :: bool
  isSafari :: bool

definition CONSTANT_VALUES :: "platform \<Rightarrow> consts_map" where
  "CONSTANT_VALUES p =
     [''false'' \<mapsto> False, ''true'' \<mapsto> True, ''isMac'' \<mapsto> isMacintosh p, ''isLinux'' \<mapsto> isLinux p,
      ''isWindows'' \<mapsto> isWindows p, ''isWeb'' \<mapsto> isWeb p,
      ''isMacNative'' \<mapsto> (isMacintosh p \<and> \<not> isWeb p), ''isEdge'' \<mapsto> isEdge p,
      ''isFirefox'' \<mapsto> isFirefox p, ''isChrome'' \<mapsto> isChrome p, ''isSafari'' \<mapsto> isSafari p]"

definition setConstant :: "consts_map \<Rightarrow> string \<Rightarrow> bool \<Rightarrow> consts_map result" where
  "setConstant cs key value =
     (if cs key \<noteq> None
      then Inl (IllegalArgument ''contextkey.setConstant(k, v) invoked with already set constant `k`'')
      else Inr (cs(key \<mapsto> value)))"

text \<open>A regular expression is its source and its flags.\<close>

type_synonym regexp = "string \<times> string"

datatype expr =
    FalseExpr
  | TrueExpr
  | DefinedExpr string "expr option"
  | NotExpr string "expr option"
  | EqualsExpr string prim "expr option"
  | NotEqualsExpr string prim "expr option"
  | AndExpr "expr list" "expr option"
  | RegexExpr string "regexp option"
  | NotRegexExpr string "regexp option"
  | OrExpr "expr list" "expr option"
  | InExpr string string
  | NotInExpr string string
  | GreaterExpr string prim "expr option"
  | GreaterEqualsExpr string prim "expr option"
  | SmallerExpr string prim "expr option"
  | SmallerEqualsExpr string prim "expr option"

fun ContextKeyExprType :: "expr \<Rightarrow> int" where
  "ContextKeyExprType FalseExpr = 0"
| "ContextKeyExprType TrueExpr = 1"
| "ContextKeyExprType (DefinedExpr _ _) = 2"
| "ContextKeyExprType (NotExpr _ _) = 3"
| "ContextKeyExprType (EqualsExpr _ _ _) = 4"
| "ContextKeyExprType (NotEqualsExpr _ _ _) = 5"
| "ContextKeyExprType (AndExpr _ _) = 6"
| "ContextKeyExprType (RegexExpr _ _) = 7"
| "ContextKeyExprType (NotRegexExpr _ _) = 8"
| "ContextKeyExprType (OrExpr _ _) = 9"
| "ContextKeyExprType (InExpr _ _) = 10"
| "ContextKeyExprType (NotInExpr _ _) = 11"
| "ContextKeyExprType (GreaterExpr _ _ _) = 12"
| "ContextKeyExprType (GreaterEqualsExpr _ _ _) = 13"
| "ContextKeyExprType (SmallerExpr _ _ _) = 14"
| "ContextKeyExprType (SmallerEqualsExpr _ _ _) = 15"

text \<open>\<open>IContext.getValue\<close>: the value of a key, \<open>undefined\<close> where there is none.\<close>

type_synonym IContext = "string \<Rightarrow> jsval"

definition cmp1 :: "string \<Rightarrow> string \<Rightarrow> int" where
  "cmp1 key1 key2 = (if str_less key1 key2 then - 1 else if str_less key2 key1 then 1 else 0)"

definition cmp2 :: "string \<Rightarrow> prim \<Rightarrow> string \<Rightarrow> prim \<Rightarrow> int" where
  "cmp2 key1 value1 key2 value2 =
     (if str_less key1 key2 then - 1
      else if str_less key2 key1 then 1
      else if prim_less value1 value2 then - 1
      else if prim_less value2 value1 then 1
      else 0)"

section \<open>The elementary expressions\<close>

text \<open>Classes \<open>ContextKeyFalseExpr\<close> and \<open>ContextKeyTrueExpr\<close>.\<close>

definition ContextKeyFalseExpr_evaluate :: "IContext \<Rightarrow> bool" where
  "ContextKeyFalseExpr_evaluate ctx = False"

definition ContextKeyFalseExpr_negate :: expr where
  "ContextKeyFalseExpr_negate = TrueExpr"

definition ContextKeyTrueExpr_evaluate :: "IContext \<Rightarrow> bool" where
  "ContextKeyTrueExpr_evaluate ctx = True"

definition ContextKeyTrueExpr_negate :: expr where
  "ContextKeyTrueExpr_negate = FalseExpr"

definition bool_expr :: "bool \<Rightarrow> expr" where
  "bool_expr b = (if b then TrueExpr else FalseExpr)"

text \<open>Classes \<open>ContextKeyDefinedExpr\<close> and \<open>ContextKeyNotExpr\<close>.\<close>

definition ContextKeyDefinedExpr_create :: "consts_map \<Rightarrow> string \<Rightarrow> expr option \<Rightarrow> expr" where
  "ContextKeyDefinedExpr_create cs key negated =
     (case cs key of Some constantValue \<Rightarrow> if constantValue then TrueExpr else FalseExpr
      | None \<Rightarrow> DefinedExpr key negated)"

definition ContextKeyDefinedExpr_substituteConstants :: "consts_map \<Rightarrow> string \<Rightarrow> expr option" where
  "ContextKeyDefinedExpr_substituteConstants cs key =
     (case cs key of Some constantValue \<Rightarrow> Some (if constantValue then TrueExpr else FalseExpr)
      | None \<Rightarrow> None)"

definition ContextKeyDefinedExpr_evaluate :: "string \<Rightarrow> IContext \<Rightarrow> bool" where
  "ContextKeyDefinedExpr_evaluate key ctx = truthy (ctx key)"

definition ContextKeyNotExpr_create :: "consts_map \<Rightarrow> string \<Rightarrow> expr option \<Rightarrow> expr" where
  "ContextKeyNotExpr_create cs key negated =
     (case cs key of Some constantValue \<Rightarrow> if constantValue then FalseExpr else TrueExpr
      | None \<Rightarrow> NotExpr key negated)"

definition ContextKeyNotExpr_substituteConstants :: "consts_map \<Rightarrow> string \<Rightarrow> expr option" where
  "ContextKeyNotExpr_substituteConstants cs key =
     (case cs key of Some constantValue \<Rightarrow> Some (if constantValue then FalseExpr else TrueExpr)
      | None \<Rightarrow> None)"

definition ContextKeyNotExpr_evaluate :: "string \<Rightarrow> IContext \<Rightarrow> bool" where
  "ContextKeyNotExpr_evaluate key ctx = (\<not> truthy (ctx key))"

definition ContextKeyDefinedExpr_negate :: "consts_map \<Rightarrow> string \<Rightarrow> expr option \<Rightarrow> expr" where
  "ContextKeyDefinedExpr_negate cs key negated =
     (case negated of Some n \<Rightarrow> n
      | None \<Rightarrow> ContextKeyNotExpr_create cs key (Some (DefinedExpr key negated)))"

definition ContextKeyNotExpr_negate :: "consts_map \<Rightarrow> string \<Rightarrow> expr option \<Rightarrow> expr" where
  "ContextKeyNotExpr_negate cs key negated =
     (case negated of Some n \<Rightarrow> n
      | None \<Rightarrow> ContextKeyDefinedExpr_create cs key (Some (NotExpr key negated)))"

text \<open>Classes \<open>ContextKeyEqualsExpr\<close> and \<open>ContextKeyNotEqualsExpr\<close>.\<close>

definition ContextKeyEqualsExpr_create ::
  "consts_map \<Rightarrow> string \<Rightarrow> prim \<Rightarrow> expr option \<Rightarrow> expr" where
  "ContextKeyEqualsExpr_create cs key value negated =
     (case value of
        Bool b \<Rightarrow> if b then ContextKeyDefinedExpr_create cs key negated
                  else ContextKeyNotExpr_create cs key negated
      | _ \<Rightarrow>
          case cs key of
            Some constantValue \<Rightarrow>
              let trueValue = (if constantValue then ''true'' else ''false'')
              in if strict_eq value (Str trueValue) then TrueExpr else FalseExpr
          | None \<Rightarrow> EqualsExpr key value negated)"

definition ContextKeyEqualsExpr_substituteConstants ::
  "consts_map \<Rightarrow> string \<Rightarrow> prim \<Rightarrow> expr option" where
  "ContextKeyEqualsExpr_substituteConstants cs key value =
     (case cs key of
        Some constantValue \<Rightarrow>
          let trueValue = (if constantValue then ''true'' else ''false'')
          in Some (if strict_eq value (Str trueValue) then TrueExpr else FalseExpr)
      | None \<Rightarrow> None)"

definition ContextKeyEqualsExpr_evaluate :: "engine \<Rightarrow> string \<Rightarrow> prim \<Rightarrow> IContext \<Rightarrow> bool" where
  "ContextKeyEqualsExpr_evaluate eng key value ctx = loose_eq eng (ctx key) value"

definition ContextKeyEqualsExpr_serialize :: "engine \<Rightarrow> string \<Rightarrow> prim \<Rightarrow> string" where
  "ContextKeyEqualsExpr_serialize eng key value =
     key @ '' == '' @ [CHR 0x27] @ prim_to_string eng value @ [CHR 0x27]"

definition ContextKeyNotEqualsExpr_create ::
  "consts_map \<Rightarrow> string \<Rightarrow> prim \<Rightarrow> expr option \<Rightarrow> expr" where
  "ContextKeyNotEqualsExpr_create cs key value negated =
     (case value of
        Bool b \<Rightarrow> if b then ContextKeyNotExpr_create cs key negated
                  else ContextKeyDefinedExpr_create cs key negated
      | _ \<Rightarrow>
          case cs key of
            Some constantValue \<Rightarrow>
              let falseValue = (if constantValue then ''true'' else ''false'')
              in if strict_eq value (Str falseValue) then FalseExpr else TrueExpr
          | None \<Rightarrow> NotEqualsExpr key value negated)"

definition ContextKeyNotEqualsExpr_substituteConstants ::
  "consts_map \<Rightarrow> string \<Rightarrow> prim \<Rightarrow> expr option" where
  "ContextKeyNotEqualsExpr_substituteConstants cs key value =
     (case cs key of
        Some constantValue \<Rightarrow>
          let falseValue = (if constantValue then ''true'' else ''false'')
          in Some (if strict_eq value (Str falseValue) then FalseExpr else TrueExpr)
      | None \<Rightarrow> None)"

definition ContextKeyNotEqualsExpr_evaluate :: "engine \<Rightarrow> string \<Rightarrow> prim \<Rightarrow> IContext \<Rightarrow> bool" where
  "ContextKeyNotEqualsExpr_evaluate eng key value ctx = (\<not> loose_eq eng (ctx key) value)"

definition ContextKeyNotEqualsExpr_serialize :: "engine \<Rightarrow> string \<Rightarrow> prim \<Rightarrow> string" where
  "ContextKeyNotEqualsExpr_serialize eng key value =
     key @ '' != '' @ [CHR 0x27] @ prim_to_string eng value @ [CHR 0x27]"

definition ContextKeyEqualsExpr_negate ::
  "consts_map \<Rightarrow> string \<Rightarrow> prim \<Rightarrow> expr option \<Rightarrow> expr" where
  "ContextKeyEqualsExpr_negate cs key value negated =
     (case negated of Some n \<Rightarrow> n
      | None \<Rightarrow> ContextKeyNotEqualsExpr_create cs key value (Some (EqualsExpr key value negated)))"

definition ContextKeyNotEqualsExpr_negate ::
  "consts_map \<Rightarrow> string \<Rightarrow> prim \<Rightarrow> expr option \<Rightarrow> expr" where
  "ContextKeyNotEqualsExpr_negate cs key value negated =
     (case negated of Some n \<Rightarrow> n
      | None \<Rightarrow> ContextKeyEqualsExpr_create cs key value (Some (NotEqualsExpr key value negated)))"

text \<open>Classes \<open>ContextKeyInExpr\<close> and \<open>ContextKeyNotInExpr\<close>; \<open>includes\<close> compares primitive values.\<close>

definition ContextKeyInExpr_create :: "string \<Rightarrow> string \<Rightarrow> expr" where
  "ContextKeyInExpr_create key valueKey = InExpr key valueKey"

definition ContextKeyInExpr_evaluate :: "string \<Rightarrow> string \<Rightarrow> IContext \<Rightarrow> bool" where
  "ContextKeyInExpr_evaluate key valueKey ctx =
     (let source = ctx valueKey; item = ctx key in
      case source of
        Arr ps \<Rightarrow> (case item of Prim p \<Rightarrow> p \<in> set ps | _ \<Rightarrow> False)
      | Obj fs \<Rightarrow> (case item of Prim (Str s) \<Rightarrow> s \<in> fst ` set fs | _ \<Rightarrow> False)
      | Prim _ \<Rightarrow> False)"

definition ContextKeyInExpr_serialize :: "string \<Rightarrow> string \<Rightarrow> string" where
  "ContextKeyInExpr_serialize key valueKey = key @ '' in '' @ [CHR 0x27] @ valueKey @ [CHR 0x27]"

definition ContextKeyNotInExpr_create :: "string \<Rightarrow> string \<Rightarrow> expr" where
  "ContextKeyNotInExpr_create key valueKey = NotInExpr key valueKey"

definition ContextKeyNotInExpr_evaluate :: "string \<Rightarrow> string \<Rightarrow> IContext \<Rightarrow> bool" where
  "ContextKeyNotInExpr_evaluate key valueKey ctx = (\<not> ContextKeyInExpr_evaluate key valueKey ctx)"

definition ContextKeyNotInExpr_serialize :: "string \<Rightarrow> string \<Rightarrow> string" where
  "ContextKeyNotInExpr_serialize key valueKey =
     key @ '' not in '' @ [CHR 0x27] @ valueKey @ [CHR 0x27]"

definition ContextKeyInExpr_negate :: "string \<Rightarrow> string \<Rightarrow> expr" where
  "ContextKeyInExpr_negate key valueKey = ContextKeyNotInExpr_create key valueKey"

definition ContextKeyNotInExpr_negate :: "string \<Rightarrow> string \<Rightarrow> expr" where
  "ContextKeyNotInExpr_negate key valueKey = ContextKeyInExpr_create key valueKey"

text \<open>
  The four comparison classes. A value that reads as a number becomes one; a value that is
  neither a string nor a number makes the comparison false.
\<close>

definition withFloatOrStr :: "prim \<Rightarrow> (prim \<Rightarrow> expr) \<Rightarrow> expr" where
  "withFloatOrStr value callback =
     (let value = (case value of
                     Str s \<Rightarrow> (let n = parse_float s in if n \<noteq> NaN then Num n else value)
                   | _ \<Rightarrow> value)
      in case value of Str _ \<Rightarrow> callback value | Num _ \<Rightarrow> callback value | _ \<Rightarrow> FalseExpr)"

definition num_le :: "jsnum \<Rightarrow> jsnum \<Rightarrow> bool" where
  "num_le a b \<longleftrightarrow> num_less a b \<or> num_eq a b"

text \<open>Class \<open>ContextKeyGreaterExpr\<close>.\<close>

definition ContextKeyGreaterExpr_create :: "string \<Rightarrow> prim \<Rightarrow> expr option \<Rightarrow> expr" where
  "ContextKeyGreaterExpr_create key value negated = withFloatOrStr value (\<lambda>v. GreaterExpr key v negated)"

definition ContextKeyGreaterExpr_evaluate :: "engine \<Rightarrow> string \<Rightarrow> prim \<Rightarrow> IContext \<Rightarrow> bool" where
  "ContextKeyGreaterExpr_evaluate eng key value ctx =
     (case value of Str _ \<Rightarrow> False | _ \<Rightarrow> num_less (to_number value) (parseFloat eng (ctx key)))"

definition ContextKeyGreaterExpr_serialize :: "engine \<Rightarrow> string \<Rightarrow> prim \<Rightarrow> string" where
  "ContextKeyGreaterExpr_serialize eng key value = key @ '' > '' @ prim_to_string eng value"

text \<open>Class \<open>ContextKeyGreaterEqualsExpr\<close>.\<close>

definition ContextKeyGreaterEqualsExpr_create :: "string \<Rightarrow> prim \<Rightarrow> expr option \<Rightarrow> expr" where
  "ContextKeyGreaterEqualsExpr_create key value negated = withFloatOrStr value (\<lambda>v. GreaterEqualsExpr key v negated)"

definition ContextKeyGreaterEqualsExpr_evaluate :: "engine \<Rightarrow> string \<Rightarrow> prim \<Rightarrow> IContext \<Rightarrow> bool" where
  "ContextKeyGreaterEqualsExpr_evaluate eng key value ctx =
     (case value of Str _ \<Rightarrow> False | _ \<Rightarrow> num_le (to_number value) (parseFloat eng (ctx key)))"

definition ContextKeyGreaterEqualsExpr_serialize :: "engine \<Rightarrow> string \<Rightarrow> prim \<Rightarrow> string" where
  "ContextKeyGreaterEqualsExpr_serialize eng key value = key @ '' >= '' @ prim_to_string eng value"

text \<open>Class \<open>ContextKeySmallerExpr\<close>.\<close>

definition ContextKeySmallerExpr_create :: "string \<Rightarrow> prim \<Rightarrow> expr option \<Rightarrow> expr" where
  "ContextKeySmallerExpr_create key value negated = withFloatOrStr value (\<lambda>v. SmallerExpr key v negated)"

definition ContextKeySmallerExpr_evaluate :: "engine \<Rightarrow> string \<Rightarrow> prim \<Rightarrow> IContext \<Rightarrow> bool" where
  "ContextKeySmallerExpr_evaluate eng key value ctx =
     (case value of Str _ \<Rightarrow> False | _ \<Rightarrow> num_less (parseFloat eng (ctx key)) (to_number value))"

definition ContextKeySmallerExpr_serialize :: "engine \<Rightarrow> string \<Rightarrow> prim \<Rightarrow> string" where
  "ContextKeySmallerExpr_serialize eng key value = key @ '' < '' @ prim_to_string eng value"

text \<open>Class \<open>ContextKeySmallerEqualsExpr\<close>.\<close>

definition ContextKeySmallerEqualsExpr_create :: "string \<Rightarrow> prim \<Rightarrow> expr option \<Rightarrow> expr" where
  "ContextKeySmallerEqualsExpr_create key value negated = withFloatOrStr value (\<lambda>v. SmallerEqualsExpr key v negated)"

definition ContextKeySmallerEqualsExpr_evaluate :: "engine \<Rightarrow> string \<Rightarrow> prim \<Rightarrow> IContext \<Rightarrow> bool" where
  "ContextKeySmallerEqualsExpr_evaluate eng key value ctx =
     (case value of Str _ \<Rightarrow> False | _ \<Rightarrow> num_le (parseFloat eng (ctx key)) (to_number value))"

definition ContextKeySmallerEqualsExpr_serialize :: "engine \<Rightarrow> string \<Rightarrow> prim \<Rightarrow> string" where
  "ContextKeySmallerEqualsExpr_serialize eng key value = key @ '' <= '' @ prim_to_string eng value"

definition ContextKeyGreaterExpr_negate :: "string \<Rightarrow> prim \<Rightarrow> expr option \<Rightarrow> expr" where
  "ContextKeyGreaterExpr_negate key value negated =
     (case negated of Some n \<Rightarrow> n
      | None \<Rightarrow> ContextKeySmallerEqualsExpr_create key value (Some (GreaterExpr key value negated)))"

definition ContextKeyGreaterEqualsExpr_negate :: "string \<Rightarrow> prim \<Rightarrow> expr option \<Rightarrow> expr" where
  "ContextKeyGreaterEqualsExpr_negate key value negated =
     (case negated of Some n \<Rightarrow> n
      | None \<Rightarrow> ContextKeySmallerExpr_create key value (Some (GreaterEqualsExpr key value negated)))"

definition ContextKeySmallerExpr_negate :: "string \<Rightarrow> prim \<Rightarrow> expr option \<Rightarrow> expr" where
  "ContextKeySmallerExpr_negate key value negated =
     (case negated of Some n \<Rightarrow> n
      | None \<Rightarrow> ContextKeyGreaterEqualsExpr_create key value (Some (SmallerExpr key value negated)))"

definition ContextKeySmallerEqualsExpr_negate :: "string \<Rightarrow> prim \<Rightarrow> expr option \<Rightarrow> expr" where
  "ContextKeySmallerEqualsExpr_negate key value negated =
     (case negated of Some n \<Rightarrow> n
      | None \<Rightarrow> ContextKeyGreaterExpr_create key value (Some (SmallerEqualsExpr key value negated)))"

text \<open>Classes \<open>ContextKeyRegexExpr\<close> and \<open>ContextKeyNotRegexExpr\<close>, the latter kept as its \<open>_actual\<close>.\<close>

definition ContextKeyRegexExpr_create :: "string \<Rightarrow> regexp option \<Rightarrow> expr" where
  "ContextKeyRegexExpr_create key regexp = RegexExpr key regexp"

definition regexp_source :: "regexp option \<Rightarrow> string" where
  "regexp_source r = (case r of Some (source, flags) \<Rightarrow> source | None \<Rightarrow> [])"

definition ContextKeyRegexExpr_cmp :: "string \<Rightarrow> regexp option \<Rightarrow> string \<Rightarrow> regexp option \<Rightarrow> int" where
  "ContextKeyRegexExpr_cmp key regexp key' regexp' =
     (if str_less key key' then - 1
      else if str_less key' key then 1
      else
        let thisSource = regexp_source regexp; otherSource = regexp_source regexp' in
        if str_less thisSource otherSource then - 1
        else if str_less otherSource thisSource then 1
        else 0)"

definition ContextKeyRegexExpr_equals :: "string \<Rightarrow> regexp option \<Rightarrow> string \<Rightarrow> regexp option \<Rightarrow> bool" where
  "ContextKeyRegexExpr_equals key regexp key' regexp' =
     (let thisSource = regexp_source regexp; otherSource = regexp_source regexp'
      in key = key' \<and> thisSource = otherSource)"

definition ContextKeyRegexExpr_evaluate :: "engine \<Rightarrow> string \<Rightarrow> regexp option \<Rightarrow> IContext \<Rightarrow> bool" where
  "ContextKeyRegexExpr_evaluate eng key regexp ctx =
     (let value = ctx key in
      case regexp of Some (source, flags) \<Rightarrow> regexp_test eng source flags (to_string eng value)
      | None \<Rightarrow> False)"

definition ContextKeyRegexExpr_serialize :: "string \<Rightarrow> regexp option \<Rightarrow> string" where
  "ContextKeyRegexExpr_serialize key regexp =
     (let value = (case regexp of Some (source, flags) \<Rightarrow> ''/'' @ source @ ''/'' @ flags
                   | None \<Rightarrow> ''/invalid/'')
      in key @ '' =~ '' @ value)"

definition ContextKeyNotRegexExpr_create :: "string \<times> regexp option \<Rightarrow> expr" where
  "ContextKeyNotRegexExpr_create actual = NotRegexExpr (fst actual) (snd actual)"

definition ContextKeyNotRegexExpr_evaluate :: "engine \<Rightarrow> string \<Rightarrow> regexp option \<Rightarrow> IContext \<Rightarrow> bool" where
  "ContextKeyNotRegexExpr_evaluate eng key regexp ctx =
     (\<not> ContextKeyRegexExpr_evaluate eng key regexp ctx)"

definition ContextKeyNotRegexExpr_serialize :: "string \<Rightarrow> regexp option \<Rightarrow> string" where
  "ContextKeyNotRegexExpr_serialize key regexp =
     ''!('' @ ContextKeyRegexExpr_serialize key regexp @ '')''"

definition ContextKeyRegexExpr_negate :: "string \<Rightarrow> regexp option \<Rightarrow> expr" where
  "ContextKeyRegexExpr_negate key regexp = ContextKeyNotRegexExpr_create (key, regexp)"

definition ContextKeyNotRegexExpr_negate :: "string \<Rightarrow> regexp option \<Rightarrow> expr" where
  "ContextKeyNotRegexExpr_negate key regexp = RegexExpr key regexp"

section \<open>Comparing elementary expressions\<close>

text \<open>
  \<open>cmp\<close> orders by type first; \<open>equals\<close> holds between expressions of the same type only.
\<close>

definition ContextKeyDefinedExpr_cmp :: "string \<Rightarrow> expr \<Rightarrow> int" where
  "ContextKeyDefinedExpr_cmp key other =
     (case other of DefinedExpr key' _ \<Rightarrow> cmp1 key key'
      | _ \<Rightarrow> ContextKeyExprType (DefinedExpr key None) - ContextKeyExprType other)"

definition ContextKeyDefinedExpr_equals :: "string \<Rightarrow> expr \<Rightarrow> bool" where
  "ContextKeyDefinedExpr_equals key other =
     (case other of DefinedExpr key' _ \<Rightarrow> key = key'
      | _ \<Rightarrow> False)"

definition ContextKeyNotExpr_cmp :: "string \<Rightarrow> expr \<Rightarrow> int" where
  "ContextKeyNotExpr_cmp key other =
     (case other of NotExpr key' _ \<Rightarrow> cmp1 key key'
      | _ \<Rightarrow> ContextKeyExprType (NotExpr key None) - ContextKeyExprType other)"

definition ContextKeyNotExpr_equals :: "string \<Rightarrow> expr \<Rightarrow> bool" where
  "ContextKeyNotExpr_equals key other =
     (case other of NotExpr key' _ \<Rightarrow> key = key'
      | _ \<Rightarrow> False)"

definition ContextKeyEqualsExpr_cmp :: "string \<Rightarrow> prim \<Rightarrow> expr \<Rightarrow> int" where
  "ContextKeyEqualsExpr_cmp key value other =
     (case other of EqualsExpr key' value' _ \<Rightarrow> cmp2 key value key' value'
      | _ \<Rightarrow> ContextKeyExprType (EqualsExpr key value None) - ContextKeyExprType other)"

definition ContextKeyEqualsExpr_equals :: "string \<Rightarrow> prim \<Rightarrow> expr \<Rightarrow> bool" where
  "ContextKeyEqualsExpr_equals key value other =
     (case other of EqualsExpr key' value' _ \<Rightarrow> key = key' \<and> strict_eq value value'
      | _ \<Rightarrow> False)"

definition ContextKeyNotEqualsExpr_cmp :: "string \<Rightarrow> prim \<Rightarrow> expr \<Rightarrow> int" where
  "ContextKeyNotEqualsExpr_cmp key value other =
     (case other of NotEqualsExpr key' value' _ \<Rightarrow> cmp2 key value key' value'
      | _ \<Rightarrow> ContextKeyExprType (NotEqualsExpr key value None) - ContextKeyExprType other)"

definition ContextKeyNotEqualsExpr_equals :: "string \<Rightarrow> prim \<Rightarrow> expr \<Rightarrow> bool" where
  "ContextKeyNotEqualsExpr_equals key value other =
     (case other of NotEqualsExpr key' value' _ \<Rightarrow> key = key' \<and> strict_eq value value'
      | _ \<Rightarrow> False)"

definition ContextKeyGreaterExpr_cmp :: "string \<Rightarrow> prim \<Rightarrow> expr \<Rightarrow> int" where
  "ContextKeyGreaterExpr_cmp key value other =
     (case other of GreaterExpr key' value' _ \<Rightarrow> cmp2 key value key' value'
      | _ \<Rightarrow> ContextKeyExprType (GreaterExpr key value None) - ContextKeyExprType other)"

definition ContextKeyGreaterExpr_equals :: "string \<Rightarrow> prim \<Rightarrow> expr \<Rightarrow> bool" where
  "ContextKeyGreaterExpr_equals key value other =
     (case other of GreaterExpr key' value' _ \<Rightarrow> key = key' \<and> strict_eq value value'
      | _ \<Rightarrow> False)"

definition ContextKeyGreaterEqualsExpr_cmp :: "string \<Rightarrow> prim \<Rightarrow> expr \<Rightarrow> int" where
  "ContextKeyGreaterEqualsExpr_cmp key value other =
     (case other of GreaterEqualsExpr key' value' _ \<Rightarrow> cmp2 key value key' value'
      | _ \<Rightarrow> ContextKeyExprType (GreaterEqualsExpr key value None) - ContextKeyExprType other)"

definition ContextKeyGreaterEqualsExpr_equals :: "string \<Rightarrow> prim \<Rightarrow> expr \<Rightarrow> bool" where
  "ContextKeyGreaterEqualsExpr_equals key value other =
     (case other of GreaterEqualsExpr key' value' _ \<Rightarrow> key = key' \<and> strict_eq value value'
      | _ \<Rightarrow> False)"

definition ContextKeySmallerExpr_cmp :: "string \<Rightarrow> prim \<Rightarrow> expr \<Rightarrow> int" where
  "ContextKeySmallerExpr_cmp key value other =
     (case other of SmallerExpr key' value' _ \<Rightarrow> cmp2 key value key' value'
      | _ \<Rightarrow> ContextKeyExprType (SmallerExpr key value None) - ContextKeyExprType other)"

definition ContextKeySmallerExpr_equals :: "string \<Rightarrow> prim \<Rightarrow> expr \<Rightarrow> bool" where
  "ContextKeySmallerExpr_equals key value other =
     (case other of SmallerExpr key' value' _ \<Rightarrow> key = key' \<and> strict_eq value value'
      | _ \<Rightarrow> False)"

definition ContextKeySmallerEqualsExpr_cmp :: "string \<Rightarrow> prim \<Rightarrow> expr \<Rightarrow> int" where
  "ContextKeySmallerEqualsExpr_cmp key value other =
     (case other of SmallerEqualsExpr key' value' _ \<Rightarrow> cmp2 key value key' value'
      | _ \<Rightarrow> ContextKeyExprType (SmallerEqualsExpr key value None) - ContextKeyExprType other)"

definition ContextKeySmallerEqualsExpr_equals :: "string \<Rightarrow> prim \<Rightarrow> expr \<Rightarrow> bool" where
  "ContextKeySmallerEqualsExpr_equals key value other =
     (case other of SmallerEqualsExpr key' value' _ \<Rightarrow> key = key' \<and> strict_eq value value'
      | _ \<Rightarrow> False)"

definition ContextKeyInExpr_cmp :: "string \<Rightarrow> string \<Rightarrow> expr \<Rightarrow> int" where
  "ContextKeyInExpr_cmp key valueKey other =
     (case other of InExpr key' valueKey' \<Rightarrow> cmp2 key (Str valueKey) key' (Str valueKey')
      | _ \<Rightarrow> ContextKeyExprType (InExpr key valueKey) - ContextKeyExprType other)"

definition ContextKeyInExpr_equals :: "string \<Rightarrow> string \<Rightarrow> expr \<Rightarrow> bool" where
  "ContextKeyInExpr_equals key valueKey other =
     (case other of InExpr key' valueKey' \<Rightarrow> key = key' \<and> valueKey = valueKey'
      | _ \<Rightarrow> False)"

definition ContextKeyNotInExpr_cmp :: "string \<Rightarrow> string \<Rightarrow> expr \<Rightarrow> int" where
  "ContextKeyNotInExpr_cmp key valueKey other =
     (case other of NotInExpr key' valueKey' \<Rightarrow> ContextKeyInExpr_cmp key valueKey (InExpr key' valueKey')
      | _ \<Rightarrow> ContextKeyExprType (NotInExpr key valueKey) - ContextKeyExprType other)"

definition ContextKeyNotInExpr_equals :: "string \<Rightarrow> string \<Rightarrow> expr \<Rightarrow> bool" where
  "ContextKeyNotInExpr_equals key valueKey other =
     (case other of NotInExpr key' valueKey' \<Rightarrow> ContextKeyInExpr_equals key valueKey (InExpr key' valueKey')
      | _ \<Rightarrow> False)"

definition ContextKeyNotRegexExpr_cmp :: "string \<Rightarrow> regexp option \<Rightarrow> string \<Rightarrow> regexp option \<Rightarrow> int" where
  "ContextKeyNotRegexExpr_cmp key regexp key' regexp' = ContextKeyRegexExpr_cmp key regexp key' regexp'"

definition ContextKeyNotRegexExpr_equals :: "string \<Rightarrow> regexp option \<Rightarrow> string \<Rightarrow> regexp option \<Rightarrow> bool" where
  "ContextKeyNotRegexExpr_equals key regexp key' regexp' = ContextKeyRegexExpr_equals key regexp key' regexp'"

section \<open>The virtual methods\<close>

text \<open>
  The loops of the conjunctions and disjunctions are functions over their elements, mutually
  recursive with the dispatch.
\<close>

fun evaluate :: "engine \<Rightarrow> expr \<Rightarrow> IContext \<Rightarrow> bool"
  and ContextKeyAndExpr_evaluate :: "engine \<Rightarrow> expr list \<Rightarrow> IContext \<Rightarrow> bool"
  and ContextKeyOrExpr_evaluate :: "engine \<Rightarrow> expr list \<Rightarrow> IContext \<Rightarrow> bool" where
  "evaluate eng FalseExpr ctx = ContextKeyFalseExpr_evaluate ctx"
| "evaluate eng TrueExpr ctx = ContextKeyTrueExpr_evaluate ctx"
| "evaluate eng (DefinedExpr key _) ctx = ContextKeyDefinedExpr_evaluate key ctx"
| "evaluate eng (NotExpr key _) ctx = ContextKeyNotExpr_evaluate key ctx"
| "evaluate eng (EqualsExpr key value _) ctx = ContextKeyEqualsExpr_evaluate eng key value ctx"
| "evaluate eng (NotEqualsExpr key value _) ctx = ContextKeyNotEqualsExpr_evaluate eng key value ctx"
| "evaluate eng (AndExpr es _) ctx = ContextKeyAndExpr_evaluate eng es ctx"
| "evaluate eng (RegexExpr key regexp) ctx = ContextKeyRegexExpr_evaluate eng key regexp ctx"
| "evaluate eng (NotRegexExpr key regexp) ctx = ContextKeyNotRegexExpr_evaluate eng key regexp ctx"
| "evaluate eng (OrExpr es _) ctx = ContextKeyOrExpr_evaluate eng es ctx"
| "evaluate eng (InExpr key valueKey) ctx = ContextKeyInExpr_evaluate key valueKey ctx"
| "evaluate eng (NotInExpr key valueKey) ctx = ContextKeyNotInExpr_evaluate key valueKey ctx"
| "evaluate eng (GreaterExpr key value _) ctx = ContextKeyGreaterExpr_evaluate eng key value ctx"
| "evaluate eng (GreaterEqualsExpr key value _) ctx = ContextKeyGreaterEqualsExpr_evaluate eng key value ctx"
| "evaluate eng (SmallerExpr key value _) ctx = ContextKeySmallerExpr_evaluate eng key value ctx"
| "evaluate eng (SmallerEqualsExpr key value _) ctx = ContextKeySmallerEqualsExpr_evaluate eng key value ctx"
| "ContextKeyAndExpr_evaluate eng [] ctx = True"
| "ContextKeyAndExpr_evaluate eng (e # es) ctx =
     (if \<not> evaluate eng e ctx then False else ContextKeyAndExpr_evaluate eng es ctx)"
| "ContextKeyOrExpr_evaluate eng [] ctx = False"
| "ContextKeyOrExpr_evaluate eng (e # es) ctx =
     (if evaluate eng e ctx then True else ContextKeyOrExpr_evaluate eng es ctx)"

fun expr_cmp :: "expr \<Rightarrow> expr \<Rightarrow> int"
  and ContextKeyAndExpr_cmp :: "expr list \<Rightarrow> expr \<Rightarrow> int"
  and ContextKeyOrExpr_cmp :: "expr list \<Rightarrow> expr \<Rightarrow> int"
  and expr_cmp_loop :: "expr list \<Rightarrow> expr list \<Rightarrow> int" where
  "expr_cmp FalseExpr other = 0 - ContextKeyExprType other"
| "expr_cmp TrueExpr other = 1 - ContextKeyExprType other"
| "expr_cmp (DefinedExpr key _) other = ContextKeyDefinedExpr_cmp key other"
| "expr_cmp (NotExpr key _) other = ContextKeyNotExpr_cmp key other"
| "expr_cmp (EqualsExpr key value _) other = ContextKeyEqualsExpr_cmp key value other"
| "expr_cmp (NotEqualsExpr key value _) other = ContextKeyNotEqualsExpr_cmp key value other"
| "expr_cmp (AndExpr es _) other = ContextKeyAndExpr_cmp es other"
| "expr_cmp (RegexExpr key regexp) other =
     (case other of RegexExpr key' regexp' \<Rightarrow> ContextKeyRegexExpr_cmp key regexp key' regexp'
      | _ \<Rightarrow> 7 - ContextKeyExprType other)"
| "expr_cmp (NotRegexExpr key regexp) other =
     (case other of NotRegexExpr key' regexp' \<Rightarrow> ContextKeyNotRegexExpr_cmp key regexp key' regexp'
      | _ \<Rightarrow> 8 - ContextKeyExprType other)"
| "expr_cmp (OrExpr es _) other = ContextKeyOrExpr_cmp es other"
| "expr_cmp (InExpr key valueKey) other = ContextKeyInExpr_cmp key valueKey other"
| "expr_cmp (NotInExpr key valueKey) other = ContextKeyNotInExpr_cmp key valueKey other"
| "expr_cmp (GreaterExpr key value _) other = ContextKeyGreaterExpr_cmp key value other"
| "expr_cmp (GreaterEqualsExpr key value _) other = ContextKeyGreaterEqualsExpr_cmp key value other"
| "expr_cmp (SmallerExpr key value _) other = ContextKeySmallerExpr_cmp key value other"
| "expr_cmp (SmallerEqualsExpr key value _) other = ContextKeySmallerEqualsExpr_cmp key value other"
| "ContextKeyAndExpr_cmp es other =
     (case other of
        AndExpr es' _ \<Rightarrow>
          if length es < length es' then - 1
          else if length es > length es' then 1
          else expr_cmp_loop es es'
      | _ \<Rightarrow> 6 - ContextKeyExprType other)"
| "ContextKeyOrExpr_cmp es other =
     (case other of
        OrExpr es' _ \<Rightarrow>
          if length es < length es' then - 1
          else if length es > length es' then 1
          else expr_cmp_loop es es'
      | _ \<Rightarrow> 9 - ContextKeyExprType other)"
| "expr_cmp_loop (e # es) (e' # es') =
     (let r = expr_cmp e e' in if r \<noteq> 0 then r else expr_cmp_loop es es')"
| "expr_cmp_loop [] _ = 0"
| "expr_cmp_loop _ [] = 0"

fun expr_equals :: "expr \<Rightarrow> expr \<Rightarrow> bool"
  and ContextKeyAndExpr_equals :: "expr list \<Rightarrow> expr \<Rightarrow> bool"
  and ContextKeyOrExpr_equals :: "expr list \<Rightarrow> expr \<Rightarrow> bool"
  and expr_equals_loop :: "expr list \<Rightarrow> expr list \<Rightarrow> bool" where
  "expr_equals FalseExpr other = (ContextKeyExprType other = 0)"
| "expr_equals TrueExpr other = (ContextKeyExprType other = 1)"
| "expr_equals (DefinedExpr key _) other = ContextKeyDefinedExpr_equals key other"
| "expr_equals (NotExpr key _) other = ContextKeyNotExpr_equals key other"
| "expr_equals (EqualsExpr key value _) other = ContextKeyEqualsExpr_equals key value other"
| "expr_equals (NotEqualsExpr key value _) other = ContextKeyNotEqualsExpr_equals key value other"
| "expr_equals (AndExpr es _) other = ContextKeyAndExpr_equals es other"
| "expr_equals (RegexExpr key regexp) other =
     (case other of RegexExpr key' regexp' \<Rightarrow> ContextKeyRegexExpr_equals key regexp key' regexp'
      | _ \<Rightarrow> False)"
| "expr_equals (NotRegexExpr key regexp) other =
     (case other of NotRegexExpr key' regexp' \<Rightarrow> ContextKeyNotRegexExpr_equals key regexp key' regexp'
      | _ \<Rightarrow> False)"
| "expr_equals (OrExpr es _) other = ContextKeyOrExpr_equals es other"
| "expr_equals (InExpr key valueKey) other = ContextKeyInExpr_equals key valueKey other"
| "expr_equals (NotInExpr key valueKey) other = ContextKeyNotInExpr_equals key valueKey other"
| "expr_equals (GreaterExpr key value _) other = ContextKeyGreaterExpr_equals key value other"
| "expr_equals (GreaterEqualsExpr key value _) other = ContextKeyGreaterEqualsExpr_equals key value other"
| "expr_equals (SmallerExpr key value _) other = ContextKeySmallerExpr_equals key value other"
| "expr_equals (SmallerEqualsExpr key value _) other = ContextKeySmallerEqualsExpr_equals key value other"
| "ContextKeyAndExpr_equals es other =
     (case other of
        AndExpr es' _ \<Rightarrow> if length es \<noteq> length es' then False else expr_equals_loop es es'
      | _ \<Rightarrow> False)"
| "ContextKeyOrExpr_equals es other =
     (case other of
        OrExpr es' _ \<Rightarrow> if length es \<noteq> length es' then False else expr_equals_loop es es'
      | _ \<Rightarrow> False)"
| "expr_equals_loop (e # es) (e' # es') =
     (if \<not> expr_equals e e' then False else expr_equals_loop es es')"
| "expr_equals_loop [] _ = True"
| "expr_equals_loop _ [] = True"

fun serialize :: "engine \<Rightarrow> expr \<Rightarrow> string"
  and serialize_all :: "engine \<Rightarrow> expr list \<Rightarrow> string list"
  and ContextKeyAndExpr_serialize :: "engine \<Rightarrow> expr list \<Rightarrow> string"
  and ContextKeyOrExpr_serialize :: "engine \<Rightarrow> expr list \<Rightarrow> string" where
  "serialize eng FalseExpr = ''false''"
| "serialize eng TrueExpr = ''true''"
| "serialize eng (DefinedExpr key _) = key"
| "serialize eng (NotExpr key _) = ''!'' @ key"
| "serialize eng (EqualsExpr key value _) = ContextKeyEqualsExpr_serialize eng key value"
| "serialize eng (NotEqualsExpr key value _) = ContextKeyNotEqualsExpr_serialize eng key value"
| "serialize eng (AndExpr es _) = ContextKeyAndExpr_serialize eng es"
| "serialize eng (RegexExpr key regexp) = ContextKeyRegexExpr_serialize key regexp"
| "serialize eng (NotRegexExpr key regexp) = ContextKeyNotRegexExpr_serialize key regexp"
| "serialize eng (OrExpr es _) = ContextKeyOrExpr_serialize eng es"
| "serialize eng (InExpr key valueKey) = ContextKeyInExpr_serialize key valueKey"
| "serialize eng (NotInExpr key valueKey) = ContextKeyNotInExpr_serialize key valueKey"
| "serialize eng (GreaterExpr key value _) = ContextKeyGreaterExpr_serialize eng key value"
| "serialize eng (GreaterEqualsExpr key value _) = ContextKeyGreaterEqualsExpr_serialize eng key value"
| "serialize eng (SmallerExpr key value _) = ContextKeySmallerExpr_serialize eng key value"
| "serialize eng (SmallerEqualsExpr key value _) = ContextKeySmallerEqualsExpr_serialize eng key value"
| "serialize_all eng [] = []"
| "serialize_all eng (e # es) = serialize eng e # serialize_all eng es"
| "ContextKeyAndExpr_serialize eng es = js_join '' && '' (serialize_all eng es)"
| "ContextKeyOrExpr_serialize eng es = js_join '' || '' (serialize_all eng es)"

fun expr_keys :: "expr \<Rightarrow> string list"
  and ContextKeyAndExpr_keys :: "expr list \<Rightarrow> string list"
  and ContextKeyOrExpr_keys :: "expr list \<Rightarrow> string list" where
  "expr_keys FalseExpr = []"
| "expr_keys TrueExpr = []"
| "expr_keys (DefinedExpr key _) = [key]"
| "expr_keys (NotExpr key _) = [key]"
| "expr_keys (EqualsExpr key _ _) = [key]"
| "expr_keys (NotEqualsExpr key _ _) = [key]"
| "expr_keys (AndExpr es _) = ContextKeyAndExpr_keys es"
| "expr_keys (RegexExpr key _) = [key]"
| "expr_keys (NotRegexExpr key _) = [key]"
| "expr_keys (OrExpr es _) = ContextKeyOrExpr_keys es"
| "expr_keys (InExpr key valueKey) = [key, valueKey]"
| "expr_keys (NotInExpr key valueKey) = [key, valueKey]"
| "expr_keys (GreaterExpr key _ _) = [key]"
| "expr_keys (GreaterEqualsExpr key _ _) = [key]"
| "expr_keys (SmallerExpr key _ _) = [key]"
| "expr_keys (SmallerEqualsExpr key _ _) = [key]"
| "ContextKeyAndExpr_keys [] = []"
| "ContextKeyAndExpr_keys (e # es) = expr_keys e @ ContextKeyAndExpr_keys es"
| "ContextKeyOrExpr_keys [] = []"
| "ContextKeyOrExpr_keys (e # es) = expr_keys e @ ContextKeyOrExpr_keys es"

text \<open>
  \<open>IContextKeyExprMapper\<close>; \<open>mapRegex\<close>, \<open>mapIn\<close> and \<open>mapNotIn\<close> return the fields of the
  expression of the class they are declared with.
\<close>

record mapper =
  mapDefined :: "string \<Rightarrow> expr"
  mapNot :: "string \<Rightarrow> expr"
  mapEquals :: "string \<Rightarrow> prim \<Rightarrow> expr"
  mapNotEquals :: "string \<Rightarrow> prim \<Rightarrow> expr"
  mapGreater :: "string \<Rightarrow> prim \<Rightarrow> expr"
  mapGreaterEquals :: "string \<Rightarrow> prim \<Rightarrow> expr"
  mapSmaller :: "string \<Rightarrow> prim \<Rightarrow> expr"
  mapSmallerEquals :: "string \<Rightarrow> prim \<Rightarrow> expr"
  mapRegex :: "string \<Rightarrow> regexp option \<Rightarrow> string \<times> regexp option"
  mapIn :: "string \<Rightarrow> string \<Rightarrow> string \<times> string"
  mapNotIn :: "string \<Rightarrow> string \<Rightarrow> string \<times> string"

fun map_expr :: "mapper \<Rightarrow> expr \<Rightarrow> expr"
  and map_exprs :: "mapper \<Rightarrow> expr list \<Rightarrow> expr list" where
  "map_expr m FalseExpr = FalseExpr"
| "map_expr m TrueExpr = TrueExpr"
| "map_expr m (DefinedExpr key _) = mapDefined m key"
| "map_expr m (NotExpr key _) = mapNot m key"
| "map_expr m (EqualsExpr key value _) = mapEquals m key value"
| "map_expr m (NotEqualsExpr key value _) = mapNotEquals m key value"
| "map_expr m (AndExpr es _) = AndExpr (map_exprs m es) None"
| "map_expr m (RegexExpr key regexp) = (case mapRegex m key regexp of (k, r) \<Rightarrow> RegexExpr k r)"
| "map_expr m (NotRegexExpr key regexp) = (case mapRegex m key regexp of (k, r) \<Rightarrow> NotRegexExpr k r)"
| "map_expr m (OrExpr es _) = OrExpr (map_exprs m es) None"
| "map_expr m (InExpr key valueKey) = (case mapIn m key valueKey of (k, v) \<Rightarrow> InExpr k v)"
| "map_expr m (NotInExpr key valueKey) = (case mapNotIn m key valueKey of (k, v) \<Rightarrow> NotInExpr k v)"
| "map_expr m (GreaterExpr key value _) = mapGreater m key value"
| "map_expr m (GreaterEqualsExpr key value _) = mapGreaterEquals m key value"
| "map_expr m (SmallerExpr key value _) = mapSmaller m key value"
| "map_expr m (SmallerEqualsExpr key value _) = mapSmallerEquals m key value"
| "map_exprs m [] = []"
| "map_exprs m (e # es) = map_expr m e # map_exprs m es"

section \<open>Creating conjunctions and disjunctions\<close>

text \<open>\<open>xs.map(f)\<close> of a computation that may exceed its bound.\<close>

fun omap :: "('a \<Rightarrow> 'b option) \<Rightarrow> 'a list \<Rightarrow> 'b list option" where
  "omap f [] = Some []"
| "omap f (x # xs) = do { y \<leftarrow> f x; ys \<leftarrow> omap f xs; Some (y # ys) }"

text \<open>
  The signatures of the two \<open>create\<close> functions and of \<open>negate\<close>: the elements may be null or
  undefined, the result may be undefined. The \<open>!\<close> behind a call asserts that it is not.
\<close>

type_synonym creator = "expr option list \<Rightarrow> expr option \<Rightarrow> bool \<Rightarrow> expr option option"
type_synonym negator = "expr \<Rightarrow> expr option"

definition non_null :: "expr option option \<Rightarrow> expr option" where
  "non_null r = (case r of Some e \<Rightarrow> e | None \<Rightarrow> None)"

text \<open>The first loop of \<open>ContextKeyAndExpr._normalizeArr\<close>; \<open>None\<close> when it meets \<open>false\<close>.\<close>

fun and_collect :: "expr option list \<Rightarrow> expr list \<Rightarrow> bool \<Rightarrow> (expr list \<times> bool) option" where
  "and_collect [] expr hasTrue = Some (expr, hasTrue)"
| "and_collect (None # arr) expr hasTrue = and_collect arr expr hasTrue"
| "and_collect (Some e # arr) expr hasTrue =
     (case e of
        TrueExpr \<Rightarrow> and_collect arr expr True
      | FalseExpr \<Rightarrow> None
      | AndExpr es _ \<Rightarrow> and_collect arr (expr @ es) hasTrue
      | _ \<Rightarrow> and_collect arr (expr @ [e]) hasTrue)"

fun or_collect :: "expr option list \<Rightarrow> expr list \<Rightarrow> bool \<Rightarrow> (expr list \<times> bool) option" where
  "or_collect [] expr hasFalse = Some (expr, hasFalse)"
| "or_collect (None # arr) expr hasFalse = or_collect arr expr hasFalse"
| "or_collect (Some e # arr) expr hasFalse =
     (case e of
        FalseExpr \<Rightarrow> or_collect arr expr True
      | TrueExpr \<Rightarrow> None
      | OrExpr es _ \<Rightarrow> or_collect arr (expr @ es) hasFalse
      | _ \<Rightarrow> or_collect arr (expr @ [e]) hasFalse)"

text \<open>Duplicates are removed between neighbours of the sorted array.\<close>

fun eliminate_duplicates :: "expr list \<Rightarrow> expr list" where
  "eliminate_duplicates (a # b # es) =
     (if expr_equals a b then eliminate_duplicates (a # es) else a # eliminate_duplicates (b # es))"
| "eliminate_duplicates es = es"

text \<open>Is the negation of an element equal to a later one?\<close>

fun has_complement :: "negator \<Rightarrow> expr list \<Rightarrow> bool option" where
  "has_complement neg [] = Some False"
| "has_complement neg (e # es) =
     (if es = [] then Some False
      else do {
        n \<leftarrow> neg e;
        if list_ex (expr_equals n) es then Some True else has_complement neg es
      })"

text \<open>The loop that distributes a disjunction at the end over the element before it.\<close>

function and_distribute :: "creator \<Rightarrow> creator \<Rightarrow> bool \<Rightarrow> expr list \<Rightarrow> expr list option" where
  "and_distribute andc orc extraRedundantCheck expr =
     (if length expr > 1 then
        (case last expr of
           OrExpr es _ \<Rightarrow>
             let secondToLastElement = last (butlast expr);
                 expr = butlast (butlast expr);
                 isFinished = (expr = [])
             in do {
                  els \<leftarrow> omap (\<lambda>el. andc [Some el, Some secondToLastElement] None extraRedundantCheck) es;
                  resultElement \<leftarrow> orc els None isFinished;
                  (case resultElement of
                     Some r \<Rightarrow> and_distribute andc orc extraRedundantCheck (js_sort expr_cmp (expr @ [r]))
                   | None \<Rightarrow> and_distribute andc orc extraRedundantCheck expr)
                }
         | _ \<Rightarrow> Some expr)
      else Some expr)"
  by pat_completeness auto
termination
  by (relation "measure (\<lambda>(andc, orc, x, expr). length expr)") auto

declare and_distribute.simps [simp del]

definition ContextKeyAndExpr_normalizeArr ::
  "creator \<Rightarrow> creator \<Rightarrow> negator \<Rightarrow> expr option list \<Rightarrow> expr option \<Rightarrow> bool \<Rightarrow> expr option option" where
  "ContextKeyAndExpr_normalizeArr andc orc neg arr negated extraRedundantCheck =
     (case and_collect arr [] False of
        None \<Rightarrow> Some (Some FalseExpr)
      | Some (expr, hasTrue) \<Rightarrow>
          if expr = [] \<and> hasTrue then Some (Some TrueExpr)
          else if expr = [] then Some None
          else if length expr = 1 then Some (Some (hd expr))
          else
            let expr = eliminate_duplicates (js_sort expr_cmp expr) in
            if length expr = 1 then Some (Some (hd expr))
            else do {
              expr \<leftarrow> and_distribute andc orc extraRedundantCheck expr;
              if length expr = 1 then Some (Some (hd expr))
              else if extraRedundantCheck then do {
                found \<leftarrow> has_complement neg expr;
                Some (Some (if found then FalseExpr else AndExpr expr negated))
              }
              else Some (Some (AndExpr expr negated))
            })"

definition ContextKeyOrExpr_normalizeArr ::
  "negator \<Rightarrow> expr option list \<Rightarrow> expr option \<Rightarrow> bool \<Rightarrow> expr option option" where
  "ContextKeyOrExpr_normalizeArr neg arr negated extraRedundantCheck =
     (case or_collect arr [] False of
        None \<Rightarrow> Some (Some TrueExpr)
      | Some (expr, hasFalse) \<Rightarrow>
          if expr = [] \<and> hasFalse then Some (Some FalseExpr)
          else
            let expr = js_sort expr_cmp expr in
            if expr = [] then Some None
            else if length expr = 1 then Some (Some (hd expr))
            else
              let expr = eliminate_duplicates expr in
              if length expr = 1 then Some (Some (hd expr))
              else if extraRedundantCheck then do {
                found \<leftarrow> has_complement neg expr;
                Some (Some (if found then TrueExpr else OrExpr expr negated))
              }
              else Some (Some (OrExpr expr negated)))"

section \<open>Negation\<close>

definition getTerminals :: "expr \<Rightarrow> expr list" where
  "getTerminals node = (case node of OrExpr es _ \<Rightarrow> es | _ \<Rightarrow> [node])"

definition ContextKeyAndExpr_negate ::
  "creator \<Rightarrow> negator \<Rightarrow> expr list \<Rightarrow> expr option \<Rightarrow> expr option" where
  "ContextKeyAndExpr_negate orc neg es negated =
     (case negated of Some n \<Rightarrow> Some n
      | None \<Rightarrow> do {
          result \<leftarrow> omap neg es;
          non_null (orc (map Some result) (Some (AndExpr es negated)) True)
        })"

text \<open>The loop of \<open>ContextKeyOrExpr.negate\<close>: the conjunction of the first two, distributed.\<close>

fun or_negate_loop :: "creator \<Rightarrow> creator \<Rightarrow> expr list \<Rightarrow> expr list option" where
  "or_negate_loop andc orc (LEFT # RIGHT # result) =
     do {
       all \<leftarrow> omap (\<lambda>(left, right). andc [Some left, Some right] None False)
                [(left, right). left \<leftarrow> getTerminals LEFT, right \<leftarrow> getTerminals RIGHT];
       first \<leftarrow> non_null (orc all None False);
       or_negate_loop andc orc (first # result)
     }"
| "or_negate_loop andc orc result = Some result"

definition ContextKeyOrExpr_negate ::
  "creator \<Rightarrow> creator \<Rightarrow> negator \<Rightarrow> expr list \<Rightarrow> expr option \<Rightarrow> expr option" where
  "ContextKeyOrExpr_negate andc orc neg es negated =
     (case negated of Some n \<Rightarrow> Some n
      | None \<Rightarrow> do {
          result \<leftarrow> omap neg es;
          result \<leftarrow> or_negate_loop andc orc result;
          non_null (orc (map Some result) (Some (OrExpr es negated)) True)
        })"

definition negate_body :: "consts_map \<Rightarrow> creator \<Rightarrow> creator \<Rightarrow> negator \<Rightarrow> expr \<Rightarrow> expr option" where
  "negate_body cs andc orc neg e =
     (case e of
        FalseExpr \<Rightarrow> Some ContextKeyFalseExpr_negate
      | TrueExpr \<Rightarrow> Some ContextKeyTrueExpr_negate
      | DefinedExpr key n \<Rightarrow> Some (ContextKeyDefinedExpr_negate cs key n)
      | NotExpr key n \<Rightarrow> Some (ContextKeyNotExpr_negate cs key n)
      | EqualsExpr key value n \<Rightarrow> Some (ContextKeyEqualsExpr_negate cs key value n)
      | NotEqualsExpr key value n \<Rightarrow> Some (ContextKeyNotEqualsExpr_negate cs key value n)
      | AndExpr es n \<Rightarrow> ContextKeyAndExpr_negate orc neg es n
      | RegexExpr key regexp \<Rightarrow> Some (ContextKeyRegexExpr_negate key regexp)
      | NotRegexExpr key regexp \<Rightarrow> Some (ContextKeyNotRegexExpr_negate key regexp)
      | OrExpr es n \<Rightarrow> ContextKeyOrExpr_negate andc orc neg es n
      | InExpr key valueKey \<Rightarrow> Some (ContextKeyInExpr_negate key valueKey)
      | NotInExpr key valueKey \<Rightarrow> Some (ContextKeyNotInExpr_negate key valueKey)
      | GreaterExpr key value n \<Rightarrow> Some (ContextKeyGreaterExpr_negate key value n)
      | GreaterEqualsExpr key value n \<Rightarrow> Some (ContextKeyGreaterEqualsExpr_negate key value n)
      | SmallerExpr key value n \<Rightarrow> Some (ContextKeySmallerExpr_negate key value n)
      | SmallerEqualsExpr key value n \<Rightarrow> Some (ContextKeySmallerEqualsExpr_negate key value n))"

text \<open>The three operations, with a bound on the depth of their calls.\<close>

fun and_create :: "nat \<Rightarrow> consts_map \<Rightarrow> creator"
  and or_create :: "nat \<Rightarrow> consts_map \<Rightarrow> creator"
  and negate :: "nat \<Rightarrow> consts_map \<Rightarrow> negator" where
  "and_create 0 cs arr negated extra = None"
| "or_create 0 cs arr negated extra = None"
| "negate 0 cs e = None"
| "and_create (Suc n) cs arr negated extra =
     ContextKeyAndExpr_normalizeArr (and_create n cs) (or_create n cs) (negate n cs) arr negated extra"
| "or_create (Suc n) cs arr negated extra =
     ContextKeyOrExpr_normalizeArr (negate n cs) arr negated extra"
| "negate (Suc n) cs e = negate_body cs (and_create n cs) (or_create n cs) (negate n cs) e"

definition ContextKeyExpr_and :: "nat \<Rightarrow> consts_map \<Rightarrow> expr option list \<Rightarrow> expr option option" where
  "ContextKeyExpr_and n cs es = and_create n cs es None True"

definition ContextKeyExpr_or :: "nat \<Rightarrow> consts_map \<Rightarrow> expr option list \<Rightarrow> expr option option" where
  "ContextKeyExpr_or n cs es = or_create n cs es None True"

definition ContextKeyExpr_has :: "consts_map \<Rightarrow> string \<Rightarrow> expr" where
  "ContextKeyExpr_has cs key = ContextKeyDefinedExpr_create cs key None"

definition ContextKeyExpr_not :: "consts_map \<Rightarrow> string \<Rightarrow> expr" where
  "ContextKeyExpr_not cs key = ContextKeyNotExpr_create cs key None"

definition ContextKeyExpr_equals :: "consts_map \<Rightarrow> string \<Rightarrow> prim \<Rightarrow> expr" where
  "ContextKeyExpr_equals cs key value = ContextKeyEqualsExpr_create cs key value None"

definition ContextKeyExpr_notEquals :: "consts_map \<Rightarrow> string \<Rightarrow> prim \<Rightarrow> expr" where
  "ContextKeyExpr_notEquals cs key value = ContextKeyNotEqualsExpr_create cs key value None"

definition ContextKeyExpr_greater :: "string \<Rightarrow> prim \<Rightarrow> expr" where
  "ContextKeyExpr_greater key value = ContextKeyGreaterExpr_create key value None"

definition ContextKeyExpr_greaterEquals :: "string \<Rightarrow> prim \<Rightarrow> expr" where
  "ContextKeyExpr_greaterEquals key value = ContextKeyGreaterEqualsExpr_create key value None"

definition ContextKeyExpr_smaller :: "string \<Rightarrow> prim \<Rightarrow> expr" where
  "ContextKeyExpr_smaller key value = ContextKeySmallerExpr_create key value None"

definition ContextKeyExpr_smallerEquals :: "string \<Rightarrow> prim \<Rightarrow> expr" where
  "ContextKeyExpr_smallerEquals key value = ContextKeySmallerEqualsExpr_create key value None"

section \<open>Constant substitution\<close>

text \<open>
  \<open>substituteConstants\<close> returns the same object when nothing changed, and its callers test for
  that: the result is \<open>None\<close> for \<open>this\<close> and \<open>Some e\<close> for a new result \<open>e\<close>, itself possibly
  undefined.
\<close>

definition new_or_same :: "expr \<Rightarrow> expr option option \<Rightarrow> expr option" where
  "new_or_same e r = (case r of None \<Rightarrow> Some e | Some e' \<Rightarrow> e')"

definition eliminateConstantsInArray ::
  "expr list \<Rightarrow> expr option option list \<Rightarrow> expr option list option" where
  "eliminateConstantsInArray arr news =
     (if list_all (\<lambda>r. r = None) news then None else Some (map2 new_or_same arr news))"

fun substituteConstants :: "nat \<Rightarrow> consts_map \<Rightarrow> expr \<Rightarrow> expr option option option"
  and substituteConstants_all :: "nat \<Rightarrow> consts_map \<Rightarrow> expr list \<Rightarrow> expr option option list option"
  and ContextKeyAndExpr_substituteConstants ::
    "nat \<Rightarrow> consts_map \<Rightarrow> expr list \<Rightarrow> expr option \<Rightarrow> expr option option option"
  and ContextKeyOrExpr_substituteConstants ::
    "nat \<Rightarrow> consts_map \<Rightarrow> expr list \<Rightarrow> expr option \<Rightarrow> expr option option option" where
  "substituteConstants n cs (DefinedExpr key _) =
     Some (map_option Some (ContextKeyDefinedExpr_substituteConstants cs key))"
| "substituteConstants n cs (NotExpr key _) =
     Some (map_option Some (ContextKeyNotExpr_substituteConstants cs key))"
| "substituteConstants n cs (EqualsExpr key value _) =
     Some (map_option Some (ContextKeyEqualsExpr_substituteConstants cs key value))"
| "substituteConstants n cs (NotEqualsExpr key value _) =
     Some (map_option Some (ContextKeyNotEqualsExpr_substituteConstants cs key value))"
| "substituteConstants n cs (AndExpr es negated) = ContextKeyAndExpr_substituteConstants n cs es negated"
| "substituteConstants n cs (OrExpr es negated) = ContextKeyOrExpr_substituteConstants n cs es negated"
| "substituteConstants n cs e = Some None"
| "substituteConstants_all n cs [] = Some []"
| "substituteConstants_all n cs (e # es) =
     do { r \<leftarrow> substituteConstants n cs e; rs \<leftarrow> substituteConstants_all n cs es; Some (r # rs) }"
| "ContextKeyAndExpr_substituteConstants n cs es negated =
     do {
       news \<leftarrow> substituteConstants_all n cs es;
       (case eliminateConstantsInArray es news of
          None \<Rightarrow> Some None
        | Some exprArr \<Rightarrow> map_option Some (and_create n cs exprArr negated False))
     }"
| "ContextKeyOrExpr_substituteConstants n cs es negated =
     do {
       news \<leftarrow> substituteConstants_all n cs es;
       (case eliminateConstantsInArray es news of
          None \<Rightarrow> Some None
        | Some exprArr \<Rightarrow> map_option Some (or_create n cs exprArr negated False))
     }"

definition substituted :: "nat \<Rightarrow> consts_map \<Rightarrow> expr option \<Rightarrow> expr option option" where
  "substituted n cs a =
     (case a of None \<Rightarrow> Some None | Some e \<Rightarrow> map_option (new_or_same e) (substituteConstants n cs e))"

definition expressionsAreEqualWithConstantSubstitution ::
  "nat \<Rightarrow> consts_map \<Rightarrow> expr option \<Rightarrow> expr option \<Rightarrow> bool option" where
  "expressionsAreEqualWithConstantSubstitution n cs a b =
     do {
       aExpr \<leftarrow> substituted n cs a;
       bExpr \<leftarrow> substituted n cs b;
       Some (case (aExpr, bExpr) of
               (None, None) \<Rightarrow> True
             | (Some x, Some y) \<Rightarrow> expr_equals x y
             | _ \<Rightarrow> False)
     }"

section \<open>Implication\<close>

fun allElementsIncluded :: "expr list \<Rightarrow> expr list \<Rightarrow> bool" where
  "allElementsIncluded (p # ps) (q # qs) =
     (let c = expr_cmp p q in
      if c < 0 then False
      else if c = 0 then allElementsIncluded ps qs
      else allElementsIncluded (p # ps) qs)"
| "allElementsIncluded [] qs = True"
| "allElementsIncluded (p # ps) [] = False"

text \<open>The two loops over the elements of one side recurse on the size of both expressions.\<close>

function implies :: "expr \<Rightarrow> expr \<Rightarrow> bool" where
  "implies p q =
     (if p = FalseExpr \<or> q = TrueExpr then True
      else case p of
        OrExpr ps _ \<Rightarrow> (case q of OrExpr qs _ \<Rightarrow> allElementsIncluded ps qs | _ \<Rightarrow> False)
      | AndExpr ps _ \<Rightarrow>
          (case q of
             OrExpr qs _ \<Rightarrow> list_ex (\<lambda>element. implies p element) qs
           | AndExpr qs _ \<Rightarrow> allElementsIncluded qs ps
           | _ \<Rightarrow> list_ex (\<lambda>element. implies element q) ps)
      | _ \<Rightarrow>
          (case q of
             OrExpr qs _ \<Rightarrow> list_ex (\<lambda>element. implies p element) qs
           | _ \<Rightarrow> expr_equals p q))"
  by pat_completeness auto
termination
proof (relation "measure (\<lambda>(p, q). size p + size q)", goal_cases)
  case 1
  then show ?case by simp
qed (auto dest!: size_list_estimation' [where f = size, OF _ order_refl])

declare implies.simps [simp del]

end
