(* ===== verification/ContextKeySemantics.thy ===== *)
theory ContextKeySemantics
  imports ContextKeys
begin

text \<open>
  Meaning of the operations of \<open>ContextKeys\<close>: under the conditions collected in \<open>coherent\<close>, every
  elementary \<open>equals\<close> and \<open>negate\<close> respects \<open>evaluate\<close>, and so do the creation of conjunctions and
  disjunctions, with all steps of their normalisation, and the negation of both.
\<close>

section \<open>Meaning of the loops\<close>

lemma and_evaluate_all [simp]:
  "ContextKeyAndExpr_evaluate eng es ctx \<longleftrightarrow> (\<forall>e\<in>set es. evaluate eng e ctx)"
  by (induction es) auto

lemma or_evaluate_ex [simp]:
  "ContextKeyOrExpr_evaluate eng es ctx \<longleftrightarrow> (\<exists>e\<in>set es. evaluate eng e ctx)"
  by (induction es) auto

text \<open>
  What the code takes for granted of an expression, relative to an engine, the constants, a
  context and the flags \<open>F\<close> that go with the source of a regular expression:

    \<^item> the value of a key that is a constant agrees with it (also where the key is compared);
    \<^item> a comparison has a number as its value and a key whose value reads as a number;
    \<^item> regular expressions with the same source have the same flags;
    \<^item> conjunctions and disjunctions have elements;
    \<^item> an expression that the constructor was given as \<open>negated\<close> is the complement.
\<close>

definition const_agrees :: "consts_map \<Rightarrow> IContext \<Rightarrow> string \<Rightarrow> bool" where
  "const_agrees cs ctx key \<longleftrightarrow> (case cs key of None \<Rightarrow> True | Some b \<Rightarrow> truthy (ctx key) = b)"

definition const_equals_agrees :: "engine \<Rightarrow> consts_map \<Rightarrow> IContext \<Rightarrow> string \<Rightarrow> prim \<Rightarrow> bool" where
  "const_equals_agrees eng cs ctx key value \<longleftrightarrow> (\<forall>b. value \<noteq> Bool b)
     \<and> (case cs key of None \<Rightarrow> True
        | Some b \<Rightarrow> loose_eq eng (ctx key) value \<longleftrightarrow> value = Str (if b then ''true'' else ''false''))"

definition numeric_comparison :: "engine \<Rightarrow> IContext \<Rightarrow> string \<Rightarrow> prim \<Rightarrow> bool" where
  "numeric_comparison eng ctx key value \<longleftrightarrow>
     (\<exists>r. value = Num r \<and> r \<noteq> NaN) \<and> parseFloat eng (ctx key) \<noteq> NaN"

definition regexp_ok :: "(string \<Rightarrow> string) \<Rightarrow> regexp option \<Rightarrow> bool" where
  "regexp_ok F r \<longleftrightarrow> (case r of None \<Rightarrow> True | Some (source, flags) \<Rightarrow> source \<noteq> [] \<and> flags = F source)"

definition children :: "expr \<Rightarrow> expr list" where
  "children e = (case e of AndExpr es _ \<Rightarrow> es | OrExpr es _ \<Rightarrow> es | _ \<Rightarrow> [])"

definition cached :: "expr \<Rightarrow> expr option" where
  "cached e =
     (case e of
        DefinedExpr _ n \<Rightarrow> n | NotExpr _ n \<Rightarrow> n | EqualsExpr _ _ n \<Rightarrow> n | NotEqualsExpr _ _ n \<Rightarrow> n
      | AndExpr _ n \<Rightarrow> n | OrExpr _ n \<Rightarrow> n | GreaterExpr _ _ n \<Rightarrow> n | GreaterEqualsExpr _ _ n \<Rightarrow> n
      | SmallerExpr _ _ n \<Rightarrow> n | SmallerEqualsExpr _ _ n \<Rightarrow> n | _ \<Rightarrow> None)"

definition locally_ok :: "engine \<Rightarrow> consts_map \<Rightarrow> (string \<Rightarrow> string) \<Rightarrow> IContext \<Rightarrow> expr \<Rightarrow> bool" where
  "locally_ok eng cs F ctx e =
     (case e of
        DefinedExpr key _ \<Rightarrow> const_agrees cs ctx key
      | NotExpr key _ \<Rightarrow> const_agrees cs ctx key
      | EqualsExpr key value _ \<Rightarrow> const_equals_agrees eng cs ctx key value
      | NotEqualsExpr key value _ \<Rightarrow> const_equals_agrees eng cs ctx key value
      | AndExpr es _ \<Rightarrow> es \<noteq> []
      | OrExpr es _ \<Rightarrow> es \<noteq> []
      | RegexExpr key r \<Rightarrow> regexp_ok F r
      | NotRegexExpr key r \<Rightarrow> regexp_ok F r
      | GreaterExpr key value _ \<Rightarrow> numeric_comparison eng ctx key value
      | GreaterEqualsExpr key value _ \<Rightarrow> numeric_comparison eng ctx key value
      | SmallerExpr key value _ \<Rightarrow> numeric_comparison eng ctx key value
      | SmallerEqualsExpr key value _ \<Rightarrow> numeric_comparison eng ctx key value
      | _ \<Rightarrow> True)"

lemma size_children: "x \<in> set (children e) \<Longrightarrow> size x < size e"
  by (cases e) (auto simp: children_def dest!: size_list_estimation' [where f = size, OF _ order_refl])

lemma size_cached: "cached e = Some m \<Longrightarrow> size m < size e"
  by (cases e) (auto simp: cached_def)

function coherent :: "engine \<Rightarrow> consts_map \<Rightarrow> (string \<Rightarrow> string) \<Rightarrow> IContext \<Rightarrow> expr \<Rightarrow> bool" where
  "coherent eng cs F ctx e \<longleftrightarrow> locally_ok eng cs F ctx e
     \<and> (\<forall>x\<in>set (children e). coherent eng cs F ctx x)
     \<and> (case cached e of None \<Rightarrow> True
        | Some m \<Rightarrow> coherent eng cs F ctx m \<and> (evaluate eng m ctx \<longleftrightarrow> \<not> evaluate eng e ctx))"
  by pat_completeness auto
termination
  by (relation "measure (\<lambda>(eng, cs, F, ctx, e). size e)") (auto simp: size_children size_cached)

declare coherent.simps [simp del]

lemmas coherent_expr =
  coherent.simps [of _ _ _ _ FalseExpr] coherent.simps [of _ _ _ _ TrueExpr]
  coherent.simps [of _ _ _ _ "DefinedExpr k n" for k n]
  coherent.simps [of _ _ _ _ "NotExpr k n" for k n]
  coherent.simps [of _ _ _ _ "EqualsExpr k v n" for k v n]
  coherent.simps [of _ _ _ _ "NotEqualsExpr k v n" for k v n]
  coherent.simps [of _ _ _ _ "AndExpr es n" for es n]
  coherent.simps [of _ _ _ _ "RegexExpr k r" for k r]
  coherent.simps [of _ _ _ _ "NotRegexExpr k r" for k r]
  coherent.simps [of _ _ _ _ "OrExpr es n" for es n]
  coherent.simps [of _ _ _ _ "InExpr k v" for k v]
  coherent.simps [of _ _ _ _ "NotInExpr k v" for k v]
  coherent.simps [of _ _ _ _ "GreaterExpr k v n" for k v n]
  coherent.simps [of _ _ _ _ "GreaterEqualsExpr k v n" for k v n]
  coherent.simps [of _ _ _ _ "SmallerExpr k v n" for k v n]
  coherent.simps [of _ _ _ _ "SmallerEqualsExpr k v n" for k v n]

lemmas coherent_unfold = coherent_expr [unfolded locally_ok_def children_def cached_def, simplified]

section \<open>Equal expressions\<close>

lemmas equals_defs =
  ContextKeyDefinedExpr_equals_def ContextKeyNotExpr_equals_def ContextKeyEqualsExpr_equals_def
  ContextKeyNotEqualsExpr_equals_def ContextKeyInExpr_equals_def ContextKeyNotInExpr_equals_def
  ContextKeyGreaterExpr_equals_def ContextKeyGreaterEqualsExpr_equals_def
  ContextKeySmallerExpr_equals_def ContextKeySmallerEqualsExpr_equals_def
  ContextKeyRegexExpr_equals_def ContextKeyNotRegexExpr_equals_def strict_eq_def

lemmas evaluate_defs =
  ContextKeyFalseExpr_evaluate_def ContextKeyTrueExpr_evaluate_def
  ContextKeyDefinedExpr_evaluate_def ContextKeyNotExpr_evaluate_def ContextKeyEqualsExpr_evaluate_def
  ContextKeyNotEqualsExpr_evaluate_def ContextKeyNotInExpr_evaluate_def
  ContextKeyNotRegexExpr_evaluate_def ContextKeyGreaterExpr_evaluate_def
  ContextKeyGreaterEqualsExpr_evaluate_def ContextKeySmallerExpr_evaluate_def
  ContextKeySmallerEqualsExpr_evaluate_def

lemma regexp_ok_source:
  "regexp_ok F r \<Longrightarrow> regexp_ok F r' \<Longrightarrow> regexp_source r = regexp_source r' \<Longrightarrow> r = r'"
  by (auto simp: regexp_ok_def regexp_source_def split: option.splits)

lemma ContextKeyExprType_const [simp]:
  "ContextKeyExprType e = 0 \<longleftrightarrow> e = FalseExpr" "ContextKeyExprType e = 1 \<longleftrightarrow> e = TrueExpr"
  by (cases e; simp)+

lemma map_eq_all_ex:
  assumes "map f xs = map f ys"
  shows "(\<forall>x\<in>set xs. f x) = (\<forall>y\<in>set ys. f y)" "(\<exists>x\<in>set xs. f x) = (\<exists>y\<in>set ys. f y)"
proof -
  have "f ` set xs = f ` set ys" using assms by (metis set_map)
  then show "(\<forall>x\<in>set xs. f x) = (\<forall>y\<in>set ys. f y)" "(\<exists>x\<in>set xs. f x) = (\<exists>y\<in>set ys. f y)"
    by (metis (full_types) image_eqI imageE)+
qed

lemma expr_equals_sound_mutual:
  "coherent eng cs F ctx a \<Longrightarrow> coherent eng cs F ctx b \<Longrightarrow> expr_equals a b \<Longrightarrow>
     evaluate eng a ctx = evaluate eng b ctx"
  "(\<forall>x\<in>set as. coherent eng cs F ctx x) \<Longrightarrow> coherent eng cs F ctx b \<Longrightarrow> ContextKeyAndExpr_equals as b \<Longrightarrow>
     (\<forall>x\<in>set as. evaluate eng x ctx) = evaluate eng b ctx"
  "(\<forall>x\<in>set as. coherent eng cs F ctx x) \<Longrightarrow> coherent eng cs F ctx b \<Longrightarrow> ContextKeyOrExpr_equals as b \<Longrightarrow>
     (\<exists>x\<in>set as. evaluate eng x ctx) = evaluate eng b ctx"
  "(\<forall>x\<in>set as. coherent eng cs F ctx x) \<Longrightarrow> (\<forall>x\<in>set bs. coherent eng cs F ctx x) \<Longrightarrow>
     length as = length bs \<Longrightarrow> expr_equals_loop as bs \<Longrightarrow>
     map (\<lambda>e. evaluate eng e ctx) as = map (\<lambda>e. evaluate eng e ctx) bs"
proof (induction a b and as b and as b and as bs rule:
    expr_equals_ContextKeyAndExpr_equals_ContextKeyOrExpr_equals_expr_equals_loop.induct)
  case (17 es other)
  then show ?case
    by (auto simp: coherent_unfold split: expr.splits if_splits dest: map_eq_all_ex(1))
next
  case (18 es other)
  then show ?case
    by (auto simp: coherent_unfold split: expr.splits if_splits dest: map_eq_all_ex(2))
qed (auto simp: equals_defs evaluate_defs coherent_unfold dest: regexp_ok_source
    split: expr.splits if_splits)

lemmas expr_equals_sound = expr_equals_sound_mutual(1)

section \<open>Negation of elementary expressions\<close>

lemma num_compare_complement:
  assumes "a \<noteq> NaN" "b \<noteq> NaN"
  shows "num_le a b \<longleftrightarrow> \<not> num_less b a"
  using assms num_less_linear [of a b] num_less_antisym [of a b] by (auto simp: num_le_def num_eq_def)

definition is_atom :: "expr \<Rightarrow> bool" where
  "is_atom e = (case e of AndExpr _ _ \<Rightarrow> False | OrExpr _ _ \<Rightarrow> False | _ \<Rightarrow> True)"

lemmas negate_defs =
  ContextKeyFalseExpr_negate_def ContextKeyTrueExpr_negate_def ContextKeyDefinedExpr_negate_def
  ContextKeyNotExpr_negate_def ContextKeyEqualsExpr_negate_def ContextKeyNotEqualsExpr_negate_def
  ContextKeyInExpr_negate_def ContextKeyNotInExpr_negate_def ContextKeyRegexExpr_negate_def
  ContextKeyNotRegexExpr_negate_def ContextKeyGreaterExpr_negate_def
  ContextKeyGreaterEqualsExpr_negate_def ContextKeySmallerExpr_negate_def
  ContextKeySmallerEqualsExpr_negate_def

lemmas create_defs =
  ContextKeyDefinedExpr_create_def ContextKeyNotExpr_create_def ContextKeyEqualsExpr_create_def
  ContextKeyNotEqualsExpr_create_def ContextKeyInExpr_create_def ContextKeyNotInExpr_create_def
  ContextKeyNotRegexExpr_create_def ContextKeyGreaterExpr_create_def
  ContextKeyGreaterEqualsExpr_create_def ContextKeySmallerExpr_create_def
  ContextKeySmallerEqualsExpr_create_def withFloatOrStr_def

lemma negate_atom_cached:
  assumes "coherent eng cs F ctx e" "cached e = Some m" "is_atom e"
  shows "negate_body cs andc orc neg e = Some m"
  using assms(2,3) by (cases e) (auto simp: cached_def is_atom_def negate_body_def negate_defs)

lemma negate_atom_sound:
  assumes "coherent eng cs F ctx e" "is_atom e" "negate_body cs andc orc neg e = Some e'"
  shows "coherent eng cs F ctx e' \<and> (evaluate eng e' ctx \<longleftrightarrow> \<not> evaluate eng e ctx)"
proof (cases "cached e")
  case (Some m)
  with assms have "e' = m" using negate_atom_cached by fastforce
  with assms(1) Some show ?thesis by (simp add: coherent.simps [of _ _ _ _ e])
next
  case None
  then show ?thesis
  proof (cases e)
    case (EqualsExpr k v n)
    with assms None show ?thesis
      by (cases v) (auto simp: cached_def negate_body_def negate_defs create_defs coherent_unfold
          evaluate_defs const_equals_agrees_def strict_eq_def split: option.splits)
  next
    case (NotEqualsExpr k v n)
    with assms None show ?thesis
      by (cases v) (auto simp: cached_def negate_body_def negate_defs create_defs coherent_unfold
          evaluate_defs const_equals_agrees_def strict_eq_def split: option.splits)
  next
    case (GreaterExpr k v n)
    with assms None show ?thesis
      by (auto simp: cached_def negate_body_def negate_defs create_defs coherent_unfold
          evaluate_defs numeric_comparison_def num_compare_complement Let_def)
  next
    case (GreaterEqualsExpr k v n)
    with assms None show ?thesis
      by (auto simp: cached_def negate_body_def negate_defs create_defs coherent_unfold
          evaluate_defs numeric_comparison_def num_compare_complement Let_def)
  next
    case (SmallerExpr k v n)
    with assms None show ?thesis
      by (auto simp: cached_def negate_body_def negate_defs create_defs coherent_unfold
          evaluate_defs numeric_comparison_def num_compare_complement Let_def)
  next
    case (SmallerEqualsExpr k v n)
    with assms None show ?thesis
      by (auto simp: cached_def negate_body_def negate_defs create_defs coherent_unfold
          evaluate_defs numeric_comparison_def num_compare_complement Let_def)
  qed (use assms None in \<open>auto simp: cached_def is_atom_def negate_body_def negate_defs create_defs
      coherent_unfold evaluate_defs const_agrees_def split: option.splits if_splits\<close>)
qed

section \<open>What the three operations are to do\<close>

text \<open>
  The specifications, for partial results: the meaning of the elements that are not null, and of
  the complement. They are shown for the bodies from the same specifications of the calls.
\<close>

definition given :: "expr option list \<Rightarrow> expr set" where
  "given arr = {e. Some e \<in> set arr}"

lemma given_simps [simp]:
  "given [] = {}" "given (None # arr) = given arr" "given (Some e # arr) = insert e (given arr)"
  "given (map Some es) = set es"
  by (auto simp: given_def)

definition negated_ok ::
  "engine \<Rightarrow> consts_map \<Rightarrow> (string \<Rightarrow> string) \<Rightarrow> IContext \<Rightarrow> expr option \<Rightarrow> bool \<Rightarrow> bool" where
  "negated_ok eng cs F ctx negated v \<longleftrightarrow>
     (case negated of None \<Rightarrow> True | Some m \<Rightarrow> coherent eng cs F ctx m \<and> (evaluate eng m ctx \<longleftrightarrow> \<not> v))"

definition creates ::
  "engine \<Rightarrow> consts_map \<Rightarrow> (string \<Rightarrow> string) \<Rightarrow> IContext \<Rightarrow> (bool set \<Rightarrow> bool) \<Rightarrow> creator \<Rightarrow> bool" where
  "creates eng cs F ctx op create \<longleftrightarrow>
     (\<forall>arr negated extra r. (\<forall>e\<in>given arr. coherent eng cs F ctx e)
        \<longrightarrow> negated_ok eng cs F ctx negated (op ((\<lambda>e. evaluate eng e ctx) ` given arr))
        \<longrightarrow> create arr negated extra = Some r
        \<longrightarrow> (case r of None \<Rightarrow> given arr = {}
             | Some e \<Rightarrow> coherent eng cs F ctx e
                 \<and> evaluate eng e ctx = op ((\<lambda>e. evaluate eng e ctx) ` given arr)))"

definition conj_of :: "bool set \<Rightarrow> bool" where "conj_of B \<longleftrightarrow> (\<forall>b\<in>B. b)"
definition disj_of :: "bool set \<Rightarrow> bool" where "disj_of B \<longleftrightarrow> (\<exists>b\<in>B. b)"

definition negates ::
  "engine \<Rightarrow> consts_map \<Rightarrow> (string \<Rightarrow> string) \<Rightarrow> IContext \<Rightarrow> negator \<Rightarrow> bool" where
  "negates eng cs F ctx neg \<longleftrightarrow>
     (\<forall>e e'. coherent eng cs F ctx e \<longrightarrow> neg e = Some e'
        \<longrightarrow> coherent eng cs F ctx e' \<and> (evaluate eng e' ctx \<longleftrightarrow> \<not> evaluate eng e ctx))"

lemma creates_given:
  assumes "creates eng cs F ctx op create" "create arr negated extra = Some (Some e)"
    and "\<forall>e\<in>given arr. coherent eng cs F ctx e"
    and "negated_ok eng cs F ctx negated (op ((\<lambda>e. evaluate eng e ctx) ` given arr))"
  shows "coherent eng cs F ctx e \<and> evaluate eng e ctx = op ((\<lambda>e. evaluate eng e ctx) ` given arr)"
  using assms unfolding creates_def by fastforce

lemma creates_none:
  assumes "creates eng cs F ctx op create" "create arr negated extra = Some None"
    and "\<forall>e\<in>given arr. coherent eng cs F ctx e"
    and "negated_ok eng cs F ctx negated (op ((\<lambda>e. evaluate eng e ctx) ` given arr))"
  shows "given arr = {}"
  using assms unfolding creates_def by fastforce

lemma negated_ok_None [simp]: "negated_ok eng cs F ctx None v"
  by (simp add: negated_ok_def)

section \<open>The parts of the bodies\<close>

text \<open>The elements an operand contributes.\<close>

fun and_parts :: "expr \<Rightarrow> expr list" where
  "and_parts TrueExpr = []"
| "and_parts (AndExpr es _) = es"
| "and_parts e = [e]"

fun or_parts :: "expr \<Rightarrow> expr list" where
  "or_parts FalseExpr = []"
| "or_parts (OrExpr es _) = es"
| "or_parts e = [e]"

fun all_parts :: "(expr \<Rightarrow> expr list) \<Rightarrow> expr option list \<Rightarrow> expr list" where
  "all_parts parts [] = []"
| "all_parts parts (None # arr) = all_parts parts arr"
| "all_parts parts (Some e # arr) = parts e @ all_parts parts arr"

lemma set_all_parts: "set (all_parts parts arr) = (\<Union>e\<in>given arr. set (parts e))"
  by (induction parts arr rule: all_parts.induct) auto

lemma and_collect_eq:
  "and_collect arr acc t =
     (if FalseExpr \<in> given arr then None
      else Some (acc @ all_parts and_parts arr, t \<or> TrueExpr \<in> given arr))"
proof (induction arr arbitrary: acc t)
  case (Cons x arr)
  show ?case
  proof (cases x)
    case (Some e)
    with Cons.IH show ?thesis by (cases e) auto
  qed (use Cons.IH in simp)
qed simp

lemma or_collect_eq:
  "or_collect arr acc t =
     (if TrueExpr \<in> given arr then None
      else Some (acc @ all_parts or_parts arr, t \<or> FalseExpr \<in> given arr))"
proof (induction arr arbitrary: acc t)
  case (Cons x arr)
  show ?case
  proof (cases x)
    case (Some e)
    with Cons.IH show ?thesis by (cases e) auto
  qed (use Cons.IH in simp)
qed simp

lemma and_parts_sound:
  assumes "coherent eng cs F ctx e"
  shows "\<forall>x\<in>set (and_parts e). coherent eng cs F ctx x"
    and "(\<forall>x\<in>set (and_parts e). evaluate eng x ctx) \<longleftrightarrow> evaluate eng e ctx"
    and "and_parts e = [] \<longleftrightarrow> e = TrueExpr"
  using assms by (cases e; auto simp: coherent_unfold evaluate_defs)+

lemma or_parts_sound:
  assumes "coherent eng cs F ctx e"
  shows "\<forall>x\<in>set (or_parts e). coherent eng cs F ctx x"
    and "(\<exists>x\<in>set (or_parts e). evaluate eng x ctx) \<longleftrightarrow> evaluate eng e ctx"
    and "or_parts e = [] \<longleftrightarrow> e = FalseExpr"
  using assms by (cases e; auto simp: coherent_unfold evaluate_defs)+

lemma all_and_parts_sound:
  assumes "\<forall>e\<in>given arr. coherent eng cs F ctx e"
  shows "\<forall>x\<in>set (all_parts and_parts arr). coherent eng cs F ctx x"
    and "(\<forall>x\<in>set (all_parts and_parts arr). evaluate eng x ctx) \<longleftrightarrow> (\<forall>e\<in>given arr. evaluate eng e ctx)"
    and "all_parts and_parts arr = [] \<longleftrightarrow> given arr \<subseteq> {TrueExpr}"
proof -
  note parts = and_parts_sound [of eng cs F ctx]
  show "\<forall>x\<in>set (all_parts and_parts arr). coherent eng cs F ctx x"
    using assms parts(1) by (auto simp: set_all_parts)
  show "(\<forall>x\<in>set (all_parts and_parts arr). evaluate eng x ctx) \<longleftrightarrow> (\<forall>e\<in>given arr. evaluate eng e ctx)"
    using assms parts(2) by (fastforce simp: set_all_parts)
  have "all_parts and_parts arr = [] \<longleftrightarrow> (\<forall>e\<in>given arr. and_parts e = [])"
    using set_all_parts [of and_parts arr] by (metis (no_types, lifting) UN_iff all_not_in_conv set_empty)
  then show "all_parts and_parts arr = [] \<longleftrightarrow> given arr \<subseteq> {TrueExpr}"
    using assms parts(3) by auto
qed

lemma all_or_parts_sound:
  assumes "\<forall>e\<in>given arr. coherent eng cs F ctx e"
  shows "\<forall>x\<in>set (all_parts or_parts arr). coherent eng cs F ctx x"
    and "(\<exists>x\<in>set (all_parts or_parts arr). evaluate eng x ctx) \<longleftrightarrow> (\<exists>e\<in>given arr. evaluate eng e ctx)"
    and "all_parts or_parts arr = [] \<longleftrightarrow> given arr \<subseteq> {FalseExpr}"
proof -
  note parts = or_parts_sound [of eng cs F ctx]
  show "\<forall>x\<in>set (all_parts or_parts arr). coherent eng cs F ctx x"
    using assms parts(1) by (auto simp: set_all_parts)
  show "(\<exists>x\<in>set (all_parts or_parts arr). evaluate eng x ctx) \<longleftrightarrow> (\<exists>e\<in>given arr. evaluate eng e ctx)"
    using assms parts(2) by (fastforce simp: set_all_parts)
  have "all_parts or_parts arr = [] \<longleftrightarrow> (\<forall>e\<in>given arr. or_parts e = [])"
    using set_all_parts [of or_parts arr] by (metis (no_types, lifting) UN_iff all_not_in_conv set_empty)
  then show "all_parts or_parts arr = [] \<longleftrightarrow> given arr \<subseteq> {FalseExpr}"
    using assms parts(3) by auto
qed

lemma eliminate_duplicates_set: "set (eliminate_duplicates es) \<subseteq> set es"
  by (induction es rule: eliminate_duplicates.induct) auto

lemma eliminate_duplicates_Nil [simp]: "eliminate_duplicates es = [] \<longleftrightarrow> es = []"
  by (induction es rule: eliminate_duplicates.induct) auto

lemma eliminate_duplicates_sound:
  assumes "\<forall>e\<in>set es. coherent eng cs F ctx e"
  shows "(\<lambda>e. evaluate eng e ctx) ` set (eliminate_duplicates es) = (\<lambda>e. evaluate eng e ctx) ` set es"
  using assms
proof (induction es rule: eliminate_duplicates.induct)
  case (1 a b es)
  show ?case
  proof (cases "expr_equals a b")
    case True
    then have "evaluate eng a ctx = evaluate eng b ctx"
      using expr_equals_sound [OF _ _ True, of eng cs F ctx] "1.prems" by simp
    with True 1 show ?thesis by auto
  next
    case False
    then show ?thesis using 1 by auto
  qed
qed simp_all

lemma has_complement_sound:
  assumes "negates eng cs F ctx neg" "\<forall>e\<in>set es. coherent eng cs F ctx e" "has_complement neg es = Some True"
  shows "\<exists>a\<in>set es. \<exists>b\<in>set es. evaluate eng a ctx \<noteq> evaluate eng b ctx"
  using assms(2,3)
proof (induction es)
  case Nil
  then show ?case by simp
next
  case (Cons e es)
  show ?case
  proof (cases "has_complement neg es = Some True")
    case True
    with Cons have "\<exists>a\<in>set es. \<exists>b\<in>set es. evaluate eng a ctx \<noteq> evaluate eng b ctx" by simp
    then show ?thesis by auto
  next
    case False
    with Cons.prems obtain n b where n: "neg e = Some n" "b \<in> set es" "expr_equals n b"
      by (auto split: if_splits bind_splits simp: list_ex_iff)
    with Cons.prems assms(1) have "coherent eng cs F ctx n" "evaluate eng n ctx \<longleftrightarrow> \<not> evaluate eng e ctx"
      by (auto simp: negates_def)
    with n Cons.prems expr_equals_sound [of eng cs F ctx n b] show ?thesis by fastforce
  qed
qed

lemma omap_length: "omap f xs = Some ys \<Longrightarrow> length ys = length xs"
  by (induction xs arbitrary: ys) (auto split: bind_splits)

lemma omap_elem: "omap f xs = Some ys \<Longrightarrow> y \<in> set ys \<Longrightarrow> \<exists>x\<in>set xs. f x = Some y"
  by (induction xs arbitrary: ys) (auto split: bind_splits)

lemma omap_image: "omap f xs = Some ys \<Longrightarrow> x \<in> set xs \<Longrightarrow> \<exists>y\<in>set ys. f x = Some y"
  by (induction xs arbitrary: ys) (auto split: bind_splits)

text \<open>One turn of the distribution: the new element means what the two removed ones meant.\<close>

lemma distribute_turn:
  assumes "creates eng cs F ctx conj_of andc" "creates eng cs F ctx disj_of orc"
    and "coherent eng cs F ctx (OrExpr es n)" "coherent eng cs F ctx second"
    and "omap (\<lambda>el. andc [Some el, Some second] None extra) es = Some els" "orc els None fin = Some r"
  shows "\<exists>e. r = Some e \<and> coherent eng cs F ctx e
    \<and> (evaluate eng e ctx \<longleftrightarrow> evaluate eng (OrExpr es n) ctx \<and> evaluate eng second ctx)"
proof -
  have es: "es \<noteq> []" "\<forall>x\<in>set es. coherent eng cs F ctx x" using assms(3) by (auto simp: coherent_unfold)
  have el: "\<exists>e. y = Some e \<and> coherent eng cs F ctx e \<and> (evaluate eng e ctx \<longleftrightarrow> evaluate eng x ctx \<and> evaluate eng second ctx)"
    if "x \<in> set es" "andc [Some x, Some second] None extra = Some y" for x y
  proof (cases y)
    case None
    with that creates_none [OF assms(1), of "[Some x, Some second]" None extra] es assms(4)
    show ?thesis by simp
  next
    case (Some e)
    with that creates_given [OF assms(1), of "[Some x, Some second]" None extra e] es assms(4)
    show ?thesis by (auto simp: conj_of_def)
  qed
  have given: "\<forall>e\<in>given els. \<exists>x\<in>set es. coherent eng cs F ctx e
      \<and> (evaluate eng e ctx \<longleftrightarrow> evaluate eng x ctx \<and> evaluate eng second ctx)"
    using omap_elem [OF assms(5)] el by (fastforce simp: given_def)
  have conv: "\<exists>e\<in>given els. evaluate eng e ctx \<longleftrightarrow> evaluate eng x ctx \<and> evaluate eng second ctx"
    if "x \<in> set es" for x
    using omap_image [OF assms(5) that] el [OF that] by (fastforce simp: given_def)
  have "given els \<noteq> {}" using es(1) conv by (metis empty_iff last_in_set)
  have coh: "\<forall>e\<in>given els. coherent eng cs F ctx e" using given by blast
  obtain e where e: "r = Some e"
    using creates_none [OF assms(2) _ coh, of None fin] assms(6) \<open>given els \<noteq> {}\<close> by (cases r) simp_all
  have "coherent eng cs F ctx e \<and> evaluate eng e ctx = disj_of ((\<lambda>e. evaluate eng e ctx) ` given els)"
    using creates_given [OF assms(2) _ coh, of None fin] assms(6) e by simp
  moreover have "disj_of ((\<lambda>e. evaluate eng e ctx) ` given els) \<longleftrightarrow>
      evaluate eng (OrExpr es n) ctx \<and> evaluate eng second ctx"
    using given conv by (auto simp: disj_of_def)
  ultimately show ?thesis using e by blast
qed

lemma and_distribute_stop:
  assumes "\<not> (length es > 1 \<and> (\<exists>os n. last es = OrExpr os n))"
  shows "and_distribute andc orc extra es = Some es"
  using assms by (subst and_distribute.simps) (auto split: expr.splits)

lemma and_distribute_step:
  "and_distribute andc orc extra (rest @ [second, OrExpr os n]) =
     do {
       els \<leftarrow> omap (\<lambda>el. andc [Some el, Some second] None extra) os;
       r \<leftarrow> orc els None (rest = []);
       and_distribute andc orc extra
         (case r of Some r \<Rightarrow> js_sort expr_cmp (rest @ [r]) | None \<Rightarrow> rest)
     }"
  by (subst and_distribute.simps) (auto simp: butlast_append Let_def split: option.splits intro!: Option.bind_cong)

lemma ends_in_or:
  assumes "length es > 1" "last es = OrExpr os n"
  obtains rest second where "es = rest @ [second, OrExpr os n]"
proof -
  have "es \<noteq> []" "butlast es \<noteq> []" using assms(1) by (cases es; auto)+
  then have "es = butlast (butlast es) @ [last (butlast es), last es]"
    by (metis append.assoc append_Cons append_Nil append_butlast_last_id)
  with that assms(2) show thesis by metis
qed

lemma and_distribute_sound:
  assumes "creates eng cs F ctx conj_of andc" "creates eng cs F ctx disj_of orc"
    and "\<forall>e\<in>set es. coherent eng cs F ctx e" "es \<noteq> []" "and_distribute andc orc extra es = Some es'"
  shows "(\<forall>e\<in>set es'. coherent eng cs F ctx e) \<and> es' \<noteq> []
    \<and> ((\<forall>e\<in>set es'. evaluate eng e ctx) \<longleftrightarrow> (\<forall>e\<in>set es. evaluate eng e ctx))"
  using assms(3-5)
proof (induction "length es" arbitrary: es rule: less_induct)
  case less
  show ?case
  proof (cases "length es > 1 \<and> (\<exists>os n. last es = OrExpr os n)")
    case False
    with less.prems show ?thesis by (simp add: and_distribute_stop)
  next
    case True
    then obtain os n rest second where es: "es = rest @ [second, OrExpr os n]" using ends_in_or by metis
    obtain els r where r: "omap (\<lambda>el. andc [Some el, Some second] None extra) os = Some els"
      "orc els None (rest = []) = Some r"
      "and_distribute andc orc extra
         (case r of Some r \<Rightarrow> js_sort expr_cmp (rest @ [r]) | None \<Rightarrow> rest) = Some es'"
      using less.prems(3) unfolding es and_distribute_step by (auto split: bind_splits)
    obtain e where e: "r = Some e" "coherent eng cs F ctx e"
      "evaluate eng e ctx \<longleftrightarrow> evaluate eng (OrExpr os n) ctx \<and> evaluate eng second ctx"
      using distribute_turn [OF assms(1,2) _ _ r(1,2), of n] less.prems(1) es by auto
    have "\<forall>x\<in>set (js_sort expr_cmp (rest @ [e])). coherent eng cs F ctx x"
      using less.prems(1) e(2) es by simp
    moreover have "length (js_sort expr_cmp (rest @ [e])) < length es" using es by simp
    ultimately have "(\<forall>e\<in>set es'. coherent eng cs F ctx e) \<and> es' \<noteq> []
      \<and> ((\<forall>e\<in>set es'. evaluate eng e ctx) \<longleftrightarrow> (\<forall>x\<in>set (js_sort expr_cmp (rest @ [e])). evaluate eng x ctx))"
      using less.hyps [of "js_sort expr_cmp (rest @ [e])"] r(3) e(1) by simp
    then show ?thesis using e(3) es by auto
  qed
qed

section \<open>The bodies\<close>

lemma image_conj_of: "conj_of ((\<lambda>e. evaluate eng e ctx) ` E) \<longleftrightarrow> (\<forall>e\<in>E. evaluate eng e ctx)"
  by (simp add: conj_of_def)

lemma image_disj_of: "disj_of ((\<lambda>e. evaluate eng e ctx) ` E) \<longleftrightarrow> (\<exists>e\<in>E. evaluate eng e ctx)"
  by (simp add: disj_of_def)

lemma And_coherent:
  assumes "\<forall>e\<in>set es. coherent eng cs F ctx e" "es \<noteq> []"
    and "negated_ok eng cs F ctx negated (\<forall>e\<in>set es. evaluate eng e ctx)"
  shows "coherent eng cs F ctx (AndExpr es negated)"
  using assms by (auto simp: coherent_unfold negated_ok_def split: option.splits)

lemma Or_coherent:
  assumes "\<forall>e\<in>set es. coherent eng cs F ctx e" "es \<noteq> []"
    and "negated_ok eng cs F ctx negated (\<exists>e\<in>set es. evaluate eng e ctx)"
  shows "coherent eng cs F ctx (OrExpr es negated)"
  using assms by (auto simp: coherent_unfold negated_ok_def split: option.splits)

lemma single_evaluate:
  assumes "length es = 1" "\<forall>e\<in>set es. coherent eng cs F ctx e"
  shows "coherent eng cs F ctx (hd es)"
    and "evaluate eng (hd es) ctx \<longleftrightarrow> (\<forall>e\<in>set es. evaluate eng e ctx)"
    and "evaluate eng (hd es) ctx \<longleftrightarrow> (\<exists>e\<in>set es. evaluate eng e ctx)"
  using assms by (cases es; auto)+

lemma dedupe_sorted_sound:
  fixes es :: "expr list"
  assumes "\<forall>e\<in>set es. coherent eng cs F ctx e"
  defines "ds \<equiv> eliminate_duplicates (js_sort expr_cmp es)"
  shows "\<forall>e\<in>set ds. coherent eng cs F ctx e" "ds = [] \<longleftrightarrow> es = []"
    and "(\<forall>e\<in>set ds. evaluate eng e ctx) \<longleftrightarrow> (\<forall>e\<in>set es. evaluate eng e ctx)"
    and "(\<exists>e\<in>set ds. evaluate eng e ctx) \<longleftrightarrow> (\<exists>e\<in>set es. evaluate eng e ctx)"
proof -
  have coh: "\<forall>e\<in>set (js_sort expr_cmp es). coherent eng cs F ctx e" using assms(1) by simp
  show "\<forall>e\<in>set ds. coherent eng cs F ctx e" "ds = [] \<longleftrightarrow> es = []"
    using coh eliminate_duplicates_set [of "js_sort expr_cmp es"] by (auto simp: ds_def)
  have img: "(\<lambda>e. evaluate eng e ctx) ` set ds = (\<lambda>e. evaluate eng e ctx) ` set es"
    using eliminate_duplicates_sound [OF coh] by (simp add: ds_def)
  show "(\<forall>e\<in>set ds. evaluate eng e ctx) \<longleftrightarrow> (\<forall>e\<in>set es. evaluate eng e ctx)"
    using image_conj_of [of eng ctx "set ds"] image_conj_of [of eng ctx "set es"] img by simp
  show "(\<exists>e\<in>set ds. evaluate eng e ctx) \<longleftrightarrow> (\<exists>e\<in>set es. evaluate eng e ctx)"
    using image_disj_of [of eng ctx "set ds"] image_disj_of [of eng ctx "set es"] img by simp
qed

lemma And_normalize_sound:
  assumes "creates eng cs F ctx conj_of andc" "creates eng cs F ctx disj_of orc"
    and "negates eng cs F ctx neg"
  shows "creates eng cs F ctx conj_of (ContextKeyAndExpr_normalizeArr andc orc neg)"
  unfolding creates_def image_conj_of
proof (intro allI impI)
  fix arr negated extra r
  assume coh: "\<forall>e\<in>given arr. coherent eng cs F ctx e"
    and neg: "negated_ok eng cs F ctx negated (\<forall>e\<in>given arr. evaluate eng e ctx)"
    and r: "ContextKeyAndExpr_normalizeArr andc orc neg arr negated extra = Some r"
  note parts = all_and_parts_sound [OF coh]
  let ?es = "all_parts and_parts arr" and ?v = "\<forall>e\<in>given arr. evaluate eng e ctx"
  define ds where "ds = eliminate_duplicates (js_sort expr_cmp ?es)"
  note ds = dedupe_sorted_sound [OF parts(1), folded ds_def]
  consider (false) "FalseExpr \<in> given arr" | (nil) "FalseExpr \<notin> given arr" "?es = []"
    | (one) "FalseExpr \<notin> given arr" "length ?es = 1"
    | (ded) "FalseExpr \<notin> given arr" "?es \<noteq> []" "length ?es \<noteq> 1" "length ds = 1"
    | (loop) "FalseExpr \<notin> given arr" "?es \<noteq> []" "length ?es \<noteq> 1" "length ds \<noteq> 1" by blast
  then show "case r of None \<Rightarrow> given arr = {} | Some e \<Rightarrow> coherent eng cs F ctx e \<and> evaluate eng e ctx = ?v"
  proof cases
    case false
    then have "r = Some FalseExpr" using r by (simp add: ContextKeyAndExpr_normalizeArr_def and_collect_eq)
    moreover have "\<not> ?v" using false by (auto simp: evaluate_defs intro!: bexI [of _ FalseExpr])
    ultimately show ?thesis by (simp add: coherent_unfold evaluate_defs)
  next
    case nil
    then have "r = (if TrueExpr \<in> given arr then Some TrueExpr else None)" "given arr \<subseteq> {TrueExpr}"
      using r parts(3) by (auto simp: ContextKeyAndExpr_normalizeArr_def and_collect_eq)
    then show ?thesis by (auto simp: coherent_unfold evaluate_defs split: if_splits)
  next
    case one
    then have "?es \<noteq> []" by auto
    with one have "r = Some (hd ?es)"
      using r by (simp add: ContextKeyAndExpr_normalizeArr_def and_collect_eq)
    with single_evaluate(1,2) [OF one(2) parts(1)] parts(2) show ?thesis by simp
  next
    case ded
    then have "r = Some (hd ds)"
      using r by (auto simp: ContextKeyAndExpr_normalizeArr_def and_collect_eq ds_def)
    with single_evaluate(1,2) [OF ded(4) ds(1)] ds(3) parts(2) show ?thesis by simp
  next
    case loop
    then obtain xs where xs: "and_distribute andc orc extra ds = Some xs"
      and r': "(if length xs = 1 then Some (Some (hd xs))
           else if extra then do { found \<leftarrow> has_complement neg xs;
                                   Some (Some (if found then FalseExpr else AndExpr xs negated)) }
           else Some (Some (AndExpr xs negated))) = Some r"
      using r by (auto simp: ContextKeyAndExpr_normalizeArr_def and_collect_eq ds_def Let_def split: bind_splits)
    have "ds \<noteq> []" using loop ds(2) by simp
    note sound = and_distribute_sound [OF assms(1,2) ds(1) this xs]
    have v: "(\<forall>e\<in>set xs. evaluate eng e ctx) \<longleftrightarrow> ?v" using sound ds(3) parts(2) by simp
    show ?thesis
    proof (cases "length xs = 1")
      case True
      with r' single_evaluate(1,2) [OF True, of eng cs F ctx] sound v show ?thesis by auto
    next
      case False
      have "r = Some FalseExpr \<and> has_complement neg xs = Some True \<or> r = Some (AndExpr xs negated)"
        using r' False by (auto split: if_splits bind_splits)
      then show ?thesis
      proof
        assume "r = Some FalseExpr \<and> has_complement neg xs = Some True"
        with has_complement_sound [OF assms(3), of xs] sound v show ?thesis
          by (auto simp: coherent_unfold evaluate_defs)
      next
        assume "r = Some (AndExpr xs negated)"
        with And_coherent [of xs eng cs F ctx negated] sound neg v show ?thesis by simp
      qed
    qed
  qed
qed

lemma Or_normalize_sound:
  assumes "negates eng cs F ctx neg"
  shows "creates eng cs F ctx disj_of (ContextKeyOrExpr_normalizeArr neg)"
  unfolding creates_def image_disj_of
proof (intro allI impI)
  fix arr negated extra r
  assume coh: "\<forall>e\<in>given arr. coherent eng cs F ctx e"
    and neg: "negated_ok eng cs F ctx negated (\<exists>e\<in>given arr. evaluate eng e ctx)"
    and r: "ContextKeyOrExpr_normalizeArr neg arr negated extra = Some r"
  note parts = all_or_parts_sound [OF coh]
  let ?es = "all_parts or_parts arr" and ?v = "\<exists>e\<in>given arr. evaluate eng e ctx"
  define ss where "ss = js_sort expr_cmp ?es"
  define ds where "ds = eliminate_duplicates ss"
  have ss: "length ss = length ?es" "set ss = set ?es" by (simp_all add: ss_def)
  note ds = dedupe_sorted_sound [OF parts(1), folded ss_def, folded ds_def]
  consider (true) "TrueExpr \<in> given arr" | (nil) "TrueExpr \<notin> given arr" "?es = []"
    | (one) "TrueExpr \<notin> given arr" "length ss = 1"
    | (ded) "TrueExpr \<notin> given arr" "?es \<noteq> []" "length ss \<noteq> 1" "length ds = 1"
    | (more) "TrueExpr \<notin> given arr" "?es \<noteq> []" "length ss \<noteq> 1" "length ds \<noteq> 1" by blast
  then show "case r of None \<Rightarrow> given arr = {} | Some e \<Rightarrow> coherent eng cs F ctx e \<and> evaluate eng e ctx = ?v"
  proof cases
    case true
    then have "r = Some TrueExpr" using r by (simp add: ContextKeyOrExpr_normalizeArr_def or_collect_eq)
    moreover have "?v" using true by (auto simp: evaluate_defs intro!: bexI [of _ TrueExpr])
    ultimately show ?thesis by (simp add: coherent_unfold evaluate_defs)
  next
    case nil
    then have "r = (if FalseExpr \<in> given arr then Some FalseExpr else None)" "given arr \<subseteq> {FalseExpr}"
      using r parts(3) by (auto simp: ContextKeyOrExpr_normalizeArr_def or_collect_eq)
    then show ?thesis by (auto simp: coherent_unfold evaluate_defs split: if_splits)
  next
    case one
    then have "?es \<noteq> []" using ss by auto
    with one have "r = Some (hd ss)"
      using r by (simp add: ContextKeyOrExpr_normalizeArr_def or_collect_eq ss_def)
    with single_evaluate(1,3) [OF one(2), of eng cs F ctx] parts(1,2) ss show ?thesis by simp
  next
    case ded
    then have "r = Some (hd ds)"
      using r ss by (auto simp: ContextKeyOrExpr_normalizeArr_def or_collect_eq ds_def ss_def)
    with single_evaluate(1,3) [OF ded(4) ds(1)] ds(4) parts(2) show ?thesis by simp
  next
    case more
    then have "r = Some TrueExpr \<and> has_complement neg ds = Some True \<or> r = Some (OrExpr ds negated)"
      using r by (auto simp: ContextKeyOrExpr_normalizeArr_def or_collect_eq ds_def ss_def Let_def
          split: if_splits bind_splits)
    then show ?thesis
    proof
      assume "r = Some TrueExpr \<and> has_complement neg ds = Some True"
      with has_complement_sound [OF assms, of ds] ds parts(2) show ?thesis
        by (auto simp: coherent_unfold evaluate_defs)
    next
      assume "r = Some (OrExpr ds negated)"
      with Or_coherent [OF ds(1), of negated] ds neg more parts(2) show ?thesis by simp
    qed
  qed
qed

section \<open>Negation\<close>

lemma getTerminals_sound:
  assumes "coherent eng cs F ctx e"
  shows "\<forall>x\<in>set (getTerminals e). coherent eng cs F ctx x"
    and "(\<exists>x\<in>set (getTerminals e). evaluate eng x ctx) \<longleftrightarrow> evaluate eng e ctx"
    and "getTerminals e \<noteq> []"
  using assms by (cases e; auto simp: getTerminals_def coherent_unfold)+

lemma non_null_Some: "non_null r = Some e \<longleftrightarrow> r = Some (Some e)"
  by (auto simp: non_null_def split: option.splits)

text \<open>One turn of the loop of \<open>ContextKeyOrExpr.negate\<close>: the conjunction of the first two.\<close>

lemma or_negate_turn:
  assumes "creates eng cs F ctx conj_of andc" "creates eng cs F ctx disj_of orc"
    and "coherent eng cs F ctx l" "coherent eng cs F ctx r"
    and "omap (\<lambda>(left, right). andc [Some left, Some right] None False)
           [(left, right). left \<leftarrow> getTerminals l, right \<leftarrow> getTerminals r] = Some xs"
    and "orc xs None False = Some (Some e)"
  shows "coherent eng cs F ctx e \<and> (evaluate eng e ctx \<longleftrightarrow> evaluate eng l ctx \<and> evaluate eng r ctx)"
proof -
  let ?pairs = "[(left, right). left \<leftarrow> getTerminals l, right \<leftarrow> getTerminals r]"
  note tl = getTerminals_sound [OF assms(3)] and tr = getTerminals_sound [OF assms(4)]
  have pairs: "set ?pairs = set (getTerminals l) \<times> set (getTerminals r)" by auto
  have pair: "\<exists>e. y = Some e \<and> coherent eng cs F ctx e
      \<and> (evaluate eng e ctx \<longleftrightarrow> evaluate eng a ctx \<and> evaluate eng b ctx)"
    if "a \<in> set (getTerminals l)" "b \<in> set (getTerminals r)"
      "andc [Some a, Some b] None False = Some y" for a b y
  proof (cases y)
    case None
    with that creates_none [OF assms(1), of "[Some a, Some b]" None False] tl tr show ?thesis by simp
  next
    case (Some e)
    with that creates_given [OF assms(1), of "[Some a, Some b]" None False e] tl tr
    show ?thesis by (auto simp: conj_of_def)
  qed
  have given: "\<forall>e\<in>given xs. coherent eng cs F ctx e \<and> (\<exists>a\<in>set (getTerminals l). \<exists>b\<in>set (getTerminals r).
      evaluate eng e ctx \<longleftrightarrow> evaluate eng a ctx \<and> evaluate eng b ctx)"
  proof
    fix e
    assume "e \<in> given xs"
    then obtain a b where "a \<in> set (getTerminals l)" "b \<in> set (getTerminals r)"
      "andc [Some a, Some b] None False = Some (Some e)"
      using omap_elem [OF assms(5), of "Some e"] pairs by (auto simp: given_def)
    with pair [OF this] show "coherent eng cs F ctx e \<and> (\<exists>a\<in>set (getTerminals l). \<exists>b\<in>set (getTerminals r).
      evaluate eng e ctx \<longleftrightarrow> evaluate eng a ctx \<and> evaluate eng b ctx)" by auto
  qed
  have conv: "\<exists>e\<in>given xs. evaluate eng e ctx \<longleftrightarrow> evaluate eng a ctx \<and> evaluate eng b ctx"
    if ab: "a \<in> set (getTerminals l)" "b \<in> set (getTerminals r)" for a b
  proof -
    have "(a, b) \<in> set ?pairs" using ab pairs by blast
    then obtain y where "y \<in> set xs" "andc [Some a, Some b] None False = Some y"
      using omap_image [OF assms(5), of "(a, b)"] by auto
    with pair [OF ab] show ?thesis by (auto simp: given_def)
  qed
  have "coherent eng cs F ctx e \<and> evaluate eng e ctx = disj_of ((\<lambda>e. evaluate eng e ctx) ` given xs)"
    using creates_given [OF assms(2,6)] given by simp
  moreover have "disj_of ((\<lambda>e. evaluate eng e ctx) ` given xs) \<longleftrightarrow> evaluate eng l ctx \<and> evaluate eng r ctx"
    unfolding image_disj_of using given conv tl(2) tr(2) by (metis (no_types, lifting))
  ultimately show ?thesis by blast
qed

lemma or_negate_loop_sound:
  assumes "creates eng cs F ctx conj_of andc" "creates eng cs F ctx disj_of orc"
    and "\<forall>e\<in>set es. coherent eng cs F ctx e" "es \<noteq> []" "or_negate_loop andc orc es = Some es'"
  shows "\<exists>e. es' = [e] \<and> coherent eng cs F ctx e
    \<and> (evaluate eng e ctx \<longleftrightarrow> (\<forall>x\<in>set es. evaluate eng x ctx))"
  using assms(3-5)
proof (induction "length es" arbitrary: es rule: less_induct)
  case less
  consider e where "es = [e]" | l r rest where "es = l # r # rest"
    using less.prems(2) by (cases es; cases "tl es"; auto)
  then show ?case
  proof cases
    case 1
    with less.prems show ?thesis by auto
  next
    case 2
    with less.prems(3) obtain xs e where turn: "omap (\<lambda>(left, right). andc [Some left, Some right] None False)
        [(left, right). left \<leftarrow> getTerminals l, right \<leftarrow> getTerminals r] = Some xs"
      "orc xs None False = Some (Some e)" "or_negate_loop andc orc (e # rest) = Some es'"
      by (auto simp: non_null_Some split: bind_splits)
    with or_negate_turn [OF assms(1,2) _ _ turn(1,2)] less.prems(1) 2
    have e: "coherent eng cs F ctx e" "evaluate eng e ctx \<longleftrightarrow> evaluate eng l ctx \<and> evaluate eng r ctx"
      by auto
    then show ?thesis using less.hyps [of "e # rest"] turn(3) less.prems(1) 2 by auto
  qed
qed

lemma omap_negates:
  assumes "negates eng cs F ctx neg" "\<forall>e\<in>set es. coherent eng cs F ctx e" "omap neg es = Some ns"
  shows "\<forall>n\<in>set ns. coherent eng cs F ctx n"
    and "map (\<lambda>n. evaluate eng n ctx) ns = map (\<lambda>e. \<not> evaluate eng e ctx) es"
proof -
  have "(\<forall>n\<in>set ns. coherent eng cs F ctx n)
    \<and> map (\<lambda>n. evaluate eng n ctx) ns = map (\<lambda>e. \<not> evaluate eng e ctx) es"
    using assms(2,3)
  proof (induction es arbitrary: ns)
    case (Cons e es)
    then obtain n ns' where n: "neg e = Some n" "omap neg es = Some ns'" "ns = n # ns'"
      by (auto split: bind_splits)
    with Cons assms(1) show ?case by (auto simp: negates_def)
  qed simp
  then show "\<forall>n\<in>set ns. coherent eng cs F ctx n"
    and "map (\<lambda>n. evaluate eng n ctx) ns = map (\<lambda>e. \<not> evaluate eng e ctx) es" by auto
qed

lemma map_negated_all_ex:
  assumes "map f ns = map (\<lambda>e. \<not> g e) es"
  shows "(\<exists>n\<in>set ns. f n) \<longleftrightarrow> \<not> (\<forall>e\<in>set es. g e)" "(\<forall>n\<in>set ns. f n) \<longleftrightarrow> \<not> (\<exists>e\<in>set es. g e)"
proof -
  have "f ` set ns = (\<lambda>e. \<not> g e) ` set es" using assms by (metis set_map)
  then show "(\<exists>n\<in>set ns. f n) \<longleftrightarrow> \<not> (\<forall>e\<in>set es. g e)" "(\<forall>n\<in>set ns. f n) \<longleftrightarrow> \<not> (\<exists>e\<in>set es. g e)"
    by (metis (mono_tags, lifting) image_iff)+
qed

lemma And_negate_sound:
  assumes "creates eng cs F ctx disj_of orc" "negates eng cs F ctx neg"
    and "coherent eng cs F ctx (AndExpr es n)" "ContextKeyAndExpr_negate orc neg es n = Some e'"
  shows "coherent eng cs F ctx e' \<and> (evaluate eng e' ctx \<longleftrightarrow> \<not> evaluate eng (AndExpr es n) ctx)"
proof (cases n)
  case (Some m)
  with assms(3,4) show ?thesis by (auto simp: ContextKeyAndExpr_negate_def coherent_unfold)
next
  case None
  with assms(4) obtain ns where ns: "omap neg es = Some ns"
    "orc (map Some ns) (Some (AndExpr es None)) True = Some (Some e')"
    by (auto simp: ContextKeyAndExpr_negate_def non_null_Some split: bind_splits)
  have coh: "\<forall>e\<in>set es. coherent eng cs F ctx e" using assms(3) by (simp add: coherent_unfold)
  note neg = omap_negates [OF assms(2) coh ns(1)]
  note ex = map_negated_all_ex(1) [OF neg(2)]
  have "negated_ok eng cs F ctx (Some (AndExpr es None)) (disj_of ((\<lambda>e. evaluate eng e ctx) ` given (map Some ns)))"
    using assms(3) None ex by (auto simp: negated_ok_def image_disj_of)
  with creates_given [OF assms(1) ns(2)] neg(1) ex None show ?thesis by (simp add: image_disj_of)
qed

lemma Or_negate_sound:
  assumes "creates eng cs F ctx conj_of andc" "creates eng cs F ctx disj_of orc" "negates eng cs F ctx neg"
    and "coherent eng cs F ctx (OrExpr es n)" "ContextKeyOrExpr_negate andc orc neg es n = Some e'"
  shows "coherent eng cs F ctx e' \<and> (evaluate eng e' ctx \<longleftrightarrow> \<not> evaluate eng (OrExpr es n) ctx)"
proof (cases n)
  case (Some m)
  with assms(4,5) show ?thesis by (auto simp: ContextKeyOrExpr_negate_def coherent_unfold)
next
  case None
  with assms(5) obtain ns xs where ns: "omap neg es = Some ns" "or_negate_loop andc orc ns = Some xs"
    "orc (map Some xs) (Some (OrExpr es None)) True = Some (Some e')"
    by (auto simp: ContextKeyOrExpr_negate_def non_null_Some split: bind_splits)
  have coh: "\<forall>e\<in>set es. coherent eng cs F ctx e" "es \<noteq> []" using assms(4) by (auto simp: coherent_unfold)
  note neg = omap_negates [OF assms(3) coh(1) ns(1)]
  note all = map_negated_all_ex(2) [OF neg(2)]
  have "ns \<noteq> []" using omap_length [OF ns(1)] coh(2) by auto
  from or_negate_loop_sound [OF assms(1,2) neg(1) this ns(2)] all
  obtain e where e: "xs = [e]" "coherent eng cs F ctx e"
    "evaluate eng e ctx \<longleftrightarrow> \<not> evaluate eng (OrExpr es n) ctx" by auto
  have "negated_ok eng cs F ctx (Some (OrExpr es None)) (disj_of ((\<lambda>e. evaluate eng e ctx) ` given (map Some xs)))"
    using assms(4) None e by (auto simp: negated_ok_def disj_of_def)
  with creates_given [OF assms(2) ns(3)] e None show ?thesis by (simp add: disj_of_def)
qed

lemma negate_body_sound:
  assumes "creates eng cs F ctx conj_of andc" "creates eng cs F ctx disj_of orc" "negates eng cs F ctx neg"
  shows "negates eng cs F ctx (negate_body cs andc orc neg)"
  unfolding negates_def
proof (intro allI impI)
  fix e e'
  assume e: "coherent eng cs F ctx e" "negate_body cs andc orc neg e = Some e'"
  show "coherent eng cs F ctx e' \<and> (evaluate eng e' ctx \<longleftrightarrow> \<not> evaluate eng e ctx)"
  proof (cases "is_atom e")
    case True
    with e negate_atom_sound show ?thesis by blast
  next
    case False
    then consider es n where "e = AndExpr es n" | es n where "e = OrExpr es n"
      by (cases e) (auto simp: is_atom_def)
    then show ?thesis
    proof cases
      case 1
      with e And_negate_sound [OF assms(2,3), of es n e'] show ?thesis by (simp add: negate_body_def)
    next
      case 2
      with e Or_negate_sound [OF assms, of es n e'] show ?thesis by (simp add: negate_body_def)
    qed
  qed
qed

text \<open>All three operations meet their specification, at every bound.\<close>

lemma operations_sound:
  "creates eng cs F ctx conj_of (and_create n cs) \<and> creates eng cs F ctx disj_of (or_create n cs)
   \<and> negates eng cs F ctx (negate n cs)"
proof (induction n)
  case 0
  then show ?case by (simp add: creates_def negates_def)
next
  case (Suc n)
  then have IH: "creates eng cs F ctx conj_of (and_create n cs)" "creates eng cs F ctx disj_of (or_create n cs)"
    "negates eng cs F ctx (negate n cs)" by auto
  have "and_create (Suc n) cs = ContextKeyAndExpr_normalizeArr (and_create n cs) (or_create n cs) (negate n cs)"
    "or_create (Suc n) cs = ContextKeyOrExpr_normalizeArr (negate n cs)"
    "negate (Suc n) cs = negate_body cs (and_create n cs) (or_create n cs) (negate n cs)"
    by (auto intro!: ext)
  with And_normalize_sound [OF IH] Or_normalize_sound [OF IH(3)] negate_body_sound [OF IH]
  show ?case by simp
qed

lemmas and_create_sound = operations_sound [THEN conjunct1]
lemmas or_create_sound = operations_sound [THEN conjunct2, THEN conjunct1]
lemmas negate_sound = operations_sound [THEN conjunct2, THEN conjunct2]

end
