(* ===== verification/ContextKeyNormalForms.thy ===== *)
theory ContextKeyNormalForms
  imports ContextKeySemantics
begin

text \<open>
  Termination of the mutual recursion of \<open>and_create\<close>, \<open>or_create\<close> and \<open>negate\<close> of \<open>ContextKeys\<close>:
  their results do not depend on a bound on the depth that is large enough, and on expressions in
  disjunctive normal form such a bound exists and the result is in disjunctive normal form again.
\<close>

section \<open>Enough depth\<close>

text \<open>A larger bound on the depth never changes a result.\<close>

definition below :: "('a \<Rightarrow> 'b option) \<Rightarrow> ('a \<Rightarrow> 'b option) \<Rightarrow> bool" where
  "below f g \<longleftrightarrow> (\<forall>x y. f x = Some y \<longrightarrow> g x = Some y)"

definition creator_below :: "creator \<Rightarrow> creator \<Rightarrow> bool" where
  "creator_below f g \<longleftrightarrow> (\<forall>arr negated extra r. f arr negated extra = Some r \<longrightarrow> g arr negated extra = Some r)"

lemma omap_below: "below f g \<Longrightarrow> below (omap f) (omap g)"
proof -
  assume fg: "below f g"
  have "omap f xs = Some ys \<Longrightarrow> omap g xs = Some ys" for xs ys
  proof (induction xs arbitrary: ys)
    case (Cons x xs)
    with fg show ?case by (fastforce simp: below_def split: bind_splits)
  qed simp
  then show ?thesis by (simp add: below_def)
qed

lemma has_complement_below: "below f g \<Longrightarrow> below (has_complement f) (has_complement g)"
proof -
  assume fg: "below f g"
  have "has_complement f xs = Some b \<Longrightarrow> has_complement g xs = Some b" for xs b
  proof (induction xs)
    case (Cons x xs)
    with fg show ?case by (fastforce simp: below_def split: bind_splits if_splits)
  qed simp
  then show ?thesis by (simp add: below_def)
qed

lemma pair_below: "creator_below f g \<Longrightarrow> below (\<lambda>el. f [Some el, Some s] None x) (\<lambda>el. g [Some el, Some s] None x)"
  by (simp add: below_def creator_below_def)

lemma and_distribute_below:
  assumes "creator_below andc andc'" "creator_below orc orc'"
  shows "and_distribute andc orc x es = Some xs \<Longrightarrow> and_distribute andc' orc' x es = Some xs"
proof (induction "length es" arbitrary: es rule: less_induct)
  case less
  show ?case
  proof (cases "length es > 1 \<and> (\<exists>os n. last es = OrExpr os n)")
    case False
    with less.prems show ?thesis by (simp add: and_distribute_stop)
  next
    case True
    then obtain os n rest second where es: "es = rest @ [second, OrExpr os n]" using ends_in_or by metis
    obtain els r where r: "omap (\<lambda>el. andc [Some el, Some second] None x) os = Some els"
      "orc els None (rest = []) = Some r"
      "and_distribute andc orc x (case r of Some r \<Rightarrow> js_sort expr_cmp (rest @ [r]) | None \<Rightarrow> rest) = Some xs"
      using less.prems unfolding es and_distribute_step by (auto split: bind_splits)
    have "omap (\<lambda>el. andc' [Some el, Some second] None x) os = Some els"
      using omap_below [OF pair_below [OF assms(1)]] r(1) unfolding below_def by blast
    moreover have "orc' els None (rest = []) = Some r" using assms(2) r(2) by (simp add: creator_below_def)
    moreover have "and_distribute andc' orc' x (case r of Some r \<Rightarrow> js_sort expr_cmp (rest @ [r]) | None \<Rightarrow> rest) = Some xs"
      using less.hyps r(3) es by (auto split: option.splits)
    ultimately show ?thesis unfolding es and_distribute_step by simp
  qed
qed

lemma And_normalize_below:
  assumes "creator_below andc andc'" "creator_below orc orc'" "below neg neg'"
  shows "creator_below (ContextKeyAndExpr_normalizeArr andc orc neg) (ContextKeyAndExpr_normalizeArr andc' orc' neg')"
  unfolding creator_below_def
proof (intro allI impI)
  fix arr negated extra r
  assume r: "ContextKeyAndExpr_normalizeArr andc orc neg arr negated extra = Some r"
  have hc: "has_complement neg xs = Some b \<Longrightarrow> has_complement neg' xs = Some b" for xs b
    using has_complement_below [OF assms(3)] by (simp add: below_def)
  show "ContextKeyAndExpr_normalizeArr andc' orc' neg' arr negated extra = Some r"
    using r hc and_distribute_below [OF assms(1,2)]
    by (fastforce simp: ContextKeyAndExpr_normalizeArr_def Let_def split: option.splits bind_splits if_splits)
qed

lemma Or_normalize_below:
  assumes "below neg neg'"
  shows "creator_below (ContextKeyOrExpr_normalizeArr neg) (ContextKeyOrExpr_normalizeArr neg')"
  unfolding creator_below_def
proof (intro allI impI)
  fix arr negated extra r
  assume r: "ContextKeyOrExpr_normalizeArr neg arr negated extra = Some r"
  have hc: "has_complement neg xs = Some b \<Longrightarrow> has_complement neg' xs = Some b" for xs b
    using has_complement_below [OF assms] by (simp add: below_def)
  show "ContextKeyOrExpr_normalizeArr neg' arr negated extra = Some r"
    using r hc
    by (fastforce simp: ContextKeyOrExpr_normalizeArr_def Let_def split: option.splits bind_splits if_splits)
qed

lemma or_negate_loop_below:
  assumes "creator_below andc andc'" "creator_below orc orc'"
  shows "or_negate_loop andc orc es = Some xs \<Longrightarrow> or_negate_loop andc' orc' es = Some xs"
proof (induction "length es" arbitrary: es rule: less_induct)
  case less
  consider "length es \<le> 1" | l r rest where "es = l # r # rest" by (cases es; cases "tl es"; auto)
  then show ?case
  proof cases
    case 1
    with less.prems show ?thesis by (cases es) auto
  next
    case 2
    let ?pairs = "[(left, right). left \<leftarrow> getTerminals l, right \<leftarrow> getTerminals r]"
    obtain ys e where ys: "omap (\<lambda>(left, right). andc [Some left, Some right] None False) ?pairs = Some ys"
      "orc ys None False = Some (Some e)" "or_negate_loop andc orc (e # rest) = Some xs"
      using less.prems 2 by (auto simp: non_null_Some split: bind_splits)
    have "below (\<lambda>(left, right). andc [Some left, Some right] None False)
        (\<lambda>(left, right). andc' [Some left, Some right] None False)"
      using assms(1) by (auto simp: below_def creator_below_def)
    then have "omap (\<lambda>(left, right). andc' [Some left, Some right] None False) ?pairs = Some ys"
      using omap_below ys(1) unfolding below_def by blast
    moreover have "orc' ys None False = Some (Some e)" using assms(2) ys(2) by (simp add: creator_below_def)
    moreover have "or_negate_loop andc' orc' (e # rest) = Some xs" using less.hyps ys(3) 2 by simp
    ultimately show ?thesis using 2 by (simp add: non_null_def)
  qed
qed

lemma negate_body_below:
  assumes "creator_below andc andc'" "creator_below orc orc'" "below neg neg'"
  shows "below (negate_body cs andc orc neg) (negate_body cs andc' orc' neg')"
proof -
  have om: "omap neg es = Some ns \<Longrightarrow> omap neg' es = Some ns" for es ns
    using omap_below [OF assms(3)] by (simp add: below_def)
  have orc: "orc arr m x = Some r \<Longrightarrow> orc' arr m x = Some r" for arr m x r
    using assms(2) by (simp add: creator_below_def)
  have And: "ContextKeyAndExpr_negate orc neg es n = Some e' \<Longrightarrow> ContextKeyAndExpr_negate orc' neg' es n = Some e'" for es n e'
    using om orc by (fastforce simp: ContextKeyAndExpr_negate_def non_null_Some split: option.splits bind_splits)
  have Or: "ContextKeyOrExpr_negate andc orc neg es n = Some e' \<Longrightarrow> ContextKeyOrExpr_negate andc' orc' neg' es n = Some e'" for es n e'
    using om orc or_negate_loop_below [OF assms(1,2)]
    by (fastforce simp: ContextKeyOrExpr_negate_def non_null_Some split: option.splits bind_splits)
  show ?thesis unfolding below_def
  proof (intro allI impI)
    fix e e'
    assume "negate_body cs andc orc neg e = Some e'"
    then show "negate_body cs andc' orc' neg' e = Some e'"
      using And Or by (cases e) (auto simp: negate_body_def)
  qed
qed

lemma operations_unfold:
  "and_create (Suc n) cs = ContextKeyAndExpr_normalizeArr (and_create n cs) (or_create n cs) (negate n cs)"
  "or_create (Suc n) cs = ContextKeyOrExpr_normalizeArr (negate n cs)"
  "negate (Suc n) cs = negate_body cs (and_create n cs) (or_create n cs) (negate n cs)"
  by (auto intro!: ext)

lemma operations_Suc:
  "creator_below (and_create n cs) (and_create (Suc n) cs)
   \<and> creator_below (or_create n cs) (or_create (Suc n) cs) \<and> below (negate n cs) (negate (Suc n) cs)"
proof (induction n)
  case 0
  then show ?case by (simp add: creator_below_def below_def)
next
  case (Suc n)
  then show ?case
    using And_normalize_below Or_normalize_below negate_body_below by (simp only: operations_unfold)
qed

lemma operations_mono:
  assumes "n \<le> m"
  shows "and_create n cs arr negated extra = Some r \<Longrightarrow> and_create m cs arr negated extra = Some r"
    and "or_create n cs arr negated extra = Some r \<Longrightarrow> or_create m cs arr negated extra = Some r"
    and "negate n cs e = Some e' \<Longrightarrow> negate m cs e = Some e'"
  using assms operations_Suc [of _ cs]
  by (induction m rule: dec_induct; simp only: creator_below_def below_def; blast)+

lemma operations_below:
  assumes "n \<le> m"
  shows "creator_below (and_create n cs) (and_create m cs)" "creator_below (or_create n cs) (or_create m cs)"
    "below (negate n cs) (negate m cs)"
  using operations_mono [OF assms] by (simp_all add: creator_below_def below_def)

section \<open>Disjunctive normal forms\<close>

text \<open>
  The expressions that the operations build from elementary ones other than memberships and
  comparisons, which are sorted behind the disjunctions and escape the distribution: a
  disjunction of clauses, a clause being a conjunction of clauses or an elementary expression.
\<close>

definition is_or :: "expr \<Rightarrow> bool" where
  "is_or e = (case e of OrExpr _ _ \<Rightarrow> True | _ \<Rightarrow> False)"

definition dnf_shape :: "expr \<Rightarrow> bool" where
  "dnf_shape e =
     (case e of
        AndExpr es n \<Rightarrow> es \<noteq> [] \<and> n = None \<and> (\<forall>x\<in>set es. \<not> is_or x)
      | OrExpr es n \<Rightarrow> es \<noteq> [] \<and> (\<forall>x\<in>set es. \<not> is_or x)
      | _ \<Rightarrow> ContextKeyExprType e < 9 \<and> (\<forall>m. cached e = Some m \<longrightarrow> is_atom m))"

function dnf :: "expr \<Rightarrow> bool" where
  "dnf e \<longleftrightarrow> dnf_shape e \<and> (\<forall>x\<in>set (children e). dnf x)
     \<and> (case cached e of None \<Rightarrow> True | Some m \<Rightarrow> dnf m)"
  by pat_completeness auto
termination
  by (relation "measure size") (auto simp: size_children size_cached)

declare dnf.simps [simp del]

definition clause :: "expr \<Rightarrow> bool" where
  "clause e \<longleftrightarrow> dnf e \<and> \<not> is_or e"

lemma dnf_And [simp]: "dnf (AndExpr es n) \<longleftrightarrow> es \<noteq> [] \<and> n = None \<and> (\<forall>x\<in>set es. clause x)"
  by (auto simp: dnf.simps [of "AndExpr es n"] dnf_shape_def children_def cached_def clause_def)

lemma dnf_Or [simp]:
  "dnf (OrExpr es n) \<longleftrightarrow> es \<noteq> [] \<and> (\<forall>x\<in>set es. clause x) \<and> (case n of None \<Rightarrow> True | Some m \<Rightarrow> dnf m)"
  by (auto simp: dnf.simps [of "OrExpr es n"] dnf_shape_def children_def cached_def clause_def)

lemma dnf_const [simp]: "dnf FalseExpr" "dnf TrueExpr"
  by (simp_all add: dnf.simps [of FalseExpr] dnf.simps [of TrueExpr] dnf_shape_def children_def cached_def)

lemma clause_simps [simp]:
  "clause (AndExpr es n) \<longleftrightarrow> es \<noteq> [] \<and> n = None \<and> (\<forall>x\<in>set es. clause x)" "\<not> clause (OrExpr es n)"
  "clause FalseExpr" "clause TrueExpr"
  by (simp_all add: clause_def is_or_def)

lemma is_atom_simps [simp]: "\<not> is_atom (AndExpr es n)" "\<not> is_atom (OrExpr es n)"
  "is_atom TrueExpr" "is_atom FalseExpr"
  by (simp_all add: is_atom_def)

lemma atom_clause: "is_atom e \<Longrightarrow> clause e \<longleftrightarrow> dnf e"
  by (cases e) (auto simp: is_atom_def clause_def is_or_def)

lemma atom_dnf:
  "is_atom e \<Longrightarrow> dnf e \<longleftrightarrow> ContextKeyExprType e < 9
     \<and> (case cached e of None \<Rightarrow> True | Some m \<Rightarrow> is_atom m \<and> dnf m)"
  by (subst dnf.simps [of e], cases e)
    (auto simp: dnf_shape_def children_def split: option.splits)

lemma dnf_parts:
  "dnf e \<Longrightarrow> \<forall>x\<in>set (or_parts e). clause x"
  "dnf e \<Longrightarrow> \<forall>x\<in>set (and_parts e). dnf x"
  "clause e \<Longrightarrow> \<forall>x\<in>set (and_parts e). clause x"
  "dnf e \<Longrightarrow> \<forall>x\<in>set (getTerminals e). clause x"
  by (cases e; auto simp: clause_def is_or_def getTerminals_def)+

text \<open>The order puts the disjunctions last.\<close>

lemmas cmp_defs =
  ContextKeyDefinedExpr_cmp_def ContextKeyNotExpr_cmp_def ContextKeyEqualsExpr_cmp_def
  ContextKeyNotEqualsExpr_cmp_def ContextKeyInExpr_cmp_def ContextKeyNotInExpr_cmp_def
  ContextKeyGreaterExpr_cmp_def ContextKeyGreaterEqualsExpr_cmp_def ContextKeySmallerExpr_cmp_def
  ContextKeySmallerEqualsExpr_cmp_def

lemma expr_cmp_type:
  assumes "ContextKeyExprType a \<noteq> ContextKeyExprType b"
  shows "expr_cmp a b = ContextKeyExprType a - ContextKeyExprType b"
  using assms by (cases a; cases b; simp add: cmp_defs)

lemma sort_by_type: "sorted_wrt (\<lambda>a b. ContextKeyExprType a \<le> ContextKeyExprType b) (js_sort expr_cmp es)"
proof (induction es)
  case (Cons e es)
  have "sorted_wrt (\<lambda>a b. ContextKeyExprType a \<le> ContextKeyExprType b) (js_insort expr_cmp e xs)"
    if "sorted_wrt (\<lambda>a b. ContextKeyExprType a \<le> ContextKeyExprType b) xs" for xs
    using that
  proof (induction xs)
    case (Cons x xs)
    have set_ins: "set (js_insort expr_cmp e xs) = insert e (set xs)"
      by (metis mset_js_insort set_mset_add_mset_insert set_mset_mset)
    have "expr_cmp e x \<le> 0 \<Longrightarrow> ContextKeyExprType e \<le> ContextKeyExprType x"
      "\<not> expr_cmp e x \<le> 0 \<Longrightarrow> ContextKeyExprType x \<le> ContextKeyExprType e"
      using expr_cmp_type [of e x] by linarith+
    with Cons show ?case by (auto simp: set_ins)
  qed simp
  with Cons show ?case by simp
qed simp

lemma sorted_dedupe:
  "sorted_wrt P es \<Longrightarrow> sorted_wrt P (eliminate_duplicates es)"
proof (induction es rule: eliminate_duplicates.induct)
  case (1 a b es)
  then show ?case using eliminate_duplicates_set [of "b # es"] by (auto simp: subset_iff)
qed simp_all

lemma last_not_or:
  assumes "sorted_wrt (\<lambda>a b. ContextKeyExprType a \<le> ContextKeyExprType b) es" "es \<noteq> []"
    and "\<forall>e\<in>set es. dnf e" "\<not> is_or (last es)"
  shows "\<forall>e\<in>set es. clause e"
proof
  fix e
  assume e: "e \<in> set es"
  have es: "es = butlast es @ [last es]" using assms(2) by simp
  have "e = last es \<or> ContextKeyExprType e \<le> ContextKeyExprType (last es)"
    using assms(1) e by (subst (asm) es, subst (asm) es) (auto simp: sorted_wrt_append)
  moreover have "ContextKeyExprType (last es) < 9"
  proof -
    have "dnf (last es)" using assms(2,3) by simp
    then show ?thesis
      using assms(4) atom_dnf [of "last es"] by (cases "last es") (auto simp: is_or_def is_atom_def)
  qed
  ultimately have "\<not> is_or e" using assms(4) by (cases e) (auto simp: is_or_def)
  then show "clause e" using e assms(3) by (simp add: clause_def)
qed

section \<open>Convergence\<close>

lemma omap_converges:
  fixes f :: "nat \<Rightarrow> 'a \<Rightarrow> 'b option"
  assumes "\<And>n m. n \<le> m \<Longrightarrow> below (f n) (f m)"
    and "\<forall>x\<in>set xs. \<exists>n y. f n x = Some y \<and> P y"
  shows "\<exists>n ys. omap (f n) xs = Some ys \<and> (\<forall>y\<in>set ys. P y)"
  using assms(2)
proof (induction xs)
  case (Cons x xs)
  then obtain n y k ys where y: "f n x = Some y" "P y" and ys: "omap (f k) xs = Some ys" "\<forall>y\<in>set ys. P y"
    by auto
  from omap_below [OF assms(1) [OF max.cobounded2]] have "omap (f (max n k)) xs = Some ys" using ys(1) by (simp add: below_def)
  moreover have "f (max n k) x = Some y" using assms(1) [OF max.cobounded1, of n k] y(1) by (simp add: below_def)
  ultimately show ?case using y(2) ys(2)
    by (intro exI [of _ "max n k"]) auto
qed simp

lemma has_complement_converges:
  assumes "\<forall>x\<in>set xs. \<exists>n y. negate n cs x = Some y"
  shows "\<exists>n b. has_complement (negate n cs) xs = Some b"
  using assms
proof (induction xs)
  case (Cons x xs)
  then obtain n y k b where y: "negate n cs x = Some y" and b: "has_complement (negate k cs) xs = Some b" by auto
  from has_complement_below [OF operations_below(3) [OF max.cobounded2]] have "has_complement (negate (max n k) cs) xs = Some b"
    using b by (simp add: below_def)
  moreover have "negate (max n k) cs x = Some y" using operations_mono(3) [OF max.cobounded1 y] .
  ultimately have "\<exists>b. has_complement (negate (max n k) cs) (x # xs) = Some b"
    by (cases "list_ex (expr_equals y) xs") auto
  then show ?case by blast
qed auto

lemma negate_atom_converges:
  assumes "is_atom e" "dnf e"
  shows "\<exists>e'. negate (Suc n) cs e = Some e' \<and> is_atom e' \<and> dnf e'"
proof -
  obtain e' where e': "negate (Suc n) cs e = Some e'"
    using assms(1) by (cases e) (auto simp: is_atom_def negate_body_def)
  have "is_atom e' \<and> dnf e'"
    using assms e'
    by (cases e) (auto simp: is_atom_def atom_dnf negate_body_def negate_defs create_defs cached_def Let_def
        split: option.splits prim.splits if_splits)
  with e' show ?thesis by blast
qed

lemma Or_result_dnf:
  assumes "ContextKeyOrExpr_normalizeArr neg arr negated extra = Some r" "\<forall>e\<in>given arr. dnf e"
    and "case negated of None \<Rightarrow> True | Some m \<Rightarrow> dnf m" "given arr \<noteq> {}"
  shows "\<exists>e. r = Some e \<and> dnf e \<and> set (or_parts e) \<subseteq> insert TrueExpr (set (all_parts or_parts arr))"
proof -
  let ?es = "all_parts or_parts arr"
  have parts: "\<forall>x\<in>set ?es. clause x" using assms(2) dnf_parts(1) by (auto simp: set_all_parts)
  have nonempty: "or_parts e = [] \<longleftrightarrow> e = FalseExpr" if "dnf e" for e using that by (cases e) auto
  define ss where "ss = js_sort expr_cmp ?es"
  define ds where "ds = eliminate_duplicates ss"
  have ss: "set ss = set ?es" "length ss = length ?es" by (simp_all add: ss_def)
  have ds: "set ds \<subseteq> set ?es" "ds = [] \<longleftrightarrow> ?es = []"
    using eliminate_duplicates_set [of ss] ss by (auto simp: ds_def ss_def)
  have hd: "hd xs \<in> set ?es" if "length xs = 1" "set xs \<subseteq> set ?es" for xs using that by (cases xs) auto
  have single: "or_parts x = [x] \<or> x = FalseExpr" if "clause x" for x using that by (cases x) auto
  have "?es = [] \<Longrightarrow> FalseExpr \<in> given arr"
    using assms(2,4) nonempty set_all_parts [of or_parts arr] by fastforce
  then consider "r = Some TrueExpr" | "r = Some FalseExpr" | "\<exists>x\<in>set ?es. r = Some x"
    | "r = Some (OrExpr ds negated)" "ds \<noteq> []"
    using assms(1) hd [of ss] hd [of ds] ss ds
    by (auto simp: ContextKeyOrExpr_normalizeArr_def or_collect_eq Let_def ss_def [symmetric] ds_def [symmetric]
        split: if_splits bind_splits)
  then show ?thesis
  proof cases
    case 3
    then obtain x where "x \<in> set ?es" "r = Some x" by blast
    with parts single [of x] show ?thesis by (auto simp: clause_def)
  qed (use assms(3) parts ds in auto)
qed

lemma Or_converges:
  assumes "\<forall>e\<in>given arr. dnf e" "given arr \<noteq> {}" "case negated of None \<Rightarrow> True | Some m \<Rightarrow> dnf m"
    and "\<forall>x\<in>set (all_parts or_parts arr). \<exists>n y. negate n cs x = Some y"
  shows "\<exists>n e. or_create n cs arr negated extra = Some (Some e) \<and> dnf e
    \<and> set (or_parts e) \<subseteq> insert TrueExpr (set (all_parts or_parts arr))"
proof -
  define ds where "ds = eliminate_duplicates (js_sort expr_cmp (all_parts or_parts arr))"
  have "set ds \<subseteq> set (all_parts or_parts arr)"
    using eliminate_duplicates_set [of "js_sort expr_cmp (all_parts or_parts arr)"] by (simp add: ds_def)
  then obtain n b where "has_complement (negate n cs) ds = Some b"
    using has_complement_converges [of ds cs] assms(4) by blast
  then have "\<exists>r. ContextKeyOrExpr_normalizeArr (negate n cs) arr negated extra = Some r"
    by (simp add: ContextKeyOrExpr_normalizeArr_def or_collect_eq ds_def Let_def)
  then obtain r where r: "ContextKeyOrExpr_normalizeArr (negate n cs) arr negated extra = Some r" ..
  from Or_result_dnf [OF r assms(1,3,2)] r show ?thesis
    by (auto simp: operations_unfold intro!: exI [of _ "Suc n"])
qed

lemma clause_negate_converges:
  "clause e \<Longrightarrow> \<exists>n e'. negate n cs e = Some e' \<and> dnf e' \<and> (\<forall>x\<in>set (or_parts e'). is_atom x)"
proof (induction "size e" arbitrary: e rule: less_induct)
  case less
  show ?case
  proof (cases "is_atom e")
    case True
    with less.prems obtain e' where "negate (Suc 0) cs e = Some e'" "is_atom e'" "dnf e'"
      using negate_atom_converges [of e 0 cs] by (auto simp: atom_clause)
    moreover have "set (or_parts e') \<subseteq> {e'}" using \<open>is_atom e'\<close> by (cases e') auto
    ultimately show ?thesis by blast
  next
    case False
    with less.prems obtain es where es: "e = AndExpr es None" "es \<noteq> []" "\<forall>x\<in>set es. clause x"
      by (cases e) (auto simp: is_atom_def)
    have "\<forall>x\<in>set es. \<exists>n y. negate n cs x = Some y \<and> dnf y \<and> (\<forall>z\<in>set (or_parts y). is_atom z)"
      using less.hyps size_children [of _ e] es by (auto simp: children_def)
    from omap_converges [OF operations_below(3) this] obtain n ns where ns: "omap (negate n cs) es = Some ns"
      "\<forall>y\<in>set ns. dnf y \<and> (\<forall>z\<in>set (or_parts y). is_atom z)" by blast
    have atoms: "\<forall>x\<in>set (all_parts or_parts (map Some ns)). is_atom x \<and> dnf x"
      using ns(2) dnf_parts(1) atom_clause by (fastforce simp: set_all_parts)
    have "ns \<noteq> []" using omap_length [OF ns(1)] es(2) by auto
    have "\<forall>x\<in>set (all_parts or_parts (map Some ns)). \<exists>n y. negate n cs x = Some y"
      using atoms negate_atom_converges by blast
    moreover have "\<forall>e\<in>given (map Some ns). dnf e" "given (map Some ns) \<noteq> {}"
      using ns(2) \<open>ns \<noteq> []\<close> by simp_all
    moreover have "case Some e of None \<Rightarrow> True | Some m \<Rightarrow> dnf m" using less.prems by (simp add: clause_def)
    ultimately obtain k e' where k: "or_create k cs (map Some ns) (Some e) True = Some (Some e')" "dnf e'"
      "set (or_parts e') \<subseteq> insert TrueExpr (set (all_parts or_parts (map Some ns)))"
      using Or_converges [of "map Some ns" "Some e" cs True] by blast
    have "negate (Suc (max n k)) cs e = Some e'"
    proof -
      have "omap (negate (max n k) cs) es = Some ns"
        using omap_below [of "negate n cs" "negate (max n k) cs"] operations_mono(3) [OF max.cobounded1] ns(1)
        by (simp add: below_def)
      moreover have "or_create (max n k) cs (map Some ns) (Some e) True = Some (Some e')"
        using operations_mono(2) [OF max.cobounded2 k(1)] .
      ultimately show ?thesis
        using es(1) by (simp add: operations_unfold negate_body_def ContextKeyAndExpr_negate_def non_null_def)
    qed
    moreover have "\<forall>x\<in>set (or_parts e'). is_atom x"
      using k(3) atoms by (metis insertE is_atom_simps(3) subsetD)
    ultimately show ?thesis using k(2) by blast
  qed
qed

lemma dnf_Or_converges:
  assumes "\<forall>e\<in>given arr. dnf e" "given arr \<noteq> {}" "case negated of None \<Rightarrow> True | Some m \<Rightarrow> dnf m"
  shows "\<exists>n e. or_create n cs arr negated extra = Some (Some e) \<and> dnf e"
proof -
  have "\<forall>x\<in>set (all_parts or_parts arr). clause x"
    using assms(1) dnf_parts(1) by (auto simp: set_all_parts)
  then show ?thesis using Or_converges [OF assms] clause_negate_converges by blast
qed

text \<open>The end of the normalisation of a conjunction, after the distribution.\<close>

lemma And_converges_from:
  assumes "given arr \<noteq> {}" "\<forall>e\<in>given arr. dnf e"
    and "and_distribute (and_create n cs) (or_create n cs) extra
           (eliminate_duplicates (js_sort expr_cmp (all_parts and_parts arr))) = Some xs"
    and "xs \<noteq> [] \<and> (\<forall>x\<in>set xs. dnf x) \<and> (length xs = 1 \<or> (\<forall>x\<in>set xs. clause x))
         \<or> all_parts and_parts arr = []"
  shows "\<exists>n e. and_create n cs arr None extra = Some (Some e) \<and> dnf e
    \<and> ((\<forall>x\<in>given arr. clause x) \<and> (\<forall>x\<in>set xs. clause x) \<longrightarrow> clause e)"
proof -
  let ?es = "all_parts and_parts arr"
  define ds where "ds = eliminate_duplicates (js_sort expr_cmp ?es)"
  have ds: "set ds \<subseteq> set ?es" using eliminate_duplicates_set [of "js_sort expr_cmp ?es"] by (simp add: ds_def)
  have parts: "\<forall>x\<in>set ?es. dnf x" using assms(2) dnf_parts(2) by (auto simp: set_all_parts)
  have clauses: "(\<forall>x\<in>given arr. clause x) \<Longrightarrow> \<forall>x\<in>set ?es. clause x"
    using dnf_parts(3) by (auto simp: set_all_parts)
  have nonempty: "and_parts e = [] \<longleftrightarrow> e = TrueExpr" if "dnf e" for e using that by (cases e) auto
  have true: "?es = [] \<Longrightarrow> TrueExpr \<in> given arr"
    using assms(1,2) nonempty set_all_parts [of and_parts arr] by fastforce
  have hd: "hd ys \<in> set ?es" if "length ys = 1" "set ys \<subseteq> set ?es" for ys using that by (cases ys) auto
  have single: "length xs = 1 \<Longrightarrow> hd xs \<in> set xs" by (cases xs) auto
  obtain k b where k: "length xs \<noteq> 1 \<Longrightarrow> ?es \<noteq> [] \<Longrightarrow> has_complement (negate k cs) xs = Some b"
    using has_complement_converges [of xs cs] assms(4) clause_negate_converges by (metis (no_types, lifting))
  define m where "m = max n k"
  have dist: "and_distribute (and_create m cs) (or_create m cs) extra ds = Some xs"
    using assms(3) and_distribute_below [of "and_create n cs" "and_create m cs" "or_create n cs" "or_create m cs"]
      operations_mono(1,2) [of n m cs] by (auto simp: creator_below_def ds_def m_def)
  have hc: "has_complement (negate m cs) xs = Some b" if "length xs \<noteq> 1" "?es \<noteq> []"
    using k [OF that] has_complement_below [of "negate k cs" "negate m cs"] operations_mono(3) [of k m cs]
    by (auto simp: below_def m_def)
  have form: "and_create (Suc m) cs arr None extra = Some (Some FalseExpr)
    \<or> ?es = [] \<and> and_create (Suc m) cs arr None extra = Some (Some TrueExpr)
    \<or> (\<exists>x\<in>set ?es. and_create (Suc m) cs arr None extra = Some (Some x))
    \<or> ?es \<noteq> [] \<and> length xs = 1 \<and> and_create (Suc m) cs arr None extra = Some (Some (hd xs))
    \<or> ?es \<noteq> [] \<and> length xs \<noteq> 1 \<and> and_create (Suc m) cs arr None extra = Some (Some (AndExpr xs None))"
    using true hd [of ?es] hd [of ds] ds dist hc
    by (auto simp: operations_unfold ContextKeyAndExpr_normalizeArr_def and_collect_eq Let_def
        ds_def [symmetric])
  show ?thesis
    using form
  proof (elim disjE)
    assume "\<exists>x\<in>set ?es. and_create (Suc m) cs arr None extra = Some (Some x)"
    with parts clauses show ?thesis by blast
  next
    assume *: "?es \<noteq> [] \<and> length xs = 1 \<and> and_create (Suc m) cs arr None extra = Some (Some (hd xs))"
    with single assms(4) show ?thesis by blast
  next
    assume *: "?es \<noteq> [] \<and> length xs \<noteq> 1 \<and> and_create (Suc m) cs arr None extra = Some (Some (AndExpr xs None))"
    with assms(4) show ?thesis by (intro exI [of _ "Suc m"] exI [of _ "AndExpr xs None"]) auto
  qed (auto intro!: exI [of _ "Suc m"])
qed

lemma clause_And_converges:
  assumes "given arr \<noteq> {}" "\<forall>e\<in>given arr. clause e"
  shows "\<exists>n e. and_create n cs arr None extra = Some (Some e) \<and> clause e"
proof -
  let ?ds = "eliminate_duplicates (js_sort expr_cmp (all_parts and_parts arr))"
  have "\<forall>x\<in>set (all_parts and_parts arr). clause x" using assms(2) dnf_parts(3) by (auto simp: set_all_parts)
  then have ds: "\<forall>x\<in>set ?ds. clause x"
    using eliminate_duplicates_set [of "js_sort expr_cmp (all_parts and_parts arr)"] by auto
  have "\<nexists>os n. last ?ds = OrExpr os n" if "length ?ds > 1"
  proof -
    have "?ds \<noteq> []" using that by auto
    then have "clause (last ?ds)" using ds last_in_set by blast
    then show ?thesis by auto
  qed
  then have "and_distribute (and_create 0 cs) (or_create 0 cs) extra ?ds = Some ?ds"
    by (intro and_distribute_stop) blast
  moreover have "\<forall>e\<in>given arr. dnf e" using assms(2) by (simp add: clause_def)
  ultimately show ?thesis
    using And_converges_from [OF assms(1), of 0 cs extra ?ds] ds assms(2) by (auto simp: clause_def)
qed

text \<open>
  The distribution loop converges when the pairs it conjoins do: \<open>S\<close> are the elements that can
  come before a disjunction at the end, and \<open>J\<close> is an invariant of the array that ensures it. It
  is used with at most one disjunction in the array, whose partners are clauses, and then, with
  the conjunctions of two operands that this gives, in general.
\<close>

locale and_distribution =
  fixes S :: "expr \<Rightarrow> bool" and J :: "expr list \<Rightarrow> bool" and cs :: consts_map and extra :: bool
  assumes pair: "clause el \<Longrightarrow> S second \<Longrightarrow> dnf second \<Longrightarrow>
      \<exists>n e. and_create n cs [Some el, Some second] None extra = Some (Some e) \<and> dnf e"
    and J_second: "J (rest @ [second, OrExpr os n]) \<Longrightarrow> S second"
    and J_step: "J (rest @ [second, OrExpr os n]) \<Longrightarrow> dnf r \<Longrightarrow> J (js_sort expr_cmp (rest @ [r]))"
begin

lemma distribute_converges:
  assumes "J es" "es \<noteq> []" "\<forall>e\<in>set es. dnf e"
    and "sorted_wrt (\<lambda>a b. ContextKeyExprType a \<le> ContextKeyExprType b) es"
  shows "\<exists>n xs. and_distribute (and_create n cs) (or_create n cs) extra es = Some xs
    \<and> xs \<noteq> [] \<and> (\<forall>x\<in>set xs. dnf x) \<and> (length xs = 1 \<or> (\<forall>x\<in>set xs. clause x))"
  using assms
proof (induction "length es" arbitrary: es rule: less_induct)
  case less
  show ?case
  proof (cases "length es > 1 \<and> (\<exists>os n. last es = OrExpr os n)")
    case False
    have "length es = 1 \<or> (\<forall>x\<in>set es. clause x)"
    proof (cases "length es = 1")
      case len: False
      then have "\<not> is_or (last es)"
        using False less.prems(2) by (cases "last es") (auto simp: is_or_def Suc_lessI)
      then show ?thesis using last_not_or less.prems by blast
    qed simp
    with False less.prems show ?thesis by (auto simp: and_distribute_stop)
  next
    case True
    then obtain os m rest second where es: "es = rest @ [second, OrExpr os m]" using ends_in_or by metis
    have os: "os \<noteq> []" "\<forall>x\<in>set os. clause x" and second: "dnf second" "S second"
      using less.prems(1,3) es J_second by auto
    have pairs: "\<forall>el\<in>set os. \<exists>n y. and_create n cs [Some el, Some second] None extra = Some y \<and> (\<exists>e. y = Some e \<and> dnf e)"
      using pair os(2) second by blast
    have mono: "n \<le> m \<Longrightarrow> below (\<lambda>el. and_create n cs [Some el, Some second] None extra)
        (\<lambda>el. and_create m cs [Some el, Some second] None extra)" for n m
      using pair_below operations_below(1) by blast
    obtain n els where els: "omap (\<lambda>el. and_create n cs [Some el, Some second] None extra) os = Some els"
      "\<forall>y\<in>set els. \<exists>e. y = Some e \<and> dnf e"
      using omap_converges [OF mono pairs] by blast
    have "els \<noteq> []" using omap_length [OF els(1)] os(1) by auto
    then have "given els \<noteq> {}" using els(2) by (cases els) (auto simp: given_def)
    moreover have "\<forall>e\<in>given els. dnf e" using els(2) by (auto simp: given_def)
    ultimately obtain k r where r: "or_create k cs els None (rest = []) = Some (Some r)" "dnf r"
      using dnf_Or_converges [of els None cs "rest = []"] by auto
    let ?next = "js_sort expr_cmp (rest @ [r])"
    have "\<forall>e\<in>set ?next. dnf e" using less.prems(3) r(2) es by simp
    moreover have "J ?next" using J_step [OF less.prems(1) [unfolded es] r(2)] .
    moreover have "length ?next < length es" "?next \<noteq> []" using es by simp_all
    ultimately obtain j xs where xs: "and_distribute (and_create j cs) (or_create j cs) extra ?next = Some xs"
      "xs \<noteq> []" "\<forall>x\<in>set xs. dnf x" "length xs = 1 \<or> (\<forall>x\<in>set xs. clause x)"
      using less.hyps [of ?next] sort_by_type by blast
    define N where "N = max n (max k j)"
    have "omap (\<lambda>el. and_create N cs [Some el, Some second] None extra) os = Some els"
      using omap_below [OF mono, of n N] els(1) by (simp add: below_def N_def)
    moreover have "or_create N cs els None (rest = []) = Some (Some r)"
      using operations_mono(2) [OF _ r(1), of N] by (simp add: N_def)
    moreover have "and_distribute (and_create N cs) (or_create N cs) extra ?next = Some xs"
      using and_distribute_below [OF operations_below(1,2) xs(1), of N] by (simp add: N_def)
    ultimately have "and_distribute (and_create N cs) (or_create N cs) extra es = Some xs"
      unfolding es and_distribute_step by simp
    with xs show ?thesis by blast
  qed
qed

lemma And_converges:
  assumes "J (eliminate_duplicates (js_sort expr_cmp (all_parts and_parts arr)))"
    and "given arr \<noteq> {}" "\<forall>e\<in>given arr. dnf e"
  shows "\<exists>n e. and_create n cs arr None extra = Some (Some e) \<and> dnf e"
proof (cases "all_parts and_parts arr = []")
  case True
  then have "and_distribute (and_create 0 cs) (or_create 0 cs) extra
      (eliminate_duplicates (js_sort expr_cmp (all_parts and_parts arr))) = Some []"
    by (simp add: and_distribute_stop)
  from And_converges_from [OF assms(2,3) this] True show ?thesis by blast
next
  case False
  let ?ds = "eliminate_duplicates (js_sort expr_cmp (all_parts and_parts arr))"
  have "\<forall>x\<in>set (all_parts and_parts arr). dnf x" using assms(3) dnf_parts(2) by (auto simp: set_all_parts)
  then have "\<forall>x\<in>set ?ds. dnf x"
    using eliminate_duplicates_set [of "js_sort expr_cmp (all_parts and_parts arr)"] by auto
  moreover have "?ds \<noteq> []" using False by simp
  moreover have "sorted_wrt (\<lambda>a b. ContextKeyExprType a \<le> ContextKeyExprType b) ?ds"
    using sorted_dedupe sort_by_type by blast
  ultimately obtain n xs where xs: "and_distribute (and_create n cs) (or_create n cs) extra ?ds = Some xs"
    "xs \<noteq> []" "\<forall>x\<in>set xs. dnf x" "length xs = 1 \<or> (\<forall>x\<in>set xs. clause x)"
    using distribute_converges [OF assms(1)] by blast
  from And_converges_from [OF assms(2,3) xs(1)] xs(2-4) show ?thesis by blast
qed

end

definition one_or :: "expr list \<Rightarrow> bool" where
  "one_or es \<longleftrightarrow> length (filter is_or es) \<le> 1"

lemma is_or_Or [simp]: "is_or (OrExpr os n)"
  by (simp add: is_or_def)

lemma one_or_sort: "one_or (js_sort expr_cmp es) \<longleftrightarrow> one_or es"
  unfolding one_or_def by (metis mset_filter mset_js_sort size_mset)

lemma one_or_dedupe: "length (filter is_or (eliminate_duplicates es)) \<le> length (filter is_or es)"
proof (induction es rule: eliminate_duplicates.induct)
  case (1 a b es)
  then show ?case by (cases "expr_equals a b") (auto split: if_splits)
qed simp_all

interpretation single_or: and_distribution "\<lambda>e. \<not> is_or e" one_or cs extra for cs extra
proof
  show "\<exists>n e. and_create n cs [Some a, Some b] None extra = Some (Some e) \<and> dnf e"
    if "clause a" "\<not> is_or b" "dnf b" for a b
    using clause_And_converges [of "[Some a, Some b]" cs extra] that by (auto simp: clause_def)
  show "\<not> is_or s" if "one_or (rest @ [s, OrExpr os n])" for rest s os n
    using that by (auto simp: one_or_def split: if_splits)
  show "one_or (js_sort expr_cmp (rest @ [r]))" if "one_or (rest @ [s, OrExpr os n])" "dnf r" for rest s os n r
    using that by (simp add: one_or_sort) (auto simp: one_or_def split: if_splits)
qed

lemma clause_dnf_And_converges:
  assumes "clause el" "dnf second"
  shows "\<exists>n e. and_create n cs [Some el, Some second] None extra = Some (Some e) \<and> dnf e"
proof (rule single_or.And_converges)
  have "\<not> is_or x" if "x \<in> set (and_parts el)" for x using dnf_parts(3) [OF assms(1)] that by (auto simp: clause_def)
  then have "filter is_or (and_parts el) = []" by (simp add: filter_empty_conv)
  moreover have "length (filter is_or (and_parts second)) \<le> 1"
    using assms(2) by (cases second) (auto simp: is_or_def filter_empty_conv clause_def)
  ultimately have "one_or (all_parts and_parts [Some el, Some second])" by (simp add: one_or_def)
  then show "one_or (eliminate_duplicates (js_sort expr_cmp (all_parts and_parts [Some el, Some second])))"
    using one_or_dedupe one_or_sort unfolding one_or_def by (meson le_trans)
qed (use assms in \<open>simp_all add: clause_def\<close>)

interpretation any_or: and_distribution "\<lambda>_. True" "\<lambda>_. True" cs extra for cs extra
  by unfold_locales (use clause_dnf_And_converges in auto)

lemma dnf_And_converges:
  assumes "given arr \<noteq> {}" "\<forall>e\<in>given arr. dnf e"
  shows "\<exists>n e. and_create n cs arr None extra = Some (Some e) \<and> dnf e"
  using any_or.And_converges [of arr] assms by simp

text \<open>The loop of the negation of a disjunction, and the negation itself.\<close>

lemma or_negate_loop_converges:
  assumes "es \<noteq> []" "\<forall>e\<in>set es. dnf e"
  shows "\<exists>n e. or_negate_loop (and_create n cs) (or_create n cs) es = Some [e] \<and> dnf e"
  using assms
proof (induction "length es" arbitrary: es rule: less_induct)
  case less
  consider e where "es = [e]" | l r rest where "es = l # r # rest"
    using less.prems(1) by (cases es; cases "tl es"; auto)
  then show ?case
  proof cases
    case 1
    with less.prems show ?thesis by auto
  next
    case 2
    let ?pairs = "[(left, right). left \<leftarrow> getTerminals l, right \<leftarrow> getTerminals r]"
    let ?f = "\<lambda>n (left, right). and_create n cs [Some left, Some right] None False"
    have dnf: "dnf l" "dnf r" "\<forall>x\<in>set rest. dnf x" using less.prems(2) 2 by auto
    have "\<exists>n y. ?f n (a, b) = Some y \<and> (\<exists>e. y = Some e \<and> dnf e)"
      if "a \<in> set (getTerminals l)" "b \<in> set (getTerminals r)" for a b
      using clause_And_converges [of "[Some a, Some b]" cs False] that dnf_parts(4) [OF dnf(1)]
        dnf_parts(4) [OF dnf(2)] by (auto simp: clause_def)
    then have pairs: "\<forall>p\<in>set ?pairs. \<exists>n y. ?f n p = Some y \<and> (\<exists>e. y = Some e \<and> dnf e)" by auto
    have mono: "n \<le> m \<Longrightarrow> below (?f n) (?f m)" for n m
      using operations_mono(1) by (auto simp: below_def)
    obtain n ys where ys: "omap (?f n) ?pairs = Some ys" "\<forall>y\<in>set ys. \<exists>e. y = Some e \<and> dnf e"
      using omap_converges [OF mono pairs] by blast
    have "getTerminals l \<noteq> []" "getTerminals r \<noteq> []" using dnf by (auto simp: getTerminals_def split: expr.splits)
    then have "?pairs \<noteq> []" by (cases "getTerminals l"; cases "getTerminals r") auto
    then have "ys \<noteq> []" using omap_length [OF ys(1)] by auto
    then have "given ys \<noteq> {}" using ys(2) by (cases ys) (auto simp: given_def)
    moreover have "\<forall>e\<in>given ys. dnf e" using ys(2) by (auto simp: given_def)
    ultimately obtain k e where e: "or_create k cs ys None False = Some (Some e)" "dnf e"
      using dnf_Or_converges [of ys None cs False] by auto
    obtain j x where x: "or_negate_loop (and_create j cs) (or_create j cs) (e # rest) = Some [x]" "dnf x"
      using less.hyps [of "e # rest"] 2 e(2) dnf(3) by auto
    define N where "N = max n (max k j)"
    have "omap (?f N) ?pairs = Some ys" using omap_below [OF mono, of n N] ys(1) by (simp add: below_def N_def)
    moreover have "or_create N cs ys None False = Some (Some e)"
      using operations_mono(2) [OF _ e(1), of N] by (simp add: N_def)
    moreover have "or_negate_loop (and_create N cs) (or_create N cs) (e # rest) = Some [x]"
      using or_negate_loop_below [OF operations_below(1,2) x(1), of N] by (simp add: N_def)
    ultimately have "or_negate_loop (and_create N cs) (or_create N cs) es = Some [x]"
      unfolding 2 by (simp add: non_null_def)
    with x(2) show ?thesis by blast
  qed
qed

lemma dnf_negate_converges:
  assumes "dnf e"
  shows "\<exists>n e'. negate n cs e = Some e' \<and> dnf e'"
proof (cases "is_or e")
  case False
  with assms clause_negate_converges [of e cs] show ?thesis by (auto simp: clause_def)
next
  case True
  then obtain es c where e: "e = OrExpr es c" by (cases e) (auto simp: is_or_def)
  with assms have es: "es \<noteq> []" "\<forall>x\<in>set es. clause x" by auto
  show ?thesis
  proof (cases c)
    case (Some m)
    with assms e show ?thesis
      by (intro exI [of _ "Suc 0"]) (simp add: negate_body_def ContextKeyOrExpr_negate_def)
  next
    case None
    have negs: "\<forall>x\<in>set es. \<exists>n y. negate n cs x = Some y \<and> dnf y"
      using es(2) clause_negate_converges by blast
    obtain n ns where ns: "omap (negate n cs) es = Some ns" "\<forall>y\<in>set ns. dnf y"
      using omap_converges [OF operations_below(3) negs] by blast
    have "ns \<noteq> []" using omap_length [OF ns(1)] es(1) by auto
    from or_negate_loop_converges [OF this ns(2)] obtain k x where
      x: "or_negate_loop (and_create k cs) (or_create k cs) ns = Some [x]" "dnf x" by blast
    obtain j e' where e': "or_create j cs [Some x] (Some e) True = Some (Some e')" "dnf e'"
      using dnf_Or_converges [of "[Some x]" "Some e" cs True] x(2) assms by auto
    define N where "N = max n (max k j)"
    have "omap (negate N cs) es = Some ns"
      using omap_below [OF operations_below(3), of n N cs] ns(1) by (simp add: below_def N_def)
    moreover have "or_negate_loop (and_create N cs) (or_create N cs) ns = Some [x]"
      using or_negate_loop_below [OF operations_below(1,2) x(1), of N] by (simp add: N_def)
    moreover have "or_create N cs [Some x] (Some e) True = Some (Some e')"
      using operations_mono(2) [OF _ e'(1), of N] by (simp add: N_def)
    ultimately have "negate (Suc N) cs e = Some e'"
      using e None by (simp add: operations_unfold negate_body_def ContextKeyOrExpr_negate_def non_null_def)
    with e'(2) show ?thesis by blast
  qed
qed

end
