(* ===== verification/ContextKeyProps.thy ===== *)
theory ContextKeyProps
  imports ContextKeyNormalForms
begin

text \<open>
  Constant substitution and implication of \<open>when\<close> clauses, and the properties of the expressions of
  \<open>ContextKeys\<close>: meaning of creation and negation, termination, soundness of \<open>implies\<close>, meaning of
  \<open>substituteConstants\<close>, and the inputs outside of the conditions on which the meaning is lost.
\<close>

section \<open>Constant substitution\<close>

definition keeps_meaning ::
  "engine \<Rightarrow> consts_map \<Rightarrow> (string \<Rightarrow> string) \<Rightarrow> IContext \<Rightarrow> expr \<Rightarrow> expr option option \<Rightarrow> bool" where
  "keeps_meaning eng cs F ctx e r \<longleftrightarrow>
     (r = None \<or> (\<exists>e'. r = Some (Some e') \<and> coherent eng cs F ctx e'
                    \<and> evaluate eng e' ctx = evaluate eng e ctx))"

lemma new_or_same_keeps:
  assumes "coherent eng cs F ctx e" "keeps_meaning eng cs F ctx e r"
  shows "\<exists>e'. new_or_same e r = Some e' \<and> coherent eng cs F ctx e' \<and> evaluate eng e' ctx = evaluate eng e ctx"
  using assms by (auto simp: keeps_meaning_def new_or_same_def)

lemma eliminate_keeps:
  assumes "\<forall>e\<in>set es. coherent eng cs F ctx e" "list_all2 (keeps_meaning eng cs F ctx) es news"
    and "eliminateConstantsInArray es news = Some arr"
  shows "(\<forall>e\<in>given arr. coherent eng cs F ctx e)
    \<and> (\<lambda>e. evaluate eng e ctx) ` given arr = (\<lambda>e. evaluate eng e ctx) ` set es"
proof -
  have arr: "arr = map2 new_or_same es news"
    using assms(3) by (auto simp: eliminateConstantsInArray_def split: if_splits)
  show ?thesis
    using assms(2,1) unfolding arr
  proof (induction es news rule: list_all2_induct)
    case (Cons e es r news)
    obtain e' where "new_or_same e r = Some e'" "coherent eng cs F ctx e'"
      "evaluate eng e' ctx = evaluate eng e ctx"
      using new_or_same_keeps Cons.hyps(1) Cons.prems by fastforce
    with Cons show ?case by simp
  qed simp
qed

lemma create_substituted:
  assumes "creates eng cs F ctx op create" "\<forall>e\<in>set es. coherent eng cs F ctx e" "es \<noteq> []"
    and "list_all2 (keeps_meaning eng cs F ctx) es news" "eliminateConstantsInArray es news = Some arr"
    and "negated_ok eng cs F ctx negated (op ((\<lambda>e. evaluate eng e ctx) ` set es))"
    and "create arr negated False = Some r"
  shows "\<exists>e'. r = Some e' \<and> coherent eng cs F ctx e'
    \<and> evaluate eng e' ctx = op ((\<lambda>e. evaluate eng e ctx) ` set es)"
proof -
  from eliminate_keeps [OF assms(2,4,5)] have arr: "\<forall>e\<in>given arr. coherent eng cs F ctx e"
    and img: "(\<lambda>e. evaluate eng e ctx) ` given arr = (\<lambda>e. evaluate eng e ctx) ` set es" by auto
  have "given arr \<noteq> {}" using img assms(3) by force
  show ?thesis
  proof (cases r)
    case None
    with creates_none [OF assms(1) _ arr] assms(6,7) img \<open>given arr \<noteq> {}\<close> show ?thesis by fastforce
  next
    case (Some e')
    with creates_given [OF assms(1) _ arr] assms(6,7) img show ?thesis by fastforce
  qed
qed

lemma And_coherent_negated:
  "coherent eng cs F ctx (AndExpr es n) \<Longrightarrow>
     negated_ok eng cs F ctx n (conj_of ((\<lambda>e. evaluate eng e ctx) ` set es))"
  by (auto simp: coherent_unfold negated_ok_def image_conj_of split: option.splits)

lemma Or_coherent_negated:
  "coherent eng cs F ctx (OrExpr es n) \<Longrightarrow>
     negated_ok eng cs F ctx n (disj_of ((\<lambda>e. evaluate eng e ctx) ` set es))"
  by (auto simp: coherent_unfold negated_ok_def image_disj_of split: option.splits)

lemma substituteConstants_mutual:
  "coherent eng cs F ctx e \<Longrightarrow> substituteConstants n cs e = Some r \<Longrightarrow> keeps_meaning eng cs F ctx e r"
  "(\<forall>e\<in>set es. coherent eng cs F ctx e) \<Longrightarrow> substituteConstants_all n cs es = Some rs \<Longrightarrow>
     list_all2 (keeps_meaning eng cs F ctx) es rs"
  "coherent eng cs F ctx (AndExpr es negated) \<Longrightarrow>
     ContextKeyAndExpr_substituteConstants n cs es negated = Some r \<Longrightarrow>
     keeps_meaning eng cs F ctx (AndExpr es negated) r"
  "coherent eng cs F ctx (OrExpr es negated) \<Longrightarrow>
     ContextKeyOrExpr_substituteConstants n cs es negated = Some r \<Longrightarrow>
     keeps_meaning eng cs F ctx (OrExpr es negated) r"
proof (induction n cs e and n cs es and n cs es negated and n cs es negated arbitrary: r and rs and r and r
    rule: substituteConstants_substituteConstants_all_ContextKeyAndExpr_substituteConstants_ContextKeyOrExpr_substituteConstants.induct)
  case (10 n cs es negated)
  then have es: "es \<noteq> []" "\<forall>e\<in>set es. coherent eng cs F ctx e" by (auto simp: coherent_unfold)
  obtain news where news: "substituteConstants_all n cs es = Some news"
    using 10(3) by (auto split: bind_splits)
  note keeps = 10(1) [OF es(2) news]
  show ?case
  proof (cases "eliminateConstantsInArray es news")
    case None
    with 10(3) news show ?thesis by (simp add: keeps_meaning_def)
  next
    case (Some arr)
    with 10(3) news obtain r' where "and_create n cs arr negated False = Some r'" "r = Some r'" by auto
    with create_substituted [OF and_create_sound es(2,1) keeps Some And_coherent_negated [OF 10(2)]]
    show ?thesis by (auto simp: keeps_meaning_def image_conj_of)
  qed
next
  case (11 n cs es negated)
  then have es: "es \<noteq> []" "\<forall>e\<in>set es. coherent eng cs F ctx e" by (auto simp: coherent_unfold)
  obtain news where news: "substituteConstants_all n cs es = Some news"
    using 11(3) by (auto split: bind_splits)
  note keeps = 11(1) [OF es(2) news]
  show ?case
  proof (cases "eliminateConstantsInArray es news")
    case None
    with 11(3) news show ?thesis by (simp add: keeps_meaning_def)
  next
    case (Some arr)
    with 11(3) news obtain r' where "or_create n cs arr negated False = Some r'" "r = Some r'" by auto
    with create_substituted [OF or_create_sound es(2,1) keeps Some Or_coherent_negated [OF 11(2)]]
    show ?thesis by (auto simp: keeps_meaning_def image_disj_of)
  qed
qed (auto simp: keeps_meaning_def coherent_unfold evaluate_defs const_agrees_def const_equals_agrees_def
    ContextKeyDefinedExpr_substituteConstants_def ContextKeyNotExpr_substituteConstants_def
    ContextKeyEqualsExpr_substituteConstants_def ContextKeyNotEqualsExpr_substituteConstants_def
    strict_eq_def Let_def split: option.splits if_splits bind_splits)

lemmas substituteConstants_sound = substituteConstants_mutual(1)

section \<open>Implication\<close>

text \<open>
  \<open>allElementsIncluded\<close> takes elements with \<open>cmp === 0\<close> for equal. They are, as long as the
  values that equality tests compare with are strings.
\<close>

function string_values :: "expr \<Rightarrow> bool" where
  "string_values e \<longleftrightarrow>
     (case e of EqualsExpr _ v _ \<Rightarrow> (\<exists>s. v = Str s) | NotEqualsExpr _ v _ \<Rightarrow> (\<exists>s. v = Str s) | _ \<Rightarrow> True)
     \<and> (\<forall>x\<in>set (children e). string_values x)"
  by pat_completeness auto
termination
  by (relation "measure size") (auto simp: size_children)

declare string_values.simps [simp del]

lemma string_values_simps:
  "string_values (EqualsExpr k v n) \<longleftrightarrow> (\<exists>s. v = Str s)"
  "string_values (NotEqualsExpr k v n) \<longleftrightarrow> (\<exists>s. v = Str s)"
  "string_values (AndExpr es n) \<longleftrightarrow> (\<forall>x\<in>set es. string_values x)"
  "string_values (OrExpr es n) \<longleftrightarrow> (\<forall>x\<in>set es. string_values x)"
  "string_values (DefinedExpr k n)" "string_values (NotExpr k n)"
  by (simp_all add: string_values.simps [of "EqualsExpr k v n"] string_values.simps [of "NotEqualsExpr k v n"]
      string_values.simps [of "AndExpr es n"] string_values.simps [of "OrExpr es n"]
      string_values.simps [of "DefinedExpr k n"] string_values.simps [of "NotExpr k n"] children_def)

lemma cmp1_zero [simp]: "cmp1 a b = 0 \<longleftrightarrow> a = b"
  using str_less_linear [of a b] by (auto simp: cmp1_def)

lemma cmp2_Str_zero [simp]: "cmp2 k (Str a) k' (Str b) = 0 \<longleftrightarrow> k = k' \<and> a = b"
  using str_less_linear [of a b] str_less_linear [of k k'] by (auto simp: cmp2_def prim_less_def)

lemma cmp2_Num_zero:
  "a \<noteq> NaN \<Longrightarrow> b \<noteq> NaN \<Longrightarrow> cmp2 k (Num a) k' (Num b) = 0 \<longleftrightarrow> k = k' \<and> a = b"
  using num_less_linear [of a b] str_less_linear [of k k'] by (auto simp: cmp2_def prim_less_def)

lemma regex_cmp_zero:
  "ContextKeyRegexExpr_cmp k r k' r' = 0 \<longleftrightarrow> k = k' \<and> regexp_source r = regexp_source r'"
  using str_less_linear [of k k'] str_less_linear [of "regexp_source r" "regexp_source r'"]
  by (auto simp: ContextKeyRegexExpr_cmp_def Let_def)

lemma expr_cmp_zero_mutual:
  "coherent eng cs F ctx a \<Longrightarrow> coherent eng cs F ctx b \<Longrightarrow> string_values a \<Longrightarrow> string_values b \<Longrightarrow>
     expr_cmp a b = 0 \<Longrightarrow> expr_equals a b"
  "\<forall>x\<in>set as. coherent eng cs F ctx x \<and> string_values x \<Longrightarrow> coherent eng cs F ctx b \<Longrightarrow> string_values b \<Longrightarrow>
     ContextKeyAndExpr_cmp as b = 0 \<Longrightarrow> ContextKeyAndExpr_equals as b"
  "\<forall>x\<in>set as. coherent eng cs F ctx x \<and> string_values x \<Longrightarrow> coherent eng cs F ctx b \<Longrightarrow> string_values b \<Longrightarrow>
     ContextKeyOrExpr_cmp as b = 0 \<Longrightarrow> ContextKeyOrExpr_equals as b"
  "\<forall>x\<in>set as. coherent eng cs F ctx x \<and> string_values x \<Longrightarrow>
     \<forall>x\<in>set bs. coherent eng cs F ctx x \<and> string_values x \<Longrightarrow>
     expr_cmp_loop as bs = 0 \<Longrightarrow> expr_equals_loop as bs"
proof (induction a b and as b and as b and as bs rule:
    expr_cmp_ContextKeyAndExpr_cmp_ContextKeyOrExpr_cmp_expr_cmp_loop.induct)
qed (auto simp: equals_defs cmp_defs coherent_unfold string_values_simps numeric_comparison_def
    cmp2_Num_zero regex_cmp_zero ContextKeyNotRegexExpr_cmp_def Let_def split: expr.splits if_splits)

lemma allElementsIncluded_sound:
  assumes "allElementsIncluded ps qs" "\<forall>x\<in>set ps \<union> set qs. coherent eng cs F ctx x \<and> string_values x"
  shows "\<forall>p\<in>set ps. \<exists>q\<in>set qs. evaluate eng p ctx = evaluate eng q ctx"
  using assms
proof (induction ps qs rule: allElementsIncluded.induct)
  case (1 p ps q qs)
  consider "expr_cmp p q = 0" | "expr_cmp p q > 0" using "1.prems"(1) by (auto simp: Let_def split: if_splits)
  then show ?case
  proof cases
    case a: 1
    have "evaluate eng p ctx = evaluate eng q ctx"
      using expr_equals_sound [of eng cs F ctx p q] expr_cmp_zero_mutual(1) [of eng cs F ctx p q] a "1.prems"(2)
      by simp
    moreover have "\<forall>p\<in>set ps. \<exists>q\<in>set qs. evaluate eng p ctx = evaluate eng q ctx"
      using "1.IH"(1) [OF refl] a "1.prems" by simp
    ultimately show ?thesis by auto
  next
    case 2
    then show ?thesis using "1.IH"(2) [OF refl] "1.prems" by auto
  qed
qed simp_all

lemma implies_eq:
  "implies p q \<longleftrightarrow>
     (if p = FalseExpr \<or> q = TrueExpr then True
      else case p of
        OrExpr ps _ \<Rightarrow> (case q of OrExpr qs _ \<Rightarrow> allElementsIncluded ps qs | _ \<Rightarrow> False)
      | AndExpr ps _ \<Rightarrow>
          (case q of
             OrExpr qs _ \<Rightarrow> \<exists>x\<in>set qs. implies p x
           | AndExpr qs _ \<Rightarrow> allElementsIncluded qs ps
           | _ \<Rightarrow> \<exists>x\<in>set ps. implies x q)
      | _ \<Rightarrow>
          (case q of
             OrExpr qs _ \<Rightarrow> \<exists>x\<in>set qs. implies p x
           | _ \<Rightarrow> expr_equals p q))"
  by (subst implies.simps) (simp add: list_ex_iff split: expr.splits)

lemma implies_sound_aux:
  assumes "coherent eng cs F ctx p" "coherent eng cs F ctx q" "string_values p" "string_values q" "implies p q"
  shows "evaluate eng p ctx \<Longrightarrow> evaluate eng q ctx"
  using assms
proof (induction "size p + size q" arbitrary: p q rule: less_induct)
  case less
  have rec_q: "evaluate eng x ctx" if "x \<in> set (children q)" "implies p x" for x
    using less.hyps [of p x] less.prems that size_children [OF that(1)]
    by (auto simp: coherent.simps [of _ _ _ _ q] string_values.simps [of q])
  have rec_p: "evaluate eng q ctx" if "x \<in> set (children p)" "implies x q" "evaluate eng x ctx" for x
    using less.hyps [of x q] less.prems that size_children [OF that(1)]
    by (auto simp: coherent.simps [of _ _ _ _ p] string_values.simps [of p])
  have parts: "\<forall>x\<in>set (children p) \<union> set (children q). coherent eng cs F ctx x \<and> string_values x"
    using less.prems by (auto simp: coherent.simps [of _ _ _ _ q] coherent.simps [of _ _ _ _ p]
        string_values.simps [of q] string_values.simps [of p])
  note imp = less.prems(6) [unfolded implies_eq [of p q]]
  have equal: "expr_equals p q \<Longrightarrow> evaluate eng q ctx"
    using expr_equals_sound less.prems by blast
  have both: ?case if "\<exists>ps n. p = OrExpr ps n" using that
  proof (elim exE)
    fix ps n
    assume p: "p = OrExpr ps n"
    then consider "q = TrueExpr" | qs m where "q = OrExpr qs m" "allElementsIncluded ps qs"
      using imp by (auto split: if_splits expr.splits)
    then show ?case
    proof cases
      case 2
      with allElementsIncluded_sound [of ps qs eng cs F ctx] parts p less.prems(1) show ?thesis
        by (fastforce simp: children_def)
    qed (simp add: evaluate_defs)
  qed
  have conj: ?case if ex: "\<exists>ps n. p = AndExpr ps n" and nor: "\<not> is_or q" using ex
  proof (elim exE)
    fix ps n
    assume p: "p = AndExpr ps n"
    then consider "q = TrueExpr" | qs m where "q = AndExpr qs m" "allElementsIncluded qs ps"
      | x where "x \<in> set ps" "implies x q"
      using imp nor by (auto simp: is_or_def split: if_splits expr.splits)
    then show ?case
    proof cases
      case 2
      with allElementsIncluded_sound [of qs ps eng cs F ctx] parts p less.prems(1) show ?thesis
        by (fastforce simp: children_def)
    next
      case (3 x)
      with rec_p [of x] p less.prems(1) show ?thesis by (simp add: children_def)
    qed (simp add: evaluate_defs)
  qed
  have disj: ?case if ex: "\<exists>qs m. q = OrExpr qs m" and nor: "\<not> is_or p" "p \<noteq> FalseExpr" using ex
  proof (elim exE)
    fix qs m
    assume q: "q = OrExpr qs m"
    then obtain x where "x \<in> set qs" "implies p x"
      using imp nor by (auto simp: is_or_def split: if_splits expr.splits)
    with rec_q [of x] q show ?case by (auto simp: children_def)
  qed
  show ?case
  proof (cases "p = FalseExpr \<or> q = TrueExpr")
    case True
    with less.prems(1) show ?thesis by (auto simp: evaluate_defs)
  next
    case False
    show ?thesis
      using both conj disj equal False imp by (cases p; cases q) (auto simp: is_or_def)
  qed
qed

section \<open>Properties\<close>


definition sample_context :: IContext where
  "sample_context = (\<lambda>key. if key = ''a'' then Prim (Bool True) else Prim Undefined)"

text \<open>\<open>a && (b || !a)\<close> and the disjunction of the same operands.\<close>

definition sample_operands :: "expr option list" where
  "sample_operands = [Some (DefinedExpr ''a'' None), None,
     Some (OrExpr [DefinedExpr ''b'' None, NotExpr ''a'' None] None)]"

lemma sample_and: "ContextKeyExpr_and 5 Map.empty sample_operands =
    Some (Some (AndExpr [DefinedExpr ''a'' None, DefinedExpr ''b'' None] None))"
  by code_simp

lemma sample_or: "ContextKeyExpr_or 5 Map.empty sample_operands = Some (Some TrueExpr)"
  by code_simp



lemma sample_negate:
  "negate 5 Map.empty (OrExpr [DefinedExpr ''b'' None, EqualsExpr ''c'' (Str ''x'') None] None) =
     Some (AndExpr [NotExpr ''b'' (Some (DefinedExpr ''b'' None)),
                    NotEqualsExpr ''c'' (Str ''x'') (Some (EqualsExpr ''c'' (Str ''x'') None))] None)"
  by code_simp








text \<open>
  Two conditions of coherence are needed. Expressions with the same regular expression
  source and different flags are taken for duplicates: of two such operands of a disjunction
  only the first is kept, though each evaluates to the result of its own match. A comparison and
  its negation are both false where the key has no numeric value, but their disjunction is
  created as \<open>true\<close>.
\<close>

lemma normalisation_loses_meaning:
  "or_create 3 cs [Some (RegexExpr ''k'' (Some (''a'', ''''))), Some (RegexExpr ''k'' (Some (''a'', ''i'')))] None True
     = Some (Some (RegexExpr ''k'' (Some (''a'', ''''))))
   \<and> evaluate eng (RegexExpr ''k'' (Some (''a'', ''''))) (\<lambda>_. Prim (Str s)) = regexp_test eng ''a'' '''' s
   \<and> evaluate eng (RegexExpr ''k'' (Some (''a'', ''i''))) (\<lambda>_. Prim (Str s)) = regexp_test eng ''a'' ''i'' s
   \<and> or_create 3 cs [Some (ContextKeyExpr_greater ''k'' (Num (Fin 5))),
                     Some (ContextKeyExpr_smallerEquals ''k'' (Num (Fin 5)))] None True = Some (Some TrueExpr)
   \<and> \<not> evaluate eng (ContextKeyExpr_greater ''k'' (Num (Fin 5))) (\<lambda>_. Prim Undefined)
   \<and> \<not> evaluate eng (ContextKeyExpr_smallerEquals ''k'' (Num (Fin 5))) (\<lambda>_. Prim Undefined)"
proof -
  have nan: "parseFloat eng (Prim Undefined) = NaN" by code_simp
  have 1: "or_create 3 cs [Some (RegexExpr ''k'' (Some (''a'', ''''))), Some (RegexExpr ''k'' (Some (''a'', ''i'')))] None True
     = Some (Some (RegexExpr ''k'' (Some (''a'', ''''))))"
    by (simp add: numeral_3_eq_3 ContextKeyOrExpr_normalizeArr_def or_collect_eq ContextKeyRegexExpr_cmp_def
        ContextKeyRegexExpr_equals_def regexp_source_def Let_def)
  have 2: "or_create 3 cs [Some (ContextKeyExpr_greater ''k'' (Num (Fin 5))),
      Some (ContextKeyExpr_smallerEquals ''k'' (Num (Fin 5)))] None True = Some (Some TrueExpr)"
    by (simp add: numeral_3_eq_3 ContextKeyOrExpr_normalizeArr_def or_collect_eq ContextKeyExpr_greater_def
        ContextKeyExpr_smallerEquals_def create_defs cmp_defs equals_defs negate_body_def negate_defs Let_def)
  show ?thesis
    using 1 2 nan by (simp add: ContextKeyExpr_greater_def ContextKeyExpr_smallerEquals_def create_defs
        evaluate_defs ContextKeyRegexExpr_evaluate_def num_le_def num_eq_def Let_def)
qed

text \<open>
  Memberships are sorted behind the disjunctions, so the distribution, which looks for a
  disjunction at the end only, stops before them: \<open>(a || b) && k in l\<close> is created as a
  conjunction with a disjunction inside. Its printed form, in which the disjunction has no
  parentheses, is that of a different expression, \<open>a || (b && k in l)\<close>, and the two differ
  where \<open>a\<close> holds and the membership does not.
\<close>

lemma membership_blocks_distribution:
  "ContextKeyExpr_and 6 Map.empty [Some (OrExpr [DefinedExpr ''a'' None, DefinedExpr ''b'' None] None),
                            Some (InExpr ''k'' ''l'')]
     = Some (Some (AndExpr [OrExpr [DefinedExpr ''a'' None, DefinedExpr ''b'' None] None, InExpr ''k'' ''l''] None))
   \<and> serialize eng (AndExpr [OrExpr [DefinedExpr ''a'' None, DefinedExpr ''b'' None] None, InExpr ''k'' ''l''] None)
     = serialize eng (OrExpr [DefinedExpr ''a'' None, AndExpr [DefinedExpr ''b'' None, InExpr ''k'' ''l''] None] None)
   \<and> \<not> evaluate eng (AndExpr [OrExpr [DefinedExpr ''a'' None, DefinedExpr ''b'' None] None, InExpr ''k'' ''l''] None)
         sample_context
   \<and> evaluate eng (OrExpr [DefinedExpr ''a'' None, AndExpr [DefinedExpr ''b'' None, InExpr ''k'' ''l''] None] None)
         sample_context"
proof (intro conjI)
  show "ContextKeyExpr_and 6 Map.empty [Some (OrExpr [DefinedExpr ''a'' None, DefinedExpr ''b'' None] None),
      Some (InExpr ''k'' ''l'')]
    = Some (Some (AndExpr [OrExpr [DefinedExpr ''a'' None, DefinedExpr ''b'' None] None, InExpr ''k'' ''l''] None))"
    by code_simp
qed (simp_all add: evaluate_defs ContextKeyInExpr_evaluate_def sample_context_def
    ContextKeyInExpr_serialize_def)

end
