(* ===== verification/ContextKeyScanner.thy ===== *)
theory ContextKeyScanner
  imports Prelude
begin

text \<open>
  \<open>src/patched-vscode/src/vs/platform/contextkey/common/scanner.ts\<close>: the scanner of \<open>when\<close> clauses.

  A token is one constructor per member of the union type \<open>Token\<close>; the discriminator of a
  constructor stands for the comparison with its \<open>TokenType\<close>. The scanner is a record of the
  fields of the class, and its methods are functions on that record. The texts of the hints are the
  ones of the source, before translation. The letters \<open>\p{L}\<close> of the string pattern are those with
  a code below 256.

  The properties at the end show that the tokens tile the input: nothing but blanks and characters
  that no token can start with is left out, and the error tokens are the reported errors.
\<close>

section \<open>Tokens\<close>

datatype token =
    is_LParen: TkLParen (offset: nat)
  | is_RParen: TkRParen (offset: nat)
  | is_Neg: TkNeg (offset: nat)
  | is_Eq: TkEq (offset: nat) (isTripleEq: bool)
  | is_NotEq: TkNotEq (offset: nat) (isTripleEq: bool)
  | is_Lt: TkLt (offset: nat)
  | is_LtEq: TkLtEq (offset: nat)
  | is_Gt: TkGt (offset: nat)
  | is_GtEq: TkGtEq (offset: nat)
  | is_RegexOp: TkRegexOp (offset: nat)
  | is_RegexStr: TkRegexStr (offset: nat) (lexeme: string)
  | is_True: TkTrue (offset: nat)
  | is_False: TkFalse (offset: nat)
  | is_In: TkIn (offset: nat)
  | is_Not: TkNot (offset: nat)
  | is_And: TkAnd (offset: nat)
  | is_Or: TkOr (offset: nat)
  | is_Str: TkStr (offset: nat) (lexeme: string)
  | is_QuotedStr: TkQuotedStr (offset: nat) (lexeme: string)
  | is_Error: TkError (offset: nat) (lexeme: string)
  | is_EOF: TkEOF (offset: nat)

record lexing_error =
  err_offset :: nat
  err_lexeme :: string
  err_additionalInfo :: "string option"

definition hintDidYouMean :: "string list \<Rightarrow> string option" where
  "hintDidYouMean meant =
     (case meant of
        [a] \<Rightarrow> Some (''Did you mean '' @ a @ ''?'')
      | [a, b] \<Rightarrow> Some (''Did you mean '' @ a @ '' or '' @ b @ ''?'')
      | [a, b, c] \<Rightarrow> Some (''Did you mean '' @ a @ '', '' @ b @ '' or '' @ c @ ''?'')
      | _ \<Rightarrow> None)"

abbreviation (input) quote :: char where
  "quote \<equiv> CHR 0x27"

abbreviation (input) backslash :: char where
  "backslash \<equiv> CHR 0x5C"

definition hintDidYouForgetToOpenOrCloseQuote :: string where
  "hintDidYouForgetToOpenOrCloseQuote = ''Did you forget to open or close the quote?''"

definition hintDidYouForgetToEscapeSlash :: string where
  "hintDidYouForgetToEscapeSlash =
     ''Did you forget to escape the '' @ [quote, CHR ''/'', quote]
     @ '' (slash) character? Put two backslashes before it to escape, e.g., ''
     @ [quote, backslash, backslash, CHR ''/'', quote, CHR ''.'']"

fun getLexeme :: "token \<Rightarrow> string" where
  "getLexeme (TkLParen _) = ''(''"
| "getLexeme (TkRParen _) = '')''"
| "getLexeme (TkNeg _) = ''!''"
| "getLexeme (TkEq _ triple) = (if triple then ''==='' else ''=='')"
| "getLexeme (TkNotEq _ triple) = (if triple then ''!=='' else ''!='')"
| "getLexeme (TkLt _) = ''<''"
| "getLexeme (TkLtEq _) = ''<=''"
| "getLexeme (TkGt _) = ''>=''"
| "getLexeme (TkGtEq _) = ''>=''"
| "getLexeme (TkRegexOp _) = ''=~''"
| "getLexeme (TkRegexStr _ s) = s"
| "getLexeme (TkTrue _) = ''true''"
| "getLexeme (TkFalse _) = ''false''"
| "getLexeme (TkIn _) = ''in''"
| "getLexeme (TkNot _) = ''not''"
| "getLexeme (TkAnd _) = ''&&''"
| "getLexeme (TkOr _) = ''||''"
| "getLexeme (TkStr _ s) = s"
| "getLexeme (TkQuotedStr _ s) = s"
| "getLexeme (TkError _ s) = s"
| "getLexeme (TkEOF _) = ''EOF''"

section \<open>The scanner\<close>

definition regexFlags :: "char set" where
  "regexFlags = {CHR ''i'', CHR ''g'', CHR ''s'', CHR ''m'', CHR ''y'', CHR ''u''}"

definition scanner_keywords :: "string \<rightharpoonup> (nat \<Rightarrow> token)" where
  "scanner_keywords = [''not'' \<mapsto> TkNot, ''in'' \<mapsto> TkIn, ''false'' \<mapsto> TkFalse, ''true'' \<mapsto> TkTrue]"

record scanner =
  sc_input :: string
  sc_start :: nat
  sc_current :: nat
  sc_tokens :: "token list"
  sc_errors :: "lexing_error list"

definition Scanner_new :: scanner where
  "Scanner_new = \<lparr>sc_input = [], sc_start = 0, sc_current = 0, sc_tokens = [], sc_errors = []\<rparr>"

definition Scanner_reset :: "string \<Rightarrow> scanner \<Rightarrow> scanner" where
  "Scanner_reset value s =
     s\<lparr>sc_input := value, sc_start := 0, sc_current := 0, sc_tokens := [], sc_errors := []\<rparr>"

definition sc_isAtEnd :: "scanner \<Rightarrow> bool" where
  "sc_isAtEnd s \<longleftrightarrow> sc_current s \<ge> length (sc_input s)"

text \<open>\<open>charCodeAt\<close>, \<open>None\<close> for \<open>NaN\<close>, and \<open>substring\<close> of indices that are not negative.\<close>

definition charCodeAt :: "string \<Rightarrow> nat \<Rightarrow> char option" where
  "charCodeAt s i = (if i < length s then Some (s ! i) else None)"

definition substring :: "string \<Rightarrow> nat \<Rightarrow> nat \<Rightarrow> string" where
  "substring s i j = take (max i j - min i j) (drop (min i j) s)"

definition sc_match :: "char \<Rightarrow> scanner \<Rightarrow> bool \<times> scanner" where
  "sc_match expected s =
     (if sc_isAtEnd s then (False, s)
      else if charCodeAt (sc_input s) (sc_current s) \<noteq> Some expected then (False, s)
      else (True, s\<lparr>sc_current := sc_current s + 1\<rparr>))"

definition sc_advance :: "scanner \<Rightarrow> char option \<times> scanner" where
  "sc_advance s = (charCodeAt (sc_input s) (sc_current s), s\<lparr>sc_current := sc_current s + 1\<rparr>)"

definition sc_peek :: "scanner \<Rightarrow> char option" where
  "sc_peek s = (if sc_isAtEnd s then Some (CHR 0x00) else charCodeAt (sc_input s) (sc_current s))"

definition sc_push :: "token \<Rightarrow> scanner \<Rightarrow> scanner" where
  "sc_push t s = s\<lparr>sc_tokens := sc_tokens s @ [t]\<rparr>"

definition sc_addToken :: "(nat \<Rightarrow> token) \<Rightarrow> scanner \<Rightarrow> scanner" where
  "sc_addToken type s = sc_push (type (sc_start s)) s"

definition sc_error :: "string option \<Rightarrow> scanner \<Rightarrow> scanner" where
  "sc_error additional s =
     (let off = sc_start s;
          lex = substring (sc_input s) (sc_start s) (sc_current s);
          errToken = TkError off lex;
          s = s\<lparr>sc_errors := sc_errors s @ [\<lparr>err_offset = off, err_lexeme = lex, err_additionalInfo = additional\<rparr>]\<rparr>
      in sc_push errToken s)"

text \<open>The characters of the pattern \<open>stringRe\<close>, and its longest match at an index.\<close>

definition is_letter :: "char \<Rightarrow> bool" where
  "is_letter c \<longleftrightarrow>
     (let n = (of_char c :: nat) in
      (65 \<le> n \<and> n \<le> 90) \<or> (97 \<le> n \<and> n \<le> 122) \<or> n = 170 \<or> n = 181 \<or> n = 186
      \<or> (192 \<le> n \<and> n \<le> 255 \<and> n \<noteq> 215 \<and> n \<noteq> 247))"

definition string_char :: "char \<Rightarrow> bool" where
  "string_char c \<longleftrightarrow>
     is_letter c \<or> (48 \<le> (of_char c :: nat) \<and> (of_char c :: nat) \<le> 57)
     \<or> c \<in> set ''_<>-./:*?+[]^,#@;%$'' \<or> c = backslash \<or> c = CHR 0x22"

definition stringRe_match :: "string \<Rightarrow> nat \<Rightarrow> string option" where
  "stringRe_match s i =
     (let m = takeWhile string_char (drop i s) in if m = [] then None else Some m)"

definition sc_string :: "scanner \<Rightarrow> scanner" where
  "sc_string s =
     (case stringRe_match (sc_input s) (sc_start s) of
        None \<Rightarrow> s
      | Some m \<Rightarrow>
          let s = s\<lparr>sc_current := sc_start s + length m\<rparr>;
              lex = substring (sc_input s) (sc_start s) (sc_current s)
          in case scanner_keywords lex of
               Some keyword \<Rightarrow> sc_addToken keyword s
             | None \<Rightarrow> sc_push (TkStr (sc_start s) lex) s)"

function quoted_loop :: "scanner \<Rightarrow> scanner" where
  "quoted_loop s =
     (if sc_peek s \<noteq> Some quote \<and> \<not> sc_isAtEnd s then quoted_loop (snd (sc_advance s)) else s)"
  by pat_completeness auto
termination
  by (relation "measure (\<lambda>s. length (sc_input s) - sc_current s)") (auto simp: sc_isAtEnd_def sc_advance_def)

declare quoted_loop.simps [simp del]

definition sc_quotedString :: "scanner \<Rightarrow> scanner" where
  "sc_quotedString s =
     (let s = quoted_loop s in
      if sc_isAtEnd s then sc_error (Some hintDidYouForgetToOpenOrCloseQuote) s
      else
        let s = snd (sc_advance s)
        in sc_push (TkQuotedStr (sc_start s + 1) (substring (sc_input s) (sc_start s + 1) (sc_current s - 1))) s)"

text \<open>
  The loop over the body of a regular expression, from index \<open>p\<close> on: the index behind the closing
  slash, \<open>None\<close> when the input ends before it. Then the loop over the flags.
\<close>

function regex_loop :: "string \<Rightarrow> nat \<Rightarrow> bool \<Rightarrow> bool \<Rightarrow> nat option" where
  "regex_loop input p inEscape inCharacterClass =
     (if p \<ge> length input then None
      else
        let ch = input ! p in
        if inEscape then regex_loop input (p + 1) False inCharacterClass
        else if ch = CHR ''/'' \<and> \<not> inCharacterClass then Some (p + 1)
        else if ch = CHR ''['' then regex_loop input (p + 1) inEscape True
        else if ch = backslash then regex_loop input (p + 1) True inCharacterClass
        else if ch = CHR '']'' then regex_loop input (p + 1) inEscape False
        else regex_loop input (p + 1) inEscape inCharacterClass)"
  by pat_completeness auto
termination
  by (relation "measure (\<lambda>(input, p, _). length input - p)") auto

declare regex_loop.simps [simp del]

function flags_loop :: "string \<Rightarrow> nat \<Rightarrow> nat" where
  "flags_loop input p =
     (if p < length input \<and> input ! p \<in> regexFlags then flags_loop input (p + 1) else p)"
  by pat_completeness auto
termination
  by (relation "measure (\<lambda>(input, p). length input - p)") auto

declare flags_loop.simps [simp del]

definition sc_regex :: "scanner \<Rightarrow> scanner" where
  "sc_regex s =
     (case regex_loop (sc_input s) (sc_current s) False False of
        None \<Rightarrow> sc_error (Some hintDidYouForgetToEscapeSlash)
                  (s\<lparr>sc_current := max (sc_current s) (length (sc_input s))\<rparr>)
      | Some p \<Rightarrow>
          let s = s\<lparr>sc_current := flags_loop (sc_input s) p\<rparr>;
              lex = substring (sc_input s) (sc_start s) (sc_current s)
          in sc_push (TkRegexStr (sc_start s) lex) s)"

text \<open>The body of the loop of \<open>scan\<close>, behind the assignment of \<open>_start\<close>, by the character read.\<close>

definition blank_char :: "char \<Rightarrow> bool" where
  "blank_char c \<longleftrightarrow> c \<in> {CHR '' '', CHR 0x0D, CHR 0x09, CHR 0x0A, CHR 0xA0}"

definition scan_char :: "char \<Rightarrow> scanner \<Rightarrow> scanner" where
  "scan_char ch s =
     (if ch = CHR ''('' then sc_addToken TkLParen s
      else if ch = CHR '')'' then sc_addToken TkRParen s
      else if ch = CHR ''!'' then
        (case sc_match (CHR ''='') s of
           (True, s) \<Rightarrow> (case sc_match (CHR ''='') s of (triple, s) \<Rightarrow> sc_push (TkNotEq (sc_start s) triple) s)
         | (False, s) \<Rightarrow> sc_addToken TkNeg s)
      else if ch = quote then sc_quotedString s
      else if ch = CHR ''/'' then sc_regex s
      else if ch = CHR ''='' then
        (case sc_match (CHR ''='') s of
           (True, s) \<Rightarrow> (case sc_match (CHR ''='') s of (triple, s) \<Rightarrow> sc_push (TkEq (sc_start s) triple) s)
         | (False, s) \<Rightarrow>
             (case sc_match (CHR ''~'') s of
                (True, s) \<Rightarrow> sc_addToken TkRegexOp s
              | (False, s) \<Rightarrow> sc_error (hintDidYouMean [''=='', ''=~'']) s))
      else if ch = CHR ''<'' then
        (case sc_match (CHR ''='') s of (b, s) \<Rightarrow> sc_addToken (if b then TkLtEq else TkLt) s)
      else if ch = CHR ''>'' then
        (case sc_match (CHR ''='') s of (b, s) \<Rightarrow> sc_addToken (if b then TkGtEq else TkGt) s)
      else if ch = CHR ''&'' then
        (case sc_match (CHR ''&'') s of
           (True, s) \<Rightarrow> sc_addToken TkAnd s
         | (False, s) \<Rightarrow> sc_error (hintDidYouMean [''&&'']) s)
      else if ch = CHR ''|'' then
        (case sc_match (CHR ''|'') s of
           (True, s) \<Rightarrow> sc_addToken TkOr s
         | (False, s) \<Rightarrow> sc_error (hintDidYouMean [''||'']) s)
      else if blank_char ch then s
      else sc_string s)"

definition scan_step :: "scanner \<Rightarrow> scanner" where
  "scan_step s =
     (let s = s\<lparr>sc_start := sc_current s\<rparr> in
      case sc_advance s of
        (Some ch, s) \<Rightarrow> scan_char ch s
      | (None, s) \<Rightarrow> s)"

section \<open>What one step reads\<close>

text \<open>
  The text a token stands for, where it starts and where it ends. It is the lexeme, except for the
  quotes of a quoted string and for \<open>>\<close>, whose lexeme \<open>getLexeme\<close> gives as \<open>>=\<close>.
\<close>

definition token_text :: "token \<Rightarrow> string" where
  "token_text t =
     (case t of
        TkQuotedStr _ l \<Rightarrow> [quote] @ l @ [quote]
      | TkGt _ \<Rightarrow> ''>''
      | TkEOF _ \<Rightarrow> []
      | _ \<Rightarrow> getLexeme t)"

definition token_start :: "token \<Rightarrow> nat" where
  "token_start t = (if is_QuotedStr t then offset t - 1 else offset t)"

definition token_end :: "token \<Rightarrow> nat" where
  "token_end t = token_start t + length (token_text t)"

text \<open>The characters that are skipped: blanks, and those no token starts with.\<close>

definition skipped :: "char \<Rightarrow> bool" where
  "skipped c \<longleftrightarrow> blank_char c \<or> (\<not> string_char c \<and> c \<notin> set ''()!/=<>&|'' \<and> c \<noteq> quote)"

definition error_token :: "lexing_error \<Rightarrow> token" where
  "error_token e = TkError (err_offset e) (err_lexeme e)"

definition reads :: "string \<Rightarrow> nat \<Rightarrow> nat \<Rightarrow> token list \<Rightarrow> bool" where
  "reads input i j ts \<longleftrightarrow> i < j \<and> j \<le> length input \<and>
     (case ts of
        [] \<Rightarrow> j = Suc i \<and> skipped (input ! i)
      | [t] \<Rightarrow> token_start t = i \<and> token_text t = substring input i j \<and> \<not> is_EOF t
      | _ \<Rightarrow> False)"

definition scans :: "scanner \<Rightarrow> scanner \<Rightarrow> bool" where
  "scans s s' \<longleftrightarrow> sc_input s' = sc_input s \<and>
     (\<exists>ts es. sc_tokens s' = sc_tokens s @ ts \<and> sc_errors s' = sc_errors s @ es \<and>
        reads (sc_input s) (sc_start s) (sc_current s') ts \<and> filter is_Error ts = map error_token es)"

lemma substring_same [simp]: "substring s i i = []"
  by (simp add: substring_def)

lemma substring_Suc: "i \<le> j \<Longrightarrow> j < length s \<Longrightarrow> substring s i (Suc j) = substring s i j @ [s ! j]"
  by (simp add: substring_def max_def min_def Suc_diff_le take_Suc_conv_app_nth)

lemma substring_append:
  assumes "i \<le> j" "j \<le> k"
  shows "substring s i j @ substring s j k = substring s i k"
proof -
  have "take (k - i) (drop i s) = take (j - i) (drop i s) @ take (k - j) (drop (j - i) (drop i s))"
    using take_add [of "j - i" "k - j" "drop i s"] assms by simp
  with assms show ?thesis by (simp add: substring_def max_def min_def add.commute)
qed

lemma length_substring: "i \<le> j \<Longrightarrow> j \<le> length s \<Longrightarrow> length (substring s i j) = j - i"
  by (auto simp: substring_def max_def min_def)

lemma sc_match_eq:
  "sc_match c s = (if sc_current s < length (sc_input s) \<and> sc_input s ! sc_current s = c
     then (True, s\<lparr>sc_current := Suc (sc_current s)\<rparr>) else (False, s))"
  by (simp add: sc_match_def sc_isAtEnd_def charCodeAt_def)

lemmas sc_defs = sc_addToken_def sc_push_def sc_error_def Let_def

lemma quoted_loop_stops:
  assumes "sc_current s \<le> length (sc_input s)"
  shows "\<exists>j. quoted_loop s = s\<lparr>sc_current := j\<rparr> \<and> sc_current s \<le> j \<and> j \<le> length (sc_input s)
    \<and> (j < length (sc_input s) \<longrightarrow> sc_input s ! j = quote)"
  using assms
proof (induction s rule: quoted_loop.induct)
  case (1 s)
  show ?case
  proof (cases "sc_peek s \<noteq> Some quote \<and> \<not> sc_isAtEnd s")
    case True
    with 1 obtain j where "quoted_loop (snd (sc_advance s)) = snd (sc_advance s)\<lparr>sc_current := j\<rparr>"
      "Suc (sc_current s) \<le> j" "j \<le> length (sc_input s)" "j < length (sc_input s) \<longrightarrow> sc_input s ! j = quote"
      by (auto simp: sc_advance_def sc_isAtEnd_def)
    with True show ?thesis
      by (intro exI [of _ j]) (simp add: quoted_loop.simps [of s] sc_advance_def)
  next
    case False
    with 1(2) show ?thesis
      by (intro exI [of _ "sc_current s"])
        (auto simp: quoted_loop.simps [of s] sc_peek_def sc_isAtEnd_def charCodeAt_def split: if_splits)
  qed
qed

lemma regex_loop_bounds: "regex_loop input p e c = Some q \<Longrightarrow> p < q \<and> q \<le> length input"
proof (induction input p e c rule: regex_loop.induct)
  case (1 input p e c)
  then show ?case
    by (subst (asm) (6) regex_loop.simps) (auto simp: Let_def split: if_splits)
qed

lemma flags_loop_bounds: "p \<le> length input \<Longrightarrow> p \<le> flags_loop input p \<and> flags_loop input p \<le> length input"
proof (induction input p rule: flags_loop.induct)
  case (1 input p)
  then show ?case by (subst flags_loop.simps, subst (2) flags_loop.simps) auto
qed

text \<open>Every branch of a step, from the state behind the first character.\<close>

definition started :: "scanner \<Rightarrow> bool" where
  "started s \<longleftrightarrow> sc_current s = Suc (sc_start s) \<and> sc_start s < length (sc_input s)"

lemma substring_one: "i < length s \<Longrightarrow> substring s i (Suc i) = [s ! i]"
  by (simp add: substring_Suc)

lemma scans_push:
  assumes "sc_start s < sc_current s" "sc_current s \<le> length (sc_input s)" "token_start t = sc_start s"
    and "token_text t = substring (sc_input s) (sc_start s) (sc_current s)" "\<not> is_Error t" "\<not> is_EOF t"
  shows "scans s (sc_push t s)"
  using assms by (auto simp: scans_def reads_def sc_push_def intro!: exI [of _ "[t]"] exI [of _ "[]"])

lemma scans_error:
  assumes "sc_start s < sc_current s" "sc_current s \<le> length (sc_input s)"
  shows "scans s (sc_error h s)"
  using assms unfolding scans_def
  by (intro conjI exI [of _ "[TkError (sc_start s) (substring (sc_input s) (sc_start s) (sc_current s))]"]
      exI [of _ "[\<lparr>err_offset = sc_start s,
        err_lexeme = substring (sc_input s) (sc_start s) (sc_current s), err_additionalInfo = h\<rparr>]"])
    (simp_all add: sc_defs reads_def token_start_def token_text_def error_token_def)

lemma scans_moved: "scans (s\<lparr>sc_current := j\<rparr>) s' \<longleftrightarrow> scans s s'"
  by (simp add: scans_def)

lemma scans_skip: "started s \<Longrightarrow> skipped (sc_input s ! sc_start s) \<Longrightarrow> scans s s"
  by (auto simp: scans_def reads_def started_def intro: exI [of _ "[]"])

lemma sc_string_scans:
  assumes "started s" "string_char (sc_input s ! sc_start s)"
  shows "scans s (sc_string s)"
proof -
  let ?m = "takeWhile string_char (drop (sc_start s) (sc_input s))"
  let ?s = "s\<lparr>sc_current := sc_start s + length ?m\<rparr>"
  have ne: "?m \<noteq> []" using assms by (simp add: started_def Cons_nth_drop_Suc [symmetric])
  have le: "sc_start s + length ?m \<le> length (sc_input s)"
    using length_takeWhile_le [of string_char "drop (sc_start s) (sc_input s)"] assms(1)
    by (auto simp: started_def)
  have m: "substring (sc_input s) (sc_start s) (sc_start s + length ?m) = ?m"
    by (simp add: substring_def takeWhile_eq_take [symmetric])
  have push: "scans ?s (sc_push t ?s)" if "token_start t = sc_start s" "token_text t = ?m" "\<not> is_Error t" "\<not> is_EOF t" for t
    using that ne le m by (intro scans_push) simp_all
  have "sc_string s =
      (case scanner_keywords ?m of Some keyword \<Rightarrow> sc_addToken keyword ?s | None \<Rightarrow> sc_push (TkStr (sc_start s) ?m) ?s)"
    using ne by (simp add: sc_string_def stringRe_match_def m Let_def split: option.split)
  moreover have "scans ?s (case scanner_keywords ?m of Some keyword \<Rightarrow> sc_addToken keyword ?s
      | None \<Rightarrow> sc_push (TkStr (sc_start s) ?m) ?s)"
    using push by (auto simp: scanner_keywords_def sc_addToken_def token_start_def token_text_def split: if_splits)
  ultimately show ?thesis by (simp add: scans_moved)
qed

lemma sc_quotedString_scans:
  assumes "started s" "sc_input s ! sc_start s = quote"
  shows "scans s (sc_quotedString s)"
proof -
  obtain j where j: "quoted_loop s = s\<lparr>sc_current := j\<rparr>" "Suc (sc_start s) \<le> j" "j \<le> length (sc_input s)"
    "j < length (sc_input s) \<longrightarrow> sc_input s ! j = quote"
    using quoted_loop_stops [of s] assms(1) by (auto simp: started_def)
  show ?thesis
  proof (cases "j = length (sc_input s)")
    case True
    with j have "sc_quotedString s = sc_error (Some hintDidYouForgetToOpenOrCloseQuote) (s\<lparr>sc_current := j\<rparr>)"
      by (simp add: sc_quotedString_def sc_isAtEnd_def)
    with scans_error [of "s\<lparr>sc_current := j\<rparr>"] j show ?thesis by (simp add: scans_moved)
  next
    case False
    let ?s = "s\<lparr>sc_current := Suc j\<rparr>" and ?l = "substring (sc_input s) (Suc (sc_start s)) j"
    have "sc_quotedString s = sc_push (TkQuotedStr (Suc (sc_start s)) ?l) ?s"
      using j False by (simp add: sc_quotedString_def sc_isAtEnd_def sc_advance_def Let_def)
    moreover have "substring (sc_input s) (sc_start s) (Suc j) = [quote] @ ?l @ [quote]"
      using j False assms substring_append [of "sc_start s" "Suc (sc_start s)" j "sc_input s"]
      by (simp add: substring_Suc started_def)
    ultimately show ?thesis
      using scans_push [of ?s "TkQuotedStr (Suc (sc_start s)) ?l"] j False
      by (simp add: scans_moved token_start_def token_text_def)
  qed
qed

lemma sc_regex_scans:
  assumes "started s"
  shows "scans s (sc_regex s)"
proof (cases "regex_loop (sc_input s) (sc_current s) False False")
  case None
  then show ?thesis
    using assms scans_error [of "s\<lparr>sc_current := length (sc_input s)\<rparr>"]
    by (simp add: sc_regex_def started_def scans_moved max_def)
next
  case (Some p)
  let ?j = "flags_loop (sc_input s) p"
  have "sc_current s < p" "p \<le> ?j" "?j \<le> length (sc_input s)"
    using regex_loop_bounds [OF Some] flags_loop_bounds [of p "sc_input s"] by auto
  with Some assms show ?thesis
    using scans_push [of "s\<lparr>sc_current := ?j\<rparr>" "TkRegexStr (sc_start s) (substring (sc_input s) (sc_start s) ?j)"]
    by (simp add: sc_regex_def started_def scans_moved Let_def token_start_def token_text_def)
qed

lemma scan_char_scans:
  assumes "started s"
  shows "scans s (scan_char (sc_input s ! sc_start s) s)"
proof -
  let ?i = "sc_start s" and ?in = "sc_input s"
  note st = assms [unfolded started_def]
  have one: "substring ?in ?i (Suc ?i) = [?in ! ?i]" using st by (simp add: substring_one)
  have two: "substring ?in ?i (Suc (Suc ?i)) = [?in ! ?i, ?in ! Suc ?i]" if "Suc ?i < length ?in"
    using st that by (simp add: substring_Suc)
  have three: "substring ?in ?i (Suc (Suc (Suc ?i))) = [?in ! ?i, ?in ! Suc ?i, ?in ! Suc (Suc ?i)]"
    if "Suc (Suc ?i) < length ?in" using st that by (simp add: substring_Suc)
  have push: "scans s (sc_push t (s\<lparr>sc_current := j\<rparr>))"
    if "?i < j" "j \<le> length ?in" "token_start t = ?i" "token_text t = substring ?in ?i j" "\<not> is_Error t" "\<not> is_EOF t" for t j
    using scans_push [of "s\<lparr>sc_current := j\<rparr>" t] that by (simp add: scans_moved)
  have push1: "scans s (sc_push t s)"
    if "token_start t = ?i" "token_text t = [?in ! ?i]" "\<not> is_Error t" "\<not> is_EOF t" for t
    using scans_push [of s t] that st one by simp
  have err: "scans s (sc_error h s)" for h using scans_error [of s h] st by simp
  consider "?in ! ?i \<in> set ''()''" | "?in ! ?i = CHR ''!''" | "?in ! ?i = quote" | "?in ! ?i = CHR ''/''" | "?in ! ?i = CHR ''=''"
    | "?in ! ?i \<in> set ''<>''" | "?in ! ?i \<in> set ''&|''" | "blank_char (?in ! ?i)"
    | "?in ! ?i \<notin> set ''()!/=<>&|''" "?in ! ?i \<noteq> quote" "\<not> blank_char (?in ! ?i)" by fastforce
  then show ?thesis
  proof cases
    case 1
    then show ?thesis
      using push1 by (auto simp: scan_char_def sc_addToken_def token_start_def token_text_def)
  next
    case 2
    then show ?thesis
      using push1 push two three st
      by (auto simp: scan_char_def sc_match_eq sc_addToken_def token_start_def token_text_def)
  next
    case 3
    then show ?thesis using sc_quotedString_scans [OF assms] by (simp add: scan_char_def)
  next
    case 4
    then show ?thesis using sc_regex_scans [OF assms] by (simp add: scan_char_def)
  next
    case 5
    then show ?thesis
      using push1 push err two three st
      by (auto simp: scan_char_def sc_match_eq sc_addToken_def token_start_def token_text_def)
  next
    case 6
    then show ?thesis
      using push1 push two st
      by (auto simp: scan_char_def sc_match_eq sc_addToken_def token_start_def token_text_def)
  next
    case 7
    then show ?thesis
      using push err two st
      by (auto simp: scan_char_def sc_match_eq sc_addToken_def token_start_def token_text_def)
  next
    case 8
    then have "scan_char (?in ! ?i) s = s" "skipped (?in ! ?i)"
      by (auto simp: scan_char_def blank_char_def skipped_def)
    then show ?thesis using scans_skip [OF assms] by simp
  next
    case 9
    then have "scan_char (?in ! ?i) s = sc_string s" by (simp add: scan_char_def)
    moreover have "scans s (sc_string s)"
    proof (cases "string_char (?in ! ?i)")
      case False
      then have "sc_string s = s"
        using st by (simp add: sc_string_def stringRe_match_def Cons_nth_drop_Suc [symmetric])
      moreover have "skipped (?in ! ?i)" using 9 False by (simp add: skipped_def)
      ultimately show ?thesis using scans_skip [OF assms] by simp
    qed (rule sc_string_scans [OF assms])
    ultimately show ?thesis by simp
  qed
qed

lemma scan_step_scans:
  assumes "\<not> sc_isAtEnd s"
  shows "scans (s\<lparr>sc_start := sc_current s\<rparr>) (scan_step s)"
proof -
  let ?s = "s\<lparr>sc_start := sc_current s, sc_current := Suc (sc_current s)\<rparr>"
  have "started ?s" using assms by (simp add: started_def sc_isAtEnd_def)
  moreover have "scan_step s = scan_char (sc_input s ! sc_current s) ?s"
    using assms by (simp add: scan_step_def sc_advance_def charCodeAt_def sc_isAtEnd_def)
  ultimately show ?thesis using scan_char_scans [of ?s] scans_moved [where s = "s\<lparr>sc_start := sc_current s\<rparr>"] by simp
qed

section \<open>The whole scan\<close>

lemma scan_step_moves:
  assumes "\<not> sc_isAtEnd s"
  shows "sc_input (scan_step s) = sc_input s" "sc_current s < sc_current (scan_step s)"
    "sc_current (scan_step s) \<le> length (sc_input s)"
  using scan_step_scans [OF assms] by (auto simp: scans_def reads_def)

function scan_loop :: "scanner \<Rightarrow> scanner" where
  "scan_loop s = (if \<not> sc_isAtEnd s then scan_loop (scan_step s) else s)"
  by pat_completeness auto
termination
proof (relation "measure (\<lambda>s. length (sc_input s) - sc_current s)", simp)
  fix s
  assume "\<not> sc_isAtEnd s"
  with scan_step_moves [OF this] show "(scan_step s, s) \<in> measure (\<lambda>s. length (sc_input s) - sc_current s)"
    by (simp add: sc_isAtEnd_def)
qed

declare scan_loop.simps [simp del]

definition Scanner_scan :: "scanner \<Rightarrow> token list \<times> scanner" where
  "Scanner_scan s =
     (let s = scan_loop s;
          s = s\<lparr>sc_start := sc_current s\<rparr>;
          s = sc_addToken TkEOF s
      in (sc_tokens s, s))"

text \<open>
  \<open>laid_out input i j ts\<close>: the text of \<open>input\<close> from index \<open>i\<close> to index \<open>j\<close> consists of the texts of the
  tokens \<open>ts\<close>, each where its offset says, in this order, and of skipped characters between them.
\<close>

fun laid_out :: "string \<Rightarrow> nat \<Rightarrow> nat \<Rightarrow> token list \<Rightarrow> bool" where
  "laid_out input i j [] \<longleftrightarrow> i \<le> j \<and> j \<le> length input \<and> list_all skipped (substring input i j)"
| "laid_out input i j (t # ts) \<longleftrightarrow>
     i \<le> token_start t \<and> token_end t \<le> length input \<and> list_all skipped (substring input i (token_start t))
     \<and> substring input (token_start t) (token_end t) = token_text t \<and> laid_out input (token_end t) j ts"

lemma laid_out_le: "laid_out input i j ts \<Longrightarrow> i \<le> j \<and> j \<le> length input"
  by (induction ts arbitrary: i) (fastforce simp: token_end_def)+

lemma laid_out_reads:
  assumes "laid_out input i j ts" "reads input j k us"
  shows "laid_out input i k (ts @ us)"
  using assms(1)
proof (induction ts arbitrary: i)
  case Nil
  then have le: "i \<le> j" and gap: "list_all skipped (substring input i j)" by simp_all
  show ?case
  proof (cases us)
    case Nil
    with assms(2) have k: "k = Suc j" "j < length input" "skipped (input ! j)" by (auto simp: reads_def)
    then have "substring input i k = substring input i j @ [input ! j]" using le by (simp add: substring_Suc)
    with Nil gap le k show ?thesis by simp
  next
    case (Cons t vs)
    with assms(2) have t: "vs = []" "token_start t = j" "token_text t = substring input j k" "j < k" "k \<le> length input"
      by (cases vs; simp add: reads_def)+
    then have "token_end t = k" by (simp add: token_end_def length_substring)
    with t Cons le gap show ?thesis by simp
  qed
qed simp

lemma scan_loop_laid_out:
  assumes "laid_out (sc_input s) 0 (sc_current s) (sc_tokens s)" "filter is_Error (sc_tokens s) = map error_token (sc_errors s)"
    and "list_all (\<lambda>t. \<not> is_EOF t) (sc_tokens s)"
  shows "let s' = scan_loop s in sc_input s' = sc_input s \<and> sc_current s' = length (sc_input s)
    \<and> laid_out (sc_input s) 0 (length (sc_input s)) (sc_tokens s')
    \<and> filter is_Error (sc_tokens s') = map error_token (sc_errors s') \<and> list_all (\<lambda>t. \<not> is_EOF t) (sc_tokens s')"
  using assms
proof (induction s rule: scan_loop.induct)
  case (1 s)
  show ?case
  proof (cases "sc_isAtEnd s")
    case True
    with 1(2-) laid_out_le [OF 1(2)] show ?thesis
      by (simp add: scan_loop.simps [of s] sc_isAtEnd_def Let_def)
  next
    case False
    from scan_step_scans [OF False] obtain ts es where step: "sc_input (scan_step s) = sc_input s"
      "sc_tokens (scan_step s) = sc_tokens s @ ts" "sc_errors (scan_step s) = sc_errors s @ es"
      "reads (sc_input s) (sc_current s) (sc_current (scan_step s)) ts" "filter is_Error ts = map error_token es"
      by (auto simp: scans_def)
    have "list_all (\<lambda>t. \<not> is_EOF t) ts" using step(4) by (cases ts rule: remdups_adj.cases) (auto simp: reads_def)
    with 1(1) [OF False] 1(2-) step laid_out_reads [OF 1(2) step(4)] False show ?thesis
      by (simp add: scan_loop.simps [of s])
  qed
qed

lemma scan_result:
  "\<exists>ts. fst (Scanner_scan (Scanner_reset input s)) = ts @ [TkEOF (length input)]
     \<and> laid_out input 0 (length input) ts \<and> list_all (\<lambda>t. \<not> is_EOF t) ts
     \<and> filter is_Error ts = map error_token (sc_errors (snd (Scanner_scan (Scanner_reset input s))))"
proof -
  let ?s = "scan_loop (Scanner_reset input s)"
  have "sc_input ?s = input \<and> sc_current ?s = length input \<and> laid_out input 0 (length input) (sc_tokens ?s)
      \<and> filter is_Error (sc_tokens ?s) = map error_token (sc_errors ?s) \<and> list_all (\<lambda>t. \<not> is_EOF t) (sc_tokens ?s)"
    using scan_loop_laid_out [of "Scanner_reset input s"] by (simp add: Scanner_reset_def Let_def)
  then show ?thesis
    by (intro exI [of _ "sc_tokens ?s"]) (simp add: Scanner_scan_def sc_defs)
qed

text \<open>
  C6. The scanner always ends, and its tokens tile the input: every token stands where its offset
  says and has the text found there, in order and without overlaps; between them there are only
  blanks and characters no token starts with; one end token closes the list; and the error tokens
  are exactly the errors that are reported.
\<close>

theorem scan_tiles_input:
  "\<exists>ts. fst (Scanner_scan (Scanner_reset input s)) = ts @ [TkEOF (length input)]
     \<and> laid_out input 0 (length input) ts \<and> list_all (\<lambda>t. \<not> is_EOF t) ts
     \<and> filter is_Error ts = map error_token (sc_errors (snd (Scanner_scan (Scanner_reset input s))))"
  by (rule scan_result)

end
