(* ===== verification/ContextKeyParser.thy ===== *)
theory ContextKeyParser
  imports ContextKeyProps ContextKeyScanner
begin

text \<open>
  The class \<open>Parser\<close> of \<open>src/patched-vscode/src/vs/platform/contextkey/common/contextkey.ts\<close>, which
  reads \<open>when\<close> clauses, with \<open>deserialize\<close> and \<open>validateWhenClauses\<close>.

  The state is the record \<open>parser\<close> of the fields of the class. A method is a function of type
  \<open>'a parse\<close>: it ends with a result or by throwing, in a new state. What is thrown is the parse error,
  or the type error of reading a field of a token that does not exist. \<open>None\<close> is a bound on the depth
  of calls that was too small: of the descent of the parser, of its loops and of the operations on
  expressions, which all take the same bound. The constructor \<open>new RegExp\<close> of the engine is an argument,
  \<open>None\<close> where it throws; the configuration is a field of the environment \<open>penv\<close>.
\<close>

section \<open>State and effects\<close>

record parsing_error =
  pe_message :: string
  pe_offset :: nat
  pe_lexeme :: string
  pe_additionalInfo :: "string option"

record parser =
  pa_scanner :: scanner
  pa_tokens :: "token list"
  pa_current :: nat
  pa_parsingErrors :: "parsing_error list"

record penv =
  regexParsingWithErrorRecovery :: bool
  new_RegExp :: "string \<Rightarrow> string option \<Rightarrow> regexp option"
  constants :: consts_map

definition Parser_new :: parser where
  "Parser_new = \<lparr>pa_scanner = Scanner_new, pa_tokens = [], pa_current = 0, pa_parsingErrors = []\<rparr>"

datatype parse_exn = Parse_error | Type_error

type_synonym 'a parse = "parser \<Rightarrow> ((parse_exn + 'a) \<times> parser) option"

definition preturn :: "'a \<Rightarrow> 'a parse" where
  "preturn x p = Some (Inr x, p)"

definition pthrow :: "parse_exn \<Rightarrow> 'a parse" where
  "pthrow e p = Some (Inl e, p)"

definition pbind :: "'a parse \<Rightarrow> ('a \<Rightarrow> 'b parse) \<Rightarrow> 'b parse" where
  "pbind m f p =
     (case m p of
        None \<Rightarrow> None
      | Some (Inl e, p') \<Rightarrow> Some (Inl e, p')
      | Some (Inr x, p') \<Rightarrow> f x p')"

text \<open>A computation on expressions that may exceed its bound.\<close>

definition plift :: "'a option \<Rightarrow> 'a parse" where
  "plift r p = (case r of None \<Rightarrow> None | Some x \<Rightarrow> Some (Inr x, p))"

section \<open>Messages\<close>

definition in_quotes :: "string \<Rightarrow> string" where
  "in_quotes s = [quote] @ s @ [quote]"

definition errorEmptyString :: string where
  "errorEmptyString = ''Empty context key expression''"

definition hintEmptyString :: string where
  "hintEmptyString = ''Did you forget to write an expression? You can also put '' @ in_quotes ''false'' @ '' or ''
     @ in_quotes ''true'' @ '' to always evaluate to false or true, respectively.''"

definition errorNoInAfterNot :: string where
  "errorNoInAfterNot = in_quotes ''in'' @ '' after '' @ in_quotes ''not'' @ ''.''"

definition errorClosingParenthesis :: string where
  "errorClosingParenthesis = ''closing parenthesis '' @ in_quotes '')''"

definition errorUnexpectedToken :: string where
  "errorUnexpectedToken = ''Unexpected token''"

definition hintUnexpectedToken :: string where
  "hintUnexpectedToken = ''Did you forget to put && or || before the token?''"

definition errorUnexpectedEOF :: string where
  "errorUnexpectedEOF = ''Unexpected end of expression''"

definition hintUnexpectedEOF :: string where
  "hintUnexpectedEOF = ''Did you forget to put a context key?''"

definition expectedNegated :: string where
  "expectedNegated = ''KEY | true | false | '' @ in_quotes ''('' @ '' expression '' @ in_quotes '')''"

definition expectedPrimary :: string where
  "expectedPrimary =
     ''true | false | KEY '' @ [CHR 0x0A, CHR 0x09] @ ''| KEY '' @ in_quotes ''=~'' @ '' REGEX '' @ [CHR 0x0A, CHR 0x09]
     @ ''| KEY ('' @ in_quotes ''=='' @ '' | '' @ in_quotes ''!='' @ '' | '' @ in_quotes ''<'' @ '' | ''
     @ in_quotes ''<='' @ '' | '' @ in_quotes ''>'' @ '' | '' @ in_quotes ''>='' @ '' | '' @ in_quotes ''in'' @ '' | ''
     @ in_quotes ''not'' @ '' '' @ in_quotes ''in'' @ '') value''"

section \<open>Reading tokens\<close>

definition pa_peek :: "token parse" where
  "pa_peek p =
     (if pa_current p < length (pa_tokens p) then Some (Inr (pa_tokens p ! pa_current p), p)
      else Some (Inl Type_error, p))"

definition pa_previous :: "token parse" where
  "pa_previous p =
     (if 0 < pa_current p \<and> pa_current p - 1 < length (pa_tokens p)
      then Some (Inr (pa_tokens p ! (pa_current p - 1)), p)
      else Some (Inl Type_error, p))"

definition pa_isAtEnd :: "bool parse" where
  "pa_isAtEnd = pbind pa_peek (\<lambda>t. preturn (is_EOF t))"

definition pa_advance :: "unit parse" where
  "pa_advance =
     pbind pa_isAtEnd (\<lambda>atEnd p. Some (Inr (), if atEnd then p else p\<lparr>pa_current := pa_current p + 1\<rparr>))"

definition pa_check :: "(token \<Rightarrow> bool) \<Rightarrow> bool parse" where
  "pa_check type = pbind pa_peek (\<lambda>t. preturn (type t))"

definition pa_matchOne :: "(token \<Rightarrow> bool) \<Rightarrow> bool parse" where
  "pa_matchOne type =
     pbind (pa_check type) (\<lambda>b. if b then pbind pa_advance (\<lambda>_. preturn True) else preturn False)"

definition push_parsingError :: "parsing_error \<Rightarrow> parser \<Rightarrow> parser" where
  "push_parsingError e p = p\<lparr>pa_parsingErrors := pa_parsingErrors p @ [e]\<rparr>"

text \<open>\<open>throw this._errExpectedButGot(expected, got)\<close>.\<close>

definition throw_errExpectedButGot :: "string \<Rightarrow> token \<Rightarrow> 'a parse" where
  "throw_errExpectedButGot expected got p =
     (let message = ''Expected: '' @ expected @ [CHR 0x0A] @ ''Received: '' @ in_quotes (getLexeme got) @ ''.'';
          off = offset got;
          lex = getLexeme got
      in pthrow Parse_error
           (push_parsingError \<lparr>pe_message = message, pe_offset = off, pe_lexeme = lex, pe_additionalInfo = None\<rparr> p))"

definition pa_consume :: "(token \<Rightarrow> bool) \<Rightarrow> string \<Rightarrow> unit parse" where
  "pa_consume type message =
     pbind (pa_check type) (\<lambda>b.
       if b then pa_advance else pbind pa_peek (throw_errExpectedButGot message))"

definition pa_value :: "string parse" where
  "pa_value =
     pbind pa_peek (\<lambda>t.
       case t of
         TkStr _ l \<Rightarrow> pbind pa_advance (\<lambda>_. preturn l)
       | TkQuotedStr _ l \<Rightarrow> pbind pa_advance (\<lambda>_. preturn l)
       | TkTrue _ \<Rightarrow> pbind pa_advance (\<lambda>_. preturn ''true'')
       | TkFalse _ \<Rightarrow> pbind pa_advance (\<lambda>_. preturn ''false'')
       | TkIn _ \<Rightarrow> pbind pa_advance (\<lambda>_. preturn ''in'')
       | _ \<Rightarrow> preturn [])"

section \<open>Regular expressions\<close>

definition removeFlagsGY :: "string \<Rightarrow> string" where
  "removeFlagsGY flags = filter (\<lambda>c. c \<noteq> CHR ''g'' \<and> c \<noteq> CHR ''y'') flags"

definition lastIndexOf :: "string \<Rightarrow> char \<Rightarrow> int" where
  "lastIndexOf s c = int (length s) - 1 - int (length (takeWhile (\<lambda>d. d \<noteq> c) (rev s)))"

definition indexOf :: "string \<Rightarrow> char \<Rightarrow> int" where
  "indexOf s c = (if c \<in> set s then int (length (takeWhile (\<lambda>d. d \<noteq> c) s)) else - 1)"

text \<open>\<open>isFalsyOrWhitespace\<close> of a string, in \<open>base/common/strings.ts\<close>: nothing is left of it when it is trimmed.\<close>

definition isFalsyOrWhitespace :: "string \<Rightarrow> bool" where
  "isFalsyOrWhitespace s = list_all is_space s"

text \<open>\<open>substring\<close> takes a negative index for 0.\<close>

definition regex_of_lexeme :: "penv \<Rightarrow> string \<Rightarrow> regexp option" where
  "regex_of_lexeme env regexLexeme =
     (let closingSlashIndex = lastIndexOf regexLexeme (CHR ''/'');
          flags = (if closingSlashIndex = int (length regexLexeme) - 1 then None
                   else Some (removeFlagsGY (substring regexLexeme (nat (closingSlashIndex + 1)) (length regexLexeme))))
      in new_RegExp env (substring regexLexeme 1 (nat closingSlashIndex)) flags)"

definition pa_regexStrict :: "penv \<Rightarrow> string \<Rightarrow> token \<Rightarrow> expr option parse" where
  "pa_regexStrict env key t =
     pbind pa_advance (\<lambda>_.
       case t of
         TkRegexStr _ regexLexeme \<Rightarrow>
           (case regex_of_lexeme env regexLexeme of
              Some r \<Rightarrow> preturn (Some (ContextKeyRegexExpr_create key (Some r)))
            | None \<Rightarrow> throw_errExpectedButGot ''REGEX'' t)
       | _ \<Rightarrow> throw_errExpectedButGot ''REGEX'' t)"

definition parenBalance_of :: "string \<Rightarrow> int" where
  "parenBalance_of s = int (count_list s (CHR ''('')) - int (count_list s (CHR '')''))"

text \<open>
  The balance of the token that follows. In a regular expression or quoted string the code looks for
  closing parentheses in \<open>expr.lexeme\<close>, the first token, and not in the one that follows.
\<close>

definition following_balance :: "string \<Rightarrow> token \<Rightarrow> int" where
  "following_balance exprLexeme t =
     (case t of
        TkLParen _ \<Rightarrow> 1
      | TkRParen _ \<Rightarrow> - 1
      | TkRegexStr _ l \<Rightarrow>
          foldl (\<lambda>b i. if l ! i = CHR ''('' then b + 1
                       else if charCodeAt exprLexeme i = Some (CHR '')'') then b - 1 else b) 0 [0..<length l]
      | TkQuotedStr _ l \<Rightarrow>
          foldl (\<lambda>b i. if l ! i = CHR ''('' then b + 1
                       else if charCodeAt exprLexeme i = Some (CHR '')'') then b - 1 else b) 0 [0..<length l]
      | _ \<Rightarrow> 0)"

text \<open>The loop over the tokens that follow; \<open>followingToken\<close> is always the next token.\<close>

function recover_loop :: "string \<Rightarrow> int \<Rightarrow> string list \<Rightarrow> string list parse" where
  "recover_loop exprLexeme parenBalance lexemeReconstruction p =
     (if pa_current p < length (pa_tokens p) then
        let t = pa_tokens p ! pa_current p in
        if is_EOF t \<or> is_And t \<or> is_Or t then Some (Inr lexemeReconstruction, p)
        else
          let parenBalance = parenBalance + following_balance exprLexeme t in
          if parenBalance < 0 then Some (Inr lexemeReconstruction, p)
          else recover_loop exprLexeme parenBalance (lexemeReconstruction @ [getLexeme t])
                 (p\<lparr>pa_current := pa_current p + 1\<rparr>)
      else Some (Inl Type_error, p))"
  by pat_completeness auto
termination
  by (relation "measure (\<lambda>(_, _, _, p). length (pa_tokens p) - pa_current p)") auto

declare recover_loop.simps [simp del]

definition pa_regexRecovering :: "penv \<Rightarrow> string \<Rightarrow> token \<Rightarrow> expr option parse" where
  "pa_regexRecovering env key t =
     (if is_RegexStr t \<or> is_Error t then
        pbind pa_advance (\<lambda>_.
        pbind (recover_loop (lexeme t) (parenBalance_of (lexeme t)) [lexeme t]) (\<lambda>lexemeReconstruction.
        case regex_of_lexeme env (concat lexemeReconstruction) of
          Some r \<Rightarrow> preturn (Some (ContextKeyRegexExpr_create key (Some r)))
        | None \<Rightarrow> throw_errExpectedButGot ''REGEX'' t))
      else if is_QuotedStr t then
        let serializedValue = lexeme t in
        pbind pa_advance (\<lambda>_.
          let start = indexOf serializedValue (CHR ''/''); end = lastIndexOf serializedValue (CHR ''/'') in
          if \<not> isFalsyOrWhitespace serializedValue \<and> start \<noteq> end \<and> start \<ge> 0 then
            let value = js_slice serializedValue (start + 1) end;
                caseIgnoreFlag = (if charCodeAt serializedValue (nat (end + 1)) = Some (CHR ''i'') then ''i'' else [])
            in case new_RegExp env value (Some caseIgnoreFlag) of
                 Some r \<Rightarrow> preturn (Some (ContextKeyRegexExpr_create key (Some r)))
               | None \<Rightarrow> throw_errExpectedButGot ''REGEX'' t
          else throw_errExpectedButGot ''REGEX'' t)
      else pbind pa_peek (throw_errExpectedButGot ''REGEX''))"

section \<open>The grammar\<close>

text \<open>The comparison that may follow a key.\<close>

definition equality_expr :: "consts_map \<Rightarrow> string \<Rightarrow> bool \<Rightarrow> string \<Rightarrow> token \<Rightarrow> expr" where
  "equality_expr cs key positive right previous =
     (let compared = (if positive then ContextKeyExpr_equals cs key (Str right) else ContextKeyExpr_notEquals cs key (Str right))
      in if is_QuotedStr previous then compared
         else if right = ''true''
         then (if positive then ContextKeyExpr_has cs key else ContextKeyExpr_not cs key)
         else if right = ''false''
         then (if positive then ContextKeyExpr_not cs key else ContextKeyExpr_has cs key)
         else compared)"

definition pa_equality :: "penv \<Rightarrow> string \<Rightarrow> bool \<Rightarrow> expr option parse" where
  "pa_equality env key positive =
     pbind pa_advance (\<lambda>_.
     pbind pa_value (\<lambda>right.
     pbind pa_previous (\<lambda>previous.
       preturn (Some (equality_expr (constants env) key positive right previous)))))"

definition pa_operand :: "(string \<Rightarrow> expr) \<Rightarrow> expr option parse" where
  "pa_operand create = pbind pa_advance (\<lambda>_. pbind pa_value (\<lambda>right. preturn (Some (create right))))"

definition pa_operator :: "penv \<Rightarrow> string \<Rightarrow> expr option parse" where
  "pa_operator env key =
     pbind pa_peek (\<lambda>maybeOp.
       case maybeOp of
         TkEq _ _ \<Rightarrow> pa_equality env key True
       | TkNotEq _ _ \<Rightarrow> pa_equality env key False
       | TkLt _ \<Rightarrow> pa_operand (\<lambda>v. ContextKeySmallerExpr_create key (Str v) None)
       | TkLtEq _ \<Rightarrow> pa_operand (\<lambda>v. ContextKeySmallerEqualsExpr_create key (Str v) None)
       | TkGt _ \<Rightarrow> pa_operand (\<lambda>v. ContextKeyGreaterExpr_create key (Str v) None)
       | TkGtEq _ \<Rightarrow> pa_operand (\<lambda>v. ContextKeyGreaterEqualsExpr_create key (Str v) None)
       | TkIn _ \<Rightarrow> pa_operand (ContextKeyInExpr_create key)
       | _ \<Rightarrow> preturn (Some (ContextKeyExpr_has (constants env) key)))"

definition pa_notIn :: "string \<Rightarrow> expr option parse" where
  "pa_notIn key =
     pbind (pa_consume is_In errorNoInAfterNot) (\<lambda>_.
     pbind pa_value (\<lambda>right. preturn (Some (ContextKeyNotInExpr_create key right))))"

definition pa_regex :: "penv \<Rightarrow> string \<Rightarrow> expr option parse" where
  "pa_regex env key =
     pbind pa_peek (\<lambda>t.
       if \<not> regexParsingWithErrorRecovery env then pa_regexStrict env key t else pa_regexRecovering env key t)"

definition pa_afterKey :: "penv \<Rightarrow> string \<Rightarrow> expr option parse" where
  "pa_afterKey env key =
     pbind (pa_matchOne is_RegexOp) (\<lambda>regex.
     if regex then pa_regex env key
     else pbind (pa_matchOne is_Not) (\<lambda>not. if not then pa_notIn key else pa_operator env key))"

definition pa_parenthesized :: "expr option parse \<Rightarrow> expr option parse" where
  "pa_parenthesized expr =
     pbind pa_advance (\<lambda>_.
     pbind expr (\<lambda>e.
     pbind (pa_consume is_RParen errorClosingParenthesis) (\<lambda>_. preturn e)))"

definition pa_primary :: "penv \<Rightarrow> expr option parse \<Rightarrow> expr option parse" where
  "pa_primary env expr =
     pbind pa_peek (\<lambda>t.
       case t of
         TkTrue _ \<Rightarrow> pbind pa_advance (\<lambda>_. preturn (Some TrueExpr))
       | TkFalse _ \<Rightarrow> pbind pa_advance (\<lambda>_. preturn (Some FalseExpr))
       | TkLParen _ \<Rightarrow> pa_parenthesized expr
       | TkStr _ key \<Rightarrow> pbind pa_advance (\<lambda>_. pa_afterKey env key)
       | TkEOF off \<Rightarrow>
           (\<lambda>p. pthrow Parse_error
              (push_parsingError \<lparr>pe_message = errorUnexpectedEOF, pe_offset = off, pe_lexeme = [],
                 pe_additionalInfo = Some hintUnexpectedEOF\<rparr> p))
       | _ \<Rightarrow> pbind pa_peek (throw_errExpectedButGot expectedPrimary))"

definition pa_negated :: "penv \<Rightarrow> nat \<Rightarrow> expr option parse \<Rightarrow> expr option parse" where
  "pa_negated env n expr =
     pbind pa_peek (\<lambda>t.
       case t of
         TkTrue _ \<Rightarrow> pbind pa_advance (\<lambda>_. preturn (Some FalseExpr))
       | TkFalse _ \<Rightarrow> pbind pa_advance (\<lambda>_. preturn (Some TrueExpr))
       | TkLParen _ \<Rightarrow>
           pbind (pa_parenthesized expr) (\<lambda>e.
             case e of None \<Rightarrow> preturn None | Some e \<Rightarrow> plift (map_option Some (negate n (constants env) e)))
       | TkStr _ key \<Rightarrow> pbind pa_advance (\<lambda>_. preturn (Some (ContextKeyNotExpr_create (constants env) key None)))
       | _ \<Rightarrow> throw_errExpectedButGot expectedNegated t)"

definition pa_term :: "penv \<Rightarrow> nat \<Rightarrow> expr option parse \<Rightarrow> expr option parse" where
  "pa_term env n expr =
     pbind (pa_matchOne is_Neg) (\<lambda>neg. if neg then pa_negated env n expr else pa_primary env expr)"

text \<open>The loop of \<open>_and\<close> and \<open>_or\<close>: operands as long as the operator follows.\<close>

fun more_operands :: "nat \<Rightarrow> (token \<Rightarrow> bool) \<Rightarrow> 'a parse \<Rightarrow> 'a list \<Rightarrow> 'a list parse" where
  "more_operands 0 op operand expr p = None"
| "more_operands (Suc n) op operand expr p =
     pbind (pa_matchOne op) (\<lambda>b.
       if b then pbind operand (\<lambda>right. more_operands n op operand (expr @ [right])) else preturn expr) p"

definition pa_and :: "penv \<Rightarrow> nat \<Rightarrow> expr option parse \<Rightarrow> expr option parse" where
  "pa_and env n term =
     pbind term (\<lambda>first.
     pbind (more_operands n is_And term [first]) (\<lambda>expr.
       if length expr = 1 then preturn (hd expr) else plift (ContextKeyExpr_and n (constants env) expr)))"

definition pa_or :: "penv \<Rightarrow> nat \<Rightarrow> expr option parse \<Rightarrow> expr option parse" where
  "pa_or env n andp =
     pbind andp (\<lambda>first.
     pbind (more_operands n is_Or andp [first]) (\<lambda>expr.
       if length expr = 1 then preturn (hd expr) else plift (ContextKeyExpr_or n (constants env) expr)))"

fun pa_expr :: "penv \<Rightarrow> nat \<Rightarrow> expr option parse" where
  "pa_expr env 0 p = None"
| "pa_expr env (Suc n) p = pa_or env n (pa_and env n (pa_term env n (pa_expr env n))) p"

section \<open>Parsing\<close>

definition Parser_parse :: "penv \<Rightarrow> nat \<Rightarrow> string \<Rightarrow> expr option parse" where
  "Parser_parse env n input p =
     (if input = [] then
        preturn None
          (push_parsingError \<lparr>pe_message = errorEmptyString, pe_offset = 0, pe_lexeme = [],
             pe_additionalInfo = Some hintEmptyString\<rparr> p)
      else
        let (toks, scanner) = Scanner_scan (Scanner_reset input (pa_scanner p));
            p = p\<lparr>pa_scanner := scanner, pa_tokens := toks, pa_current := 0, pa_parsingErrors := []\<rparr>;
            body =
              pbind (pa_expr env n) (\<lambda>expr.
              pbind pa_isAtEnd (\<lambda>atEnd.
                if \<not> atEnd then
                  pbind pa_peek (\<lambda>t p.
                    pthrow Parse_error
                      (push_parsingError \<lparr>pe_message = errorUnexpectedToken, pe_offset = offset t, pe_lexeme = getLexeme t,
                         pe_additionalInfo = (if is_Str t then Some hintUnexpectedToken else None)\<rparr> p))
                else preturn expr))
        in case body p of
             Some (Inl Parse_error, p) \<Rightarrow> preturn None p
           | r \<Rightarrow> r)"

definition lexingErrors :: "parser \<Rightarrow> lexing_error list" where
  "lexingErrors p = sc_errors (pa_scanner p)"

definition ContextKeyExpr_deserialize :: "penv \<Rightarrow> nat \<Rightarrow> string option \<Rightarrow> expr option parse" where
  "ContextKeyExpr_deserialize env n serialized =
     (case serialized of None \<Rightarrow> preturn None | Some s \<Rightarrow> Parser_parse (env\<lparr>regexParsingWithErrorRecovery := False\<rparr>) n s)"

record clause_error =
  ce_errorMessage :: string
  ce_offset :: nat
  ce_length :: nat

definition clause_errors :: "parser \<Rightarrow> clause_error list" where
  "clause_errors p =
     (if length (lexingErrors p) > 0 then
        map (\<lambda>se. \<lparr>ce_errorMessage =
                     (case err_additionalInfo se of
                        Some info \<Rightarrow> if info \<noteq> [] then ''Unexpected token. Hint: '' @ info else ''Unexpected token.''
                      | None \<Rightarrow> ''Unexpected token.''),
                   ce_offset = err_offset se, ce_length = length (err_lexeme se)\<rparr>) (lexingErrors p)
      else if length (pa_parsingErrors p) > 0 then
        map (\<lambda>pe. \<lparr>ce_errorMessage =
                     (case pe_additionalInfo pe of
                        Some info \<Rightarrow> if info \<noteq> [] then pe_message pe @ ''. '' @ info else pe_message pe
                      | None \<Rightarrow> pe_message pe),
                   ce_offset = pe_offset pe, ce_length = length (pe_lexeme pe)\<rparr>) (pa_parsingErrors p)
      else [])"

fun validateClauses :: "penv \<Rightarrow> nat \<Rightarrow> string list \<Rightarrow> clause_error list list parse" where
  "validateClauses env n [] = preturn []"
| "validateClauses env n (whenClause # rest) =
     pbind (Parser_parse env n whenClause) (\<lambda>_ p.
       pbind (validateClauses env n rest) (\<lambda>es. preturn (clause_errors p # es)) p)"

definition validateWhenClauses ::
  "penv \<Rightarrow> nat \<Rightarrow> string list \<Rightarrow> ((parse_exn + clause_error list list) \<times> parser) option" where
  "validateWhenClauses env n whenClauses =
     validateClauses (env\<lparr>regexParsingWithErrorRecovery := False\<rparr>) n whenClauses Parser_new"

end
