(* ===== verification/ContextKeyDefined.thy ===== *)
theory ContextKeyDefined
  imports ContextKeySemantics
begin

text \<open>
  When the operations of \<open>ContextKeys\<close> give an expression and not \<open>undefined\<close>: on operands whose
  conjunctions and disjunctions all have elements, creating and negating are never undefined, and the
  result is such an expression again. Nothing is asked of contexts, constants or regular expressions.
\<close>

function solid :: "expr \<Rightarrow> bool" where
  "solid e \<longleftrightarrow>
     (case e of AndExpr es _ \<Rightarrow> es \<noteq> [] | OrExpr es _ \<Rightarrow> es \<noteq> [] | _ \<Rightarrow> True)
     \<and> (\<forall>x\<in>set (children e). solid x) \<and> (case cached e of None \<Rightarrow> True | Some m \<Rightarrow> solid m)"
  by pat_completeness auto
termination
  by (relation "measure size") (auto simp: size_children size_cached)

declare solid.simps [simp del]

lemma solid_And [simp]:
  "solid (AndExpr es n) \<longleftrightarrow> es \<noteq> [] \<and> (\<forall>x\<in>set es. solid x) \<and> (case n of None \<Rightarrow> True | Some m \<Rightarrow> solid m)"
  by (subst solid.simps) (simp add: children_def cached_def)

lemma solid_Or [simp]:
  "solid (OrExpr es n) \<longleftrightarrow> es \<noteq> [] \<and> (\<forall>x\<in>set es. solid x) \<and> (case n of None \<Rightarrow> True | Some m \<Rightarrow> solid m)"
  by (subst solid.simps) (simp add: children_def cached_def)

lemma solid_const [simp]: "solid FalseExpr" "solid TrueExpr"
  by (subst solid.simps, simp add: children_def cached_def)+

lemma solid_atom: "is_atom e \<Longrightarrow> solid e \<longleftrightarrow> (case cached e of None \<Rightarrow> True | Some m \<Rightarrow> solid m)"
  by (subst solid.simps, cases e) (simp_all add: is_atom_def children_def)

definition makes :: "creator \<Rightarrow> bool" where
  "makes c \<longleftrightarrow> (\<forall>arr negated extra r. (\<forall>e\<in>given arr. solid e) \<longrightarrow> given arr \<noteq> {} \<longrightarrow>
     (case negated of None \<Rightarrow> True | Some m \<Rightarrow> solid m) \<longrightarrow> c arr negated extra = Some r \<longrightarrow>
     (\<exists>e. r = Some e \<and> solid e))"

definition negates_solid :: "negator \<Rightarrow> bool" where
  "negates_solid neg \<longleftrightarrow> (\<forall>e e'. solid e \<longrightarrow> neg e = Some e' \<longrightarrow> solid e')"

lemma makesD:
  assumes "makes c" "c arr negated extra = Some r" "\<forall>e\<in>given arr. solid e" "given arr \<noteq> {}"
    and "case negated of None \<Rightarrow> True | Some m \<Rightarrow> solid m"
  obtains e where "r = Some e" "solid e"
  using assms unfolding makes_def by metis

lemma solid_parts:
  "solid e \<Longrightarrow> \<forall>x\<in>set (and_parts e). solid x" "solid e \<Longrightarrow> \<forall>x\<in>set (or_parts e). solid x"
  "solid e \<Longrightarrow> and_parts e = [] \<longleftrightarrow> e = TrueExpr" "solid e \<Longrightarrow> or_parts e = [] \<longleftrightarrow> e = FalseExpr"
  "solid e \<Longrightarrow> getTerminals e \<noteq> [] \<and> (\<forall>x\<in>set (getTerminals e). solid x)"
  by (cases e; auto simp: getTerminals_def)+

lemma all_parts_Nil: "all_parts parts arr = [] \<longleftrightarrow> (\<forall>e\<in>given arr. parts e = [])"
  by (induction parts arr rule: all_parts.induct) auto

lemma solid_all_parts:
  assumes "\<forall>e\<in>given arr. solid e"
  shows "\<forall>x\<in>set (all_parts and_parts arr). solid x" "\<forall>x\<in>set (all_parts or_parts arr). solid x"
  using assms solid_parts(1,2) unfolding set_all_parts by blast+

lemma solid_dedupe:
  assumes "\<forall>e\<in>set es. solid e"
  shows "\<forall>e\<in>set (eliminate_duplicates (js_sort expr_cmp es)). solid e"
  using assms eliminate_duplicates_set [of "js_sort expr_cmp es"] by auto

lemma solid_hd: "\<forall>e\<in>set es. solid e \<Longrightarrow> es \<noteq> [] \<Longrightarrow> solid (hd es)"
  by simp

lemma given_nonempty: "xs \<noteq> [] \<Longrightarrow> (\<And>x. x \<in> set xs \<Longrightarrow> \<exists>e. x = Some e) \<Longrightarrow> given xs \<noteq> {}"
  by (cases xs) (auto simp: given_def)

text \<open>Pairwise conjunctions, then their disjunction: the turn of both loops.\<close>

lemma makes_pairs:
  assumes "makes andc" "makes orc" "xs \<noteq> []" "\<forall>(a, b)\<in>set xs. solid a \<and> solid b"
    and "omap (\<lambda>(a, b). andc [Some a, Some b] None x) xs = Some els" "orc els None y = Some r"
  obtains e where "r = Some e" "solid e"
proof -
  have el: "\<exists>e. z = Some e \<and> solid e" if z: "z \<in> set els" for z
  proof -
    obtain a b where ab: "(a, b) \<in> set xs" "andc [Some a, Some b] None x = Some z"
      using omap_elem [OF assms(5) z] by auto
    have "\<forall>e\<in>given [Some a, Some b]. solid e" using assms(4) ab(1) by auto
    then show ?thesis by (rule makesD [OF assms(1) ab(2)]) auto
  qed
  have "els \<noteq> []" using omap_length [OF assms(5)] assms(3) by auto
  then have "given els \<noteq> {}" "\<forall>e\<in>given els. solid e" using el given_nonempty [of els] by (auto simp: given_def)
  with makesD [OF assms(2,6)] that show thesis by auto
qed

lemma omap_map: "omap f (map g xs) = omap (f \<circ> g) xs"
  by (induction xs) auto

lemma and_distribute_solid:
  assumes "makes andc" "makes orc" "\<forall>e\<in>set es. solid e" "es \<noteq> []" "and_distribute andc orc extra es = Some es'"
  shows "(\<forall>e\<in>set es'. solid e) \<and> es' \<noteq> []"
  using assms(3-5)
proof (induction "length es" arbitrary: es rule: less_induct)
  case less
  show ?case
  proof (cases "length es > 1 \<and> (\<exists>os n. last es = OrExpr os n)")
    case False
    with less.prems show ?thesis by (simp add: and_distribute_stop)
  next
    case True
    then obtain os n rest second where es: "es = rest @ [second, OrExpr os n]" using ends_in_or by metis
    obtain els r where r: "omap (\<lambda>el. andc [Some el, Some second] None extra) os = Some els"
      "orc els None (rest = []) = Some r"
      "and_distribute andc orc extra
         (case r of Some r \<Rightarrow> js_sort expr_cmp (rest @ [r]) | None \<Rightarrow> rest) = Some es'"
      using less.prems(3) unfolding es and_distribute_step by (auto split: bind_splits)
    have "omap (\<lambda>(a, b). andc [Some a, Some b] None extra) (map (\<lambda>el. (el, second)) os) = Some els"
      using r(1) by (simp add: omap_map comp_def)
    from makes_pairs [OF assms(1,2) _ _ this r(2)] less.prems(1) es obtain e where e: "r = Some e" "solid e"
      by auto
    with less.hyps [of "js_sort expr_cmp (rest @ [e])"] less.prems(1) r(3) es show ?thesis by simp
  qed
qed

lemma And_normalize_makes:
  assumes "makes andc" "makes orc"
  shows "makes (ContextKeyAndExpr_normalizeArr andc orc neg)"
  unfolding makes_def
proof (intro allI impI)
  fix arr negated extra r
  assume arr: "\<forall>e\<in>given arr. solid e" "given arr \<noteq> {}" and negated: "case negated of None \<Rightarrow> True | Some m \<Rightarrow> solid m"
    and r: "ContextKeyAndExpr_normalizeArr andc orc neg arr negated extra = Some r"
  let ?es = "all_parts and_parts arr" and ?ds = "eliminate_duplicates (js_sort expr_cmp (all_parts and_parts arr))"
  note es = solid_all_parts(1) [OF arr(1)]
  note ds = solid_dedupe [OF es]
  have nil: "?es = [] \<longleftrightarrow> given arr \<subseteq> {TrueExpr}" using arr(1) solid_parts(3) by (auto simp: all_parts_Nil)
  consider (false) "FalseExpr \<in> given arr" | (nil) "FalseExpr \<notin> given arr" "?es = []"
    | (one) "FalseExpr \<notin> given arr" "?es \<noteq> []" "length ?es = 1"
    | (ded) "FalseExpr \<notin> given arr" "?es \<noteq> []" "length ?es \<noteq> 1" "length ?ds = 1"
    | (loop) "FalseExpr \<notin> given arr" "?es \<noteq> []" "length ?es \<noteq> 1" "length ?ds \<noteq> 1" by blast
  then show "\<exists>e. r = Some e \<and> solid e"
  proof cases
    case false
    then show ?thesis using r by (auto simp: ContextKeyAndExpr_normalizeArr_def and_collect_eq)
  next
    case nil2: nil
    then have "TrueExpr \<in> given arr" using nil arr(2) by auto
    with nil2 show ?thesis using r by (auto simp: ContextKeyAndExpr_normalizeArr_def and_collect_eq)
  next
    case one
    then show ?thesis
      using r es solid_hd [OF es] by (auto simp: ContextKeyAndExpr_normalizeArr_def and_collect_eq)
  next
    case ded
    then have "r = Some (hd ?ds)" using r by (auto simp: ContextKeyAndExpr_normalizeArr_def and_collect_eq)
    with ded solid_hd [OF ds] show ?thesis by auto
  next
    case loop
    then obtain xs where xs: "and_distribute andc orc extra ?ds = Some xs"
      and r': "r = Some (hd xs) \<and> length xs = 1 \<or> r = Some FalseExpr \<or> r = Some (AndExpr xs negated)"
      using r by (auto simp: ContextKeyAndExpr_normalizeArr_def and_collect_eq Let_def split: bind_splits if_splits)
    have "(\<forall>e\<in>set xs. solid e) \<and> xs \<noteq> []" using and_distribute_solid [OF assms ds _ xs] loop by simp
    with r' negated show ?thesis by auto
  qed
qed

lemma Or_normalize_makes: "makes (ContextKeyOrExpr_normalizeArr neg)"
  unfolding makes_def
proof (intro allI impI)
  fix arr negated extra r
  assume arr: "\<forall>e\<in>given arr. solid e" "given arr \<noteq> {}" and negated: "case negated of None \<Rightarrow> True | Some m \<Rightarrow> solid m"
    and r: "ContextKeyOrExpr_normalizeArr neg arr negated extra = Some r"
  let ?es = "js_sort expr_cmp (all_parts or_parts arr)"
  let ?ds = "eliminate_duplicates ?es"
  have es: "\<forall>e\<in>set ?es. solid e" using solid_all_parts(2) [OF arr(1)] by simp
  note ds = solid_dedupe [OF solid_all_parts(2) [OF arr(1)]]
  have nil: "all_parts or_parts arr = [] \<longleftrightarrow> given arr \<subseteq> {FalseExpr}"
    using arr(1) solid_parts(4) by (auto simp: all_parts_Nil)
  consider (true) "TrueExpr \<in> given arr" | (nil) "TrueExpr \<notin> given arr" "all_parts or_parts arr = []"
    | (more) "TrueExpr \<notin> given arr" "all_parts or_parts arr \<noteq> []" by blast
  then show "\<exists>e. r = Some e \<and> solid e"
  proof cases
    case true
    then show ?thesis using r by (auto simp: ContextKeyOrExpr_normalizeArr_def or_collect_eq)
  next
    case nil2: nil
    then have "FalseExpr \<in> given arr" using nil arr(2) by auto
    with nil2 show ?thesis using r by (auto simp: ContextKeyOrExpr_normalizeArr_def or_collect_eq)
  next
    case more
    then have ne: "?es \<noteq> []" "?ds \<noteq> []" using length_0_conv [of ?es] by auto
    have "r = Some (hd ?es) \<or> r = Some (hd ?ds) \<or> r = Some TrueExpr \<or> r = Some (OrExpr ?ds negated)"
      using more r ne by (auto simp: ContextKeyOrExpr_normalizeArr_def or_collect_eq Let_def split: bind_splits if_splits)
    with negated ne solid_hd [OF es] solid_hd [OF ds] ds show ?thesis by auto
  qed
qed

lemma or_negate_loop_solid:
  assumes "makes andc" "makes orc" "\<forall>e\<in>set es. solid e" "es \<noteq> []" "or_negate_loop andc orc es = Some es'"
  shows "es' \<noteq> [] \<and> (\<forall>e\<in>set es'. solid e)"
  using assms(3-5)
proof (induction "length es" arbitrary: es rule: less_induct)
  case less
  consider e where "es = [e]" | l r rest where "es = l # r # rest"
    using less.prems(2) by (cases es; cases "tl es"; auto)
  then show ?case
  proof cases
    case 1
    with less.prems show ?thesis by auto
  next
    case 2
    let ?pairs = "[(left, right). left \<leftarrow> getTerminals l, right \<leftarrow> getTerminals r]"
    from 2 less.prems(3) obtain xs e where turn: "omap (\<lambda>(left, right). andc [Some left, Some right] None False) ?pairs = Some xs"
      "orc xs None False = Some (Some e)" "or_negate_loop andc orc (e # rest) = Some es'"
      by (auto simp: non_null_Some split: bind_splits)
    have sl: "solid l" "solid r" using less.prems(1) 2 by simp_all
    have "?pairs \<noteq> []" "\<forall>(a, b)\<in>set ?pairs. solid a \<and> solid b"
      using solid_parts(5) [OF sl(1)] solid_parts(5) [OF sl(2)] by (auto simp: concat_eq_Nil_conv)
    from makes_pairs [OF assms(1,2) this turn(1,2)] have "solid e" by auto
    then have "\<forall>x\<in>set (e # rest). solid x" "length (e # rest) < length es" using less.prems(1) 2 by auto
    from less.hyps [OF this(2,1) _ turn(3)] show ?thesis by simp
  qed
qed

lemma omap_solid:
  assumes "negates_solid neg" "\<forall>e\<in>set es. solid e" "omap neg es = Some ns"
  shows "\<forall>e\<in>set ns. solid e"
  using omap_elem [OF assms(3)] assms(1,2) unfolding negates_solid_def by blast

lemma negate_body_solid:
  assumes "makes andc" "makes orc" "negates_solid neg"
  shows "negates_solid (negate_body cs andc orc neg)"
  unfolding negates_solid_def
proof (intro allI impI)
  fix e e'
  assume e: "solid e" "negate_body cs andc orc neg e = Some e'"
  consider "is_atom e" | es n where "e = AndExpr es n" | es n where "e = OrExpr es n"
    by (cases e) (auto simp: is_atom_def)
  then show "solid e'"
  proof cases
    case 1
    then show ?thesis
      using e by (cases e) (auto simp: is_atom_def solid_atom negate_body_def negate_defs create_defs cached_def Let_def
          withFloatOrStr_def split: option.splits prim.splits if_splits jsnum.splits)
  next
    case 2
    show ?thesis
    proof (cases n)
      case None
      with 2 e obtain ns where ns: "omap neg es = Some ns" "orc (map Some ns) (Some e) True = Some (Some e')"
        by (auto simp: negate_body_def ContextKeyAndExpr_negate_def non_null_Some split: bind_splits)
      have "ns \<noteq> []" "\<forall>x\<in>set ns. solid x"
        using omap_solid [OF assms(3) _ ns(1)] omap_length [OF ns(1)] e(1) 2 by auto
      with makesD [OF assms(2) ns(2)] e(1) show ?thesis by auto
    qed (use 2 e in \<open>simp add: negate_body_def ContextKeyAndExpr_negate_def\<close>)
  next
    case 3
    show ?thesis
    proof (cases n)
      case None
      with 3 e obtain ns xs where ns: "omap neg es = Some ns" "or_negate_loop andc orc ns = Some xs"
        "orc (map Some xs) (Some e) True = Some (Some e')"
        by (auto simp: negate_body_def ContextKeyOrExpr_negate_def non_null_Some split: bind_splits)
      have "ns \<noteq> []" "\<forall>x\<in>set ns. solid x"
        using omap_solid [OF assms(3) _ ns(1)] omap_length [OF ns(1)] e(1) 3 by auto
      then have "xs \<noteq> []" "\<forall>x\<in>set xs. solid x" using or_negate_loop_solid [OF assms(1,2) _ _ ns(2)] by auto
      with makesD [OF assms(2) ns(3)] e(1) show ?thesis by auto
    qed (use 3 e in \<open>simp add: negate_body_def ContextKeyOrExpr_negate_def\<close>)
  qed
qed

lemma operations_solid: "makes (and_create n cs) \<and> makes (or_create n cs) \<and> negates_solid (negate n cs)"
proof (induction n)
  case 0
  then show ?case by (simp add: makes_def negates_solid_def)
next
  case (Suc n)
  have "and_create (Suc n) cs = ContextKeyAndExpr_normalizeArr (and_create n cs) (or_create n cs) (negate n cs)"
    "or_create (Suc n) cs = ContextKeyOrExpr_normalizeArr (negate n cs)"
    "negate (Suc n) cs = negate_body cs (and_create n cs) (or_create n cs) (negate n cs)"
    by (auto intro!: ext)
  with Suc And_normalize_makes Or_normalize_makes negate_body_solid show ?case by simp
qed

end
