(* ===== verification/ContextKeyParserProps.thy ===== *)
theory ContextKeyParserProps
  imports ContextKeyParser ContextKeyDefined
begin

text \<open>
  Properties of the parser of \<open>when\<close> clauses. A small calculus of weakest preconditions follows the
  structure of the parser: \<open>wp A ok m p Q\<close> says that \<open>m\<close>, from a state in which a token can be read
  and whose tokens satisfy \<open>A\<close>, either
  exceeds its bound, or throws the parse error after reporting exactly one error, or moves forward over
  tokens that satisfy \<open>ok\<close> and gives a result that satisfies \<open>Q\<close>. So the type error is never thrown.
\<close>

section \<open>Weakest preconditions\<close>

definition valid :: "(token \<Rightarrow> bool) \<Rightarrow> parser \<Rightarrow> bool" where
  "valid A p \<longleftrightarrow> pa_current p < length (pa_tokens p) \<and> is_EOF (last (pa_tokens p))
     \<and> list_all A (pa_tokens p)"

abbreviation tok :: "parser \<Rightarrow> token" where
  "tok p \<equiv> pa_tokens p ! pa_current p"

abbreviation next_token :: "parser \<Rightarrow> parser" where
  "next_token p \<equiv> p\<lparr>pa_current := Suc (pa_current p)\<rparr>"

definition moves :: "(token \<Rightarrow> bool) \<Rightarrow> parser \<Rightarrow> parser \<Rightarrow> bool" where
  "moves ok p p' \<longleftrightarrow> (\<exists>j. p' = p\<lparr>pa_current := j\<rparr> \<and> pa_current p \<le> j \<and> j < length (pa_tokens p)
     \<and> (\<forall>i. pa_current p \<le> i \<longrightarrow> i < j \<longrightarrow> ok (pa_tokens p ! i)))"

definition fails :: "parser \<Rightarrow> parser \<Rightarrow> bool" where
  "fails p p' \<longleftrightarrow> (\<exists>j e. p' = push_parsingError e (p\<lparr>pa_current := j\<rparr>))"

definition wp :: "(token \<Rightarrow> bool) \<Rightarrow> (token \<Rightarrow> bool) \<Rightarrow> 'a parse \<Rightarrow> parser \<Rightarrow> ('a \<Rightarrow> parser \<Rightarrow> bool) \<Rightarrow> bool" where
  "wp A ok m p Q \<longleftrightarrow> (valid A p \<longrightarrow>
     (case m p of
        None \<Rightarrow> True
      | Some (Inl e, p') \<Rightarrow> e = Parse_error \<and> fails p p'
      | Some (Inr x, p') \<Rightarrow> moves ok p p' \<and> Q x p'))"

lemma moves_refl: "pa_current p < length (pa_tokens p) \<Longrightarrow> moves ok p p"
  by (auto simp: moves_def intro: exI [of _ "pa_current p"])

lemma moves_trans:
  assumes "moves ok p q" "moves ok q r"
  shows "moves ok p r"
proof -
  obtain i where i: "q = p\<lparr>pa_current := i\<rparr>" "pa_current p \<le> i" "\<forall>k. pa_current p \<le> k \<longrightarrow> k < i \<longrightarrow> ok (pa_tokens p ! k)"
    using assms(1) by (auto simp: moves_def)
  with assms(2) obtain j where j: "r = p\<lparr>pa_current := j\<rparr>" "i \<le> j" "j < length (pa_tokens p)"
    "\<forall>k. i \<le> k \<longrightarrow> k < j \<longrightarrow> ok (pa_tokens p ! k)" by (auto simp: moves_def)
  have "\<forall>k. pa_current p \<le> k \<longrightarrow> k < j \<longrightarrow> ok (pa_tokens p ! k)" using i(3) j(4) by (metis not_le)
  with i(2) j show ?thesis unfolding moves_def by (intro exI [of _ j]) simp
qed

lemma moves_valid: "moves ok p q \<Longrightarrow> valid A p \<Longrightarrow> valid A q"
  by (auto simp: moves_def valid_def)

lemma moves_next:
  assumes "valid A p" "\<not> is_EOF (tok p)" "ok (tok p)"
  shows "moves ok p (next_token p)"
proof -
  have "pa_tokens p \<noteq> []" using assms(1) by (auto simp: valid_def)
  then have "pa_current p \<noteq> length (pa_tokens p) - 1" using assms(1,2) by (auto simp: valid_def last_conv_nth)
  then have "Suc (pa_current p) < length (pa_tokens p)" using assms(1) unfolding valid_def by linarith
  moreover have "\<forall>i. pa_current p \<le> i \<longrightarrow> i < Suc (pa_current p) \<longrightarrow> ok (pa_tokens p ! i)"
    using assms(3) by (metis less_Suc_eq not_le)
  ultimately show ?thesis unfolding moves_def by (intro exI [of _ "Suc (pa_current p)"]) simp
qed

lemma fails_after:
  assumes "moves ok p q" "fails q r"
  shows "fails p r"
proof -
  obtain i j e where "q = p\<lparr>pa_current := i\<rparr>" "r = push_parsingError e (q\<lparr>pa_current := j\<rparr>)"
    using assms by (auto simp: moves_def fails_def)
  then show ?thesis unfolding fails_def by (intro exI [of _ j] exI [of _ e]) simp
qed

lemma wp_bind:
  assumes "wp A ok m p (\<lambda>x p'. wp A ok (f x) p' Q)"
  shows "wp A ok (pbind m f) p Q"
  unfolding wp_def
proof
  assume p: "valid A p"
  show "case pbind m f p of None \<Rightarrow> True | Some (Inl e, p') \<Rightarrow> e = Parse_error \<and> fails p p'
      | Some (Inr x, p') \<Rightarrow> moves ok p p' \<and> Q x p'"
  proof (cases "m p")
    case (Some r)
    obtain x q where r: "r = (x, q)" by fastforce
    show ?thesis
    proof (cases x)
      case (Inl e)
      with assms p Some r show ?thesis by (simp add: wp_def pbind_def)
    next
      case (Inr y)
      with assms p Some r have "moves ok p q" "wp A ok (f y) q Q" by (simp_all add: wp_def)
      with p moves_valid [of ok p q] moves_trans [of ok p q] fails_after [of ok p q] Some r Inr show ?thesis
        by (auto simp: wp_def pbind_def split: option.splits sum.splits)
    qed
  qed (simp add: pbind_def)
qed

lemma wp_mono: "wp A ok m p Q \<Longrightarrow> (\<And>x p'. moves ok p p' \<Longrightarrow> valid A p' \<Longrightarrow> Q x p' \<Longrightarrow> R x p') \<Longrightarrow> wp A ok m p R"
  using moves_valid by (auto simp: wp_def split: option.splits sum.splits)

lemma wp_return: "(valid A p \<Longrightarrow> Q x p) \<Longrightarrow> wp A ok (preturn x) p Q"
  by (simp add: wp_def preturn_def moves_refl valid_def)

lemma wp_lift: "(\<And>x. valid A p \<Longrightarrow> r = Some x \<Longrightarrow> Q x p) \<Longrightarrow> wp A ok (plift r) p Q"
  by (simp add: wp_def plift_def moves_refl valid_def split: option.split)

lemma wp_throw: "wp A ok (throw_errExpectedButGot expected t) p Q"
  by (auto simp: wp_def throw_errExpectedButGot_def pthrow_def Let_def fails_def intro!: exI [of _ "pa_current p"])

lemma wp_throw_push: "wp A ok (\<lambda>p. pthrow Parse_error (push_parsingError e p)) p Q"
  by (auto simp: wp_def pthrow_def fails_def intro!: exI [of _ "pa_current p"])

lemma wp_peek: "(valid A p \<Longrightarrow> Q (tok p) p) \<Longrightarrow> wp A ok pa_peek p Q"
  by (simp add: wp_def pa_peek_def moves_refl valid_def)

lemma wp_isAtEnd: "(valid A p \<Longrightarrow> Q (is_EOF (tok p)) p) \<Longrightarrow> wp A ok pa_isAtEnd p Q"
  unfolding pa_isAtEnd_def by (intro wp_bind wp_peek wp_return)

lemma wp_advance:
  assumes "valid A p \<Longrightarrow> is_EOF (tok p) \<Longrightarrow> Q () p"
    and "valid A p \<Longrightarrow> \<not> is_EOF (tok p) \<Longrightarrow> ok (tok p) \<and> Q () (next_token p)"
  shows "wp A ok pa_advance p Q"
  unfolding pa_advance_def
  using assms moves_next [where p = p and ok = ok and A = A]
  by (intro wp_bind wp_isAtEnd) (auto simp: wp_def valid_def intro: moves_refl)

lemma advance_result:
  "valid A p \<Longrightarrow> pa_advance p = Some (Inr (), if is_EOF (tok p) then p else next_token p)"
  by (simp add: pa_advance_def pa_isAtEnd_def pa_peek_def pbind_def preturn_def valid_def)

lemma throw_result: "\<exists>e. throw_errExpectedButGot s t q = Some (Inl Parse_error, push_parsingError e q)"
  by (auto simp: throw_errExpectedButGot_def pthrow_def Let_def)

lemma wp_advance_throw: "wp A ok (pbind pa_advance (\<lambda>_. throw_errExpectedButGot s t)) p Q"
proof -
  define q where "q = (if is_EOF (tok p) then p else next_token p)"
  obtain e where e: "(throw_errExpectedButGot s t :: 'a parse) q = Some (Inl Parse_error, push_parsingError e q)"
    using throw_result by blast
  have "q = p\<lparr>pa_current := pa_current q\<rparr>" by (simp add: q_def)
  then have "fails p (push_parsingError e q)" unfolding fails_def by metis
  then show ?thesis by (simp add: wp_def pbind_def advance_result q_def [symmetric] e)
qed

lemma wp_previous: "(valid A p \<Longrightarrow> 0 < pa_current p) \<Longrightarrow> (\<And>t. valid A p \<Longrightarrow> Q t p) \<Longrightarrow> wp A ok pa_previous p Q"
  by (auto simp: wp_def pa_previous_def moves_refl valid_def)

lemma wp_matchOne:
  assumes "\<And>t. type t \<Longrightarrow> \<not> is_EOF t \<and> ok t"
    and "valid A p \<Longrightarrow> type (tok p) \<Longrightarrow> Q True (next_token p)" "valid A p \<Longrightarrow> \<not> type (tok p) \<Longrightarrow> Q False p"
  shows "wp A ok (pa_matchOne type) p Q"
  unfolding pa_matchOne_def pa_check_def
  using assms by (intro wp_bind wp_peek wp_return) (auto intro!: wp_bind wp_return wp_advance)

lemma wp_consume:
  assumes "\<And>t. type t \<Longrightarrow> \<not> is_EOF t \<and> ok t" "valid A p \<Longrightarrow> type (tok p) \<Longrightarrow> Q () (next_token p)"
  shows "wp A ok (pa_consume type message) p Q"
  unfolding pa_consume_def pa_check_def
  using assms by (intro wp_bind wp_peek wp_return) (auto intro!: wp_bind wp_peek wp_throw wp_advance)

section \<open>The parts of the grammar\<close>

definition understood :: "penv \<Rightarrow> token \<Rightarrow> bool" where
  "understood env t \<longleftrightarrow> regexParsingWithErrorRecovery env \<or> \<not> is_Error t"

lemma understood_simps [simp]: "\<not> is_Error t \<Longrightarrow> understood env t" "regexParsingWithErrorRecovery env \<Longrightarrow> understood env t"
  by (simp_all add: understood_def)

lemma wp_value: "(\<And>v p'. moves (understood env) p p' \<Longrightarrow> valid A p' \<Longrightarrow> Q v p') \<Longrightarrow> wp A (understood env) pa_value p Q"
  unfolding pa_value_def
  apply (rule wp_bind, rule wp_peek)
  subgoal premises prems
    by (cases "tok p") (auto intro!: wp_bind wp_advance wp_return prems moves_refl moves_next moves_valid [OF moves_next] simp: prems(2) valid_def)
  done

definition gives :: "(expr \<Rightarrow> bool) \<Rightarrow> expr option \<Rightarrow> parser \<Rightarrow> bool" where
  "gives P e p \<longleftrightarrow> (\<exists>x. e = Some x \<and> P x)"

lemma gives_Some [simp]: "gives P (Some x) p \<longleftrightarrow> P x"
  by (simp add: gives_def)

lemma wp_skip: "(\<And>q. wp A ok m q Q) \<Longrightarrow> (valid A p \<Longrightarrow> \<not> is_EOF (tok p) \<Longrightarrow> ok (tok p)) \<Longrightarrow> wp A ok (pbind pa_advance (\<lambda>_. m)) p Q"
  by (intro wp_bind wp_advance) auto

lemma valid_tok: "valid A p \<Longrightarrow> A (tok p)"
  by (simp add: valid_def list_all_length)

lemma grammar_Suc:
  "more_operands (Suc n) op operand acc = pbind (pa_matchOne op) (\<lambda>b.
     if b then pbind operand (\<lambda>right. more_operands n op operand (acc @ [right])) else preturn acc)"
  "pa_expr env (Suc n) = pa_or env n (pa_and env n (pa_term env n (pa_expr env n)))"
  by (simp_all add: fun_eq_iff)

declare more_operands.simps(2) [simp del] pa_expr.simps(2) [simp del]

text \<open>
  What the parser relies on when all expressions it builds are to satisfy \<open>P\<close>: the elementary
  expressions of the tokens that occur do, and the operations keep it.
\<close>

locale parsed_expressions =
  fixes env :: penv and A :: "token \<Rightarrow> bool" and P :: "expr \<Rightarrow> bool"
  assumes truths: "P TrueExpr" "P FalseExpr"
    and regex: "P (ContextKeyRegexExpr_create k (Some rx))"
    and key: "P (ContextKeyExpr_has (constants env) k)" "P (ContextKeyNotExpr_create (constants env) k None)"
    and equality: "P (equality_expr (constants env) k b v t)"
    and comparison: "A (TkLt i) \<Longrightarrow> P (ContextKeySmallerExpr_create k (Str v) None)"
      "A (TkLtEq i) \<Longrightarrow> P (ContextKeySmallerEqualsExpr_create k (Str v) None)"
      "A (TkGt i) \<Longrightarrow> P (ContextKeyGreaterExpr_create k (Str v) None)"
      "A (TkGtEq i) \<Longrightarrow> P (ContextKeyGreaterEqualsExpr_create k (Str v) None)"
    and membership: "A (TkIn i) \<Longrightarrow> P (ContextKeyInExpr_create k v)" "A (TkNot i) \<Longrightarrow> P (ContextKeyNotInExpr_create k v)"
    and negation: "P e \<Longrightarrow> negate n (constants env) e = Some e' \<Longrightarrow> P e'"
    and conjunction: "given es \<noteq> {} \<Longrightarrow> \<forall>e\<in>given es. P e \<Longrightarrow> ContextKeyExpr_and n (constants env) es = Some r \<Longrightarrow>
      \<exists>x. r = Some x \<and> P x"
    and disjunction: "given es \<noteq> {} \<Longrightarrow> \<forall>e\<in>given es. P e \<Longrightarrow> ContextKeyExpr_or n (constants env) es = Some r \<Longrightarrow>
      \<exists>x. r = Some x \<and> P x"
begin

lemmas leaves = truths regex key equality

declare leaves [simp]

lemma wp_regexStrict:
  assumes "\<not> regexParsingWithErrorRecovery env" "t = tok p"
  shows "wp A (understood env) (pa_regexStrict env key t) p (gives P)"
proof (cases "is_RegexStr t")
  case True
  then show ?thesis
    unfolding pa_regexStrict_def
    using assms(2) by (auto intro!: wp_bind wp_advance wp_return wp_throw simp: is_RegexStr_def split: option.split)
next
  case False
  have throws: "pa_regexStrict env key t = pbind pa_advance (\<lambda>_. throw_errExpectedButGot ''REGEX'' t)"
    using False by (cases t) (simp_all add: pa_regexStrict_def)
  show ?thesis unfolding throws by (rule wp_advance_throw)
qed

lemma wp_recover_loop:
  assumes "regexParsingWithErrorRecovery env"
  shows "wp A (understood env) (recover_loop l b acc) p (\<lambda>_ _. True)"
proof (induction l b acc p rule: recover_loop.induct)
  case (1 l b acc p)
  show ?case
  proof (cases "valid A p \<and> \<not> (is_EOF (tok p) \<or> is_And (tok p) \<or> is_Or (tok p)) \<and> 0 \<le> b + following_balance l (tok p)")
    case True
    then have p: "valid A p" "pa_current p < length (pa_tokens p)" by (auto simp: valid_def)
    have move: "moves (understood env) p (next_token p)" using True assms by (intro moves_next) auto
    have rec: "recover_loop l b acc p =
        recover_loop l (b + following_balance l (tok p)) (acc @ [getLexeme (tok p)]) (next_token p)"
      using True p by (simp add: recover_loop.simps [of l b acc p] Let_def)
    have "wp A (understood env) (recover_loop l (b + following_balance l (tok p)) (acc @ [getLexeme (tok p)]))
        (next_token p) (\<lambda>_ _. True)"
      using 1 [OF p(2) refl _ refl] True by simp
    then show ?thesis
      using moves_valid [OF move p(1)] moves_trans [OF move] fails_after [OF move]
      by (auto simp: wp_def rec split: option.splits sum.splits)
  next
    case False
    then show ?thesis
      by (auto simp: wp_def recover_loop.simps [of l b acc p] Let_def moves_refl valid_def)
  qed
qed

lemma wp_created:
  "wp A ok (case r of Some x \<Rightarrow> preturn (Some (ContextKeyRegexExpr_create key (Some x)))
     | None \<Rightarrow> throw_errExpectedButGot s t) p (gives P)"
  by (simp add: wp_return wp_throw split: option.split)

lemma wp_regexRecovering:
  assumes rec: "regexParsingWithErrorRecovery env"
  shows "wp A (understood env) (pa_regexRecovering env key t) p (gives P)"
proof -
  consider "is_RegexStr t \<or> is_Error t" | "is_QuotedStr t" "\<not> (is_RegexStr t \<or> is_Error t)"
    | "\<not> is_QuotedStr t" "\<not> (is_RegexStr t \<or> is_Error t)" by blast
  then show ?thesis
  proof cases
    case 1
    then show ?thesis
      unfolding pa_regexRecovering_def
      by (simp only: if_True) (intro wp_skip wp_bind wp_mono [OF wp_recover_loop [OF rec]] wp_created, simp add: rec)
  next
    case 2
    have "wp A (understood env) (if c then (case r of Some x \<Rightarrow> preturn (Some (ContextKeyRegexExpr_create key (Some x)))
        | None \<Rightarrow> throw_errExpectedButGot ''REGEX'' t) else throw_errExpectedButGot ''REGEX'' t) q (gives P)" for c r q
      by (simp add: wp_created wp_throw)
    with 2 show ?thesis
      unfolding pa_regexRecovering_def Let_def by (simp only: if_True if_False) (intro wp_skip, simp_all add: rec)
  next
    case 3
    then show ?thesis
      unfolding pa_regexRecovering_def by (simp only: if_False) (intro wp_bind wp_peek wp_throw)
  qed
qed

lemma wp_value_then: "(\<And>v q. wp A (understood env) (f v) q Q) \<Longrightarrow> wp A (understood env) (pbind pa_value f) p Q"
  by (intro wp_bind wp_value)

lemma wp_equality:
  assumes "\<not> is_EOF (tok p)" "understood env (tok p)"
  shows "wp A (understood env) (pa_equality env key b) p (gives P)"
proof -
  have rest: "wp A (understood env) (pbind pa_value (\<lambda>right. pbind pa_previous (\<lambda>previous.
      preturn (Some (equality_expr (constants env) key b right previous))))) q (gives P)"
    if "0 < pa_current q" for q
    using that by (intro wp_bind wp_value wp_previous) (auto simp: moves_def intro!: wp_return)
  show ?thesis
    unfolding pa_equality_def by (intro wp_bind [OF wp_advance]) (simp_all add: assms rest)
qed

lemma wp_operand:
  assumes "\<not> is_EOF (tok p)" "understood env (tok p)" "\<And>v. P (create v)"
  shows "wp A (understood env) (pa_operand create) p (gives P)"
  unfolding pa_operand_def using assms by (intro wp_skip wp_value_then wp_return) simp_all

lemma wp_operator: "wp A (understood env) (pa_operator env key) p (gives P)"
  unfolding pa_operator_def
proof (intro wp_bind wp_peek)
  assume "valid A p"
  show "wp A (understood env) (case tok p of
         TkEq _ _ \<Rightarrow> pa_equality env key True
       | TkNotEq _ _ \<Rightarrow> pa_equality env key False
       | TkLt _ \<Rightarrow> pa_operand (\<lambda>v. ContextKeySmallerExpr_create key (Str v) None)
       | TkLtEq _ \<Rightarrow> pa_operand (\<lambda>v. ContextKeySmallerEqualsExpr_create key (Str v) None)
       | TkGt _ \<Rightarrow> pa_operand (\<lambda>v. ContextKeyGreaterExpr_create key (Str v) None)
       | TkGtEq _ \<Rightarrow> pa_operand (\<lambda>v. ContextKeyGreaterEqualsExpr_create key (Str v) None)
       | TkIn _ \<Rightarrow> pa_operand (ContextKeyInExpr_create key)
       | _ \<Rightarrow> preturn (Some (ContextKeyExpr_has (constants env) key))) p (gives P)"
    using wp_equality [of p key] wp_operand [of p] comparison membership(1) valid_tok [OF \<open>valid A p\<close>]
    by (cases "tok p") (simp_all add: wp_return)
qed

lemma wp_regex: "wp A (understood env) (pa_regex env key) p (gives P)"
  unfolding pa_regex_def by (intro wp_bind wp_peek) (simp add: wp_regexStrict wp_regexRecovering)

lemma wp_notIn: "A (TkNot i) \<Longrightarrow> wp A (understood env) (pa_notIn key) p (gives P)"
  unfolding pa_notIn_def
  by (intro wp_bind [OF wp_consume] wp_value_then wp_return) (auto simp: is_In_def membership(2))

lemma wp_afterKey: "wp A (understood env) (pa_afterKey env key) p (gives P)"
proof -
  have not_op: "wp A (understood env) (pbind (pa_matchOne is_Not) (\<lambda>not. if not then pa_notIn key else pa_operator env key))
      q (gives P)" for q
  proof (intro wp_bind [OF wp_matchOne])
    assume "valid A q" "is_Not (tok q)"
    then obtain i where "A (TkNot i)" using valid_tok [of A q] by (auto simp: is_Not_def)
    then show "wp A (understood env) (if True then pa_notIn key else pa_operator env key) (next_token q) (gives P)"
      by (simp add: wp_notIn)
  qed (auto simp: is_Not_def wp_operator)
  show ?thesis
    unfolding pa_afterKey_def
    by (intro wp_bind [OF wp_matchOne]) (simp_all add: wp_regex not_op, auto simp: is_RegexOp_def)
qed

text \<open>The descent, for any parser of the inner expressions: it reads at least one token.\<close>

definition gives_after :: "parser \<Rightarrow> expr option \<Rightarrow> parser \<Rightarrow> bool" where
  "gives_after p e p' \<longleftrightarrow> gives P e p' \<and> pa_current p < pa_current p'"

definition descends :: "expr option parse \<Rightarrow> bool" where
  "descends m \<longleftrightarrow> (\<forall>p. wp A (understood env) m p (gives_after p))"

lemma descendsI: "(\<And>p. wp A (understood env) m p (gives_after p)) \<Longrightarrow> descends m"
  by (simp add: descends_def)

lemma descendsD: "descends m \<Longrightarrow> wp A (understood env) m p (gives_after p)"
  by (simp add: descends_def)

lemma wp_throws_at_peek: "wp A (understood env) (pbind pa_peek (throw_errExpectedButGot s)) p Q"
  by (intro wp_bind wp_peek wp_throw)

lemma wp_read:
  assumes "\<And>q. wp A (understood env) m q (gives P)" "\<not> is_EOF (tok p)" "\<not> is_Error (tok p)"
  shows "wp A (understood env) (pbind pa_advance (\<lambda>_. m)) p (gives_after p)"
  using assms(2,3)
  by (intro wp_bind [OF wp_advance]) (auto simp: gives_after_def moves_def intro!: wp_mono [OF assms(1)])

lemma wp_parenthesized:
  assumes "descends expr" "\<not> is_EOF (tok p)" "\<not> is_Error (tok p)"
  shows "wp A (understood env) (pa_parenthesized expr) p (gives_after p)"
  unfolding pa_parenthesized_def
  using assms(2,3)
  by (intro wp_read wp_bind wp_mono [OF descendsD [OF assms(1)]] wp_consume wp_return)
    (auto simp: is_RParen_def gives_def gives_after_def)

lemma wp_primary:
  assumes "descends expr"
  shows "wp A (understood env) (pa_primary env expr) p (gives_after p)"
  unfolding pa_primary_def
proof (intro wp_bind wp_peek)
  assume "valid A p"
  have key: "wp A (understood env) (pbind pa_advance (\<lambda>_. pa_afterKey env k)) p (gives_after p)"
    if "\<not> is_EOF (tok p)" "\<not> is_Error (tok p)" for k
    using that by (intro wp_read wp_afterKey)
  show "wp A (understood env) (case tok p of
         TkTrue _ \<Rightarrow> pbind pa_advance (\<lambda>_. preturn (Some TrueExpr))
       | TkFalse _ \<Rightarrow> pbind pa_advance (\<lambda>_. preturn (Some FalseExpr))
       | TkLParen _ \<Rightarrow> pa_parenthesized expr
       | TkStr _ key \<Rightarrow> pbind pa_advance (\<lambda>_. pa_afterKey env key)
       | TkEOF off \<Rightarrow>
           (\<lambda>p. pthrow Parse_error
              (push_parsingError \<lparr>pe_message = errorUnexpectedEOF, pe_offset = off, pe_lexeme = [],
                 pe_additionalInfo = Some hintUnexpectedEOF\<rparr> p))
       | _ \<Rightarrow> pbind pa_peek (throw_errExpectedButGot expectedPrimary)) p (gives_after p)"
    using key wp_parenthesized [OF assms, of p]
    by (cases "tok p") (simp_all add: wp_throws_at_peek wp_throw_push wp_read wp_return)
qed

lemma wp_negation:
  "(\<And>x. e = Some x \<Longrightarrow> P x) \<Longrightarrow> e \<noteq> None \<Longrightarrow> pa_current q < pa_current p \<Longrightarrow>
   wp A ok (case e of None \<Rightarrow> preturn None | Some e \<Rightarrow> plift (map_option Some (negate n (constants env) e))) p (gives_after q)"
  using negation by (cases e) (auto intro!: wp_lift simp: gives_after_def)

lemma wp_negated:
  assumes "descends expr"
  shows "wp A (understood env) (pa_negated env n expr) p (gives_after p)"
  unfolding pa_negated_def
proof (intro wp_bind wp_peek)
  assume "valid A p"
  have paren: "wp A (understood env) (pbind (pa_parenthesized expr) (\<lambda>e.
      case e of None \<Rightarrow> preturn None | Some e \<Rightarrow> plift (map_option Some (negate n (constants env) e)))) p (gives_after p)"
    if "\<not> is_EOF (tok p)" "\<not> is_Error (tok p)"
    using that by (intro wp_bind wp_mono [OF wp_parenthesized [OF assms]] wp_negation) (auto simp: gives_def gives_after_def)
  show "wp A (understood env) (case tok p of
         TkTrue _ \<Rightarrow> pbind pa_advance (\<lambda>_. preturn (Some FalseExpr))
       | TkFalse _ \<Rightarrow> pbind pa_advance (\<lambda>_. preturn (Some TrueExpr))
       | TkLParen _ \<Rightarrow>
           pbind (pa_parenthesized expr) (\<lambda>e.
             case e of None \<Rightarrow> preturn None | Some e \<Rightarrow> plift (map_option Some (negate n (constants env) e)))
       | TkStr _ key \<Rightarrow> pbind pa_advance (\<lambda>_. preturn (Some (ContextKeyNotExpr_create (constants env) key None)))
       | _ \<Rightarrow> throw_errExpectedButGot expectedNegated (tok p)) p (gives_after p)"
    using paren by (cases "tok p") (simp_all add: wp_throw wp_read wp_return)
qed

lemma wp_term:
  assumes "descends expr"
  shows "descends (pa_term env n expr)"
  unfolding pa_term_def
proof (intro descendsI wp_bind [OF wp_matchOne])
  fix p
  have "wp A (understood env) (pa_negated env n expr) (next_token p) (gives_after p)"
    by (rule wp_mono [OF wp_negated [OF assms]]) (simp add: gives_after_def)
  then show "wp A (understood env) (if True then pa_negated env n expr else pa_primary env expr) (next_token p) (gives_after p)"
    by simp
qed (auto simp: is_Neg_def wp_primary [OF assms])

abbreviation all_given :: "expr option list \<Rightarrow> bool" where
  "all_given es \<equiv> es \<noteq> [] \<and> (\<forall>e\<in>set es. \<exists>x. e = Some x \<and> P x)"

lemma wp_more_operands:
  assumes "descends operand" "\<And>t. op t \<Longrightarrow> \<not> is_EOF t \<and> understood env t" "all_given acc"
  shows "wp A (understood env) (more_operands n op operand acc) p (\<lambda>es _. all_given es)"
  using assms(3)
proof (induction n arbitrary: acc p)
  case 0
  then show ?case by (simp add: wp_def)
next
  case (Suc n)
  have more: "wp A (understood env) (pbind operand (\<lambda>right. more_operands n op operand (acc @ [right]))) q
      (\<lambda>es _. all_given es)" for q
    by (intro wp_bind wp_mono [OF descendsD [OF assms(1)]] Suc.IH) (use Suc.prems in \<open>auto simp: gives_def gives_after_def\<close>)
  show ?case
    unfolding grammar_Suc using assms(2) Suc.prems more by (auto intro!: wp_bind [OF wp_matchOne] wp_return)
qed

lemma wp_level:
  assumes "descends operand" "\<And>t. op t \<Longrightarrow> \<not> is_EOF t \<and> understood env t"
    and "\<And>es r. all_given es \<Longrightarrow> create es = Some r \<Longrightarrow> \<exists>x. r = Some x \<and> P x"
  shows "descends (pbind operand (\<lambda>first. pbind (more_operands n op operand [first])
    (\<lambda>es. if length es = 1 then preturn (hd es) else plift (create es))))"
proof (intro descendsI wp_bind wp_mono [OF descendsD [OF assms(1)]])
  fix p first q
  assume q: "gives_after p first q"
  have rest: "wp A (understood env) (if length es = 1 then preturn (hd es) else plift (create es)) q' (gives_after p)"
    if "all_given es" "moves (understood env) q q'" for es q'
    using that q assms(3) [of es] by (auto intro!: wp_return wp_lift simp: gives_def gives_after_def moves_def)
  show "wp A (understood env) (more_operands n op operand [first]) q
      (\<lambda>es q'. wp A (understood env) (if length es = 1 then preturn (hd es) else plift (create es)) q' (gives_after p))"
    using q by (intro wp_mono [OF wp_more_operands] assms(1,2) rest) (auto simp: gives_def gives_after_def)
qed

lemma given_all: "all_given es \<Longrightarrow> given es \<noteq> {}" "all_given es \<Longrightarrow> \<forall>e\<in>given es. P e"
  using given_nonempty [of es] by (auto simp: given_def)

lemma level_and: "descends operand \<Longrightarrow> descends (pa_and env n operand)"
  unfolding pa_and_def by (rule wp_level) (auto simp: is_And_def intro: conjunction [OF given_all])

lemma level_or: "descends operand \<Longrightarrow> descends (pa_or env n operand)"
  unfolding pa_or_def by (rule wp_level) (auto simp: is_Or_def intro: disjunction [OF given_all])

lemma pa_expr_descends: "descends (pa_expr env n)"
proof (induction n)
  case 0
  then show ?case by (simp add: descends_def wp_def)
next
  case (Suc n)
  then show ?case unfolding grammar_Suc by (intro level_or level_and wp_term)
qed

end

text \<open>Conjunctions and disjunctions with elements, for all tokens.\<close>

lemma solid_leaves [simp]:
  "solid (RegexExpr k r)" "solid (NotRegexExpr k r)" "solid (InExpr k l)" "solid (NotInExpr k l)"
  "solid (DefinedExpr k None)" "solid (NotExpr k None)" "solid (EqualsExpr k v None)" "solid (NotEqualsExpr k v None)"
  "solid (GreaterExpr k v None)" "solid (GreaterEqualsExpr k v None)" "solid (SmallerExpr k v None)"
  "solid (SmallerEqualsExpr k v None)"
  by (simp_all add: solid_atom is_atom_def cached_def)

lemmas leaf_defs = ContextKeyRegexExpr_create_def ContextKeyExpr_has_def ContextKeyExpr_not_def ContextKeyExpr_equals_def ContextKeyExpr_notEquals_def
  create_defs withFloatOrStr_def Let_def

lemma solid_created [simp]:
  "solid (ContextKeyRegexExpr_create k r)" "solid (ContextKeyInExpr_create k l)" "solid (ContextKeyNotInExpr_create k l)"
  "solid (ContextKeyExpr_has cs k)" "solid (ContextKeyExpr_not cs k)" "solid (ContextKeyNotExpr_create cs k None)"
  "solid (ContextKeyExpr_equals cs k v)" "solid (ContextKeyExpr_notEquals cs k v)"
  "solid (ContextKeySmallerExpr_create k v None)" "solid (ContextKeySmallerEqualsExpr_create k v None)"
  "solid (ContextKeyGreaterExpr_create k v None)" "solid (ContextKeyGreaterEqualsExpr_create k v None)"
  by (simp_all add: leaf_defs split: option.split prim.split jsnum.split)

lemma solid_equality_expr [simp]: "solid (equality_expr cs key b v t)"
  by (simp add: equality_expr_def Let_def)

lemma creates_solid:
  assumes "given es \<noteq> {}" "\<forall>e\<in>given es. solid e"
  shows "ContextKeyExpr_and n cs es = Some r \<Longrightarrow> \<exists>x. r = Some x \<and> solid x"
    and "ContextKeyExpr_or n cs es = Some r \<Longrightarrow> \<exists>x. r = Some x \<and> solid x"
proof -
  have ops: "makes (and_create n cs)" "makes (or_create n cs)" using operations_solid by blast+
  show "\<exists>x. r = Some x \<and> solid x" if r: "ContextKeyExpr_and n cs es = Some r"
    by (rule makesD [OF ops(1) r [unfolded ContextKeyExpr_and_def] assms(2,1)]) auto
  show "\<exists>x. r = Some x \<and> solid x" if r: "ContextKeyExpr_or n cs es = Some r"
    by (rule makesD [OF ops(2) r [unfolded ContextKeyExpr_or_def] assms(2,1)]) auto
qed

interpretation solid_parse: parsed_expressions env "\<lambda>_. True" solid for env
  by unfold_locales (use creates_solid operations_solid in \<open>auto simp: negates_solid_def\<close>)

section \<open>What a parse reports\<close>

definition parse_body :: "penv \<Rightarrow> nat \<Rightarrow> expr option parse" where
  "parse_body env n =
     pbind (pa_expr env n) (\<lambda>expr.
     pbind pa_isAtEnd (\<lambda>atEnd.
       if \<not> atEnd then
         pbind pa_peek (\<lambda>t p.
           pthrow Parse_error
             (push_parsingError \<lparr>pe_message = errorUnexpectedToken, pe_offset = offset t, pe_lexeme = getLexeme t,
                pe_additionalInfo = (if is_Str t then Some hintUnexpectedToken else None)\<rparr> p))
       else preturn expr))"

definition parse_start :: "string \<Rightarrow> parser \<Rightarrow> parser" where
  "parse_start input p =
     (let (toks, scanner) = Scanner_scan (Scanner_reset input (pa_scanner p))
      in p\<lparr>pa_scanner := scanner, pa_tokens := toks, pa_current := 0, pa_parsingErrors := []\<rparr>)"

lemma Parser_parse_eq:
  "input \<noteq> [] \<Longrightarrow> Parser_parse env n input p =
     (case parse_body env n (parse_start input p) of
        Some (Inl Parse_error, p) \<Rightarrow> preturn None p
      | r \<Rightarrow> r)"
  by (simp add: Parser_parse_def parse_body_def parse_start_def Let_def split: prod.splits)

lemma parse_start_valid:
  "valid (\<lambda>_. True) (parse_start input p)" "pa_current (parse_start input p) = 0" "pa_parsingErrors (parse_start input p) = []"
  "\<exists>ts. pa_tokens (parse_start input p) = ts @ [TkEOF (length input)] \<and> list_all (\<lambda>t. \<not> is_EOF t) ts
     \<and> filter is_Error ts = map error_token (lexingErrors (parse_start input p))"
proof -
  obtain ts where "fst (Scanner_scan (Scanner_reset input (pa_scanner p))) = ts @ [TkEOF (length input)]"
    "list_all (\<lambda>t. \<not> is_EOF t) ts"
    "filter is_Error ts = map error_token (sc_errors (snd (Scanner_scan (Scanner_reset input (pa_scanner p)))))"
    using scan_result [of input "pa_scanner p"] by blast
  then show "valid (\<lambda>_. True) (parse_start input p)" "pa_current (parse_start input p) = 0" "pa_parsingErrors (parse_start input p) = []"
    "\<exists>ts. pa_tokens (parse_start input p) = ts @ [TkEOF (length input)] \<and> list_all (\<lambda>t. \<not> is_EOF t) ts
     \<and> filter is_Error ts = map error_token (lexingErrors (parse_start input p))"
    by (auto simp: parse_start_def valid_def lexingErrors_def list.pred_True split: prod.splits)
qed

lemma wp_body: "wp (\<lambda>_. True) (understood env) (parse_body env n) p (\<lambda>e p'. gives solid e p' \<and> is_EOF (tok p'))"
  unfolding parse_body_def
proof (intro wp_bind wp_mono [OF solid_parse.descendsD [OF solid_parse.pa_expr_descends]] wp_isAtEnd)
  fix e p'
  assume "solid_parse.gives_after p e p'"
  then have "gives solid e p'" by (simp add: solid_parse.gives_after_def)
  moreover have "wp (\<lambda>_. True) (understood env) (pbind pa_peek (\<lambda>t p.
           pthrow Parse_error
             (push_parsingError \<lparr>pe_message = errorUnexpectedToken, pe_offset = offset t, pe_lexeme = getLexeme t,
                pe_additionalInfo = (if is_Str t then Some hintUnexpectedToken else None)\<rparr> p))) p' Q" for Q :: "expr option \<Rightarrow> parser \<Rightarrow> bool"
    by (intro wp_bind wp_peek wp_throw_push)
  ultimately show "wp (\<lambda>_. True) (understood env) (if \<not> is_EOF (tok p') then pbind pa_peek (\<lambda>t p.
           pthrow Parse_error
             (push_parsingError \<lparr>pe_message = errorUnexpectedToken, pe_offset = offset t, pe_lexeme = getLexeme t,
                pe_additionalInfo = (if is_Str t then Some hintUnexpectedToken else None)\<rparr> p))
       else preturn e) p' (\<lambda>e p'. gives solid e p' \<and> is_EOF (tok p'))"
    by (simp add: wp_return)
qed

text \<open>A parse that reaches the end has moved over all tokens.\<close>

lemma at_end:
  assumes "moves ok p p'" "pa_current p = 0" "pa_tokens p = ts @ [TkEOF k]" "list_all (\<lambda>t. \<not> is_EOF t) ts" "is_EOF (tok p')"
  shows "pa_tokens p' = pa_tokens p \<and> pa_current p' = length ts \<and> list_all ok ts"
proof -
  obtain j where j: "p' = p\<lparr>pa_current := j\<rparr>" "j \<le> length ts" "\<forall>i<j. ok (pa_tokens p ! i)"
    using assms(1-3) by (auto simp: moves_def)
  have "j = length ts"
  proof (rule ccontr)
    assume "j \<noteq> length ts"
    with j(2) have "j < length ts" by simp
    with assms(3-5) j(1) show False by (simp add: nth_append list_all_length)
  qed
  with j assms(3) show ?thesis by (auto simp: list_all_length nth_append)
qed

lemma clause_errors_Nil: "clause_errors p = [] \<longleftrightarrow> lexingErrors p = [] \<and> pa_parsingErrors p = []"
  by (simp add: clause_errors_def)

lemma parse_outcome:
  assumes "input \<noteq> []" "Parser_parse env n input p = Some (r, p')"
  obtains e where "r = Inr (Some e)" "solid e" "pa_parsingErrors p' = []" "pa_current p' + 1 = length (pa_tokens p')"
      "\<not> regexParsingWithErrorRecovery env \<Longrightarrow> lexingErrors p' = []"
  | pe where "r = Inr None" "pa_parsingErrors p' = [pe]"
proof -
  let ?p = "parse_start input p"
  note start = parse_start_valid [of input p]
  obtain ts where ts: "pa_tokens ?p = ts @ [TkEOF (length input)]" "list_all (\<lambda>t. \<not> is_EOF t) ts"
    "filter is_Error ts = map error_token (lexingErrors ?p)" using start(4) by blast
  obtain o' q where body: "parse_body env n ?p = Some (o', q)"
    using assms by (cases "parse_body env n ?p") (auto simp: Parser_parse_eq)
  show thesis
  proof (cases o')
    case (Inl e)
    then have "e = Parse_error" "fails ?p q" using wp_body [of env n ?p] start(1) body by (auto simp: wp_def)
    with that(2) assms body Inl start(3) show thesis
      by (auto simp: Parser_parse_eq preturn_def fails_def push_parsingError_def)
  next
    case (Inr e)
    then have m: "moves (understood env) ?p q" "gives solid e q" "is_EOF (tok q)"
      using wp_body [of env n ?p] start(1) body by (auto simp: wp_def)
    have rq: "r = Inr e" "p' = q" using assms body Inr by (auto simp: Parser_parse_eq)
    note fin = at_end [OF m(1) start(2) ts(1,2) m(3)]
    have same: "pa_scanner q = pa_scanner ?p" "pa_parsingErrors q = []"
      using m(1) start(3) by (auto simp: moves_def)
    have "lexingErrors q = []" if "\<not> regexParsingWithErrorRecovery env"
    proof -
      have "filter is_Error ts = []" using fin that by (auto simp: list_all_iff understood_def filter_empty_conv)
      with ts(3) same show ?thesis by (simp add: lexingErrors_def)
    qed
    with that(1) m(2) rq fin same ts(1) show thesis by (auto simp: gives_def)
  qed
qed


definition sample_env :: penv where
  "sample_env = \<lparr>regexParsingWithErrorRecovery = False,
     new_RegExp = (\<lambda>source flags. Some (source, case flags of None \<Rightarrow> [] | Some f \<Rightarrow> f)), constants = Map.empty\<rparr>"

lemma sample_parse:
  "map_option fst (Parser_parse sample_env 6 ''a && !b'' Parser_new) =
     Some (Inr (Some (AndExpr [DefinedExpr ''a'' None, NotExpr ''b'' None] None)))"
  by code_simp


text \<open>
  The empty clause: the errors of the clause before it are still there, so they are reported twice;
  without a clause before it there is the error that the clause is empty.
\<close>

lemma empty_clause_repeats_errors:
  "map_option (\<lambda>(r, _). case r of Inr es \<Rightarrow> map (map ce_offset) es | Inl _ \<Rightarrow> [])
     (validateWhenClauses sample_env 3 [''a = b'', []]) = Some [[2], [2]]"
  "map_option (\<lambda>(r, _). case r of Inr es \<Rightarrow> map (map ce_offset) es | Inl _ \<Rightarrow> [])
     (validateWhenClauses sample_env 3 [''a b'', []]) = Some [[2], [2, 0]]"
  by code_simp+

end
