(* ===== verification/ContextKeyParserReturns.thy ===== *)
theory ContextKeyParserReturns
  imports ContextKeyParserProps
begin

text \<open>
  The parser of \<open>when\<close> clauses ends. Its descent and its loops end because every operand reads a token;
  what remains are the operations on expressions, which end on disjunctive normal forms. So a bound
  on the depth that is large enough exists for every input without memberships and comparisons of
  numbers, and from it on the result is always the same.
\<close>

section \<open>Parts that need no bound\<close>

definition ends :: "'a parse \<Rightarrow> bool" where
  "ends m \<longleftrightarrow> (\<forall>p. m p \<noteq> None)"

lemma ends_bind [intro!]: "ends m \<Longrightarrow> (\<And>x. ends (f x)) \<Longrightarrow> ends (pbind m f)"
  by (simp add: ends_def pbind_def split: option.split sum.split)

lemma ends_basic [simp]:
  "ends (preturn x)" "ends (throw_errExpectedButGot s t)" "ends pa_peek" "ends pa_previous"
  "ends (\<lambda>p. pthrow e (f p))"
  by (simp_all add: ends_def preturn_def throw_errExpectedButGot_def pthrow_def pa_peek_def pa_previous_def Let_def)

lemma ends_tokens [simp]: "ends pa_isAtEnd" "ends pa_advance" "ends (pa_check type)" "ends (pa_matchOne type)"
  "ends (pa_consume type message)"
proof -
  show "ends pa_isAtEnd" by (auto simp: pa_isAtEnd_def)
  then show adv: "ends pa_advance" by (auto simp: pa_advance_def ends_def pbind_def split: option.split sum.split)
  show "ends (pa_check type)" by (auto simp: pa_check_def)
  with adv show "ends (pa_matchOne type)" "ends (pa_consume type message)"
    by (auto simp: pa_matchOne_def pa_consume_def)
qed

lemma ends_value [simp]: "ends pa_value"
  unfolding pa_value_def by (intro ends_bind) (auto split: token.split)

lemma ends_recover_loop [simp]: "ends (recover_loop l b acc)"
proof -
  have "recover_loop l b acc p \<noteq> None" for p
  proof (induction l b acc p rule: recover_loop.induct)
    case (1 l b acc p)
    then show ?case by (subst recover_loop.simps) (auto simp: Let_def)
  qed
  then show ?thesis by (simp add: ends_def)
qed

lemma ends_created [simp]:
  "ends (case r of Some x \<Rightarrow> preturn (Some (ContextKeyRegexExpr_create key (Some x))) | None \<Rightarrow> throw_errExpectedButGot s t)"
  by (simp split: option.split)

lemma ends_regex [simp]: "ends (pa_regex env key)"
proof -
  have strict: "ends (pa_regexStrict env key t)" for t
    unfolding pa_regexStrict_def by (intro ends_bind) (simp_all split: token.split)
  have lenient: "ends (pa_regexRecovering env key t)" for t
    unfolding pa_regexRecovering_def Let_def by (simp split: if_split) (intro conjI impI ends_bind, simp_all split: if_split option.split)
  show ?thesis unfolding pa_regex_def by (intro ends_bind) (simp_all add: strict lenient)
qed

lemma ends_afterKey [simp]: "ends (pa_afterKey env key)"
proof -
  have operand: "ends (pa_operand create)" for create unfolding pa_operand_def by auto
  have equality: "ends (pa_equality env key b)" for b unfolding pa_equality_def by auto
  have operator: "ends (pa_operator env key)"
    unfolding pa_operator_def by (intro ends_bind) (simp_all add: operand equality split: token.split)
  have "ends (pa_notIn key)" unfolding pa_notIn_def by auto
  with operator show ?thesis unfolding pa_afterKey_def by auto
qed

section \<open>Results from some bound on\<close>

definition settled :: "parser \<Rightarrow> ('a \<Rightarrow> parser \<Rightarrow> bool) \<Rightarrow> parse_exn + 'a \<Rightarrow> parser \<Rightarrow> bool" where
  "settled p Q r p' \<longleftrightarrow> (case r of Inl _ \<Rightarrow> True | Inr x \<Rightarrow> moves (\<lambda>_. True) p p' \<and> Q x p')"

definition returns ::
  "(token \<Rightarrow> bool) \<Rightarrow> (nat \<Rightarrow> 'a parse) \<Rightarrow> parser \<Rightarrow> ('a \<Rightarrow> parser \<Rightarrow> bool) \<Rightarrow> bool" where
  "returns A F p Q \<longleftrightarrow> (valid A p \<longrightarrow> (\<exists>N r p'. (\<forall>n\<ge>N. F n p = Some (r, p')) \<and> settled p Q r p'))"

lemma settled_simps [simp]:
  "settled p Q (Inl e) p'" "settled p Q (Inr x) p' \<longleftrightarrow> moves (\<lambda>_. True) p p' \<and> Q x p'"
  by (simp_all add: settled_def)

lemma returnsE:
  assumes "returns A F p Q" "valid A p"
  obtains N r p' where "\<forall>n\<ge>N. F n p = Some (r, p')" "settled p Q r p'"
  using assms by (auto simp: returns_def)

lemma returnsI:
  "(valid A p \<Longrightarrow> \<exists>N r p'. (\<forall>n\<ge>N. F n p = Some (r, p')) \<and> settled p Q r p') \<Longrightarrow> returns A F p Q"
  by (simp add: returns_def)

lemma moves_any: "moves ok p q \<Longrightarrow> moves (\<lambda>_. True) p q"
  by (auto simp: moves_def)

lemma returns_ends:
  assumes "ends m" "wp A ok m p Q"
  shows "returns A (\<lambda>_. m) p Q"
proof (rule returnsI)
  assume p: "valid A p"
  obtain r p' where m: "m p = Some (r, p')" using assms(1) by (auto simp: ends_def) (metis not_None_eq surj_pair)
  with p assms(2) have "settled p Q r p'" by (cases r) (auto simp: wp_def moves_any)
  with m show "\<exists>N r p'. (\<forall>n\<ge>N. m p = Some (r, p')) \<and> settled p Q r p'" by blast
qed

lemma returns_bind:
  assumes "returns A F p (\<lambda>x q. returns A (\<lambda>n. G n x) q Q)"
  shows "returns A (\<lambda>n. pbind (F n) (G n)) p Q"
proof (rule returnsI)
  assume p: "valid A p"
  from returnsE [OF assms p] obtain N r q where N: "\<forall>n\<ge>N. F n p = Some (r, q)"
    "settled p (\<lambda>x q. returns A (\<lambda>n. G n x) q Q) r q" .
  show "\<exists>N r p'. (\<forall>n\<ge>N. pbind (F n) (G n) p = Some (r, p')) \<and> settled p Q r p'"
  proof (cases r)
    case (Inl e)
    with N(1) show ?thesis by (intro exI [of _ N] exI [of _ "Inl e"] exI [of _ q]) (simp add: pbind_def)
  next
    case (Inr x)
    with N(2) have q: "moves (\<lambda>_. True) p q" "returns A (\<lambda>n. G n x) q Q" by simp_all
    from returnsE [OF q(2) moves_valid [OF q(1) p]] obtain M s p' where
      M: "\<forall>n\<ge>M. G n x q = Some (s, p')" "settled q Q s p'" .
    have "settled p Q s p'" using M(2) moves_trans [OF q(1)] by (cases s) auto
    with N(1) M(1) Inr show ?thesis
      by (intro exI [of _ "max N M"] exI [of _ s] exI [of _ p']) (simp add: pbind_def)
  qed
qed

lemma returns_mono:
  assumes "returns A F p Q" "\<And>x p'. moves (\<lambda>_. True) p p' \<Longrightarrow> Q x p' \<Longrightarrow> R x p'"
  shows "returns A F p R"
proof (rule returnsI)
  assume "valid A p"
  from returnsE [OF assms(1) this] obtain N r p' where N: "\<forall>n\<ge>N. F n p = Some (r, p')" "settled p Q r p'" .
  then have "settled p R r p'" using assms(2) by (cases r) auto
  with N(1) show "\<exists>N r p'. (\<forall>n\<ge>N. F n p = Some (r, p')) \<and> settled p R r p'" by blast
qed

lemma returns_valid: "(valid A p \<Longrightarrow> returns A F p Q) \<Longrightarrow> returns A F p Q"
  by (auto simp: returns_def)

lemma returns_Suc:
  assumes "returns A (\<lambda>n. F (Suc n)) p Q"
  shows "returns A F p Q"
proof (rule returnsI)
  assume "valid A p"
  from returnsE [OF assms this] obtain N r p' where N: "\<forall>n\<ge>N. F (Suc n) p = Some (r, p')" "settled p Q r p'" .
  then have "\<forall>n\<ge>Suc N. F n p = Some (r, p')" by (metis Suc_le_D Suc_le_mono)
  with N(2) show "\<exists>N r p'. (\<forall>n\<ge>N. F n p = Some (r, p')) \<and> settled p Q r p'" by blast
qed

lemma returns_lift:
  assumes "\<exists>N x. (\<forall>n\<ge>N. f n = Some x) \<and> Q x p"
  shows "returns A (\<lambda>n. plift (f n)) p Q"
proof (rule returnsI)
  assume "valid A p"
  then have "moves (\<lambda>_. True) p p" by (simp add: valid_def moves_refl)
  moreover obtain N x where N: "\<forall>n\<ge>N. f n = Some x" "Q x p" using assms by blast
  moreover have "\<forall>n\<ge>N. plift (f n) p = Some (Inr x, p)" using N(1) by (simp add: plift_def)
  ultimately have "\<forall>n\<ge>N. plift (f n) p = Some (Inr x, p)" "settled p Q (Inr x) p" by simp_all
  then show "\<exists>N r p'. (\<forall>n\<ge>N. plift (f n) p = Some (r, p')) \<and> settled p Q r p'" by blast
qed

lemma returns_cong: "(\<And>n. F n p = G n p) \<Longrightarrow> returns A G p Q \<Longrightarrow> returns A F p Q"
  by (simp add: returns_def)

lemma returns_return: "(valid A p \<Longrightarrow> Q x p) \<Longrightarrow> returns A (\<lambda>_. preturn x) p Q"
  by (rule returns_ends [OF ends_basic(1) wp_return])

lemma returns_read:
  assumes "\<not> is_EOF (tok p)" "returns A F (next_token p) Q"
  shows "returns A (\<lambda>n. pbind pa_advance (\<lambda>_. F n)) p (\<lambda>x p'. Q x p' \<and> pa_current p < pa_current p')"
proof (intro returns_bind returns_ends [where ok = "\<lambda>_. True"] wp_advance)
  show "True \<and> returns A F (next_token p) (\<lambda>x p'. Q x p' \<and> pa_current p < pa_current p')"
    by (intro conjI TrueI returns_mono [OF assms(2)]) (auto simp: moves_def)
qed (use assms(1) in auto)

lemma returns_match:
  assumes "\<And>t. type t \<Longrightarrow> \<not> is_EOF t"
    and "valid A p \<Longrightarrow> type (tok p) \<Longrightarrow> returns A (\<lambda>n. G n True) (next_token p) Q"
    and "valid A p \<Longrightarrow> \<not> type (tok p) \<Longrightarrow> returns A (\<lambda>n. G n False) p Q"
  shows "returns A (\<lambda>n. pbind (pa_matchOne type) (G n)) p Q"
  by (intro returns_bind returns_ends [where ok = "\<lambda>_. True"] wp_matchOne) (use assms in auto)

section \<open>The descent\<close>

definition left :: "parser \<Rightarrow> nat" where
  "left p = length (pa_tokens p) - pa_current p"

lemma left_next: "valid A p \<Longrightarrow> left (next_token p) < left p"
  by (auto simp: left_def valid_def)

lemma left_moves: "moves ok p q \<Longrightarrow> left q \<le> left p"
  by (auto simp: left_def moves_def)

lemma left_less: "moves ok p q \<Longrightarrow> pa_current p < pa_current q \<Longrightarrow> left q < left p"
  by (auto simp: left_def moves_def)

text \<open>What is needed besides: the operations end on the expressions that satisfy \<open>P\<close>.\<close>

locale returning_expressions = parsed_expressions +
  assumes negation_returns: "P e \<Longrightarrow> \<exists>N x. \<forall>n\<ge>N. negate n (constants env) e = Some x"
    and conjunction_returns: "given es \<noteq> {} \<Longrightarrow> \<forall>e\<in>given es. P e \<Longrightarrow>
      \<exists>N x. \<forall>n\<ge>N. ContextKeyExpr_and n (constants env) es = Some x"
    and disjunction_returns: "given es \<noteq> {} \<Longrightarrow> \<forall>e\<in>given es. P e \<Longrightarrow>
      \<exists>N x. \<forall>n\<ge>N. ContextKeyExpr_or n (constants env) es = Some x"
begin

text \<open>A parser that ends from all states with less than \<open>k\<close> tokens left.\<close>

definition ends_below :: "nat \<Rightarrow> (nat \<Rightarrow> expr option parse) \<Rightarrow> bool" where
  "ends_below k F \<longleftrightarrow> (\<forall>p. left p < k \<longrightarrow> returns A F p (gives_after p))"

lemma ends_belowD: "ends_below k F \<Longrightarrow> left p < k \<Longrightarrow> returns A F p (gives_after p)"
  by (simp add: ends_below_def)

lemma returns_parenthesized:
  assumes "ends_below k F" "left p \<le> k" "\<not> is_EOF (tok p)"
  shows "returns A (\<lambda>n. pa_parenthesized (F n)) p (gives_after p)"
proof (rule returns_valid)
  assume "valid A p"
  then have below: "left (next_token p) < k" using left_next [of A p] assms(2) by simp
  have rest: "returns A (\<lambda>_. pbind (pa_consume is_RParen errorClosingParenthesis) (\<lambda>_. preturn e)) q (gives P)"
    if "gives P e q" for e q
    by (rule returns_ends [where ok = "\<lambda>_. True"])
      (use that in \<open>auto simp: is_RParen_def gives_def intro!: wp_bind [OF wp_consume] wp_return\<close>)
  have "returns A (\<lambda>n. pbind (F n) (\<lambda>e. pbind (pa_consume is_RParen errorClosingParenthesis) (\<lambda>_. preturn e)))
      (next_token p) (gives P)"
    by (intro returns_bind returns_mono [OF ends_belowD [OF assms(1) below]] rest) (simp add: gives_after_def)
  from returns_read [OF assms(3) this] show "returns A (\<lambda>n. pa_parenthesized (F n)) p (gives_after p)"
    unfolding pa_parenthesized_def by (rule returns_mono) (simp add: gives_after_def)
qed

text \<open>Outside of parentheses the inner parser is not called, so any other one may stand there.\<close>

abbreviation no_expr :: "expr option parse" where
  "no_expr \<equiv> throw_errExpectedButGot [] (TkEOF 0)"

lemma no_expr_descends: "descends no_expr"
  by (intro descendsI wp_throw)

lemma returns_primary:
  assumes "ends_below k F" "left p \<le> k"
  shows "returns A (\<lambda>n. pa_primary env (F n)) p (gives_after p)"
proof (rule returns_valid)
  assume p: "valid A p"
  then have peek: "pa_peek p = Some (Inr (tok p), p)" by (simp add: pa_peek_def valid_def)
  show "returns A (\<lambda>n. pa_primary env (F n)) p (gives_after p)"
  proof (cases "is_LParen (tok p)")
    case True
    then have "pa_primary env (F n) p = pa_parenthesized (F n) p" for n
      by (auto simp: pa_primary_def pbind_def peek is_LParen_def)
    with returns_parenthesized [OF assms] True show ?thesis by (auto intro: returns_cong simp: is_LParen_def)
  next
    case False
    then have "pa_primary env (F n) p = pa_primary env no_expr p" for n
      by (cases "tok p") (simp_all add: pa_primary_def pbind_def peek)
    moreover have "ends (pa_primary env no_expr)"
      unfolding pa_primary_def pa_parenthesized_def by (intro ends_bind) (auto split: token.split)
    ultimately show ?thesis
      using returns_ends [OF _ wp_primary [OF no_expr_descends]] by (auto intro: returns_cong)
  qed
qed

lemma returns_negated:
  assumes "ends_below k F" "left p \<le> k"
  shows "returns A (\<lambda>n. pa_negated env n (F n)) p (gives_after p)"
proof (rule returns_valid)
  assume p: "valid A p"
  then have peek: "pa_peek p = Some (Inr (tok p), p)" by (simp add: pa_peek_def valid_def)
  show "returns A (\<lambda>n. pa_negated env n (F n)) p (gives_after p)"
  proof (cases "is_LParen (tok p)")
    case True
    let ?G = "\<lambda>n e. case e of None \<Rightarrow> preturn None | Some e \<Rightarrow> plift (map_option Some (negate n (constants env) e))"
    have "returns A (\<lambda>n. ?G n e) q (gives_after p)" if e: "gives P e q" "pa_current p < pa_current q" for e q
    proof -
      obtain x where x: "e = Some x" "P x" using e(1) by (auto simp: gives_def)
      obtain N y where y: "\<forall>n\<ge>N. negate n (constants env) x = Some y" using negation_returns [OF x(2)] by blast
      then have "P y" using negation [OF x(2)] by blast
      then have "\<exists>N z. (\<forall>n\<ge>N. map_option Some (negate n (constants env) x) = Some z) \<and> gives_after p z q"
        using y e(2) by (intro exI [of _ N] exI [of _ "Some y"]) (simp add: gives_after_def)
      then show ?thesis unfolding x(1) option.case by (rule returns_lift)
    qed
    then have "returns A (\<lambda>n. pbind (pa_parenthesized (F n)) (?G n)) p (gives_after p)"
      using True by (intro returns_bind returns_mono [OF returns_parenthesized [OF assms]])
        (auto simp: gives_after_def is_LParen_def)
    moreover have "pa_negated env n (F n) p = pbind (pa_parenthesized (F n)) (?G n) p" for n
      using True by (auto simp: pa_negated_def pbind_def peek is_LParen_def)
    ultimately show ?thesis by (auto intro: returns_cong)
  next
    case False
    then have "pa_negated env n (F n) p = pa_negated env 0 no_expr p" for n
      by (cases "tok p") (simp_all add: pa_negated_def pbind_def peek)
    moreover obtain r where "pa_negated env 0 no_expr p = Some r"
      using False by (cases "tok p") (auto simp: pa_negated_def pbind_def peek advance_result [OF p] preturn_def
          throw_errExpectedButGot_def pthrow_def Let_def)
    ultimately show ?thesis
      using wp_negated [OF no_expr_descends, of 0 p] p
      by (cases r; cases "fst r") (auto intro!: returnsI exI [of _ 0] moves_any simp: wp_def)
  qed
qed

lemma returns_term:
  assumes "ends_below k F" "left p \<le> k"
  shows "returns A (\<lambda>n. pa_term env n (F n)) p (gives_after p)"
  unfolding pa_term_def
proof (intro returns_match)
  assume "valid A p"
  then have "left (next_token p) \<le> k" using left_next [of A p] assms(2) by simp
  from returns_negated [OF assms(1) this]
  show "returns A (\<lambda>n. if True then pa_negated env n (F n) else pa_primary env (F n)) (next_token p) (gives_after p)"
    by (simp, elim returns_mono) (simp add: gives_after_def)
qed (auto simp: is_Neg_def returns_primary [OF assms])

lemma more_settles:
  assumes "ends_below k F" "left p \<le> k" "\<And>t. op t \<Longrightarrow> \<not> is_EOF t" "all_given acc" "valid A p"
  shows "\<exists>N r p'. (\<forall>m\<ge>N. \<forall>n\<ge>N. more_operands m op (F n) acc p = Some (r, p')) \<and> settled p (\<lambda>es _. all_given es) r p'"
  using assms(2,4,5)
proof (induction "left p" arbitrary: p acc rule: less_induct)
  case less
  note p = less.prems(3)
  have peek: "pa_peek p = Some (Inr (tok p), p)" using p by (simp add: pa_peek_def valid_def)
  have refl: "moves (\<lambda>_. True) p p" using p by (simp add: valid_def moves_refl)
  show ?case
  proof (cases "op (tok p)")
    case False
    then have "more_operands (Suc m) op (F n) acc p = Some (Inr acc, p)" for m n
      by (simp add: grammar_Suc pa_matchOne_def pa_check_def pbind_def peek preturn_def)
    then have "\<forall>m\<ge>1. \<forall>n\<ge>1. more_operands m op (F n) acc p = Some (Inr acc, p)"
      by (metis One_nat_def Suc_le_D)
    with less.prems(2) refl show ?thesis by (intro exI [of _ 1] exI [of _ "Inr acc"] exI [of _ p]) simp
  next
    case True
    let ?q = "next_token p"
    have step: "more_operands (Suc m) op (F n) acc p =
        pbind (F n) (\<lambda>right. more_operands m op (F n) (acc @ [right])) ?q" for m n
      using True assms(3) [OF True]
      by (simp add: grammar_Suc pa_matchOne_def pa_check_def pbind_def peek preturn_def advance_result [OF p])
    have move: "moves (\<lambda>_. True) p ?q" using moves_next [OF p assms(3) [OF True], of "\<lambda>_. True"] by simp
    note q = moves_valid [OF move p]
    have "left ?q < k" using left_next [OF p] less.prems(1) by simp
    from returnsE [OF ends_belowD [OF assms(1) this] q] obtain N r q' where
      N: "\<forall>n\<ge>N. F n ?q = Some (r, q')" "settled ?q (gives_after ?q) r q'" .
    show ?thesis
    proof (cases r)
      case (Inl e)
      have "more_operands m op (F n) acc p = Some (Inl e, q')" if mn: "Suc N \<le> m" "Suc N \<le> n" for m n
      proof -
        obtain m' where "m = Suc m'" using mn(1) by (cases m) auto
        with mn(2) N(1) Inl show ?thesis by (simp add: step pbind_def)
      qed
      then have "\<forall>m\<ge>Suc N. \<forall>n\<ge>Suc N. more_operands m op (F n) acc p = Some (Inl e, q')" by blast
      then show ?thesis by (intro exI [of _ "Suc N"] exI [of _ "Inl e"] exI [of _ q']) simp
    next
      case (Inr x)
      with N(2) have x: "moves (\<lambda>_. True) ?q q'" "gives P x q'" by (auto simp: gives_after_def)
      have "left q' < left p" using left_moves [OF x(1)] left_next [OF p] by simp
      moreover have "all_given (acc @ [x])" using less.prems(2) x(2) by (auto simp: gives_def)
      ultimately obtain M s p' where M: "\<forall>m\<ge>M. \<forall>n\<ge>M. more_operands m op (F n) (acc @ [x]) q' = Some (s, p')"
        "settled q' (\<lambda>es _. all_given es) s p'"
        using less.hyps [of q' "acc @ [x]"] less.prems(1) moves_valid [OF x(1) q] by auto
      have "more_operands m op (F n) acc p = Some (s, p')" if mn: "Suc (max N M) \<le> m" "Suc (max N M) \<le> n" for m n
      proof -
        obtain m' where "m = Suc m'" "max N M \<le> m'" using mn(1) by (cases m) auto
        with mn(2) N(1) M(1) Inr show ?thesis by (simp add: step pbind_def)
      qed
      moreover have "settled p (\<lambda>es _. all_given es) s p'"
        using M(2) moves_trans [OF move moves_trans [OF x(1)]] by (cases s) auto
      ultimately show ?thesis by blast
    qed
  qed
qed

lemma returns_level:
  assumes "ends_below k F" "\<And>t. op t \<Longrightarrow> \<not> is_EOF t"
    and "\<And>es. all_given es \<Longrightarrow> \<exists>N x. (\<forall>n\<ge>N. create n es = Some (Some x)) \<and> P x"
  shows "ends_below k (\<lambda>n. pbind (F n) (\<lambda>first. pbind (more_operands n op (F n) [first])
    (\<lambda>es. if length es = 1 then preturn (hd es) else plift (create n es))))"
  unfolding ends_below_def
proof (intro allI impI returns_bind)
  fix p
  assume below: "left p < k"
  have rest: "returns A (\<lambda>n. if length es = 1 then preturn (hd es) else plift (create n es)) q (gives_after p)"
    if es: "all_given es" "pa_current p < pa_current q" for es q
  proof (cases "length es = 1")
    case True
    with es show ?thesis by (cases es) (auto intro!: returns_return simp: gives_after_def)
  next
    case False
    obtain N x where "\<forall>n\<ge>N. create n es = Some (Some x)" "P x" using assms(3) [OF es(1)] by blast
    then have "\<exists>N z. (\<forall>n\<ge>N. create n es = Some z) \<and> gives_after p z q"
      using es(2) by (intro exI [of _ N] exI [of _ "Some x"]) (simp add: gives_after_def)
    with False show ?thesis by (simp add: returns_lift)
  qed
  have more: "returns A (\<lambda>n. more_operands n op (F n) [first]) q (\<lambda>es _. all_given es)"
    if first: "gives_after p first q" and q: "moves (\<lambda>_. True) p q" for first q
  proof (rule returnsI)
    assume "valid A q"
    moreover have "left q \<le> k" using left_moves [OF q] below by simp
    moreover have "all_given [first]" using first by (auto simp: gives_after_def gives_def)
    ultimately obtain N r p' where "\<forall>m\<ge>N. \<forall>n\<ge>N. more_operands m op (F n) [first] q = Some (r, p')"
      "settled q (\<lambda>es _. all_given es) r p'"
      using more_settles [OF assms(1), of q op "[first]"] assms(2) by blast
    then show "\<exists>N r p'. (\<forall>n\<ge>N. more_operands n op (F n) [first] q = Some (r, p')) \<and> settled q (\<lambda>es _. all_given es) r p'"
      by blast
  qed
  show "returns A F p (\<lambda>first q. returns A (\<lambda>n. pbind (more_operands n op (F n) [first])
      (\<lambda>es. if length es = 1 then preturn (hd es) else plift (create n es))) q (gives_after p))"
  proof (rule returns_mono [OF ends_belowD [OF assms(1) below]])
    fix first q
    assume q: "moves (\<lambda>_. True) p q" "gives_after p first q"
    then show "returns A (\<lambda>n. pbind (more_operands n op (F n) [first])
        (\<lambda>es. if length es = 1 then preturn (hd es) else plift (create n es))) q (gives_after p)"
      by (intro returns_bind returns_mono [OF more] rest) (auto simp: gives_after_def moves_def)
  qed
qed

lemma returns_and: "ends_below k F \<Longrightarrow> ends_below k (\<lambda>n. pa_and env n (F n))"
  unfolding pa_and_def
proof (rule returns_level)
  fix es
  assume es: "all_given es"
  then obtain N r where N: "\<forall>n\<ge>N. ContextKeyExpr_and n (constants env) es = Some r"
    using conjunction_returns [OF given_all] by blast
  with conjunction [OF given_all [OF es], of N r] show "\<exists>N x. (\<forall>n\<ge>N. ContextKeyExpr_and n (constants env) es = Some (Some x)) \<and> P x"
    by auto
qed (auto simp: is_And_def)

lemma returns_or: "ends_below k F \<Longrightarrow> ends_below k (\<lambda>n. pa_or env n (F n))"
  unfolding pa_or_def
proof (rule returns_level)
  fix es
  assume es: "all_given es"
  then obtain N r where N: "\<forall>n\<ge>N. ContextKeyExpr_or n (constants env) es = Some r"
    using disjunction_returns [OF given_all] by blast
  with disjunction [OF given_all [OF es], of N r] show "\<exists>N x. (\<forall>n\<ge>N. ContextKeyExpr_or n (constants env) es = Some (Some x)) \<and> P x"
    by auto
qed (auto simp: is_Or_def)

lemma pa_expr_ends: "ends_below k (pa_expr env)"
proof (induction k)
  case 0
  then show ?case by (simp add: ends_below_def)
next
  case (Suc k)
  have "ends_below (Suc k) (\<lambda>n. pa_term env n (pa_expr env n))"
    using returns_term [OF Suc] by (simp add: ends_below_def)
  from returns_or [OF returns_and [OF this]] have "ends_below (Suc k) (\<lambda>n. pa_expr env (Suc n))"
    by (simp add: grammar_Suc)
  then show ?case unfolding ends_below_def by (blast intro: returns_Suc)
qed

lemma parse_body_ends: "returns A (parse_body env) p (\<lambda>e _. gives P e p)"
proof -
  have rest: "returns A (\<lambda>_. pbind pa_isAtEnd (\<lambda>atEnd.
       if \<not> atEnd then pbind pa_peek (\<lambda>t p. pthrow Parse_error (push_parsingError (err t) p))
       else preturn e)) q (\<lambda>e _. gives P e p)" if "gives P e q" for e q and err :: "token \<Rightarrow> parsing_error"
    by (rule returns_ends [where ok = "\<lambda>_. True"])
      (use that in \<open>auto simp: gives_def intro!: wp_bind wp_isAtEnd wp_peek wp_throw_push wp_return\<close>)
  have "returns A (pa_expr env) p (gives_after p)" by (rule ends_belowD [OF pa_expr_ends lessI])
  then show ?thesis
    unfolding parse_body_def
    by (intro returns_bind, elim returns_mono) (intro rest, simp add: gives_after_def)
qed

end

section \<open>Clauses without memberships and comparisons of numbers\<close>

definition simple_token :: "token \<Rightarrow> bool" where
  "simple_token t \<longleftrightarrow> \<not> (is_In t \<or> is_Not t \<or> is_Lt t \<or> is_LtEq t \<or> is_Gt t \<or> is_GtEq t)"

lemma dnf_leaves [simp]:
  "dnf (RegexExpr k r)" "dnf (DefinedExpr k None)" "dnf (NotExpr k None)" "dnf (EqualsExpr k v None)" "dnf (NotEqualsExpr k v None)"
  by (simp_all add: atom_dnf is_atom_def cached_def)

lemma dnf_created [simp]:
  "dnf (ContextKeyRegexExpr_create k r)" "dnf (ContextKeyExpr_has cs k)" "dnf (ContextKeyNotExpr_create cs k None)"
  "dnf (ContextKeyExpr_not cs k)" "dnf (ContextKeyExpr_equals cs k v)" "dnf (ContextKeyExpr_notEquals cs k v)"
  by (simp_all add: leaf_defs split: option.split prim.split)

lemma dnf_equality_expr [simp]: "dnf (equality_expr cs key b v t)"
  by (simp add: equality_expr_def Let_def)

lemma dnf_and_returns:
  assumes "given es \<noteq> {}" "\<forall>e\<in>given es. dnf e"
  obtains N x where "\<forall>n\<ge>N. ContextKeyExpr_and n cs es = Some (Some x)" "dnf x"
proof -
  obtain i a where a: "and_create i cs es None True = Some (Some a)" "dnf a" using dnf_And_converges [OF assms] by blast
  from operations_mono(1) [OF _ a(1)] a(2) that show thesis unfolding ContextKeyExpr_and_def by blast
qed

lemma dnf_or_returns:
  assumes "given es \<noteq> {}" "\<forall>e\<in>given es. dnf e"
  obtains N x where "\<forall>n\<ge>N. ContextKeyExpr_or n cs es = Some (Some x)" "dnf x"
proof -
  obtain i a where a: "or_create i cs es None True = Some (Some a)" "dnf a"
    using dnf_Or_converges [OF assms(2,1), of None cs True] by auto
  from operations_mono(2) [OF _ a(1)] a(2) that show thesis unfolding ContextKeyExpr_or_def by blast
qed

lemma dnf_negate_returns:
  assumes "dnf e"
  obtains N x where "\<forall>n\<ge>N. negate n cs e = Some x" "dnf x"
proof -
  obtain i a where a: "negate i cs e = Some a" "dnf a" using dnf_negate_converges [OF assms] by blast
  from operations_mono(3) [OF _ a(1)] a(2) that show thesis by blast
qed

text \<open>A result at one bound is the result at all larger ones.\<close>

lemma dnf_results:
  assumes "given es \<noteq> {}" "\<forall>e\<in>given es. dnf e"
  shows "ContextKeyExpr_and n cs es = Some r \<Longrightarrow> \<exists>x. r = Some x \<and> dnf x"
    and "ContextKeyExpr_or n cs es = Some r \<Longrightarrow> \<exists>x. r = Some x \<and> dnf x"
proof -
  show "\<exists>x. r = Some x \<and> dnf x" if r: "ContextKeyExpr_and n cs es = Some r"
  proof -
    obtain N x where x: "\<forall>n\<ge>N. ContextKeyExpr_and n cs es = Some (Some x)" "dnf x" using dnf_and_returns [OF assms] by blast
    moreover have "ContextKeyExpr_and (max n N) cs es = Some r"
      using operations_mono(1) [of n "max n N"] r by (simp add: ContextKeyExpr_and_def)
    ultimately show ?thesis by auto
  qed
  show "\<exists>x. r = Some x \<and> dnf x" if r: "ContextKeyExpr_or n cs es = Some r"
  proof -
    obtain N x where x: "\<forall>n\<ge>N. ContextKeyExpr_or n cs es = Some (Some x)" "dnf x" using dnf_or_returns [OF assms] by blast
    moreover have "ContextKeyExpr_or (max n N) cs es = Some r"
      using operations_mono(2) [of n "max n N"] r by (simp add: ContextKeyExpr_or_def)
    ultimately show ?thesis by auto
  qed
qed

lemma dnf_negate_result:
  assumes "dnf e" "negate n cs e = Some e'"
  shows "dnf e'"
proof -
  obtain N x where x: "\<forall>n\<ge>N. negate n cs e = Some x" "dnf x" using dnf_negate_returns [OF assms(1)] by blast
  moreover have "negate (max n N) cs e = Some e'" using operations_mono(3) [of n "max n N"] assms(2) by simp
  ultimately show ?thesis by simp
qed

interpretation simple_parse: returning_expressions env simple_token dnf for env
proof unfold_locales
  show "\<exists>N x. \<forall>n\<ge>N. negate n (constants env) e = Some x" if "dnf e" for e
    using dnf_negate_returns [OF that] by metis
  show "\<exists>N x. \<forall>n\<ge>N. ContextKeyExpr_and n (constants env) es = Some x" "\<exists>N x. \<forall>n\<ge>N. ContextKeyExpr_or n (constants env) es = Some x"
    if "given es \<noteq> {}" "\<forall>e\<in>given es. dnf e" for es
    using dnf_and_returns [OF that] dnf_or_returns [OF that] by metis+
  show "\<exists>x. r = Some x \<and> dnf x" if "given es \<noteq> {}" "\<forall>e\<in>given es. dnf e" "ContextKeyExpr_and n (constants env) es = Some r" for es n r
    using dnf_results(1) [OF that] .
  show "\<exists>x. r = Some x \<and> dnf x" if "given es \<noteq> {}" "\<forall>e\<in>given es. dnf e" "ContextKeyExpr_or n (constants env) es = Some r" for es n r
    using dnf_results(2) [OF that] .
qed (auto simp: simple_token_def dest: dnf_negate_result)

text \<open>
  C8. Parsing ends: for every input in which no membership (\<open>in\<close>, \<open>not in\<close>) and no comparison of
  numbers occurs, there is a depth of calls from which on \<open>parse\<close> returns, always the same result in
  the same state, and an expression it gives is in disjunctive normal form.
\<close>

theorem parse_returns:
  assumes "list_all simple_token (fst (Scanner_scan (Scanner_reset input (pa_scanner p))))"
  shows "\<exists>N x p'. (\<forall>n\<ge>N. Parser_parse env n input p = Some (Inr x, p')) \<and> (case x of None \<Rightarrow> True | Some e \<Rightarrow> dnf e)"
proof (cases "input = []")
  case True
  then have "Parser_parse env n input p = Some (Inr None, push_parsingError \<lparr>pe_message = errorEmptyString,
      pe_offset = 0, pe_lexeme = [], pe_additionalInfo = Some hintEmptyString\<rparr> p)" for n
    by (simp add: Parser_parse_def preturn_def)
  then show ?thesis by (intro exI [of _ 0] exI [of _ None]) auto
next
  case False
  let ?p = "parse_start input p"
  have "valid simple_token ?p"
    using assms parse_start_valid(1) [of input p] by (auto simp: valid_def parse_start_def split: prod.splits)
  from returnsE [OF simple_parse.parse_body_ends [of env] this] obtain N r p' where
    N: "\<forall>n\<ge>N. parse_body env n ?p = Some (r, p')" "settled ?p (\<lambda>e _. gives dnf e ?p) r p'" .
  show ?thesis
  proof (cases r)
    case (Inr x)
    with N False show ?thesis
      by (intro exI [of _ N] exI [of _ x] exI [of _ p']) (auto simp: Parser_parse_eq gives_def)
  next
    case (Inl e)
    with N(1) wp_body [of env N ?p] parse_start_valid(1) [of input p] have "e = Parse_error" by (auto simp: wp_def)
    with N(1) Inl False show ?thesis
      by (intro exI [of _ N] exI [of _ None] exI [of _ p']) (simp add: Parser_parse_eq preturn_def)
  qed
qed

theorem parse_returns_witness:
  "\<exists>N x p'. (\<forall>n\<ge>N. Parser_parse sample_env n ''!(a || b)'' Parser_new = Some (Inr x, p')) \<and> (case x of None \<Rightarrow> True | Some e \<Rightarrow> dnf e)"
proof (rule parse_returns)
  show "list_all simple_token (fst (Scanner_scan (Scanner_reset ''!(a || b)'' (pa_scanner Parser_new))))" by code_simp
qed

end
