(* ===== verification/ContextKeyRoundTrip.thy ===== *)
theory ContextKeyRoundTrip
  imports ContextKeyParserReturns
begin

text \<open>
  Printing and parsing \<open>when\<close> clauses: what \<open>serialize\<close> prints of a disjunction of conjunctions of
  elementary expressions is read back by \<open>deserialize\<close> as an expression of the same meaning. The proof
  follows the text through the scanner (\<open>lexes\<close>) and its tokens, whatever their offsets, through the
  parser (\<open>reads_as\<close>).
\<close>

section \<open>Scanning printed text\<close>

abbreviation has_shapes :: "(nat \<Rightarrow> token) list \<Rightarrow> token list \<Rightarrow> bool" where
  "has_shapes fs ts \<equiv> list_all2 (\<lambda>f t. \<exists>i. t = f i) fs ts"

definition lexes :: "string \<Rightarrow> string \<Rightarrow> (nat \<Rightarrow> token) list \<Rightarrow> bool" where
  "lexes text post fs \<longleftrightarrow> (\<forall>s. drop (sc_current s) (sc_input s) = text @ post \<longrightarrow>
     (\<exists>k ts. scan_loop s = scan_loop (s\<lparr>sc_start := k, sc_current := sc_current s + length text,
        sc_tokens := sc_tokens s @ ts\<rparr>) \<and> has_shapes fs ts))"

lemma lexes_Nil: "lexes [] post []"
  unfolding lexes_def
proof (intro allI impI)
  fix s :: scanner
  show "\<exists>k ts. scan_loop s = scan_loop (s\<lparr>sc_start := k, sc_current := sc_current s + length [],
        sc_tokens := sc_tokens s @ ts\<rparr>) \<and> has_shapes [] ts"
    by (intro exI [of _ "sc_start s"] exI [of _ "[]"]) simp
qed

lemma lexes_append:
  assumes "lexes a (b @ post) fs" "lexes b post gs"
  shows "lexes (a @ b) post (fs @ gs)"
  unfolding lexes_def
proof (intro allI impI)
  fix s :: scanner
  assume s: "drop (sc_current s) (sc_input s) = (a @ b) @ post"
  then obtain k ts where a: "scan_loop s = scan_loop (s\<lparr>sc_start := k, sc_current := sc_current s + length a,
      sc_tokens := sc_tokens s @ ts\<rparr>)" "has_shapes fs ts"
    using assms(1) unfolding lexes_def by fastforce
  let ?s = "s\<lparr>sc_start := k, sc_current := sc_current s + length a, sc_tokens := sc_tokens s @ ts\<rparr>"
  have "drop (sc_current ?s) (sc_input ?s) = b @ post"
    using arg_cong [OF s, of "drop (length a)"] by (simp add: add.commute)
  then obtain k' us where b: "scan_loop ?s = scan_loop (?s\<lparr>sc_start := k', sc_current := sc_current ?s + length b,
      sc_tokens := sc_tokens ?s @ us\<rparr>)" "has_shapes gs us"
    using assms(2) unfolding lexes_def by blast
  with a show "\<exists>k ts. scan_loop s = scan_loop (s\<lparr>sc_start := k, sc_current := sc_current s + length (a @ b),
      sc_tokens := sc_tokens s @ ts\<rparr>) \<and> has_shapes (fs @ gs) ts"
    by (intro exI [of _ k'] exI [of _ "ts @ us"]) (simp add: add.assoc list_all2_appendI)
qed

lemma drop_step:
  assumes "drop i xs = c # r"
  shows "i < length xs" "xs ! i = c" "drop (Suc i) xs = r"
  using assms by (metis Cons_nth_drop_Suc drop_eq_Nil leI list.inject list.simps(3))+

definition follows :: "char \<Rightarrow> string \<Rightarrow> bool" where
  "follows c post \<longleftrightarrow> (case post of d # _ \<Rightarrow> d = c | [] \<Rightarrow> False)"

lemma sc_match_follows:
  "sc_match c s = (if follows c (drop (sc_current s) (sc_input s)) then (True, s\<lparr>sc_current := Suc (sc_current s)\<rparr>)
     else (False, s))"
proof (cases "drop (sc_current s) (sc_input s)")
  case Nil
  then have "\<not> sc_current s < length (sc_input s)" by simp
  then show ?thesis unfolding Nil follows_def list.case by (simp add: sc_match_eq)
next
  case (Cons d r)
  then show ?thesis using drop_step [OF Cons] by (simp add: follows_def sc_match_eq)
qed

text \<open>One step that reads the character \<open>c\<close> and the text \<open>txt\<close> behind it.\<close>

lemma lexes_step:
  assumes "\<And>(s :: scanner) i. drop i (sc_input s) = c # txt @ post \<Longrightarrow>
      \<exists>ts. scan_char c (s\<lparr>sc_start := i, sc_current := Suc i\<rparr>) =
          s\<lparr>sc_start := i, sc_current := i + Suc (length txt), sc_tokens := sc_tokens s @ ts\<rparr> \<and> has_shapes fs ts"
  shows "lexes (c # txt) post fs"
  unfolding lexes_def
proof (intro allI impI)
  fix s :: scanner
  let ?i = "sc_current s"
  assume s: "drop ?i (sc_input s) = (c # txt) @ post"
  then have c: "?i < length (sc_input s)" "sc_input s ! ?i = c" using drop_step [of ?i "sc_input s" c] by simp_all
  obtain ts where ts: "scan_char c (s\<lparr>sc_start := ?i, sc_current := Suc ?i\<rparr>) =
      s\<lparr>sc_start := ?i, sc_current := ?i + Suc (length txt), sc_tokens := sc_tokens s @ ts\<rparr>"
    "has_shapes fs ts" using assms [of ?i s] s by auto
  have "scan_loop s = scan_loop (scan_char c (s\<lparr>sc_start := ?i, sc_current := Suc ?i\<rparr>))"
    using c by (simp add: scan_loop.simps [of s] sc_isAtEnd_def scan_step_def sc_advance_def charCodeAt_def)
  with ts show "\<exists>k ts. scan_loop s = scan_loop (s\<lparr>sc_start := k, sc_current := ?i + length (c # txt),
        sc_tokens := sc_tokens s @ ts\<rparr>) \<and> has_shapes fs ts"
    by (intro exI [of _ ?i] exI [of _ ts]) simp
qed

lemma lexes_token:
  assumes "\<And>(s :: scanner) i. drop i (sc_input s) = c # txt @ post \<Longrightarrow>
      \<exists>k. scan_char c (s\<lparr>sc_start := i, sc_current := Suc i\<rparr>) =
          sc_push (f k) (s\<lparr>sc_start := i, sc_current := i + Suc (length txt)\<rparr>)"
  shows "lexes (c # txt) post [f]"
proof (rule lexes_step)
  fix s :: scanner and i
  assume "drop i (sc_input s) = c # txt @ post"
  from assms [OF this] obtain k where "scan_char c (s\<lparr>sc_start := i, sc_current := Suc i\<rparr>) =
      sc_push (f k) (s\<lparr>sc_start := i, sc_current := i + Suc (length txt)\<rparr>)" by blast
  then show "\<exists>ts. scan_char c (s\<lparr>sc_start := i, sc_current := Suc i\<rparr>) =
          s\<lparr>sc_start := i, sc_current := i + Suc (length txt), sc_tokens := sc_tokens s @ ts\<rparr> \<and> has_shapes [f] ts"
    by (intro exI [of _ "[f k]"]) (auto simp: sc_push_def)
qed

lemma lexes_blank: "lexes '' '' post []"
  by (rule lexes_step, rule exI [of _ "[]"]) (simp add: scan_char_def blank_char_def)

lemma follows_Cons [simp]: "follows c (d # r) \<longleftrightarrow> d = c"
  by (simp add: follows_def)

lemma lexes_operators:
  "\<not> follows (CHR ''='') post \<Longrightarrow> lexes ''!'' post [TkNeg]"
  "lexes ''&&'' post [TkAnd]" "lexes ''||'' post [TkOr]"
  "\<not> follows (CHR ''='') post \<Longrightarrow> lexes ''=='' post [\<lambda>i. TkEq i False]"
  "\<not> follows (CHR ''='') post \<Longrightarrow> lexes ''!='' post [\<lambda>i. TkNotEq i False]"
proof -
  have next1: "drop (Suc i) xs = r" if "drop i xs = c # r" for i c r and xs :: string
    using drop_step(3) [OF that] .
  have next2: "drop (Suc (Suc i)) xs = r" if "drop i xs = c # d # r" for i c d r and xs :: string
    using drop_step(3) [OF next1 [OF that]] .
  show "lexes ''!'' post [TkNeg]" if "\<not> follows (CHR ''='') post"
    by (rule lexes_token) (auto simp: scan_char_def sc_match_follows sc_addToken_def that next1)
  show "lexes ''&&'' post [TkAnd]" "lexes ''||'' post [TkOr]"
    by (rule lexes_token, auto simp: scan_char_def sc_match_follows sc_addToken_def next1 next2)+
  show "lexes ''=='' post [\<lambda>i. TkEq i False]" if "\<not> follows (CHR ''='') post"
    by (rule lexes_token) (auto simp: scan_char_def sc_match_follows that next1 next2)
  show "lexes ''!='' post [\<lambda>i. TkNotEq i False]" if "\<not> follows (CHR ''='') post"
    by (rule lexes_token) (auto simp: scan_char_def sc_match_follows that next1 next2)
qed

definition word_token :: "string \<Rightarrow> nat \<Rightarrow> token" where
  "word_token w = (case scanner_keywords w of Some k \<Rightarrow> k | None \<Rightarrow> \<lambda>i. TkStr i w)"

lemma not_string_char:
  "\<not> string_char (CHR ''('')" "\<not> string_char (CHR '')'')" "\<not> string_char (CHR ''!'')" "\<not> string_char (CHR ''='')"
  "\<not> string_char (CHR ''&'')" "\<not> string_char (CHR ''|'')" "\<not> string_char quote" "\<not> string_char (CHR '' '')"
  "\<not> string_char (CHR 0x0D)" "\<not> string_char (CHR 0x09)" "\<not> string_char (CHR 0x0A)" "\<not> string_char (CHR 0xA0)"
  by (simp_all add: string_char_def is_letter_def)

lemma lexes_word:
  assumes "list_all string_char (c # txt)" "c \<notin> set ''<>/''" "\<not> (\<exists>d r. post = d # r \<and> string_char d)"
  shows "lexes (c # txt) post [word_token (c # txt)]"
proof (rule lexes_token)
  fix s :: scanner and i
  assume s: "drop i (sc_input s) = c # txt @ post"
  let ?s = "s\<lparr>sc_start := i, sc_current := Suc i\<rparr>"
  have "string_char c" using assms(1) by simp
  then have "c \<notin> set ''()!/=<>&|''" "c \<noteq> quote" "\<not> blank_char c"
    using not_string_char assms(2) by (auto simp: blank_char_def)
  then have char: "scan_char c ?s = sc_string ?s" by (simp add: scan_char_def)
  have "takeWhile string_char (c # txt @ post) = c # txt"
    using assms(1,3) takeWhile_append2 [of "c # txt" string_char post]
    by (cases post) (auto simp: list_all_iff)
  then have m: "stringRe_match (sc_input ?s) (sc_start ?s) = Some (c # txt)"
    by (simp add: stringRe_match_def s)
  have sub: "substring (sc_input s) i (Suc (i + length txt)) = c # txt"
    using s by (simp add: substring_def)
  show "\<exists>k. scan_char c ?s = sc_push (word_token (c # txt) k) (s\<lparr>sc_start := i, sc_current := i + Suc (length txt)\<rparr>)"
    unfolding char sc_string_def m option.case Let_def
    by (intro exI [of _ i]) (simp add: sub word_token_def sc_addToken_def split: option.split)
qed

lemma quoted_loop_reads:
  assumes "sc_input s = pre @ v @ quote # post" "quote \<notin> set v"
  shows "quoted_loop (s\<lparr>sc_current := length pre\<rparr>) = s\<lparr>sc_current := length pre + length v\<rparr>"
  using assms
proof (induction v arbitrary: pre)
  case Nil
  then show ?case
    by (simp add: quoted_loop.simps [of "s\<lparr>sc_current := length pre\<rparr>"] sc_peek_def sc_isAtEnd_def charCodeAt_def)
next
  case (Cons d v)
  then have "quoted_loop (s\<lparr>sc_current := length pre\<rparr>) = quoted_loop (s\<lparr>sc_current := length (pre @ [d])\<rparr>)"
    by (auto simp: quoted_loop.simps [of "s\<lparr>sc_current := length pre\<rparr>"] sc_peek_def sc_isAtEnd_def charCodeAt_def
        sc_advance_def)
  with Cons.IH [of "pre @ [d]"] Cons.prems show ?case by simp
qed

lemma lexes_quoted:
  assumes "quote \<notin> set v"
  shows "lexes (quote # v @ [quote]) post [\<lambda>i. TkQuotedStr i v]"
proof (rule lexes_token)
  fix s :: scanner and i
  assume s: "drop i (sc_input s) = quote # (v @ [quote]) @ post"
  define pre where "pre = take i (sc_input s) @ [quote]"
  have pre: "sc_input s = pre @ v @ quote # post" "length pre = Suc i"
    using s drop_step(1) [OF s] append_take_drop_id [of i "sc_input s"] by (simp_all add: pre_def)
  have q: "quoted_loop (s\<lparr>sc_start := i, sc_current := Suc i\<rparr>) = s\<lparr>sc_start := i, sc_current := Suc i + length v\<rparr>"
    using quoted_loop_reads [of "s\<lparr>sc_start := i\<rparr>" pre v post] pre assms by simp
  have sub: "substring (pre @ v @ quote # post) (Suc i) (Suc i + length v) = v"
    by (simp add: substring_def flip: pre(2))
  show "\<exists>k. scan_char quote (s\<lparr>sc_start := i, sc_current := Suc i\<rparr>) =
      sc_push (TkQuotedStr k v) (s\<lparr>sc_start := i, sc_current := i + Suc (length (v @ [quote]))\<rparr>)"
    using sub by (intro exI [of _ "Suc i"])
      (simp add: scan_char_def sc_quotedString_def q sc_isAtEnd_def sc_advance_def pre)
qed

section \<open>Printed expressions\<close>

text \<open>What follows an operand is the end of the text or a blank.\<close>

definition boundary :: "string \<Rightarrow> bool" where
  "boundary post \<longleftrightarrow> (case post of [] \<Rightarrow> True | d # _ \<Rightarrow> d = CHR '' '')"

definition prints :: "string \<Rightarrow> (nat \<Rightarrow> token) list \<Rightarrow> bool" where
  "prints text fs \<longleftrightarrow> (\<forall>post. boundary post \<longrightarrow> lexes text post fs)"

lemma boundary_simps [simp]: "boundary []" "boundary (d # r) \<longleftrightarrow> d = CHR '' ''"
  by (simp_all add: boundary_def)

lemma boundary_no_char: "boundary post \<Longrightarrow> \<not> (\<exists>d r. post = d # r \<and> string_char d)"
  by (auto simp: not_string_char)

lemma js_join_flat: "js_join sep (x # xs) = x @ concat (map (\<lambda>y. sep @ y) xs)"
  by (induction xs arbitrary: x) (simp_all add: js_join_Cons)

lemma prints_rest:
  assumes "\<forall>x\<in>set xs. prints (text x) (shapes x)" "\<And>post. lexes sep post [opr]" "\<And>post. boundary (sep @ post)" "boundary post"
  shows "lexes (concat (map (\<lambda>x. sep @ text x) xs)) post (concat (map (\<lambda>x. opr # shapes x) xs))
    \<and> boundary (concat (map (\<lambda>x. sep @ text x) xs) @ post)"
  using assms(1)
proof (induction xs)
  case Nil
  then show ?case using lexes_Nil assms(4) by simp
next
  case (Cons x xs)
  let ?rest = "concat (map (\<lambda>x. sep @ text x) xs)"
  from Cons have "lexes (text x) (?rest @ post) (shapes x)" by (simp add: prints_def)
  with Cons have "lexes (text x @ ?rest) post (shapes x @ concat (map (\<lambda>x. opr # shapes x) xs))"
    by (intro lexes_append) simp_all
  from lexes_append [OF assms(2) this] assms(3) show ?case by simp
qed

lemma prints_join:
  assumes "\<forall>x\<in>set (x # xs). prints (text x) (shapes x)" "\<And>post. lexes sep post [opr]" "\<And>post. boundary (sep @ post)"
  shows "prints (js_join sep (map text (x # xs))) (shapes x @ concat (map (\<lambda>x. opr # shapes x) xs))"
  unfolding prints_def
proof (intro allI impI)
  fix post
  assume "boundary post"
  with prints_rest [of xs "text" shapes sep opr post] assms have
    rest: "lexes (concat (map (\<lambda>x. sep @ text x) xs)) post (concat (map (\<lambda>x. opr # shapes x) xs))"
      "boundary (concat (map (\<lambda>x. sep @ text x) xs) @ post)" by simp_all
  then have "lexes (text x) (concat (map (\<lambda>x. sep @ text x) xs) @ post) (shapes x)"
    using assms(1) by (simp add: prints_def)
  from lexes_append [OF this rest(1)]
  show "lexes (js_join sep (map text (x # xs))) post (shapes x @ concat (map (\<lambda>x. opr # shapes x) xs))"
    by (simp add: js_join_flat comp_def)
qed

lemma lexes_separators: "lexes '' && '' post [TkAnd]" "lexes '' || '' post [TkOr]"
proof -
  show "lexes '' && '' post [TkAnd]"
    using lexes_append [OF lexes_blank lexes_append [OF lexes_operators(2) lexes_blank [of post]]] by simp
  show "lexes '' || '' post [TkOr]"
    using lexes_append [OF lexes_blank lexes_append [OF lexes_operators(3) lexes_blank [of post]]] by simp
qed

text \<open>A key that the scanner reads as one word, and the expressions whose text can be read back.\<close>

definition printable_key :: "string \<Rightarrow> bool" where
  "printable_key k \<longleftrightarrow> k \<noteq> [] \<and> hd k \<notin> set ''<>/'' \<and> list_all string_char k \<and> scanner_keywords k = None"

fun printable_atom :: "expr \<Rightarrow> bool" where
  "printable_atom FalseExpr = True"
| "printable_atom TrueExpr = True"
| "printable_atom (DefinedExpr k _) = printable_key k"
| "printable_atom (NotExpr k _) = printable_key k"
| "printable_atom (EqualsExpr k (Str v) _) = (printable_key k \<and> quote \<notin> set v)"
| "printable_atom (NotEqualsExpr k (Str v) _) = (printable_key k \<and> quote \<notin> set v)"
| "printable_atom _ = False"

definition conjuncts :: "expr \<Rightarrow> expr list" where
  "conjuncts e = (case e of AndExpr es _ \<Rightarrow> es | _ \<Rightarrow> [e])"

definition disjuncts :: "expr \<Rightarrow> expr list" where
  "disjuncts e = (case e of OrExpr es _ \<Rightarrow> es | _ \<Rightarrow> [e])"

definition printable_clause :: "expr \<Rightarrow> bool" where
  "printable_clause e \<longleftrightarrow> conjuncts e \<noteq> [] \<and> list_all printable_atom (conjuncts e)"

definition printable :: "expr \<Rightarrow> bool" where
  "printable e \<longleftrightarrow> disjuncts e \<noteq> [] \<and> list_all printable_clause (disjuncts e)"

fun atom_shapes :: "expr \<Rightarrow> (nat \<Rightarrow> token) list" where
  "atom_shapes FalseExpr = [TkFalse]"
| "atom_shapes TrueExpr = [TkTrue]"
| "atom_shapes (DefinedExpr k _) = [\<lambda>i. TkStr i k]"
| "atom_shapes (NotExpr k _) = [TkNeg, \<lambda>i. TkStr i k]"
| "atom_shapes (EqualsExpr k (Str v) _) = [\<lambda>i. TkStr i k, \<lambda>i. TkEq i False, \<lambda>i. TkQuotedStr i v]"
| "atom_shapes (NotEqualsExpr k (Str v) _) = [\<lambda>i. TkStr i k, \<lambda>i. TkNotEq i False, \<lambda>i. TkQuotedStr i v]"
| "atom_shapes _ = []"

lemma lexes_key:
  assumes "printable_key k" "boundary post"
  shows "lexes k post [\<lambda>i. TkStr i k]"
proof -
  obtain c w where k: "k = c # w" using assms(1) by (cases k) (auto simp: printable_key_def)
  have "lexes k post [word_token k]"
    using lexes_word [OF _ _ boundary_no_char [OF assms(2)], of c w] assms(1) by (simp add: k printable_key_def)
  with assms(1) show ?thesis by (simp add: word_token_def printable_key_def)
qed

lemma prints_comparison:
  assumes "printable_key k" "quote \<notin> set v" "\<And>post. \<not> follows (CHR ''='') post \<Longrightarrow> lexes opr post [f]"
  shows "prints (k @ [CHR '' ''] @ opr @ [CHR '' ''] @ [quote] @ v @ [quote]) [\<lambda>i. TkStr i k, f, \<lambda>i. TkQuotedStr i v]"
  unfolding prints_def
proof (intro allI impI)
  fix post
  let ?q = "quote # v @ [quote]"
  have "lexes ('' '' @ ?q) post [\<lambda>i. TkQuotedStr i v]"
    using lexes_append [OF lexes_blank lexes_quoted [OF assms(2)]] by simp
  then have "lexes (opr @ '' '' @ ?q) post [f, \<lambda>i. TkQuotedStr i v]"
    using lexes_append [OF assms(3), of "'' '' @ ?q" post] by simp
  then have rest: "lexes ('' '' @ opr @ '' '' @ ?q) post [f, \<lambda>i. TkQuotedStr i v]"
    using lexes_append [OF lexes_blank] by simp
  show "lexes (k @ [CHR '' ''] @ opr @ [CHR '' ''] @ [quote] @ v @ [quote]) post [\<lambda>i. TkStr i k, f, \<lambda>i. TkQuotedStr i v]"
    using lexes_append [OF lexes_key [OF assms(1)] rest] by simp
qed

lemma prints_atom:
  assumes "printable_atom e"
  shows "prints (serialize eng e) (atom_shapes e)"
  using assms
proof (cases e rule: printable_atom.cases)
  case 1
  have "lexes ''false'' post [TkFalse]" if "boundary post" for post
    using lexes_word [OF _ _ boundary_no_char [OF that], of "CHR ''f''" "''alse''"]
    by (simp add: word_token_def scanner_keywords_def string_char_def is_letter_def)
  with 1 show ?thesis by (simp add: prints_def)
next
  case 2
  have "lexes ''true'' post [TkTrue]" if "boundary post" for post
    using lexes_word [OF _ _ boundary_no_char [OF that], of "CHR ''t''" "''rue''"]
    by (simp add: word_token_def scanner_keywords_def string_char_def is_letter_def)
  with 2 show ?thesis by (simp add: prints_def)
next
  case (3 k n)
  with assms show ?thesis by (simp add: prints_def lexes_key)
next
  case (4 k n)
  have "lexes (''!'' @ k) post [TkNeg, \<lambda>i. TkStr i k]" if "boundary post" for post
  proof -
    have "\<not> follows (CHR ''='') (k @ post)"
      using 4 assms by (cases k) (auto simp: printable_key_def not_string_char)
    from lexes_append [OF lexes_operators(1) [OF this] lexes_key [OF _ that]] 4 assms show ?thesis by simp
  qed
  with 4 show ?thesis by (simp add: prints_def)
next
  case (5 k v n)
  with assms show ?thesis
    using prints_comparison [of k v "''==''" "\<lambda>i. TkEq i False"] lexes_operators(4)
    by (simp add: ContextKeyEqualsExpr_serialize_def)
next
  case (6 k v n)
  with assms show ?thesis
    using prints_comparison [of k v "''!=''" "\<lambda>i. TkNotEq i False"] lexes_operators(5)
    by (simp add: ContextKeyNotEqualsExpr_serialize_def)
qed simp_all

lemma serialize_all_map: "serialize_all eng es = map (serialize eng) es"
  by (induction es) simp_all

section \<open>Parsing the tokens\<close>

text \<open>
  A parser reads tokens of the shapes \<open>fs\<close> as the expression \<open>e\<close>, before a token that satisfies \<open>stop\<close>.
\<close>

definition reads_as :: "expr option parse \<Rightarrow> (nat \<Rightarrow> token) list \<Rightarrow> expr \<Rightarrow> (token \<Rightarrow> bool) \<Rightarrow> bool" where
  "reads_as m fs e stop \<longleftrightarrow> (\<forall>p ts t rest. drop (pa_current p) (pa_tokens p) = ts @ t # rest \<longrightarrow> has_shapes fs ts \<longrightarrow>
     stop t \<longrightarrow> m p = Some (Inr (Some e), p\<lparr>pa_current := pa_current p + length ts\<rparr>))"

lemma reads_asD:
  "reads_as m fs e stop \<Longrightarrow> drop (pa_current p) (pa_tokens p) = ts @ t # rest \<Longrightarrow> has_shapes fs ts \<Longrightarrow> stop t \<Longrightarrow>
     m p = Some (Inr (Some e), p\<lparr>pa_current := pa_current p + length ts\<rparr>)"
  unfolding reads_as_def by blast

lemma read_token:
  assumes "drop (pa_current p) (pa_tokens p) = t # rest"
  shows "pa_peek p = Some (Inr t, p)" "pa_check type p = Some (Inr (type t), p)"
    "\<not> is_EOF t \<Longrightarrow> pa_advance p = Some (Inr (), next_token p)"
    "(\<And>u. type u \<Longrightarrow> \<not> is_EOF u) \<Longrightarrow> pa_matchOne type p = (if type t then Some (Inr True, next_token p) else Some (Inr False, p))"
    "drop (pa_current (next_token p)) (pa_tokens (next_token p)) = rest"
    "pa_previous (next_token p) = Some (Inr t, next_token p)"
proof -
  note at = drop_step [OF assms]
  show peek: "pa_peek p = Some (Inr t, p)" using at by (simp add: pa_peek_def)
  then show check: "pa_check type p = Some (Inr (type t), p)" for type by (simp add: pa_check_def pbind_def preturn_def)
  show advance: "pa_advance p = Some (Inr (), next_token p)" if "\<not> is_EOF t"
    using peek that by (simp add: pa_advance_def pa_isAtEnd_def pbind_def preturn_def)
  show "pa_matchOne type p = (if type t then Some (Inr True, next_token p) else Some (Inr False, p))"
    if "\<And>u. type u \<Longrightarrow> \<not> is_EOF u"
    using check advance that by (simp add: pa_matchOne_def pbind_def preturn_def)
  show "drop (pa_current (next_token p)) (pa_tokens (next_token p)) = rest" using at by simp
  show "pa_previous (next_token p) = Some (Inr t, next_token p)" using at by (simp add: pa_previous_def)
qed

definition ends_term :: "token \<Rightarrow> bool" where
  "ends_term t \<longleftrightarrow> is_And t \<or> is_Or t \<or> is_EOF t"

definition ends_clause :: "token \<Rightarrow> bool" where
  "ends_clause t \<longleftrightarrow> is_Or t \<or> is_EOF t"

text \<open>The elementary expression that the parser builds.\<close>

fun reread :: "consts_map \<Rightarrow> expr \<Rightarrow> expr" where
  "reread cs (DefinedExpr k _) = ContextKeyExpr_has cs k"
| "reread cs (NotExpr k _) = ContextKeyNotExpr_create cs k None"
| "reread cs (EqualsExpr k v _) = ContextKeyExpr_equals cs k v"
| "reread cs (NotEqualsExpr k v _) = ContextKeyExpr_notEquals cs k v"
| "reread cs e = e"

lemmas parse_unfold = pa_term_def pa_negated_def pa_primary_def pa_afterKey_def pa_operator_def pa_equality_def pa_value_def
  pbind_def preturn_def equality_expr_def Let_def

lemma operators_not_EOF:
  "is_Neg t \<Longrightarrow> \<not> is_EOF t" "is_RegexOp t \<Longrightarrow> \<not> is_EOF t" "is_Not t \<Longrightarrow> \<not> is_EOF t"
  by (cases t; simp)+

lemma term_negation:
  assumes "drop (pa_current p) (pa_tokens p) = TkNeg i # TkStr j k # rest"
  shows "pa_term env n F p = Some (Inr (Some (ContextKeyNotExpr_create (constants env) k None)), p\<lparr>pa_current := pa_current p + 2\<rparr>)"
  using read_token [OF assms] read_token [OF read_token(5) [OF assms]] by (simp add: parse_unfold operators_not_EOF)

lemma term_key:
  assumes "drop (pa_current p) (pa_tokens p) = TkStr i k # t # rest" "ends_term t"
  shows "pa_term env n F p = Some (Inr (Some (ContextKeyExpr_has (constants env) k)), next_token p)"
  using assms(2) read_token [OF assms(1)] read_token [OF read_token(5) [OF assms(1)]]
  by (cases t) (simp_all add: parse_unfold ends_term_def operators_not_EOF)

lemma term_comparison:
  assumes "drop (pa_current p) (pa_tokens p) = TkStr i k # opr # TkQuotedStr j v # rest"
    and "opr = (if positive then TkEq l b else TkNotEq l b)"
  shows "pa_term env n F p = Some (Inr (Some ((if positive then ContextKeyExpr_equals else ContextKeyExpr_notEquals)
      (constants env) k (Str v))), p\<lparr>pa_current := pa_current p + 3\<rparr>)"
  using assms(2) read_token [OF assms(1)] read_token [OF read_token(5) [OF assms(1)]]
    read_token [OF read_token(5) [OF read_token(5) [OF assms(1)]]]
  by (simp add: parse_unfold operators_not_EOF numeral_3_eq_3)

lemma reads_atom:
  assumes "printable_atom e"
  shows "reads_as (pa_term env n F) (atom_shapes e) (reread (constants env) e) ends_term"
  unfolding reads_as_def
proof (intro allI impI)
  fix p :: parser and ts t rest
  assume p: "drop (pa_current p) (pa_tokens p) = ts @ t # rest" "has_shapes (atom_shapes e) ts" "ends_term t"
  show "pa_term env n F p = Some (Inr (Some (reread (constants env) e)), p\<lparr>pa_current := pa_current p + length ts\<rparr>)"
    using assms
  proof (cases e rule: printable_atom.cases)
    case 1
    with p obtain i where "drop (pa_current p) (pa_tokens p) = TkFalse i # t # rest" "length ts = 1"
      by (auto simp: list_all2_Cons1)
    with 1 read_token [OF this(1)] show ?thesis by (simp add: parse_unfold operators_not_EOF)
  next
    case 2
    with p obtain i where "drop (pa_current p) (pa_tokens p) = TkTrue i # t # rest" "length ts = 1"
      by (auto simp: list_all2_Cons1)
    with 2 read_token [OF this(1)] show ?thesis by (simp add: parse_unfold operators_not_EOF)
  next
    case (3 k m)
    with p obtain i where "drop (pa_current p) (pa_tokens p) = TkStr i k # t # rest" "length ts = 1"
      by (auto simp: list_all2_Cons1)
    with 3 term_key [OF this(1) p(3)] show ?thesis by simp
  next
    case (4 k m)
    with p obtain i j where "drop (pa_current p) (pa_tokens p) = TkNeg i # TkStr j k # t # rest" "length ts = 2"
      by (auto simp: list_all2_Cons1)
    with 4 term_negation [OF this(1)] show ?thesis by simp
  next
    case (5 k v m)
    with p obtain i l j where "drop (pa_current p) (pa_tokens p) = TkStr i k # TkEq l False # TkQuotedStr j v # t # rest"
      "length ts = 3" by (auto simp: list_all2_Cons1)
    with 5 term_comparison [OF this(1), of True l False] show ?thesis by simp
  next
    case (6 k v m)
    with p obtain i l j where "drop (pa_current p) (pa_tokens p) = TkStr i k # TkNotEq l False # TkQuotedStr j v # t # rest"
      "length ts = 3" by (auto simp: list_all2_Cons1)
    with 6 term_comparison [OF this(1), of False l False] show ?thesis by simp
  qed simp_all
qed

lemma reads_more:
  assumes "\<forall>x\<in>set xs. reads_as m (shapes x) (val x) stop"
    and "\<And>i. op (opr i)" "\<And>t. op t \<Longrightarrow> stop t \<and> \<not> is_EOF t" "\<And>t. stop' t \<Longrightarrow> stop t \<and> \<not> op t"
    and "drop (pa_current p) (pa_tokens p) = ts @ t # rest"
    and "has_shapes (concat (map (\<lambda>x. opr # shapes x) xs)) ts" "stop' t" "length xs < n"
  shows "more_operands n op m acc p =
    Some (Inr (acc @ map (\<lambda>x. Some (val x)) xs), p\<lparr>pa_current := pa_current p + length ts\<rparr>)"
  using assms(1,5,6,8)
proof (induction xs arbitrary: p ts acc n)
  case Nil
  then obtain k where n: "n = Suc k" by (cases n) auto
  from Nil have p: "drop (pa_current p) (pa_tokens p) = t # rest" by simp
  have "pa_matchOne op p = Some (Inr False, p)"
    using read_token(4) [OF p, of op] assms(3,4,7) by simp
  with Nil show ?case by (simp add: n grammar_Suc pbind_def preturn_def)
next
  case (Cons x xs)
  then obtain k where n: "n = Suc k" by (cases n) auto
  from Cons.prems(3) obtain i us vs where ts: "ts = opr i # us @ vs" "has_shapes (shapes x) us"
    "has_shapes (concat (map (\<lambda>x. opr # shapes x) xs)) vs"
    by (auto simp: list_all2_Cons1 list_all2_append1)
  with Cons.prems(2) have p: "drop (pa_current p) (pa_tokens p) = opr i # us @ vs @ t # rest" by simp
  have match: "pa_matchOne op p = Some (Inr True, next_token p)"
    using read_token(4) [OF p, of op] assms(2,3) by simp
  note p1 = read_token(5) [OF p]
  have "\<exists>u r. vs @ t # rest = u # r \<and> stop u"
  proof (cases xs)
    case Nil
    with ts(3) assms(4,7) show ?thesis by auto
  next
    case (Cons y ys)
    with ts(3) assms(2,3) show ?thesis by (auto simp: list_all2_Cons1)
  qed
  then obtain u r where u: "vs @ t # rest = u # r" "stop u" by blast
  let ?q = "next_token p\<lparr>pa_current := pa_current (next_token p) + length us\<rparr>"
  have x: "m (next_token p) = Some (Inr (Some (val x)), ?q)"
    using reads_asD [of m "shapes x" "val x" stop "next_token p" us u r] p1 u ts(2) Cons.prems(1) by simp
  have "drop (pa_current ?q) (pa_tokens ?q) = vs @ t # rest"
    using arg_cong [OF p1, of "drop (length us)"] by (simp add: add.commute)
  from Cons.IH [OF _ this ts(3), of k "acc @ [Some (val x)]"] Cons.prems(1,4)
  have "more_operands k op m (acc @ [Some (val x)]) ?q =
      Some (Inr (acc @ Some (val x) # map (\<lambda>x. Some (val x)) xs), ?q\<lparr>pa_current := pa_current ?q + length vs\<rparr>)"
    by (simp add: n)
  with match x show ?case by (simp add: n grammar_Suc pbind_def ts add.assoc)
qed

lemma reads_level:
  assumes "\<forall>x\<in>set (x # xs). reads_as m (shapes x) (val x) stop"
    and "\<And>i. op (opr i)" "\<And>t. op t \<Longrightarrow> stop t \<and> \<not> is_EOF t" "\<And>t. stop' t \<Longrightarrow> stop t \<and> \<not> op t"
    and "length xs < n" "if xs = [] then y = val x else create (map (\<lambda>x. Some (val x)) (x # xs)) = Some (Some y)"
  shows "reads_as (pbind m (\<lambda>first. pbind (more_operands n op m [first])
      (\<lambda>es. if length es = 1 then preturn (hd es) else plift (create es))))
    (shapes x @ concat (map (\<lambda>x. opr # shapes x) xs)) y stop'"
  unfolding reads_as_def
proof (intro allI impI)
  fix p :: parser and ts t rest
  assume p: "drop (pa_current p) (pa_tokens p) = ts @ t # rest"
    "has_shapes (shapes x @ concat (map (\<lambda>x. opr # shapes x) xs)) ts" "stop' t"
  then obtain us vs where ts: "ts = us @ vs" "has_shapes (shapes x) us"
    "has_shapes (concat (map (\<lambda>x. opr # shapes x) xs)) vs" by (auto simp: list_all2_append1)
  obtain u r where u: "vs @ t # rest = u # r" "stop u"
  proof (cases xs)
    case Nil
    with that ts(3) assms(4) p(3) show thesis by auto
  next
    case (Cons z zs)
    with that ts(3) assms(2,3) show thesis by (auto simp: list_all2_Cons1)
  qed
  let ?q = "p\<lparr>pa_current := pa_current p + length us\<rparr>"
  have x: "m p = Some (Inr (Some (val x)), ?q)"
    using reads_asD [of m "shapes x" "val x" stop p us u r] p(1) ts u assms(1) by simp
  have q: "drop (pa_current ?q) (pa_tokens ?q) = vs @ t # rest"
    using arg_cong [OF p(1), of "drop (length us)"] ts(1) by (simp add: add.commute)
  have "more_operands n op m [Some (val x)] ?q = Some (Inr ([Some (val x)] @ map (\<lambda>x. Some (val x)) xs),
      ?q\<lparr>pa_current := pa_current ?q + length vs\<rparr>)"
    using reads_more [of xs m shapes val stop op opr stop' ?q vs t rest n "[Some (val x)]", OF _ assms(2-4) q ts(3) p(3) assms(5)] assms(1) by simp
  with x assms(6) show "pbind m (\<lambda>first. pbind (more_operands n op m [first])
      (\<lambda>es. if length es = 1 then preturn (hd es) else plift (create es))) p =
      Some (Inr (Some y), p\<lparr>pa_current := pa_current p + length ts\<rparr>)"
    by (cases xs) (simp_all add: pbind_def preturn_def plift_def ts(1) add.assoc)
qed

section \<open>Meaning\<close>

definition keeps :: "consts_map \<Rightarrow> expr \<Rightarrow> expr \<Rightarrow> bool" where
  "keeps cs e e' \<longleftrightarrow> dnf e' \<and> (\<forall>eng F ctx. coherent eng cs F ctx e \<longrightarrow>
     coherent eng cs F ctx e' \<and> evaluate eng e' ctx = evaluate eng e ctx)"

lemma keeps_atom: "printable_atom e \<Longrightarrow> keeps cs e (reread cs e)"
  by (cases e rule: printable_atom.cases)
    (auto simp: keeps_def leaf_defs coherent_unfold evaluate_defs const_agrees_def const_equals_agrees_def strict_eq_def
      atom_dnf is_atom_def cached_def split: option.splits)

lemma given_created: "given (map (\<lambda>x. Some (val x)) xs) = val ` set xs"
  by (auto simp: given_def)

lemma conjunction_keeps:
  assumes "xs \<noteq> []" "\<forall>x\<in>set xs. keeps cs x (val x)"
  obtains y where "eventually (\<lambda>n. ContextKeyExpr_and n cs (map (\<lambda>x. Some (val x)) xs) = Some (Some y)) sequentially"
    "\<And>n. keeps cs (AndExpr xs n) y"
proof -
  let ?arr = "map (\<lambda>x. Some (val x)) xs"
  obtain N y where y: "\<forall>n\<ge>N. ContextKeyExpr_and n cs ?arr = Some (Some y)" "dnf y"
    by (rule dnf_and_returns [of ?arr cs]) (use assms in \<open>auto simp: keeps_def given_created\<close>)
  have "keeps cs (AndExpr xs n) y" for n
    unfolding keeps_def
  proof (intro conjI allI impI y(2))
    fix eng F ctx
    assume c: "coherent eng cs F ctx (AndExpr xs n)"
    then have "\<forall>x\<in>set xs. coherent eng cs F ctx (val x) \<and> evaluate eng (val x) ctx = evaluate eng x ctx"
      using assms(2) by (auto simp: coherent_unfold keeps_def)
    with creates_given [OF and_create_sound, of N cs ?arr None True y eng F ctx] y(1) show
      "coherent eng cs F ctx y" "evaluate eng y ctx = evaluate eng (AndExpr xs n) ctx"
      by (auto simp: ContextKeyExpr_and_def conj_of_def given_created)
  qed
  with y(1) that show thesis by (auto simp: eventually_sequentially comp_def)
qed

lemma disjunction_keeps:
  assumes "xs \<noteq> []" "\<forall>x\<in>set xs. keeps cs x (val x)"
  obtains y where "eventually (\<lambda>n. ContextKeyExpr_or n cs (map (\<lambda>x. Some (val x)) xs) = Some (Some y)) sequentially"
    "\<And>n. keeps cs (OrExpr xs n) y"
proof -
  let ?arr = "map (\<lambda>x. Some (val x)) xs"
  obtain N y where y: "\<forall>n\<ge>N. ContextKeyExpr_or n cs ?arr = Some (Some y)" "dnf y"
    by (rule dnf_or_returns [of ?arr cs]) (use assms in \<open>auto simp: keeps_def given_created\<close>)
  have "keeps cs (OrExpr xs n) y" for n
    unfolding keeps_def
  proof (intro conjI allI impI y(2))
    fix eng F ctx
    assume c: "coherent eng cs F ctx (OrExpr xs n)"
    then have "\<forall>x\<in>set xs. coherent eng cs F ctx (val x) \<and> evaluate eng (val x) ctx = evaluate eng x ctx"
      using assms(2) by (auto simp: coherent_unfold keeps_def)
    with creates_given [OF or_create_sound, of N cs ?arr None True y eng F ctx] y(1) show
      "coherent eng cs F ctx y" "evaluate eng y ctx = evaluate eng (OrExpr xs n) ctx"
      by (auto simp: ContextKeyExpr_or_def disj_of_def given_created)
  qed
  with y(1) that show thesis by (auto simp: eventually_sequentially comp_def)
qed

section \<open>Reading back\<close>

text \<open>The parsers \<open>m n\<close>, from some bound on, read the shapes of \<open>e\<close> as an expression of its meaning.\<close>

definition read_back :: "consts_map \<Rightarrow> (nat \<Rightarrow> expr option parse) \<Rightarrow> (nat \<Rightarrow> token) list \<Rightarrow> expr \<Rightarrow> (token \<Rightarrow> bool) \<Rightarrow> bool" where
  "read_back cs m fs e stop \<longleftrightarrow> (\<exists>e'. eventually (\<lambda>n. reads_as (m n) fs e' stop) sequentially \<and> keeps cs e e')"

lemma level_read_back:
  assumes "xs \<noteq> []" "\<forall>x\<in>set xs. read_back cs m (shapes x) x stop"
    and "\<And>i. op (opr i)" "\<And>t. op t \<Longrightarrow> stop t \<and> \<not> is_EOF t" "\<And>t. stop' t \<Longrightarrow> stop t \<and> \<not> op t"
    and "\<And>val. \<forall>x\<in>set xs. keeps cs x (val x) \<Longrightarrow>
      \<exists>y. eventually (\<lambda>n. create n (map (\<lambda>x. Some (val x)) xs) = Some (Some y)) sequentially \<and> keeps cs (combined xs) y"
    and "e = (if tl xs = [] then hd xs else combined xs) \<or> (e = combined xs \<and> (\<forall>e'. keeps cs (hd xs) e' \<longrightarrow> tl xs = [] \<longrightarrow> keeps cs e e'))"
  shows "read_back cs (\<lambda>n. pbind (m n) (\<lambda>first. pbind (more_operands n op (m n) [first])
      (\<lambda>es. if length es = 1 then preturn (hd es) else plift (create n es))))
    (shapes (hd xs) @ concat (map (\<lambda>x. opr # shapes x) (tl xs))) e stop'"
proof -
  obtain x ys where xs: "xs = x # ys" using assms(1) by (cases xs) auto
  from assms(2) obtain val where
    val: "\<forall>x\<in>set xs. eventually (\<lambda>n. reads_as (m n) (shapes x) (val x) stop) sequentially \<and> keeps cs x (val x)"
    unfolding read_back_def using bchoice by metis
  then have all: "eventually (\<lambda>n. \<forall>x\<in>set xs. reads_as (m n) (shapes x) (val x) stop) sequentially"
    by (simp add: eventually_ball_finite)
  have big: "eventually (\<lambda>n. length ys < n) sequentially" by (rule eventually_gt_at_top)
  obtain y where y: "eventually (\<lambda>n. if ys = [] then y = val x
      else create n (map (\<lambda>x. Some (val x)) xs) = Some (Some y)) sequentially" "keeps cs e y"
  proof (cases ys)
    case Nil
    with that [of "val x"] val assms(7) show thesis by (auto simp: xs)
  next
    case (Cons z zs)
    from assms(6) [of val] val obtain y where
      "eventually (\<lambda>n. create n (map (\<lambda>x. Some (val x)) xs) = Some (Some y)) sequentially" "keeps cs (combined xs) y" by auto
    with that [of y] assms(7) Cons show thesis by (auto simp: xs)
  qed
  have "eventually (\<lambda>n. reads_as (pbind (m n) (\<lambda>first. pbind (more_operands n op (m n) [first])
      (\<lambda>es. if length es = 1 then preturn (hd es) else plift (create n es))))
    (shapes x @ concat (map (\<lambda>x. opr # shapes x) ys)) y stop') sequentially"
    using all big y(1)
  proof eventually_elim
    case (elim n)
    from elim(3) have "if ys = [] then y = val x else create n (map (\<lambda>x. Some (val x)) (x # ys)) = Some (Some y)"
      by (simp add: xs split: if_splits)
    with elim(1,2) show ?case
      by (intro reads_level [of x ys "m n" shapes val stop op opr stop' n y "create n"] assms(3-5)) (simp_all add: xs)
  qed
  with y(2) show ?thesis unfolding read_back_def xs by auto
qed

definition clause_shapes :: "expr \<Rightarrow> (nat \<Rightarrow> token) list" where
  "clause_shapes c = atom_shapes (hd (conjuncts c)) @ concat (map (\<lambda>x. TkAnd # atom_shapes x) (tl (conjuncts c)))"

definition expr_shapes :: "expr \<Rightarrow> (nat \<Rightarrow> token) list" where
  "expr_shapes e = clause_shapes (hd (disjuncts e)) @ concat (map (\<lambda>x. TkOr # clause_shapes x) (tl (disjuncts e)))"

lemma serialize_parts:
  "serialize eng c = js_join '' && '' (map (serialize eng) (conjuncts c))"
  "serialize eng e = js_join '' || '' (map (serialize eng) (disjuncts e))"
  by (cases c; simp add: conjuncts_def serialize_all_map) (cases e; simp add: disjuncts_def serialize_all_map)

lemma prints_parts:
  assumes "xs \<noteq> []" "\<forall>x\<in>set xs. prints (serialize eng x) (shapes x)" "\<And>post. lexes sep post [opr]" "\<And>post. boundary (sep @ post)"
  shows "prints (js_join sep (map (serialize eng) xs)) (shapes (hd xs) @ concat (map (\<lambda>x. opr # shapes x) (tl xs)))"
  using assms prints_join [of "hd xs" "tl xs" "serialize eng" shapes sep opr] by simp

lemma prints_clause: "printable_clause c \<Longrightarrow> prints (serialize eng c) (clause_shapes c)"
  unfolding clause_shapes_def
  by (subst serialize_parts(1), rule prints_parts) (auto simp: printable_clause_def list_all_iff prints_atom lexes_separators)

lemma prints_expr: "printable e \<Longrightarrow> prints (serialize eng e) (expr_shapes e)"
  unfolding expr_shapes_def
  by (subst serialize_parts(2), rule prints_parts) (auto simp: printable_def list_all_iff prints_clause lexes_separators)

lemma atom_read_back: "printable_atom e \<Longrightarrow> read_back (constants env) (\<lambda>n. pa_term env n (F n)) (atom_shapes e) e ends_term"
  unfolding read_back_def using reads_atom keeps_atom by (intro exI [of _ "reread (constants env) e"]) simp

lemma clause_read_back:
  assumes "printable_clause c"
  shows "read_back (constants env) (\<lambda>n. pa_and env n (pa_term env n (F n))) (clause_shapes c) c ends_clause"
  unfolding pa_and_def clause_shapes_def
proof (rule level_read_back [where combined = "\<lambda>xs. AndExpr xs (cached c)"])
  show "\<forall>x\<in>set (conjuncts c). read_back (constants env) (\<lambda>n. pa_term env n (F n)) (atom_shapes x) x ends_term"
    using assms atom_read_back by (simp add: printable_clause_def list_all_iff)
  show "conjuncts c \<noteq> []" using assms by (simp add: printable_clause_def)
  then show "\<exists>y. eventually (\<lambda>n. ContextKeyExpr_and n (constants env) (map (\<lambda>x. Some (val x)) (conjuncts c)) = Some (Some y)) sequentially
      \<and> keeps (constants env) (AndExpr (conjuncts c) (cached c)) y"
    if "\<forall>x\<in>set (conjuncts c). keeps (constants env) x (val x)" for val
    using conjunction_keeps [OF _ that] by metis
  show "c = (if tl (conjuncts c) = [] then hd (conjuncts c) else AndExpr (conjuncts c) (cached c)) \<or>
      (c = AndExpr (conjuncts c) (cached c) \<and> (\<forall>e'. keeps (constants env) (hd (conjuncts c)) e' \<longrightarrow> tl (conjuncts c) = [] \<longrightarrow> keeps (constants env) c e'))"
  proof (cases c)
    case (AndExpr es n)
    then show ?thesis by (cases es) (auto simp: conjuncts_def cached_def keeps_def coherent_unfold)
  qed (simp_all add: conjuncts_def)
qed (auto simp: ends_term_def ends_clause_def is_And_def is_Or_def)

lemma expr_read_back:
  assumes "printable e"
  shows "read_back (constants env) (\<lambda>n. pa_or env n (pa_and env n (pa_term env n (F n)))) (expr_shapes e) e is_EOF"
  unfolding pa_or_def expr_shapes_def
proof (rule level_read_back [where combined = "\<lambda>xs. OrExpr xs (cached e)"])
  show "\<forall>x\<in>set (disjuncts e). read_back (constants env) (\<lambda>n. pa_and env n (pa_term env n (F n))) (clause_shapes x) x ends_clause"
    using assms clause_read_back by (simp add: printable_def list_all_iff)
  show "disjuncts e \<noteq> []" using assms by (simp add: printable_def)
  then show "\<exists>y. eventually (\<lambda>n. ContextKeyExpr_or n (constants env) (map (\<lambda>x. Some (val x)) (disjuncts e)) = Some (Some y)) sequentially
      \<and> keeps (constants env) (OrExpr (disjuncts e) (cached e)) y"
    if "\<forall>x\<in>set (disjuncts e). keeps (constants env) x (val x)" for val
    using disjunction_keeps [OF _ that] by metis
  show "e = (if tl (disjuncts e) = [] then hd (disjuncts e) else OrExpr (disjuncts e) (cached e)) \<or>
      (e = OrExpr (disjuncts e) (cached e) \<and> (\<forall>e'. keeps (constants env) (hd (disjuncts e)) e' \<longrightarrow> tl (disjuncts e) = [] \<longrightarrow> keeps (constants env) e e'))"
  proof (cases e)
    case (OrExpr es n)
    then show ?thesis by (cases es) (auto simp: disjuncts_def cached_def keeps_def coherent_unfold)
  qed (simp_all add: disjuncts_def)
qed (auto simp: ends_clause_def is_Or_def)

lemma scan_done: "length (sc_input s) \<le> sc_current s \<Longrightarrow> scan_loop s = s"
  by (simp add: scan_loop.simps [of s] sc_isAtEnd_def)

lemma scan_printed:
  assumes "prints input fs"
  shows "\<exists>ts. pa_tokens (parse_start input p) = ts @ [TkEOF (length input)] \<and> has_shapes fs ts"
proof -
  let ?s = "Scanner_reset input (pa_scanner p)"
  have "drop (sc_current ?s) (sc_input ?s) = input @ []" by (simp add: Scanner_reset_def)
  with assms obtain k ts where "scan_loop ?s = scan_loop (?s\<lparr>sc_start := k, sc_current := sc_current ?s + length input,
      sc_tokens := sc_tokens ?s @ ts\<rparr>)" "has_shapes fs ts"
    unfolding prints_def lexes_def by (metis boundary_simps(1))
  then show ?thesis
    by (simp add: parse_start_def Scanner_scan_def Let_def sc_addToken_def sc_push_def Scanner_reset_def scan_done)
qed

lemma shapes_not_Nil: "printable_atom e \<Longrightarrow> atom_shapes e \<noteq> []"
  by (cases e rule: printable_atom.cases) simp_all

lemma printed_not_empty:
  assumes "printable e"
  shows "serialize eng e \<noteq> []"
proof
  assume "serialize eng e = []"
  with prints_expr [OF assms, of eng] scan_printed [of "[]" "expr_shapes e" Parser_new]
  have "expr_shapes e = []" by (auto simp: parse_start_def Scanner_scan_def Let_def Scanner_reset_def
        Scanner_new_def scan_done sc_addToken_def sc_push_def)
  moreover have "atom_shapes (hd (conjuncts (hd (disjuncts e)))) \<noteq> []"
    using assms by (intro shapes_not_Nil) (metis hd_in_set list_all_iff printable_clause_def printable_def)
  ultimately show False by (simp add: expr_shapes_def clause_shapes_def)
qed

lemma expr_reads_back:
  assumes "printable e"
  shows "\<exists>N e' p'. (\<forall>n\<ge>N. ContextKeyExpr_deserialize env n (Some (serialize eng e)) p = Some (Inr (Some e'), p'))
    \<and> keeps (constants env) e e'"
proof -
  let ?env = "env\<lparr>regexParsingWithErrorRecovery := False\<rparr>" and ?input = "serialize eng e"
  let ?p = "parse_start ?input p"
  obtain ts where ts: "pa_tokens ?p = ts @ [TkEOF (length ?input)]" "has_shapes (expr_shapes e) ts"
    using scan_printed [OF prints_expr [OF assms]] by blast
  from expr_read_back [OF assms, of ?env "pa_expr ?env"] obtain N e' where
    N: "\<forall>n\<ge>N. reads_as (pa_expr ?env (Suc n)) (expr_shapes e) e' is_EOF" and e': "keeps (constants env) e e'"
    unfolding read_back_def eventually_sequentially grammar_Suc by auto
  let ?q = "?p\<lparr>pa_current := length ts\<rparr>"
  have at: "drop (pa_current ?q) (pa_tokens ?q) = [TkEOF (length ?input)]" using ts(1) by simp
  have "Parser_parse ?env (Suc n) ?input p = Some (Inr (Some e'), ?q)" if "N \<le> n" for n
  proof -
    have "pa_expr ?env (Suc n) ?p = Some (Inr (Some e'), ?q)"
      using N that ts reads_asD [of "pa_expr ?env (Suc n)" "expr_shapes e" e' is_EOF ?p ts "TkEOF (length ?input)" "[]"]
      by (simp add: parse_start_valid(2))
    then have "parse_body ?env (Suc n) ?p = Some (Inr (Some e'), ?q)"
      using read_token(1) [OF at] by (simp add: parse_body_def pbind_def pa_isAtEnd_def preturn_def)
    then show ?thesis using printed_not_empty [OF assms] by (simp add: Parser_parse_eq)
  qed
  then have "\<forall>n\<ge>Suc N. ContextKeyExpr_deserialize env n (Some ?input) p = Some (Inr (Some e'), ?q)"
    unfolding ContextKeyExpr_deserialize_def by (metis Suc_le_D Suc_le_mono option.simps(5))
  with e' show ?thesis by blast
qed


definition sample_clause :: expr where
  "sample_clause = OrExpr [AndExpr [DefinedExpr ''a.b'' None, NotExpr ''c'' None] None,
     EqualsExpr ''d'' (Str ''x y'') None] None"


end
