(* ===== verification/SessionExpiry.thy ===== *)
theory SessionExpiry
  imports JsValues
begin

text \<open>
  The session monitor of the SageMaker extension,
  \<open>src/patched-vscode/extensions/sagemaker-extension/src\<close>, together with the command
  \<open>sagemaker.parseCookies\<close> of \<open>src/patched-vscode/src/vs/workbench/browser/client.ts\<close> it reads the
  session from.

  The state \<open>session\<close> holds the clock, the pending calls of \<open>showWarningDialog\<close> with the time they
  are due, the modal dialogs that wait for the user, and the effects on the editor so far. The
  functions of the extension are functions on that state; the callbacks run in any order the event
  loop may choose, the step relation \<open>session_step\<close>: time passes, a timer that is due fires (its
  command may answer late), or the user answers a dialog with one of its buttons or dismisses it.
  Delays follow the documentation of \<open>setTimeout\<close> of the extension host: a delay below 1, above
  2147483647 or \<open>NaN\<close> becomes 1.

  What \<open>document.cookie\<close> holds under a name is the argument \<open>getCookieValue\<close>.
\<close>

section \<open>Arithmetic of numbers\<close>

definition num_minus :: "jsnum \<Rightarrow> jsnum \<Rightarrow> jsnum" where
  "num_minus a b =
     (case (a, b) of
        (Fin x, Fin y) \<Rightarrow> Fin (x - y)
      | (PosInf, Fin _) \<Rightarrow> PosInf
      | (NegInf, Fin _) \<Rightarrow> NegInf
      | (Fin _, PosInf) \<Rightarrow> NegInf
      | (Fin _, NegInf) \<Rightarrow> PosInf
      | (PosInf, NegInf) \<Rightarrow> PosInf
      | (NegInf, PosInf) \<Rightarrow> NegInf
      | _ \<Rightarrow> NaN)"

text \<open>\<open>a % b\<close> for a positive finite \<open>b\<close>: the remainder has the sign of the dividend.\<close>

definition rat_rem :: "rat \<Rightarrow> rat \<Rightarrow> rat" where
  "rat_rem a b = (if 0 \<le> a then a - b * of_int \<lfloor>a / b\<rfloor> else - (- a - b * of_int \<lfloor>(- a) / b\<rfloor>))"

definition num_rem :: "jsnum \<Rightarrow> rat \<Rightarrow> jsnum" where
  "num_rem a b = (case a of Fin x \<Rightarrow> Fin (rat_rem x b) | _ \<Rightarrow> NaN)"

definition num_floor :: "jsnum \<Rightarrow> jsnum" where
  "num_floor a = (case a of Fin x \<Rightarrow> Fin (of_int \<lfloor>x\<rfloor>) | _ \<Rightarrow> a)"

definition num_ge :: "jsnum \<Rightarrow> jsnum \<Rightarrow> bool" where
  "num_ge a b \<longleftrightarrow> num_less b a \<or> num_eq a b"

section \<open>Cookies and messages\<close>

text \<open>The answer of the command is an object with string or undefined members.\<close>

type_synonym cookie = "(string \<times> prim) list"

definition member :: "cookie \<Rightarrow> string \<Rightarrow> prim" where
  "member cookie key = (case map_of cookie key of None \<Rightarrow> Undefined | Some v \<Rightarrow> v)"

text \<open>
  \<open>registerSagemakerCommands\<close> reads the five cookies once, when the workbench starts; the command
  returns the values read then.
\<close>

definition parseCookies :: "(string \<Rightarrow> string option) \<Rightarrow> cookie" where
  "parseCookies getCookieValue =
     (let value = (\<lambda>name. case getCookieValue name of None \<Rightarrow> Undefined | Some s \<Rightarrow> Str s)
      in [(''authMode'', value ''authMode''), (''expiryTime'', value ''expiryTime''),
          (''ssoExpiryTimestamp'', value ''ssoExpiryTimestamp''),
          (''studioUserProfileName'', value ''studioUserProfileName''),
          (''redirectURL'', value ''redirectURL'')])"

definition WARNING_TIME_HEADER :: string where
  "WARNING_TIME_HEADER = ''Session expiring soon''"

definition WARNING_BUTTON_REMIND_ME_IN_5_MINS :: string where
  "WARNING_BUTTON_REMIND_ME_IN_5_MINS = ''Remind me in 5 minutes''"

definition WARNING_BUTTON_SAVE :: string where
  "WARNING_BUTTON_SAVE = ''Save''"

definition WARNING_BUTTON_SAVE_AND_RENEW_SESSION :: string where
  "WARNING_BUTTON_SAVE_AND_RENEW_SESSION = ''Save and renew session''"

definition WARNING_TIME_BUTTONS :: "bool \<Rightarrow> string list" where
  "WARNING_TIME_BUTTONS sso =
     (if sso then [WARNING_BUTTON_REMIND_ME_IN_5_MINS, WARNING_BUTTON_SAVE]
      else [WARNING_BUTTON_REMIND_ME_IN_5_MINS, WARNING_BUTTON_SAVE_AND_RENEW_SESSION])"

definition SIGN_IN_HEADER :: string where
  "SIGN_IN_HEADER = ''Please sign in again''"

definition SIGN_IN_BUTTON :: string where
  "SIGN_IN_BUTTON = ''Sign In''"

definition SIGN_IN_MESSAGE :: string where
  "SIGN_IN_MESSAGE = ''You were logged out of your account. Choose '' @ [CHR 0x27] @ ''Sign In'' @ [CHR 0x27]
     @ '' to continue using this workplace.''"

definition SIGN_IN_MESSAGE_WHEN_REDIRECT_URL_DOES_NOT_EXIST :: string where
  "SIGN_IN_MESSAGE_WHEN_REDIRECT_URL_DOES_NOT_EXIST =
     ''You were logged out of your account. You are not able to'' @ [CHR 0x0A]
     @ ''                  perform actions in your workplace at this time. Please start a'' @ [CHR 0x0A]
     @ ''                  new session.''"

definition SSO_MESSAGE :: string where
  "SSO_MESSAGE = ''To renew the session, log out from Studio App via \"File\" -> \"Log Out\" and then \"Sign out\" from AWS IAM Identity Center (successor to AWS SSO) user portal. Do you want to save all changes now?''"

definition IAM_MESSAGE :: string where
  "IAM_MESSAGE = ''Do you want to renew your session now?''"

definition FIFTEEN_MINUTES_INTERVAL_MILLIS :: rat where
  "FIFTEEN_MINUTES_INTERVAL_MILLIS = 15 * 60 * 1000"

definition FIVE_MINUTES_INTERVAL_MILLIS :: rat where
  "FIVE_MINUTES_INTERVAL_MILLIS = 5 * 60 * 1000"

datatype auth_mode = SSO | IAM

fun AUTH_MODE :: "auth_mode \<Rightarrow> string" where
  "AUTH_MODE SSO = ''Sso''"
| "AUTH_MODE IAM = ''Iam''"

definition isSSOMode :: "cookie \<Rightarrow> bool" where
  "isSSOMode cookie \<longleftrightarrow> strict_eq (member cookie ''authMode'') (Str (AUTH_MODE SSO))"

definition getExpiryTime :: "cookie \<Rightarrow> prim" where
  "getExpiryTime cookie =
     (if strict_eq (Str (AUTH_MODE SSO)) (member cookie ''authMode'') then member cookie ''ssoExpiryTimestamp''
      else if strict_eq (Str (AUTH_MODE IAM)) (member cookie ''authMode'') then member cookie ''expiryTime''
      else Num (Fin (- 1)))"

record message =
  header :: string
  detail :: string
  buttons :: "string list"

definition sessionExpiringWarning :: "engine \<Rightarrow> jsnum \<Rightarrow> cookie \<Rightarrow> message" where
  "sessionExpiringWarning eng warningTime cookie =
     (let warningTimeInMinutes =
            num_floor (case warningTime of Fin t \<Rightarrow> Fin (t / 60000) | n \<Rightarrow> n);
          d = ''Your session will expire in '' @ num_to_string eng warningTimeInMinutes
              @ '' minutes. If your session expires, you could lose unsaved changes '' @ [CHR 0x0A, CHR '' '']
              @ (if isSSOMode cookie then SSO_MESSAGE else IAM_MESSAGE)
      in if isSSOMode cookie
         then \<lparr>header = WARNING_TIME_HEADER, detail = d, buttons = WARNING_TIME_BUTTONS True\<rparr>
         else \<lparr>header = WARNING_TIME_HEADER, detail = d, buttons = WARNING_TIME_BUTTONS False\<rparr>)"

definition signInWarning :: "cookie \<Rightarrow> message" where
  "signInWarning cookie =
     (let d = (if truthy (Prim (member cookie ''redirectURL'')) then SIGN_IN_MESSAGE
               else SIGN_IN_MESSAGE_WHEN_REDIRECT_URL_DOES_NOT_EXIST)
      in if truthy (Prim (member cookie ''redirectURL''))
         then \<lparr>header = SIGN_IN_HEADER, detail = d, buttons = [SIGN_IN_BUTTON]\<rparr>
         else \<lparr>header = SIGN_IN_HEADER, detail = d, buttons = []\<rparr>)"

section \<open>The functions of the extension\<close>

datatype dialog = Expiring message | SignIn message

datatype effect = SaveAll | OpenExternal prim | StatusBarItem string

record session =
  clock :: int
  timers :: "int list"
  dialogs :: "dialog list"
  effects :: "effect list"

definition timer_delay :: "jsnum \<Rightarrow> int" where
  "timer_delay d = (case d of Fin r \<Rightarrow> if 1 \<le> r \<and> r \<le> 2147483647 then \<lfloor>r\<rfloor> else 1 | _ \<Rightarrow> 1)"

definition set_timeout :: "jsnum \<Rightarrow> session \<Rightarrow> session" where
  "set_timeout d s = s\<lparr>timers := timers s @ [clock s + timer_delay d]\<rparr>"

definition time_left :: "cookie \<Rightarrow> session \<Rightarrow> jsnum" where
  "time_left cookie s = num_minus (to_number (getExpiryTime cookie)) (Fin (of_int (clock s)))"

definition signInError :: "cookie \<Rightarrow> session \<Rightarrow> session" where
  "signInError cookie s = s\<lparr>dialogs := dialogs s @ [SignIn (signInWarning cookie)]\<rparr>"

definition signIn_selected :: "cookie \<Rightarrow> string option \<Rightarrow> session \<Rightarrow> session" where
  "signIn_selected cookie selection s =
     (if selection = Some SIGN_IN_BUTTON
      then s\<lparr>effects := effects s @ [OpenExternal (member cookie ''redirectURL'')]\<rparr> else s)"

definition initialize :: "cookie \<Rightarrow> session \<Rightarrow> session" where
  "initialize cookie s =
     (let timeToExpiry = time_left cookie s in
      if num_ge (Fin 0) timeToExpiry then signInError cookie s
      else if num_ge timeToExpiry (Fin FIFTEEN_MINUTES_INTERVAL_MILLIS)
      then set_timeout (num_minus timeToExpiry (Fin FIFTEEN_MINUTES_INTERVAL_MILLIS)) s
      else set_timeout (num_rem timeToExpiry FIVE_MINUTES_INTERVAL_MILLIS) s)"

definition saveWorkspace :: "session \<Rightarrow> session" where
  "saveWorkspace s = s\<lparr>effects := effects s @ [SaveAll]\<rparr>"

definition renewSession :: "cookie \<Rightarrow> session \<Rightarrow> session" where
  "renewSession cookie s =
     (let s = s\<lparr>effects := effects s @ [OpenExternal (member cookie ''redirectURL'')]\<rparr>
      in set_timeout (Fin FIVE_MINUTES_INTERVAL_MILLIS) s)"

text \<open>\<open>showWarningDialog\<close> once the command has answered, and the answer to the dialog it shows.\<close>

definition showWarningDialog :: "engine \<Rightarrow> cookie \<Rightarrow> session \<Rightarrow> session" where
  "showWarningDialog eng cookie s =
     (let remainingTime = time_left cookie s in
      if length cookie \<noteq> 0 then
        if \<not> prim_loose_eq (getExpiryTime cookie) Null
           \<and> num_less (Fin FIFTEEN_MINUTES_INTERVAL_MILLIS) remainingTime
        then initialize cookie s
        else if \<not> prim_loose_eq (getExpiryTime cookie) Null \<and> num_less (Fin 0) remainingTime
        then s\<lparr>dialogs := dialogs s @ [Expiring (sessionExpiringWarning eng remainingTime cookie)]\<rparr>
        else signInError cookie s
      else s)"

definition expiring_selected :: "cookie \<Rightarrow> string option \<Rightarrow> session \<Rightarrow> session" where
  "expiring_selected cookie selection s =
     (if selection = Some WARNING_BUTTON_REMIND_ME_IN_5_MINS
      then set_timeout (Fin FIVE_MINUTES_INTERVAL_MILLIS) s
      else if selection = Some WARNING_BUTTON_SAVE then saveWorkspace s
      else if selection = Some WARNING_BUTTON_SAVE_AND_RENEW_SESSION
      then renewSession cookie (saveWorkspace s)
      else s)"

text \<open>
  The metadata file, read and parsed: \<open>None\<close> if either fails, else the members of the object.
\<close>

definition updateStatusItemWithMetadata ::
  "engine \<Rightarrow> (string \<times> prim) list option \<Rightarrow> session \<Rightarrow> session" where
  "updateStatusItemWithMetadata eng jsonData s =
     (case jsonData of
        None \<Rightarrow> s
      | Some data \<Rightarrow>
          let spaceName = member data ''SpaceName'' in
          if prim_loose_eq spaceName Null then s
          else s\<lparr>effects := effects s @ [StatusBarItem (''Space: '' @ prim_to_string eng spaceName)]\<rparr>)"

definition activate :: "engine \<Rightarrow> cookie \<Rightarrow> (string \<times> prim) list option \<Rightarrow> session \<Rightarrow> session" where
  "activate eng cookie jsonData s = updateStatusItemWithMetadata eng jsonData (initialize cookie s)"

section \<open>The event loop\<close>

datatype session_event = Tick int | Fire int | Choose dialog "string option"

fun choices :: "dialog \<Rightarrow> string list" where
  "choices (Expiring m) = buttons m"
| "choices (SignIn m) = buttons m"

fun selected :: "cookie \<Rightarrow> dialog \<Rightarrow> string option \<Rightarrow> session \<Rightarrow> session" where
  "selected cookie (Expiring m) = expiring_selected cookie"
| "selected cookie (SignIn m) = signIn_selected cookie"

inductive session_step :: "engine \<Rightarrow> cookie \<Rightarrow> session \<Rightarrow> session_event \<Rightarrow> session \<Rightarrow> bool"
  for eng cookie where
  tick: "0 \<le> d \<Longrightarrow> session_step eng cookie s (Tick d) (s\<lparr>clock := clock s + d\<rparr>)"
| fire: "t \<in> set (timers s) \<Longrightarrow> t \<le> clock s \<Longrightarrow>
    session_step eng cookie s (Fire t) (showWarningDialog eng cookie (s\<lparr>timers := remove1 t (timers s)\<rparr>))"
| choose: "d \<in> set (dialogs s) \<Longrightarrow> (\<forall>b. selection = Some b \<longrightarrow> b \<in> set (choices d)) \<Longrightarrow>
    session_step eng cookie s (Choose d selection)
      (selected cookie d selection (s\<lparr>dialogs := remove1 d (dialogs s)\<rparr>))"

inductive session_run :: "engine \<Rightarrow> cookie \<Rightarrow> session \<Rightarrow> session_event list \<Rightarrow> session \<Rightarrow> bool"
  for eng cookie where
  run_nil: "session_run eng cookie s [] s"
| run_snoc: "session_run eng cookie s es s' \<Longrightarrow> session_step eng cookie s' e s'' \<Longrightarrow>
    session_run eng cookie s (es @ [e]) s''"

inductive_cases session_stepE: "session_step eng cookie s e s'"
inductive_simps session_step_simps:
  "session_step eng cookie s (Tick d) s'" "session_step eng cookie s (Fire t) s'"
  "session_step eng cookie s (Choose d selection) s'"

text \<open>A run in which no timer is late and the user has not answered yet.\<close>

inductive punctual_run :: "engine \<Rightarrow> cookie \<Rightarrow> session \<Rightarrow> session \<Rightarrow> bool" for eng cookie where
  punctual_nil: "punctual_run eng cookie s s"
| punctual_tick: "punctual_run eng cookie s s' \<Longrightarrow> 0 \<le> d \<Longrightarrow> \<forall>t\<in>set (timers s'). clock s' + d \<le> t \<Longrightarrow>
    session_step eng cookie s' (Tick d) s'' \<Longrightarrow> punctual_run eng cookie s s''"
| punctual_fire: "punctual_run eng cookie s s' \<Longrightarrow> session_step eng cookie s' (Fire t) s'' \<Longrightarrow>
    punctual_run eng cookie s s''"

section \<open>Timing\<close>

definition expires :: "cookie \<Rightarrow> int \<Rightarrow> bool" where
  "expires cookie E \<longleftrightarrow> getExpiryTime cookie \<noteq> Null \<and> to_number (getExpiryTime cookie) = Fin (of_int E)"

lemma time_left_expires: "expires c E \<Longrightarrow> time_left c s = Fin (of_int (E - clock s))"
  by (simp add: expires_def time_left_def num_minus_def)

lemma rat_rem_int: "0 \<le> t \<Longrightarrow> 0 < b \<Longrightarrow> rat_rem (of_int t) (of_int b) = of_int (t mod b)"
  by (simp add: rat_rem_def floor_divide_of_int_eq minus_div_mult_eq_mod [symmetric] mult.commute)

lemma timer_delay_int [simp]:
  "timer_delay (Fin (of_int t)) = (if t \<le> 2147483647 then max 1 t else 1)"
  by (auto simp: timer_delay_def)

text \<open>When the first call of \<open>showWarningDialog\<close> is due.\<close>

definition first_delay :: "int \<Rightarrow> int" where
  "first_delay t = (if 900000 \<le> t then t - 900000 else t mod 300000)"

lemma initialize_expires:
  assumes "expires c E"
  shows "initialize c s =
    (let t = E - clock s; d = first_delay t in
     if t \<le> 0 then signInError c s
     else s\<lparr>timers := timers s @ [clock s + (if d \<le> 2147483647 then max 1 d else 1)]\<rparr>)"
proof -
  define t where "t = E - clock s"
  have left: "time_left c s = Fin (of_int t)" using time_left_expires [OF assms] by (simp add: t_def)
  have ge: "num_ge (Fin a) (Fin b) \<longleftrightarrow> b \<le> a" for a b by (auto simp: num_ge_def num_eq_def)
  have fifteen: "Fin FIFTEEN_MINUTES_INTERVAL_MILLIS = Fin (of_int 900000)"
    and five: "FIVE_MINUTES_INTERVAL_MILLIS = of_int 300000"
    by (simp_all add: FIFTEEN_MINUTES_INTERVAL_MILLIS_def FIVE_MINUTES_INTERVAL_MILLIS_def)
  have minus: "num_minus (Fin (of_int t)) (Fin (of_int 900000)) = Fin (of_int (t - 900000))"
    by (simp add: num_minus_def)
  have due: "timer_delay (Fin (of_int t - 900000)) = (if t - 900000 \<le> 2147483647 then max 1 (t - 900000) else 1)"
    using timer_delay_int [of "t - 900000"] by simp
  have rem: "0 < t \<Longrightarrow> num_rem (Fin (of_int t)) (of_int 300000) = Fin (of_int (t mod 300000))"
    by (simp only: num_rem_def jsnum.case) (simp add: rat_rem_int [of t 300000, simplified])
  have cmp: "num_ge (Fin 0) (Fin (of_int t)) \<longleftrightarrow> t \<le> 0"
    "num_ge (Fin (of_int t)) (Fin (of_int 900000)) \<longleftrightarrow> 900000 \<le> t"
    unfolding ge by simp_all
  show ?thesis
    unfolding initialize_def left fifteen five Let_def cmp minus t_def [symmetric]
    using rem by (auto simp: set_timeout_def first_delay_def due)
qed

lemma showWarningDialog_expires:
  assumes "expires c E" "c \<noteq> []"
  shows "showWarningDialog eng c s =
    (let t = E - clock s in
     if t > 900000 then initialize c s
     else if t > 0 then s\<lparr>dialogs := dialogs s @ [Expiring (sessionExpiringWarning eng (Fin (of_int t)) c)]\<rparr>
     else signInError c s)"
proof -
  have not_null: "\<not> prim_loose_eq (getExpiryTime c) Null"
    using assms(1) by (auto simp: prim_loose_eq_def expires_def)
  have cmp: "num_less (Fin FIFTEEN_MINUTES_INTERVAL_MILLIS) (Fin (of_int t)) \<longleftrightarrow> 900000 < t" for t
    by (simp add: FIFTEEN_MINUTES_INTERVAL_MILLIS_def)
  show ?thesis
    using assms(2) not_null unfolding showWarningDialog_def time_left_expires [OF assms(1)] cmp Let_def by simp
qed

lemma first_due:
  assumes "0 < t" "t \<le> 900000 + 2147483647"
  shows "first_delay t \<le> 2147483647" "t - first_delay t \<le> 900000" "0 \<le> first_delay t"
  using assms pos_mod_bound [of 300000 t] by (auto simp: first_delay_def)

lemma punctual_first_dialog:
  assumes "punctual_run eng c s0 s" "timers s0 = [due]" "dialogs s0 = []" "clock s0 \<le> due"
    and "expires c E" "c \<noteq> []" "E - due \<le> 900000"
  shows "(timers s = [due] \<and> dialogs s = [] \<and> clock s \<le> due)
    \<or> (timers s = [] \<and> dialogs s = [if due < E then Expiring (sessionExpiringWarning eng (Fin (of_int (E - due))) c)
                                    else SignIn (signInWarning c)])"
  using assms
proof (induction rule: punctual_run.induct)
  case (punctual_tick s s' d s'')
  then show ?case by (auto simp: session_step_simps)
next
  case (punctual_fire s s' t s'')
  then have "t \<in> set (timers s')" "t \<le> clock s'"
    and s'': "s'' = showWarningDialog eng c (s'\<lparr>timers := remove1 t (timers s')\<rparr>)"
    by (auto simp: session_step_simps)
  moreover from this punctual_fire have "timers s' = [due]" "dialogs s' = []" "clock s' \<le> due" by auto
  ultimately show ?case
    using punctual_fire.prems showWarningDialog_expires [OF punctual_fire.prems(4,5)]
    by (auto simp: signInError_def Let_def)
qed simp

lemma activate_timers:
  "timers (activate eng c json s) = timers (initialize c s)"
  "dialogs (activate eng c json s) = dialogs (initialize c s)"
  "clock (activate eng c json s) = clock (initialize c s)"
  by (simp_all add: activate_def updateStatusItemWithMetadata_def Let_def split: option.splits)

lemma initialize_watches: "timers (initialize c s) \<noteq> [] \<or> dialogs (initialize c s) \<noteq> []"
  by (simp add: initialize_def signInError_def set_timeout_def Let_def)

lemma showWarningDialog_watches:
  "c \<noteq> [] \<Longrightarrow> timers (showWarningDialog eng c s) \<noteq> [] \<or> dialogs (showWarningDialog eng c s) \<noteq> []"
  using initialize_watches [of c s] by (simp add: showWarningDialog_def signInError_def Let_def)

section \<open>Properties\<close>

definition keeps_watching :: "session_event \<Rightarrow> bool" where
  "keeps_watching e =
     (case e of
        Choose d selection \<Rightarrow>
          (case d of
             Expiring _ \<Rightarrow> selection = Some WARNING_BUTTON_REMIND_ME_IN_5_MINS
                          \<or> selection = Some WARNING_BUTTON_SAVE_AND_RENEW_SESSION
           | SignIn _ \<Rightarrow> False)
      | _ \<Rightarrow> True)"


text \<open>
  C10. The first dialog comes when it should: with an expiry time \<open>E\<close>, activated with time left (and
  less than a timer can wait), and timers that are not late, from 15 minutes before \<open>E\<close> on, or, when
  less was left, after the time left modulo 5 minutes (but at least 1 ms), exactly one dialog is
  open until the user answers: the warning with the remaining time, or, when there were less than
  5 minutes left at activation, the sign-in request at \<open>E\<close>, without a warning before.
\<close>

theorem session_warned_in_time:
  assumes "expires c E" "c \<noteq> []" "timers s0 = []" "dialogs s0 = []"
    and "0 < E - clock s0" "E - clock s0 \<le> 900000 + 2147483647"
    and "due = clock s0 + max 1 (if 900000 \<le> E - clock s0 then E - clock s0 - 900000
                                 else (E - clock s0) mod 300000)"
    and "punctual_run eng c (activate eng c json s0) s" "due < clock s"
  shows "dialogs s = [if due < E then Expiring (sessionExpiringWarning eng (Fin (of_int (E - due))) c)
                      else SignIn (signInWarning c)]
    \<and> timers s = [] \<and> (due < E \<longleftrightarrow> 300000 \<le> E - clock s0)"
proof -
  have due: "due = clock s0 + max 1 (first_delay (E - clock s0))"
    using assms(7) by (simp add: first_delay_def)
  have init: "timers (activate eng c json s0) = [due]" "dialogs (activate eng c json s0) = []"
    "clock (activate eng c json s0) \<le> due"
    using assms(3-6) first_due [of "E - clock s0"] unfolding activate_timers initialize_expires [OF assms(1)] due
    by (simp_all add: Let_def)
  have "E - due \<le> 900000" using first_due [of "E - clock s0"] assms(5,6) unfolding due by linarith
  from punctual_first_dialog [OF assms(8) init assms(1,2) this] assms(9)
  have "timers s = []" "dialogs s = [if due < E then Expiring (sessionExpiringWarning eng (Fin (of_int (E - due))) c)
      else SignIn (signInWarning c)]" by auto
  moreover have "due < E \<longleftrightarrow> 300000 \<le> E - clock s0"
  proof -
    define t where "t = E - clock s0"
    have "max 1 (first_delay t) < t \<longleftrightarrow> 300000 \<le> t"
      using assms(5) pos_mod_bound [of 300000 t] mod_pos_pos_trivial [of t 300000]
      unfolding t_def [symmetric] first_delay_def
      by (cases "t < 300000") auto
    then show ?thesis unfolding due t_def by linarith
  qed
  ultimately show ?thesis by blast
qed

text \<open>An IAM session that expires at \<open>1000000\<close>, activated at time 100000.\<close>

definition sample_cookie :: cookie where
  "sample_cookie = parseCookies [''authMode'' \<mapsto> ''Iam'', ''expiryTime'' \<mapsto> ''1000000'']"

definition sample_session :: session where
  "sample_session = \<lparr>clock = 100000, timers = [], dialogs = [], effects = []\<rparr>"

lemma sample_expires: "expires sample_cookie 1000000"
  by (simp add: expires_def sample_cookie_def parseCookies_def getExpiryTime_def member_def strict_eq_def
      string_to_number_def read_number_def read_decimal_def read_exponent_def digits_value_def scale10_def
      is_digit_def is_space_def Let_def)

lemma sample_cookie_nonempty: "sample_cookie \<noteq> []"
  by (simp add: sample_cookie_def parseCookies_def Let_def)

lemma sample_activate: "activate eng sample_cookie None sample_session = sample_session\<lparr>timers := [100001]\<rparr>"
  by (simp add: activate_def updateStatusItemWithMetadata_def initialize_expires [OF sample_expires]
      sample_session_def first_delay_def Let_def)


theorem session_warned_in_time_witness:
  "\<exists>s. punctual_run sample_engine sample_cookie (activate sample_engine sample_cookie None sample_session) s \<and>
     dialogs s = [Expiring (sessionExpiringWarning sample_engine (Fin 899999) sample_cookie)]"
proof -
  let ?s0 = "activate sample_engine sample_cookie None sample_session"
  let ?s1 = "sample_session\<lparr>clock := 100001, timers := [100001]\<rparr>"
  let ?s2 = "showWarningDialog sample_engine sample_cookie (sample_session\<lparr>clock := 100001, timers := []\<rparr>)"
  let ?s3 = "?s2\<lparr>clock := clock ?s2 + 1\<rparr>"
  have fired: "timers ?s2 = []" "clock ?s2 = 100001"
    by (simp_all add: showWarningDialog_expires [OF sample_expires sample_cookie_nonempty] sample_session_def)
  have "punctual_run sample_engine sample_cookie ?s0 ?s1"
    unfolding sample_activate
    by (rule punctual_tick [OF punctual_nil, of 1]) (simp_all add: session_step_simps sample_session_def)
  then have "punctual_run sample_engine sample_cookie ?s0 ?s2"
    by (rule punctual_fire [of _ _ _ _ 100001]) (simp add: session_step_simps)
  then have run: "punctual_run sample_engine sample_cookie ?s0 ?s3"
    by (rule punctual_tick [of _ _ _ _ 1]) (simp_all add: session_step_simps fired)
  have s0: "timers sample_session = []" "dialogs sample_session = []" "clock sample_session = 100000"
    by (simp_all add: sample_session_def)
  have "dialogs ?s3 = [Expiring (sessionExpiringWarning sample_engine (Fin 899999) sample_cookie)]"
    using session_warned_in_time [OF sample_expires sample_cookie_nonempty s0(1,2) _ _ _ run, of 100001] s0 fired
    by simp
  with run show ?thesis by blast
qed

text \<open>
  C12. What the warning dialog does at the time it is called: more than 15 minutes before the expiry
  it starts over, up to the expiry it warns with the whole minutes left, at most 15, and from the
  expiry on it asks to sign in. It never warns after the expiry and changes nothing else.
\<close>

theorem showWarningDialog_correct:
  assumes "expires c E" "c \<noteq> []"
  shows "(E - clock s > 900000 \<longrightarrow> showWarningDialog eng c s = initialize c s)
    \<and> (0 < E - clock s \<and> E - clock s \<le> 900000 \<longrightarrow>
        (\<exists>m. showWarningDialog eng c s = s\<lparr>dialogs := dialogs s @ [Expiring m]\<rparr>
           \<and> header m = ''Session expiring soon''
           \<and> buttons m = WARNING_TIME_BUTTONS (isSSOMode c)
           \<and> (\<exists>k. 0 \<le> k \<and> k \<le> 15 \<and> k * 60000 \<le> E - clock s \<and> E - clock s < (k + 1) * 60000
                \<and> prefix (''Your session will expire in '' @ num_to_string eng (Fin (of_int k)) @ '' minutes.'') (detail m))))
    \<and> (E \<le> clock s \<longrightarrow> showWarningDialog eng c s = s\<lparr>dialogs := dialogs s @ [SignIn (signInWarning c)]\<rparr>)"
proof (intro conjI impI)
  assume left: "0 < E - clock s \<and> E - clock s \<le> 900000"
  define k where "k = (E - clock s) div 60000"
  have floor: "\<lfloor>(of_int (E - clock s) :: rat) / 60000\<rfloor> = k"
    using floor_divide_of_int_eq [of "E - clock s" 60000, where 'a = rat] by (simp add: k_def)
  let ?m = "sessionExpiringWarning eng (Fin (of_int (E - clock s))) c"
  have "showWarningDialog eng c s = s\<lparr>dialogs := dialogs s @ [Expiring ?m]\<rparr>"
    using left by (simp add: showWarningDialog_expires [OF assms])
  moreover have "header ?m = ''Session expiring soon''" "buttons ?m = WARNING_TIME_BUTTONS (isSSOMode c)"
    by (simp_all add: sessionExpiringWarning_def WARNING_TIME_HEADER_def Let_def)
  moreover have "prefix (''Your session will expire in '' @ num_to_string eng (Fin (of_int k)) @ '' minutes.'') (detail ?m)"
    using floor by (simp add: sessionExpiringWarning_def num_floor_def Let_def)
  moreover have "0 \<le> k" "k \<le> 15" "k * 60000 \<le> E - clock s" "E - clock s < (k + 1) * 60000"
    using left unfolding k_def by (simp_all, linarith+)
  ultimately show "\<exists>m. showWarningDialog eng c s = s\<lparr>dialogs := dialogs s @ [Expiring m]\<rparr>
      \<and> header m = ''Session expiring soon'' \<and> buttons m = WARNING_TIME_BUTTONS (isSSOMode c)
      \<and> (\<exists>k. 0 \<le> k \<and> k \<le> 15 \<and> k * 60000 \<le> E - clock s \<and> E - clock s < (k + 1) * 60000
           \<and> prefix (''Your session will expire in '' @ num_to_string eng (Fin (of_int k)) @ '' minutes.'') (detail m))"
    by blast
qed (simp_all add: showWarningDialog_expires [OF assms] signInError_def)

theorem showWarningDialog_correct_witness:
  "showWarningDialog sample_engine sample_cookie (sample_session\<lparr>clock := 1000001\<rparr>) =
     sample_session\<lparr>clock := 1000001, dialogs := [SignIn (signInWarning sample_cookie)]\<rparr>"
  using showWarningDialog_correct [OF sample_expires sample_cookie_nonempty, of "sample_session\<lparr>clock := 1000001\<rparr>"]
  by (simp add: sample_session_def)

text \<open>
  Two situations the monitor does not handle. Without cookies (a local run) it asks the user to
  sign in at once, since the command answers with an object of five undefined members, never with
  an empty one. And a session with more time left than a timer can wait is checked again every
  millisecond, since the delay is reset to 1.
\<close>

lemma session_edge_cases:
  "(0 \<le> clock s \<longrightarrow> activate eng (parseCookies (\<lambda>_. None)) None s =
      s\<lparr>dialogs := dialogs s @ [SignIn (signInWarning (parseCookies (\<lambda>_. None)))]\<rparr>)
   \<and> (expires c E \<and> c \<noteq> [] \<and> E - clock s > 900000 + 2147483647 \<longrightarrow>
        activate eng c None s = s\<lparr>timers := timers s @ [clock s + 1]\<rparr>
      \<and> showWarningDialog eng c s = s\<lparr>timers := timers s @ [clock s + 1]\<rparr>)"
proof (intro conjI impI)
  assume "0 \<le> clock s"
  moreover have "expires (parseCookies (\<lambda>_. None)) (- 1)"
    by (simp add: expires_def parseCookies_def getExpiryTime_def member_def strict_eq_def Let_def)
  ultimately show "activate eng (parseCookies (\<lambda>_. None)) None s =
      s\<lparr>dialogs := dialogs s @ [SignIn (signInWarning (parseCookies (\<lambda>_. None)))]\<rparr>"
    by (simp add: activate_def updateStatusItemWithMetadata_def initialize_expires signInError_def Let_def)
next
  assume long: "expires c E \<and> c \<noteq> [] \<and> E - clock s > 900000 + 2147483647"
  then have "initialize c s = s\<lparr>timers := timers s @ [clock s + 1]\<rparr>"
    by (simp add: initialize_expires [of c E] first_delay_def Let_def)
  then show "activate eng c None s = s\<lparr>timers := timers s @ [clock s + 1]\<rparr>"
    and "showWarningDialog eng c s = s\<lparr>timers := timers s @ [clock s + 1]\<rparr>"
    using long by (simp_all add: activate_def updateStatusItemWithMetadata_def showWarningDialog_expires [of c E])
qed

end
