(* ===== verification/IdleMonitor.thy ===== *)
theory IdleMonitor
  imports Prelude
begin

text \<open>
  The idle monitor: the extension
  \<open>src/patched-vscode/extensions/sagemaker-idle-extension/src/extension.ts\<close>, which records the time
  of the last activity in a file, and the request handler \<open>_handleIdle\<close> of
  \<open>src/patched-vscode/src/vs/server/node/webClientServer.ts\<close>, which reports it.

  The state \<open>idle\<close> is the clock, the content of the idle file (\<open>None\<close> when it does not exist) and
  whether the interval of the extension is active. The printing \<open>toISOString\<close> of an instant is the
  argument \<open>toISO\<close>. The times of the files of \<open>/dev/pts\<close> and what reading them gives are part of the
  event of a check.
\<close>

section \<open>The extension\<close>

definition CHECK_INTERVAL :: int where
  "CHECK_INTERVAL = 60000"

record idle =
  now :: int
  idleFile :: "string option"
  terminalActivityInterval :: bool

definition updateLastActivityTimestamp :: "(int \<Rightarrow> string) \<Rightarrow> idle \<Rightarrow> idle" where
  "updateLastActivityTimestamp toISO s = s\<lparr>idleFile := Some (toISO (now s))\<rparr>"

definition initializeIdleFilePath :: "(int \<Rightarrow> string) \<Rightarrow> idle \<Rightarrow> idle" where
  "initializeIdleFilePath toISO s = updateLastActivityTimestamp toISO s"

definition startMonitoringTerminalActivity :: "idle \<Rightarrow> idle" where
  "startMonitoringTerminalActivity s = s\<lparr>terminalActivityInterval := True\<rparr>"

definition activate_idle :: "(int \<Rightarrow> string) \<Rightarrow> idle \<Rightarrow> idle" where
  "activate_idle toISO s = startMonitoringTerminalActivity (initializeIdleFilePath toISO s)"

definition deactivate_idle :: "idle \<Rightarrow> idle" where
  "deactivate_idle s = s\<lparr>terminalActivityInterval := False\<rparr>"

text \<open>
  The listing of \<open>/dev/pts\<close> is \<open>None\<close> when reading it fails; a file's modification time is \<open>None\<close>
  when its \<open>statSync\<close> throws.
\<close>

definition activityDetected :: "int \<Rightarrow> int option list \<Rightarrow> bool" where
  "activityDetected t files =
     list_ex (\<lambda>file. case file of None \<Rightarrow> False | Some mtime \<Rightarrow> t - mtime < CHECK_INTERVAL) files"

definition checkTerminalActivity :: "(int \<Rightarrow> string) \<Rightarrow> int option list option \<Rightarrow> idle \<Rightarrow> idle" where
  "checkTerminalActivity toISO listing s =
     (case listing of
        None \<Rightarrow> s
      | Some files \<Rightarrow> if activityDetected (now s) files then updateLastActivityTimestamp toISO s else s)"

section \<open>The request handler\<close>

datatype response = Ok string | ServerError

text \<open>
  \<open>failed\<close> says that one of the file operations throws. The body of the answer is the JSON object
  with the content of the file as its member \<open>lastActiveTimestamp\<close>.
\<close>

definition handleIdle :: "(int \<Rightarrow> string) \<Rightarrow> bool \<Rightarrow> idle \<Rightarrow> response \<times> idle" where
  "handleIdle toISO failed s =
     (if failed then (ServerError, s)
      else
        let s = (if idleFile s = None then s\<lparr>idleFile := Some (toISO (now s))\<rparr> else s) in
        case idleFile s of
          Some timestamp \<Rightarrow> (Ok timestamp, s)
        | None \<Rightarrow> (ServerError, s))"

section \<open>Events\<close>

text \<open>
  The editor events that \<open>registerEventListeners\<close> subscribes to, a check of the terminals, a request,
  and the passing of time.
\<close>

datatype editor_event = DidChangeTextDocument | DidChangeActiveTextEditor | DidChangeTextEditorSelection
  | DidOpenTerminal | DidCloseTerminal

datatype idle_event = Pass int | Editor editor_event | Check "int option list option" | Request bool

fun registerEventListeners :: "(int \<Rightarrow> string) \<Rightarrow> editor_event \<Rightarrow> idle \<Rightarrow> idle" where
  "registerEventListeners toISO DidChangeTextDocument s = updateLastActivityTimestamp toISO s"
| "registerEventListeners toISO DidChangeActiveTextEditor s = updateLastActivityTimestamp toISO s"
| "registerEventListeners toISO DidChangeTextEditorSelection s = updateLastActivityTimestamp toISO s"
| "registerEventListeners toISO DidOpenTerminal s = updateLastActivityTimestamp toISO s"
| "registerEventListeners toISO DidCloseTerminal s = updateLastActivityTimestamp toISO s"

fun idle_step :: "(int \<Rightarrow> string) \<Rightarrow> idle_event \<Rightarrow> idle \<Rightarrow> idle" where
  "idle_step toISO (Pass d) s = s\<lparr>now := now s + \<bar>d\<bar>\<rparr>"
| "idle_step toISO (Editor e) s = registerEventListeners toISO e s"
| "idle_step toISO (Check listing) s = (if terminalActivityInterval s then checkTerminalActivity toISO listing s else s)"
| "idle_step toISO (Request failed) s = snd (handleIdle toISO failed s)"

definition idle_run :: "(int \<Rightarrow> string) \<Rightarrow> idle_event list \<Rightarrow> idle \<Rightarrow> idle" where
  "idle_run toISO es s = foldl (\<lambda>s e. idle_step toISO e s) s es"

section \<open>The reference: the last time the monitor learned of activity\<close>

text \<open>
  What an event tells the monitor: an editor event is activity at the current time, and so is a
  check that sees a terminal modified less than an interval ago.
\<close>

definition learns :: "idle \<Rightarrow> idle_event \<Rightarrow> bool" where
  "learns s e =
     (case e of
        Editor _ \<Rightarrow> True
      | Check (Some files) \<Rightarrow>
          terminalActivityInterval s \<and> (\<exists>m. Some m \<in> set files \<and> now s - m < CHECK_INTERVAL)
      | _ \<Rightarrow> False)"

fun last_learned :: "(int \<Rightarrow> string) \<Rightarrow> int \<Rightarrow> idle_event list \<Rightarrow> idle \<Rightarrow> int" where
  "last_learned toISO t [] s = t"
| "last_learned toISO t (e # es) s =
     last_learned toISO (if learns s e then now s else t) es (idle_step toISO e s)"

lemma activityDetected_ex: "activityDetected t files \<longleftrightarrow> (\<exists>m. Some m \<in> set files \<and> t - m < CHECK_INTERVAL)"
  by (force simp: activityDetected_def list_ex_iff split: option.splits)

lemma idle_step_learns:
  assumes "idleFile s = Some (toISO t)"
  shows "idleFile (idle_step toISO e s) = Some (toISO (if learns s e then now s else t))"
proof (cases e)
  case (Editor x)
  then show ?thesis by (cases x) (simp_all add: learns_def updateLastActivityTimestamp_def)
qed (use assms in \<open>auto simp: learns_def checkTerminalActivity_def activityDetected_ex updateLastActivityTimestamp_def
      handleIdle_def split: option.splits\<close>)

lemma idle_run_learned:
  "idleFile s = Some (toISO t) \<Longrightarrow> idleFile (idle_run toISO es s) = Some (toISO (last_learned toISO t es s))"
  unfolding idle_run_def
proof (induction es arbitrary: s t)
  case (Cons e es)
  then show ?case using idle_step_learns [of s toISO t e] by (simp del: idle_step.simps)
qed simp

lemma idle_step_now: "now s \<le> now (idle_step toISO e s)"
proof (cases e)
  case (Editor x)
  then show ?thesis by (cases x) (simp_all add: updateLastActivityTimestamp_def)
qed (auto simp: checkTerminalActivity_def updateLastActivityTimestamp_def handleIdle_def Let_def split: option.splits)

lemma last_learned_bounds:
  "t \<le> now s \<Longrightarrow> t \<le> last_learned toISO t es s \<and> last_learned toISO t es s \<le> now (idle_run toISO es s)"
  unfolding idle_run_def
proof (induction es arbitrary: s t)
  case (Cons e es)
  from idle_step_now [of s toISO e] Cons.prems have "(if learns s e then now s else t) \<le> now (idle_step toISO e s)" by simp
  from Cons.IH [OF this] Cons.prems show ?case by (auto split: if_splits)
qed simp

section \<open>Properties\<close>


text \<open>A stand-in for the printing of an instant.\<close>

definition sample_iso :: "int \<Rightarrow> string" where
  "sample_iso t = show_int t @ ''Z''"

definition sample_idle :: idle where
  "sample_idle = \<lparr>now = 5, idleFile = None, terminalActivityInterval = False\<rparr>"




end
