(* ===== verification/TerminalMitigation.thy ===== *)
theory TerminalMitigation
  imports Prelude "HOL-Library.Monad_Syntax"
begin

text \<open>
  \<open>src/patched-vscode/extensions/sagemaker-terminal-crash-mitigation/src/extension.ts\<close>: kills the
  bash processes when a terminal closes right after it was opened and no terminal is left.

  The two listeners wait for \<open>terminal.processId\<close> in the middle, so each is modelled as the part
  before and the part after the \<open>await\<close>; what waits is kept in \<open>awaiting\<close> and may resume at any
  later step and in any order. \<open>pid_of\<close> is the process id of a terminal (\<open>None\<close> for undefined), and
  a resumption may also be a rejection. \<open>killed\<close> counts the calls of \<open>execKillCommand\<close>.
\<close>

section \<open>The listeners\<close>

type_synonym terminal = nat

datatype continuation = AfterOpen terminal | AfterClose terminal

record mitigation =
  now_ms :: int
  terminals :: "terminal list"
  lastTerminal :: "terminal option"
  lastProcessId :: "nat option"
  lastOpenedTime :: "int option"
  awaiting :: "continuation list"
  killed :: nat

definition onDidOpenTerminal :: "terminal \<Rightarrow> mitigation \<Rightarrow> mitigation" where
  "onDidOpenTerminal terminal s =
     s\<lparr>lastTerminal := Some terminal, lastOpenedTime := Some (now_ms s),
       awaiting := awaiting s @ [AfterOpen terminal]\<rparr>"

text \<open>The rest of a listener gets \<open>Inl ()\<close> when the promise is rejected.\<close>

definition afterOpen :: "unit + nat option \<Rightarrow> mitigation \<Rightarrow> mitigation" where
  "afterOpen r s = (case r of Inl _ \<Rightarrow> s | Inr pid \<Rightarrow> s\<lparr>lastProcessId := pid\<rparr>)"

text \<open>The value 0 is as good as none for the guard of the listener.\<close>

definition truthy_nat :: "nat option \<Rightarrow> bool" where
  "truthy_nat v \<longleftrightarrow> v \<noteq> None \<and> v \<noteq> Some 0"

definition truthy_int :: "int option \<Rightarrow> bool" where
  "truthy_int v \<longleftrightarrow> v \<noteq> None \<and> v \<noteq> Some 0"

definition onDidCloseTerminal :: "terminal \<Rightarrow> mitigation \<Rightarrow> mitigation" where
  "onDidCloseTerminal terminal s =
     (if lastTerminal s \<noteq> None \<and> truthy_nat (lastProcessId s) \<and> truthy_int (lastOpenedTime s)
      then s\<lparr>awaiting := awaiting s @ [AfterClose terminal]\<rparr> else s)"

definition afterClose :: "unit + nat option \<Rightarrow> mitigation \<Rightarrow> mitigation" where
  "afterClose r s =
     (case r of
        Inl _ \<Rightarrow> s
      | Inr currentProcessId \<Rightarrow>
          if currentProcessId = lastProcessId s then
            (case lastOpenedTime s of
               None \<Rightarrow> s
             | Some opened \<Rightarrow>
                 let timeElapsed = now_ms s - opened in
                 if timeElapsed < 1000 then
                   let remainingTerminals = length (terminals s) in
                   if remainingTerminals = 0 then s\<lparr>killed := killed s + 1\<rparr> else s
                 else s)
          else s)"

text \<open>
  \<open>execKillCommand\<close>: from what the listing of the processes gives, an error or its output and error
  output, the processes that \<open>kill -9\<close> is run for.
\<close>

definition is_blank :: "char \<Rightarrow> bool" where
  "is_blank c \<longleftrightarrow> (of_char c :: nat) \<in> {9, 10, 11, 12, 13, 32, 160}"

definition js_trim :: "string \<Rightarrow> string" where
  "js_trim s = rev (dropWhile is_blank (rev (dropWhile is_blank s)))"

definition execKillCommand :: "unit + string \<times> string \<Rightarrow> string list" where
  "execKillCommand r =
     (case r of
        Inl _ \<Rightarrow> []
      | Inr (stdout, stderr) \<Rightarrow>
          if stderr \<noteq> [] then []
          else
            let pids = filter (\<lambda>pid. pid \<noteq> []) (js_split (CHR 0x0A) (js_trim stdout)) in
            if length pids = 0 then [] else map (\<lambda>pid. ''kill -9 '' @ pid) pids)"

section \<open>The event loop\<close>

datatype mitigation_event = Time int | Opened terminal | Closed terminal | Resumed continuation bool

definition outcome :: "(terminal \<Rightarrow> nat option) \<Rightarrow> terminal \<Rightarrow> bool \<Rightarrow> unit + nat option" where
  "outcome pid_of t rejected = (if rejected then Inl () else Inr (pid_of t))"

inductive mitigation_step :: "(terminal \<Rightarrow> nat option) \<Rightarrow> mitigation \<Rightarrow> mitigation_event \<Rightarrow> mitigation \<Rightarrow> bool"
  for pid_of where
  time: "0 \<le> d \<Longrightarrow> mitigation_step pid_of s (Time d) (s\<lparr>now_ms := now_ms s + d\<rparr>)"
| opened: "t \<notin> set (terminals s) \<Longrightarrow>
    mitigation_step pid_of s (Opened t) (onDidOpenTerminal t (s\<lparr>terminals := terminals s @ [t]\<rparr>))"
| closed: "t \<in> set (terminals s) \<Longrightarrow>
    mitigation_step pid_of s (Closed t) (onDidCloseTerminal t (s\<lparr>terminals := remove1 t (terminals s)\<rparr>))"
| after_open: "AfterOpen t \<in> set (awaiting s) \<Longrightarrow>
    mitigation_step pid_of s (Resumed (AfterOpen t) rejected)
      (afterOpen (outcome pid_of t rejected) (s\<lparr>awaiting := remove1 (AfterOpen t) (awaiting s)\<rparr>))"
| after_close: "AfterClose t \<in> set (awaiting s) \<Longrightarrow>
    mitigation_step pid_of s (Resumed (AfterClose t) rejected)
      (afterClose (outcome pid_of t rejected) (s\<lparr>awaiting := remove1 (AfterClose t) (awaiting s)\<rparr>))"

inductive mitigation_run :: "(terminal \<Rightarrow> nat option) \<Rightarrow> mitigation \<Rightarrow> mitigation_event list \<Rightarrow> mitigation \<Rightarrow> bool"
  for pid_of where
  run_nil: "mitigation_run pid_of s [] s"
| run_snoc: "mitigation_run pid_of s es s' \<Longrightarrow> mitigation_step pid_of s' e s'' \<Longrightarrow>
    mitigation_run pid_of s (es @ [e]) s''"

inductive_simps mitigation_step_simps:
  "mitigation_step pid_of s (Time d) s'" "mitigation_step pid_of s (Opened t) s'"
  "mitigation_step pid_of s (Closed t) s'" "mitigation_step pid_of s (Resumed (AfterOpen t) r) s'"
  "mitigation_step pid_of s (Resumed (AfterClose t) r) s'"

text \<open>The state when the extension is activated with some terminals open.\<close>

definition activated :: "int \<Rightarrow> terminal list \<Rightarrow> mitigation" where
  "activated t ts = \<lparr>now_ms = t, terminals = ts, lastTerminal = None, lastProcessId = None,
     lastOpenedTime = None, awaiting = [], killed = 0\<rparr>"

section \<open>What a sequence of events tells\<close>

definition last_opened :: "mitigation_event list \<Rightarrow> terminal option" where
  "last_opened es = foldl (\<lambda>a e. case e of Opened t \<Rightarrow> Some t | _ \<Rightarrow> a) None es"

definition since_opened :: "mitigation_event list \<Rightarrow> int" where
  "since_opened es = foldl (\<lambda>a e. case e of Opened _ \<Rightarrow> 0 | Time d \<Rightarrow> a + d | _ \<Rightarrow> a) 0 es"

definition last_identified :: "mitigation_event list \<Rightarrow> terminal option" where
  "last_identified es = foldl (\<lambda>a e. case e of Resumed (AfterOpen t) False \<Rightarrow> Some t | _ \<Rightarrow> a) None es"

lemma history_simps [simp]:
  "last_opened [] = None" "last_identified [] = None"
  "last_opened (es @ [e]) = (case e of Opened t \<Rightarrow> Some t | _ \<Rightarrow> last_opened es)"
  "since_opened (es @ [e]) = (case e of Opened _ \<Rightarrow> 0 | Time d \<Rightarrow> since_opened es + d | _ \<Rightarrow> since_opened es)"
  "last_identified (es @ [e]) = (case e of Resumed (AfterOpen t) False \<Rightarrow> Some t | _ \<Rightarrow> last_identified es)"
  unfolding last_opened_def since_opened_def last_identified_def by simp_all

definition tracks :: "(terminal \<Rightarrow> nat option) \<Rightarrow> mitigation_event list \<Rightarrow> mitigation \<Rightarrow> bool" where
  "tracks pid_of es s \<longleftrightarrow>
     lastTerminal s = last_opened es
     \<and> lastProcessId s = Option.bind (last_identified es) pid_of
     \<and> lastOpenedTime s = map_option (\<lambda>_. now_ms s - since_opened es) (last_opened es)
     \<and> (\<forall>t. AfterOpen t \<in> set (awaiting s) \<or> last_identified es = Some t \<longrightarrow> Opened t \<in> set es)
     \<and> (\<forall>t. AfterClose t \<in> set (awaiting s) \<longrightarrow> Closed t \<in> set es)"

lemma tracks_step:
  assumes "tracks pid_of es s" "mitigation_step pid_of s e s'"
  shows "tracks pid_of (es @ [e]) s'"
  using assms(2,1)
proof cases
  case (closed t)
  with assms(1) show ?thesis by (auto simp: tracks_def onDidCloseTerminal_def)
next
  case (after_open t rejected)
  with assms(1) show ?thesis
    by (cases rejected) (auto simp: tracks_def afterOpen_def outcome_def dest: notin_set_remove1)
next
  case (after_close t rejected)
  with assms(1) show ?thesis
    by (auto simp: tracks_def afterClose_def outcome_def Let_def split: option.splits dest: notin_set_remove1)
qed (auto simp: tracks_def onDidOpenTerminal_def split: option.splits)

lemma tracks_run: "mitigation_run pid_of (activated t0 ts) es s \<Longrightarrow> tracks pid_of es s"
proof (induction "activated t0 ts" es s rule: mitigation_run.induct)
  case run_nil
  then show ?case by (simp add: tracks_def activated_def)
qed (rule tracks_step)

section \<open>Properties\<close>


definition sample_pid :: "terminal \<Rightarrow> nat option" where
  "sample_pid t = Some (100 + t)"

text \<open>A terminal that closes 200 ms after it was opened, the only one.\<close>

definition crash_events :: "mitigation_event list" where
  "crash_events = [Opened 0, Resumed (AfterOpen 0) False, Time 200, Closed 0]"

lemma run_Cons:
  "mitigation_step pid_of s e s' \<Longrightarrow> mitigation_run pid_of s' es s'' \<Longrightarrow> mitigation_run pid_of s (e # es) s''"
proof (induction es arbitrary: s'' rule: rev_induct)
  case Nil
  then have "s'' = s'" by (auto elim: mitigation_run.cases)
  with run_snoc [OF run_nil Nil.prems(1)] show ?case by simp
next
  case (snoc x xs)
  from snoc.prems(2) obtain s3 where "mitigation_run pid_of s' xs s3" "mitigation_step pid_of s3 x s''"
    by (cases rule: mitigation_run.cases) auto
  with snoc.IH [OF snoc.prems(1)] run_snoc [of pid_of s "e # xs" s3 x s''] show ?case by simp
qed

lemmas run_simps = mitigation_step_simps activated_def onDidOpenTerminal_def afterOpen_def outcome_def
  onDidCloseTerminal_def truthy_nat_def truthy_int_def sample_pid_def

lemma crash_run:
  "mitigation_run sample_pid (activated 1 []) crash_events
     \<lparr>now_ms = 201, terminals = [], lastTerminal = Some 0, lastProcessId = Some 100, lastOpenedTime = Some 1,
      awaiting = [AfterClose 0], killed = 0\<rparr>"
  unfolding crash_events_def
  by (intro run_Cons run_nil | simp add: run_simps)+


text \<open>
  The closed terminal need not be the one that was opened last, nor have been open for less than
  a second: when the process id of an older terminal arrives after that of a newer one, closing the
  older terminal kills, although it was open for five seconds.
\<close>

definition late_id_events :: "mitigation_event list" where
  "late_id_events = [Opened 0, Time 5000, Opened 1, Resumed (AfterOpen 1) False, Resumed (AfterOpen 0) False,
     Closed 1, Closed 0]"

lemma late_process_id_kills:
  "\<exists>s s'. mitigation_run sample_pid (activated 1 []) late_id_events s
     \<and> mitigation_step sample_pid s (Resumed (AfterClose 0) False) s' \<and> killed s' = killed s + 1
     \<and> last_opened late_id_events = Some 1"
proof -
  let ?s = "\<lparr>now_ms = 5001, terminals = [], lastTerminal = Some 1, lastProcessId = Some 100, lastOpenedTime = Some 5001,
      awaiting = [AfterClose 1, AfterClose 0], killed = 0\<rparr> :: mitigation"
  have "mitigation_run sample_pid (activated 1 []) late_id_events ?s"
    unfolding late_id_events_def by (intro run_Cons run_nil | simp add: run_simps)+
  moreover have "mitigation_step sample_pid ?s (Resumed (AfterClose 0) False)
      (?s\<lparr>awaiting := [AfterClose 1], killed := 1\<rparr>)"
    by (simp add: run_simps afterClose_def)
  ultimately show ?thesis by (fastforce simp: late_id_events_def last_opened_def)
qed

end
