(* ===== verification/OpenNotebook.thy ===== *)
theory OpenNotebook
  imports Prelude "HOL-Library.AList"
begin

text \<open>
  \<open>src/patched-vscode/extensions/sagemaker-open-notebook-extension/src/extension.ts\<close>: downloads a
  notebook from the bucket of a region, puts the command for the cluster into the marked cells and
  opens it. JSON values are the datatype \<open>json\<close>; the conversions between text and JSON, the download
  and the operations of the editor are arguments, \<open>None\<close> where they fail.
\<close>

section \<open>JSON values\<close>

datatype json = JNull | JBool bool | JNum int | JStr string | JArr "json list" | JObj "(string \<times> json) list"

definition is_truthy :: "json option \<Rightarrow> bool" where
  "is_truthy v =
     (case v of
        None \<Rightarrow> False
      | Some JNull \<Rightarrow> False
      | Some (JBool b) \<Rightarrow> b
      | Some (JNum n) \<Rightarrow> n \<noteq> 0
      | Some (JStr s) \<Rightarrow> s \<noteq> []
      | Some _ \<Rightarrow> True)"

text \<open>A member of a value: reading one of null or undefined throws, other values have no such members.\<close>

definition get_member :: "json option \<Rightarrow> string \<Rightarrow> json option result" where
  "get_member v key =
     (case v of
        None \<Rightarrow> Inl (GenericError ''TypeError'')
      | Some JNull \<Rightarrow> Inl (GenericError ''TypeError'')
      | Some (JObj ms) \<Rightarrow> Inr (map_of ms key)
      | Some _ \<Rightarrow> Inr None)"

text \<open>\<open>v.includes(s)\<close> for a string \<open>s\<close>: of an array its elements, of a string its substrings.\<close>

definition json_includes :: "json option \<Rightarrow> string \<Rightarrow> bool result" where
  "json_includes v s =
     (case v of
        Some (JArr xs) \<Rightarrow> Inr (JStr s \<in> set xs)
      | Some (JStr t) \<Rightarrow> Inr (sublist s t)
      | _ \<Rightarrow> Inl (GenericError ''TypeError''))"

section \<open>The notebook\<close>

definition session_command :: "string \<Rightarrow> string \<Rightarrow> string" where
  "session_command clusterId region =
     ''aws ssm start-session --target sagemaker-cluster:'' @ clusterId @ '' --region '' @ region"

definition set_members :: "(string \<times> json) list \<Rightarrow> json \<Rightarrow> json" where
  "set_members kvs v = (case v of JObj ms \<Rightarrow> JObj (fold (\<lambda>(k, x). AList.update k x) kvs ms) | _ \<Rightarrow> v)"

definition process_cell :: "string \<Rightarrow> string \<Rightarrow> json \<Rightarrow> json result" where
  "process_cell clusterId region cell =
     rbind (get_member (Some cell) ''metadata'') (\<lambda>metadata.
       if is_truthy metadata then
         rbind (get_member metadata ''jumpStartAlterations'') (\<lambda>alterations.
           if is_truthy alterations then
             rbind (json_includes alterations ''clusterId'') (\<lambda>marked.
               Inr (if marked
                    then set_members
                      [(''source'', JArr [JStr (''%%bash'' @ [CHR 0x0A]), JStr (session_command clusterId region)]),
                       (''cell_type'', JStr ''code'')] cell
                    else cell))
           else Inr cell)
       else Inr cell)"

definition process_notebook :: "string \<Rightarrow> string \<Rightarrow> json \<Rightarrow> json result" where
  "process_notebook clusterId region notebook =
     rbind (get_member (Some notebook) ''cells'') (\<lambda>cells.
       case cells of
         Some (JArr cs) \<Rightarrow>
           rbind (rmap (process_cell clusterId region) cs) (\<lambda>cs. Inr (set_members [(''cells'', JArr cs)] notebook))
       | _ \<Rightarrow> Inl (GenericError ''TypeError''))"

definition processNotebookContent ::
  "(string \<Rightarrow> json option) \<Rightarrow> (json \<Rightarrow> string) \<Rightarrow> string \<Rightarrow> string \<Rightarrow> string \<Rightarrow> string result" where
  "processNotebookContent parse stringify content clusterId region =
     (case parse content of
        None \<Rightarrow> Inl (GenericError ''SyntaxError'')
      | Some notebook \<Rightarrow> rbind (process_notebook clusterId region notebook) (\<lambda>n. Inr (stringify n)))"

section \<open>Loading\<close>

definition region_char :: "char \<Rightarrow> bool" where
  "region_char c \<longleftrightarrow>
     (let n = (of_char c :: nat) in
      97 \<le> n \<and> n \<le> 122 \<or> 65 \<le> n \<and> n \<le> 90 \<or> 48 \<le> n \<and> n \<le> 57 \<or> c = CHR ''-'')"

definition isValidRegion :: "string \<Rightarrow> bool" where
  "isValidRegion region \<longleftrightarrow> region \<noteq> [] \<and> list_all region_char region"

datatype action = WriteFile string | OpenDocument | ShowErrorMessage string

definition notebook_url :: "string \<Rightarrow> string \<Rightarrow> string" where
  "notebook_url fileKey region =
     (let bucketName = ''jumpstart-cache-prod-'' @ region
      in ''https://'' @ bucketName @ ''.s3.'' @ region @ ''.amazonaws.com/'' @ fileKey)"

text \<open>
  The requests that are made and what happens to the editor. \<open>download\<close> gives the content under a
  URL or the message of an error; an error of the processing is represented by its name.
\<close>

fun error_name :: "js_error \<Rightarrow> string" where
  "error_name (BugIndicatingError m) = m"
| "error_name (GenericError m) = m"
| "error_name (IllegalArgument m) = m"

definition loadAndDisplayNotebook ::
  "(string \<Rightarrow> json option) \<Rightarrow> (json \<Rightarrow> string) \<Rightarrow> (string \<Rightarrow> string + string) \<Rightarrow> string \<Rightarrow> string \<Rightarrow> string
     \<Rightarrow> string list \<times> action list" where
  "loadAndDisplayNotebook parse stringify download fileKey clusterId region =
     (if \<not> isValidRegion region
      then ([], [ShowErrorMessage ''Invalid region format. Region should only contain characters, numbers, and hyphens.''])
      else
        let url = notebook_url fileKey region in
        ([url],
         case download url of
           Inl message \<Rightarrow> [ShowErrorMessage (''Error downloading or opening notebook: '' @ message)]
         | Inr content \<Rightarrow>
             (case processNotebookContent parse stringify content clusterId region of
                Inl e \<Rightarrow> [ShowErrorMessage (''Error downloading or opening notebook: '' @ error_name e)]
              | Inr content \<Rightarrow> [WriteFile content, OpenDocument])))"

definition activate_notebook ::
  "(string \<Rightarrow> json option) \<Rightarrow> (json \<Rightarrow> string) \<Rightarrow> (string \<Rightarrow> string + string) \<Rightarrow> string \<Rightarrow> string \<Rightarrow> string
     \<Rightarrow> string list \<times> action list" where
  "activate_notebook parse stringify download notebookKey clusterId region =
     (if notebookKey \<noteq> [] then loadAndDisplayNotebook parse stringify download notebookKey clusterId region
      else ([], []))"

section \<open>Marked cells\<close>

definition object_member :: "json \<Rightarrow> string \<Rightarrow> json option" where
  "object_member v key = (case v of JObj ms \<Rightarrow> map_of ms key | _ \<Rightarrow> None)"

definition is_marked :: "json \<Rightarrow> bool" where
  "is_marked cell \<longleftrightarrow>
     (\<exists>m a. object_member cell ''metadata'' = Some m \<and> object_member m ''jumpStartAlterations'' = Some a
        \<and> (case a of JArr xs \<Rightarrow> JStr ''clusterId'' \<in> set xs | JStr t \<Rightarrow> sublist ''clusterId'' t | _ \<Rightarrow> False))"

lemma get_member_object: "get_member (Some v) key = Inr x \<Longrightarrow> x = object_member v key"
  by (cases v) (auto simp: get_member_def object_member_def)

lemma set_members_object:
  "object_member (set_members [(a, x), (b, y)] (JObj ms)) k =
     (if k = b then Some y else if k = a then Some x else object_member (JObj ms) k)"
  "object_member (set_members [(a, x)] (JObj ms)) k = (if k = a then Some x else object_member (JObj ms) k)"
  by (simp_all add: set_members_def object_member_def update_conv')

lemma rmap_Inr: "rmap f xs = Inr ys \<Longrightarrow> list_all2 (\<lambda>x y. f x = Inr y) xs ys"
  by (induction xs arbitrary: ys) (auto simp: rbind_def split: sum.splits)

lemma rbind_Inr: "rbind r f = Inr y \<longleftrightarrow> (\<exists>x. r = Inr x \<and> f x = Inr y)"
  by (auto simp: rbind_def split: sum.splits)

lemma process_cell_cases:
  assumes "process_cell clusterId region cell = Inr c"
  shows "c = (if is_marked cell
     then set_members [(''source'', JArr [JStr (''%%bash'' @ [CHR 0x0A]), JStr (session_command clusterId region)]),
                       (''cell_type'', JStr ''code'')] cell else cell)"
proof -
  define new where "new = set_members
    [(''source'', JArr [JStr (''%%bash'' @ [CHR 0x0A]), JStr (session_command clusterId region)]),
     (''cell_type'', JStr ''code'')] cell"
  obtain m where m: "get_member (Some cell) ''metadata'' = Inr m" and rest:
    "(if is_truthy m then rbind (get_member m ''jumpStartAlterations'') (\<lambda>a.
        if is_truthy a then rbind (json_includes a ''clusterId'') (\<lambda>marked. Inr (if marked then new else cell))
        else Inr cell) else Inr cell) = Inr c"
    using assms unfolding process_cell_def new_def [symmetric] rbind_Inr by blast
  have mo: "object_member cell ''metadata'' = m" using get_member_object [OF m] by simp
  have "c = (if is_marked cell then new else cell)"
  proof (cases "is_truthy m")
    case True
    then obtain v where v: "m = Some v" by (auto simp: is_truthy_def split: option.splits)
    obtain a where a: "get_member m ''jumpStartAlterations'' = Inr a" using rest True by (auto simp: rbind_Inr)
    have ao: "object_member v ''jumpStartAlterations'' = a" using get_member_object a v by simp
    have marked: "is_marked cell \<longleftrightarrow> (\<exists>x. a = Some x \<and>
        (case x of JArr xs \<Rightarrow> JStr ''clusterId'' \<in> set xs | JStr t \<Rightarrow> sublist ''clusterId'' t | _ \<Rightarrow> False))"
      unfolding is_marked_def mo v using ao by blast
    have rest: "(if is_truthy a then rbind (json_includes a ''clusterId'') (\<lambda>marked. Inr (if marked then new else cell))
        else Inr cell) = Inr c"
      using rest True a by (simp add: rbind_def)
    show ?thesis
    proof (cases a)
      case (Some x)
      with rest marked show ?thesis
        by (cases x) (auto simp: is_truthy_def json_includes_def rbind_def split: if_splits)
    qed (use rest marked in \<open>simp add: is_truthy_def\<close>)
  next
    case False
    then have "\<not> is_marked cell"
      using mo by (auto simp: is_marked_def is_truthy_def object_member_def split: option.splits json.splits)
    with False rest show ?thesis by simp
  qed
  then show ?thesis by (simp only: new_def)
qed

section \<open>Properties\<close>

text \<open>
  C20. Processing changes the marked cells and nothing else: a processed notebook has the same members
  besides its cells and the same number of cells; a cell whose alterations mention \<open>clusterId\<close> has the
  session command as its source and is a code cell, with its other members unchanged, and every
  other cell is unchanged.
\<close>

theorem process_notebook_correct:
  assumes "process_notebook clusterId region notebook = Inr n"
  shows "\<exists>cs cs'. object_member notebook ''cells'' = Some (JArr cs) \<and> object_member n ''cells'' = Some (JArr cs')
    \<and> (\<forall>k. k \<noteq> ''cells'' \<longrightarrow> object_member n k = object_member notebook k)
    \<and> list_all2 (\<lambda>c c'.
        if is_marked c then
          object_member c' ''source'' = Some (JArr [JStr (''%%bash'' @ [CHR 0x0A]), JStr (session_command clusterId region)])
          \<and> object_member c' ''cell_type'' = Some (JStr ''code'')
          \<and> (\<forall>k. k \<noteq> ''source'' \<longrightarrow> k \<noteq> ''cell_type'' \<longrightarrow> object_member c' k = object_member c k)
        else c' = c) cs cs'"
proof -
  obtain v where v: "get_member (Some notebook) ''cells'' = Inr v"
    and rest: "(case v of Some (JArr cs) \<Rightarrow>
        rbind (rmap (process_cell clusterId region) cs) (\<lambda>cs. Inr (set_members [(''cells'', JArr cs)] notebook))
      | _ \<Rightarrow> Inl (GenericError ''TypeError'')) = Inr n"
    using assms unfolding process_notebook_def rbind_Inr by blast
  from rest obtain cs where cs: "v = Some (JArr cs)" by (cases v; cases "the v") simp_all
  with v have cells: "get_member (Some notebook) ''cells'' = Inr (Some (JArr cs))" by simp
  obtain cs' where cs': "rmap (process_cell clusterId region) cs = Inr cs'" and n: "n = set_members [(''cells'', JArr cs')] notebook"
    using rest cs by (auto simp: rbind_Inr)
  have cs: "object_member notebook ''cells'' = Some (JArr cs)" using get_member_object [OF cells] by simp
  then obtain ms where ms: "notebook = JObj ms" by (auto simp: object_member_def split: json.splits)
  have "list_all2 (\<lambda>c c'. if is_marked c then
          object_member c' ''source'' = Some (JArr [JStr (''%%bash'' @ [CHR 0x0A]), JStr (session_command clusterId region)])
          \<and> object_member c' ''cell_type'' = Some (JStr ''code'')
          \<and> (\<forall>k. k \<noteq> ''source'' \<longrightarrow> k \<noteq> ''cell_type'' \<longrightarrow> object_member c' k = object_member c k)
        else c' = c) cs cs'"
    using rmap_Inr [OF cs']
  proof (rule list_all2_mono)
    fix c c' assume c: "process_cell clusterId region c = Inr c'"
    show "if is_marked c then
          object_member c' ''source'' = Some (JArr [JStr (''%%bash'' @ [CHR 0x0A]), JStr (session_command clusterId region)])
          \<and> object_member c' ''cell_type'' = Some (JStr ''code'')
          \<and> (\<forall>k. k \<noteq> ''source'' \<longrightarrow> k \<noteq> ''cell_type'' \<longrightarrow> object_member c' k = object_member c k)
        else c' = c"
    proof (cases "is_marked c")
      case True
      then obtain ms where "c = JObj ms" by (auto simp: is_marked_def object_member_def split: json.splits)
      with True process_cell_cases [OF c] show ?thesis by (simp add: set_members_object)
    qed (use process_cell_cases [OF c] in simp)
  qed
  then show ?thesis using cs n ms by (auto simp: set_members_object)
qed

definition sample_cell :: json where
  "sample_cell = JObj [(''metadata'', JObj [(''jumpStartAlterations'', JArr [JStr ''clusterId''])]), (''source'', JArr [])]"

theorem process_notebook_correct_witness:
  "\<exists>n cs. process_notebook ''c1'' ''us-east-1'' (JObj [(''cells'', JArr [sample_cell, JObj []])]) = Inr n
     \<and> object_member n ''cells'' = Some (JArr cs) \<and> length cs = 2"
proof -
  let ?nb = "JObj [(''cells'', JArr [sample_cell, JObj []])]"
  obtain n where n: "process_notebook ''c1'' ''us-east-1'' ?nb = Inr n"
    by (simp add: process_notebook_def process_cell_def get_member_def sample_cell_def is_truthy_def
        json_includes_def rbind_def)
  from process_notebook_correct [OF n] obtain cs cs' where "object_member ?nb ''cells'' = Some (JArr cs)"
    "object_member n ''cells'' = Some (JArr cs')" "length cs = length cs'" by (auto dest: list_all2_lengthD)
  with n show ?thesis by (auto simp: object_member_def)
qed



end
