(* ===== verification/Paths.thy ===== *)
theory Paths
  imports Prelude
begin

text \<open>
  \<open>src/patched-vscode/src/vs/base/common/path.ts\<close>: the POSIX half of the path library and the
  functions both halves share. Every operation is translated with its loop over the characters;
  the loops that run from the end count the index down. The arguments are strings, so the checks
  \<open>validateString\<close> and \<open>validateObject\<close> never throw; the current directory \<open>posixCwd()\<close> is an
  argument.
\<close>

section \<open>Characters and indices\<close>

abbreviation CHAR_DOT :: char where
  "CHAR_DOT \<equiv> CHR 0x2E"

abbreviation CHAR_FORWARD_SLASH :: char where
  "CHAR_FORWARD_SLASH \<equiv> CHR 0x2F"

definition isPosixPathSeparator :: "char \<Rightarrow> bool" where
  "isPosixPathSeparator code \<longleftrightarrow> code = CHAR_FORWARD_SLASH"

text \<open>\<open>s.lastIndexOf(c)\<close> for a single character, and \<open>s.charCodeAt(i)\<close> (\<open>None\<close> for \<open>NaN\<close>).\<close>

definition last_index_of :: "'a list \<Rightarrow> 'a \<Rightarrow> int" where
  "last_index_of s c = int (length s) - 1 - int (length (takeWhile (\<lambda>x. x \<noteq> c) (rev s)))"

definition char_at :: "'a list \<Rightarrow> int \<Rightarrow> 'a option" where
  "char_at s i = (if 0 \<le> i \<and> i < int (length s) then Some (s ! nat i) else None)"

section \<open>Normalising\<close>

record norm_state =
  res :: string
  lastSegmentLength :: int
  lastSlash :: int
  dots :: int

text \<open>The branch of \<open>normalizeString\<close> for a path separator at index \<open>i\<close>.\<close>

definition norm_separator :: "string \<Rightarrow> bool \<Rightarrow> char \<Rightarrow> int \<Rightarrow> norm_state \<Rightarrow> norm_state" where
  "norm_separator path allowAboveRoot separator i s =
     (let above = (if allowAboveRoot
                   then s\<lparr>res := (if length (res s) > 0 then res s @ [separator, CHAR_DOT, CHAR_DOT]
                                 else [CHAR_DOT, CHAR_DOT]), lastSegmentLength := 2\<rparr>
                   else s)\<lparr>lastSlash := i, dots := 0\<rparr>
      in if lastSlash s = i - 1 \<or> dots s = 1 then s\<lparr>lastSlash := i, dots := 0\<rparr>
         else if dots s = 2 then
           if length (res s) < 2 \<or> lastSegmentLength s \<noteq> 2
              \<or> char_at (res s) (int (length (res s)) - 1) \<noteq> Some CHAR_DOT
              \<or> char_at (res s) (int (length (res s)) - 2) \<noteq> Some CHAR_DOT
           then
             if length (res s) > 2 then
               let lastSlashIndex = last_index_of (res s) separator in
               if lastSlashIndex = - 1
               then s\<lparr>res := [], lastSegmentLength := 0, lastSlash := i, dots := 0\<rparr>
               else
                 let r = js_slice (res s) 0 lastSlashIndex in
                 s\<lparr>res := r, lastSegmentLength := int (length r) - 1 - last_index_of r separator,
                   lastSlash := i, dots := 0\<rparr>
             else if length (res s) \<noteq> 0
             then s\<lparr>res := [], lastSegmentLength := 0, lastSlash := i, dots := 0\<rparr>
             else above
           else above
         else
           s\<lparr>res := (if length (res s) > 0 then res s @ [separator] @ js_slice path (lastSlash s + 1) i
                     else js_slice path (lastSlash s + 1) i),
             lastSegmentLength := i - lastSlash s - 1, lastSlash := i, dots := 0\<rparr>)"

definition norm_step ::
  "string \<Rightarrow> bool \<Rightarrow> char \<Rightarrow> (char \<Rightarrow> bool) \<Rightarrow> nat \<Rightarrow> char \<Rightarrow> norm_state \<Rightarrow> norm_state" where
  "norm_step path allowAboveRoot separator isPathSeparator i code s =
     (if isPathSeparator code then norm_separator path allowAboveRoot separator (int i) s
      else if code = CHAR_DOT \<and> dots s \<noteq> - 1 then s\<lparr>dots := dots s + 1\<rparr>
      else s\<lparr>dots := - 1\<rparr>)"

function norm_loop ::
  "string \<Rightarrow> bool \<Rightarrow> char \<Rightarrow> (char \<Rightarrow> bool) \<Rightarrow> nat \<Rightarrow> char \<Rightarrow> norm_state \<Rightarrow> norm_state" where
  "norm_loop path allowAboveRoot separator isPathSeparator i code s =
     (if i < length path
      then norm_loop path allowAboveRoot separator isPathSeparator (i + 1) (path ! i)
             (norm_step path allowAboveRoot separator isPathSeparator i (path ! i) s)
      else if i = length path \<and> \<not> isPathSeparator code
      then norm_step path allowAboveRoot separator isPathSeparator i CHAR_FORWARD_SLASH s
      else s)"
  by pat_completeness auto
termination
  by (relation "measure (\<lambda>(path, _, _, _, i, _, _). length path - i)") auto

declare norm_loop.simps [simp del]

definition normalizeString :: "string \<Rightarrow> bool \<Rightarrow> char \<Rightarrow> (char \<Rightarrow> bool) \<Rightarrow> string" where
  "normalizeString path allowAboveRoot separator isPathSeparator =
     res (norm_loop path allowAboveRoot separator isPathSeparator 0 (CHR 0x00)
            \<lparr>res = [], lastSegmentLength = 0, lastSlash = - 1, dots = 0\<rparr>)"

definition posix_normalize :: "string \<Rightarrow> string" where
  "posix_normalize path =
     (if length path = 0 then ''.''
      else
        let isAbsolute = (char_at path 0 = Some CHAR_FORWARD_SLASH);
            trailingSeparator = (char_at path (int (length path) - 1) = Some CHAR_FORWARD_SLASH);
            path = normalizeString path (\<not> isAbsolute) CHAR_FORWARD_SLASH isPosixPathSeparator
        in if length path = 0
           then if isAbsolute then ''/'' else if trailingSeparator then ''./'' else ''.''
           else
             let path = (if trailingSeparator then path @ ''/'' else path)
             in if isAbsolute then ''/'' @ path else path)"

definition posix_isAbsolute :: "string \<Rightarrow> bool" where
  "posix_isAbsolute path \<longleftrightarrow> length path > 0 \<and> char_at path 0 = Some CHAR_FORWARD_SLASH"

section \<open>Joining and resolving\<close>

fun join_loop :: "string list \<Rightarrow> string option \<Rightarrow> string option" where
  "join_loop [] joined = joined"
| "join_loop (arg # paths) joined =
     join_loop paths
       (if length arg > 0 then (case joined of None \<Rightarrow> Some arg | Some j \<Rightarrow> Some (j @ ''/'' @ arg)) else joined)"

definition posix_join :: "string list \<Rightarrow> string" where
  "posix_join paths =
     (if length paths = 0 then ''.''
      else case join_loop paths None of None \<Rightarrow> ''.'' | Some joined \<Rightarrow> posix_normalize joined)"

text \<open>The loop of \<open>resolve\<close> gets the segments from the last to the first, the current directory behind.\<close>

fun resolve_loop :: "string list \<Rightarrow> string \<Rightarrow> bool \<Rightarrow> string \<times> bool" where
  "resolve_loop [] resolvedPath resolvedAbsolute = (resolvedPath, resolvedAbsolute)"
| "resolve_loop (path # rest) resolvedPath resolvedAbsolute =
     (if resolvedAbsolute then (resolvedPath, resolvedAbsolute)
      else if length path = 0 then resolve_loop rest resolvedPath resolvedAbsolute
      else resolve_loop rest (path @ ''/'' @ resolvedPath) (char_at path 0 = Some CHAR_FORWARD_SLASH))"

definition posix_resolve :: "string \<Rightarrow> string list \<Rightarrow> string" where
  "posix_resolve posixCwd pathSegments =
     (let (resolvedPath, resolvedAbsolute) = resolve_loop (rev pathSegments @ [posixCwd]) [] False;
          resolvedPath = normalizeString resolvedPath (\<not> resolvedAbsolute) CHAR_FORWARD_SLASH isPosixPathSeparator
      in if resolvedAbsolute then ''/'' @ resolvedPath
         else if length resolvedPath > 0 then resolvedPath else ''.'')"

section \<open>Relative paths\<close>

text \<open>The loop over the common characters: the index it stops at and \<open>lastCommonSep\<close>.\<close>

function common_loop :: "string \<Rightarrow> string \<Rightarrow> int \<Rightarrow> int \<Rightarrow> int \<Rightarrow> int \<times> int" where
  "common_loop from to len i lastCommonSep =
     (if i < len
      then
        let fromCode = char_at from (1 + i) in
        if fromCode \<noteq> char_at to (1 + i) then (i, lastCommonSep)
        else if fromCode = Some CHAR_FORWARD_SLASH then common_loop from to len (i + 1) i
        else common_loop from to len (i + 1) lastCommonSep
      else (i, lastCommonSep))"
  by pat_completeness auto
termination
  by (relation "measure (\<lambda>(_, _, len, i, _). nat (len - i))") auto

declare common_loop.simps [simp del]

text \<open>The loop that writes one \<open>..\<close> per remaining segment of \<open>from\<close>.\<close>

function up_loop :: "string \<Rightarrow> int \<Rightarrow> int \<Rightarrow> string \<Rightarrow> string" where
  "up_loop from fromEnd i out =
     (if i \<le> fromEnd
      then up_loop from fromEnd (i + 1)
             (if i = fromEnd \<or> char_at from i = Some CHAR_FORWARD_SLASH
              then out @ (if length out = 0 then ''..'' else ''/..'') else out)
      else out)"
  by pat_completeness auto
termination
  by (relation "measure (\<lambda>(_, fromEnd, i, _). nat (fromEnd + 1 - i))") auto

declare up_loop.simps [simp del]

definition posix_relative :: "string \<Rightarrow> string \<Rightarrow> string \<Rightarrow> string" where
  "posix_relative posixCwd from to =
     (if from = to then []
      else
        let from = posix_resolve posixCwd [from]; to = posix_resolve posixCwd [to] in
        if from = to then []
        else
          let fromStart = 1; fromEnd = int (length from); fromLen = fromEnd - fromStart;
              toStart = 1; toLen = int (length to) - toStart;
              len = (if fromLen < toLen then fromLen else toLen);
              (i, lastCommonSep) = common_loop from to len 0 (- 1);
              rest = (\<lambda>lastCommonSep.
                up_loop from fromEnd (fromStart + lastCommonSep + 1) []
                @ js_slice to (toStart + lastCommonSep) (int (length to)))
          in if i = len then
               if toLen > len then
                 if char_at to (toStart + i) = Some CHAR_FORWARD_SLASH
                 then js_slice to (toStart + i + 1) (int (length to))
                 else if i = 0 then js_slice to (toStart + i) (int (length to))
                 else rest lastCommonSep
               else if fromLen > len then
                 if char_at from (fromStart + i) = Some CHAR_FORWARD_SLASH then rest i
                 else if i = 0 then rest 0
                 else rest lastCommonSep
               else rest lastCommonSep
             else rest lastCommonSep)"

definition posix_toNamespacedPath :: "string \<Rightarrow> string" where
  "posix_toNamespacedPath path = path"

section \<open>Directory, base name and extension\<close>

text \<open>
  The loops from the end of the path: the argument \<open>Suc i\<close> stands for the index \<open>i\<close>, and the loop
  ends below \<open>start\<close>.
\<close>

fun dirname_loop :: "string \<Rightarrow> nat \<Rightarrow> bool \<Rightarrow> int" where
  "dirname_loop path 0 matchedSlash = - 1"
| "dirname_loop path (Suc i) matchedSlash =
     (if i \<ge> 1 then
        if path ! i = CHAR_FORWARD_SLASH
        then (if \<not> matchedSlash then int i else dirname_loop path i matchedSlash)
        else dirname_loop path i False
      else - 1)"

definition posix_dirname :: "string \<Rightarrow> string" where
  "posix_dirname path =
     (if length path = 0 then ''.''
      else
        let hasRoot = (char_at path 0 = Some CHAR_FORWARD_SLASH);
            end = dirname_loop path (length path) True
        in if end = - 1 then if hasRoot then ''/'' else ''.''
           else if hasRoot \<and> end = 1 then ''//''
           else js_slice path 0 end)"

fun basename_loop :: "string \<Rightarrow> nat \<Rightarrow> int \<Rightarrow> bool \<Rightarrow> int \<times> int" where
  "basename_loop path 0 end matchedSlash = (0, end)"
| "basename_loop path (Suc i) end matchedSlash =
     (if path ! i = CHAR_FORWARD_SLASH
      then (if \<not> matchedSlash then (int i + 1, end) else basename_loop path i end matchedSlash)
      else if end = - 1 then basename_loop path i (int i + 1) False
      else basename_loop path i end matchedSlash)"

text \<open>The loop with an extension to remove: \<open>start\<close>, \<open>end\<close> and \<open>firstNonSlashEnd\<close> at its end.\<close>

fun basename_ext_loop :: "string \<Rightarrow> string \<Rightarrow> nat \<Rightarrow> int \<Rightarrow> int \<Rightarrow> int \<Rightarrow> bool \<Rightarrow> int \<times> int \<times> int" where
  "basename_ext_loop path ext 0 end extIdx firstNonSlashEnd matchedSlash = (0, end, firstNonSlashEnd)"
| "basename_ext_loop path ext (Suc i) end extIdx firstNonSlashEnd matchedSlash =
     (let code = path ! i in
      if code = CHAR_FORWARD_SLASH then
        (if \<not> matchedSlash then (int i + 1, end, firstNonSlashEnd)
         else basename_ext_loop path ext i end extIdx firstNonSlashEnd matchedSlash)
      else
        let matchedSlash = (if firstNonSlashEnd = - 1 then False else matchedSlash);
            firstNonSlashEnd = (if firstNonSlashEnd = - 1 then int i + 1 else firstNonSlashEnd)
        in if extIdx \<ge> 0 then
             if Some code = char_at ext extIdx then
               basename_ext_loop path ext i (if extIdx - 1 = - 1 then int i else end) (extIdx - 1)
                 firstNonSlashEnd matchedSlash
             else basename_ext_loop path ext i firstNonSlashEnd (- 1) firstNonSlashEnd matchedSlash
           else basename_ext_loop path ext i end extIdx firstNonSlashEnd matchedSlash)"

definition posix_basename :: "string \<Rightarrow> string option \<Rightarrow> string" where
  "posix_basename path ext =
     (let plain = (let (start, end) = basename_loop path (length path) (- 1) True
                   in if end = - 1 then [] else js_slice path start end)
      in case ext of
           None \<Rightarrow> plain
         | Some ext \<Rightarrow>
             if length ext > 0 \<and> length ext \<le> length path then
               if ext = path then []
               else
                 let (start, end, firstNonSlashEnd) =
                       basename_ext_loop path ext (length path) (- 1) (int (length ext) - 1) (- 1) True;
                     end = (if start = end then firstNonSlashEnd
                            else if end = - 1 then int (length path) else end)
                 in js_slice path start end
             else plain)"

record ext_state =
  startDot :: int
  startPart :: int
  end_part :: int
  matchedSlash :: bool
  preDotState :: int

text \<open>The loop that \<open>extname\<close> and \<open>parse\<close> share, down to the index \<open>start\<close>.\<close>

fun ext_loop :: "string \<Rightarrow> nat \<Rightarrow> nat \<Rightarrow> ext_state \<Rightarrow> ext_state" where
  "ext_loop path start 0 s = s"
| "ext_loop path start (Suc i) s =
     (if i < start then s
      else
        let code = path ! i in
        if code = CHAR_FORWARD_SLASH then
          (if \<not> matchedSlash s then s\<lparr>startPart := int i + 1\<rparr> else ext_loop path start i s)
        else
          let s = (if end_part s = - 1 then s\<lparr>matchedSlash := False, end_part := int i + 1\<rparr> else s);
              s = (if code = CHAR_DOT then
                     if startDot s = - 1 then s\<lparr>startDot := int i\<rparr>
                     else if preDotState s \<noteq> 1 then s\<lparr>preDotState := 1\<rparr> else s
                   else if startDot s \<noteq> - 1 then s\<lparr>preDotState := - 1\<rparr> else s)
          in ext_loop path start i s)"

definition ext_start :: ext_state where
  "ext_start = \<lparr>startDot = - 1, startPart = 0, end_part = - 1, matchedSlash = True, preDotState = 0\<rparr>"

definition no_ext :: "ext_state \<Rightarrow> bool" where
  "no_ext s \<longleftrightarrow> startDot s = - 1 \<or> preDotState s = 0
     \<or> (preDotState s = 1 \<and> startDot s = end_part s - 1 \<and> startDot s = startPart s + 1)"

definition posix_extname :: "string \<Rightarrow> string" where
  "posix_extname path =
     (let s = ext_loop path 0 (length path) ext_start
      in if end_part s = - 1 \<or> no_ext s then [] else js_slice path (startDot s) (end_part s))"

record ParsedPath =
  root :: string
  dir :: string
  base :: string
  ext :: string
  name :: string

definition posix_parse :: "string \<Rightarrow> ParsedPath" where
  "posix_parse path =
     (let ret = \<lparr>root = [], dir = [], base = [], ext = [], name = []\<rparr> in
      if length path = 0 then ret
      else
        let isAbsolute = (char_at path 0 = Some CHAR_FORWARD_SLASH);
            start = (if isAbsolute then 1 else 0);
            ret = (if isAbsolute then ret\<lparr>root := ''/''\<rparr> else ret);
            s = ext_loop path start (length path) ext_start;
            ret = (if end_part s \<noteq> - 1 then
                     let start = (if startPart s = 0 \<and> isAbsolute then 1 else startPart s) in
                     if no_ext s
                     then ret\<lparr>base := js_slice path start (end_part s), name := js_slice path start (end_part s)\<rparr>
                     else ret\<lparr>name := js_slice path start (startDot s), base := js_slice path start (end_part s),
                              ext := js_slice path (startDot s) (end_part s)\<rparr>
                   else ret)
        in if startPart s > 0 then ret\<lparr>dir := js_slice path 0 (startPart s - 1)\<rparr>
           else if isAbsolute then ret\<lparr>dir := ''/''\<rparr>
           else ret)"

definition format_path :: "string \<Rightarrow> ParsedPath \<Rightarrow> string" where
  "format_path sep pathObject =
     (let d = (if dir pathObject \<noteq> [] then dir pathObject else root pathObject);
          b = (if base pathObject \<noteq> [] then base pathObject else name pathObject @ ext pathObject)
      in if d = [] then b
         else if d = root pathObject then d @ b else d @ sep @ b)"

definition posix_format :: "ParsedPath \<Rightarrow> string" where
  "posix_format = format_path ''/''"

end
