(* ===== verification/ExtensionsSync.thy ===== *)
theory ExtensionsSync
  imports Paths "HOL-Library.AList"
begin

text \<open>
  The extension \<open>src/patched-vscode/extensions/sagemaker-extensions-sync/src\<close>: it compares the
  extensions packaged with the image with the installed ones and links the missing ones into the
  extensions directory of the persistent volume.

  The file system is a map from paths to files, symbolic links and directories; every operation may
  also fail for a reason of its own (the field \<open>fault\<close>: permissions, a full disk). A promise that is
  rejected ends the computation with an error and leaves what was done before. The two JSON
  conversions of the \<open>.obsolete\<close> file, an object of booleans, are the arguments \<open>parse\<close> (\<open>None\<close> for
  malformed content) and \<open>stringify\<close>. What the directory scan reads is given by the arguments
  \<open>readdir\<close>, \<open>isDirectory\<close> and \<open>readPackage\<close>, \<open>None\<close> where the call fails. Logging is left out.
\<close>

section \<open>Extensions\<close>

definition PERSISTENT_VOLUME_EXTENSIONS_DIR :: string where
  "PERSISTENT_VOLUME_EXTENSIONS_DIR = ''/home/sagemaker-user/sagemaker-code-editor-server-data/extensions''"

definition IMAGE_EXTENSIONS_DIR :: string where
  "IMAGE_EXTENSIONS_DIR = ''/opt/amazon/sagemaker/sagemaker-code-editor-server-data/extensions''"

record ExtensionInfo =
  name :: string
  publisher :: string
  version :: string
  path :: "string option"

definition extension_identifier :: "ExtensionInfo \<Rightarrow> string" where
  "extension_identifier e = publisher e @ ''.'' @ name e @ ''@'' @ version e"

section \<open>The file system\<close>

datatype node = File string | Link string | Directory

datatype errno = ENOENT | EEXIST | EISDIR | ELOOP | Fault string

datatype fs_op = Unlink string | Symlink string string | ReadFile string | Rename string string | WriteFile string string

record fs =
  nodes :: "string \<rightharpoonup> node"
  fault :: "fs_op \<Rightarrow> errno option"

type_synonym 'a io = "fs \<Rightarrow> (errno + 'a) \<times> fs"

definition io_return :: "'a \<Rightarrow> 'a io" where
  "io_return x s = (Inr x, s)"

definition io_throw :: "errno \<Rightarrow> 'a io" where
  "io_throw e s = (Inl e, s)"

definition io_bind :: "'a io \<Rightarrow> ('a \<Rightarrow> 'b io) \<Rightarrow> 'b io" where
  "io_bind m f s = (case m s of (Inl e, s) \<Rightarrow> (Inl e, s) | (Inr x, s) \<Rightarrow> f x s)"

definition io_catch :: "'a io \<Rightarrow> (errno \<Rightarrow> 'a io) \<Rightarrow> 'a io" where
  "io_catch m h s = (case m s of (Inl e, s) \<Rightarrow> h e s | (Inr x, s) \<Rightarrow> (Inr x, s))"

definition faulty :: "fs_op \<Rightarrow> 'a io \<Rightarrow> 'a io" where
  "faulty op m s = (case fault s op of Some e \<Rightarrow> (Inl e, s) | None \<Rightarrow> m s)"

text \<open>A path is followed through at most 40 links.\<close>

fun follow :: "nat \<Rightarrow> (string \<rightharpoonup> node) \<Rightarrow> string \<Rightarrow> string option" where
  "follow 0 m p = None"
| "follow (Suc n) m p = (case m p of Some (Link t) \<Rightarrow> follow n m t | _ \<Rightarrow> Some p)"

definition fs_unlink :: "string \<Rightarrow> unit io" where
  "fs_unlink p = faulty (Unlink p) (\<lambda>s.
     case nodes s p of
       None \<Rightarrow> (Inl ENOENT, s)
     | Some Directory \<Rightarrow> (Inl EISDIR, s)
     | _ \<Rightarrow> (Inr (), s\<lparr>nodes := (nodes s)(p := None)\<rparr>))"

definition fs_symlink :: "string \<Rightarrow> string \<Rightarrow> unit io" where
  "fs_symlink target p = faulty (Symlink target p) (\<lambda>s.
     case nodes s p of
       None \<Rightarrow> (Inr (), s\<lparr>nodes := (nodes s)(p \<mapsto> Link target)\<rparr>)
     | Some _ \<Rightarrow> (Inl EEXIST, s))"

definition fs_readFile :: "string \<Rightarrow> string io" where
  "fs_readFile p = faulty (ReadFile p) (\<lambda>s.
     case follow 41 (nodes s) p of
       None \<Rightarrow> (Inl ELOOP, s)
     | Some q \<Rightarrow>
         (case nodes s q of
            Some (File c) \<Rightarrow> (Inr c, s)
          | Some Directory \<Rightarrow> (Inl EISDIR, s)
          | _ \<Rightarrow> (Inl ENOENT, s)))"

definition fs_rename :: "string \<Rightarrow> string \<Rightarrow> unit io" where
  "fs_rename p q = faulty (Rename p q) (\<lambda>s.
     case nodes s p of
       None \<Rightarrow> (Inl ENOENT, s)
     | Some n \<Rightarrow>
         if nodes s q = Some Directory then (Inl EISDIR, s)
         else (Inr (), s\<lparr>nodes := (nodes s)(p := None, q \<mapsto> n)\<rparr>))"

definition fs_writeFile :: "string \<Rightarrow> string \<Rightarrow> unit io" where
  "fs_writeFile p c = faulty (WriteFile p c) (\<lambda>s.
     case follow 41 (nodes s) p of
       None \<Rightarrow> (Inl ELOOP, s)
     | Some q \<Rightarrow>
         if nodes s q = Some Directory then (Inl EISDIR, s)
         else (Inr (), s\<lparr>nodes := (nodes s)(q \<mapsto> File c)\<rparr>))"

section \<open>Installing\<close>

type_synonym obsolete = "(string \<times> bool) list"

definition OBSOLETE_FILE :: string where
  "OBSOLETE_FILE = posix_join [PERSISTENT_VOLUME_EXTENSIONS_DIR, ''.obsolete'']"

definition readObsolete :: "(string \<Rightarrow> obsolete option) \<Rightarrow> obsolete io" where
  "readObsolete parse =
     io_catch
       (io_bind (fs_readFile OBSOLETE_FILE) (\<lambda>obsoleteContent.
          case parse obsoleteContent of Some data \<Rightarrow> io_return data | None \<Rightarrow> io_throw (Fault ''SyntaxError'')))
       (\<lambda>e. if e = ENOENT then io_return []
            else io_bind (fs_rename OBSOLETE_FILE (OBSOLETE_FILE @ ''.bak'')) (\<lambda>_. io_return []))"

text \<open>The assignments to members of the object, in the order of the code.\<close>

definition markObsolete :: "ExtensionInfo \<Rightarrow> ExtensionInfo option \<Rightarrow> string \<Rightarrow> obsolete \<Rightarrow> obsolete" where
  "markObsolete pre installed prePath data =
     (let data = (case Option.bind installed path of
                    Some p \<Rightarrow> if p \<noteq> [] then AList.update (posix_basename p None) True data else data
                  | None \<Rightarrow> data)
      in AList.update (posix_basename prePath None) False data)"

datatype install_result = Installed | ShowErrorMessage string

definition installExtension ::
  "(string \<Rightarrow> obsolete option) \<Rightarrow> (obsolete \<Rightarrow> string) \<Rightarrow> ExtensionInfo \<Rightarrow> ExtensionInfo option
     \<Rightarrow> install_result io" where
  "installExtension parse stringify pre installed =
     io_catch
       (case path pre of
          None \<Rightarrow> io_throw (Fault ''Extension path missing'')
        | Some [] \<Rightarrow> io_throw (Fault ''Extension path missing'')
        | Some prePath \<Rightarrow>
            let targetPath = posix_join [PERSISTENT_VOLUME_EXTENSIONS_DIR, posix_basename prePath None] in
            io_bind (io_catch (fs_unlink targetPath) (\<lambda>e. if e \<noteq> ENOENT then io_throw e else io_return ())) (\<lambda>_.
            io_bind (fs_symlink prePath targetPath) (\<lambda>_.
            io_bind (readObsolete parse) (\<lambda>obsoleteData.
            io_bind (fs_writeFile OBSOLETE_FILE (stringify (markObsolete pre installed prePath obsoleteData))) (\<lambda>_.
            io_return Installed)))))
       (\<lambda>e. io_return (ShowErrorMessage (''Could not install extension '' @ extension_identifier pre)))"

definition refreshExtensionsMetadata :: "unit io" where
  "refreshExtensionsMetadata =
     io_catch (fs_unlink (posix_join [PERSISTENT_VOLUME_EXTENSIONS_DIR, ''extensions.json'']))
       (\<lambda>e. io_return ())"

section \<open>Comparing\<close>

record package =
  pkg_name :: "string option"
  pkg_publisher :: "string option"
  pkg_version :: "string option"

definition truthy_member :: "string option \<Rightarrow> bool" where
  "truthy_member m \<longleftrightarrow> m \<noteq> None \<and> m \<noteq> Some []"

definition read_extension ::
  "(string \<Rightarrow> bool option) \<Rightarrow> (string \<Rightarrow> package option) \<Rightarrow> string \<Rightarrow> ExtensionInfo list" where
  "read_extension isDirectory readPackage itemPath =
     (case isDirectory itemPath of
        Some True \<Rightarrow>
          (case readPackage (posix_join [itemPath, ''package.json'']) of
             Some p \<Rightarrow>
               if truthy_member (pkg_name p) \<and> truthy_member (pkg_publisher p) \<and> truthy_member (pkg_version p)
               then [\<lparr>name = the (pkg_name p), publisher = the (pkg_publisher p), version = the (pkg_version p),
                      path = Some itemPath\<rparr>]
               else []
           | None \<Rightarrow> [])
      | _ \<Rightarrow> [])"

definition getExtensionsFromDirectory ::
  "(string \<Rightarrow> string list option) \<Rightarrow> (string \<Rightarrow> bool option) \<Rightarrow> (string \<Rightarrow> package option) \<Rightarrow> string
     \<Rightarrow> ExtensionInfo list" where
  "getExtensionsFromDirectory readdir isDirectory readPackage directoryPath =
     (case readdir directoryPath of
        None \<Rightarrow> []
      | Some items \<Rightarrow>
          concat (map (\<lambda>item. read_extension isDirectory readPackage (posix_join [directoryPath, item])) items))"

text \<open>The output of the command that lists the extensions; \<open>None\<close> if it fails or writes errors.\<close>

definition getInstalledExtensions :: "(string \<times> string) option \<Rightarrow> string list option" where
  "getInstalledExtensions output =
     (case output of
        None \<Rightarrow> None
      | Some (stdout, stderr) \<Rightarrow>
          if stderr \<noteq> [] then None
          else Some (filter (\<lambda>line. dropWhile (\<lambda>c. (of_char c :: nat) \<in> {9, 10, 11, 12, 13, 32, 160}) line \<noteq> [])
                       (js_split (CHR 0x0A) stdout)))"

text \<open>
  \<open>activate\<close> up to the dialog: the packaged extensions by identifier, the installed ones of the
  persistent volume by name, and the identifiers that are not installed with the version that is.
\<close>

definition index_by :: "(ExtensionInfo \<Rightarrow> string) \<Rightarrow> ExtensionInfo list \<Rightarrow> (string \<times> ExtensionInfo) list" where
  "index_by key es = foldl (\<lambda>m e. AList.update (key e) e m) [] es"

definition unsyncedExtensions ::
  "string list \<Rightarrow> ExtensionInfo list \<Rightarrow> (string \<times> ExtensionInfo) list \<Rightarrow> (string \<times> string option) list" where
  "unsyncedExtensions installedExtensions prePackagedExtensions pvExtensionsByName =
     foldl (\<lambda>m e. if extension_identifier e \<notin> set installedExtensions
                  then AList.update (extension_identifier e) (map_option version (map_of pvExtensionsByName (name e))) m
                  else m) [] prePackagedExtensions"

fun installAll ::
  "(string \<Rightarrow> obsolete option) \<Rightarrow> (obsolete \<Rightarrow> string) \<Rightarrow> (string \<times> ExtensionInfo) list
     \<Rightarrow> (string \<times> ExtensionInfo) list \<Rightarrow> string list \<Rightarrow> install_result list io" where
  "installAll parse stringify byId byName [] = io_return []"
| "installAll parse stringify byId byName (extensionId # selected) =
     (case map_of byId extensionId of
        None \<Rightarrow> io_throw (Fault ''TypeError'')
      | Some e \<Rightarrow>
          io_bind (installExtension parse stringify e (map_of byName (name e))) (\<lambda>r.
          io_bind (installAll parse stringify byId byName selected) (\<lambda>rs.
          io_return (r # rs))))"

text \<open>
  The rest of \<open>activate\<close>, for the packaged extensions and those of the volume it found: \<open>selection\<close> is
  what the user selects of the offered identifiers, nothing when the dialog is dismissed.
\<close>

definition synchronize ::
  "(string \<Rightarrow> obsolete option) \<Rightarrow> (obsolete \<Rightarrow> string) \<Rightarrow> bool \<Rightarrow> string list option \<Rightarrow> ExtensionInfo list
     \<Rightarrow> ExtensionInfo list \<Rightarrow> ((string \<times> string option) list \<Rightarrow> string list option) \<Rightarrow> install_result list io" where
  "synchronize parse stringify isSageMakerApp installed prePackagedExtensions pvExtensions selection =
     (if \<not> isSageMakerApp then io_return []
      else
        case installed of
          None \<Rightarrow> io_throw (Fault ''stderr'')
        | Some installedExtensions \<Rightarrow>
            let prePackagedExtensionsById = index_by extension_identifier prePackagedExtensions;
                pvExtensionsByName =
                  index_by name (filter (\<lambda>e. extension_identifier e \<in> set installedExtensions) pvExtensions);
                unsynced = unsyncedExtensions installedExtensions prePackagedExtensions pvExtensionsByName
            in if length unsynced \<noteq> 0 then
                 (case selection unsynced of
                    None \<Rightarrow> io_return []
                  | Some selectedExtensions \<Rightarrow>
                      io_bind (installAll parse stringify prePackagedExtensionsById pvExtensionsByName selectedExtensions) (\<lambda>rs.
                      io_bind refreshExtensionsMetadata (\<lambda>_.
                      io_return rs)))
               else io_return [])"

text \<open>\<open>activate\<close> itself; the variable of the environment tells whether this is a SageMaker application.\<close>

definition activate_sync ::
  "(string \<Rightarrow> obsolete option) \<Rightarrow> (obsolete \<Rightarrow> string) \<Rightarrow> string option \<Rightarrow> (string \<times> string) option
     \<Rightarrow> (string \<Rightarrow> string list option) \<Rightarrow> (string \<Rightarrow> bool option) \<Rightarrow> (string \<Rightarrow> package option)
     \<Rightarrow> ((string \<times> string option) list \<Rightarrow> string list option) \<Rightarrow> install_result list io" where
  "activate_sync parse stringify SAGEMAKER_APP_TYPE_LOWERCASE output readdir isDirectory readPackage selection =
     synchronize parse stringify (truthy_member SAGEMAKER_APP_TYPE_LOWERCASE) (getInstalledExtensions output)
       (getExtensionsFromDirectory readdir isDirectory readPackage IMAGE_EXTENSIONS_DIR)
       (getExtensionsFromDirectory readdir isDirectory readPackage PERSISTENT_VOLUME_EXTENSIONS_DIR)
       selection"

section \<open>Facts about the operations\<close>

lemmas io_defs = io_return_def io_throw_def io_bind_def io_catch_def

lemmas fs_defs = fs_unlink_def fs_symlink_def fs_readFile_def fs_rename_def fs_writeFile_def faulty_def

definition install_target :: "string \<Rightarrow> string" where
  "install_target prePath = posix_join [PERSISTENT_VOLUME_EXTENSIONS_DIR, posix_basename prePath None]"

definition faultless :: "fs \<Rightarrow> bool" where
  "faultless s \<longleftrightarrow> (\<forall>op. fault s op = None)"

lemma follow_plain: "(\<And>t. m p \<noteq> Some (Link t)) \<Longrightarrow> follow (Suc n) m p = Some p"
  by (auto split: option.splits node.splits)

lemma follow_41: "(\<And>t. m p \<noteq> Some (Link t)) \<Longrightarrow> follow 41 m p = Some p"
  using follow_plain [of m p 40] by simp

text \<open>What the \<open>.obsolete\<close> file says, if it is absent or a file.\<close>

definition obsolete_data :: "(string \<Rightarrow> obsolete option) \<Rightarrow> fs \<Rightarrow> obsolete" where
  "obsolete_data parse s =
     (case nodes s OBSOLETE_FILE of
        Some (File c) \<Rightarrow> (case parse c of Some data \<Rightarrow> data | None \<Rightarrow> [])
      | _ \<Rightarrow> [])"

definition obsolete_plain :: "(string \<Rightarrow> obsolete option) \<Rightarrow> fs \<Rightarrow> bool" where
  "obsolete_plain parse s \<longleftrightarrow>
     (case nodes s OBSOLETE_FILE of None \<Rightarrow> True | Some (File c) \<Rightarrow> parse c \<noteq> None | _ \<Rightarrow> False)"

lemma readObsolete_plain:
  assumes "faultless s" "obsolete_plain parse s"
  shows "readObsolete parse s = (Inr (obsolete_data parse s), s)"
  using assms follow_41 [of "nodes s" OBSOLETE_FILE]
  by (auto simp: readObsolete_def obsolete_plain_def obsolete_data_def io_defs fs_defs faultless_def
      split: option.splits node.splits)

lemma installExtension_plain:
  assumes "path pre = Some prePath" "prePath \<noteq> []" "faultless s" "obsolete_plain parse s"
    and "nodes s (install_target prePath) \<noteq> Some Directory" "install_target prePath \<noteq> OBSOLETE_FILE"
  shows "installExtension parse stringify pre installed s =
    (Inr Installed, s\<lparr>nodes := (nodes s)(install_target prePath \<mapsto> Link prePath,
       OBSOLETE_FILE \<mapsto> File (stringify (markObsolete pre installed prePath (obsolete_data parse s))))\<rparr>)"
proof -
  let ?s = "s\<lparr>nodes := (nodes s)(install_target prePath \<mapsto> Link prePath)\<rparr>"
  have plain: "faultless ?s" "obsolete_plain parse ?s" "obsolete_data parse ?s = obsolete_data parse s"
    using assms by (simp_all add: faultless_def obsolete_plain_def obsolete_data_def)
  have not_link: "nodes ?s OBSOLETE_FILE \<noteq> Some (Link t)" "nodes ?s OBSOLETE_FILE \<noteq> Some Directory" for t
    using plain(2) by (auto simp: obsolete_plain_def)
  have unlink: "io_catch (fs_unlink (install_target prePath)) (\<lambda>e. if e \<noteq> ENOENT then io_throw e else io_return ()) s =
      (Inr (), s\<lparr>nodes := (nodes s)(install_target prePath := None)\<rparr>)"
    using assms(3,5) by (auto simp: io_defs fs_defs faultless_def fun_upd_idem split: option.splits node.splits)
  have link: "fs_symlink prePath (install_target prePath) (s\<lparr>nodes := (nodes s)(install_target prePath := None)\<rparr>) =
      (Inr (), ?s)"
    using assms(3) by (simp add: fs_defs faultless_def)
  have wrote: "fs_writeFile OBSOLETE_FILE c ?s = (Inr (), ?s\<lparr>nodes := (nodes ?s)(OBSOLETE_FILE \<mapsto> File c)\<rparr>)" for c
    using assms(3) follow_41 [of "nodes ?s" OBSOLETE_FILE] not_link by (simp add: fs_defs faultless_def)
  from assms(1,2) obtain x xs where "path pre = Some (x # xs)" "prePath = x # xs" by (cases prePath) auto
  then show ?thesis
    unfolding installExtension_def Let_def install_target_def [symmetric]
    using readObsolete_plain [OF plain(1,2)] unlink link wrote plain(3) by (simp add: io_defs)
qed

lemma catch_returns: "\<exists>r. fst (io_catch m (\<lambda>e. io_return (h e)) s) = Inr r"
  by (auto simp: io_defs split: prod.splits sum.splits)

text \<open>Only three paths are ever written to, whatever fails.\<close>

definition same_except :: "string set \<Rightarrow> fs \<Rightarrow> fs \<Rightarrow> bool" where
  "same_except P s s' \<longleftrightarrow> (\<forall>q. q \<notin> P \<longrightarrow> nodes s' q = nodes s q)"

definition touches :: "string set \<Rightarrow> 'a io \<Rightarrow> bool" where
  "touches P m \<longleftrightarrow> (\<forall>s. (\<forall>t. nodes s OBSOLETE_FILE \<noteq> Some (Link t)) \<longrightarrow>
     same_except P s (snd (m s)) \<and> (\<forall>t. nodes (snd (m s)) OBSOLETE_FILE \<noteq> Some (Link t)))"

lemma touches_return [simp]: "touches P (io_return x)" "touches P (io_throw e)"
  by (simp_all add: touches_def same_except_def io_defs)

lemma touches_bind: "touches P m \<Longrightarrow> (\<And>x. touches P (f x)) \<Longrightarrow> touches P (io_bind m f)"
  unfolding touches_def same_except_def io_bind_def
  by (auto split: prod.splits sum.splits)

lemma touches_catch: "touches P m \<Longrightarrow> (\<And>e. touches P (h e)) \<Longrightarrow> touches P (io_catch m h)"
  unfolding touches_def same_except_def io_catch_def
  by (auto split: prod.splits sum.splits)

lemma touches_ops:
  "p \<in> P \<Longrightarrow> touches P (fs_unlink p)"
  "p \<in> P \<Longrightarrow> p \<noteq> OBSOLETE_FILE \<Longrightarrow> touches P (fs_symlink t p)"
  "touches P (fs_readFile p)"
  "OBSOLETE_FILE \<in> P \<Longrightarrow> OBSOLETE_FILE @ ''.bak'' \<in> P \<Longrightarrow> touches P (fs_rename OBSOLETE_FILE (OBSOLETE_FILE @ ''.bak''))"
  "OBSOLETE_FILE \<in> P \<Longrightarrow> touches P (fs_writeFile OBSOLETE_FILE c)"
  by (auto simp: touches_def same_except_def fs_defs follow_41 split: option.splits node.splits)

lemma installExtension_touches:
  assumes "path pre = Some prePath" "install_target prePath \<noteq> OBSOLETE_FILE"
  shows "touches {install_target prePath, OBSOLETE_FILE, OBSOLETE_FILE @ ''.bak''} (installExtension parse stringify pre installed)"
  using assms unfolding installExtension_def readObsolete_def Let_def
  by (auto intro!: touches_catch touches_bind touches_ops simp: install_target_def split: option.splits list.splits)

lemma markObsolete_lookup:
  "map_of (markObsolete pre installed prePath data) k =
     (if k = posix_basename prePath None then Some False
      else case Option.bind installed path of
             Some p \<Rightarrow> if p \<noteq> [] \<and> k = posix_basename p None then Some True else map_of data k
           | None \<Rightarrow> map_of data k)"
  by (auto simp: markObsolete_def update_conv' split: option.splits)

section \<open>Facts about the comparison\<close>

lemma map_of_index_by:
  "map_of (index_by key es) k = map_of (rev (map (\<lambda>e. (key e, e)) es)) k"
  by (induction es rule: rev_induct) (auto simp: index_by_def update_conv')

lemma index_by_distinct: "inj_on key (set es) \<Longrightarrow> e \<in> set es \<Longrightarrow> map_of (index_by key es) (key e) = Some e"
proof (induction es rule: rev_induct)
  case (snoc x es)
  then show ?case by (auto simp: map_of_index_by inj_on_def)
qed simp

lemma unsynced_keys:
  "set (map fst (unsyncedExtensions inst pre byName)) = extension_identifier ` {e \<in> set pre. extension_identifier e \<notin> set inst}
   \<and> distinct (map fst (unsyncedExtensions inst pre byName))"
  by (induction pre rule: rev_induct) (auto simp: unsyncedExtensions_def dom_update distinct_update)

lemma installAll_links:
  assumes "\<forall>d. parse (stringify d) = Some d" "faultless s" "obsolete_plain parse s"
    and "\<forall>i\<in>set ids. \<exists>e p. map_of byId i = Some e \<and> path e = Some p \<and> p \<noteq> [] \<and> T i = install_target p \<and> P i = p
          \<and> install_target p \<noteq> OBSOLETE_FILE \<and> nodes s (install_target p) \<noteq> Some Directory"
    and "inj_on T (set ids)" "distinct ids"
  shows "\<exists>s'. installAll parse stringify byId byName ids s = (Inr (replicate (length ids) Installed), s')
    \<and> faultless s' \<and> (\<forall>i\<in>set ids. nodes s' (T i) = Some (Link (P i)))
    \<and> (\<forall>q. q \<notin> insert OBSOLETE_FILE (T ` set ids) \<longrightarrow> nodes s' q = nodes s q)"
  using assms(2-)
proof (induction ids arbitrary: s)
  case (Cons i ids)
  then obtain e p where e: "map_of byId i = Some e" "path e = Some p" "p \<noteq> []" "T i = install_target p" "P i = p"
    "install_target p \<noteq> OBSOLETE_FILE" "nodes s (install_target p) \<noteq> Some Directory" by auto
  obtain s1 where s: "installExtension parse stringify e (map_of byName (name e)) s = (Inr Installed, s1)"
    and nodes: "nodes s1 = (nodes s)(install_target p \<mapsto> Link p, OBSOLETE_FILE \<mapsto>
      File (stringify (markObsolete e (map_of byName (name e)) p (obsolete_data parse s))))"
    and fault: "fault s1 = fault s"
    by (rule that [OF installExtension_plain [OF e(2,3) Cons.prems(1,2) e(7,6)]]) simp_all
  have "faultless s1" "obsolete_plain parse s1"
    using Cons.prems(1) assms(1) by (simp_all add: faultless_def fault obsolete_plain_def nodes)
  moreover have "\<forall>j\<in>set ids. \<exists>e p. map_of byId j = Some e \<and> path e = Some p \<and> p \<noteq> [] \<and> T j = install_target p \<and> P j = p
      \<and> install_target p \<noteq> OBSOLETE_FILE \<and> nodes s1 (install_target p) \<noteq> Some Directory"
    using Cons.prems(3) by (fastforce simp: nodes)
  ultimately obtain s' where s': "installAll parse stringify byId byName ids s1 = (Inr (replicate (length ids) Installed), s')"
    "faultless s'" "\<forall>i\<in>set ids. nodes s' (T i) = Some (Link (P i))"
    "\<forall>q. q \<notin> insert OBSOLETE_FILE (T ` set ids) \<longrightarrow> nodes s' q = nodes s1 q"
    using Cons.IH [of s1] Cons.prems(4,5) by auto
  have "T i \<notin> insert OBSOLETE_FILE (T ` set ids)" using e Cons.prems(4,5) by (auto simp: inj_on_def)
  then have "nodes s' (T i) = Some (Link (P i))" using s'(4) nodes e by simp
  moreover have "installAll parse stringify byId byName (i # ids) s = (Inr (replicate (length (i # ids)) Installed), s')"
    using e(1) s s'(1) by (simp add: io_return_def io_bind_def split: prod.splits)
  moreover have "\<forall>q. q \<notin> insert OBSOLETE_FILE (T ` set (i # ids)) \<longrightarrow> nodes s' q = nodes s q"
    using s'(4) nodes e(4) by auto
  ultimately show ?case using s'(2,3) by auto
qed (simp add: io_defs)

section \<open>Properties\<close>


text \<open>A stand-in for JSON: each character behind a mark, each entry behind a bracket.\<close>

fun sample_stringify :: "obsolete \<Rightarrow> string" where
  "sample_stringify [] = '']''"
| "sample_stringify ((k, b) # d) =
     ''['' @ concat (map (\<lambda>c. [CHR ''1'', c]) k) @ (if b then ''t'' else ''f'') @ sample_stringify d"

fun sample_string :: "string \<Rightarrow> string \<times> string" where
  "sample_string (m # c # r) = (if m = CHR ''1'' then apfst ((#) c) (sample_string r) else ([], m # c # r))"
| "sample_string r = ([], r)"

lemma sample_string_length: "length (snd (sample_string r)) \<le> length r"
  by (induction r rule: sample_string.induct) auto

function sample_parse :: "string \<Rightarrow> obsolete option" where
  "sample_parse r =
     (case r of
        [] \<Rightarrow> None
      | m # r \<Rightarrow>
          if m = CHR '']'' then Some []
          else case snd (sample_string r) of
                 [] \<Rightarrow> None
               | b # rest \<Rightarrow> map_option ((#) (fst (sample_string r), b = CHR ''t'')) (sample_parse rest))"
  by pat_completeness auto
termination
proof (relation "measure length", goal_cases)
  case (2 r m r' b rest)
  then show ?case using sample_string_length [of r'] by (cases "snd (sample_string r')") auto
qed simp

declare sample_parse.simps [simp del]

lemma sample_string_concat:
  "c \<noteq> CHR ''1'' \<Longrightarrow> sample_string (concat (map (\<lambda>c. [CHR ''1'', c]) k) @ c # r) = (k, c # r)"
  by (induction k) (cases r; simp)+

lemma sample_json: "sample_parse (sample_stringify d) = Some d"
proof (induction d)
  case Nil
  show ?case by (simp add: sample_parse.simps [of "'']''"])
next
  case (Cons e d)
  obtain k b where e: "e = (k, b)" by fastforce
  show ?case
    unfolding e sample_stringify.simps by (subst sample_parse.simps) (simp add: sample_string_concat Cons)
qed

definition sample_packaged :: ExtensionInfo where
  "sample_packaged = \<lparr>name = ''python'', publisher = ''ms'', version = ''2'', path = Some ''/opt/ms.python-2''\<rparr>"

definition sample_volume :: ExtensionInfo where
  "sample_volume = \<lparr>name = ''python'', publisher = ''other'', version = ''1'', path = Some ''/home/other.python-1''\<rparr>"

definition empty_fs :: fs where
  "empty_fs = \<lparr>nodes = Map.empty, fault = (\<lambda>_. None)\<rparr>"

lemma sample_basename: "posix_basename ''/opt/ms.python-2'' None = ''ms.python-2''"
  "posix_basename ''/home/other.python-1'' None = ''other.python-1''"
  by code_simp+

lemma sample_join: "posix_join [PERSISTENT_VOLUME_EXTENSIONS_DIR, x] = PERSISTENT_VOLUME_EXTENSIONS_DIR @ ''/'' @ x"
  if "x \<in> {''ms.python-2'', ''.obsolete'', ''extensions.json''}"
  using that by (elim insertE emptyE) (simp_all, code_simp+)

lemma sample_target: "install_target ''/opt/ms.python-2'' = PERSISTENT_VOLUME_EXTENSIONS_DIR @ ''/ms.python-2''"
  "OBSOLETE_FILE = PERSISTENT_VOLUME_EXTENSIONS_DIR @ ''/.obsolete''"
  by (simp_all add: install_target_def OBSOLETE_FILE_def sample_basename sample_join)






end
