(* ===== verification/PathProps.thy ===== *)
theory PathProps
  imports Paths
begin

text \<open>
  Correctness of the path library of \<open>Paths\<close>: \<open>normalizeString\<close> is a fold over the segments of the
  path, from which the laws of \<open>normalize\<close>, \<open>join\<close> and \<open>resolve\<close> follow; \<open>relative\<close> inverts
  \<open>resolve\<close>; \<open>parse\<close>, \<open>format\<close>, \<open>basename\<close> and \<open>extname\<close> agree.
\<close>

section \<open>Segments\<close>

text \<open>The reference: what each segment between separators does to the segments kept so far.\<close>

definition push_segment :: "bool \<Rightarrow> string list \<Rightarrow> string \<Rightarrow> string list" where
  "push_segment allowAboveRoot segs s =
     (if s = [] \<or> s = ''.'' then segs
      else if s = ''..'' then
        if segs \<noteq> [] \<and> last segs \<noteq> ''..'' then butlast segs
        else if allowAboveRoot then segs @ [''..''] else segs
      else segs @ [s])"

definition normal_segments :: "bool \<Rightarrow> string \<Rightarrow> string list" where
  "normal_segments allowAboveRoot path =
     foldl (push_segment allowAboveRoot) [] (js_split CHAR_FORWARD_SLASH path)"

definition segment :: "string \<Rightarrow> bool" where
  "segment s \<longleftrightarrow> s \<noteq> [] \<and> s \<noteq> ''.'' \<and> CHAR_FORWARD_SLASH \<notin> set s"

abbreviation slashed :: "string list \<Rightarrow> string" where
  "slashed \<equiv> js_join ''/''"

lemma slashed_empty: "\<forall>s\<in>set segs. segment s \<Longrightarrow> slashed segs = [] \<longleftrightarrow> segs = []"
  by (cases segs) (auto simp: js_join_Cons segment_def)

lemma push_segment_segments:
  assumes "\<forall>s\<in>set segs. segment s" "CHAR_FORWARD_SLASH \<notin> set s"
  shows "\<forall>s\<in>set (push_segment allow segs s). segment s"
  using assms by (auto simp: push_segment_def segment_def dest: in_set_butlastD)

section \<open>Indices\<close>

lemma last_index_of_none [simp]: "c \<notin> set s \<Longrightarrow> last_index_of s c = - 1"
  unfolding last_index_of_def by (subst takeWhile_eq_all_conv [THEN iffD2]) auto

lemma last_index_of_append [simp]: "c \<notin> set t \<Longrightarrow> last_index_of (s @ c # t) c = int (length s)"
proof -
  assume "c \<notin> set t"
  then have "takeWhile (\<lambda>x. x \<noteq> c) (rev t @ c # rev s) = rev t"
    by (subst takeWhile_append2) auto
  then show ?thesis by (simp add: last_index_of_def)
qed

lemma js_slice_prefix [simp]: "js_slice (u @ v) 0 (int (length u)) = u"
  by (simp add: js_slice_def js_rel_index_def)

lemma js_slice_middle [simp]: "js_slice (u @ v @ w) (int (length u)) (int (length u) + int (length v)) = v"
  by (simp add: js_slice_def js_rel_index_def nat_add_distrib)

lemma js_slice_suffix [simp]: "js_slice (u @ v) (int (length u)) (int (length u) + int (length v)) = v"
  using js_slice_middle [of u v "[]"] by simp

lemma char_at_last2:
  assumes "length s = 2"
  shows "char_at (u @ s) (int (length (u @ s)) - 1) = Some (s ! 1)" "char_at (u @ s) (int (length (u @ s)) - 2) = Some (s ! 0)"
proof -
  have "nat (1 + int (length u)) = length u + 1" by simp
  then show "char_at (u @ s) (int (length (u @ s)) - 1) = Some (s ! 1)"
    "char_at (u @ s) (int (length (u @ s)) - 2) = Some (s ! 0)"
    using assms by (simp_all add: char_at_def nth_append)
qed

lemma slashed_last:
  assumes "segs \<noteq> []"
  shows "slashed segs = (if butlast segs = [] then last segs else slashed (butlast segs) @ ''/'' @ last segs)"
  using assms js_join_snoc [of "''/''" "butlast segs" "last segs"] by simp

lemma slashed_ends: "segs \<noteq> [] \<Longrightarrow> \<exists>u. slashed segs = u @ last segs \<and> (u = [] \<or> (\<exists>v. u = v @ ''/''))"
  using slashed_last [of segs] by (cases "butlast segs = []") auto

section \<open>The loop of \<open>normalizeString\<close>\<close>

definition last_length :: "string list \<Rightarrow> int" where
  "last_length segs = (if segs = [] then 0 else int (length (last segs)))"

text \<open>Where the last segment that was kept is \<open>..\<close>.\<close>

lemma ends_with_dots:
  assumes "\<forall>s\<in>set segs. segment s"
  shows "(length (slashed segs) < 2 \<or> last_length segs \<noteq> 2
       \<or> char_at (slashed segs) (int (length (slashed segs)) - 1) \<noteq> Some CHAR_DOT
       \<or> char_at (slashed segs) (int (length (slashed segs)) - 2) \<noteq> Some CHAR_DOT)
     \<longleftrightarrow> \<not> (segs \<noteq> [] \<and> last segs = ''..'')"
proof (cases "segs \<noteq> [] \<and> length (last segs) = 2")
  case True
  then obtain u where u: "slashed segs = u @ last segs" using slashed_ends by blast
  obtain a b where ab: "last segs = [a, b]" using True by (auto simp: length_Suc_conv numeral_2_eq_2)
  show ?thesis
    using True char_at_last2 [of "last segs" u] unfolding u by (auto simp: last_length_def ab)
next
  case False
  then show ?thesis by (auto simp: last_length_def)
qed

lemma pop_segment:
  assumes "\<forall>s\<in>set segs. segment s" "segs \<noteq> []"
  shows "(if length (slashed segs) > 2 then
            if last_index_of (slashed segs) CHAR_FORWARD_SLASH = - 1 then ([], 0)
            else let r = js_slice (slashed segs) 0 (last_index_of (slashed segs) CHAR_FORWARD_SLASH)
                 in (r, int (length r) - 1 - last_index_of r CHAR_FORWARD_SLASH)
          else ([], 0)) = (slashed (butlast segs), last_length (butlast segs))"
proof -
  have last: "CHAR_FORWARD_SLASH \<notin> set (last segs)" "last segs \<noteq> []"
    using assms by (auto simp: segment_def)
  show ?thesis
  proof (cases "butlast segs = []")
    case True
    then have "slashed segs = last segs" using assms(2) by (simp add: slashed_last)
    with last True show ?thesis by (simp add: last_length_def)
  next
    case False
    define r where "r = slashed (butlast segs)"
    have segs: "slashed segs = r @ CHAR_FORWARD_SLASH # last segs"
      using assms(2) False by (simp add: slashed_last [of segs] r_def)
    have "r \<noteq> []" using False assms(1) slashed_empty [of "butlast segs"] by (auto simp: r_def dest: in_set_butlastD)
    obtain u where u: "r = u @ last (butlast segs)" "u = [] \<or> (\<exists>v. u = v @ [CHAR_FORWARD_SLASH])"
      using slashed_ends [OF False] unfolding r_def by blast
    have "segment (last (butlast segs))" using assms(1) last_in_set [OF False] in_set_butlastD by fast
    then have "CHAR_FORWARD_SLASH \<notin> set (last (butlast segs))" by (simp add: segment_def)
    then have "int (length r) - 1 - last_index_of r CHAR_FORWARD_SLASH = last_length (butlast segs)"
      using u False by (auto simp: last_length_def)
    moreover have "length (slashed segs) > 2" using segs \<open>r \<noteq> []\<close> last(2) by (cases r; cases "last segs") auto
    ultimately show ?thesis using segs last(1) js_slice_prefix [of r] by (simp add: r_def [symmetric])
  qed
qed

definition dot_count :: "string \<Rightarrow> int" where
  "dot_count cur = (if set cur \<subseteq> {CHAR_DOT} then int (length cur) else - 1)"

lemma dot_count_simps [simp]:
  "dot_count [] = 0"
  "dot_count (cur @ [c]) = (if c = CHAR_DOT \<and> dot_count cur \<noteq> - 1 then dot_count cur + 1 else - 1)"
  by (auto simp: dot_count_def)

lemma dot_count_dots: "dot_count cur = 1 \<longleftrightarrow> cur = ''.''" "dot_count cur = 2 \<longleftrightarrow> cur = ''..''"
  by (auto simp: dot_count_def length_Suc_conv numeral_2_eq_2 split: if_splits)

definition norm_inv :: "string list \<Rightarrow> string \<Rightarrow> nat \<Rightarrow> norm_state \<Rightarrow> bool" where
  "norm_inv segs cur i s \<longleftrightarrow>
     s = \<lparr>res = slashed segs, lastSegmentLength = last_length segs,
          lastSlash = int i - 1 - int (length cur), dots = dot_count cur\<rparr>"

lemma norm_separator_push:
  assumes "\<forall>s\<in>set segs. segment s" "norm_inv segs cur (length (u @ cur)) s" "CHAR_FORWARD_SLASH \<notin> set cur"
  shows "norm_inv (push_segment allow segs cur) [] (Suc (length (u @ cur)))
    (norm_separator (u @ cur @ v) allow CHAR_FORWARD_SLASH (int (length (u @ cur))) s)"
proof -
  have s: "s = \<lparr>res = slashed segs, lastSegmentLength = last_length segs,
      lastSlash = int (length u) - 1, dots = dot_count cur\<rparr>"
    using assms(2) by (simp add: norm_inv_def)
  have slice: "js_slice (u @ cur @ v) (int (length u) - 1 + 1) (int (length (u @ cur))) = cur"
    using js_slice_middle [of u cur v] by simp
  have empty: "slashed segs = [] \<longleftrightarrow> segs = []" using slashed_empty assms(1) by blast
  note defs = norm_inv_def norm_separator_def push_segment_def s norm_state.simps slice
    ends_with_dots [OF assms(1)]
  consider "cur = [] \<or> cur = ''.''" | "cur = ''..''" "segs \<noteq> [] \<and> last segs \<noteq> ''..''"
    | "cur = ''..''" "segs = [] \<or> last segs = ''..''" | "cur \<noteq> []" "cur \<noteq> ''.''" "cur \<noteq> ''..''" by blast
  then show ?thesis
  proof cases
    case 1
    then show ?thesis unfolding defs by (auto simp: dot_count_dots)
  next
    case 2
    then show ?thesis
      using pop_segment [OF assms(1)] empty unfolding defs
      by (auto simp: dot_count_dots Let_def split: if_splits)
  next
    case 3
    then have "dot_count cur = 2" by (simp add: dot_count_dots)
    with 3 empty show ?thesis unfolding defs by (auto simp: last_length_def)
  next
    case 4
    then show ?thesis using empty unfolding defs by (simp add: dot_count_dots last_length_def)
  qed
qed

lemma isPosixPathSeparator_simps [simp]:
  "isPosixPathSeparator CHAR_FORWARD_SLASH" "x \<noteq> CHAR_FORWARD_SLASH \<Longrightarrow> \<not> isPosixPathSeparator x"
  by (simp_all add: isPosixPathSeparator_def)

lemma norm_loop_segments:
  assumes "\<forall>s\<in>set segs. segment s" "norm_inv segs cur (length (u @ cur)) s" "CHAR_FORWARD_SLASH \<notin> set cur"
    and "v = [] \<Longrightarrow> isPosixPathSeparator code \<longleftrightarrow> cur = [] \<and> u \<noteq> []"
  shows "res (norm_loop (u @ cur @ v) allow CHAR_FORWARD_SLASH isPosixPathSeparator (length (u @ cur)) code s) =
    slashed (foldl (push_segment allow) segs (js_split CHAR_FORWARD_SLASH (cur @ v)))"
  using assms
proof (induction v arbitrary: u cur segs s code)
  case Nil
  have push: "norm_inv (push_segment allow segs cur) [] (Suc (length (u @ cur)))
      (norm_separator (u @ cur) allow CHAR_FORWARD_SLASH (int (length (u @ cur))) s)"
    using norm_separator_push [OF Nil.prems(1-3), of allow "[]"] by simp
  show ?case
  proof (cases "cur = [] \<and> u \<noteq> []")
    case True
    then show ?thesis using Nil.prems(2,4) by (subst norm_loop.simps) (simp add: norm_inv_def push_segment_def)
  next
    case False
    then show ?thesis
      using Nil.prems(3,4) push
      by (subst norm_loop.simps) (auto simp: norm_step_def norm_inv_def)
  qed
next
  case (Cons x v)
  let ?path = "u @ cur @ x # v"
  let ?s = "norm_step ?path allow CHAR_FORWARD_SLASH isPosixPathSeparator (length (u @ cur)) x s"
  have step: "norm_loop ?path allow CHAR_FORWARD_SLASH isPosixPathSeparator (length (u @ cur)) code s =
      norm_loop ?path allow CHAR_FORWARD_SLASH isPosixPathSeparator (length (u @ cur) + 1) x ?s"
    using nth_append_length [of "u @ cur" x v] by (subst norm_loop.simps) simp
  show ?case
  proof (cases "x = CHAR_FORWARD_SLASH")
    case True
    have push: "norm_inv (push_segment allow segs cur) [] (length ((u @ cur @ [x]) @ [])) ?s"
      using norm_separator_push [OF Cons.prems(1-3), of allow "x # v"] True
      by (simp add: norm_step_def)
    from Cons.IH [OF push_segment_segments [OF Cons.prems(1,3)] push, of x] step True
    show ?thesis by (simp add: js_split_append Cons.prems(3))
  next
    case False
    have keep: "norm_inv segs (cur @ [x]) (length (u @ cur @ [x])) ?s"
      using Cons.prems(2) False by (simp add: norm_inv_def norm_step_def)
    from Cons.IH [OF Cons.prems(1) keep, of x] step False Cons.prems(3)
    show ?thesis by simp
  qed
qed

lemma normalizeString_segments:
  "normalizeString path allow CHAR_FORWARD_SLASH isPosixPathSeparator = slashed (normal_segments allow path)"
  using norm_loop_segments [of "[]" "[]" "[]" "\<lparr>res = [], lastSegmentLength = 0, lastSlash = - 1, dots = 0\<rparr>"
      path "CHR 0x00" allow]
  by (simp add: normalizeString_def normal_segments_def norm_inv_def last_length_def)

section \<open>Normal forms\<close>

text \<open>Segments that normalising keeps: \<open>..\<close> only at the front, and not at all below a root.\<close>

definition canonical :: "bool \<Rightarrow> string list \<Rightarrow> bool" where
  "canonical allow segs \<longleftrightarrow>
     (\<forall>s\<in>set segs. segment s) \<and>
     (\<exists>k names. segs = replicate k ''..'' @ names \<and> ''..'' \<notin> set names \<and> (\<not> allow \<longrightarrow> k = 0))"

lemma canonical_Nil [simp]: "canonical allow []"
  by (simp add: canonical_def)

lemma canonical_push:
  assumes "canonical allow segs" "CHAR_FORWARD_SLASH \<notin> set s"
  shows "canonical allow (push_segment allow segs s)"
proof -
  obtain k names where segs: "segs = replicate k ''..'' @ names" "''..'' \<notin> set names" "\<not> allow \<longrightarrow> k = 0"
    and all: "\<forall>s\<in>set segs. segment s" using assms(1) by (auto simp: canonical_def)
  have "\<exists>k names. push_segment allow segs s = replicate k ''..'' @ names \<and> ''..'' \<notin> set names \<and> (\<not> allow \<longrightarrow> k = 0)"
  proof (cases "s = [] \<or> s = ''.'' \<or> (s = ''..'' \<and> (segs = [] \<or> last segs = ''..'') \<and> \<not> allow)")
    case True
    then show ?thesis using segs by (auto simp: push_segment_def)
  next
    case False
    show ?thesis
    proof (cases "s = ''..''")
      case dots: True
      show ?thesis
      proof (cases "segs \<noteq> [] \<and> last segs \<noteq> ''..''")
        case True
        then have "names \<noteq> []" using segs by (auto simp: last_replicate)
        then show ?thesis using True dots segs
          by (intro exI [of _ k] exI [of _ "butlast names"]) (auto simp: push_segment_def butlast_append dest: in_set_butlastD)
      next
        case up: False
        then have "names = []" using segs by (cases names rule: rev_cases) auto
        then show ?thesis using False up dots segs
          by (intro exI [of _ "Suc k"] exI [of _ "[]"]) (auto simp: push_segment_def replicate_append_same)
      qed
    next
      case name: False
      then show ?thesis using False segs
        by (intro exI [of _ k] exI [of _ "names @ [s]"]) (auto simp: push_segment_def)
    qed
  qed
  then show ?thesis using push_segment_segments [OF all assms(2)] unfolding canonical_def by blast
qed

lemma canonical_foldl:
  "canonical allow segs \<Longrightarrow> \<forall>s\<in>set ss. CHAR_FORWARD_SLASH \<notin> set s \<Longrightarrow>
     canonical allow (foldl (push_segment allow) segs ss)"
  by (induction ss arbitrary: segs) (auto simp: canonical_push)

lemma canonical_normal_segments: "canonical allow (normal_segments allow path)"
  unfolding normal_segments_def by (rule canonical_foldl) (auto dest: js_split_not_in)

lemma canonical_prefix:
  "canonical allow (segs @ rest) \<Longrightarrow> canonical allow segs"
proof -
  assume can: "canonical allow (segs @ rest)"
  then obtain k names where k: "segs @ rest = replicate k ''..'' @ names" "''..'' \<notin> set names" "\<not> allow \<longrightarrow> k = 0"
    by (auto simp: canonical_def)
  have "segs = take (length segs) (replicate k ''..'') @ take (length segs - k) names"
    using arg_cong [OF k(1), of "take (length segs)"] by simp
  then have "segs = replicate (min (length segs) k) ''..'' @ take (length segs - k) names" by (simp add: take_replicate)
  with k can show ?thesis unfolding canonical_def by (metis Un_iff in_set_takeD min_0R set_append)
qed

text \<open>Normalising what is normal does nothing.\<close>

lemma push_canonical: "canonical allow (segs @ [s]) \<Longrightarrow> push_segment allow segs s = segs @ [s]"
proof -
  assume can: "canonical allow (segs @ [s])"
  then obtain k names where k: "segs @ [s] = replicate k ''..'' @ names" "''..'' \<notin> set names" "\<not> allow \<longrightarrow> k = 0"
    and seg: "segment s" by (auto simp: canonical_def)
  show ?thesis
  proof (cases "s = ''..''")
    case True
    then have "names = []" using k by (cases names rule: rev_cases) auto
    then have "segs @ [s] = replicate k ''..''" using k by simp
    then have "\<forall>x\<in>set segs. x = ''..''" by (metis Un_iff in_set_replicate set_append)
    moreover have "allow" using k \<open>names = []\<close> by (cases k) auto
    ultimately show ?thesis using True by (auto simp: push_segment_def)
  qed (use seg in \<open>simp add: push_segment_def segment_def\<close>)
qed

lemma foldl_canonical: "canonical allow segs \<Longrightarrow> foldl (push_segment allow) [] segs = segs"
proof (induction segs rule: rev_induct)
  case (snoc s segs)
  then show ?case using canonical_prefix [of allow segs "[s]"] push_canonical by simp
qed simp

lemma push_empty [simp]: "push_segment allow segs [] = segs"
  by (simp add: push_segment_def)

lemma split_slashed:
  "canonical allow segs \<Longrightarrow> foldl (push_segment allow) [] (js_split CHAR_FORWARD_SLASH (slashed segs)) = segs"
proof (cases "segs = []")
  case False
  assume can: "canonical allow segs"
  then have "\<forall>s\<in>set segs. CHAR_FORWARD_SLASH \<notin> set s" by (auto simp: canonical_def segment_def)
  from js_split_join [OF False this] foldl_canonical [OF can] show ?thesis by simp
qed simp

lemma char_at_ends: "path \<noteq> [] \<Longrightarrow> char_at path 0 = Some (hd path)"
  "path \<noteq> [] \<Longrightarrow> char_at path (int (length path) - 1) = Some (last path)"
proof -
  have "nat (int n - 1) = n - 1" for n by arith
  then show "path \<noteq> [] \<Longrightarrow> char_at path 0 = Some (hd path)"
    "path \<noteq> [] \<Longrightarrow> char_at path (int (length path) - 1) = Some (last path)"
    by (auto simp: char_at_def hd_conv_nth last_conv_nth)
qed

definition root_of :: "bool \<Rightarrow> string" where
  "root_of absolute = (if absolute then ''/'' else [])"

lemma canonical_ends:
  assumes "canonical allow segs" "segs \<noteq> []"
  shows "slashed segs \<noteq> []" "hd (slashed segs) \<noteq> CHAR_FORWARD_SLASH" "last (slashed segs) \<noteq> CHAR_FORWARD_SLASH"
proof -
  have all: "\<forall>s\<in>set segs. segment s" using assms(1) by (simp add: canonical_def)
  then have hd: "segment (hd segs)" and last: "segment (last segs)" using assms(2) by auto
  obtain u where u: "slashed segs = u @ last segs" using slashed_ends [OF assms(2)] by blast
  show "slashed segs \<noteq> []" using slashed_empty [OF all] assms(2) by simp
  show "hd (slashed segs) \<noteq> CHAR_FORWARD_SLASH"
  proof -
    have "hd (hd segs) \<noteq> CHAR_FORWARD_SLASH" using hd by (metis hd_in_set segment_def)
    then show ?thesis using hd assms(2) by (cases segs) (auto simp: js_join_Cons segment_def hd_append)
  qed
  show "last (slashed segs) \<noteq> CHAR_FORWARD_SLASH"
    using last u by (metis last_appendR last_in_set segment_def)
qed

lemma normal_segments_decorated:
  assumes "canonical allow segs"
  shows "normal_segments allow (root_of absolute @ slashed segs @ root_of trailing) = segs"
proof -
  have 1: "js_split CHAR_FORWARD_SLASH (root_of absolute @ p) =
      (if absolute then [[]] else []) @ js_split CHAR_FORWARD_SLASH p" for p
    by (simp add: root_of_def)
  have 2: "js_split CHAR_FORWARD_SLASH (p @ root_of trailing) =
      js_split CHAR_FORWARD_SLASH p @ (if trailing then [[]] else [])" for p
    using js_split_append [of CHAR_FORWARD_SLASH p "[]"] by (simp add: root_of_def)
  show ?thesis
    unfolding normal_segments_def 1 2 using split_slashed [OF assms] by simp
qed

lemma posix_normalize_eq:
  assumes "path \<noteq> []"
  shows "posix_normalize path =
    (let absolute = (hd path = CHAR_FORWARD_SLASH); trailing = (last path = CHAR_FORWARD_SLASH);
         segs = normal_segments (\<not> absolute) path
     in if segs = [] then if absolute then ''/'' else if trailing then ''./'' else ''.''
        else root_of absolute @ slashed segs @ root_of trailing)"
  using assms canonical_ends(1) [OF canonical_normal_segments]
  by (auto simp: posix_normalize_def char_at_ends normalizeString_segments root_of_def Let_def)

lemma posix_normalize_idem: "posix_normalize (posix_normalize path) = posix_normalize path"
proof (cases "path = []")
  case True
  then show ?thesis by (simp add: posix_normalize_def normal_segments_def normalizeString_segments char_at_def push_segment_def Let_def)
next
  case False
  define absolute where "absolute = (hd path = CHAR_FORWARD_SLASH)"
  define trailing where "trailing = (last path = CHAR_FORWARD_SLASH)"
  define segs where "segs = normal_segments (\<not> absolute) path"
  note norm = posix_normalize_eq [OF False, unfolded Let_def, folded absolute_def trailing_def, folded segs_def]
  have can: "canonical (\<not> absolute) segs" unfolding segs_def by (rule canonical_normal_segments)
  show ?thesis
  proof (cases "segs = []")
    case True
    have "posix_normalize ''/'' = ''/''" "posix_normalize ''./'' = ''./''" "posix_normalize ''.'' = ''.''"
      by (simp_all add: posix_normalize_eq normal_segments_def push_segment_def Let_def)
    with True norm show ?thesis by auto
  next
    case segs: False
    let ?q = "root_of absolute @ slashed segs @ root_of trailing"
    have q: "posix_normalize path = ?q" using norm segs by simp
    have "?q \<noteq> []" using canonical_ends [OF can segs] by simp
    moreover have "hd ?q = CHAR_FORWARD_SLASH \<longleftrightarrow> absolute" "last ?q = CHAR_FORWARD_SLASH \<longleftrightarrow> trailing"
      using canonical_ends [OF can segs] by (auto simp: root_of_def hd_append)
    ultimately show ?thesis
      unfolding q using segs normal_segments_decorated [OF can]
      by (subst posix_normalize_eq) (simp_all add: Let_def)
  qed
qed

section \<open>Resolving\<close>

lemma normal_segments_slash:
  "normal_segments allow (p @ CHAR_FORWARD_SLASH # q) =
     foldl (push_segment allow) (normal_segments allow p) (js_split CHAR_FORWARD_SLASH q)"
  by (simp add: normal_segments_def js_split_append)

text \<open>The segments a path leads to, seen from those of an absolute directory.\<close>

definition go :: "string list \<Rightarrow> string \<Rightarrow> string list" where
  "go segs path =
     foldl (push_segment False) (if path \<noteq> [] \<and> hd path = CHAR_FORWARD_SLASH then [] else segs)
       (js_split CHAR_FORWARD_SLASH path)"

lemma go_absolute: "p \<noteq> [] \<Longrightarrow> hd p = CHAR_FORWARD_SLASH \<Longrightarrow> go segs p = normal_segments False p"
  by (simp add: go_def normal_segments_def)

lemma go_empty [simp]: "go segs [] = segs"
  by (simp add: go_def)

lemma canonical_go: "canonical False segs \<Longrightarrow> canonical False (go segs p)"
  unfolding go_def by (rule canonical_foldl) (auto dest: js_split_not_in)

text \<open>
  \<open>resolve\<close> walks from the current directory through the segments in order. The loop runs backwards
  and stops at the first absolute one, which gives the same.
\<close>

lemma resolve_loop_absolute:
  assumes "cwd \<noteq> []" "hd cwd = CHAR_FORWARD_SLASH"
  shows "\<exists>p. resolve_loop (rev paths @ [cwd]) acc False = (p @ acc, True) \<and> p \<noteq> []
    \<and> (\<forall>q. normal_segments False (p @ q) =
          foldl (push_segment False) (foldl go (normal_segments False cwd) paths) (js_split CHAR_FORWARD_SLASH q))"
proof (induction paths arbitrary: acc rule: rev_induct)
  case Nil
  show ?case
    using assms by (intro exI [of _ "cwd @ ''/''"]) (simp add: char_at_ends normal_segments_slash)
next
  case (snoc path paths)
  consider "path = []" | "path \<noteq> []" "hd path = CHAR_FORWARD_SLASH" | "path \<noteq> []" "hd path \<noteq> CHAR_FORWARD_SLASH"
    by blast
  then show ?case
  proof cases
    case 1
    then show ?thesis using snoc by simp
  next
    case 2
    have stop: "resolve_loop xs (path @ ''/'' @ acc) True = (path @ ''/'' @ acc, True)" for xs
      by (cases xs) simp_all
    then show ?thesis
      using 2 by (intro exI [of _ "path @ ''/''"]) (simp add: char_at_ends normal_segments_slash go_absolute)
  next
    case 3
    obtain p where p: "resolve_loop (rev paths @ [cwd]) (path @ ''/'' @ acc) False = (p @ path @ ''/'' @ acc, True)"
      "p \<noteq> []" "\<And>q. normal_segments False (p @ q) = foldl (push_segment False)
        (foldl go (normal_segments False cwd) paths) (js_split CHAR_FORWARD_SLASH q)"
      using snoc by blast
    have "normal_segments False (p @ path @ CHAR_FORWARD_SLASH # q) = foldl (push_segment False)
        (go (foldl go (normal_segments False cwd) paths) path) (js_split CHAR_FORWARD_SLASH q)" for q
      using 3 by (simp add: p(3) js_split_append go_def)
    then show ?thesis
      using 3 p by (intro exI [of _ "p @ path @ ''/''"]) (simp add: char_at_ends)
  qed
qed

lemma posix_resolve_eq:
  assumes "cwd \<noteq> []" "hd cwd = CHAR_FORWARD_SLASH"
  shows "posix_resolve cwd paths = ''/'' @ slashed (foldl go (normal_segments False cwd) paths)"
proof -
  obtain p where p: "resolve_loop (rev paths @ [cwd]) [] False = (p @ [], True)"
    "\<And>q. normal_segments False (p @ q) = foldl (push_segment False)
        (foldl go (normal_segments False cwd) paths) (js_split CHAR_FORWARD_SLASH q)"
    using resolve_loop_absolute [OF assms] by blast
  show ?thesis using p(1) p(2) [of "[]"] by (simp add: posix_resolve_def normalizeString_segments)
qed

section \<open>Relative paths\<close>

lemma slashed_append: "xs \<noteq> [] \<Longrightarrow> ys \<noteq> [] \<Longrightarrow> slashed (xs @ ys) = slashed xs @ ''/'' @ slashed ys"
  by (induction xs) (auto simp: js_join_Cons)

lemma slashed_replicate_empty: "slashed (replicate m ''..'') = [] \<longleftrightarrow> m = 0"
  by (cases m) (auto simp: js_join_Cons)

lemma slashed_replicate_Suc:
  "slashed (replicate (Suc m) ''..'') = slashed (replicate m ''..'') @ (if m = 0 then ''..'' else ''/..'')"
  using js_join_snoc [of "''/''" "replicate m ''..''" "''..''"] by (simp add: replicate_append_same)

lemma up_loop_eq:
  "up_loop (a @ w) (int (length (a @ w))) (int (length a)) (slashed (replicate m ''..'')) =
     slashed (replicate (m + length (js_split CHAR_FORWARD_SLASH w)) ''..'')"
proof (induction w arbitrary: a m)
  case Nil
  then show ?case
    using slashed_replicate_Suc [of m] slashed_replicate_empty [of m]
    by (subst up_loop.simps, subst up_loop.simps) simp
next
  case (Cons x w)
  have at: "char_at (a @ x # w) (int (length a)) = Some x" by (simp add: char_at_def)
  have len: "length (js_split CHAR_FORWARD_SLASH (x # w)) =
      (if x = CHAR_FORWARD_SLASH then 1 else 0) + length (js_split CHAR_FORWARD_SLASH w)"
    by (simp split: list.split)
  have "up_loop (a @ x # w) (int (length (a @ x # w))) (int (length a)) (slashed (replicate m ''..'')) =
      up_loop ((a @ [x]) @ w) (int (length ((a @ [x]) @ w))) (int (length (a @ [x])))
        (slashed (replicate (if x = CHAR_FORWARD_SLASH then Suc m else m) ''..''))"
    using slashed_replicate_Suc [of m] slashed_replicate_empty [of m] at by (subst up_loop.simps) (simp add: add.commute)
  also have "\<dots> = slashed (replicate (m + length (js_split CHAR_FORWARD_SLASH (x # w))) ''..'')"
    unfolding Cons.IH len by simp
  finally show ?case .
qed

lemma last_index_of_snoc: "last_index_of (s @ [x]) c = (if x = c then int (length s) else last_index_of s c)"
  by (simp add: last_index_of_def)

lemma common_loop_spec:
  assumes "i \<le> min (length f) (length t)" "take i f = take i t"
  shows "\<exists>j. common_loop (r # f) (r # t) (int (min (length f) (length t))) (int i) (last_index_of (take i f) CHAR_FORWARD_SLASH)
      = (int j, last_index_of (take j f) CHAR_FORWARD_SLASH)
    \<and> j \<le> min (length f) (length t) \<and> take j f = take j t \<and> (j = min (length f) (length t) \<or> f ! j \<noteq> t ! j)"
  using assms
proof (induction "min (length f) (length t) - i" arbitrary: i)
  case 0
  then show ?case by (intro exI [of _ i], subst common_loop.simps) simp
next
  case (Suc d)
  then have i: "i < length f" "i < length t" by linarith+
  have at: "char_at (r # f) (1 + int i) = Some (f ! i)" "char_at (r # t) (1 + int i) = Some (t ! i)"
    using i by (auto simp: char_at_def nat_add_distrib)
  show ?case
  proof (cases "f ! i = t ! i")
    case False
    then show ?thesis using Suc.prems i at by (intro exI [of _ i], subst common_loop.simps) simp
  next
    case True
    have "take (Suc i) f = take (Suc i) t" using True Suc.prems i by (simp add: take_Suc_conv_app_nth)
    moreover have "d = min (length f) (length t) - Suc i" "Suc i \<le> min (length f) (length t)"
      using Suc.hyps(2) i by auto
    ultimately obtain j where
      j: "common_loop (r # f) (r # t) (int (min (length f) (length t))) (int (Suc i)) (last_index_of (take (Suc i) f) CHAR_FORWARD_SLASH)
        = (int j, last_index_of (take j f) CHAR_FORWARD_SLASH)"
      "j \<le> min (length f) (length t)" "take j f = take j t" "j = min (length f) (length t) \<or> f ! j \<noteq> t ! j"
      using Suc.hyps(1) [of "Suc i"] by blast
    have "common_loop (r # f) (r # t) (int (min (length f) (length t))) (int i) (last_index_of (take i f) CHAR_FORWARD_SLASH)
      = common_loop (r # f) (r # t) (int (min (length f) (length t))) (int (Suc i)) (last_index_of (take (Suc i) f) CHAR_FORWARD_SLASH)"
      using i at True by (subst common_loop.simps) (simp add: take_Suc_conv_app_nth last_index_of_snoc add.commute)
    with j show ?thesis by metis
  qed
qed

lemma behind_separator:
  assumes "s = g @ c # h" "n = Suc (length g)"
  shows "drop n s = h" "drop n (c # s) = c # h" "n \<le> length s" "js_split c s = js_split c g @ js_split c h"
  using assms by (simp_all add: js_split_append)

text \<open>Behind the last common separator, or at the start if there is none.\<close>

lemma common_split:
  assumes "take j f = take j t" "j \<le> length f" "j \<le> length t" "n = nat (last_index_of (take j f) CHAR_FORWARD_SLASH + 1)"
  shows "\<exists>G. js_split CHAR_FORWARD_SLASH f = G @ js_split CHAR_FORWARD_SLASH (drop n f)
    \<and> js_split CHAR_FORWARD_SLASH t = G @ js_split CHAR_FORWARD_SLASH (drop n t)
    \<and> last_index_of (take j f) CHAR_FORWARD_SLASH = int n - 1 \<and> n \<le> length f
    \<and> drop n (CHAR_FORWARD_SLASH # t) = CHAR_FORWARD_SLASH # drop n t"
proof (cases "CHAR_FORWARD_SLASH \<in> set (take j f)")
  case False
  then show ?thesis using assms by (intro exI [of _ "[]"]) simp
next
  case True
  then obtain g h where gh: "take j f = g @ CHAR_FORWARD_SLASH # h" "CHAR_FORWARD_SLASH \<notin> set h"
    by (meson split_list_last)
  then have n: "n = Suc (length g)" using assms(4) by simp
  have f: "f = g @ CHAR_FORWARD_SLASH # h @ drop j f" and t: "t = g @ CHAR_FORWARD_SLASH # h @ drop j t"
    using gh(1) assms(1) by (metis append.assoc append_Cons append_take_drop_id)+
  from behind_separator [OF f n] behind_separator [OF t n] gh n show ?thesis
    by (intro exI [of _ "js_split CHAR_FORWARD_SLASH g"]) simp
qed

text \<open>The part of \<open>relative\<close> after resolving, on what follows the roots.\<close>

definition relative_rest :: "string \<Rightarrow> string \<Rightarrow> int \<Rightarrow> string" where
  "relative_rest f t lastCommonSep =
     up_loop (''/'' @ f) (int (length f) + 1) (1 + lastCommonSep + 1) []
     @ js_slice (''/'' @ t) (1 + lastCommonSep) (int (length t) + 1)"

lemma js_slice_from: "n \<le> length s \<Longrightarrow> js_slice s (int n) (int (length s)) = drop n s"
  by (simp add: js_slice_def js_rel_index_def)

lemma relative_rest_eq:
  assumes "n \<le> length f" "drop n (CHAR_FORWARD_SLASH # t) = CHAR_FORWARD_SLASH # u"
  shows "relative_rest f t (int n - 1) =
    slashed (replicate (length (js_split CHAR_FORWARD_SLASH (drop n f))) ''..'') @ ''/'' @ u"
proof -
  have "up_loop (''/'' @ f) (int (length f) + 1) (1 + (int n - 1) + 1) [] =
      slashed (replicate (length (js_split CHAR_FORWARD_SLASH (drop n f))) ''..'')"
    using up_loop_eq [of "CHAR_FORWARD_SLASH # take n f" "drop n f" 0] assms(1) by (simp add: add.commute)
  moreover have "n \<le> length (CHAR_FORWARD_SLASH # t)"
    using assms(2) by (metis drop_all linear list.distinct(1))
  then have "js_slice (''/'' @ t) (1 + (int n - 1)) (int (length t) + 1) = ''/'' @ u"
    using js_slice_from [of n "CHAR_FORWARD_SLASH # t"] assms(2) by (simp add: add.commute)
  ultimately show ?thesis by (simp add: relative_rest_def)
qed

lemma relative_after_resolve:
  assumes "posix_resolve cwd [from] = ''/'' @ f" "posix_resolve cwd [to] = ''/'' @ t" "f \<noteq> t"
  shows "posix_relative cwd from to =
    (let (i, lastCommonSep) = common_loop (''/'' @ f) (''/'' @ t) (int (min (length f) (length t))) 0 (- 1)
     in if i = int (length f) \<and> length f < length t \<and> (f = [] \<or> t ! length f = CHAR_FORWARD_SLASH)
        then drop (if f = [] \<and> t ! 0 \<noteq> CHAR_FORWARD_SLASH then 0 else Suc (length f)) t
        else if i = int (length t) \<and> length t < length f \<and> (t = [] \<or> f ! length t = CHAR_FORWARD_SLASH)
        then relative_rest f t i
        else relative_rest f t lastCommonSep)"
proof -
  have ft: "from \<noteq> to" using assms by auto
  obtain i l where il: "common_loop (''/'' @ f) (''/'' @ t) (int (min (length f) (length t))) 0 (- 1) = (i, l)"
    by fastforce
  have len: "(if int (length (''/'' @ f)) - 1 < int (length (''/'' @ t)) - 1 then int (length (''/'' @ f)) - 1
      else int (length (''/'' @ t)) - 1) = int (min (length f) (length t))" by simp
  have at: "char_at (CHAR_FORWARD_SLASH # s) (1 + int k) = (if k < length s then Some (s ! k) else None)" for s k
    by (simp add: char_at_def nat_add_distrib)
  have slice: "js_slice (CHAR_FORWARD_SLASH # t) (1 + int k) (1 + int (length t)) = drop k t" if "k \<le> length t" for k
    using js_slice_from [of "Suc k" "CHAR_FORWARD_SLASH # t"] that by (simp add: add.commute)
  have slice1: "js_slice (CHAR_FORWARD_SLASH # t) (2 + int k) (1 + int (length t)) = drop (Suc k) t" if "Suc k \<le> length t" for k
    using slice [of "Suc k"] that by simp
  show ?thesis
    unfolding posix_relative_def Let_def assms(1,2) len il
    using ft assms(3) at [of f "length t"] at [of t "length f"] slice [of 0] slice [of "length f"] slice1 [of "length f"]
    by (auto simp: relative_rest_def add.commute min_def Suc_le_eq)
qed

lemma split_root: "canonical allow F \<Longrightarrow> F \<noteq> [] \<Longrightarrow> js_split CHAR_FORWARD_SLASH (slashed F) = F"
  by (rule js_split_join) (auto simp: canonical_def segment_def)

text \<open>\<open>relative\<close> goes up from what the two do not share and then down.\<close>

lemma posix_relative_segments:
  assumes "posix_resolve cwd [from] = ''/'' @ slashed F" "posix_resolve cwd [to] = ''/'' @ slashed T"
    and F: "canonical False F" and T: "canonical False T" and "F \<noteq> T"
  shows "\<exists>G F' T'. F = G @ F' \<and> T = G @ T'
    \<and> posix_relative cwd from to = slashed (replicate (length F') ''..'' @ T')"
proof -
  define f t where "f = slashed F" and "t = slashed T"
  have neq: "f \<noteq> t"
    using split_root [OF F] split_root [OF T] canonical_ends(1) [OF F] canonical_ends(1) [OF T] assms(5)
    unfolding f_def t_def by (cases "F = []"; cases "T = []") (metis js_join.simps(1))+
  note rel = relative_after_resolve [OF assms(1,2), folded f_def t_def, OF neq]
  obtain j where j: "common_loop (''/'' @ f) (''/'' @ t) (int (min (length f) (length t))) 0 (- 1) =
      (int j, last_index_of (take j f) CHAR_FORWARD_SLASH)" "j \<le> length f" "j \<le> length t" "take j f = take j t"
    "j = min (length f) (length t) \<or> f ! j \<noteq> t ! j"
    using common_loop_spec [of 0 f t CHAR_FORWARD_SLASH] by auto
  consider (root) "F = []" | (top) "T = []" | (both) "F \<noteq> []" "T \<noteq> []" by blast
  then show ?thesis
  proof cases
    case root
    then have "f = []" "T \<noteq> []" using assms(5) by (simp_all add: f_def)
    moreover from canonical_ends [OF T \<open>T \<noteq> []\<close>] have "t \<noteq> []" "t ! 0 \<noteq> CHAR_FORWARD_SLASH"
      by (simp_all add: t_def hd_conv_nth)
    ultimately have "posix_relative cwd from to = t" using rel j by simp
    then show ?thesis using root by (intro exI [of _ "[]"] exI [of _ T]) (simp add: t_def)
  next
    case top
    then have t: "t = []" and "F \<noteq> []" using assms(5) by (simp_all add: t_def)
    from canonical_ends [OF F \<open>F \<noteq> []\<close>] obtain x f' where f: "f = x # f'" "x \<noteq> CHAR_FORWARD_SLASH"
      unfolding f_def by (cases "slashed F") auto
    have len: "length (js_split CHAR_FORWARD_SLASH f') = length F"
      using split_root [OF F \<open>F \<noteq> []\<close>] f unfolding f_def by (auto split: list.splits)
    have "posix_relative cwd from to = relative_rest f t 0" using rel j t f by simp
    also have "\<dots> = slashed (replicate (length F) ''..'')"
      using up_loop_eq [of "[CHAR_FORWARD_SLASH, x]" f' 0] f t len
      by (simp add: relative_rest_def js_slice_def js_rel_index_def)
    finally show ?thesis using top by (intro exI [of _ "[]"] exI [of _ F]) simp
  next
    case both
    note splits = split_root [OF F both(1), folded f_def] split_root [OF T both(2), folded t_def]
    have ne: "f \<noteq> []" "t \<noteq> []" using canonical_ends(1) [OF F both(1)] canonical_ends(1) [OF T both(2)] by (simp_all add: f_def t_def)
    consider (down) "j = length f" "length f < length t" "t ! length f = CHAR_FORWARD_SLASH"
      | (up) "j = length t" "length t < length f" "f ! length t = CHAR_FORWARD_SLASH"
      | (rest) "posix_relative cwd from to = relative_rest f t (last_index_of (take j f) CHAR_FORWARD_SLASH)"
      using rel j(1) ne by (auto split: if_splits)
    then show ?thesis
    proof cases
      case down
      then have t: "t = f @ CHAR_FORWARD_SLASH # drop (Suc (length f)) t"
        using j(4) by (metis append_take_drop_id Cons_nth_drop_Suc take_all order_refl)
      have "T = F @ js_split CHAR_FORWARD_SLASH (drop (Suc (length f)) t)"
        using behind_separator(4) [OF t refl] splits by simp
      moreover have "posix_relative cwd from to = drop (Suc (length f)) t" using rel j(1) ne down by simp
      ultimately show ?thesis
        by (intro exI [of _ F] exI [of _ "[]"] exI [of _ "js_split CHAR_FORWARD_SLASH (drop (Suc (length f)) t)"]) simp
    next
      case up
      then have f: "f = t @ CHAR_FORWARD_SLASH # drop (Suc (length t)) f"
        using j(4) by (metis append_take_drop_id Cons_nth_drop_Suc take_all order_refl)
      let ?F' = "js_split CHAR_FORWARD_SLASH (drop (Suc (length t)) f)"
      have "F = T @ ?F'" using behind_separator(4) [OF f refl] splits by simp
      moreover have "posix_relative cwd from to = relative_rest f t (int (length t))" using rel j(1) ne up by simp
      moreover have "relative_rest f t (int (length t)) = slashed (replicate (length ?F') ''..'')"
      proof -
        have "min (length f) (Suc (length t)) = Suc (length t)" using up by simp
        with up_loop_eq [of "CHAR_FORWARD_SLASH # take (Suc (length t)) f" "drop (Suc (length t)) f" 0]
        show ?thesis by (simp add: relative_rest_def js_slice_def js_rel_index_def add.commute)
      qed
      ultimately show ?thesis by (intro exI [of _ T] exI [of _ ?F'] exI [of _ "[]"]) simp
    next
      case rest
      define n where "n = nat (last_index_of (take j f) CHAR_FORWARD_SLASH + 1)"
      from common_split [OF j(4,2,3) n_def] obtain G where
        G: "F = G @ js_split CHAR_FORWARD_SLASH (drop n f)" "T = G @ js_split CHAR_FORWARD_SLASH (drop n t)"
        and n: "last_index_of (take j f) CHAR_FORWARD_SLASH = int n - 1" "n \<le> length f"
        "drop n (CHAR_FORWARD_SLASH # t) = CHAR_FORWARD_SLASH # drop n t" unfolding splits by blast
      let ?F' = "js_split CHAR_FORWARD_SLASH (drop n f)" and ?T' = "js_split CHAR_FORWARD_SLASH (drop n t)"
      have "posix_relative cwd from to = slashed (replicate (length ?F') ''..'') @ ''/'' @ slashed ?T'"
        using rest relative_rest_eq [OF n(2,3)] n(1) by simp
      also have "\<dots> = slashed (replicate (length ?F') ''..'' @ ?T')"
        by (rule slashed_append [symmetric]) simp_all
      finally show ?thesis using G by blast
    qed
  qed
qed

lemma foldl_push_more: "canonical allow (G @ T') \<Longrightarrow> foldl (push_segment allow) G T' = G @ T'"
proof (induction T' arbitrary: G)
  case (Cons s T')
  then have "push_segment allow G s = G @ [s]"
    using canonical_prefix [of allow "G @ [s]" T'] push_canonical by simp
  with Cons show ?case by simp
qed simp

lemma foldl_push_up: "canonical False (G @ F') \<Longrightarrow> foldl (push_segment False) (G @ F') (replicate (length F') ''..'') = G"
proof (induction F' rule: rev_induct)
  case (snoc s F')
  have "''..'' \<notin> set (G @ F' @ [s])" using snoc.prems by (auto simp: canonical_def)
  then have "push_segment False (G @ F' @ [s]) ''..'' = G @ F'" by (auto simp: push_segment_def butlast_append)
  moreover have "canonical False (G @ F')" using snoc.prems canonical_prefix [of False "G @ F'" "[s]"] by simp
  ultimately show ?case using snoc.IH by simp
qed simp

section \<open>Parsing\<close>

lemma path_cases:
  obtains (slashes) k where "path = replicate k CHAR_FORWARD_SLASH"
  | (named) d b k where "path = d @ b @ replicate k CHAR_FORWARD_SLASH" "b \<noteq> []" "CHAR_FORWARD_SLASH \<notin> set b"
      "d = [] \<or> (\<exists>d'. d = d' @ [CHAR_FORWARD_SLASH])"
proof -
  define z where "z = takeWhile (\<lambda>x. x = CHAR_FORWARD_SLASH) (rev path)"
  define w where "w = dropWhile (\<lambda>x. x = CHAR_FORWARD_SLASH) (rev path)"
  define b where "b = takeWhile (\<lambda>x. x \<noteq> CHAR_FORWARD_SLASH) w"
  define d where "d = dropWhile (\<lambda>x. x \<noteq> CHAR_FORWARD_SLASH) w"
  have "\<forall>x\<in>set z. x = CHAR_FORWARD_SLASH" unfolding z_def by (auto dest: set_takeWhileD)
  then have z: "replicate (length z) CHAR_FORWARD_SLASH = rev z"
    using replicate_length_same [of "rev z" CHAR_FORWARD_SLASH] by simp
  have "rev path = z @ b @ d" by (simp add: z_def w_def b_def d_def)
  then have "path = rev (z @ b @ d)" by (simp add: rev_swap)
  then have path: "path = rev d @ rev b @ replicate (length z) CHAR_FORWARD_SLASH" using z by simp
  have hd: "w \<noteq> [] \<Longrightarrow> hd w \<noteq> CHAR_FORWARD_SLASH" unfolding w_def
    by (rule hd_dropWhile [where P = "\<lambda>x. x = CHAR_FORWARD_SLASH"])
  show thesis
  proof (cases "w = []")
    case True
    then have "path = replicate (length z) CHAR_FORWARD_SLASH" using path by (simp add: b_def d_def)
    then show thesis by (rule slashes)
  next
    case False
    then have "b \<noteq> []" using hd by (cases w) (auto simp: b_def)
    moreover have "CHAR_FORWARD_SLASH \<notin> set b" by (auto simp: b_def dest: set_takeWhileD)
    moreover have "d = [] \<or> (\<exists>e. d = CHAR_FORWARD_SLASH # e)"
      using hd_dropWhile [of "\<lambda>x. x \<noteq> CHAR_FORWARD_SLASH" w] by (cases d) (auto simp: d_def [symmetric])
    ultimately show thesis using named [OF path] by auto
  qed
qed

text \<open>The state of the loop that looks for the extension, in front of the part \<open>b\<close> of the last segment.\<close>

definition ext_seen :: "nat \<Rightarrow> string \<Rightarrow> ext_state" where
  "ext_seen n b =
     (let dot = last_index_of b CHAR_DOT in
      \<lparr>startDot = (if dot = - 1 then - 1 else int n + dot), startPart = 0,
       end_part = (if b = [] then - 1 else int n + int (length b)), matchedSlash = (b = []),
       preDotState = (if dot \<le> 0 then 0 else if hd b = CHAR_DOT then 1 else - 1)\<rparr>)"

lemma last_index_of_Cons:
  "last_index_of (x # s) c = (if c \<in> set s then last_index_of s c + 1 else if x = c then 0 else - 1)"
proof (cases "c \<in> set s")
  case True
  then obtain g h where "s = g @ c # h" "c \<notin> set h" by (meson split_list_last)
  then show ?thesis using last_index_of_append [of c h g] last_index_of_append [of c h "x # g"] by simp
next
  case False
  then show ?thesis using last_index_of_append [of c s "[]"] last_index_of_none [of c "x # s"] by auto
qed

lemma last_index_of_ge: "last_index_of s c = - 1 \<longleftrightarrow> c \<notin> set s" "c \<in> set s \<Longrightarrow> 0 \<le> last_index_of s c"
  "last_index_of s c < int (length s)"
  by (induction s) (auto simp: last_index_of_Cons last_index_of_def [of "[]"])

lemma ext_loop_segment:
  assumes "CHAR_FORWARD_SLASH \<notin> set b1" "start \<le> length d" "path = d @ b1 @ b2 @ z"
  shows "ext_loop path start (length d + length b1) (ext_seen (length d + length b1) b2) =
    ext_loop path start (length d) (ext_seen (length d) (b1 @ b2))"
  using assms
proof (induction b1 arbitrary: b2 rule: rev_induct)
  case (snoc x b1)
  have x: "path ! (length d + length b1) = x" "x \<noteq> CHAR_FORWARD_SLASH"
    using snoc.prems nth_append_length [of "d @ b1" x "b2 @ z"] by auto
  have "ext_loop path start (length d + length (b1 @ [x])) (ext_seen (length d + length (b1 @ [x])) b2) =
      ext_loop path start (length d + length b1) (ext_seen (length d + length b1) (x # b2))"
    using x snoc.prems(2) last_index_of_ge(1) [of b2 CHAR_DOT] last_index_of_ge(2) [of CHAR_DOT b2]
    by (auto simp: ext_seen_def last_index_of_Cons Let_def algebra_simps)
  with snoc.IH [of "x # b2"] snoc.prems show ?case by simp
qed simp

lemma ext_loop_slashes:
  "start \<le> length w \<Longrightarrow> matchedSlash s \<Longrightarrow> path = w @ replicate k CHAR_FORWARD_SLASH @ z \<Longrightarrow>
     ext_loop path start (length w + k) s = ext_loop path start (length w) s"
proof (induction k arbitrary: z)
  case (Suc k)
  have path: "path = w @ replicate k CHAR_FORWARD_SLASH @ CHAR_FORWARD_SLASH # z"
    using Suc.prems(3) by (simp add: replicate_app_Cons_same)
  moreover from this have "path ! (length w + k) = CHAR_FORWARD_SLASH"
    using nth_append_length [of "w @ replicate k CHAR_FORWARD_SLASH" CHAR_FORWARD_SLASH z] by simp
  ultimately show ?case using Suc by (simp add: Let_def)
qed simp

lemma ext_seen_start: "ext_seen n [] = ext_start"
  by (simp add: ext_seen_def ext_start_def Let_def)

text \<open>What the loop finds in a path with a last segment \<open>b\<close> behind \<open>d\<close>.\<close>

lemma ext_loop_named:
  assumes "path = d @ b @ replicate k CHAR_FORWARD_SLASH" "b \<noteq> []" "CHAR_FORWARD_SLASH \<notin> set b"
    and "d = [] \<or> (\<exists>d'. d = d' @ [CHAR_FORWARD_SLASH])" "start \<le> length d"
  shows "ext_loop path start (length path) ext_start =
    (ext_seen (length d) b)\<lparr>startPart := (if start < length d then int (length d) else 0)\<rparr>"
proof -
  have "ext_loop path start (length path) ext_start = ext_loop path start (length (d @ b)) ext_start"
    using ext_loop_slashes [of start "d @ b" ext_start path k "[]"] assms(1,5)
    by (simp add: ext_start_def add.assoc)
  also have "\<dots> = ext_loop path start (length d) (ext_seen (length d) b)"
    using ext_loop_segment [of b start d path "[]" "replicate k CHAR_FORWARD_SLASH"] assms
    by (simp add: ext_seen_start)
  also have "\<dots> = (ext_seen (length d) b)\<lparr>startPart := (if start < length d then int (length d) else 0)\<rparr>"
  proof (cases "d = []")
    case False
    then obtain d' where d: "d = d' @ [CHAR_FORWARD_SLASH]" using assms(4) by blast
    then have "path ! length d' = CHAR_FORWARD_SLASH" using assms(1) by simp
    then show ?thesis using d assms(2) by (auto simp: ext_seen_def Let_def)
  qed (simp add: ext_seen_def Let_def)
  finally show ?thesis .
qed

lemma ext_loop_only_slashes:
  assumes "path = replicate k CHAR_FORWARD_SLASH" "start \<le> 1"
  shows "ext_loop path start (length path) ext_start = ext_start"
proof -
  have *: "ext_loop path start n ext_start = ext_start" if "n \<le> k" for n
    using that assms by (induction n) (auto simp: ext_start_def)
  show ?thesis using * [of k] assms by simp
qed

lemma basename_loop_segment:
  assumes "CHAR_FORWARD_SLASH \<notin> set b1" "path = d @ b1 @ b2 @ z" "E = int (length d + length b1 + length b2)"
  shows "basename_loop path (length d + length b1) (if b2 = [] then - 1 else E) (b2 = []) =
    basename_loop path (length d) (if b1 @ b2 = [] then - 1 else E) (b1 @ b2 = [])"
  using assms
proof (induction b1 arbitrary: b2 rule: rev_induct)
  case (snoc x b1)
  have x: "path ! (length d + length b1) = x" "x \<noteq> CHAR_FORWARD_SLASH"
    using snoc.prems nth_append_length [of "d @ b1" x "b2 @ z"] by auto
  have "basename_loop path (length d + length (b1 @ [x])) (if b2 = [] then - 1 else E) (b2 = []) =
      basename_loop path (length d + length b1) E False"
    using x snoc.prems(3) by (auto simp: algebra_simps)
  with snoc.IH [of "x # b2"] snoc.prems show ?case by simp
qed simp

lemma basename_loop_slashes:
  "path = w @ replicate k CHAR_FORWARD_SLASH @ z \<Longrightarrow>
     basename_loop path (length w + k) e True = basename_loop path (length w) e True"
proof (induction k arbitrary: z)
  case (Suc k)
  have path: "path = w @ replicate k CHAR_FORWARD_SLASH @ CHAR_FORWARD_SLASH # z"
    using Suc.prems by (simp add: replicate_app_Cons_same)
  moreover from this have "path ! (length w + k) = CHAR_FORWARD_SLASH"
    using nth_append_length [of "w @ replicate k CHAR_FORWARD_SLASH" CHAR_FORWARD_SLASH z] by simp
  ultimately show ?case using Suc by simp
qed simp

lemma posix_basename_named:
  assumes "path = d @ b @ replicate k CHAR_FORWARD_SLASH" "b \<noteq> []" "CHAR_FORWARD_SLASH \<notin> set b"
    and "d = [] \<or> (\<exists>d'. d = d' @ [CHAR_FORWARD_SLASH])"
  shows "posix_basename path None = b"
proof -
  let ?E = "int (length d + length b)"
  have "basename_loop path (length path) (- 1) True = basename_loop path (length (d @ b)) (- 1) True"
    using basename_loop_slashes [of path "d @ b" k "[]"] assms(1) by (simp add: add.assoc)
  also have "\<dots> = basename_loop path (length d) ?E False"
    using basename_loop_segment [of b path d "[]" "replicate k CHAR_FORWARD_SLASH" ?E] assms by simp
  also have "\<dots> = (int (length d), ?E)"
    using assms by (auto simp: nth_append)
  finally show ?thesis
    using js_slice_middle [of d b "replicate k CHAR_FORWARD_SLASH"] assms(1) by (simp add: posix_basename_def)
qed

lemma posix_basename_slashes: "posix_basename (replicate k CHAR_FORWARD_SLASH) None = []"
  using basename_loop_slashes [of "replicate k CHAR_FORWARD_SLASH" "[]" k "[]"] by (simp add: posix_basename_def)

text \<open>The extension of the last segment \<open>b\<close>: its last dot and what follows, unless the dot is its start.\<close>

definition has_ext :: "string \<Rightarrow> bool" where
  "has_ext b \<longleftrightarrow> 0 < last_index_of b CHAR_DOT"

lemma dots_iff: "hd b = CHAR_DOT \<and> last_index_of b CHAR_DOT = int (length b) - 1 \<and> last_index_of b CHAR_DOT = 1 \<longleftrightarrow> b = ''..''"
proof
  assume asm: "hd b = CHAR_DOT \<and> last_index_of b CHAR_DOT = int (length b) - 1 \<and> last_index_of b CHAR_DOT = 1"
  then have "length b = 2" by simp
  then obtain x y where b: "b = [x, y]" by (auto simp: length_Suc_conv numeral_2_eq_2)
  with asm show "b = ''..''" by (auto simp: last_index_of_Cons split: if_splits)
qed (simp add: last_index_of_Cons)

lemma no_ext_seen:
  assumes "b \<noteq> []"
  shows "no_ext ((ext_seen (length d) b)\<lparr>startPart := sp\<rparr>) \<longleftrightarrow>
    \<not> has_ext b \<or> (hd b = CHAR_DOT \<and> last_index_of b CHAR_DOT = int (length b) - 1
      \<and> int (length d) + last_index_of b CHAR_DOT = sp + 1)"
  using assms last_index_of_ge(1) [of b CHAR_DOT] last_index_of_ge(2) [of CHAR_DOT b]
  by (auto simp: no_ext_def ext_seen_def has_ext_def Let_def)

lemma split_ext:
  assumes "has_ext b"
  obtains pre e where "b = pre @ e" "int (length pre) = last_index_of b CHAR_DOT" "e \<noteq> []"
proof
  let ?n = "nat (last_index_of b CHAR_DOT)"
  have "?n < length b" using last_index_of_ge(3) [of b CHAR_DOT] assms by (simp add: has_ext_def)
  then show "b = take ?n b @ drop ?n b" "int (length (take ?n b)) = last_index_of b CHAR_DOT" "drop ?n b \<noteq> []"
    using assms by (simp_all add: has_ext_def)
qed

lemma posix_extname_named:
  assumes "path = d @ b @ replicate k CHAR_FORWARD_SLASH" "b \<noteq> []" "CHAR_FORWARD_SLASH \<notin> set b"
    and "d = [] \<or> (\<exists>d'. d = d' @ [CHAR_FORWARD_SLASH])"
  shows "posix_extname path = (if has_ext b \<and> b \<noteq> ''..'' then drop (nat (last_index_of b CHAR_DOT)) b else [])"
proof -
  let ?s = "(ext_seen (length d) b)\<lparr>startPart := int (length d)\<rparr>"
  have s: "ext_loop path 0 (length path) ext_start = ?s"
    using ext_loop_named [OF assms, of 0] by (cases "d = []") auto
  have none: "no_ext ?s \<longleftrightarrow> \<not> (has_ext b \<and> b \<noteq> ''..'')"
    using no_ext_seen [OF assms(2), of "int (length d)" d] dots_iff [of b] by auto
  show ?thesis
  proof (cases "has_ext b \<and> b \<noteq> ''..''")
    case True
    then obtain pre e where b: "b = pre @ e" "int (length pre) = last_index_of b CHAR_DOT" by (meson split_ext)
    have "js_slice path (int (length d) + last_index_of b CHAR_DOT) (int (length d) + int (length b)) = e"
      using js_slice_middle [of "d @ pre" e "replicate k CHAR_FORWARD_SLASH"] b assms(1) by (simp add: add.assoc)
    moreover have "drop (nat (last_index_of b CHAR_DOT)) b = e" using b by (metis append_eq_conv_conj nat_int)
    ultimately show ?thesis
      using True none s assms(2) by (auto simp: posix_extname_def ext_seen_def has_ext_def Let_def)
  qed (use none s in \<open>auto simp: posix_extname_def\<close>)
qed

lemma posix_parse_named:
  assumes "path = d @ b @ replicate k CHAR_FORWARD_SLASH" "b \<noteq> []" "CHAR_FORWARD_SLASH \<notin> set b"
    and "d = [] \<or> (\<exists>d'. d = d' @ [CHAR_FORWARD_SLASH])"
  defines "absolute \<equiv> d \<noteq> [] \<and> hd d = CHAR_FORWARD_SLASH"
  defines "found \<equiv> has_ext b \<and> (b \<noteq> ''..'' \<or> d = ''/'')"
  shows "posix_parse path =
    \<lparr>root = root_of absolute, dir = (if d = [] then [] else if d = ''/'' then ''/'' else butlast d), base = b,
     ext = (if found then drop (nat (last_index_of b CHAR_DOT)) b else []),
     name = (if found then take (nat (last_index_of b CHAR_DOT)) b else b)\<rparr>"
proof -
  define start where "start = (if absolute then 1 else 0 :: nat)"
  define sp where "sp = (if start < length d then int (length d) else 0)"
  let ?s = "(ext_seen (length d) b)\<lparr>startPart := sp\<rparr>"
  have "start \<le> length d" by (cases d) (auto simp: start_def absolute_def)
  then have s: "ext_loop path start (length path) ext_start = ?s"
    using ext_loop_named [OF assms(1-4)] by (simp add: sp_def)
  have abs: "char_at path 0 = Some CHAR_FORWARD_SLASH \<longleftrightarrow> absolute"
    using assms(1-3) char_at_ends(1) [of path] by (cases d; cases b) (auto simp: absolute_def)
  have root: "d = ''/'' \<longleftrightarrow> absolute \<and> length d = 1" by (cases d) (auto simp: absolute_def)
  have sp: "sp = (if d = ''/'' then 0 else int (length d))"
    using assms(4) root by (auto simp: sp_def start_def)
  have from_start: "(if sp = 0 \<and> absolute then 1 else sp) = int (length d)"
    using root sp by (auto simp: absolute_def)
  have none: "no_ext ?s \<longleftrightarrow> \<not> found"
    using no_ext_seen [OF assms(2), of sp d] dots_iff [of b] unfolding found_def sp has_ext_def by auto
  have base: "js_slice path (int (length d)) (int (length d) + int (length b)) = b"
    using js_slice_middle [of d b] assms(1) by simp
  have dir: "js_slice path 0 (int (length d) - 1) = butlast d" if "d \<noteq> []"
  proof -
    have "path = butlast d @ last d # b @ replicate k CHAR_FORWARD_SLASH"
      using that assms(1) append_butlast_last_id [OF that] by (metis append.assoc append_Cons append_Nil)
    then show ?thesis
      using that js_slice_prefix [of "butlast d" "last d # b @ replicate k CHAR_FORWARD_SLASH"]
      by (simp add: of_nat_diff Suc_le_eq)
  qed
  have ext: "js_slice path (int (length d)) (int (length d) + last_index_of b CHAR_DOT) = take (nat (last_index_of b CHAR_DOT)) b"
    "js_slice path (int (length d) + last_index_of b CHAR_DOT) (int (length d) + int (length b)) = drop (nat (last_index_of b CHAR_DOT)) b"
    if "found"
  proof -
    have "has_ext b" using that by (simp add: found_def)
    then obtain pre e where b: "b = pre @ e" "int (length pre) = last_index_of b CHAR_DOT" by (rule split_ext)
    then have "nat (last_index_of b CHAR_DOT) = length pre" by (metis nat_int)
    then show "js_slice path (int (length d)) (int (length d) + last_index_of b CHAR_DOT) = take (nat (last_index_of b CHAR_DOT)) b"
      "js_slice path (int (length d) + last_index_of b CHAR_DOT) (int (length d) + int (length b)) = drop (nat (last_index_of b CHAR_DOT)) b"
      using js_slice_middle [of d pre "e @ replicate k CHAR_FORWARD_SLASH"]
        js_slice_middle [of "d @ pre" e "replicate k CHAR_FORWARD_SLASH"] b assms(1) by (simp_all add: add.assoc)
  qed
  have seen: "end_part ?s = int (length d) + int (length b)" "startPart ?s = sp"
    "found \<Longrightarrow> startDot ?s = int (length d) + last_index_of b CHAR_DOT"
    using assms(2) by (auto simp: ext_seen_def found_def has_ext_def Let_def)
  have rootless: "d = [] \<Longrightarrow> \<not> absolute" by (simp add: absolute_def)
  have ne: "length path \<noteq> 0" "int (length d) + int (length b) \<noteq> - 1" using assms(1,2) by auto
  show ?thesis
    unfolding posix_parse_def Let_def abs start_def [symmetric] s seen(1,2) none from_start base
    using ne dir ext seen(3) sp root rootless by (auto simp: root_of_def)
qed

section \<open>Properties\<close>

text \<open>
  C26. \<open>normalize\<close> resolves the segments \<open>.\<close> and \<open>..\<close> as the reference does: the character loop with
  its counters keeps exactly the segments that folding over the parts between the slashes keeps,
  under the root and with the trailing slash of the path; and normalising twice is normalising once.
\<close>

theorem posix_normalize_correct:
  assumes "path \<noteq> []"
  shows "(let absolute = (hd path = CHAR_FORWARD_SLASH);
              segs = foldl (push_segment (\<not> absolute)) [] (js_split CHAR_FORWARD_SLASH path)
          in if segs = []
             then posix_normalize path = (if absolute then ''/'' else if last path = CHAR_FORWARD_SLASH then ''./'' else ''.'')
             else posix_normalize path = (if absolute then ''/'' else []) @ js_join ''/'' segs
                    @ (if last path = CHAR_FORWARD_SLASH then ''/'' else []))
    \<and> posix_normalize (posix_normalize path) = posix_normalize path"
  using posix_normalize_eq [OF assms] posix_normalize_idem [of path]
  by (simp add: Let_def normal_segments_def root_of_def)

theorem posix_normalize_correct_witness: "posix_normalize ''/a/./b//../c/'' = ''/a/c/''"
  using posix_normalize_correct [of "''/a/./b//../c/''"] by (simp add: push_segment_def Let_def)

text \<open>
  C25. \<open>relative\<close> inverts \<open>resolve\<close>: from an absolute current directory, following the relative path
  from one place to another leads to the other, whatever the two paths are; both \<open>resolve\<close> and
  \<open>relative\<close> loop over characters, and every special case (equal paths, roots, one path inside the
  other, common parts that end inside a segment) is included. The result of \<open>resolve\<close> is absolute.
\<close>

theorem posix_relative_resolves:
  assumes "cwd \<noteq> []" "hd cwd = CHAR_FORWARD_SLASH"
  shows "posix_resolve cwd [from, posix_relative cwd from to] = posix_resolve cwd [to]
    \<and> posix_isAbsolute (posix_resolve cwd [to])"
proof -
  define S F T where "S = normal_segments False cwd" and "F = go S from" and "T = go S to"
  have canS: "canonical False S" unfolding S_def by (rule canonical_normal_segments)
  have F: "canonical False F" and T: "canonical False T" unfolding F_def T_def using canonical_go [OF canS] by blast+
  have res: "posix_resolve cwd [from] = ''/'' @ slashed F" "posix_resolve cwd [to] = ''/'' @ slashed T"
    "posix_resolve cwd [from, p] = ''/'' @ slashed (go F p)" for p
    by (simp_all add: posix_resolve_eq [OF assms] F_def T_def S_def)
  have "go F (posix_relative cwd from to) = T"
  proof (cases "F = T")
    case True
    then have "posix_relative cwd from to = []" using res by (simp add: posix_relative_def Let_def)
    with True show ?thesis by simp
  next
    case False
    from posix_relative_segments [OF res(1,2) F T False] obtain G F' T' where
      GF: "F = G @ F'" "T = G @ T'" and rel: "posix_relative cwd from to = slashed (replicate (length F') ''..'' @ T')"
      by blast
    let ?R = "replicate (length F') ''..'' @ T'"
    have "''..'' \<notin> set T'" "\<forall>s\<in>set T'. segment s" using T GF by (simp_all add: canonical_def)
    moreover have "segment ''..''" by (simp add: segment_def)
    ultimately have "canonical True ?R" unfolding canonical_def by (intro conjI exI [of _ "length F'"] exI [of _ T']) auto
    moreover have "?R \<noteq> []" using False GF by auto
    ultimately have R: "hd (slashed ?R) \<noteq> CHAR_FORWARD_SLASH" "js_split CHAR_FORWARD_SLASH (slashed ?R) = ?R"
      using canonical_ends(2) [of True ?R] split_root [of True ?R] by blast+
    have "go F (slashed ?R) = foldl (push_segment False) F ?R" using R by (simp add: go_def)
    also have "\<dots> = T" using foldl_push_up [of G F'] foldl_push_more [of False G T'] F T GF by simp
    finally show ?thesis using rel by simp
  qed
  then show ?thesis by (simp add: res posix_isAbsolute_def char_at_def)
qed

theorem posix_relative_resolves_witness:
  "posix_resolve ''/home'' [''a/bc'', posix_relative ''/home'' ''a/bc'' ''/home/a/bd/e''] = ''/home/a/bd/e''"
  using posix_relative_resolves [of "''/home''" "''a/bc''" "''/home/a/bd/e''"]
  by (simp add: posix_resolve_def normalizeString_segments normal_segments_def push_segment_def char_at_def)

text \<open>
  C27. \<open>parse\<close> agrees with the other operations: its \<open>base\<close> is the \<open>basename\<close> and consists of its
  \<open>name\<close> and \<open>ext\<close>, its \<open>ext\<close> is the \<open>extname\<close>, except for \<open>..\<close> directly under the root, where it
  takes the second dot for an extension; and \<open>format\<close> gives the path back that \<open>parse\<close> took apart,
  if it does not end in a slash and is not a single name behind two slashes.
\<close>

theorem posix_parse_agrees:
  "base (posix_parse path) = posix_basename path None
   \<and> base (posix_parse path) = name (posix_parse path) @ ext (posix_parse path)
   \<and> ((\<nexists>k. path = ''/..'' @ replicate k CHAR_FORWARD_SLASH) \<longrightarrow> ext (posix_parse path) = posix_extname path)
   \<and> (path \<noteq> [] \<and> last path \<noteq> CHAR_FORWARD_SLASH \<and> (\<nexists>b. path = ''//'' @ b \<and> CHAR_FORWARD_SLASH \<notin> set b) \<longrightarrow>
        posix_format (posix_parse path) = path)
   \<and> ext (posix_parse ''/..'') = ''.'' \<and> posix_extname ''/..'' = []"
proof -
  have quirk: "ext (posix_parse ''/..'') = ''.''" "posix_extname ''/..'' = []"
    using posix_parse_named [of "''/..''" "''/''" "''..''" 0] posix_extname_named [of "''/..''" "''/''" "''..''" 0]
    by (simp_all add: has_ext_def last_index_of_Cons)
  have "base (posix_parse path) = posix_basename path None
   \<and> base (posix_parse path) = name (posix_parse path) @ ext (posix_parse path)
   \<and> ((\<nexists>k. path = ''/..'' @ replicate k CHAR_FORWARD_SLASH) \<longrightarrow> ext (posix_parse path) = posix_extname path)
   \<and> (path \<noteq> [] \<and> last path \<noteq> CHAR_FORWARD_SLASH \<and> (\<nexists>b. path = ''//'' @ b \<and> CHAR_FORWARD_SLASH \<notin> set b) \<longrightarrow>
        posix_format (posix_parse path) = path)"
  proof (cases path rule: path_cases)
    case (slashes k)
    have "ext_loop path start (length path) ext_start = ext_start" if "start \<le> 1" for start
      using ext_loop_only_slashes [OF slashes that] .
    then have "base (posix_parse path) = []" "name (posix_parse path) = []" "ext (posix_parse path) = []"
      "posix_extname path = []"
      by (auto simp: posix_parse_def posix_extname_def ext_start_def Let_def)
    moreover have "path \<noteq> [] \<Longrightarrow> last path = CHAR_FORWARD_SLASH" using slashes by auto
    ultimately show ?thesis using posix_basename_slashes [of k] slashes by auto
  next
    case (named d b k)
    note parse = posix_parse_named [OF named] and ext = posix_extname_named [OF named] and base = posix_basename_named [OF named]
    have "posix_format (posix_parse path) = path"
      if "last path \<noteq> CHAR_FORWARD_SLASH" "\<nexists>b. path = ''//'' @ b \<and> CHAR_FORWARD_SLASH \<notin> set b"
    proof -
      have k: "k = 0" using that(1) named(1) by (cases k) (auto simp: replicate_append_same [symmetric])
      have two: "d \<noteq> ''//''" using that(2) named k by auto
      show ?thesis
        using parse named k two by (auto simp: posix_format_def format_path_def root_of_def Let_def)
    qed
    moreover have "(\<nexists>k. path = ''/..'' @ replicate k CHAR_FORWARD_SLASH) \<longrightarrow> ext (posix_parse path) = posix_extname path"
      using parse ext named(1) by auto
    ultimately show ?thesis using parse base by auto
  qed
  with quirk show ?thesis by blast
qed

theorem posix_parse_agrees_witness: "posix_format (posix_parse ''/a/b.tar.gz'') = ''/a/b.tar.gz''"
  using posix_parse_agrees [of "''/a/b.tar.gz''"] by simp

end
