(* ===== verification/DoublyLinked.thy ===== *)
theory DoublyLinked
  imports Prelude
begin

text \<open>
  Doubly linked lists in a store: nodes are addressed by numbers, and each has a previous and a next
  node. The locale \<open>doubly_linked\<close> is the interface of a state that holds such nodes; a sequence of
  nodes is a segment of the state when the links of each node are its neighbours in the sequence.
  What the classes of the base layer do to a list (put a node in front or at the end, take a node out)
  is shown once here, for every such state.
\<close>

definition first_or :: "'a list \<Rightarrow> 'a option \<Rightarrow> 'a option" where
  "first_or xs q = (case xs of [] \<Rightarrow> q | x # _ \<Rightarrow> Some x)"

definition last_or :: "'a option \<Rightarrow> 'a list \<Rightarrow> 'a option" where
  "last_or p xs = (if xs = [] then p else Some (last xs))"

lemma first_or_simps [simp]: "first_or [] q = q" "first_or (x # xs) q = Some x"
  by (simp_all add: first_or_def)

lemma last_or_simps [simp]: "last_or p [] = p" "last_or p (xs @ [x]) = Some x" "last_or p (x # xs) = last_or (Some x) xs"
  by (simp_all add: last_or_def)

lemma first_or_append [simp]: "first_or (xs @ ys) q = first_or xs (first_or ys q)"
  by (cases xs) simp_all

lemma last_or_append [simp]: "last_or p (xs @ ys) = last_or (last_or p xs) ys"
  by (simp add: last_or_def)

lemma first_or_None [simp]: "first_or xs None = None \<longleftrightarrow> xs = []" "last_or None xs = None \<longleftrightarrow> xs = []"
  by (cases xs; simp add: last_or_def)+

lemma first_or_SomeD: "first_or xs None = Some x \<Longrightarrow> \<exists>ys. xs = x # ys"
  by (cases xs) simp_all

lemma last_or_SomeD: "last_or None xs = Some x \<Longrightarrow> \<exists>ys. xs = ys @ [x]"
  by (cases xs rule: rev_cases) simp_all

text \<open>A node of a list without repetitions is first or last exactly at the ends.\<close>

lemma ends_of_split:
  assumes "distinct (as @ r # bs)"
  shows "first_or (as @ r # bs) None = Some r \<longleftrightarrow> as = []" "last_or None (as @ r # bs) = Some r \<longleftrightarrow> bs = []"
proof -
  show "first_or (as @ r # bs) None = Some r \<longleftrightarrow> as = []" using assms by (cases as) auto
  show "last_or None (as @ r # bs) = Some r \<longleftrightarrow> bs = []" using assms by (cases bs rule: rev_cases) auto
qed

locale doubly_linked =
  fixes prev_of next_of :: "'s \<Rightarrow> nat \<Rightarrow> nat option"
    and set_prev set_next :: "nat \<Rightarrow> nat option \<Rightarrow> 's \<Rightarrow> 's"
  assumes prev_set [simp]: "prev_of (set_prev r q s) x = (if x = r then q else prev_of s x)"
      "prev_of (set_next r q s) x = prev_of s x"
    and next_set [simp]: "next_of (set_next r q s) x = (if x = r then q else next_of s x)"
      "next_of (set_prev r q s) x = next_of s x"
begin

primrec segment :: "'s \<Rightarrow> nat option \<Rightarrow> nat list \<Rightarrow> nat option \<Rightarrow> bool" where
  "segment s p [] n \<longleftrightarrow> True"
| "segment s p (r # rs) n \<longleftrightarrow> prev_of s r = p \<and> next_of s r = first_or rs n \<and> segment s (Some r) rs n"

lemma segment_append: "segment s p (rs @ ts) n \<longleftrightarrow> segment s p rs (first_or ts n) \<and> segment s (last_or p rs) ts n"
  by (induction rs arbitrary: p) auto

lemma segment_frame [simp]:
  "r \<notin> set rs \<Longrightarrow> segment (set_prev r q s) p rs n \<longleftrightarrow> segment s p rs n"
  "r \<notin> set rs \<Longrightarrow> segment (set_next r q s) p rs n \<longleftrightarrow> segment s p rs n"
  by (induction rs arbitrary: p) auto

lemma segment_cong:
  assumes "\<And>r. r \<in> set rs \<Longrightarrow> prev_of s r = prev_of t r \<and> next_of s r = next_of t r"
  shows "segment s p rs n \<longleftrightarrow> segment t p rs n"
  using assms by (induction rs arbitrary: p) auto

text \<open>The outer links of a segment.\<close>

lemma segment_set_prev:
  assumes "segment s p rs n" "rs = r # rs'" "distinct rs"
  shows "segment (set_prev r q s) q rs n"
  using assms by simp

lemma segment_set_next:
  assumes "segment s p rs n" "rs = rs' @ [r]" "distinct rs"
  shows "segment (set_next r q s) p rs q"
  using assms by (auto simp: segment_append)

lemma segment_neighbours:
  assumes "segment s None (as @ r # bs) None"
  shows "prev_of s r = last_or None as" "next_of s r = first_or bs None"
  using assms by (simp_all add: segment_append)

definition set_prev_opt :: "nat option \<Rightarrow> nat option \<Rightarrow> 's \<Rightarrow> 's" where
  "set_prev_opt r q s = (case r of None \<Rightarrow> s | Some r \<Rightarrow> set_prev r q s)"

definition set_next_opt :: "nat option \<Rightarrow> nat option \<Rightarrow> 's \<Rightarrow> 's" where
  "set_next_opt r q s = (case r of None \<Rightarrow> s | Some r \<Rightarrow> set_next r q s)"

lemma set_opt_simps [simp]:
  "set_prev_opt None q s = s" "set_prev_opt (Some r) q s = set_prev r q s"
  "set_next_opt None q s = s" "set_next_opt (Some r) q s = set_next r q s"
  by (simp_all add: set_prev_opt_def set_next_opt_def)

lemma segment_unlink_right:
  assumes "segment s p bs None" "distinct bs"
  shows "segment (set_prev_opt (first_or bs None) q s) q bs None"
  using assms by (cases bs) simp_all

lemma segment_unlink_left:
  assumes "segment s None as n" "distinct as"
  shows "segment (set_next_opt (last_or None as) q s) None as q"
  using assms by (cases as rule: rev_cases) (auto simp: segment_append)

text \<open>Taking the node \<open>r\<close> out, putting a node in front, and putting one at the end.\<close>

lemma segment_remove:
  assumes "segment s None (as @ r # bs) None" "distinct (as @ r # bs)"
  shows "segment (set_next_opt (last_or None as) (first_or bs None)
      (set_prev_opt (first_or bs None) (last_or None as) s)) None (as @ bs) None"
proof -
  have parts: "segment s None as (Some r)" "segment s (Some r) bs None" "set as \<inter> set bs = {}" "distinct as" "distinct bs"
    using assms by (simp_all add: segment_append)
  let ?s = "set_prev_opt (first_or bs None) (last_or None as) s"
  have "segment ?s (last_or None as) bs None" using segment_unlink_right [OF parts(2,5)] .
  moreover have "segment ?s None as (Some r)" using parts by (cases bs) auto
  ultimately have "segment (set_next_opt (last_or None as) (first_or bs None) ?s) (last_or None as) bs None
      \<and> segment (set_next_opt (last_or None as) (first_or bs None) ?s) None as (first_or bs None)"
    using segment_unlink_left [of ?s as "Some r"] parts by (cases as rule: rev_cases) (auto simp del: set_opt_simps(1,2))
  then show ?thesis by (simp add: segment_append)
qed

lemma segment_push_front:
  assumes "segment s None rs None" "distinct (r # rs)" "prev_of s r = None" "next_of s r = first_or rs None"
  shows "segment (set_prev_opt (first_or rs None) (Some r) s) None (r # rs) None"
  using assms by (cases rs) auto

lemma segment_push_back:
  assumes "segment s None rs None" "distinct (rs @ [r])" "prev_of s r = last_or None rs" "next_of s r = None"
  shows "segment (set_next_opt (last_or None rs) (Some r) s) None (rs @ [r]) None"
  using assms by (cases rs rule: rev_cases) (auto simp: segment_append)

end

end
