(* ===== verification/JsMaps.thy ===== *)
theory JsMaps
  imports Prelude "HOL-Library.AList"
begin

text \<open>
  \<open>src/patched-vscode/src/vs/base/common/map.ts\<close>: the small classes on the built-in \<open>Map\<close> and \<open>Set\<close>.

  A \<open>Map\<close> is the list of its entries in the order of insertion, which is the order of iteration:
  setting a key that is there keeps its place. Keys are compared by equality.
\<close>

type_synonym ('k, 'v) js_map = "('k \<times> 'v) list"

definition map_new :: "('k, 'v) js_map" where
  "map_new = []"

definition map_get :: "'k \<Rightarrow> ('k, 'v) js_map \<Rightarrow> 'v option" where
  "map_get k m = map_of m k"

definition map_has :: "'k \<Rightarrow> ('k, 'v) js_map \<Rightarrow> bool" where
  "map_has k m \<longleftrightarrow> map_of m k \<noteq> None"

definition map_set :: "'k \<Rightarrow> 'v \<Rightarrow> ('k, 'v) js_map \<Rightarrow> ('k, 'v) js_map" where
  "map_set k v m = AList.update k v m"

definition map_delete :: "'k \<Rightarrow> ('k, 'v) js_map \<Rightarrow> ('k, 'v) js_map" where
  "map_delete k m = AList.delete k m"

lemma map_get_simps [simp]:
  "map_get k map_new = None" "map_get k (map_set k' v m) = (if k = k' then Some v else map_get k m)"
  "map_get k (map_delete k' m) = (if k = k' then None else map_get k m)"
  by (auto simp: map_get_def map_set_def map_delete_def map_new_def update_conv' delete_conv')

lemma map_has_get: "map_has k m \<longleftrightarrow> map_get k m \<noteq> None"
  by (simp add: map_has_def map_get_def)


definition map_size :: "('k, 'v) js_map \<Rightarrow> nat" where
  "map_size m = length m"

text \<open>A \<open>Set\<close>: the list of its elements in the order of insertion.\<close>

type_synonym 'a js_set = "'a list"

definition set_add :: "'a \<Rightarrow> 'a js_set \<Rightarrow> 'a js_set" where
  "set_add x xs = (if x \<in> set xs then xs else xs @ [x])"

definition set_delete :: "'a \<Rightarrow> 'a js_set \<Rightarrow> 'a js_set" where
  "set_delete x xs = filter (\<lambda>y. y \<noteq> x) xs"

lemma set_of_js_set [simp]: "set (set_add x xs) = insert x (set xs)" "set (set_delete x xs) = set xs - {x}"
  by (auto simp: set_add_def set_delete_def)

lemma distinct_js_set [simp]: "distinct xs \<Longrightarrow> distinct (set_add x xs)" "distinct xs \<Longrightarrow> distinct (set_delete x xs)"
  by (auto simp: set_add_def set_delete_def)

section \<open>Functions\<close>

definition getOrSet :: "('k, 'v) js_map \<Rightarrow> 'k \<Rightarrow> 'v \<Rightarrow> 'v \<times> ('k, 'v) js_map" where
  "getOrSet m key v = (case map_get key m of None \<Rightarrow> (v, map_set key v m) | Some result \<Rightarrow> (result, m))"

definition mapToString :: "('k \<Rightarrow> string) \<Rightarrow> ('v \<Rightarrow> string) \<Rightarrow> ('k, 'v) js_map \<Rightarrow> string" where
  "mapToString show_key show_value m =
     ''Map('' @ show_nat (map_size m) @ '') {'' @ js_join '', '' (map (\<lambda>(k, v). show_key k @ '' => '' @ show_value v) m) @ ''}''"

definition setToString :: "('k \<Rightarrow> string) \<Rightarrow> 'k js_set \<Rightarrow> string" where
  "setToString show_key xs = ''Set('' @ show_nat (length xs) @ '') {'' @ js_join '', '' (map show_key xs) @ ''}''"

text \<open>The first argument tells whether both are the same object. Values are compared by equality.\<close>

definition mapsStrictEqualIgnoreOrder :: "bool \<Rightarrow> ('k, 'v) js_map \<Rightarrow> ('k, 'v) js_map \<Rightarrow> bool" where
  "mapsStrictEqualIgnoreOrder same a b =
     (if same then True
      else if map_size a \<noteq> map_size b then False
      else list_all (\<lambda>(k, v). map_has k b \<and> map_get k b = Some v) a \<and> list_all (\<lambda>(k, _). map_has k a) b)"

section \<open>Maps and sets of resources\<close>

record ('u, 'v) resource_map =
  rm_map :: "(string, 'u \<times> 'v) js_map"
  rm_toKey :: "'u \<Rightarrow> string"

definition ResourceMap_new :: "('u \<Rightarrow> string) \<Rightarrow> ('u, 'v) resource_map" where
  "ResourceMap_new toKey = \<lparr>rm_map = map_new, rm_toKey = toKey\<rparr>"

definition ResourceMap_copy :: "('u, 'v) resource_map \<Rightarrow> ('u \<Rightarrow> string) \<Rightarrow> ('u, 'v) resource_map" where
  "ResourceMap_copy other toKey = \<lparr>rm_map = rm_map other, rm_toKey = toKey\<rparr>"

definition ResourceMap_set :: "'u \<Rightarrow> 'v \<Rightarrow> ('u, 'v) resource_map \<Rightarrow> ('u, 'v) resource_map" where
  "ResourceMap_set resource v m = m\<lparr>rm_map := map_set (rm_toKey m resource) (resource, v) (rm_map m)\<rparr>"

definition ResourceMap_of_entries :: "('u \<times> 'v) list \<Rightarrow> ('u \<Rightarrow> string) \<Rightarrow> ('u, 'v) resource_map" where
  "ResourceMap_of_entries es toKey = foldl (\<lambda>m (resource, v). ResourceMap_set resource v m) (ResourceMap_new toKey) es"

definition ResourceMap_get :: "'u \<Rightarrow> ('u, 'v) resource_map \<Rightarrow> 'v option" where
  "ResourceMap_get resource m = map_option snd (map_get (rm_toKey m resource) (rm_map m))"

definition ResourceMap_has :: "'u \<Rightarrow> ('u, 'v) resource_map \<Rightarrow> bool" where
  "ResourceMap_has resource m = map_has (rm_toKey m resource) (rm_map m)"

definition ResourceMap_size :: "('u, 'v) resource_map \<Rightarrow> nat" where
  "ResourceMap_size m = map_size (rm_map m)"

definition ResourceMap_clear :: "('u, 'v) resource_map \<Rightarrow> ('u, 'v) resource_map" where
  "ResourceMap_clear m = m\<lparr>rm_map := map_new\<rparr>"

definition ResourceMap_delete :: "'u \<Rightarrow> ('u, 'v) resource_map \<Rightarrow> bool \<times> ('u, 'v) resource_map" where
  "ResourceMap_delete resource m =
     (map_has (rm_toKey m resource) (rm_map m), m\<lparr>rm_map := map_delete (rm_toKey m resource) (rm_map m)\<rparr>)"

definition ResourceMap_values :: "('u, 'v) resource_map \<Rightarrow> 'v list" where
  "ResourceMap_values m = map (\<lambda>(_, e). snd e) (rm_map m)"

definition ResourceMap_keys :: "('u, 'v) resource_map \<Rightarrow> 'u list" where
  "ResourceMap_keys m = map (\<lambda>(_, e). fst e) (rm_map m)"

definition ResourceMap_entries :: "('u, 'v) resource_map \<Rightarrow> ('u \<times> 'v) list" where
  "ResourceMap_entries m = map snd (rm_map m)"

text \<open>\<open>ResourceSet\<close>: a \<open>ResourceMap\<close> from each resource to itself.\<close>

type_synonym 'u resource_set = "('u, 'u) resource_map"

definition ResourceSet_add :: "'u \<Rightarrow> 'u resource_set \<Rightarrow> 'u resource_set" where
  "ResourceSet_add v s = ResourceMap_set v v s"

definition ResourceSet_of_entries :: "'u list \<Rightarrow> ('u \<Rightarrow> string) \<Rightarrow> 'u resource_set" where
  "ResourceSet_of_entries es toKey = foldl (\<lambda>s v. ResourceSet_add v s) (ResourceMap_new toKey) es"

definition ResourceSet_clear :: "'u resource_set \<Rightarrow> 'u resource_set" where
  "ResourceSet_clear s = ResourceMap_clear s"

definition ResourceSet_delete :: "'u \<Rightarrow> 'u resource_set \<Rightarrow> bool \<times> 'u resource_set" where
  "ResourceSet_delete v s = ResourceMap_delete v s"

definition ResourceSet_has :: "'u \<Rightarrow> 'u resource_set \<Rightarrow> bool" where
  "ResourceSet_has v s = ResourceMap_has v s"

definition ResourceSet_values :: "'u resource_set \<Rightarrow> 'u list" where
  "ResourceSet_values s = ResourceMap_keys s"

section \<open>Counting sets\<close>

type_synonym 'a counter_set = "('a, int) js_map"

definition CounterSet_add :: "'a \<Rightarrow> 'a counter_set \<Rightarrow> 'a counter_set" where
  "CounterSet_add v m = map_set v ((case map_get v m of None \<Rightarrow> 0 | Some n \<Rightarrow> n) + 1) m"

definition CounterSet_delete :: "'a \<Rightarrow> 'a counter_set \<Rightarrow> bool \<times> 'a counter_set" where
  "CounterSet_delete v m =
     (let counter = (case map_get v m of None \<Rightarrow> 0 | Some n \<Rightarrow> n) in
      if counter = 0 then (False, m)
      else let counter = counter - 1 in
           (True, if counter = 0 then map_delete v m else map_set v counter m))"

definition CounterSet_has :: "'a \<Rightarrow> 'a counter_set \<Rightarrow> bool" where
  "CounterSet_has v m = map_has v m"

section \<open>Maps in both directions\<close>

record ('k, 'v) bidirectional_map =
  bm_m1 :: "('k, 'v) js_map"
  bm_m2 :: "('v, 'k) js_map"

definition BidirectionalMap_set :: "'k \<Rightarrow> 'v \<Rightarrow> ('k, 'v) bidirectional_map \<Rightarrow> ('k, 'v) bidirectional_map" where
  "BidirectionalMap_set k v b = b\<lparr>bm_m1 := map_set k v (bm_m1 b), bm_m2 := map_set v k (bm_m2 b)\<rparr>"

definition BidirectionalMap_new :: "('k \<times> 'v) list \<Rightarrow> ('k, 'v) bidirectional_map" where
  "BidirectionalMap_new es = foldl (\<lambda>b (k, v). BidirectionalMap_set k v b) \<lparr>bm_m1 = map_new, bm_m2 = map_new\<rparr> es"

definition BidirectionalMap_clear :: "('k, 'v) bidirectional_map \<Rightarrow> ('k, 'v) bidirectional_map" where
  "BidirectionalMap_clear b = b\<lparr>bm_m1 := map_new, bm_m2 := map_new\<rparr>"

definition BidirectionalMap_get :: "'k \<Rightarrow> ('k, 'v) bidirectional_map \<Rightarrow> 'v option" where
  "BidirectionalMap_get k b = map_get k (bm_m1 b)"

definition BidirectionalMap_getKey :: "'v \<Rightarrow> ('k, 'v) bidirectional_map \<Rightarrow> 'k option" where
  "BidirectionalMap_getKey v b = map_get v (bm_m2 b)"

definition BidirectionalMap_delete :: "'k \<Rightarrow> ('k, 'v) bidirectional_map \<Rightarrow> bool \<times> ('k, 'v) bidirectional_map" where
  "BidirectionalMap_delete k b =
     (case map_get k (bm_m1 b) of
        None \<Rightarrow> (False, b)
      | Some v \<Rightarrow> (True, b\<lparr>bm_m1 := map_delete k (bm_m1 b), bm_m2 := map_delete v (bm_m2 b)\<rparr>))"

section \<open>Maps to sets\<close>

type_synonym ('k, 'v) set_map = "('k, 'v js_set) js_map"

definition SetMap_add :: "'k \<Rightarrow> 'v \<Rightarrow> ('k, 'v) set_map \<Rightarrow> ('k, 'v) set_map" where
  "SetMap_add k v m = (case map_get k m of None \<Rightarrow> map_set k (set_add v []) m | Some vs \<Rightarrow> map_set k (set_add v vs) m)"

definition SetMap_delete :: "'k \<Rightarrow> 'v \<Rightarrow> ('k, 'v) set_map \<Rightarrow> ('k, 'v) set_map" where
  "SetMap_delete k v m =
     (case map_get k m of
        None \<Rightarrow> m
      | Some vs \<Rightarrow> let vs = set_delete v vs in if length vs = 0 then map_delete k m else map_set k vs m)"

definition SetMap_get :: "'k \<Rightarrow> ('k, 'v) set_map \<Rightarrow> 'v js_set" where
  "SetMap_get k m = (case map_get k m of None \<Rightarrow> [] | Some vs \<Rightarrow> vs)"

section \<open>Facts\<close>

lemma getOrSet_gets: "map_get key (snd (getOrSet m key v)) = Some (fst (getOrSet m key v))"
  by (simp add: getOrSet_def split: option.split)

lemma maps_equal_iff:
  assumes "distinct (map fst a)" "distinct (map fst b)"
  shows "mapsStrictEqualIgnoreOrder False a b \<longleftrightarrow> map_of a = map_of b"
proof
  assume eq: "mapsStrictEqualIgnoreOrder False a b"
  then have a: "\<And>k v. (k, v) \<in> set a \<Longrightarrow> map_of b k = Some v" and b: "\<And>k v. (k, v) \<in> set b \<Longrightarrow> map_of a k \<noteq> None"
    by (auto simp: mapsStrictEqualIgnoreOrder_def map_get_def map_has_def list_all_iff split: if_splits)
  have "map_of a k = map_of b k" for k
  proof (cases "map_of a k")
    case None
    with b [of k] show ?thesis by (metis map_of_SomeD not_None_eq)
  next
    case (Some v)
    with a map_of_SomeD [OF Some] show ?thesis by simp
  qed
  then show "map_of a = map_of b" by blast
next
  assume eq: "map_of a = map_of b"
  then have "set a = set b" using assms by (metis map_of_eqI map_of_inject_set)
  moreover from this have "length a = length b"
    using assms by (metis distinct_card distinct_map)
  ultimately show "mapsStrictEqualIgnoreOrder False a b"
    using assms eq by (auto simp: mapsStrictEqualIgnoreOrder_def map_size_def map_has_def map_get_def list_all_iff)
qed

lemma ResourceMap_get_set:
  "ResourceMap_get r (ResourceMap_set r' v m) = (if rm_toKey m r = rm_toKey m r' then Some v else ResourceMap_get r m)"
  by (simp add: ResourceMap_get_def ResourceMap_set_def)

text \<open>\<open>CounterSet\<close> counts the elements of a multiset, \<open>SetMap\<close> holds a relation.\<close>

definition counts :: "'a counter_set \<Rightarrow> 'a multiset \<Rightarrow> bool" where
  "counts m M \<longleftrightarrow> (\<forall>x. map_get x m = (if x \<in># M then Some (int (count M x)) else None))"

definition lists :: "'v js_set option \<Rightarrow> 'v set \<Rightarrow> bool" where
  "lists vs V \<longleftrightarrow> (case vs of None \<Rightarrow> V = {} | Some vs \<Rightarrow> vs \<noteq> [] \<and> distinct vs \<and> set vs = V)"

definition relates :: "('k, 'v) set_map \<Rightarrow> ('k \<times> 'v) set \<Rightarrow> bool" where
  "relates m R \<longleftrightarrow> (\<forall>k. lists (map_get k m) (R `` {k}))"

definition inverse_maps :: "('k, 'v) bidirectional_map \<Rightarrow> bool" where
  "inverse_maps b \<longleftrightarrow> (\<forall>k v. BidirectionalMap_get k b = Some v \<longleftrightarrow> BidirectionalMap_getKey v b = Some k)"

lemma CounterSet_counts:
  assumes "counts m M"
  shows "counts (CounterSet_add x m) (add_mset x M)" "CounterSet_has x m \<longleftrightarrow> x \<in># M"
    "fst (CounterSet_delete x m) \<longleftrightarrow> x \<in># M" "counts (snd (CounterSet_delete x m)) (M - {#x#})"
proof -
  have x: "map_get x m = (if x \<in># M then Some (int (count M x)) else None)" using assms by (simp add: counts_def)
  show "counts (CounterSet_add x m) (add_mset x M)" "CounterSet_has x m \<longleftrightarrow> x \<in># M"
    using assms x by (auto simp: counts_def CounterSet_add_def CounterSet_has_def map_has_get not_in_iff)
  show "fst (CounterSet_delete x m) \<longleftrightarrow> x \<in># M" using x by (simp add: CounterSet_delete_def Let_def)
  show "counts (snd (CounterSet_delete x m)) (M - {#x#})"
  proof (cases "x \<in># M")
    case True
    then obtain N where N: "M = add_mset x N" by (metis mset_add)
    with assms x show ?thesis
      by (auto simp: counts_def CounterSet_delete_def Let_def not_in_iff)
  qed (use assms x in \<open>simp add: CounterSet_delete_def diff_single_trivial\<close>)
qed

lemma SetMap_relates:
  assumes "relates m R"
  shows "relates (SetMap_add k v m) (insert (k, v) R)" "relates (SetMap_delete k v m) (R - {(k, v)})"
    "w \<in> set (SetMap_get k m) \<longleftrightarrow> (k, w) \<in> R"
proof -
  have k: "lists (map_get k m) (R `` {k})" using assms by (simp add: relates_def)
  have ins: "insert (k, v) R `` {k'} = (if k' = k then insert v (R `` {k}) else R `` {k'})"
    and del: "(R - {(k, v)}) `` {k'} = (if k' = k then R `` {k} - {v} else R `` {k'})" for k' by auto
  have "lists (map_get k (SetMap_add k v m)) (insert v (R `` {k}))"
    using k by (auto simp: lists_def SetMap_add_def set_add_def split: option.splits)
  moreover have "map_get k' (SetMap_add k v m) = map_get k' m" if "k' \<noteq> k" for k'
    using that by (simp add: SetMap_add_def split: option.split)
  ultimately show "relates (SetMap_add k v m) (insert (k, v) R)" using assms by (simp add: relates_def ins)
  have "lists (map_get k (SetMap_delete k v m)) (R `` {k} - {v})"
    using k by (auto simp: lists_def SetMap_delete_def set_delete_def Let_def filter_empty_conv split: option.splits)
  moreover have "map_get k' (SetMap_delete k v m) = map_get k' m" if "k' \<noteq> k" for k'
    using that by (simp add: SetMap_delete_def Let_def split: option.split)
  ultimately show "relates (SetMap_delete k v m) (R - {(k, v)})" using assms by (simp add: relates_def del)
  show "w \<in> set (SetMap_get k m) \<longleftrightarrow> (k, w) \<in> R" using k by (auto simp: SetMap_get_def lists_def split: option.splits)
qed

text \<open>
  A \<open>BidirectionalMap\<close> stays a pair of inverse maps while new keys are set to new values. Setting a
  key again leaves its old value behind in the other direction.
\<close>

lemma BidirectionalMap_inverse:
  assumes "inverse_maps b"
  shows "BidirectionalMap_get k b = None \<Longrightarrow> BidirectionalMap_getKey v b = None \<Longrightarrow> inverse_maps (BidirectionalMap_set k v b)"
    "inverse_maps (snd (BidirectionalMap_delete k b))" "inverse_maps (BidirectionalMap_clear b)"
proof -
  have inv: "map_get k (bm_m1 b) = Some v \<longleftrightarrow> map_get v (bm_m2 b) = Some k" for k v
    using assms by (simp add: inverse_maps_def BidirectionalMap_get_def BidirectionalMap_getKey_def)
  note defs = inverse_maps_def BidirectionalMap_get_def BidirectionalMap_getKey_def
  show "inverse_maps (BidirectionalMap_set k v b)" if "BidirectionalMap_get k b = None" "BidirectionalMap_getKey v b = None"
    using that inv by (auto simp: defs BidirectionalMap_set_def) (metis option.distinct(1))+
  show "inverse_maps (snd (BidirectionalMap_delete k b))"
  proof (cases "map_get k (bm_m1 b)")
    case (Some v)
    then have "snd (BidirectionalMap_delete k b) = b\<lparr>bm_m1 := map_delete k (bm_m1 b), bm_m2 := map_delete v (bm_m2 b)\<rparr>"
      by (simp add: BidirectionalMap_delete_def)
    moreover have "map_get v (bm_m2 b) = Some k" using Some inv by simp
    ultimately show ?thesis using inv by (auto simp: defs) (metis option.inject)
  qed (use assms in \<open>simp add: BidirectionalMap_delete_def\<close>)
  show "inverse_maps (BidirectionalMap_clear b)" by (simp add: defs BidirectionalMap_clear_def)
qed

lemma BidirectionalMap_stale_value:
  "let b = BidirectionalMap_set ''k'' 2 (BidirectionalMap_set ''k'' (1 :: int) (BidirectionalMap_new []))
   in BidirectionalMap_get ''k'' b = Some 2 \<and> BidirectionalMap_getKey 1 b = Some ''k''"
  by code_simp

end
