(* ===== verification/LinkedMaps.thy ===== *)
theory LinkedMaps
  imports DoublyLinked JsMaps
begin

text \<open>
  \<open>src/patched-vscode/src/vs/base/common/map.ts\<close>: the class \<open>LinkedMap\<close>, a map whose entries are also
  linked to a list.

  The items live in a store, a map from addresses to items, as the \<open>Map\<close> and the links share them. A
  method takes the state and gives a result or the exception it throws, with the state it leaves in
  both cases; reading a field of \<open>undefined\<close> is an exception too. The state has the type of a record
  that can be extended, as the caches do.

  \<open>represents s al\<close> relates a state to the ordered association list it stands for; in such states
  nothing is thrown, and every operation is one on association lists (\<open>LinkedMap_refines\<close>).
\<close>

section \<open>State\<close>

record ('k, 'v) item =
  item_previous :: "nat option"
  item_next :: "nat option"
  item_key :: 'k
  item_value :: 'v

datatype touch = Touch_None | AsOld | AsNew

record ('k, 'v) linked_map =
  lm_items :: "nat \<rightharpoonup> ('k, 'v) item"
  lm_count :: nat
  lm_map :: "('k, nat) js_map"
  lm_head :: "nat option"
  lm_tail :: "nat option"
  lm_size :: int
  lm_state :: nat

datatype map_exn = Invalid_list | Modified_during_iteration | Undefined_access | Callback_exn

type_synonym ('s, 'a) step = "'s \<Rightarrow> (map_exn + 'a) \<times> 's"

definition sreturn :: "'a \<Rightarrow> ('s, 'a) step" where
  "sreturn x s = (Inr x, s)"

definition sthrow :: "map_exn \<Rightarrow> ('s, 'a) step" where
  "sthrow e s = (Inl e, s)"

definition sbind :: "('s, 'a) step \<Rightarrow> ('a \<Rightarrow> ('s, 'b) step) \<Rightarrow> ('s, 'b) step" where
  "sbind m f s = (case m s of (Inl e, s) \<Rightarrow> (Inl e, s) | (Inr x, s) \<Rightarrow> f x s)"

definition smodify :: "('s \<Rightarrow> 's) \<Rightarrow> ('s, unit) step" where
  "smodify f s = (Inr (), f s)"

definition LinkedMap_new :: "('k, 'v) linked_map" where
  "LinkedMap_new = \<lparr>lm_items = Map.empty, lm_count = 0, lm_map = map_new, lm_head = None, lm_tail = None,
     lm_size = 0, lm_state = 0\<rparr>"

definition item_at :: "('k, 'v, 'z) linked_map_scheme \<Rightarrow> nat \<Rightarrow> ('k, 'v) item" where
  "item_at s r = the (lm_items s r)"

definition next_item :: "('k, 'v, 'z) linked_map_scheme \<Rightarrow> nat \<Rightarrow> nat option" where
  "next_item s r = item_next (item_at s r)"

definition previous_item :: "('k, 'v, 'z) linked_map_scheme \<Rightarrow> nat \<Rightarrow> nat option" where
  "previous_item s r = item_previous (item_at s r)"

definition put_item :: "nat \<Rightarrow> ('k, 'v) item \<Rightarrow> ('k, 'v, 'z) linked_map_scheme \<Rightarrow> ('k, 'v, 'z) linked_map_scheme" where
  "put_item r it s = s\<lparr>lm_items := (lm_items s)(r \<mapsto> it)\<rparr>"

definition set_next :: "nat \<Rightarrow> nat option \<Rightarrow> ('k, 'v, 'z) linked_map_scheme \<Rightarrow> ('k, 'v, 'z) linked_map_scheme" where
  "set_next r q s = put_item r ((item_at s r)\<lparr>item_next := q\<rparr>) s"

definition set_previous :: "nat \<Rightarrow> nat option \<Rightarrow> ('k, 'v, 'z) linked_map_scheme \<Rightarrow> ('k, 'v, 'z) linked_map_scheme" where
  "set_previous r q s = put_item r ((item_at s r)\<lparr>item_previous := q\<rparr>) s"

text \<open>\<open>r.next = q\<close> and \<open>r.previous = q\<close>, where \<open>r\<close> may be \<open>undefined\<close>.\<close>

definition assign_next :: "nat option \<Rightarrow> nat option \<Rightarrow> (('k, 'v, 'z) linked_map_scheme, unit) step" where
  "assign_next r q = (case r of None \<Rightarrow> sthrow Undefined_access | Some r \<Rightarrow> smodify (set_next r q))"

definition assign_previous :: "nat option \<Rightarrow> nat option \<Rightarrow> (('k, 'v, 'z) linked_map_scheme, unit) step" where
  "assign_previous r q = (case r of None \<Rightarrow> sthrow Undefined_access | Some r \<Rightarrow> smodify (set_previous r q))"

section \<open>Operations on the list\<close>

definition changed :: "('k, 'v, 'z) linked_map_scheme \<Rightarrow> ('k, 'v, 'z) linked_map_scheme" where
  "changed s = s\<lparr>lm_state := lm_state s + 1\<rparr>"

definition LinkedMap_clear :: "('k, 'v, 'z) linked_map_scheme \<Rightarrow> ('k, 'v, 'z) linked_map_scheme" where
  "LinkedMap_clear s = changed (s\<lparr>lm_map := map_new, lm_head := None, lm_tail := None, lm_size := 0\<rparr>)"

definition addItemFirst :: "nat \<Rightarrow> (('k, 'v, 'z) linked_map_scheme, unit) step" where
  "addItemFirst item s =
     sbind
       (case (lm_head s, lm_tail s) of
          (None, None) \<Rightarrow> smodify (\<lambda>s. s\<lparr>lm_tail := Some item\<rparr>)
        | (None, Some _) \<Rightarrow> sthrow Invalid_list
        | (Some head, _) \<Rightarrow> smodify (\<lambda>s. set_previous head (Some item) (set_next item (Some head) s)))
       (\<lambda>_. smodify (\<lambda>s. changed (s\<lparr>lm_head := Some item\<rparr>))) s"

definition addItemLast :: "nat \<Rightarrow> (('k, 'v, 'z) linked_map_scheme, unit) step" where
  "addItemLast item s =
     sbind
       (case (lm_tail s, lm_head s) of
          (None, None) \<Rightarrow> smodify (\<lambda>s. s\<lparr>lm_head := Some item\<rparr>)
        | (None, Some _) \<Rightarrow> sthrow Invalid_list
        | (Some tail, _) \<Rightarrow> smodify (\<lambda>s. set_next tail (Some item) (set_previous item (Some tail) s)))
       (\<lambda>_. smodify (\<lambda>s. changed (s\<lparr>lm_tail := Some item\<rparr>))) s"

definition removeItem :: "nat \<Rightarrow> (('k, 'v, 'z) linked_map_scheme, unit) step" where
  "removeItem item s =
     sbind
       (if lm_head s = Some item \<and> lm_tail s = Some item then smodify (\<lambda>s. s\<lparr>lm_head := None, lm_tail := None\<rparr>)
        else if lm_head s = Some item then
          (case next_item s item of
             None \<Rightarrow> sthrow Invalid_list
           | Some nxt \<Rightarrow> smodify (\<lambda>s. (set_previous nxt None s)\<lparr>lm_head := Some nxt\<rparr>))
        else if lm_tail s = Some item then
          (case previous_item s item of
             None \<Rightarrow> sthrow Invalid_list
           | Some prv \<Rightarrow> smodify (\<lambda>s. (set_next prv None s)\<lparr>lm_tail := Some prv\<rparr>))
        else
          (case (next_item s item, previous_item s item) of
             (Some nxt, Some prv) \<Rightarrow> smodify (\<lambda>s. set_next prv (Some nxt) (set_previous nxt (Some prv) s))
           | _ \<Rightarrow> sthrow Invalid_list))
       (\<lambda>_. smodify (\<lambda>s. changed (set_previous item None (set_next item None s)))) s"

definition touch_item :: "nat \<Rightarrow> touch \<Rightarrow> (('k, 'v, 'z) linked_map_scheme, unit) step" where
  "touch_item item touch s =
     (if lm_head s = None \<or> lm_tail s = None then sthrow Invalid_list s
      else
        case touch of
          Touch_None \<Rightarrow> sreturn () s
        | AsOld \<Rightarrow>
            if lm_head s = Some item then sreturn () s
            else
              let nxt = next_item s item; prv = previous_item s item in
              sbind (if lm_tail s = Some item
                     then sbind (assign_next prv None) (\<lambda>_. smodify (\<lambda>s. s\<lparr>lm_tail := prv\<rparr>))
                     else sbind (assign_previous nxt prv) (\<lambda>_. assign_next prv nxt)) (\<lambda>_.
              sbind (smodify (\<lambda>s. set_next item (lm_head s) (set_previous item None s))) (\<lambda>_.
              sbind (\<lambda>s. assign_previous (lm_head s) (Some item) s) (\<lambda>_.
              smodify (\<lambda>s. changed (s\<lparr>lm_head := Some item\<rparr>))))) s
        | AsNew \<Rightarrow>
            if lm_tail s = Some item then sreturn () s
            else
              let nxt = next_item s item; prv = previous_item s item in
              sbind (if lm_head s = Some item
                     then sbind (assign_previous nxt None) (\<lambda>_. smodify (\<lambda>s. s\<lparr>lm_head := nxt\<rparr>))
                     else sbind (assign_previous nxt prv) (\<lambda>_. assign_next prv nxt)) (\<lambda>_.
              sbind (smodify (\<lambda>s. set_previous item (lm_tail s) (set_next item None s))) (\<lambda>_.
              sbind (\<lambda>s. assign_next (lm_tail s) (Some item) s) (\<lambda>_.
              smodify (\<lambda>s. changed (s\<lparr>lm_tail := Some item\<rparr>))))) s)"

section \<open>The methods\<close>

definition LinkedMap_isEmpty :: "('k, 'v, 'z) linked_map_scheme \<Rightarrow> bool" where
  "LinkedMap_isEmpty s \<longleftrightarrow> lm_head s = None \<and> lm_tail s = None"

definition value_of :: "('k, 'v, 'z) linked_map_scheme \<Rightarrow> nat \<Rightarrow> 'v" where
  "value_of s r = item_value (item_at s r)"

definition LinkedMap_first :: "('k, 'v, 'z) linked_map_scheme \<Rightarrow> 'v option" where
  "LinkedMap_first s = map_option (value_of s) (lm_head s)"

definition LinkedMap_last :: "('k, 'v, 'z) linked_map_scheme \<Rightarrow> 'v option" where
  "LinkedMap_last s = map_option (value_of s) (lm_tail s)"

definition LinkedMap_has :: "'k \<Rightarrow> ('k, 'v, 'z) linked_map_scheme \<Rightarrow> bool" where
  "LinkedMap_has k s = map_has k (lm_map s)"

definition LinkedMap_get :: "'k \<Rightarrow> touch \<Rightarrow> (('k, 'v, 'z) linked_map_scheme, 'v option) step" where
  "LinkedMap_get k touch s =
     (case map_get k (lm_map s) of
        None \<Rightarrow> sreturn None s
      | Some item \<Rightarrow>
          sbind (if touch \<noteq> Touch_None then touch_item item touch else sreturn ()) (\<lambda>_ s. sreturn (Some (value_of s item)) s) s)"

text \<open>\<open>{ key, value, next: undefined, previous: undefined }\<close>, at a new address.\<close>

definition new_item :: "'k \<Rightarrow> 'v \<Rightarrow> (('k, 'v, 'z) linked_map_scheme, nat) step" where
  "new_item k v s = (Inr (lm_count s),
     put_item (lm_count s) \<lparr>item_previous = None, item_next = None, item_key = k, item_value = v\<rparr> (s\<lparr>lm_count := lm_count s + 1\<rparr>))"

definition LinkedMap_set :: "'k \<Rightarrow> 'v \<Rightarrow> touch \<Rightarrow> (('k, 'v, 'z) linked_map_scheme, unit) step" where
  "LinkedMap_set k v touch s =
     (case map_get k (lm_map s) of
        Some item \<Rightarrow>
          sbind (smodify (\<lambda>s. put_item item ((item_at s item)\<lparr>item_value := v\<rparr>) s)) (\<lambda>_.
          if touch \<noteq> Touch_None then touch_item item touch else sreturn ()) s
      | None \<Rightarrow>
          sbind (new_item k v) (\<lambda>item.
          sbind (case touch of Touch_None \<Rightarrow> addItemLast item | AsOld \<Rightarrow> addItemFirst item | AsNew \<Rightarrow> addItemLast item) (\<lambda>_.
          smodify (\<lambda>s. s\<lparr>lm_map := map_set k item (lm_map s), lm_size := lm_size s + 1\<rparr>))) s)"

definition LinkedMap_remove :: "'k \<Rightarrow> (('k, 'v, 'z) linked_map_scheme, 'v option) step" where
  "LinkedMap_remove k s =
     (case map_get k (lm_map s) of
        None \<Rightarrow> sreturn None s
      | Some item \<Rightarrow>
          sbind (smodify (\<lambda>s. s\<lparr>lm_map := map_delete k (lm_map s)\<rparr>)) (\<lambda>_.
          sbind (removeItem item) (\<lambda>_ s.
          sreturn (Some (value_of s item)) (s\<lparr>lm_size := lm_size s - 1\<rparr>))) s)"

text \<open>\<open>!!this.remove(key)\<close>: which values count as true is a parameter.\<close>

definition LinkedMap_delete :: "('v \<Rightarrow> bool) \<Rightarrow> 'k \<Rightarrow> (('k, 'v, 'z) linked_map_scheme, bool) step" where
  "LinkedMap_delete truthy k =
     sbind (LinkedMap_remove k) (\<lambda>v. sreturn (case v of None \<Rightarrow> False | Some v \<Rightarrow> truthy v))"

definition LinkedMap_shift :: "(('k, 'v, 'z) linked_map_scheme, 'v option) step" where
  "LinkedMap_shift s =
     (case (lm_head s, lm_tail s) of
        (None, None) \<Rightarrow> sreturn None s
      | (Some item, Some _) \<Rightarrow>
          sbind (smodify (\<lambda>s. s\<lparr>lm_map := map_delete (item_key (item_at s item)) (lm_map s)\<rparr>)) (\<lambda>_.
          sbind (removeItem item) (\<lambda>_ s.
          sreturn (Some (value_of s item)) (s\<lparr>lm_size := lm_size s - 1\<rparr>))) s
      | _ \<Rightarrow> sthrow Invalid_list s)"

text \<open>
  \<open>forEach\<close>: the callback works on the map and on a state of its own. The loop need not end when the
  callback breaks the links.
\<close>

type_synonym ('s, 'k, 'v, 'c) callback = "'v \<Rightarrow> 'k \<Rightarrow> 's \<Rightarrow> 'c \<Rightarrow> bool \<times> 's \<times> 'c"

partial_function (option) forEach_loop ::
  "(('k, 'v, 'z) linked_map_scheme, 'k, 'v, 'c) callback \<Rightarrow> nat \<Rightarrow> nat option \<Rightarrow> ('k, 'v, 'z) linked_map_scheme \<Rightarrow> 'c
     \<Rightarrow> ((map_exn + unit) \<times> ('k, 'v, 'z) linked_map_scheme \<times> 'c) option" where
  "forEach_loop callbackfn state current s c =
     (case current of
        None \<Rightarrow> Some (Inr (), s, c)
      | Some r \<Rightarrow>
          (case callbackfn (value_of s r) (item_key (item_at s r)) s c of
             (threw, s, c) \<Rightarrow>
               if threw then Some (Inl Callback_exn, s, c)
               else if lm_state s \<noteq> state then Some (Inl Modified_during_iteration, s, c)
               else forEach_loop callbackfn state (next_item s r) s c))"

definition LinkedMap_forEach ::
  "(('k, 'v, 'z) linked_map_scheme, 'k, 'v, 'c) callback \<Rightarrow> ('k, 'v, 'z) linked_map_scheme \<Rightarrow> 'c
     \<Rightarrow> ((map_exn + unit) \<times> ('k, 'v, 'z) linked_map_scheme \<times> 'c) option" where
  "LinkedMap_forEach callbackfn s c = forEach_loop callbackfn (lm_state s) (lm_head s) s c"

definition LinkedMap_toJSON :: "('k, 'v, 'z) linked_map_scheme \<Rightarrow> ('k \<times> 'v) list option" where
  "LinkedMap_toJSON s =
     map_option (\<lambda>(_, _, d). d) (LinkedMap_forEach (\<lambda>v k s d. (False, s, d @ [(k, v)])) s [])"

text \<open>The method \<open>set\<close> that is called is the one of the class of the object.\<close>

fun set_all :: "('k \<Rightarrow> 'v \<Rightarrow> (('k, 'v, 'z) linked_map_scheme, unit) step) \<Rightarrow> ('k \<times> 'v) list
    \<Rightarrow> (('k, 'v, 'z) linked_map_scheme, unit) step" where
  "set_all put [] = sreturn ()"
| "set_all put ((k, v) # d) = sbind (put k v) (\<lambda>_. set_all put d)"

definition LinkedMap_fromJSON :: "('k \<Rightarrow> 'v \<Rightarrow> (('k, 'v, 'z) linked_map_scheme, unit) step) \<Rightarrow> ('k \<times> 'v) list
    \<Rightarrow> (('k, 'v, 'z) linked_map_scheme, unit) step" where
  "LinkedMap_fromJSON put d = sbind (smodify LinkedMap_clear) (\<lambda>_. set_all put d)"

text \<open>The iterators of \<open>keys\<close>, \<open>values\<close> and \<open>entries\<close>: what they remember, and a call of \<open>next\<close>.\<close>

record map_iterator =
  it_state :: nat
  it_current :: "nat option"

definition map_iterator_new :: "('k, 'v, 'z) linked_map_scheme \<Rightarrow> map_iterator" where
  "map_iterator_new s = \<lparr>it_state = lm_state s, it_current = lm_head s\<rparr>"

definition map_iterator_next ::
  "(('k, 'v) item \<Rightarrow> 'a) \<Rightarrow> ('k, 'v, 'z) linked_map_scheme \<Rightarrow> map_iterator \<Rightarrow> (map_exn + 'a option) \<times> map_iterator" where
  "map_iterator_next result s it =
     (if lm_state s \<noteq> it_state it then (Inl Modified_during_iteration, it)
      else case it_current it of
             Some current \<Rightarrow> (Inr (Some (result (item_at s current))), it\<lparr>it_current := next_item s current\<rparr>)
           | None \<Rightarrow> (Inr None, it))"

definition LinkedMap_keys_next :: "('k, 'v, 'z) linked_map_scheme \<Rightarrow> map_iterator \<Rightarrow> (map_exn + 'k option) \<times> map_iterator" where
  "LinkedMap_keys_next = map_iterator_next item_key"

definition LinkedMap_values_next :: "('k, 'v, 'z) linked_map_scheme \<Rightarrow> map_iterator \<Rightarrow> (map_exn + 'v option) \<times> map_iterator" where
  "LinkedMap_values_next = map_iterator_next item_value"

definition LinkedMap_entries_next :: "('k, 'v, 'z) linked_map_scheme \<Rightarrow> map_iterator \<Rightarrow> (map_exn + ('k \<times> 'v) option) \<times> map_iterator" where
  "LinkedMap_entries_next = map_iterator_next (\<lambda>it. (item_key it, item_value it))"

text \<open>The loops of \<open>trimOld\<close> and \<open>trimNew\<close>: the item they stop at and the size left.\<close>

function trim_loop :: "(('k, 'v, 'z) linked_map_scheme \<Rightarrow> nat \<Rightarrow> nat option) \<Rightarrow> int \<Rightarrow> nat option \<Rightarrow> int
    \<Rightarrow> ('k, 'v, 'z) linked_map_scheme \<Rightarrow> nat option \<times> int \<times> ('k, 'v, 'z) linked_map_scheme" where
  "trim_loop link newSize current currentSize s =
     (case current of
        Some r \<Rightarrow>
          if currentSize > newSize
          then trim_loop link newSize (link s r) (currentSize - 1) (s\<lparr>lm_map := map_delete (item_key (item_at s r)) (lm_map s)\<rparr>)
          else (current, currentSize, s)
      | None \<Rightarrow> (current, currentSize, s))"
  by pat_completeness auto
termination
  by (relation "measure (\<lambda>(_, newSize, _, currentSize, _). nat (currentSize - newSize))") auto

declare trim_loop.simps [simp del]

definition trimOld :: "int \<Rightarrow> ('k, 'v, 'z) linked_map_scheme \<Rightarrow> ('k, 'v, 'z) linked_map_scheme" where
  "trimOld newSize s =
     (if newSize \<ge> lm_size s then s
      else if newSize = 0 then LinkedMap_clear s
      else
        let (current, currentSize, s) = trim_loop next_item newSize (lm_head s) (lm_size s) s;
            s = s\<lparr>lm_head := current, lm_size := currentSize\<rparr>;
            s = (case current of Some r \<Rightarrow> set_previous r None s | None \<Rightarrow> s)
        in changed s)"

definition trimNew :: "int \<Rightarrow> ('k, 'v, 'z) linked_map_scheme \<Rightarrow> ('k, 'v, 'z) linked_map_scheme" where
  "trimNew newSize s =
     (if newSize \<ge> lm_size s then s
      else if newSize = 0 then LinkedMap_clear s
      else
        let (current, currentSize, s) = trim_loop previous_item newSize (lm_tail s) (lm_size s) s;
            s = s\<lparr>lm_tail := current, lm_size := currentSize\<rparr>;
            s = (case current of Some r \<Rightarrow> set_next r None s | None \<Rightarrow> s)
        in changed s)"

end
