(* ===== verification/LinkedMapProps.thy ===== *)
theory LinkedMapProps
  imports LinkedMaps
begin

text \<open>
  \<open>LinkedMap\<close> refines ordered association lists. The links are those of \<open>DoublyLinked\<close>; what the
  operations do to them is taken from there.
\<close>

section \<open>Abstraction\<close>

interpretation items: doubly_linked previous_item next_item set_previous set_next
  by unfold_locales (auto simp: previous_item_def next_item_def set_previous_def set_next_def put_item_def item_at_def)

definition key_of :: "('k, 'v, 'z) linked_map_scheme \<Rightarrow> nat \<Rightarrow> 'k" where
  "key_of s r = item_key (item_at s r)"

definition entries :: "('k, 'v, 'z) linked_map_scheme \<Rightarrow> nat list \<Rightarrow> ('k \<times> 'v) list" where
  "entries s rs = map (\<lambda>r. (key_of s r, value_of s r)) rs"

text \<open>The items of the list are those at \<open>rs\<close>, in this order, and the map finds each under its key.\<close>

definition linked :: "('k, 'v, 'z) linked_map_scheme \<Rightarrow> nat list \<Rightarrow> bool" where
  "linked s rs \<longleftrightarrow> distinct rs \<and> (\<forall>r\<in>set rs. r < lm_count s) \<and> items.segment s None rs None
     \<and> lm_head s = first_or rs None \<and> lm_tail s = last_or None rs \<and> lm_size s = int (length rs)
     \<and> (\<forall>k r. map_get k (lm_map s) = Some r \<longleftrightarrow> r \<in> set rs \<and> key_of s r = k)"

definition represents :: "('k, 'v, 'z) linked_map_scheme \<Rightarrow> ('k \<times> 'v) list \<Rightarrow> bool" where
  "represents s al \<longleftrightarrow> (\<exists>rs. linked s rs \<and> al = entries s rs)"

text \<open>The operations on association lists.\<close>

definition touched :: "'k \<Rightarrow> touch \<Rightarrow> ('k \<times> 'v) list \<Rightarrow> ('k \<times> 'v) list" where
  "touched k t al =
     (case map_of al k of
        None \<Rightarrow> al
      | Some v \<Rightarrow> (case t of Touch_None \<Rightarrow> al | AsOld \<Rightarrow> (k, v) # AList.delete k al | AsNew \<Rightarrow> AList.delete k al @ [(k, v)]))"

definition set_touched :: "'k \<Rightarrow> 'v \<Rightarrow> touch \<Rightarrow> ('k \<times> 'v) list \<Rightarrow> ('k \<times> 'v) list" where
  "set_touched k v t al = touched k t (AList.update k v al)"

definition newest :: "int \<Rightarrow> ('k \<times> 'v) list \<Rightarrow> ('k \<times> 'v) list" where
  "newest n al = drop (length al - nat n) al"

definition oldest :: "int \<Rightarrow> ('k \<times> 'v) list \<Rightarrow> ('k \<times> 'v) list" where
  "oldest n al = take (nat n) al"

section \<open>Frames\<close>

lemma setters_keep [simp]:
  "lm_head (set_next r q s) = lm_head s" "lm_head (set_previous r q s) = lm_head s"
  "lm_tail (set_next r q s) = lm_tail s" "lm_tail (set_previous r q s) = lm_tail s"
  "lm_size (set_next r q s) = lm_size s" "lm_size (set_previous r q s) = lm_size s"
  "lm_count (set_next r q s) = lm_count s" "lm_count (set_previous r q s) = lm_count s"
  "lm_map (set_next r q s) = lm_map s" "lm_map (set_previous r q s) = lm_map s"
  "lm_state (set_next r q s) = lm_state s" "lm_state (set_previous r q s) = lm_state s"
  "linked_map.more (set_next r q s) = linked_map.more s" "linked_map.more (set_previous r q s) = linked_map.more s"
  "key_of (set_next r q s) = key_of s" "key_of (set_previous r q s) = key_of s"
  "value_of (set_next r q s) = value_of s" "value_of (set_previous r q s) = value_of s"
  by (auto simp: set_next_def set_previous_def put_item_def item_at_def key_of_def value_of_def fun_eq_iff)

lemma item_at_other [simp]:
  "item_at (s\<lparr>lm_head := h\<rparr>) = item_at s" "item_at (s\<lparr>lm_tail := h\<rparr>) = item_at s" "item_at (s\<lparr>lm_size := i\<rparr>) = item_at s"
  "item_at (s\<lparr>lm_map := m\<rparr>) = item_at s" "item_at (s\<lparr>lm_state := j\<rparr>) = item_at s" "item_at (s\<lparr>lm_count := j\<rparr>) = item_at s"
  by (simp_all add: item_at_def fun_eq_iff)

lemma item_at_changed [simp]: "item_at (changed s) = item_at s"
  by (simp add: changed_def)

lemma changed_keeps [simp]:
  "lm_head (changed s) = lm_head s" "lm_tail (changed s) = lm_tail s" "lm_size (changed s) = lm_size s"
  "lm_count (changed s) = lm_count s" "lm_map (changed s) = lm_map s" "lm_state (changed s) = Suc (lm_state s)"
  "linked_map.more (changed s) = linked_map.more s"
  by (simp_all add: changed_def)

lemma setters_other [simp]:
  "set_next r q (s\<lparr>lm_head := h\<rparr>) = set_next r q s\<lparr>lm_head := h\<rparr>" "set_previous r q (s\<lparr>lm_head := h\<rparr>) = set_previous r q s\<lparr>lm_head := h\<rparr>"
  "set_next r q (s\<lparr>lm_tail := h\<rparr>) = set_next r q s\<lparr>lm_tail := h\<rparr>" "set_previous r q (s\<lparr>lm_tail := h\<rparr>) = set_previous r q s\<lparr>lm_tail := h\<rparr>"
  "set_next r q (s\<lparr>lm_map := m\<rparr>) = set_next r q s\<lparr>lm_map := m\<rparr>" "set_previous r q (s\<lparr>lm_map := m\<rparr>) = set_previous r q s\<lparr>lm_map := m\<rparr>"
  "set_next r q (s\<lparr>lm_size := i\<rparr>) = set_next r q s\<lparr>lm_size := i\<rparr>" "set_previous r q (s\<lparr>lm_size := i\<rparr>) = set_previous r q s\<lparr>lm_size := i\<rparr>"
  by (simp_all add: set_next_def set_previous_def put_item_def)

text \<open>What depends on the items only.\<close>

lemma same_items:
  fixes s t :: "('k, 'v, 'z) linked_map_scheme"
  assumes "item_at s = item_at t"
  shows "items.segment s p rs n = items.segment t p rs n" "key_of s = key_of t" "value_of s = value_of t"
    "next_item s = next_item t" "previous_item s = previous_item t" "entries s = entries t"
proof -
  show "items.segment s p rs n = items.segment t p rs n"
    by (rule items.segment_cong) (simp add: next_item_def previous_item_def assms)
qed (use assms in \<open>simp_all add: next_item_def previous_item_def key_of_def value_of_def entries_def fun_eq_iff\<close>)

lemma other_fields [simp]:
  "items.segment (s\<lparr>lm_head := h\<rparr>) p rs n = items.segment s p rs n" "items.segment (s\<lparr>lm_tail := h\<rparr>) p rs n = items.segment s p rs n"
  "items.segment (s\<lparr>lm_size := i\<rparr>) p rs n = items.segment s p rs n" "items.segment (s\<lparr>lm_map := m\<rparr>) p rs n = items.segment s p rs n"
  "items.segment (changed s) p rs n = items.segment s p rs n"
  "key_of (s\<lparr>lm_head := h\<rparr>) = key_of s" "key_of (s\<lparr>lm_tail := h\<rparr>) = key_of s" "key_of (s\<lparr>lm_size := i\<rparr>) = key_of s"
  "key_of (s\<lparr>lm_map := m\<rparr>) = key_of s" "key_of (changed s) = key_of s"
  "value_of (s\<lparr>lm_head := h\<rparr>) = value_of s" "value_of (s\<lparr>lm_tail := h\<rparr>) = value_of s" "value_of (s\<lparr>lm_size := i\<rparr>) = value_of s"
  "value_of (s\<lparr>lm_map := m\<rparr>) = value_of s" "value_of (changed s) = value_of s"
  "next_item (s\<lparr>lm_head := h\<rparr>) = next_item s" "next_item (s\<lparr>lm_tail := h\<rparr>) = next_item s" "next_item (s\<lparr>lm_size := i\<rparr>) = next_item s"
  "next_item (s\<lparr>lm_map := m\<rparr>) = next_item s" "next_item (changed s) = next_item s"
  "previous_item (s\<lparr>lm_head := h\<rparr>) = previous_item s" "previous_item (s\<lparr>lm_tail := h\<rparr>) = previous_item s"
  "previous_item (s\<lparr>lm_size := i\<rparr>) = previous_item s" "previous_item (s\<lparr>lm_map := m\<rparr>) = previous_item s"
  "previous_item (changed s) = previous_item s"
  by (rule same_items; simp)+

lemma entries_simps [simp]:
  "entries s [] = []" "entries s (r # rs) = (key_of s r, value_of s r) # entries s rs" "entries s (rs @ ts) = entries s rs @ entries s ts"
  "length (entries s rs) = length rs" "entries s rs = [] \<longleftrightarrow> rs = []"
  by (simp_all add: entries_def)

lemma entries_keys: "fst ` set (entries s rs) = key_of s ` set rs"
  by (force simp: entries_def)

lemma entries_cong: "key_of s = key_of t \<Longrightarrow> value_of s = value_of t \<Longrightarrow> entries s = entries t"
  by (simp add: entries_def fun_eq_iff)

lemma steps [simp]:
  "sreturn x s = (Inr x, s)" "sthrow e s = (Inl e, s)" "smodify f s = (Inr (), f s)"
  by (simp_all add: sreturn_def sthrow_def smodify_def)

lemma sbind_steps [simp]:
  "sbind (sreturn x) f = f x" "sbind (smodify g) f = (\<lambda>s. f () (g s))" "sbind (sthrow e) f = sthrow e"
  by (simp_all add: sbind_def fun_eq_iff)

lemma sbind_ok: "m s = (Inr x, t) \<Longrightarrow> sbind m f s = f x t"
  by (simp add: sbind_def)

lemma assign_simps [simp]:
  "assign_next (Some r) q = smodify (set_next r q)" "assign_previous (Some r) q = smodify (set_previous r q)"
  by (simp_all add: assign_next_def assign_previous_def)

section \<open>The operations on the links\<close>

lemma linkedD:
  assumes "linked s rs"
  shows "distinct rs" "items.segment s None rs None" "lm_head s = first_or rs None" "lm_tail s = last_or None rs"
    "lm_size s = int (length rs)" "\<forall>r\<in>set rs. r < lm_count s"
    "map_get k (lm_map s) = Some r \<longleftrightarrow> r \<in> set rs \<and> key_of s r = k"
  using assms by (simp_all add: linked_def)

text \<open>The part of the invariant that concerns the links, for the states between.\<close>

definition chained :: "('k, 'v, 'z) linked_map_scheme \<Rightarrow> nat list \<Rightarrow> bool" where
  "chained s rs \<longleftrightarrow> distinct rs \<and> items.segment s None rs None \<and> lm_head s = first_or rs None \<and> lm_tail s = last_or None rs"

definition same_data :: "('k, 'v, 'z) linked_map_scheme \<Rightarrow> ('k, 'v, 'z) linked_map_scheme \<Rightarrow> bool" where
  "same_data s t \<longleftrightarrow> key_of t = key_of s \<and> value_of t = value_of s \<and> lm_count t = lm_count s \<and> lm_map t = lm_map s
     \<and> lm_size t = lm_size s \<and> linked_map.more t = linked_map.more s"

lemma chained_linked: "linked s rs \<Longrightarrow> chained s rs"
  by (simp add: linked_def chained_def)

lemma opt_setters_keep [simp]:
  "key_of (items.set_prev_opt x q s) = key_of s" "value_of (items.set_prev_opt x q s) = value_of s"
  "lm_count (items.set_prev_opt x q s) = lm_count s" "lm_map (items.set_prev_opt x q s) = lm_map s"
  "lm_size (items.set_prev_opt x q s) = lm_size s" "linked_map.more (items.set_prev_opt x q s) = linked_map.more s"
  "key_of (items.set_next_opt x q s) = key_of s" "value_of (items.set_next_opt x q s) = value_of s"
  "lm_count (items.set_next_opt x q s) = lm_count s" "lm_map (items.set_next_opt x q s) = lm_map s"
  "lm_size (items.set_next_opt x q s) = lm_size s" "linked_map.more (items.set_next_opt x q s) = linked_map.more s"
  by (simp_all add: items.set_prev_opt_def items.set_next_opt_def split: option.split)

lemma removeItem_chained:
  assumes "chained s (as @ r # bs)"
  shows "\<exists>t. removeItem r s = (Inr (), t) \<and> chained t (as @ bs) \<and> same_data s t"
proof -
  have s: "distinct (as @ r # bs)" "items.segment s None (as @ r # bs) None"
    "lm_head s = first_or (as @ r # bs) None" "lm_tail s = last_or None (as @ r # bs)"
    using assms by (simp_all add: chained_def)
  note links = items.segment_neighbours [OF s(2)] and seg = items.segment_remove [OF s(2,1)] and tip = ends_of_split [OF s(1)]
  have r: "r \<notin> set (as @ bs)" using s(1) by simp
  show ?thesis
  proof (cases as rule: rev_cases)
    case Nil
    with links s seg r tip show ?thesis
      by (cases bs) (auto simp: removeItem_def chained_def same_data_def sbind_def)
  next
    case (snoc as' a)
    with links s seg r tip items.segment_neighbours [of s as' a "[r]"] show ?thesis
      by (cases bs) (auto simp: removeItem_def chained_def same_data_def sbind_def)
  qed
qed


lemma addItem_chained:
  assumes "chained s rs" "r \<notin> set rs" "next_item s r = None" "previous_item s r = None"
  shows "\<exists>t. addItemFirst r s = (Inr (), t) \<and> chained t (r # rs) \<and> same_data s t"
    and "\<exists>t. addItemLast r s = (Inr (), t) \<and> chained t (rs @ [r]) \<and> same_data s t"
proof -
  have s: "distinct rs" "items.segment s None rs None" "lm_head s = first_or rs None" "lm_tail s = last_or None rs"
    using assms(1) by (simp_all add: chained_def)
  show "\<exists>t. addItemFirst r s = (Inr (), t) \<and> chained t (r # rs) \<and> same_data s t"
  proof (cases rs)
    case Nil
    with s assms show ?thesis by (auto simp: addItemFirst_def chained_def same_data_def)
  next
    case (Cons y ys)
    with items.segment_push_front [of "set_next r (Some y) s" rs r] s assms show ?thesis
      by (auto simp: addItemFirst_def chained_def same_data_def split: option.splits simp del: items.segment.simps)
  qed
  show "\<exists>t. addItemLast r s = (Inr (), t) \<and> chained t (rs @ [r]) \<and> same_data s t"
  proof (cases rs rule: rev_cases)
    case Nil
    with s assms show ?thesis by (auto simp: addItemLast_def chained_def same_data_def)
  next
    case (snoc ys y)
    with items.segment_push_back [of "set_previous r (Some y) s" rs r] s assms show ?thesis
      by (auto simp: addItemLast_def chained_def same_data_def split: option.splits)
  qed
qed

text \<open>Where \<open>touch\<close> puts the item.\<close>

definition moved :: "nat list \<Rightarrow> nat \<Rightarrow> nat list \<Rightarrow> touch \<Rightarrow> nat list" where
  "moved as r bs t = (case t of Touch_None \<Rightarrow> as @ r # bs | AsOld \<Rightarrow> r # as @ bs | AsNew \<Rightarrow> as @ bs @ [r])"

lemma unchanged: "lm_tail s = q \<Longrightarrow> s\<lparr>lm_tail := q\<rparr> = s" "lm_head s = q \<Longrightarrow> s\<lparr>lm_head := q\<rparr> = s"
  by (cases s; simp)+

lemma some_ends:
  assumes "xs \<noteq> []" "r \<notin> set (as @ bs)" "set xs \<subseteq> set (as @ bs)"
  obtains x y where "\<And>q. first_or xs q = Some x" "\<And>p. last_or p xs = Some y" "x \<noteq> r" "y \<noteq> r"
proof
  show "first_or xs q = Some (hd xs)" "last_or p xs = Some (last xs)" for p q
    using assms(1) by (cases xs; simp add: last_or_def)+
  show "hd xs \<noteq> r" "last xs \<noteq> r" using assms by (metis hd_in_set last_in_set subsetD)+
qed

lemma touch_chained:
  assumes "chained s (as @ r # bs)"
  shows "\<exists>u. touch_item r t s = (Inr (), u) \<and> chained u (moved as r bs t) \<and> same_data s u"
proof -
  have s: "distinct (as @ r # bs)" "items.segment s None (as @ r # bs) None"
    "lm_head s = first_or (as @ r # bs) None" "lm_tail s = last_or None (as @ r # bs)"
    using assms by (simp_all add: chained_def)
  note links = items.segment_neighbours [OF s(2)] and tip = ends_of_split [OF s(1)]
  have r: "r \<notin> set (as @ bs)" "distinct (as @ bs)" using s(1) by auto
  have ends: "lm_head s \<noteq> None" "lm_tail s \<noteq> None" by (cases as; simp add: s) (cases bs rule: rev_cases; simp add: s)
  have refl: "same_data s s" by (simp add: same_data_def)
  let ?u = "items.set_next_opt (last_or None as) (first_or bs None) (items.set_prev_opt (first_or bs None) (last_or None as) s)"
  note seg = items.segment_remove [OF s(2,1)]
  show ?thesis
  proof (cases t)
    case Touch_None
    with assms ends refl show ?thesis by (simp add: touch_item_def moved_def)
  next
    case AsOld
    show ?thesis
    proof (cases "as = []")
      case True
      with AsOld assms s ends refl show ?thesis by (simp add: touch_item_def moved_def)
    next
      case False
      then obtain a l where a: "\<And>q. first_or as q = Some a" "\<And>p. last_or p as = Some l" "a \<noteq> r" "l \<noteq> r"
        using r(1) by (rule some_ends) auto
      have moved: "items.segment (set_previous a (Some r) (set_next r (Some a) (set_previous r None ?u))) None (r # as @ bs) None"
        using items.segment_push_front [of "set_next r (Some a) (set_previous r None ?u)" "as @ bs" r] seg r a by simp
      have "touch_item r AsOld s = (Inr (), changed (set_previous a (Some r) (set_next r (Some a) (set_previous r None ?u))
          \<lparr>lm_tail := last_or None (as @ bs), lm_head := Some r\<rparr>))"
        using False s(3,4) a links tip by (cases bs) (simp_all add: touch_item_def sbind_def Let_def last_or_def unchanged)
      with moved AsOld s a r show ?thesis
        by (simp add: moved_def chained_def same_data_def del: items.segment.simps)
    qed
  next
    case AsNew
    show ?thesis
    proof (cases "bs = []")
      case True
      with AsNew assms s ends refl show ?thesis by (simp add: touch_item_def moved_def)
    next
      case False
      then obtain f b where b: "\<And>q. first_or bs q = Some f" "\<And>p. last_or p bs = Some b" "f \<noteq> r" "b \<noteq> r"
        using r(1) by (rule some_ends) auto
      have moved: "items.segment (set_next b (Some r) (set_previous r (Some b) (set_next r None ?u))) None ((as @ bs) @ [r]) None"
        using items.segment_push_back [of "set_previous r (Some b) (set_next r None ?u)" "as @ bs" r] seg r b by simp
      have "touch_item r AsNew s = (Inr (), changed (set_next b (Some r) (set_previous r (Some b) (set_next r None ?u))
          \<lparr>lm_head := first_or (as @ bs) None, lm_tail := Some r\<rparr>))"
        using False s(3,4) b links tip ends by (cases as rule: rev_cases) (simp_all add: touch_item_def sbind_def Let_def unchanged)
      with moved AsNew s b r show ?thesis
        by (simp add: moved_def chained_def same_data_def del: items.segment.simps)
    qed
  qed
qed


section \<open>Association lists\<close>

lemma linked_split:
  assumes "linked s rs" "map_get k (lm_map s) = Some r"
  obtains as bs where "rs = as @ r # bs" "key_of s r = k" "k \<notin> fst ` set (entries s (as @ bs))"
proof -
  have r: "r \<in> set rs" "key_of s r = k" using linkedD(7) [OF assms(1), of k r] assms(2) by simp_all
  obtain as bs where rs: "rs = as @ r # bs" using split_list [OF r(1)] by blast
  have "\<forall>x\<in>set (as @ bs). key_of s x \<noteq> k"
  proof (intro ballI notI)
    fix x
    assume x: "x \<in> set (as @ bs)" "key_of s x = k"
    then have "map_get k (lm_map s) = Some x" using linkedD(7) [OF assms(1), of k x] x rs by auto
    with assms(2) have "x = r" by simp
    with x linkedD(1) [OF assms(1)] rs show False by simp
  qed
  then have "k \<notin> fst ` set (entries s (as @ bs))" by (force simp: entries_def)
  with rs r(2) show thesis by (rule that)
qed

lemma alist_split:
  assumes "k \<notin> fst ` set xs" "k \<notin> fst ` set ys"
  shows "map_of (xs @ (k, v) # ys) k = Some v" "AList.delete k (xs @ (k, v) # ys) = xs @ ys"
    "AList.update k w (xs @ (k, v) # ys) = xs @ (k, w) # ys"
proof -
  show "map_of (xs @ (k, v) # ys) k = Some v" using assms(1) map_of_eq_None_iff [of xs k] by (simp add: map_add_def)
  show "AList.delete k (xs @ (k, v) # ys) = xs @ ys" using delete_id [OF assms(1)] delete_id [OF assms(2)] by (simp add: AList.delete_eq)
  show "AList.update k w (xs @ (k, v) # ys) = xs @ (k, w) # ys" using assms(1) by (induction xs) auto
qed

lemma alist_fresh: "k \<notin> fst ` set xs \<Longrightarrow> map_of xs k = None \<and> AList.update k v xs = xs @ [(k, v)] \<and> AList.delete k xs = xs"
  by (simp add: map_of_eq_None_iff update_nonempty) (induction xs; auto simp: delete_id)

lemma linked_keys:
  assumes "linked s rs"
  shows "distinct (map fst (entries s rs))" "map_get k (lm_map s) = None \<longleftrightarrow> k \<notin> fst ` set (entries s rs)"
proof -
  have "inj_on (key_of s) (set rs)"
  proof (rule inj_onI)
    fix x y
    assume "x \<in> set rs" "y \<in> set rs" "key_of s x = key_of s y"
    then have "map_get (key_of s x) (lm_map s) = Some x" "map_get (key_of s x) (lm_map s) = Some y"
      using linkedD(7) [OF assms] by auto
    then show "x = y" by simp
  qed
  then show "distinct (map fst (entries s rs))"
    using linkedD(1) [OF assms] by (simp add: entries_def comp_def distinct_map)
  show "map_get k (lm_map s) = None \<longleftrightarrow> k \<notin> fst ` set (entries s rs)"
  proof
    assume "map_get k (lm_map s) = None"
    then have "\<forall>r\<in>set rs. key_of s r \<noteq> k" using linkedD(7) [OF assms, of k] by (metis option.distinct(1))
    then show "k \<notin> fst ` set (entries s rs)" by (auto simp: entries_def)
  next
    assume "k \<notin> fst ` set (entries s rs)"
    then have "\<forall>r\<in>set rs. key_of s r \<noteq> k" by (force simp: entries_def)
    then show "map_get k (lm_map s) = None" using linkedD(7) [OF assms, of k] by (cases "map_get k (lm_map s)") auto
  qed
qed


section \<open>The methods\<close>

text \<open>A state with the data of a linked one and the links of a rearranged list.\<close>

lemma linked_rearranged:
  assumes "linked s rs" "chained t ts" "same_data s t" "set ts = set rs"
  shows "linked t ts" "entries t = entries s" "linked_map.more t = linked_map.more s"
proof -
  have "length ts = length rs"
    using assms(2,4) linkedD(1) [OF assms(1)] by (metis chained_def distinct_card)
  with assms show "linked t ts" by (auto simp: linked_def chained_def same_data_def)
  show "entries t = entries s" "linked_map.more t = linked_map.more s"
    using assms(3) by (auto simp: same_data_def intro: entries_cong)
qed

lemma touched_split:
  assumes "k \<notin> fst ` set (entries s (as @ bs))" "key_of s r = k"
  shows "touched k t (entries s (as @ r # bs)) = entries s (moved as r bs t)"
  using assms alist_split [of k "entries s as" "entries s bs" "value_of s r"]
  by (cases t) (simp_all add: touched_def moved_def image_Un)

lemma touch_linked:
  assumes "linked s (as @ r # bs)" "key_of s r = k" "k \<notin> fst ` set (entries s (as @ bs))"
  shows "\<exists>u. (if t \<noteq> Touch_None then touch_item r t else sreturn ()) s = (Inr (), u) \<and> linked u (moved as r bs t)
    \<and> entries u (moved as r bs t) = touched k t (entries s (as @ r # bs)) \<and> value_of u = value_of s
    \<and> linked_map.more u = linked_map.more s"
proof (cases "t = Touch_None")
  case True
  with assms touched_split [OF assms(3,2)] show ?thesis by (simp add: moved_def)
next
  case False
  from touch_chained [OF chained_linked [OF assms(1)]] obtain u where
    u: "touch_item r t s = (Inr (), u)" "chained u (moved as r bs t)" "same_data s u" by blast
  have "set (moved as r bs t) = set (as @ r # bs)" by (cases t) (auto simp: moved_def)
  from linked_rearranged [OF assms(1) u(2,3) this] u False touched_split [OF assms(3,2)] show ?thesis
    by (auto simp: same_data_def)
qed

lemma get_linked:
  assumes "linked s rs"
  shows "\<exists>u ts. LinkedMap_get k t s = (Inr (map_of (entries s rs) k), u) \<and> linked u ts
    \<and> entries u ts = touched k t (entries s rs) \<and> linked_map.more u = linked_map.more s"
proof (cases "map_get k (lm_map s)")
  case None
  with linked_keys(2) [OF assms] have "map_of (entries s rs) k = None" by (simp add: map_of_eq_None_iff)
  with None assms show ?thesis
    by (intro exI [of _ s] exI [of _ rs]) (simp add: LinkedMap_get_def touched_def)
next
  case (Some r)
  from linked_split [OF assms Some] obtain as bs where r: "rs = as @ r # bs" "key_of s r = k"
    "k \<notin> fst ` set (entries s (as @ bs))" .
  from touch_linked [OF assms [unfolded r(1)] r(2,3), of t] obtain u where
    u: "(if t \<noteq> Touch_None then touch_item r t else sreturn ()) s = (Inr (), u)" "linked u (moved as r bs t)"
      "entries u (moved as r bs t) = touched k t (entries s (as @ r # bs))" "value_of u = value_of s"
      "linked_map.more u = linked_map.more s" by blast
  have "map_of (entries s rs) k = Some (value_of s r)"
    using r alist_split(1) [of k "entries s as" "entries s bs"] by (simp add: image_Un)
  with u r(1) Some show ?thesis
    by (intro exI [of _ u] exI [of _ "moved as r bs t"]) (simp add: LinkedMap_get_def sbind_ok [of "if t \<noteq> Touch_None then touch_item r t else sreturn ()" s "()" u, OF u(1)])
qed

lemma put_value:
  assumes "linked s (as @ r # bs)"
  shows "linked (put_item r ((item_at s r)\<lparr>item_value := v\<rparr>) s) (as @ r # bs)"
    "key_of (put_item r ((item_at s r)\<lparr>item_value := v\<rparr>) s) = key_of s"
    "entries (put_item r ((item_at s r)\<lparr>item_value := v\<rparr>) s) (as @ r # bs) = entries s as @ (key_of s r, v) # entries s bs"
    "linked_map.more (put_item r ((item_at s r)\<lparr>item_value := v\<rparr>) s) = linked_map.more s"
proof -
  let ?t = "put_item r ((item_at s r)\<lparr>item_value := v\<rparr>) s"
  have at: "item_at ?t x = (if x = r then (item_at s r)\<lparr>item_value := v\<rparr> else item_at s x)" for x
    by (simp add: put_item_def item_at_def)
  show key: "key_of ?t = key_of s" by (simp add: key_of_def at fun_eq_iff)
  have "items.segment ?t None (as @ r # bs) None = items.segment s None (as @ r # bs) None"
    by (rule items.segment_cong) (simp add: next_item_def previous_item_def at)
  with assms key show "linked ?t (as @ r # bs)" by (simp add: linked_def) (simp add: put_item_def)
  have val: "value_of ?t x = (if x = r then v else value_of s x)" for x by (simp add: value_of_def at)
  have "r \<notin> set as" "r \<notin> set bs" using linkedD(1) [OF assms] by simp_all
  then show "entries ?t (as @ r # bs) = entries s as @ (key_of s r, v) # entries s bs"
    by (auto simp: entries_def key val)
  show "linked_map.more ?t = linked_map.more s" by (simp add: put_item_def)
qed


lemma new_linked:
  assumes "linked s rs" "k \<notin> fst ` set (entries s rs)"
  obtains u where "new_item k v s = (Inr (lm_count s), u)" "chained u rs" "lm_count s \<notin> set rs" "next_item u (lm_count s) = None"
    "previous_item u (lm_count s) = None" "key_of u (lm_count s) = k" "value_of u (lm_count s) = v"
    "\<forall>x\<in>set rs. key_of u x = key_of s x \<and> value_of u x = value_of s x" "lm_map u = lm_map s" "lm_size u = lm_size s"
    "lm_count u = Suc (lm_count s)" "linked_map.more u = linked_map.more s"
proof
  let ?n = "lm_count s"
  let ?u = "put_item ?n \<lparr>item_previous = None, item_next = None, item_key = k, item_value = v\<rparr> (s\<lparr>lm_count := Suc ?n\<rparr>)"
  show "new_item k v s = (Inr ?n, ?u)" by (simp add: new_item_def)
  have at: "item_at ?u x = (if x = ?n then \<lparr>item_previous = None, item_next = None, item_key = k, item_value = v\<rparr> else item_at s x)" for x
    by (simp add: put_item_def item_at_def)
  show fresh: "?n \<notin> set rs" using linkedD(6) [OF assms(1)] by auto
  have "items.segment ?u None rs None = items.segment s None rs None"
    by (rule items.segment_cong) (use fresh in \<open>auto simp: next_item_def previous_item_def at\<close>)
  then show "chained ?u rs" using assms(1) by (simp add: linked_def chained_def) (simp add: put_item_def)
  show "next_item ?u ?n = None" "previous_item ?u ?n = None" "key_of ?u ?n = k" "value_of ?u ?n = v"
    by (simp_all add: next_item_def previous_item_def key_of_def value_of_def at)
  show "\<forall>x\<in>set rs. key_of ?u x = key_of s x \<and> value_of ?u x = value_of s x"
    using fresh by (auto simp: key_of_def value_of_def at)
  show "lm_map ?u = lm_map s" "lm_size ?u = lm_size s" "lm_count ?u = Suc (lm_count s)" "linked_map.more ?u = linked_map.more s"
    by (simp_all add: put_item_def)
qed

lemma set_linked:
  assumes "linked s rs"
  shows "\<exists>u ts. LinkedMap_set k v t s = (Inr (), u) \<and> linked u ts
    \<and> entries u ts = set_touched k v t (entries s rs) \<and> linked_map.more u = linked_map.more s"
proof (cases "map_get k (lm_map s)")
  case (Some r)
  from linked_split [OF assms Some] obtain as bs where r: "rs = as @ r # bs" "key_of s r = k"
    "k \<notin> fst ` set (entries s (as @ bs))" .
  let ?s = "put_item r ((item_at s r)\<lparr>item_value := v\<rparr>) s"
  note put = put_value [OF assms [unfolded r(1)], of v]
  have "entries s (as @ r # bs) = entries s as @ (k, value_of s r) # entries s bs" using r(2) by simp
  then have upd: "AList.update k v (entries s rs) = entries ?s (as @ r # bs)"
    using put(3) r alist_split(3) [of k "entries s as" "entries s bs" v "value_of s r"] by (simp add: image_Un)
  have "k \<notin> fst ` set (entries ?s (as @ bs))" "key_of ?s r = k"
    using r(2,3) put(2) unfolding entries_keys by simp_all
  from touch_linked [OF put(1) this(2,1), of t] obtain u where
    u: "(if t \<noteq> Touch_None then touch_item r t else sreturn ()) ?s = (Inr (), u)" "linked u (moved as r bs t)"
      "entries u (moved as r bs t) = touched k t (entries ?s (as @ r # bs))" "linked_map.more u = linked_map.more ?s" by blast
  have "LinkedMap_set k v t s = (Inr (), u)" using u(1) Some by (simp add: LinkedMap_set_def)
  with u upd put(4) show ?thesis by (auto simp: set_touched_def)
next
  case None
  then have k: "k \<notin> fst ` set (entries s rs)" using linked_keys(2) [OF assms] by blast
  let ?n = "lm_count s"
  from new_linked [OF assms k, of v] obtain u where u: "new_item k v s = (Inr ?n, u)" "chained u rs" "?n \<notin> set rs"
    "next_item u ?n = None" "previous_item u ?n = None" "key_of u ?n = k" "value_of u ?n = v"
    "\<forall>x\<in>set rs. key_of u x = key_of s x \<and> value_of u x = value_of s x" "lm_map u = lm_map s" "lm_size u = lm_size s"
    "lm_count u = Suc (lm_count s)" "linked_map.more u = linked_map.more s" .
  let ?ts = "case t of AsOld \<Rightarrow> ?n # rs | _ \<Rightarrow> rs @ [?n]"
  let ?add = "case t of Touch_None \<Rightarrow> addItemLast ?n | AsOld \<Rightarrow> addItemFirst ?n | AsNew \<Rightarrow> addItemLast ?n"
  obtain w where w: "?add u = (Inr (), w)" "chained w ?ts" "same_data u w"
    using addItem_chained [OF u(2-5)] by (cases t) auto
  let ?w = "w\<lparr>lm_map := map_set k ?n (lm_map w), lm_size := lm_size w + 1\<rparr>"
  have run: "LinkedMap_set k v t s = (Inr (), ?w)"
    using None by (simp add: LinkedMap_set_def sbind_ok [of "new_item k v" s ?n u, OF u(1)] sbind_ok [of ?add u "()" w, OF w(1)])
  have data: "key_of w = key_of u" "value_of w = value_of u" "lm_count w = Suc ?n" "lm_map w = lm_map s" "lm_size w = lm_size s"
    using w(3) u(9-11) by (simp_all add: same_data_def)
  have keep: "entries w rs = entries s rs" using u(8) data(1,2) by (simp add: entries_def)
  have ts: "set ?ts = insert ?n (set rs)" "length ?ts = Suc (length rs)" by (cases t; simp)+
  have map: "map_get x (map_set k ?n (lm_map s)) = Some r \<longleftrightarrow> r \<in> set ?ts \<and> key_of w r = x" for x r
  proof (cases "r = ?n")
    case True
    have "map_get x (lm_map s) \<noteq> Some ?n" using linkedD(7) [OF assms, of x ?n] u(3) by simp
    with True ts u(6) data(1) show ?thesis by auto
  next
    case False
    have "map_get k (lm_map s) = None" using None .
    with False ts u(8) data(1) linkedD(7) [OF assms, of x r] linkedD(7) [OF assms, of k r] show ?thesis by auto
  qed
  have "linked ?w ?ts"
    using w(2) map linkedD(5,6) [OF assms] data ts by (simp add: linked_def chained_def) auto
  moreover have "entries ?w ?ts = set_touched k v t (entries s rs)"
  proof -
    have up: "AList.update k v (entries s rs) = entries s rs @ [(k, v)]" "AList.delete k (entries s rs) = entries s rs"
      "map_of (entries s rs) k = None" using alist_fresh [OF k, of v] by simp_all
    have "entries w [?n] = [(k, v)]" using data(1,2) u(6,7) by (simp add: entries_def)
    with keep up k show ?thesis
      using alist_split [of k "entries s rs" "[]" v]
      by (cases t) (simp_all add: set_touched_def touched_def entries_def)
  qed
  ultimately show ?thesis using run w(3) u(12) by (intro exI [of _ ?w] exI [of _ ?ts]) (simp add: same_data_def)
qed


text \<open>Taking an item out of the map and the list.\<close>

lemma take_out_linked:
  assumes "linked s (as @ r # bs)" "key_of s r = k" "k \<notin> fst ` set (entries s (as @ bs))"
  shows "\<exists>u. sbind (smodify (\<lambda>s. s\<lparr>lm_map := map_delete k (lm_map s)\<rparr>)) (\<lambda>_. sbind (removeItem r)
      (\<lambda>_ s. sreturn (Some (value_of s r)) (s\<lparr>lm_size := lm_size s - 1\<rparr>))) s = (Inr (Some (value_of s r)), u)
    \<and> linked u (as @ bs) \<and> entries u (as @ bs) = entries s (as @ bs) \<and> linked_map.more u = linked_map.more s"
proof -
  let ?s = "s\<lparr>lm_map := map_delete k (lm_map s)\<rparr>"
  have "chained ?s (as @ r # bs)" using chained_linked [OF assms(1)] by (simp add: chained_def)
  from removeItem_chained [OF this] obtain w where
    w: "removeItem r ?s = (Inr (), w)" "chained w (as @ bs)" "same_data ?s w" by blast
  let ?w = "w\<lparr>lm_size := lm_size w - 1\<rparr>"
  have data: "key_of w = key_of s" "value_of w = value_of s" "lm_count w = lm_count s" "lm_map w = map_delete k (lm_map s)"
    "lm_size w = lm_size s" "linked_map.more w = linked_map.more s"
    using w(3) by (simp_all add: same_data_def)
  have keys: "\<forall>x\<in>set (as @ bs). key_of s x \<noteq> k" using assms(3) unfolding entries_keys by auto
  have map: "map_get x (map_delete k (lm_map s)) = Some y \<longleftrightarrow> y \<in> set (as @ bs) \<and> key_of s y = x" for x y
    using linkedD(7) [OF assms(1), of x y] keys assms(2) by auto
  have "linked ?w (as @ bs)"
    using w(2) map linkedD(5,6) [OF assms(1)] data by (simp add: linked_def chained_def)
  moreover have "entries ?w (as @ bs) = entries s (as @ bs)" using data(1,2) by (simp add: entries_def)
  ultimately show ?thesis using data(2,6) by (intro exI [of _ ?w]) (simp add: sbind_ok [of "removeItem r" ?s "()" w, OF w(1)])
qed

lemma remove_linked:
  assumes "linked s rs"
  shows "\<exists>u ts. LinkedMap_remove k s = (Inr (map_of (entries s rs) k), u) \<and> linked u ts
    \<and> entries u ts = AList.delete k (entries s rs) \<and> linked_map.more u = linked_map.more s"
proof (cases "map_get k (lm_map s)")
  case None
  with linked_keys(2) [OF assms] have "k \<notin> fst ` set (entries s rs)" by blast
  from alist_fresh [OF this] None assms show ?thesis
    by (intro exI [of _ s] exI [of _ rs]) (simp add: LinkedMap_remove_def)
next
  case (Some r)
  from linked_split [OF assms Some] obtain as bs where r: "rs = as @ r # bs" "key_of s r = k"
    "k \<notin> fst ` set (entries s (as @ bs))" .
  have "map_of (entries s rs) k = Some (value_of s r)" "AList.delete k (entries s rs) = entries s (as @ bs)"
    using r alist_split(1,2) [of k "entries s as" "entries s bs"] by (simp_all add: image_Un)
  moreover from take_out_linked [OF assms [unfolded r(1)] r(2,3)] Some obtain u where
    "LinkedMap_remove k s = (Inr (Some (value_of s r)), u)" "linked u (as @ bs)" "entries u (as @ bs) = entries s (as @ bs)"
    "linked_map.more u = linked_map.more s" by (auto simp: LinkedMap_remove_def)
  ultimately show ?thesis by (intro exI [of _ u] exI [of _ "as @ bs"]) simp
qed

lemma shift_linked:
  assumes "linked s rs"
  shows "\<exists>u ts. LinkedMap_shift s = (Inr (map_option snd (first_or (entries s rs) None)), u) \<and> linked u ts
    \<and> entries u ts = tl (entries s rs) \<and> linked_map.more u = linked_map.more s"
proof (cases rs)
  case Nil
  with assms linkedD(3,4) [OF assms] show ?thesis
    by (intro exI [of _ s] exI [of _ rs]) (simp add: LinkedMap_shift_def)
next
  case (Cons r bs)
  have "distinct (map fst (entries s (r # bs)))" using linked_keys(1) [OF assms] Cons by simp
  then have "key_of s r \<notin> fst ` set (entries s ([] @ bs))" by simp
  from take_out_linked [of s "[]" r bs, OF _ refl this] assms Cons linkedD(3,4) [OF assms] obtain u where
    "LinkedMap_shift s = (Inr (Some (value_of s r)), u)" "linked u bs" "entries u bs = entries s bs"
    "linked_map.more u = linked_map.more s"
    by (cases bs) (auto simp: LinkedMap_shift_def key_of_def last_or_def)
  with Cons show ?thesis by (intro exI [of _ u] exI [of _ bs]) simp
qed

lemma clear_linked: "linked (LinkedMap_clear s) []" "linked_map.more (LinkedMap_clear s) = linked_map.more s"
  by (simp_all add: linked_def LinkedMap_clear_def)

text \<open>The loop of \<open>trimOld\<close> drops the first items, that of \<open>trimNew\<close> the last ones.\<close>

lemma trim_loop_old:
  assumes "items.segment s p rs None" "0 \<le> n" "n \<le> int (length rs)"
  shows "\<exists>m. trim_loop next_item n (first_or rs None) (int (length rs)) s =
      (first_or (drop (length rs - nat n) rs) None, n, s\<lparr>lm_map := m\<rparr>)
    \<and> (\<forall>k. map_get k m = (if k \<in> key_of s ` set (take (length rs - nat n) rs) then None else map_get k (lm_map s)))"
  using assms
proof (induction rs arbitrary: s p)
  case Nil
  then show ?case by (intro exI [of _ "lm_map s"]) (simp add: trim_loop.simps [of _ _ None])
next
  case (Cons r rs)
  show ?case
  proof (cases "n = int (length (r # rs))")
    case True
    then show ?thesis by (intro exI [of _ "lm_map s"]) (simp add: trim_loop.simps [of _ _ "Some r"])
  next
    case False
    let ?s = "s\<lparr>lm_map := map_delete (key_of s r) (lm_map s)\<rparr>"
    have "items.segment ?s (Some r) rs None" "n \<le> int (length rs)" using Cons.prems False by simp_all
    from Cons.IH [OF this(1) Cons.prems(2) this(2)] obtain m where
      m: "trim_loop next_item n (first_or rs None) (int (length rs)) ?s =
          (first_or (drop (length rs - nat n) rs) None, n, s\<lparr>lm_map := m\<rparr>)"
        "\<And>k. map_get k m = (if k \<in> key_of s ` set (take (length rs - nat n) rs) then None else map_get k (lm_map ?s))" by auto
    have len: "length (r # rs) - nat n = Suc (length rs - nat n)" using Cons.prems False by simp
    have "trim_loop next_item n (first_or (r # rs) None) (int (length (r # rs))) s =
        trim_loop next_item n (first_or rs None) (int (length rs)) ?s"
      using Cons.prems False by (simp add: trim_loop.simps [of _ _ "Some r"] key_of_def)
    with m len show ?thesis by (intro exI [of _ m]) auto
  qed
qed


lemma trim_loop_new:
  assumes "items.segment s None rs q" "0 \<le> n" "n \<le> int (length rs)"
  shows "\<exists>m. trim_loop previous_item n (last_or None rs) (int (length rs)) s =
      (last_or None (take (nat n) rs), n, s\<lparr>lm_map := m\<rparr>)
    \<and> (\<forall>k. map_get k m = (if k \<in> key_of s ` set (drop (nat n) rs) then None else map_get k (lm_map s)))"
  using assms
proof (induction rs arbitrary: s q rule: rev_induct)
  case Nil
  then show ?case by (intro exI [of _ "lm_map s"]) (simp add: trim_loop.simps [of _ _ None])
next
  case (snoc r rs)
  show ?case
  proof (cases "n = int (length (rs @ [r]))")
    case True
    then show ?thesis by (intro exI [of _ "lm_map s"]) (simp add: trim_loop.simps [of _ _ "Some r"])
  next
    case False
    let ?s = "s\<lparr>lm_map := map_delete (key_of s r) (lm_map s)\<rparr>"
    have "items.segment ?s None rs (Some r)" "n \<le> int (length rs)"
      using snoc.prems False by (simp_all add: items.segment_append)
    from snoc.IH [OF this(1) snoc.prems(2) this(2)] obtain m where
      m: "trim_loop previous_item n (last_or None rs) (int (length rs)) ?s = (last_or None (take (nat n) rs), n, s\<lparr>lm_map := m\<rparr>)"
        "\<And>k. map_get k m = (if k \<in> key_of s ` set (drop (nat n) rs) then None else map_get k (lm_map ?s))" by auto
    have "trim_loop previous_item n (last_or None (rs @ [r])) (int (length (rs @ [r]))) s =
        trim_loop previous_item n (last_or None rs) (int (length rs)) ?s"
      using snoc.prems False by (simp add: trim_loop.simps [of _ _ "Some r"] key_of_def items.segment_append)
    with m \<open>n \<le> int (length rs)\<close> show ?thesis by (intro exI [of _ m]) auto
  qed
qed

lemma linked_part:
  assumes "linked s rs" "rs = xs @ ys" "(zs = xs \<and> other = set ys) \<or> (zs = ys \<and> other = set xs)"
    and "\<forall>k. map_get k m = (if k \<in> key_of s ` other then None else map_get k (lm_map s))"
  shows "map_get k m = Some r \<longleftrightarrow> r \<in> set zs \<and> key_of s r = k"
proof -
  have keys: "key_of s x \<noteq> key_of s y" if "x \<in> set rs" "y \<in> set rs" "x \<noteq> y" for x y
    using linkedD(7) [OF assms(1), of "key_of s x"] that by (metis option.inject)
  have "distinct (xs @ ys)" using linkedD(1) [OF assms(1)] assms(2) by simp
  then have parts: "set rs = set zs \<union> other" "set zs \<inter> other = {}" using assms(2,3) by auto
  show ?thesis
    using linkedD(7) [OF assms(1), of k r] assms(4) keys parts
    by (auto split: if_splits) (metis IntI UnI1 UnI2 empty_iff)+
qed

lemma trimOld_linked:
  assumes "linked s rs" "0 \<le> n"
  shows "\<exists>ts. linked (trimOld n s) ts \<and> entries (trimOld n s) ts = newest n (entries s rs)
    \<and> linked_map.more (trimOld n s) = linked_map.more s"
proof -
  note s = linkedD [OF assms(1)]
  consider "n \<ge> lm_size s" | "n < lm_size s" "n = 0" | "n < lm_size s" "0 < n" using assms(2) by linarith
  then show ?thesis
  proof cases
    case 1
    with assms s(5) show ?thesis by (intro exI [of _ rs]) (simp add: trimOld_def newest_def)
  next
    case 2
    with clear_linked [of s] show ?thesis by (intro exI [of _ "[]"]) (simp add: trimOld_def newest_def)
  next
    case 3
    let ?d = "length rs - nat n" let ?zs = "drop ?d rs"
    have n: "n \<le> int (length rs)" "length ?zs = nat n" using 3 s(5) by simp_all
    then obtain z zs where z: "?zs = z # zs" using 3(2) by (cases ?zs) auto
    from trim_loop_old [OF s(2) assms(2) n(1)] obtain m where
      m: "trim_loop next_item n (lm_head s) (lm_size s) s = (Some z, n, s\<lparr>lm_map := m\<rparr>)"
        "\<forall>k. map_get k m = (if k \<in> key_of s ` set (take ?d rs) then None else map_get k (lm_map s))"
      using s(3,5) z by auto
    let ?t = "set_previous z None (s\<lparr>lm_map := m, lm_head := Some z, lm_size := n\<rparr>)"
    have trim: "trimOld n s = changed ?t" using 3 m(1) by (simp add: trimOld_def)
    have rs: "rs = take ?d rs @ ?zs" by simp
    then have "items.segment s (last_or None (take ?d rs)) ?zs None" using s(2) items.segment_append by metis
    moreover have "distinct ?zs" using s(1) by simp
    ultimately have seg: "items.segment (set_previous z None s) None ?zs None" using items.segment_set_prev z by metis
    have tl: "lm_tail s = last_or None ?zs" using s(4) rs z by (metis last_or_append last_or_simps(3))
    have cnt: "\<forall>r\<in>set ?zs. r < lm_count s" using s(6) by (metis in_set_dropD)
    from linked_part [OF assms(1) rs disjI2 [OF conjI [OF refl refl]] m(2)]
    have "map_get k m = Some r \<longleftrightarrow> r \<in> set ?zs \<and> key_of s r = k" for k r .
    then have "linked (changed ?t) ?zs"
      using seg tl n cnt z \<open>distinct ?zs\<close> by (simp add: linked_def)
    moreover have "entries (changed ?t) ?zs = newest n (entries s rs)"
      using n by (simp add: entries_def newest_def drop_map)
    ultimately show ?thesis unfolding trim by (intro exI [of _ ?zs]) simp
  qed
qed


lemma trimNew_linked:
  assumes "linked s rs" "0 \<le> n"
  shows "\<exists>ts. linked (trimNew n s) ts \<and> entries (trimNew n s) ts = oldest n (entries s rs)
    \<and> linked_map.more (trimNew n s) = linked_map.more s"
proof -
  note s = linkedD [OF assms(1)]
  consider "n \<ge> lm_size s" | "n < lm_size s" "n = 0" | "n < lm_size s" "0 < n" using assms(2) by linarith
  then show ?thesis
  proof cases
    case 1
    with assms s(5) show ?thesis by (intro exI [of _ rs]) (simp add: trimNew_def oldest_def)
  next
    case 2
    with clear_linked [of s] show ?thesis by (intro exI [of _ "[]"]) (simp add: trimNew_def oldest_def)
  next
    case 3
    let ?zs = "take (nat n) rs"
    have n: "n \<le> int (length rs)" "length ?zs = nat n" using 3 s(5) by simp_all
    then obtain zs z where z: "?zs = zs @ [z]" using 3(2) by (cases ?zs rule: rev_cases) auto
    from trim_loop_new [OF s(2) assms(2) n(1)] obtain m where
      m: "trim_loop previous_item n (lm_tail s) (lm_size s) s = (Some z, n, s\<lparr>lm_map := m\<rparr>)"
        "\<forall>k. map_get k m = (if k \<in> key_of s ` set (drop (nat n) rs) then None else map_get k (lm_map s))"
      using s(4,5) z by auto
    let ?t = "set_next z None (s\<lparr>lm_map := m, lm_tail := Some z, lm_size := n\<rparr>)"
    have trim: "trimNew n s = changed ?t" using 3 m(1) by (simp add: trimNew_def)
    have rs: "rs = ?zs @ drop (nat n) rs" by simp
    then have "items.segment s None ?zs (first_or (drop (nat n) rs) None)" using s(2) items.segment_append by metis
    moreover have "distinct ?zs" using s(1) by simp
    ultimately have seg: "items.segment (set_next z None s) None ?zs None" using items.segment_set_next z by metis
    have hd: "lm_head s = first_or ?zs None" using s(3) rs z by (metis first_or_append first_or_simps(2))
    have cnt: "\<forall>r\<in>set ?zs. r < lm_count s" using s(6) by (metis in_set_takeD)
    from linked_part [OF assms(1) rs disjI1 [OF conjI [OF refl refl]] m(2)]
    have "map_get k m = Some r \<longleftrightarrow> r \<in> set ?zs \<and> key_of s r = k" for k r .
    then have "linked (changed ?t) ?zs"
      using seg hd n cnt z \<open>distinct ?zs\<close> by (simp add: linked_def)
    moreover have "entries (changed ?t) ?zs = oldest n (entries s rs)"
      by (simp add: entries_def oldest_def take_map)
    ultimately show ?thesis unfolding trim by (intro exI [of _ ?zs]) simp
  qed
qed

section \<open>Iteration\<close>

text \<open>Repeated calls of \<open>next\<close> on a state that does not change.\<close>

fun next_results :: "nat \<Rightarrow> ('s \<Rightarrow> map_iterator \<Rightarrow> (map_exn + 'a option) \<times> map_iterator) \<Rightarrow> 's \<Rightarrow> map_iterator \<Rightarrow> (map_exn + 'a option) list" where
  "next_results 0 f s it = []"
| "next_results (Suc n) f s it = (let (x, it) = f s it in x # next_results n f s it)"

lemma next_results_rest:
  assumes "items.segment s p rs None" "it = \<lparr>it_state = lm_state s, it_current = first_or rs None\<rparr>"
  shows "next_results (Suc (length rs)) (map_iterator_next result) s it = map (\<lambda>r. Inr (Some (result (item_at s r)))) rs @ [Inr None]"
  using assms
proof (induction rs arbitrary: p it)
  case (Cons r rs)
  from Cons.IH [of "Some r"] Cons.prems show ?case
    by (simp add: map_iterator_next_def Let_def)
qed (simp add: map_iterator_next_def)

lemma forEach_rest:
  assumes "items.segment s p rs None" "\<And>v k c. callbackfn v k s c = (False, s, g v k c)"
  shows "forEach_loop callbackfn (lm_state s) (first_or rs None) s c =
    Some (Inr (), s, foldl (\<lambda>c (k, v). g v k c) c (entries s rs))"
  using assms
proof (induction rs arbitrary: p c)
  case Nil
  then show ?case by (simp add: forEach_loop.simps [of _ _ None])
next
  case (Cons r rs)
  from Cons.IH [of "Some r"] Cons.prems show ?case
    by (simp add: forEach_loop.simps [of _ _ "Some r"] key_of_def)
qed

lemma toJSON_linked: "linked s rs \<Longrightarrow> LinkedMap_toJSON s = Some (entries s rs)"
proof -
  assume s: "linked s rs"
  have "foldl (\<lambda>c (k, v). c @ [(k, v)]) d al = d @ al" for d al :: "('a \<times> 'b) list"
    by (induction al arbitrary: d) auto
  with forEach_rest [OF linkedD(2) [OF s], of "\<lambda>v k s d. (False, s, d @ [(k, v)])" "\<lambda>v k d. d @ [(k, v)]"] linkedD(3) [OF s]
  show ?thesis by (simp add: LinkedMap_toJSON_def LinkedMap_forEach_def)
qed

lemma set_all_linked:
  assumes "linked s rs"
  shows "\<exists>u ts. set_all (\<lambda>k v. LinkedMap_set k v Touch_None) d s = (Inr (), u) \<and> linked u ts \<and> entries u ts = foldl (\<lambda>al (k, v). AList.update k v al) (entries s rs) d"
  using assms
proof (induction d arbitrary: s rs)
  case Nil
  then show ?case by auto
next
  case (Cons kv d)
  obtain k v where kv: "kv = (k, v)" by (cases kv)
  from set_linked [OF Cons.prems, of k v Touch_None] obtain u ts where
    u: "LinkedMap_set k v Touch_None s = (Inr (), u)" "linked u ts" "entries u ts = set_touched k v Touch_None (entries s rs)"
    by blast
  have "set_touched k v Touch_None al = AList.update k v al" for al :: "('a \<times> 'b) list"
    by (simp add: set_touched_def touched_def split: option.split)
  with Cons.IH [OF u(2)] u show ?case by (simp add: kv sbind_ok [of "LinkedMap_set k v Touch_None" s "()" u, OF u(1)])
qed


section \<open>Properties\<close>

lemma first_last_linked:
  assumes "linked s rs"
  shows "LinkedMap_first s = map_option snd (first_or (entries s rs) None)"
    "LinkedMap_last s = map_option snd (last_or None (entries s rs))"
proof -
  show "LinkedMap_first s = map_option snd (first_or (entries s rs) None)"
    using linkedD(3) [OF assms] by (cases rs) (simp_all add: LinkedMap_first_def)
  show "LinkedMap_last s = map_option snd (last_or None (entries s rs))"
    using linkedD(4) [OF assms] by (cases rs rule: rev_cases) (simp_all add: LinkedMap_last_def)
qed

text \<open>
  C33. \<open>LinkedMap\<close> refines ordered association lists, with each key once. \<open>get\<close> and \<open>set\<close> look up and
  update an entry and leave it in its place or move it to either end, as \<open>touch\<close> says; a new entry comes
  last, or first where it is touched as old. \<open>remove\<close>, \<open>shift\<close> and \<open>clear\<close> take out one entry, the first and
  all; \<open>trimOld\<close> and \<open>trimNew\<close> keep that many entries at the end and at the start. Nothing is thrown, and
  \<open>size\<close>, \<open>has\<close>, \<open>first\<close>, \<open>last\<close>, \<open>toJSON\<close> and the iterators agree with the list.
\<close>

theorem LinkedMap_refines:
  assumes "represents s al"
  shows "distinct (map fst al) \<and> lm_size s = int (length al) \<and> (LinkedMap_isEmpty s \<longleftrightarrow> al = [])
      \<and> (LinkedMap_has k s \<longleftrightarrow> map_of al k \<noteq> None)
      \<and> LinkedMap_first s = map_option snd (first_or al None) \<and> LinkedMap_last s = map_option snd (last_or None al)
    \<and> (\<exists>u. LinkedMap_get k t s = (Inr (map_of al k), u) \<and> represents u (touched k t al))
    \<and> (\<exists>u. LinkedMap_set k v t s = (Inr (), u) \<and> represents u (set_touched k v t al))
    \<and> (\<exists>u. LinkedMap_remove k s = (Inr (map_of al k), u) \<and> represents u (AList.delete k al))
    \<and> (\<exists>u. LinkedMap_shift s = (Inr (map_option snd (first_or al None)), u) \<and> represents u (tl al))
    \<and> represents (LinkedMap_clear s) []
    \<and> (0 \<le> n \<longrightarrow> represents (trimOld n s) (newest n al) \<and> represents (trimNew n s) (oldest n al))
    \<and> LinkedMap_toJSON s = Some al
    \<and> (\<exists>u. LinkedMap_fromJSON (\<lambda>k v. LinkedMap_set k v Touch_None) d s = (Inr (), u) \<and> represents u (foldl (\<lambda>al (k, v). AList.update k v al) [] d))
    \<and> next_results (length al + 1) LinkedMap_entries_next s (map_iterator_new s) = map (\<lambda>e. Inr (Some e)) al @ [Inr None]"
proof (intro conjI impI)
  obtain rs where rs: "linked s rs" "al = entries s rs" using assms by (auto simp: represents_def)
  show "distinct (map fst al)" "lm_size s = int (length al)" "LinkedMap_isEmpty s \<longleftrightarrow> al = []"
    "LinkedMap_first s = map_option snd (first_or al None)" "LinkedMap_last s = map_option snd (last_or None al)"
    using linked_keys(1) [OF rs(1)] linkedD(3-5) [OF rs(1)] first_last_linked [OF rs(1)] rs(2)
    by (auto simp: LinkedMap_isEmpty_def)
  show "LinkedMap_has k s \<longleftrightarrow> map_of al k \<noteq> None"
    using linked_keys(2) [OF rs(1), of k] rs(2) by (auto simp: LinkedMap_has_def map_has_get map_of_eq_None_iff)
  show "\<exists>u. LinkedMap_get k t s = (Inr (map_of al k), u) \<and> represents u (touched k t al)"
    using get_linked [OF rs(1), of k t] unfolding represents_def rs(2) by metis
  show "\<exists>u. LinkedMap_set k v t s = (Inr (), u) \<and> represents u (set_touched k v t al)"
    using set_linked [OF rs(1), of k v t] unfolding represents_def rs(2) by metis
  show "\<exists>u. LinkedMap_remove k s = (Inr (map_of al k), u) \<and> represents u (AList.delete k al)"
    using remove_linked [OF rs(1), of k] unfolding represents_def rs(2) by metis
  show "\<exists>u. LinkedMap_shift s = (Inr (map_option snd (first_or al None)), u) \<and> represents u (tl al)"
    using shift_linked [OF rs(1)] unfolding represents_def rs(2) by metis
  show clear: "represents (LinkedMap_clear s) []"
    using clear_linked(1) [of s] unfolding represents_def by (intro exI [of _ "[]"]) simp
  show "represents (trimOld n s) (newest n al)" "represents (trimNew n s) (oldest n al)" if "0 \<le> n"
    using trimOld_linked [OF rs(1) that] trimNew_linked [OF rs(1) that] unfolding represents_def rs(2) by metis+
  show "LinkedMap_toJSON s = Some al" using toJSON_linked [OF rs(1)] rs(2) by simp
  show "\<exists>u. LinkedMap_fromJSON (\<lambda>k v. LinkedMap_set k v Touch_None) d s = (Inr (), u) \<and> represents u (foldl (\<lambda>al (k, v). AList.update k v al) [] d)"
    using set_all_linked [OF clear_linked(1) [of s], of d] unfolding represents_def LinkedMap_fromJSON_def by auto metis
  show "next_results (length al + 1) LinkedMap_entries_next s (map_iterator_new s) = map (\<lambda>e. Inr (Some e)) al @ [Inr None]"
    using next_results_rest [OF linkedD(2) [OF rs(1)], of "map_iterator_new s" "\<lambda>it. (item_key it, item_value it)"] linkedD(3) [OF rs(1)]
    by (simp add: map_iterator_new_def LinkedMap_entries_next_def rs(2) entries_def key_of_def value_of_def comp_def)
qed

lemma represents_new: "represents LinkedMap_new []"
  unfolding represents_def by (rule exI [of _ "[]"]) (simp add: linked_def LinkedMap_new_def)

theorem LinkedMap_refines_witness:
  "\<exists>u w. LinkedMap_set ''a'' (1 :: int) Touch_None LinkedMap_new = (Inr (), u)
    \<and> LinkedMap_set ''b'' 2 AsOld u = (Inr (), w) \<and> represents w [(''b'', 2), (''a'', 1)]
    \<and> represents (trimOld 1 w) [(''a'', 1)]"
proof -
  obtain u where u: "LinkedMap_set ''a'' (1 :: int) Touch_None LinkedMap_new = (Inr (), u)" "represents u [(''a'', 1)]"
    using LinkedMap_refines [OF represents_new, of "''a''" Touch_None 1] by (auto simp: set_touched_def touched_def)
  obtain w where w: "LinkedMap_set ''b'' 2 AsOld u = (Inr (), w)" "represents w [(''b'', 2), (''a'', 1)]"
    using LinkedMap_refines [OF u(2), of "''b''" AsOld 2] by (auto simp: set_touched_def touched_def)
  from LinkedMap_refines [OF w(2), of "''b''" AsOld 2 1] have "represents (trimOld 1 w) [(''a'', 1)]"
    by (simp add: newest_def)
  with u(1) w show ?thesis by blast
qed

text \<open>An iterator throws once the list has been changed, and goes on when only a value has.\<close>

lemma iterator_notices:
  "lm_state s \<noteq> it_state it \<Longrightarrow> fst (map_iterator_next result s it) = Inl Modified_during_iteration"
  "lm_state (put_item r x s) = lm_state s"
  by (simp_all add: map_iterator_next_def put_item_def)

text \<open>\<open>delete\<close> answers whether the value it removed counts as true, not whether it removed one.\<close>

lemma delete_falsy:
  assumes "represents s al" "map_of al k = Some v"
  shows "\<exists>u. LinkedMap_delete truthy k s = (Inr (truthy v), u) \<and> represents u (AList.delete k al)"
proof -
  obtain rs where rs: "linked s rs" "al = entries s rs" using assms by (auto simp: represents_def)
  from remove_linked [OF rs(1), of k] obtain u ts where
    u: "LinkedMap_remove k s = (Inr (Some v), u)" "linked u ts" "entries u ts = AList.delete k al"
    using assms(2) rs(2) by auto
  then show ?thesis
    by (intro exI [of _ u]) (auto simp: LinkedMap_delete_def sbind_ok [of "LinkedMap_remove k" s "Some v" u, OF u(1)] represents_def)
qed

end
