(* ===== verification/Caches.thy ===== *)
theory Caches
  imports LinkedMapProps Complex_Main
begin

text \<open>
  \<open>src/patched-vscode/src/vs/base/common/map.ts\<close>: the classes \<open>Cache\<close>, \<open>LRUCache\<close> and \<open>MRUCache\<close>.

  A cache is a \<open>LinkedMap\<close> with two more fields. Its limit and ratio are rationals, so the product of
  both is exact. What the caches use of the map is the locale \<open>ordered_map\<close>, which is interpreted on
  \<open>LinkedMap\<close>; their properties are shown from its laws.
\<close>

section \<open>Model\<close>

record ('k, 'v) cache = "('k, 'v) linked_map" +
  cache_limit :: rat
  cache_ratio :: rat

text \<open>\<open>Math.round\<close> rounds halves up.\<close>

definition js_round :: "rat \<Rightarrow> int" where
  "js_round x = \<lfloor>x + 1 / 2\<rfloor>"

definition clamped_ratio :: "rat \<Rightarrow> rat" where
  "clamped_ratio r = min (max 0 r) 1"

definition Cache_new :: "rat \<Rightarrow> rat \<Rightarrow> ('k, 'v) cache" where
  "Cache_new limit ratio = \<lparr>lm_items = Map.empty, lm_count = 0, lm_map = map_new, lm_head = None, lm_tail = None,
     lm_size = 0, lm_state = 0, cache_limit = limit, cache_ratio = clamped_ratio ratio\<rparr>"

text \<open>The size that a cache is trimmed to.\<close>

definition trim_size :: "('k, 'v) cache \<Rightarrow> int" where
  "trim_size s = js_round (cache_limit s * cache_ratio s)"

definition Cache_checkTrim :: "(int \<Rightarrow> ('k, 'v) cache \<Rightarrow> ('k, 'v) cache) \<Rightarrow> ('k, 'v) cache \<Rightarrow> ('k, 'v) cache" where
  "Cache_checkTrim trim s = (if of_int (lm_size s) > cache_limit s then trim (trim_size s) s else s)"

definition Cache_set_limit :: "(int \<Rightarrow> ('k, 'v) cache \<Rightarrow> ('k, 'v) cache) \<Rightarrow> rat \<Rightarrow> ('k, 'v) cache \<Rightarrow> ('k, 'v) cache" where
  "Cache_set_limit trim limit s = Cache_checkTrim trim (s\<lparr>cache_limit := limit\<rparr>)"

definition Cache_set_ratio :: "(int \<Rightarrow> ('k, 'v) cache \<Rightarrow> ('k, 'v) cache) \<Rightarrow> rat \<Rightarrow> ('k, 'v) cache \<Rightarrow> ('k, 'v) cache" where
  "Cache_set_ratio trim ratio s = Cache_checkTrim trim (s\<lparr>cache_ratio := clamped_ratio ratio\<rparr>)"

definition Cache_get :: "'k \<Rightarrow> touch \<Rightarrow> (('k, 'v) cache, 'v option) step" where
  "Cache_get k touch = LinkedMap_get k touch"

definition Cache_peek :: "'k \<Rightarrow> (('k, 'v) cache, 'v option) step" where
  "Cache_peek k = LinkedMap_get k Touch_None"

definition Cache_set :: "'k \<Rightarrow> 'v \<Rightarrow> (('k, 'v) cache, unit) step" where
  "Cache_set k v = LinkedMap_set k v AsNew"

definition LRUCache_trim :: "int \<Rightarrow> ('k, 'v) cache \<Rightarrow> ('k, 'v) cache" where
  "LRUCache_trim = trimOld"

definition LRUCache_set :: "'k \<Rightarrow> 'v \<Rightarrow> (('k, 'v) cache, unit) step" where
  "LRUCache_set k v = sbind (Cache_set k v) (\<lambda>_. smodify (Cache_checkTrim LRUCache_trim))"

definition MRUCache_trim :: "int \<Rightarrow> ('k, 'v) cache \<Rightarrow> ('k, 'v) cache" where
  "MRUCache_trim = trimNew"

definition MRUCache_set :: "'k \<Rightarrow> 'v \<Rightarrow> (('k, 'v) cache, unit) step" where
  "MRUCache_set k v =
     sbind (smodify (\<lambda>s. if cache_limit s \<le> of_int (lm_size s) \<and> \<not> LinkedMap_has k s then MRUCache_trim (trim_size s - 1) s else s))
       (\<lambda>_. Cache_set k v)"

section \<open>What the caches rely on\<close>

locale ordered_map =
  fixes rep :: "'s \<Rightarrow> ('k \<times> 'v) list \<Rightarrow> bool"
    and get_op :: "'k \<Rightarrow> touch \<Rightarrow> ('s, 'v option) step"
    and set_op :: "'k \<Rightarrow> 'v \<Rightarrow> touch \<Rightarrow> ('s, unit) step"
    and has_op :: "'k \<Rightarrow> 's \<Rightarrow> bool"
    and trim_old trim_new :: "int \<Rightarrow> 's \<Rightarrow> 's"
    and size_op :: "'s \<Rightarrow> int"
  assumes keys: "rep s al \<Longrightarrow> distinct (map fst al)"
    and size: "rep s al \<Longrightarrow> size_op s = int (length al)"
    and has: "rep s al \<Longrightarrow> has_op k s \<longleftrightarrow> map_of al k \<noteq> None"
    and get: "rep s al \<Longrightarrow> \<exists>t. get_op k touch s = (Inr (map_of al k), t) \<and> rep t (touched k touch al)"
    and put: "rep s al \<Longrightarrow> \<exists>t. set_op k v touch s = (Inr (), t) \<and> rep t (set_touched k v touch al)"
    and trim: "rep s al \<Longrightarrow> 0 \<le> n \<Longrightarrow> rep (trim_old n s) (newest n al) \<and> rep (trim_new n s) (oldest n al)"
begin

text \<open>Trimming to at most the limit when it is exceeded.\<close>

lemma trim_over:
  assumes "rep s al" "0 \<le> n" "of_int n \<le> (limit :: rat)"
  shows "\<exists>al'. rep (if of_int (size_op s) > limit then trim_old n s else s) al' \<and> of_nat (length al') \<le> limit
    \<and> al' = (if of_nat (length al) > limit then newest n al else al)"
proof -
  have "of_nat (length (newest n al)) \<le> limit"
  proof -
    have "int (length (newest n al)) \<le> n" using assms(2) by (simp add: newest_def)
    then have "(of_int (int (length (newest n al))) :: rat) \<le> of_int n" by (simp only: of_int_le_iff)
    with assms(3) show ?thesis by simp
  qed
  with size [OF assms(1)] trim [OF assms(1,2)] assms(1) show ?thesis by auto
qed

lemma put_trimmed:
  assumes "rep s al" "0 \<le> n" "of_int n \<le> (limit :: rat)"
  shows "\<exists>t. sbind (set_op k v AsNew) (\<lambda>_. smodify (\<lambda>s. if of_int (size_op s) > limit then trim_old n s else s)) s = (Inr (), t)
    \<and> rep t (let al' = set_touched k v AsNew al in if of_nat (length al') > limit then newest n al' else al')"
proof -
  obtain t where t: "set_op k v AsNew s = (Inr (), t)" "rep t (set_touched k v AsNew al)" using put [OF assms(1)] by blast
  from trim_over [OF t(2) assms(2,3)] show ?thesis
    by (auto simp: Let_def sbind_ok [of "set_op k v AsNew" s "()" t, OF t(1)])
qed

lemma put_before_trimmed:
  assumes "rep s al" "1 \<le> n"
  shows "\<exists>t. sbind (smodify (\<lambda>s. if (limit :: rat) \<le> of_int (size_op s) \<and> \<not> has_op k s then trim_new (n - 1) s else s))
      (\<lambda>_. set_op k v AsNew) s = (Inr (), t)
    \<and> rep t (set_touched k v AsNew (if limit \<le> of_nat (length al) \<and> map_of al k = None then oldest (n - 1) al else al))"
proof -
  have "rep (if limit \<le> of_int (size_op s) \<and> \<not> has_op k s then trim_new (n - 1) s else s)
      (if limit \<le> of_nat (length al) \<and> map_of al k = None then oldest (n - 1) al else al)"
    using size [OF assms(1)] has [OF assms(1), of k] trim [OF assms(1), of "n - 1"] assms by simp
  from put [OF this, of k v AsNew] show ?thesis by simp
qed

end

definition cache_rep :: "rat \<Rightarrow> rat \<Rightarrow> ('k, 'v) cache \<Rightarrow> ('k \<times> 'v) list \<Rightarrow> bool" where
  "cache_rep limit ratio s al \<longleftrightarrow> represents s al \<and> cache_limit s = limit \<and> cache_ratio s = ratio"

lemma same_more:
  fixes s t :: "('k, 'v) cache"
  assumes "linked_map.more t = linked_map.more s"
  shows "cache_limit t = cache_limit s" "cache_ratio t = cache_ratio s"
  using assms by (cases s; cases t; simp)+

lemma cache_rep_linked: "cache_rep limit ratio s al \<longleftrightarrow> cache_limit s = limit \<and> cache_ratio s = ratio \<and> (\<exists>rs. linked s rs \<and> al = entries s rs)"
  by (auto simp: cache_rep_def represents_def)

interpretation cache_map: ordered_map "cache_rep limit ratio" LinkedMap_get LinkedMap_set LinkedMap_has trimOld trimNew lm_size
  for limit ratio
proof unfold_locales
  fix s :: "('k, 'v) cache" and al k v touch n
  assume s: "cache_rep limit ratio s al"
  then obtain rs where rs: "linked s rs" "al = entries s rs" and fields: "cache_limit s = limit" "cache_ratio s = ratio"
    by (auto simp: cache_rep_linked)
  show "distinct (map fst al)" "lm_size s = int (length al)"
    using linked_keys(1) [OF rs(1)] linkedD(5) [OF rs(1)] rs(2) by simp_all
  show "LinkedMap_has k s \<longleftrightarrow> map_of al k \<noteq> None"
    using linked_keys(2) [OF rs(1), of k] rs(2) by (auto simp: LinkedMap_has_def map_has_get map_of_eq_None_iff)
  show "\<exists>t. LinkedMap_get k touch s = (Inr (map_of al k), t) \<and> cache_rep limit ratio t (touched k touch al)"
    using get_linked [OF rs(1), of k touch] fields rs(2) unfolding cache_rep_linked by (metis same_more)
  show "\<exists>t. LinkedMap_set k v touch s = (Inr (), t) \<and> cache_rep limit ratio t (set_touched k v touch al)"
    using set_linked [OF rs(1), of k v touch] fields rs(2) unfolding cache_rep_linked by (metis same_more)
  show "cache_rep limit ratio (trimOld n s) (newest n al) \<and> cache_rep limit ratio (trimNew n s) (oldest n al)" if "0 \<le> n"
    using trimOld_linked [OF rs(1) that] trimNew_linked [OF rs(1) that] fields rs(2) unfolding cache_rep_linked
    by (metis same_more)
qed

section \<open>Sizes\<close>

lemma js_round_bounds:
  assumes "0 \<le> q" "q \<le> 1"
  shows "0 \<le> js_round (of_nat m * q)" "js_round (of_nat m * q) \<le> int m"
proof -
  have q: "0 \<le> of_nat m * q" "of_nat m * q \<le> of_nat m" using assms by (simp_all add: mult_left_le)
  then have "0 \<le> of_nat m * q + 1 / 2" "of_nat m * q + 1 / 2 < of_int (int m + 1)" by simp_all
  then show "0 \<le> js_round (of_nat m * q)" "js_round (of_nat m * q) \<le> int m"
    unfolding js_round_def by (linarith, simp add: floor_le_iff)
qed

lemma clamped_ratio_bounds: "0 \<le> clamped_ratio r" "clamped_ratio r \<le> 1"
  by (simp_all add: clamped_ratio_def)

lemma js_round_nat [simp]: "js_round (of_nat m) = int m"
  unfolding js_round_def by (rule floor_unique) simp_all

lemma set_touched_new: "set_touched k v AsNew al = AList.delete k al @ [(k, v)]"
proof -
  have "AList.delete k (AList.update k v al) = AList.delete k al" by (induction al) auto
  then show ?thesis by (simp add: set_touched_def touched_def update_conv')
qed

lemma length_delete: "length (AList.delete k al) \<le> length al"
  by (simp add: AList.delete_eq)

lemma length_delete_distinct: "distinct (map fst al) \<Longrightarrow> length al \<le> Suc (length (AList.delete k al))"
  by (induction al) (auto simp: delete_id image_iff)


lemma length_delete_there: "map_of al k = Some v \<Longrightarrow> length (AList.delete k al) < length al"
  by (induction al) (auto simp: length_delete le_imp_less_Suc less_SucI split: if_splits)

lemma length_set_touched:
  "length (set_touched k v AsNew al) \<le> Suc (length al)"
  "map_of al k \<noteq> None \<Longrightarrow> length (set_touched k v AsNew al) \<le> length al"
  using length_delete_there [of al k] by (auto simp: set_touched_new length_delete)

lemma length_touched: "length (touched k t al) \<le> length al"
  using length_delete_there [of al k] by (cases t) (auto simp: touched_def split: option.split)

lemma newest_append: "0 \<le> n \<Longrightarrow> n \<le> int (length ys) \<Longrightarrow> newest n (xs @ ys) = newest n ys"
  by (simp add: newest_def)

lemma newest_snoc: "1 \<le> n \<Longrightarrow> newest n (xs @ [x]) = newest (n - 1) xs @ [x]"
  by (simp add: newest_def nat_diff_distrib)

text \<open>Trimming now or later: what is put into the newest entries is put into all of them.\<close>

lemma newest_set_touched:
  assumes "distinct (map fst al)" "1 \<le> n"
  shows "newest n (set_touched k v AsNew (newest n al)) = newest n (set_touched k v AsNew al)"
proof (cases "n \<le> int (length al)")
  case False
  then show ?thesis by (simp add: newest_def)
next
  case True
  obtain old where al: "al = old @ newest n al" unfolding newest_def by (metis append_take_drop_id)
  have len: "int (length (newest n al)) = n" using True assms(2) by (simp add: newest_def)
  have "distinct (map fst (newest n al))" using assms(1) al by (metis distinct_append map_append)
  from length_delete_distinct [OF this, of k] len
  have "n - 1 \<le> int (length (AList.delete k (newest n al)))" by simp
  moreover have "AList.delete k al = AList.delete k old @ AList.delete k (newest n al)"
    by (subst al) (simp add: AList.delete_eq)
  ultimately have "newest (n - 1) (AList.delete k al) = newest (n - 1) (AList.delete k (newest n al))"
    using assms(2) newest_append [of "n - 1" "AList.delete k (newest n al)" "AList.delete k old"] by simp
  with assms(2) show ?thesis by (simp add: set_touched_new newest_snoc)
qed

lemma newest_id: "int (length al) \<le> n \<Longrightarrow> newest n al = al"
  by (simp add: newest_def)

section \<open>The least recently used\<close>

lemma LRUCache_set_unfold:
  assumes "cache_limit s = limit" "cache_ratio s = ratio"
  shows "LRUCache_set k v s = sbind (LinkedMap_set k v AsNew)
    (\<lambda>_. smodify (\<lambda>t. if of_int (lm_size t) > cache_limit t then trimOld (trim_size t) t else t)) s"
  by (simp add: LRUCache_set_def Cache_set_def Cache_checkTrim_def [abs_def] LRUCache_trim_def)

lemma lru_put:
  assumes "cache_rep (of_nat m) q s al" "0 \<le> q" "q \<le> 1"
  shows "\<exists>t. LRUCache_set k v s = (Inr (), t) \<and> cache_rep (of_nat m) q t
    (let al' = set_touched k v AsNew al in if length al' > m then newest (js_round (of_nat m * q)) al' else al')"
proof -
  let ?n = "js_round (of_nat m * q)"
  from cache_map.put [OF assms(1), of k v AsNew] obtain t where
    t: "LinkedMap_set k v AsNew s = (Inr (), t)" "cache_rep (of_nat m) q t (set_touched k v AsNew al)" by blast
  then have fields: "cache_limit t = of_nat m" "trim_size t = ?n" by (simp_all add: cache_rep_def trim_size_def)
  have n: "0 \<le> ?n" using js_round_bounds assms(2,3) by blast
  have "of_int (lm_size t) > (of_nat m :: rat) \<longleftrightarrow> length (set_touched k v AsNew al) > m"
    using cache_map.size [OF t(2)] by simp
  with t fields cache_map.trim [OF t(2) n] show ?thesis
    by (auto simp: LRUCache_set_unfold [OF refl refl] sbind_ok [of "LinkedMap_set k v AsNew" s "()" t, OF t(1)] Let_def)
qed

text \<open>The public methods of a cache, as steps between its states.\<close>

inductive lru_step :: "('k, 'v) cache \<Rightarrow> ('k, 'v) cache \<Rightarrow> bool" where
  set: "LRUCache_set k v s = (r, t) \<Longrightarrow> lru_step s t"
| get: "Cache_get k touch s = (r, t) \<Longrightarrow> lru_step s t"
| peek: "Cache_peek k s = (r, t) \<Longrightarrow> lru_step s t"
| remove: "LinkedMap_remove k s = (r, t) \<Longrightarrow> lru_step s t"
| shift: "LinkedMap_shift s = (r, t) \<Longrightarrow> lru_step s t"
| clear: "lru_step s (LinkedMap_clear s)"
| fromJSON: "LinkedMap_fromJSON LRUCache_set d s = (r, t) \<Longrightarrow> lru_step s t"
| limit: "lru_step s (Cache_set_limit LRUCache_trim (of_nat m) s)"
| ratio: "lru_step s (Cache_set_ratio LRUCache_trim q s)"

definition bounded :: "('k, 'v) cache \<Rightarrow> bool" where
  "bounded s \<longleftrightarrow> (\<exists>m q al. cache_rep (of_nat m) q s al \<and> 0 \<le> q \<and> q \<le> 1 \<and> length al \<le> m)"

lemma lru_put_bounded:
  assumes "cache_rep (of_nat m) q s al" "0 \<le> q" "q \<le> 1"
  shows "\<exists>t al'. LRUCache_set k v s = (Inr (), t) \<and> cache_rep (of_nat m) q t al' \<and> length al' \<le> m"
proof -
  let ?al = "set_touched k v AsNew al" and ?n = "js_round (of_nat m * q)"
  have "length (newest ?n ?al) \<le> m" using js_round_bounds [OF assms(2,3), of m] by (simp add: newest_def)
  with lru_put [OF assms, of k v] show ?thesis by (cases "length ?al > m") (force simp: Let_def not_less)+
qed

lemma lru_set_all_bounded:
  assumes "cache_rep (of_nat m) q s al" "0 \<le> q" "q \<le> 1" "length al \<le> m"
  shows "\<exists>t al'. set_all LRUCache_set d s = (Inr (), t) \<and> cache_rep (of_nat m) q t al' \<and> length al' \<le> m"
  using assms
proof (induction d arbitrary: s al)
  case (Cons kv d)
  obtain k v where kv: "kv = (k, v)" by (cases kv)
  from lru_put_bounded [OF Cons.prems(1-3), of k v] obtain t al' where
    t: "LRUCache_set k v s = (Inr (), t)" "cache_rep (of_nat m) q t al'" "length al' \<le> m" by blast
  from Cons.IH [OF t(2) Cons.prems(2,3) t(3)] show ?case
    by (simp add: kv sbind_ok [of "LRUCache_set k v" s "()" t, OF t(1)])
qed auto

lemma check_trim_bounded:
  assumes "cache_rep (of_nat m) q s al" "0 \<le> q" "q \<le> 1"
  shows "bounded (Cache_checkTrim LRUCache_trim s)"
proof -
  have fields: "cache_limit s = of_nat m" "cache_ratio s = q" using assms(1) by (simp_all add: cache_rep_def)
  have n: "0 \<le> trim_size s" "of_int (trim_size s) \<le> (of_nat m :: rat)"
    using js_round_bounds [OF assms(2,3), of m] fields by (simp_all add: trim_size_def)
  from cache_map.trim_over [OF assms(1) n] obtain al' where
    "cache_rep (of_nat m) q (Cache_checkTrim LRUCache_trim s) al'" "of_nat (length al') \<le> (of_nat m :: rat)"
    by (auto simp: Cache_checkTrim_def LRUCache_trim_def fields)
  with assms(2,3) show ?thesis unfolding bounded_def by auto
qed

lemma field_rep:
  assumes "cache_rep l q s al"
  shows "cache_rep l' q (s\<lparr>cache_limit := l'\<rparr>) al" "cache_rep l q' (s\<lparr>cache_ratio := q'\<rparr>) al"
proof -
  have at: "item_at (s\<lparr>cache_limit := l'\<rparr>) = item_at s" "item_at (s\<lparr>cache_ratio := q'\<rparr>) = item_at s"
    by (simp_all add: item_at_def fun_eq_iff)
  from assms show "cache_rep l' q (s\<lparr>cache_limit := l'\<rparr>) al" "cache_rep l q' (s\<lparr>cache_ratio := q'\<rparr>) al"
    unfolding cache_rep_linked linked_def same_items [OF at(1)] same_items [OF at(2)] by simp_all
qed

lemma new_rep: "cache_rep l (clamped_ratio q) (Cache_new l q) []"
proof -
  have "linked (Cache_new l q) []" by (simp add: linked_def Cache_new_def)
  then show ?thesis unfolding cache_rep_linked by (auto simp: Cache_new_def intro: exI [of _ "[]"])
qed

lemma bounded_new: "bounded (Cache_new (of_nat m) q)"
  using new_rep [of "of_nat m" q] clamped_ratio_bounds [of q] unfolding bounded_def by fastforce

lemma bounded_step:
  fixes s t :: "('k, 'v) cache"
  assumes "lru_step s t" "bounded s"
  shows "bounded t"
proof -
  obtain m q al where s: "cache_rep (of_nat m) q s al" "0 \<le> q" "q \<le> 1" "length al \<le> m"
    using assms(2) by (auto simp: bounded_def)
  obtain rs where rs: "linked s rs" "al = entries s rs" "cache_limit s = of_nat m" "cache_ratio s = q"
    using s(1) by (auto simp: cache_rep_linked)
  have rest: "bounded u" if "linked u ts" "entries u ts = al'" "length al' \<le> length al" "linked_map.more u = linked_map.more s" for u :: "('k, 'v) cache" and ts al'
    using that s(2-4) rs(3,4) same_more [OF that(4)] unfolding bounded_def cache_rep_linked by fastforce
  have read: "bounded u" if "LinkedMap_get k tch s = (r, u)" for k tch r and u :: "('k, 'v) cache"
    using get_linked [OF rs(1), of k tch] that rest length_touched [of k tch al] rs(2) by force
  from assms(1) show ?thesis
  proof cases
    case (set k v r)
    with lru_put_bounded [OF s(1-3), of k v] s(2,3) show ?thesis by (force simp: bounded_def)
  next
    case (get k touch r)
    with read show ?thesis by (simp add: Cache_get_def)
  next
    case (peek k r)
    with read show ?thesis by (simp add: Cache_peek_def)
  next
    case (remove k r)
    with remove_linked [OF rs(1), of k] rest length_delete [of k al] rs(2) show ?thesis by force
  next
    case (shift r)
    with shift_linked [OF rs(1)] rest rs(2) show ?thesis by force
  next
    case clear
    with rest [OF clear_linked(1) refl _ clear_linked(2)] show ?thesis by simp
  next
    case (fromJSON d r)
    have "cache_rep (of_nat m) q (LinkedMap_clear s) []"
      using clear_linked [of s] same_more [OF clear_linked(2) [of s]] rs(3,4) unfolding cache_rep_linked
      by (intro conjI exI [of _ "[]"]) simp_all
    from lru_set_all_bounded [OF this s(2,3), of d] fromJSON s(2,3) show ?thesis
      by (auto simp: LinkedMap_fromJSON_def bounded_def)
  next
    case (limit n)
    with check_trim_bounded [OF field_rep(1) [OF s(1)] s(2,3)] show ?thesis by (simp add: Cache_set_limit_def)
  next
    case (ratio p)
    with check_trim_bounded [OF field_rep(2) [OF s(1)] clamped_ratio_bounds] show ?thesis by (simp add: Cache_set_ratio_def)
  qed
qed


text \<open>The entries of a sequence of calls of \<open>set\<close>: each key where it was set last.\<close>

fun recent :: "('k \<times> 'v) list \<Rightarrow> ('k \<times> 'v) list" where
  "recent [] = []"
| "recent ((k, v) # d) = (if k \<in> fst ` set d then recent d else (k, v) # recent d)"

definition set_in_turn :: "('k \<times> 'v) list \<Rightarrow> ('k \<times> 'v) list \<Rightarrow> ('k \<times> 'v) list" where
  "set_in_turn al d = foldl (\<lambda>al (k, v). set_touched k v AsNew al) al d"

lemma set_in_turn_recent: "set_in_turn al d = filter (\<lambda>e. fst e \<notin> fst ` set d) al @ recent d"
  unfolding set_in_turn_def
proof (induction d arbitrary: al)
  case (Cons kv d)
  obtain k v where kv: "kv = (k, v)" by (cases kv)
  have "filter (\<lambda>e. fst e \<notin> fst ` set d) (AList.delete k al) = filter (\<lambda>e. fst e \<noteq> k \<and> fst e \<notin> fst ` set d) al"
    by (simp add: AList.delete_eq case_prod_unfold conj_commute) (metis (mono_tags, lifting))
  with Cons.IH [of "set_touched k v AsNew al"] show ?case by (simp add: kv set_touched_new)
qed simp

lemma distinct_set_touched: "distinct (map fst al) \<Longrightarrow> distinct (map fst (set_touched k v AsNew al))"
  by (simp add: set_touched_new distinct_delete) (metis delete_notin_dom dom_map_of_conv_image_fst)

lemma lru_set_all:
  assumes "cache_rep (of_nat m) 1 s (newest (int m) al)" "1 \<le> m" "distinct (map fst al)"
  shows "\<exists>t. set_all LRUCache_set d s = (Inr (), t) \<and> cache_rep (of_nat m) 1 t (newest (int m) (set_in_turn al d))"
  using assms
proof (induction d arbitrary: s al)
  case (Cons kv d)
  obtain k v where kv: "kv = (k, v)" by (cases kv)
  let ?al = "set_touched k v AsNew (newest (int m) al)"
  from lru_put [OF Cons.prems(1) zero_le_one order_refl, of k v, unfolded mult_1_right js_round_nat Let_def]
  obtain t where t: "LRUCache_set k v s = (Inr (), t)"
    "cache_rep (of_nat m) 1 t (if length ?al > m then newest (int m) ?al else ?al)" by blast
  then have "cache_rep (of_nat m) 1 t (newest (int m) ?al)" by (simp add: newest_id split: if_splits)
  then have "cache_rep (of_nat m) 1 t (newest (int m) (set_touched k v AsNew al))"
    using newest_set_touched [OF Cons.prems(3), of "int m" k v] Cons.prems(2) by simp
  from Cons.IH [OF this Cons.prems(2) distinct_set_touched [OF Cons.prems(3)]] show ?case
    by (simp add: kv set_in_turn_def sbind_ok [of "LRUCache_set k v" s "()" t, OF t(1)])
qed (auto simp: set_in_turn_def)

text \<open>
  C34. A cache of the least recently used entries never exceeds its limit, whatever sequence of its public
  methods is called, setting the limit and the ratio included; it stands for an association list
  with each key once, and nothing is thrown.
\<close>

theorem LRUCache_bounded:
  assumes "lru_step\<^sup>*\<^sup>* (Cache_new (of_nat m) q) s"
  shows "of_int (lm_size s) \<le> cache_limit s \<and> (\<exists>al. represents s al \<and> distinct (map fst al) \<and> lm_size s = int (length al))
    \<and> (\<exists>t. LRUCache_set k v s = (Inr (), t)) \<and> (\<exists>x t. Cache_get k touch s = (Inr x, t)) \<and> (\<exists>x t. LinkedMap_shift s = (Inr x, t))"
proof -
  have "bounded s" using assms by (induction) (auto intro: bounded_new bounded_step)
  then obtain l r al where s: "cache_rep (of_nat l) r s al" "0 \<le> r" "r \<le> 1" "length al \<le> l" by (auto simp: bounded_def)
  then obtain rs where rs: "linked s rs" by (auto simp: cache_rep_linked)
  show ?thesis
    using s cache_map.keys [OF s(1)] cache_map.size [OF s(1)] lru_put [OF s(1-3), of k v] cache_map.get [OF s(1), of k touch]
      shift_linked [OF rs] by (auto simp: cache_rep_def Cache_get_def)
qed

theorem LRUCache_bounded_witness:
  "\<exists>s. LRUCache_set ''a'' (1 :: int) (Cache_new 2 1) = (Inr (), s) \<and> of_int (lm_size s) \<le> cache_limit s
    \<and> (\<exists>t. LRUCache_set ''b'' 2 s = (Inr (), t))"
proof -
  obtain s where s: "LRUCache_set ''a'' (1 :: int) (Cache_new 2 1) = (Inr (), s)"
    using lru_put_bounded [where m = 2 and k = "''a''" and v = "1 :: int", OF new_rep [where q = 1] clamped_ratio_bounds] by auto
  then have "lru_step\<^sup>*\<^sup>* (Cache_new (of_nat 2) 1) s" by (auto intro: lru_step.set)
  from LRUCache_bounded [OF this, of "''b''" 2] s show ?thesis by auto
qed

text \<open>
  C35. What such a cache keeps: after any sequence of calls of \<open>set\<close> on a new cache with a limit of at least 1 and
  ratio 1, it holds exactly the entries of the keys that were set last, as many as the limit allows, each
  with the value it was set to last, the most recent one at the end.
\<close>

theorem LRUCache_keeps_newest:
  assumes "1 \<le> m"
  shows "\<exists>t. set_all LRUCache_set d (Cache_new (of_nat m) 1) = (Inr (), t) \<and> represents t (newest (int m) (recent d))"
proof -
  have "cache_rep (of_nat m) 1 (Cache_new (of_nat m) 1) (newest (int m) [])"
    using new_rep [of "of_nat m" 1] by (simp add: clamped_ratio_def newest_def)
  from lru_set_all [OF this assms, of d] show ?thesis by (auto simp: set_in_turn_recent cache_rep_def)
qed

theorem LRUCache_keeps_newest_witness:
  "\<exists>t. set_all LRUCache_set [(''a'', 1 :: int), (''b'', 2), (''a'', 3), (''c'', 4)] (Cache_new 2 1) = (Inr (), t)
    \<and> represents t [(''a'', 3), (''c'', 4)]"
  using LRUCache_keeps_newest [of 2 "[(''a'', 1 :: int), (''b'', 2), (''a'', 3), (''c'', 4)]"] by (simp add: newest_def)

section \<open>The most recently used\<close>

text \<open>
  \<open>MRUCache.set\<close> makes room before it adds an entry, by dropping the newest ones. It keeps the limit if the
  size to trim to is at least 1.
\<close>

lemma MRUCache_set_correct:
  assumes "cache_rep (of_nat m) q s al" "length al \<le> m" "1 \<le> js_round (of_nat m * q)" "js_round (of_nat m * q) \<le> int m"
  shows "\<exists>t al'. MRUCache_set k v s = (Inr (), t) \<and> cache_rep (of_nat m) q t al' \<and> length al' \<le> m \<and> last al' = (k, v)
    \<and> al' = set_touched k v AsNew (if length al = m \<and> map_of al k = None then oldest (js_round (of_nat m * q) - 1) al else al)"
proof -
  let ?n = "js_round (of_nat m * q)"
  let ?kept = "if length al = m \<and> map_of al k = None then oldest (?n - 1) al else al"
  have fields: "cache_limit s = of_nat m" "trim_size s = ?n" using assms(1) by (simp_all add: cache_rep_def trim_size_def)
  have full: "m \<le> length al \<longleftrightarrow> length al = m" using assms(2) by auto
  have run: "MRUCache_set k v s = LinkedMap_set k v AsNew
      (if of_nat m \<le> (of_int (lm_size s) :: rat) \<and> \<not> LinkedMap_has k s then trimNew (?n - 1) s else s)"
    by (simp add: MRUCache_set_def MRUCache_trim_def Cache_set_def fields cong: if_cong)
  have "length (set_touched k v AsNew ?kept) \<le> m"
    using length_set_touched(1) [of k v al] length_set_touched(2) [of al k v] length_set_touched(1) [of k v "oldest (?n - 1) al"] assms(2-4)
    by (auto simp: oldest_def)
  moreover have "last (set_touched k v AsNew ?kept) = (k, v)" by (simp add: set_touched_new)
  moreover from cache_map.put_before_trimmed [OF assms(1,3), of "of_nat m" k v] obtain t where
    "MRUCache_set k v s = (Inr (), t)" "cache_rep (of_nat m) q t (set_touched k v AsNew ?kept)"
    by (auto simp: run full)
  ultimately show ?thesis by blast
qed

text \<open>Otherwise it throws: at limit 1 and ratio 2/5, the second key cannot be set.\<close>

lemma MRUCache_set_throws:
  "fst (set_all MRUCache_set [(''a'', 1 :: int), (''b'', 2)] (Cache_new 1 (2 / 5))) = Inl Invalid_list"
  by code_simp

end
