(* ===== verification/LinkedLists.thy ===== *)
theory LinkedLists
  imports DoublyLinked
begin

text \<open>
  \<open>src/patched-vscode/src/vs/base/common/linkedList.ts\<close>: the class \<open>LinkedList\<close>.

  The nodes live in a store, a map from addresses to nodes, because the nodes are shared: the
  functions that \<open>push\<close> and \<open>unshift\<close> return hold on to the node they are to remove. The node
  \<open>Node.Undefined\<close> is \<open>None\<close>; the code never changes it, as it only ever stores \<open>Node.Undefined\<close> in
  its links. An iterator is a generator that is suspended at the node it has given last.

  The class refines lists (\<open>LinkedList_refines\<close>), as long as a node is only removed while it is in the
  list; \<open>stale_removal\<close> shows what happens otherwise.
\<close>

section \<open>Model\<close>

record 'e node =
  element :: 'e
  node_next :: "nat option"
  node_prev :: "nat option"

record 'e linked_list =
  ll_nodes :: "nat \<rightharpoonup> 'e node"
  ll_count :: nat
  ll_first :: "nat option"
  ll_last :: "nat option"
  ll_size :: int

definition LinkedList_new :: "'e linked_list" where
  "LinkedList_new = \<lparr>ll_nodes = Map.empty, ll_count = 0, ll_first = None, ll_last = None, ll_size = 0\<rparr>"

definition node_at :: "'e linked_list \<Rightarrow> nat \<Rightarrow> 'e node" where
  "node_at s r = the (ll_nodes s r)"

definition next_node :: "'e linked_list \<Rightarrow> nat \<Rightarrow> nat option" where
  "next_node s r = node_next (node_at s r)"

definition prev_node :: "'e linked_list \<Rightarrow> nat \<Rightarrow> nat option" where
  "prev_node s r = node_prev (node_at s r)"

definition set_next_node :: "nat \<Rightarrow> nat option \<Rightarrow> 'e linked_list \<Rightarrow> 'e linked_list" where
  "set_next_node r q s = s\<lparr>ll_nodes := (ll_nodes s)(r \<mapsto> (node_at s r)\<lparr>node_next := q\<rparr>)\<rparr>"

definition set_prev_node :: "nat \<Rightarrow> nat option \<Rightarrow> 'e linked_list \<Rightarrow> 'e linked_list" where
  "set_prev_node r q s = s\<lparr>ll_nodes := (ll_nodes s)(r \<mapsto> (node_at s r)\<lparr>node_prev := q\<rparr>)\<rparr>"

text \<open>\<open>new Node(element)\<close>, at a new address.\<close>

definition Node_new :: "'e \<Rightarrow> 'e linked_list \<Rightarrow> nat \<times> 'e linked_list" where
  "Node_new e s = (ll_count s,
     s\<lparr>ll_nodes := (ll_nodes s)(ll_count s \<mapsto> \<lparr>element = e, node_next = None, node_prev = None\<rparr>),
       ll_count := ll_count s + 1\<rparr>)"

definition LinkedList_isEmpty :: "'e linked_list \<Rightarrow> bool" where
  "LinkedList_isEmpty s \<longleftrightarrow> ll_first s = None"

partial_function (option) clear_loop :: "nat option \<Rightarrow> 'e linked_list \<Rightarrow> 'e linked_list option" where
  "clear_loop n s =
     (case n of
        None \<Rightarrow> Some s
      | Some r \<Rightarrow> clear_loop (next_node s r) (set_next_node r None (set_prev_node r None s)))"

definition LinkedList_clear :: "'e linked_list \<Rightarrow> 'e linked_list option" where
  "LinkedList_clear s =
     (case clear_loop (ll_first s) s of
        None \<Rightarrow> None
      | Some s \<Rightarrow> Some (s\<lparr>ll_first := None, ll_last := None, ll_size := 0\<rparr>))"

text \<open>The links of a node that may be \<open>Node.Undefined\<close>.\<close>

definition links_of :: "('e linked_list \<Rightarrow> nat \<Rightarrow> nat option) \<Rightarrow> 'e linked_list \<Rightarrow> nat option \<Rightarrow> nat option" where
  "links_of f s n = (case n of None \<Rightarrow> None | Some r \<Rightarrow> f s r)"

definition unset :: "(nat \<Rightarrow> nat option \<Rightarrow> 'e linked_list \<Rightarrow> 'e linked_list) \<Rightarrow> nat option \<Rightarrow> 'e linked_list \<Rightarrow> 'e linked_list" where
  "unset f n s = (case n of None \<Rightarrow> s | Some r \<Rightarrow> f r None s)"

definition LinkedList_remove :: "nat \<Rightarrow> 'e linked_list \<Rightarrow> 'e linked_list" where
  "LinkedList_remove node s =
     (let s =
        (case (prev_node s node, next_node s node) of
           (Some anchor, Some nxt) \<Rightarrow> set_prev_node nxt (Some anchor) (set_next_node anchor (Some nxt) s)
         | (None, None) \<Rightarrow> s\<lparr>ll_first := None, ll_last := None\<rparr>
         | (Some _, None) \<Rightarrow>
             let s = s\<lparr>ll_last := links_of prev_node s (ll_last s)\<rparr> in unset set_next_node (ll_last s) s
         | (None, Some _) \<Rightarrow>
             let s = s\<lparr>ll_first := links_of next_node s (ll_first s)\<rparr> in unset set_prev_node (ll_first s) s)
      in s\<lparr>ll_size := ll_size s - 1\<rparr>)"

text \<open>The function that an insertion returns: its node, and whether it has been called.\<close>

record disposer =
  newNode :: nat
  didRemove :: bool

definition dispose :: "disposer \<Rightarrow> 'e linked_list \<Rightarrow> disposer \<times> 'e linked_list" where
  "dispose d s = (if \<not> didRemove d then (d\<lparr>didRemove := True\<rparr>, LinkedList_remove (newNode d) s) else (d, s))"

definition LinkedList_insert :: "'e \<Rightarrow> bool \<Rightarrow> 'e linked_list \<Rightarrow> disposer \<times> 'e linked_list" where
  "LinkedList_insert e atTheEnd s =
     (let (n, s) = Node_new e s;
          s = (case (ll_first s, ll_last s) of
                 (None, _) \<Rightarrow> s\<lparr>ll_first := Some n, ll_last := Some n\<rparr>
               | (Some oldFirst, oldLast) \<Rightarrow>
                   if atTheEnd then
                     let s = set_prev_node n oldLast (s\<lparr>ll_last := Some n\<rparr>)
                     in (case oldLast of None \<Rightarrow> s | Some oldLast \<Rightarrow> set_next_node oldLast (Some n) s)
                   else
                     let s = set_next_node n (Some oldFirst) (s\<lparr>ll_first := Some n\<rparr>)
                     in set_prev_node oldFirst (Some n) s);
          s = s\<lparr>ll_size := ll_size s + 1\<rparr>
      in (\<lparr>newNode = n, didRemove = False\<rparr>, s))"

definition LinkedList_unshift :: "'e \<Rightarrow> 'e linked_list \<Rightarrow> disposer \<times> 'e linked_list" where
  "LinkedList_unshift e s = LinkedList_insert e False s"

definition LinkedList_push :: "'e \<Rightarrow> 'e linked_list \<Rightarrow> disposer \<times> 'e linked_list" where
  "LinkedList_push e s = LinkedList_insert e True s"

definition LinkedList_shift :: "'e linked_list \<Rightarrow> 'e option \<times> 'e linked_list" where
  "LinkedList_shift s =
     (case ll_first s of None \<Rightarrow> (None, s) | Some r \<Rightarrow> (Some (element (node_at s r)), LinkedList_remove r s))"

definition LinkedList_pop :: "'e linked_list \<Rightarrow> 'e option \<times> 'e linked_list" where
  "LinkedList_pop s =
     (case ll_last s of None \<Rightarrow> (None, s) | Some r \<Rightarrow> (Some (element (node_at s r)), LinkedList_remove r s))"

text \<open>The generator: not started, suspended behind \<open>yield\<close> of a node, or returned.\<close>

datatype list_iterator = Not_started | Suspended_at nat | Returned

definition iterator_next :: "'e linked_list \<Rightarrow> list_iterator \<Rightarrow> 'e option \<times> list_iterator" where
  "iterator_next s it =
     (let node = (case it of Not_started \<Rightarrow> ll_first s | Suspended_at r \<Rightarrow> next_node s r | Returned \<Rightarrow> None)
      in case node of None \<Rightarrow> (None, Returned) | Some r \<Rightarrow> (Some (element (node_at s r)), Suspended_at r))"

text \<open>The first results of an iterator on a list that is not changed meanwhile.\<close>

fun iterate :: "nat \<Rightarrow> 'e linked_list \<Rightarrow> list_iterator \<Rightarrow> 'e option list" where
  "iterate 0 s it = []"
| "iterate (Suc n) s it = (let (e, it) = iterator_next s it in e # iterate n s it)"

section \<open>Refinement of lists\<close>

interpretation nodes: doubly_linked prev_node next_node set_prev_node set_next_node
  by unfold_locales (auto simp: prev_node_def next_node_def set_prev_node_def set_next_node_def node_at_def)

text \<open>\<open>holds s rs\<close>: the nodes of the list are those at the addresses \<open>rs\<close>, in this order.\<close>

definition holds :: "'e linked_list \<Rightarrow> nat list \<Rightarrow> bool" where
  "holds s rs \<longleftrightarrow> distinct rs \<and> (\<forall>r\<in>set rs. r < ll_count s) \<and> nodes.segment s None rs None
     \<and> ll_first s = first_or rs None \<and> ll_last s = last_or None rs \<and> ll_size s = int (length rs)"

definition contents :: "'e linked_list \<Rightarrow> nat list \<Rightarrow> 'e list" where
  "contents s rs = map (\<lambda>r. element (node_at s r)) rs"

lemma contents_append [simp]: "contents s (rs @ ts) = contents s rs @ contents s ts"
  by (simp add: contents_def)

lemma contents_Cons [simp]: "contents s [] = []" "contents s (r # rs) = element (node_at s r) # contents s rs"
  by (simp_all add: contents_def)

lemma node_setters_keep [simp]:
  "ll_first (set_next_node r q s) = ll_first s" "ll_first (set_prev_node r q s) = ll_first s"
  "ll_last (set_next_node r q s) = ll_last s" "ll_last (set_prev_node r q s) = ll_last s"
  "ll_size (set_next_node r q s) = ll_size s" "ll_size (set_prev_node r q s) = ll_size s"
  "ll_count (set_next_node r q s) = ll_count s" "ll_count (set_prev_node r q s) = ll_count s"
  "element (node_at (set_next_node r q s) x) = element (node_at s x)"
  "element (node_at (set_prev_node r q s) x) = element (node_at s x)"
  by (auto simp: set_next_node_def set_prev_node_def node_at_def)

lemma node_setters_contents [simp]:
  "contents (set_next_node r q s) rs = contents s rs" "contents (set_prev_node r q s) rs = contents s rs"
  by (simp_all add: contents_def)

text \<open>The fields besides the nodes do not matter for the links.\<close>

lemma links_other [simp]:
  "next_node (s\<lparr>ll_first := f\<rparr>) = next_node s" "prev_node (s\<lparr>ll_first := f\<rparr>) = prev_node s"
  "next_node (s\<lparr>ll_last := f\<rparr>) = next_node s" "prev_node (s\<lparr>ll_last := f\<rparr>) = prev_node s"
  "next_node (s\<lparr>ll_size := i\<rparr>) = next_node s" "prev_node (s\<lparr>ll_size := i\<rparr>) = prev_node s"
  "node_at (s\<lparr>ll_first := f\<rparr>) = node_at s" "node_at (s\<lparr>ll_last := f\<rparr>) = node_at s" "node_at (s\<lparr>ll_size := i\<rparr>) = node_at s"
  by (simp_all add: next_node_def prev_node_def node_at_def fun_eq_iff)

lemma node_setters_other [simp]:
  "set_next_node r q (s\<lparr>ll_first := f\<rparr>) = set_next_node r q s\<lparr>ll_first := f\<rparr>"
  "set_next_node r q (s\<lparr>ll_last := f\<rparr>) = set_next_node r q s\<lparr>ll_last := f\<rparr>"
  "set_prev_node r q (s\<lparr>ll_first := f\<rparr>) = set_prev_node r q s\<lparr>ll_first := f\<rparr>"
  "set_prev_node r q (s\<lparr>ll_last := f\<rparr>) = set_prev_node r q s\<lparr>ll_last := f\<rparr>"
  by (simp_all add: set_next_node_def set_prev_node_def node_at_def)

lemma segment_other [simp]:
  "nodes.segment (s\<lparr>ll_first := f\<rparr>) p rs n = nodes.segment s p rs n"
  "nodes.segment (s\<lparr>ll_last := f\<rparr>) p rs n = nodes.segment s p rs n"
  "nodes.segment (s\<lparr>ll_size := i\<rparr>) p rs n = nodes.segment s p rs n"
  by (rule nodes.segment_cong; simp)+

lemma contents_other [simp]:
  "contents (s\<lparr>ll_first := f\<rparr>) rs = contents s rs" "contents (s\<lparr>ll_last := f\<rparr>) rs = contents s rs"
  "contents (s\<lparr>ll_size := i\<rparr>) rs = contents s rs"
  by (simp_all add: contents_def)

lemma holds_new: "holds LinkedList_new []"
  by (simp add: holds_def LinkedList_new_def)

lemma holds_empty: "holds s rs \<Longrightarrow> LinkedList_isEmpty s \<longleftrightarrow> rs = []"
  by (simp add: holds_def LinkedList_isEmpty_def)

lemma remove_holds:
  assumes "holds s (as @ r # bs)"
  shows "holds (LinkedList_remove r s) (as @ bs) \<and> contents (LinkedList_remove r s) xs = contents s xs
    \<and> next_node (LinkedList_remove r s) r = first_or bs None"
proof -
  have s: "distinct (as @ r # bs)" "nodes.segment s None (as @ r # bs) None" "\<forall>x\<in>set (as @ r # bs). x < ll_count s"
    "ll_first s = first_or (as @ r # bs) None" "ll_last s = last_or None (as @ r # bs)" "ll_size s = int (length (as @ r # bs))"
    using assms by (simp_all add: holds_def)
  note links = nodes.segment_neighbours [OF s(2)] and seg = nodes.segment_remove [OF s(2,1)]
  show ?thesis
  proof (cases as rule: rev_cases)
    case Nil
    show ?thesis
    proof (cases bs)
      case (Cons b bs')
      with Nil links s seg show ?thesis
        by (auto simp: LinkedList_remove_def holds_def links_of_def unset_def Let_def)
    qed (use Nil links s in \<open>simp add: LinkedList_remove_def holds_def\<close>)
  next
    case (snoc as' a)
    show ?thesis
    proof (cases bs)
      case Nil
      with snoc links s seg nodes.segment_neighbours [of s as' a "[r]"] show ?thesis
        by (auto simp: LinkedList_remove_def holds_def links_of_def unset_def Let_def)
    next
      case (Cons b bs')
      moreover have "nodes.segment (set_prev_node b (Some a) (set_next_node a (Some b) s)) None (as @ bs) None
        = nodes.segment (set_next_node a (Some b) (set_prev_node b (Some a) s)) None (as @ bs) None"
        by (rule nodes.segment_cong) simp
      ultimately show ?thesis using snoc links s seg by (auto simp: LinkedList_remove_def holds_def)
    qed
  qed
qed


lemma insert_holds:
  assumes "holds s rs"
  shows "\<exists>s'. LinkedList_insert e atTheEnd s = (\<lparr>newNode = ll_count s, didRemove = False\<rparr>, s')
    \<and> holds s' (if atTheEnd then rs @ [ll_count s] else ll_count s # rs)
    \<and> contents s' (if atTheEnd then rs @ [ll_count s] else ll_count s # rs) = (if atTheEnd then contents s rs @ [e] else e # contents s rs)"
proof -
  obtain n t where n: "Node_new e s = (n, t)" by (cases "Node_new e s")
  then have t: "n = ll_count s" "ll_count t = Suc n" "ll_first t = ll_first s" "ll_last t = ll_last s" "ll_size t = ll_size s"
    "next_node t n = None" "prev_node t n = None" "element (node_at t n) = e"
    "\<And>x. x \<noteq> n \<Longrightarrow> node_at t x = node_at s x"
    by (auto simp: Node_new_def next_node_def prev_node_def node_at_def)
  have s: "distinct rs" "\<forall>r\<in>set rs. r < ll_count s" "nodes.segment s None rs None" "ll_first s = first_or rs None"
    "ll_last s = last_or None rs" "ll_size s = int (length rs)"
    using assms by (simp_all add: holds_def)
  have fresh: "n \<notin> set rs" using s(2) t(1) by auto
  then have old: "\<And>x. x \<in> set rs \<Longrightarrow> node_at t x = node_at s x" using t(9) by metis
  then have seg: "nodes.segment t None rs None" "contents t rs = contents s rs"
    using s(3) nodes.segment_cong [of rs t s None None] by (auto simp: next_node_def prev_node_def contents_def)
  have "\<forall>r\<in>set rs. r < Suc n" using s(2) t(1) by auto
  moreover have "n \<noteq> r" if "r \<in> set rs" for r using that fresh by auto
  ultimately show ?thesis
  proof (cases rs rule: rev_cases)
    case Nil
    with s t n seg show ?thesis by (auto simp: LinkedList_insert_def holds_def)
  next
    case (snoc ys l)
    then obtain y where y: "first_or rs None = Some y" "y \<in> set rs" by (cases ys) auto
    have atEnd: "nodes.segment (set_next_node l (Some n) (set_prev_node n (Some l) t)) None (rs @ [n]) None"
      using nodes.segment_push_back [of "set_prev_node n (Some l) t" rs n] seg fresh s(1) t(6,7) snoc by simp
    have atFront: "nodes.segment (set_prev_node y (Some n) (set_next_node n (Some y) t)) None (n # rs) None"
      using nodes.segment_push_front [of "set_next_node n (Some y) t" rs n] seg fresh s(1) t(6,7) y(1) by simp
    show ?thesis
    proof (cases atTheEnd)
      case True
      with s t n seg fresh atEnd snoc y \<open>\<forall>r\<in>set rs. r < Suc n\<close> show ?thesis
        by (auto simp: LinkedList_insert_def holds_def)
    next
      case False
      with s t n seg fresh atFront y snoc \<open>\<forall>r\<in>set rs. r < Suc n\<close> show ?thesis
        by (auto simp: LinkedList_insert_def holds_def simp del: nodes.segment.simps)
    qed
  qed
qed


lemma clear_loop_returns:
  assumes "nodes.segment s p rs None" "distinct rs"
  shows "\<exists>t. clear_loop (first_or rs None) s = Some t"
  using assms
proof (induction rs arbitrary: s p)
  case Nil
  then show ?case by (simp add: clear_loop.simps)
next
  case (Cons r rs)
  let ?s = "set_next_node r None (set_prev_node r None s)"
  have "nodes.segment ?s (Some r) rs None" using Cons.prems by simp
  from Cons.IH [OF this] Cons.prems(2) obtain t where "clear_loop (first_or rs None) ?s = Some t" by auto
  with Cons.prems show ?case by (simp add: clear_loop.simps [of "Some r"])
qed

lemma iterate_rest:
  assumes "nodes.segment s p rs None" "it = (case p of Some r \<Rightarrow> Suspended_at r | None \<Rightarrow> Not_started)"
    and "case p of Some r \<Rightarrow> next_node s r = first_or rs None | None \<Rightarrow> ll_first s = first_or rs None"
  shows "iterate (Suc (length rs)) s it = map Some (contents s rs) @ [None]"
  using assms
proof (induction rs arbitrary: p it)
  case Nil
  then show ?case by (auto simp: iterator_next_def split: option.splits)
next
  case (Cons r rs)
  then have "fst (iterator_next s it) = Some (element (node_at s r))" "snd (iterator_next s it) = Suspended_at r"
    by (auto simp: iterator_next_def split: option.splits)
  with Cons.IH [of "Some r" "Suspended_at r"] Cons.prems(1) show ?case
    by (simp add: case_prod_unfold Let_def)
qed

section \<open>Properties\<close>

text \<open>
  C36. \<open>LinkedList\<close> refines lists: in a state that holds the nodes \<open>rs\<close>, \<open>push\<close> and \<open>unshift\<close> add a node at the
  end and in front, \<open>shift\<close> and \<open>pop\<close> take the first and last one and give its element, \<open>clear\<close>
  ends and empties the list, the function that an insertion returned takes its node out, and only once;
  \<open>size\<close> and \<open>isEmpty\<close> are right and iteration gives the elements in order. An iterator that is suspended
  at a node goes on behind it although the node is removed meanwhile.
\<close>

theorem LinkedList_refines:
  assumes "holds s rs"
  shows "(\<exists>n t. LinkedList_push e s = (\<lparr>newNode = n, didRemove = False\<rparr>, t) \<and> holds t (rs @ [n]) \<and> contents t (rs @ [n]) = contents s rs @ [e])
    \<and> (\<exists>n t. LinkedList_unshift e s = (\<lparr>newNode = n, didRemove = False\<rparr>, t) \<and> holds t (n # rs) \<and> contents t (n # rs) = e # contents s rs)
    \<and> (case LinkedList_shift s of (None, t) \<Rightarrow> rs = [] \<and> t = s
       | (Some x, t) \<Rightarrow> rs \<noteq> [] \<and> holds t (tl rs) \<and> x # contents t (tl rs) = contents s rs)
    \<and> (case LinkedList_pop s of (None, t) \<Rightarrow> rs = [] \<and> t = s
       | (Some x, t) \<Rightarrow> rs \<noteq> [] \<and> holds t (butlast rs) \<and> contents t (butlast rs) @ [x] = contents s rs)
    \<and> (\<exists>t. LinkedList_clear s = Some t \<and> holds t [])
    \<and> (\<forall>as r bs. rs = as @ r # bs \<longrightarrow> (\<exists>t. dispose \<lparr>newNode = r, didRemove = False\<rparr> s = (\<lparr>newNode = r, didRemove = True\<rparr>, t)
         \<and> dispose \<lparr>newNode = r, didRemove = True\<rparr> t = (\<lparr>newNode = r, didRemove = True\<rparr>, t)
         \<and> holds t (as @ bs) \<and> contents t (as @ bs) = contents s as @ contents s bs
         \<and> fst (iterator_next t (Suspended_at r)) = first_or (contents s bs) None))
    \<and> ll_size s = int (length rs) \<and> (LinkedList_isEmpty s \<longleftrightarrow> rs = [])
    \<and> iterate (length rs + 1) s Not_started = map Some (contents s rs) @ [None]"
proof (intro conjI allI impI)
  have s: "distinct rs" "nodes.segment s None rs None" "ll_first s = first_or rs None" "ll_last s = last_or None rs"
    using assms by (simp_all add: holds_def)
  show "\<exists>n t. LinkedList_push e s = (\<lparr>newNode = n, didRemove = False\<rparr>, t) \<and> holds t (rs @ [n]) \<and> contents t (rs @ [n]) = contents s rs @ [e]"
    unfolding LinkedList_push_def using insert_holds [OF assms, of e True] by auto
  show "\<exists>n t. LinkedList_unshift e s = (\<lparr>newNode = n, didRemove = False\<rparr>, t) \<and> holds t (n # rs) \<and> contents t (n # rs) = e # contents s rs"
    unfolding LinkedList_unshift_def using insert_holds [OF assms, of e False] by auto
  show "case LinkedList_shift s of (None, t) \<Rightarrow> rs = [] \<and> t = s
      | (Some x, t) \<Rightarrow> rs \<noteq> [] \<and> holds t (tl rs) \<and> x # contents t (tl rs) = contents s rs"
  proof (cases rs)
    case (Cons r rs')
    with remove_holds [of s "[]" r rs'] assms s show ?thesis by (simp add: LinkedList_shift_def)
  qed (use s in \<open>simp add: LinkedList_shift_def\<close>)
  show "case LinkedList_pop s of (None, t) \<Rightarrow> rs = [] \<and> t = s
      | (Some x, t) \<Rightarrow> rs \<noteq> [] \<and> holds t (butlast rs) \<and> contents t (butlast rs) @ [x] = contents s rs"
  proof (cases rs rule: rev_cases)
    case (snoc rs' r)
    with remove_holds [of s rs' r "[]"] assms s show ?thesis by (simp add: LinkedList_pop_def)
  qed (use s in \<open>simp add: LinkedList_pop_def\<close>)
  show "\<exists>t. LinkedList_clear s = Some t \<and> holds t []"
    using clear_loop_returns [OF s(2,1)] s(3) by (auto simp: LinkedList_clear_def holds_def)
  show "\<exists>t. dispose \<lparr>newNode = r, didRemove = False\<rparr> s = (\<lparr>newNode = r, didRemove = True\<rparr>, t)
      \<and> dispose \<lparr>newNode = r, didRemove = True\<rparr> t = (\<lparr>newNode = r, didRemove = True\<rparr>, t)
      \<and> holds t (as @ bs) \<and> contents t (as @ bs) = contents s as @ contents s bs
      \<and> fst (iterator_next t (Suspended_at r)) = first_or (contents s bs) None" if "rs = as @ r # bs" for as r bs
  proof -
    from remove_holds [of s as r bs] assms that have t: "holds (LinkedList_remove r s) (as @ bs)"
      "\<And>xs. contents (LinkedList_remove r s) xs = contents s xs" "next_node (LinkedList_remove r s) r = first_or bs None"
      by simp_all
    have "fst (iterator_next (LinkedList_remove r s) (Suspended_at r)) = first_or (contents s bs) None"
      using t(2) [of bs] t(3) by (cases bs) (simp_all add: iterator_next_def)
    with t show ?thesis by (intro exI [of _ "LinkedList_remove r s"]) (simp add: dispose_def)
  qed
  show "ll_size s = int (length rs)" "LinkedList_isEmpty s \<longleftrightarrow> rs = []"
    using assms holds_empty by (auto simp: holds_def)
  show "iterate (length rs + 1) s Not_started = map Some (contents s rs) @ [None]"
    using iterate_rest [OF s(2), of Not_started] s(3) by simp
qed

theorem LinkedList_refines_witness:
  "\<exists>n t m u. LinkedList_push (7 :: int) LinkedList_new = (\<lparr>newNode = n, didRemove = False\<rparr>, t)
    \<and> LinkedList_unshift 3 t = (\<lparr>newNode = m, didRemove = False\<rparr>, u)
    \<and> holds u [m, n] \<and> contents u [m, n] = [3, 7] \<and> iterate 3 u Not_started = [Some 3, Some 7, None]"
proof -
  obtain n t where t: "LinkedList_push (7 :: int) LinkedList_new = (\<lparr>newNode = n, didRemove = False\<rparr>, t)"
    "holds t [n]" "contents t [n] = [7]" using LinkedList_refines [OF holds_new, of 7] by auto
  obtain m u where u: "LinkedList_unshift 3 t = (\<lparr>newNode = m, didRemove = False\<rparr>, u)" "holds u [m, n]" "contents u [m, n] = [3, 7]"
    using LinkedList_refines [OF t(2), of 3] t(3) by auto
  from LinkedList_refines [OF u(2), of 0] u(3) have "iterate 3 u Not_started = [Some 3, Some 7, None]"
    by (simp add: eval_nat_numeral)
  with t(1) u show ?thesis by blast
qed

text \<open>
  The function that an insertion returned does not know whether its node is still in the list. Behind
  \<open>pop\<close> of the node it removes the last node once more, and leaves an empty list in which iteration still
  finds the first element; behind \<open>clear\<close> it empties the list although other nodes are in it now.
\<close>

lemma stale_removal:
  "(let (_, s) = LinkedList_push (1 :: int) LinkedList_new; (d, s) = LinkedList_push 2 s; (_, s) = LinkedList_pop s; (_, s) = dispose d s
    in (ll_size s, LinkedList_isEmpty s, ll_last s, iterate 2 s Not_started)) = (0, False, None, [Some 1, None])"
  "(let (d, s) = LinkedList_push (1 :: int) LinkedList_new; s = the (LinkedList_clear s); (_, s) = LinkedList_push 2 s; (_, s) = dispose d s
    in (ll_size s, LinkedList_isEmpty s, iterate 1 s Not_started)) = (0, True, [None])"
proof -
  show "(let (_, s) = LinkedList_push (1 :: int) LinkedList_new; (d, s) = LinkedList_push 2 s; (_, s) = LinkedList_pop s; (_, s) = dispose d s
    in (ll_size s, LinkedList_isEmpty s, ll_last s, iterate 2 s Not_started)) = (0, False, None, [Some 1, None])"
    by code_simp
  let ?s = "\<lparr>ll_nodes = [0 \<mapsto> \<lparr>element = 1 :: int, node_next = None, node_prev = None\<rparr>], ll_count = 1,
    ll_first = None, ll_last = None, ll_size = 0\<rparr>"
  have "the (LinkedList_clear (snd (LinkedList_push (1 :: int) LinkedList_new))) = ?s"
    by (simp add: LinkedList_push_def LinkedList_insert_def LinkedList_new_def Node_new_def LinkedList_clear_def
        clear_loop.simps next_node_def set_next_node_def set_prev_node_def node_at_def)
  moreover have "(let (_, s) = LinkedList_push 2 ?s; (_, s) = dispose \<lparr>newNode = 0, didRemove = False\<rparr> s
    in (ll_size s, LinkedList_isEmpty s, iterate 1 s Not_started)) = (0, True, [None])"
    by code_simp
  moreover have "fst (LinkedList_push (1 :: int) LinkedList_new) = \<lparr>newNode = 0, didRemove = False\<rparr>"
    by code_simp
  ultimately show "(let (d, s) = LinkedList_push (1 :: int) LinkedList_new; s = the (LinkedList_clear s); (_, s) = LinkedList_push 2 s; (_, s) = dispose d s
    in (ll_size s, LinkedList_isEmpty s, iterate 1 s Not_started)) = (0, True, [None])"
    by (simp add: case_prod_unfold)
qed

end
