(* ===== verification/Emitters.thy ===== *)
theory Emitters
  imports Prelude
begin

text \<open>
  \<open>src/patched-vscode/src/vs/base/common/event.ts\<close>: the classes \<open>Emitter\<close> and \<open>EventDeliveryQueuePrivate\<close>,
  with listeners that call the emitters again while they run.

  A world holds the emitters that share a delivery queue; an emitter with a queue of its own is the only
  one of its world. An array of listeners lives in a store, since a running delivery holds on to the
  array it has started with. A listener is the number of its \<open>UniqueContainer\<close>. The code between two
  calls of listeners runs at once; control is then with a listener, or with the code outside. What waits
  for the listeners that run is the stack: the loop of \<open>_deliverQueue\<close>, with what \<open>fire\<close> does behind it,
  or the delivery to a single listener. A step is a call of an operation, or the return of the listener
  on top of the stack; that a listener throws is the same, as \<open>_deliver\<close> catches what it throws.

  Not modelled: the functions of the options are assumed not to call the emitters (their calls are
  recorded), and what only measures or warns (profiling, stack traces, the leakage monitor except for its
  refusal of listeners); \<open>thisArgs\<close> and \<open>disposables\<close> of \<open>event\<close> are for the caller.

  The history of deliveries is kept beside the state: a round per event that reaches listeners, with
  the listeners there were and those that have been called, with the value they got.
\<close>

section \<open>State\<close>

datatype listeners = No_listeners | One nat | Many nat

record emitter =
  em_disposed :: bool
  em_listeners :: listeners
  em_size :: int
  em_threshold :: "int option"

record 'v delivery_queue =
  dq_i :: int
  dq_end :: int
  dq_current :: "nat option"
  dq_value :: "'v option"

datatype 'v continuation = Fire_done | Fire_rest nat 'v

datatype 'v frame = In_queue listeners "'v continuation" | In_single

datatype hook = OnWillAddFirstListener nat | OnDidAddFirstListener nat | OnWillRemoveListener nat | OnDidRemoveLastListener nat

record 'v round =
  r_emitter :: nat
  r_value :: 'v
  r_snapshot :: "nat list"
  r_delivered :: "(nat \<times> 'v option) list"

record 'v world =
  w_emitters :: "nat \<Rightarrow> emitter"
  w_arrays :: "nat \<Rightarrow> nat option list"
  w_arrayCount :: nat
  w_id :: nat
  w_owner :: "nat \<rightharpoonup> nat"
  w_queue :: "'v delivery_queue"
  w_stack :: "'v frame list"
  w_hooks :: "hook list"
  w_rounds :: "'v round list"

definition Emitter_new :: "int option \<Rightarrow> emitter" where
  "Emitter_new threshold = \<lparr>em_disposed = False, em_listeners = No_listeners, em_size = 0, em_threshold = threshold\<rparr>"

definition DeliveryQueue_new :: "'v delivery_queue" where
  "DeliveryQueue_new = \<lparr>dq_i = - 1, dq_end = 0, dq_current = None, dq_value = None\<rparr>"

definition world_new :: "(nat \<Rightarrow> int option) \<Rightarrow> 'v world" where
  "world_new thresholds = \<lparr>w_emitters = (\<lambda>e. Emitter_new (thresholds e)), w_arrays = (\<lambda>_. []), w_arrayCount = 0, w_id = 0,
     w_owner = Map.empty, w_queue = DeliveryQueue_new, w_stack = [], w_hooks = [], w_rounds = []\<rparr>"

definition upd_emitter :: "nat \<Rightarrow> (emitter \<Rightarrow> emitter) \<Rightarrow> 'v world \<Rightarrow> 'v world" where
  "upd_emitter e f w = w\<lparr>w_emitters := (w_emitters w)(e := f (w_emitters w e))\<rparr>"

definition upd_array :: "nat \<Rightarrow> nat option list \<Rightarrow> 'v world \<Rightarrow> 'v world" where
  "upd_array a xs w = w\<lparr>w_arrays := (w_arrays w)(a := xs)\<rparr>"

definition call_hook :: "hook \<Rightarrow> 'v world \<Rightarrow> 'v world" where
  "call_hook h w = w\<lparr>w_hooks := w_hooks w @ [h]\<rparr>"

section \<open>The delivery queue\<close>

definition DeliveryQueue_enqueue :: "nat \<Rightarrow> 'v \<Rightarrow> int \<Rightarrow> 'v world \<Rightarrow> 'v world" where
  "DeliveryQueue_enqueue emitter v stop w =
     w\<lparr>w_queue := \<lparr>dq_i = 0, dq_end = stop, dq_current = Some emitter, dq_value = Some v\<rparr>\<rparr>"

definition DeliveryQueue_reset :: "'v world \<Rightarrow> 'v world" where
  "DeliveryQueue_reset w = w\<lparr>w_queue := (w_queue w)\<lparr>dq_i := dq_end (w_queue w), dq_current := None, dq_value := None\<rparr>\<rparr>"

section \<open>Listeners\<close>

text \<open>\<open>this.event(callback)\<close>: the container of the new listener, unless it is refused.\<close>

definition Emitter_event :: "nat \<Rightarrow> 'v world \<Rightarrow> nat option \<times> 'v world" where
  "Emitter_event e w =
     (let em = w_emitters w e in
      if (case em_threshold em of None \<Rightarrow> False | Some t \<Rightarrow> em_size em > t * t) then (None, w)
      else if em_disposed em then (None, w)
      else
        let contained = w_id w;
            w = w\<lparr>w_id := w_id w + 1\<rparr>;
            w = (case em_listeners em of
                   No_listeners \<Rightarrow>
                     call_hook (OnDidAddFirstListener e)
                       (upd_emitter e (\<lambda>em. em\<lparr>em_listeners := One contained\<rparr>) (call_hook (OnWillAddFirstListener e) w))
                 | One c \<Rightarrow>
                     upd_emitter e (\<lambda>em. em\<lparr>em_listeners := Many (w_arrayCount w)\<rparr>)
                       (upd_array (w_arrayCount w) [Some c, Some contained] (w\<lparr>w_arrayCount := w_arrayCount w + 1\<rparr>))
                 | Many a \<Rightarrow> upd_array a (w_arrays w a @ [Some contained]) w);
            w = upd_emitter e (\<lambda>em. em\<lparr>em_size := em_size em + 1\<rparr>) w
        in (Some contained, w\<lparr>w_owner := (w_owner w)(contained \<mapsto> e)\<rparr>))"

definition compactionThreshold :: int where
  "compactionThreshold = 2"

text \<open>
  The loop that compacts an array: over the elements, with those kept so far and the indices \<open>i\<close> and
  \<open>end\<close> of the queue. An element is only overwritten when it has been read.
\<close>

fun compact_loop :: "bool \<Rightarrow> nat option list \<Rightarrow> nat option list \<Rightarrow> int \<Rightarrow> int \<Rightarrow> nat option list \<times> int \<times> int" where
  "compact_loop adjust [] kept i stop = (kept, i, stop)"
| "compact_loop adjust (Some l # rest) kept i stop = compact_loop adjust rest (kept @ [Some l]) i stop"
| "compact_loop adjust (None # rest) kept i stop =
     (if adjust then compact_loop adjust rest kept (if int (length kept) < i then i - 1 else i) (stop - 1)
      else compact_loop adjust rest kept i stop)"

definition index_of :: "'a \<Rightarrow> 'a list \<Rightarrow> nat option" where
  "index_of x xs = (if x \<in> set xs then Some (length (takeWhile (\<lambda>y. y \<noteq> x) xs)) else None)"

text \<open>\<open>_removeListener\<close>: whether it throws.\<close>

definition Emitter_removeListener :: "nat \<Rightarrow> nat \<Rightarrow> 'v world \<Rightarrow> bool \<times> 'v world" where
  "Emitter_removeListener e listener w =
     (let w = call_hook (OnWillRemoveListener e) w; em = w_emitters w e in
      if em_listeners em = No_listeners then (False, w)
      else if em_size em = 1 then
        (False, upd_emitter e (\<lambda>em. em\<lparr>em_size := 0\<rparr>)
           (call_hook (OnDidRemoveLastListener e) (upd_emitter e (\<lambda>em. em\<lparr>em_listeners := No_listeners\<rparr>) w)))
      else
        case em_listeners em of
          Many a \<Rightarrow>
            (case index_of (Some listener) (w_arrays w a) of
               None \<Rightarrow> (True, w)
             | Some index \<Rightarrow>
                 let n = em_size em - 1;
                     w = upd_emitter e (\<lambda>em. em\<lparr>em_size := n\<rparr>) w;
                     xs = (w_arrays w a)[index := None];
                     adjustDeliveryQueue = (dq_current (w_queue w) = Some e)
                 in if n * compactionThreshold \<le> int (length xs) then
                      let (kept, i, stop) = compact_loop adjustDeliveryQueue xs [] (dq_i (w_queue w)) (dq_end (w_queue w))
                      in (False, upd_array a kept (w\<lparr>w_queue := (w_queue w)\<lparr>dq_i := i, dq_end := stop\<rparr>\<rparr>))
                    else (False, upd_array a xs w))
        | _ \<Rightarrow> (True, w))"

text \<open>The disposable that \<open>event\<close> returns runs once.\<close>

definition unsubscribe :: "nat \<Rightarrow> 'v world \<Rightarrow> bool \<times> 'v world" where
  "unsubscribe c w =
     (case w_owner w c of
        None \<Rightarrow> (False, w)
      | Some e \<Rightarrow> Emitter_removeListener e c (w\<lparr>w_owner := (w_owner w)(c := None)\<rparr>))"

definition Emitter_dispose :: "nat \<Rightarrow> 'v world \<Rightarrow> 'v world" where
  "Emitter_dispose e w =
     (if em_disposed (w_emitters w e) then w
      else
        let w = upd_emitter e (\<lambda>em. em\<lparr>em_disposed := True\<rparr>) w;
            w = (if dq_current (w_queue w) = Some e then DeliveryQueue_reset w else w);
            w = (if em_listeners (w_emitters w e) \<noteq> No_listeners
                 then upd_emitter e (\<lambda>em. em\<lparr>em_listeners := No_listeners, em_size := 0\<rparr>) w else w)
        in call_hook (OnDidRemoveLastListener e) w)"

definition Emitter_hasListeners :: "nat \<Rightarrow> 'v world \<Rightarrow> bool" where
  "Emitter_hasListeners e w \<longleftrightarrow> em_size (w_emitters w e) > 0"

section \<open>Delivery\<close>

text \<open>The listeners there are: those that are not \<open>undefined\<close>.\<close>

definition somes :: "'a option list \<Rightarrow> 'a list" where
  "somes xs = map the (filter (\<lambda>x. x \<noteq> None) xs)"

fun listed :: "(nat \<Rightarrow> nat option list) \<Rightarrow> listeners \<Rightarrow> nat list" where
  "listed arrays No_listeners = []"
| "listed arrays (One c) = [c]"
| "listed arrays (Many a) = somes (arrays a)"

definition live :: "'v world \<Rightarrow> nat \<Rightarrow> nat list" where
  "live w e = listed (w_arrays w) (em_listeners (w_emitters w e))"

definition start_round :: "nat \<Rightarrow> 'v \<Rightarrow> 'v world \<Rightarrow> 'v world" where
  "start_round e v w = w\<lparr>w_rounds := w_rounds w @ [\<lparr>r_emitter = e, r_value = v, r_snapshot = live w e, r_delivered = []\<rparr>]\<rparr>"

text \<open>A call of a listener, recorded in the last round; its frame waits for the return.\<close>

definition call_listener :: "'v frame \<Rightarrow> nat \<Rightarrow> 'v option \<Rightarrow> 'v world \<Rightarrow> 'v world" where
  "call_listener f c v w =
     w\<lparr>w_stack := f # w_stack w,
       w_rounds := (case rev (w_rounds w) of [] \<Rightarrow> []
                    | r # rs \<Rightarrow> rev rs @ [r\<lparr>r_delivered := r_delivered r @ [(c, v)]\<rparr>])\<rparr>"

text \<open>
  The loop of \<open>_deliverQueue\<close> up to the next listener to call, over the listeners it holds on to.
  \<open>listeners[i]\<close> of a container is \<open>undefined\<close>, of \<open>undefined\<close> it throws.
\<close>

datatype loop_result = Call nat | Loop_ends | Access_error

definition array_at :: "'a option list \<Rightarrow> int \<Rightarrow> 'a option" where
  "array_at xs i = (if 0 \<le> i \<and> i < int (length xs) then xs ! nat i else None)"

function loop_next :: "nat option list option \<Rightarrow> int \<Rightarrow> int \<Rightarrow> loop_result \<times> int" where
  "loop_next xs i stop =
     (if i < stop then
        case xs of
          None \<Rightarrow> (Access_error, i + 1)
        | Some xs' \<Rightarrow>
            (case array_at xs' i of
               Some c \<Rightarrow> (Call c, i + 1)
             | None \<Rightarrow> loop_next xs (i + 1) stop)
      else (Loop_ends, i))"
  by pat_completeness auto
termination
  by (relation "measure (\<lambda>(_, i, stop). nat (stop - i))") auto

declare loop_next.simps [simp del]

definition array_of :: "'v world \<Rightarrow> listeners \<Rightarrow> nat option list option" where
  "array_of w l = (case l of No_listeners \<Rightarrow> None | One _ \<Rightarrow> Some [] | Many a \<Rightarrow> Some (w_arrays w a))"

definition run_queue :: "listeners \<Rightarrow> 'v continuation \<Rightarrow> ('v world \<Rightarrow> bool \<times> 'v world) \<Rightarrow> 'v world \<Rightarrow> bool \<times> 'v world" where
  "run_queue l k after w =
     (case loop_next (array_of w l) (dq_i (w_queue w)) (dq_end (w_queue w)) of
        (result, i) \<Rightarrow>
          let w = w\<lparr>w_queue := (w_queue w)\<lparr>dq_i := i\<rparr>\<rparr> in
          (case result of
             Call c \<Rightarrow> (False, call_listener (In_queue l k) c (dq_value (w_queue w)) w)
           | Access_error \<Rightarrow> (True, w)
           | Loop_ends \<Rightarrow> after (DeliveryQueue_reset w)))"

text \<open>What \<open>fire\<close> does behind the delivery of what was left in the queue.\<close>

definition fire_rest :: "nat \<Rightarrow> 'v \<Rightarrow> 'v world \<Rightarrow> bool \<times> 'v world" where
  "fire_rest e v w =
     (case em_listeners (w_emitters w e) of
        No_listeners \<Rightarrow> (False, w)
      | One c \<Rightarrow> (False, call_listener In_single c (Some v) (start_round e v w))
      | Many a \<Rightarrow>
          run_queue (Many a) Fire_done (Pair False)
            (DeliveryQueue_enqueue e v (int (length (w_arrays w a))) (start_round e v w)))"

definition continue_fire :: "'v continuation \<Rightarrow> 'v world \<Rightarrow> bool \<times> 'v world" where
  "continue_fire k = (case k of Fire_done \<Rightarrow> Pair False | Fire_rest e v \<Rightarrow> fire_rest e v)"

definition Emitter_deliverQueue :: "listeners \<Rightarrow> 'v continuation \<Rightarrow> 'v world \<Rightarrow> bool \<times> 'v world" where
  "Emitter_deliverQueue l k w = run_queue l k (continue_fire k) w"

text \<open>\<open>fire\<close>: whether it throws, and the world in which a listener has been called or \<open>fire\<close> has returned.\<close>

definition Emitter_fire :: "nat \<Rightarrow> 'v \<Rightarrow> 'v world \<Rightarrow> bool \<times> 'v world" where
  "Emitter_fire e v w =
     (case dq_current (w_queue w) of
        Some current \<Rightarrow> Emitter_deliverQueue (em_listeners (w_emitters w current)) (Fire_rest e v) w
      | None \<Rightarrow> fire_rest e v w)"

text \<open>The listener on top of the stack returns to the code that called it.\<close>

definition listener_returns :: "'v world \<Rightarrow> bool \<times> 'v world" where
  "listener_returns w =
     (case w_stack w of
        [] \<Rightarrow> (False, w)
      | In_single # fs \<Rightarrow> (False, w\<lparr>w_stack := fs\<rparr>)
      | In_queue l k # fs \<Rightarrow> Emitter_deliverQueue l k (w\<lparr>w_stack := fs\<rparr>))"

section \<open>Steps\<close>

datatype 'v action = Subscribe nat | Unsubscribe nat | Dispose nat | Fire nat 'v | Return

definition perform :: "'v action \<Rightarrow> 'v world \<Rightarrow> bool \<times> 'v world" where
  "perform a w =
     (case a of
        Subscribe e \<Rightarrow> (False, snd (Emitter_event e w))
      | Unsubscribe c \<Rightarrow> unsubscribe c w
      | Dispose e \<Rightarrow> (False, Emitter_dispose e w)
      | Fire e v \<Rightarrow> Emitter_fire e v w
      | Return \<Rightarrow> listener_returns w)"

inductive emits :: "(nat \<Rightarrow> int option) \<Rightarrow> 'v world \<Rightarrow> bool" for thresholds where
  start: "emits thresholds (world_new thresholds)"
| step: "emits thresholds w \<Longrightarrow> perform a w = (threw, w') \<Longrightarrow> emits thresholds w'"

end
