(* ===== verification/EmitterProps.thy ===== *)
theory EmitterProps
  imports Emitters
begin

text \<open>
  What the emitters of \<open>event.ts\<close> keep, whatever operation is called at what moment: the arrays with
  holes, \<open>_size\<close> and the disposables agree (\<open>well_kept\<close>), and the subscriptions behave as per emitter a
  list of listeners would (\<open>subscriptions_step\<close>).
\<close>

section \<open>Arrays of listeners\<close>

lemma somes_simps [simp]:
  "somes [] = []" "somes (Some x # xs) = x # somes xs" "somes (None # xs) = somes xs"
  by (simp_all add: somes_def)

lemma somes_append [simp]: "somes (xs @ ys) = somes xs @ somes ys"
  by (simp add: somes_def)

lemma set_somes [simp]: "set (somes xs) = {x. Some x \<in> set xs}"
  by (force simp: somes_def)

lemma somes_map_Some [simp]: "somes (map Some xs) = xs"
  by (induction xs) simp_all

lemma index_of_SomeD:
  assumes "index_of x xs = Some i"
  shows "i < length xs" "xs ! i = x"
proof -
  have "x \<in> set xs" and i: "i = length (takeWhile (\<lambda>y. y \<noteq> x) xs)"
    using assms by (auto simp: index_of_def split: if_splits)
  then have "takeWhile (\<lambda>y. y \<noteq> x) xs \<noteq> xs" by (auto simp: takeWhile_eq_all_conv)
  then show "i < length xs"
    using i length_takeWhile_le [of "\<lambda>y. y \<noteq> x" xs] takeWhile_eq_take [of "\<lambda>y. y \<noteq> x" xs]
    by (metis le_neq_implies_less take_all_iff order_refl)
  then show "xs ! i = x"
    using i nth_length_takeWhile [of "\<lambda>y. y \<noteq> x" xs] by simp
qed

lemma filter_neq_id [simp]: "x \<notin> set xs \<Longrightarrow> filter (\<lambda>y. y \<noteq> x) xs = xs"
  by (auto simp: filter_id_conv)

lemma somes_update_None:
  assumes "i < length xs" "xs ! i = Some c" "distinct (somes xs)"
  shows "somes (xs[i := None]) = filter (\<lambda>y. y \<noteq> c) (somes xs)"
proof -
  obtain as bs where xs: "xs = as @ Some c # bs" and i: "i = length as"
    using assms(1,2) id_take_nth_drop [of i xs] by (metis length_take min.absorb4)
  then have "c \<notin> set (somes as)" "c \<notin> set (somes bs)"
    using assms(3) by simp_all
  then show ?thesis
    unfolding xs i by (simp del: set_somes)
qed

lemma listed_update_other [simp]: "l \<noteq> Many a \<Longrightarrow> listed (arrays(a := xs)) l = listed arrays l"
  by (cases l) simp_all

lemma compact_loop_keeps: "fst (compact_loop adjust xs kept i stop) = kept @ map Some (somes xs)"
  by (induction adjust xs kept i stop rule: compact_loop.induct) simp_all

section \<open>Subscriptions\<close>

abbreviation listeners_of :: "'v world \<Rightarrow> nat \<Rightarrow> listeners" where
  "listeners_of w e \<equiv> em_listeners (w_emitters w e)"

definition arrays_apart :: "'v world \<Rightarrow> bool" where
  "arrays_apart w \<longleftrightarrow>
     (\<forall>e a. listeners_of w e = Many a \<longrightarrow> a < w_arrayCount w \<and> (\<forall>e'. listeners_of w e' = Many a \<longrightarrow> e' = e))"

definition well_kept :: "'v world \<Rightarrow> bool" where
  "well_kept w \<longleftrightarrow>
     arrays_apart w \<and>
     (\<forall>e. em_size (w_emitters w e) = int (length (live w e)) \<and> distinct (live w e) \<and> (\<forall>c\<in>set (live w e). c < w_id w) \<and>
          (em_disposed (w_emitters w e) \<longrightarrow> listeners_of w e = No_listeners)) \<and>
     (\<forall>c e. w_owner w c = Some e \<longrightarrow> c < w_id w \<and> (em_disposed (w_emitters w e) \<or> c \<in> set (live w e)))"

lemma well_keptD:
  assumes "well_kept w"
  shows "arrays_apart w" "em_size (w_emitters w e) = int (length (live w e))" "distinct (live w e)"
    "c \<in> set (live w e) \<Longrightarrow> c < w_id w"
    "em_disposed (w_emitters w e) \<Longrightarrow> listeners_of w e = No_listeners"
    "w_owner w c = Some e \<Longrightarrow> c < w_id w"
    "w_owner w c = Some e \<Longrightarrow> \<not> em_disposed (w_emitters w e) \<Longrightarrow> c \<in> set (live w e)"
  using assms by (auto simp: well_kept_def)

lemma well_kept_world_new [simp]: "well_kept (world_new thresholds)"
  by (simp add: well_kept_def arrays_apart_def world_new_def Emitter_new_def live_def)

lemmas world_updates = upd_emitter_def upd_array_def call_hook_def

text \<open>What an operation has to tell about the subscriptions it leaves.\<close>

definition same_subscriptions :: "'v world \<Rightarrow> 'v world \<Rightarrow> bool" where
  "same_subscriptions w w' \<longleftrightarrow>
     w_emitters w' = w_emitters w \<and> w_arrays w' = w_arrays w \<and> w_arrayCount w' = w_arrayCount w \<and>
     w_id w' = w_id w \<and> w_owner w' = w_owner w"

lemma same_subscriptionsD:
  assumes "same_subscriptions w w'"
  shows "w_emitters w' = w_emitters w" "w_arrays w' = w_arrays w" "w_id w' = w_id w" "live w' = live w"
    "well_kept w' \<longleftrightarrow> well_kept w"
proof -
  show l: "live w' = live w"
    unfolding live_def [abs_def] using assms by (simp add: same_subscriptions_def)
  show "well_kept w' \<longleftrightarrow> well_kept w"
    using assms by (simp add: well_kept_def arrays_apart_def l) (simp add: same_subscriptions_def)
qed (use assms in \<open>simp_all add: same_subscriptions_def\<close>)

lemma same_subscriptions_trans:
  "same_subscriptions w w' \<Longrightarrow> same_subscriptions w' w'' \<Longrightarrow> same_subscriptions w w''"
  by (simp add: same_subscriptions_def)

lemma Emitter_event_cases:
  "Emitter_event e w = (None, w) \<or> (\<exists>w'. Emitter_event e w = (Some (w_id w), w') \<and> \<not> em_disposed (w_emitters w e))"
  by (auto simp: Emitter_event_def Let_def)

text \<open>The world behind a subscription, with the listeners it had before.\<close>

definition subscribed :: "nat \<Rightarrow> 'v world \<Rightarrow> 'v world" where
  "subscribed e w =
     (let c = w_id w; em = w_emitters w e in
      w\<lparr>w_emitters := (w_emitters w)(e := em\<lparr>
           em_listeners := (case em_listeners em of No_listeners \<Rightarrow> One c | One _ \<Rightarrow> Many (w_arrayCount w) | Many a \<Rightarrow> Many a),
           em_size := em_size em + 1\<rparr>),
         w_arrays := (case em_listeners em of No_listeners \<Rightarrow> w_arrays w
           | One c' \<Rightarrow> (w_arrays w)(w_arrayCount w := [Some c', Some c])
           | Many a \<Rightarrow> (w_arrays w)(a := w_arrays w a @ [Some c])),
         w_arrayCount := w_arrayCount w + (case em_listeners em of One _ \<Rightarrow> 1 | _ \<Rightarrow> 0),
         w_id := Suc c, w_owner := (w_owner w)(c \<mapsto> e),
         w_hooks := w_hooks w @ (case em_listeners em of No_listeners \<Rightarrow> [OnWillAddFirstListener e, OnDidAddFirstListener e] | _ \<Rightarrow> [])\<rparr>)"

lemma em_listeners_update_same: "em_listeners em = l \<Longrightarrow> em\<lparr>em_listeners := l\<rparr> = em" for em :: emitter
  by simp

lemma Emitter_event_eq:
  assumes "Emitter_event e w = (Some c, w')"
  shows "c = w_id w" "\<not> em_disposed (w_emitters w e)" "w' = subscribed e w"
proof -
  note e = assms [unfolded Emitter_event_def Let_def world_updates]
  show "c = w_id w" "\<not> em_disposed (w_emitters w e)" using e by (simp_all split: if_splits)
  show "w' = subscribed e w"
    using e by (cases "listeners_of w e"; cases w) (simp_all add: subscribed_def Let_def em_listeners_update_same split: if_splits)
qed

lemma subscribed_live:
  assumes "arrays_apart w"
  shows "live (subscribed e w) = (live w)(e := live w e @ [w_id w])" "arrays_apart (subscribed e w)"
    "e' \<noteq> e \<Longrightarrow> listeners_of (subscribed e w) e' = listeners_of w e'"
    "listeners_of w e = Many a \<Longrightarrow>
       listeners_of (subscribed e w) e = Many a \<and> w_arrays (subscribed e w) a = w_arrays w a @ [Some (w_id w)]"
    "a < w_arrayCount w \<Longrightarrow> listeners_of w e \<noteq> Many a \<Longrightarrow> w_arrays (subscribed e w) a = w_arrays w a"
proof -
  show "arrays_apart (subscribed e w)"
    unfolding arrays_apart_def
  proof (intro allI impI conjI)
    fix e1 a assume a: "listeners_of (subscribed e w) e1 = Many a"
    have old: "listeners_of w e1 = Many a \<Longrightarrow> a < w_arrayCount w" for e1 using assms by (simp add: arrays_apart_def)
    have one: "listeners_of w e1 = Many a \<Longrightarrow> listeners_of w e2 = Many a \<Longrightarrow> e2 = e1" for e1 e2
      using assms by (simp add: arrays_apart_def)
    show "a < w_arrayCount (subscribed e w)"
      using a old [of e1] old [of e] by (auto simp: subscribed_def Let_def split: listeners.splits if_splits)
    fix e2 assume b: "listeners_of (subscribed e w) e2 = Many a"
    show "e2 = e1"
      using a b one [of e1 e2] old [of e1] old [of e2]
      by (auto simp: subscribed_def Let_def split: listeners.splits if_splits)
  qed
  have "live (subscribed e w) e' = ((live w)(e := live w e @ [w_id w])) e'" for e'
    using assms
    by (cases "listeners_of w e"; cases "listeners_of w e'")
      (auto simp: live_def subscribed_def Let_def arrays_apart_def)
  then show "live (subscribed e w) = (live w)(e := live w e @ [w_id w])" by blast
qed (use assms in \<open>auto simp: subscribed_def Let_def arrays_apart_def split: listeners.splits\<close>)

lemma subscribed_sels [simp]:
  "w_id (subscribed e w) = Suc (w_id w)" "w_owner (subscribed e w) = (w_owner w)(w_id w \<mapsto> e)"
  "em_disposed (w_emitters (subscribed e w) e') = em_disposed (w_emitters w e')"
  "em_size (w_emitters (subscribed e w) e') = em_size (w_emitters w e') + (if e' = e then 1 else 0)"
  "w_queue (subscribed e w) = w_queue w" "w_stack (subscribed e w) = w_stack w"
  "w_rounds (subscribed e w) = w_rounds w"
  by (simp_all add: subscribed_def Let_def)

lemma well_kept_subscribed:
  assumes "well_kept w" "\<not> em_disposed (w_emitters w e)"
  shows "well_kept (subscribed e w)"
proof -
  note k = well_keptD [OF assms(1)] and l = subscribed_live [OF k(1)]
  have new: "w_id w \<notin> set (live w e')" for e' using k(4) by blast
  show ?thesis
    unfolding well_kept_def
  proof (intro conjI allI impI ballI)
    fix c e'
    assume "w_owner (subscribed e w) c = Some e'"
    then show "c < w_id (subscribed e w)"
      and "em_disposed (w_emitters (subscribed e w) e') \<or> c \<in> set (live (subscribed e w) e')"
      using k(6,7) [of c e'] by (auto simp: l(1) less_Suc_eq split: if_splits)
  next
    fix e'
    show "em_disposed (w_emitters (subscribed e w) e') \<Longrightarrow> listeners_of (subscribed e w) e' = No_listeners"
      using k(5) [of e'] assms(2) l(3) [of e'] by (cases "e' = e") simp_all
  next
    fix e' c
    assume "c \<in> set (live (subscribed e w) e')"
    then show "c < w_id (subscribed e w)" using k(4) [of c e'] k(4) [of c e] by (auto simp: l(1) less_Suc_eq split: if_splits)
  qed (use k(2,3) l(2) new in \<open>simp_all add: l(1)\<close>)
qed

lemma well_kept_event: "well_kept w \<Longrightarrow> well_kept (snd (Emitter_event e w))"
  using Emitter_event_cases [of e w] Emitter_event_eq [of e w] well_kept_subscribed by fastforce

section \<open>Removal\<close>

definition removed :: "nat \<Rightarrow> nat \<Rightarrow> 'v world \<Rightarrow> 'v world" where
  "removed e c w = snd (Emitter_removeListener e c w)"

lemma Emitter_removeListener_not_listening:
  "listeners_of w e = No_listeners \<Longrightarrow> Emitter_removeListener e c w = (False, call_hook (OnWillRemoveListener e) w)"
  by (simp add: Emitter_removeListener_def Let_def call_hook_def)

lemma Emitter_removeListener_last:
  "listeners_of w e \<noteq> No_listeners \<Longrightarrow> em_size (w_emitters w e) = 1 \<Longrightarrow>
   Emitter_removeListener e c w =
     (False, w\<lparr>w_emitters := (w_emitters w)(e := (w_emitters w e)\<lparr>em_listeners := No_listeners, em_size := 0\<rparr>),
        w_hooks := w_hooks w @ [OnWillRemoveListener e, OnDidRemoveLastListener e]\<rparr>)"
  by (simp add: Emitter_removeListener_def Let_def world_updates)

text \<open>The array and the queue when one of several listeners has been removed.\<close>

definition compacts :: "nat \<Rightarrow> nat option list \<Rightarrow> 'v world \<Rightarrow> bool" where
  "compacts e xs w \<longleftrightarrow> (em_size (w_emitters w e) - 1) * compactionThreshold \<le> int (length xs)"

definition removed_array :: "nat \<Rightarrow> nat option list \<Rightarrow> 'v world \<Rightarrow> nat option list" where
  "removed_array e xs w = (if compacts e xs w then map Some (somes xs) else xs)"

definition removed_queue :: "nat \<Rightarrow> nat option list \<Rightarrow> 'v world \<Rightarrow> 'v delivery_queue" where
  "removed_queue e xs w =
     (if compacts e xs w then
        (case compact_loop (dq_current (w_queue w) = Some e) xs [] (dq_i (w_queue w)) (dq_end (w_queue w)) of
           (_, i, stop) \<Rightarrow> (w_queue w)\<lparr>dq_i := i, dq_end := stop\<rparr>)
      else w_queue w)"

lemma Emitter_removeListener_several:
  assumes "listeners_of w e = Many a" "em_size (w_emitters w e) \<noteq> 1" "index_of (Some c) (w_arrays w a) = Some index"
  shows "Emitter_removeListener e c w =
     (False, w\<lparr>w_hooks := w_hooks w @ [OnWillRemoveListener e],
        w_emitters := (w_emitters w)(e := (w_emitters w e)\<lparr>em_size := em_size (w_emitters w e) - 1\<rparr>),
        w_queue := removed_queue e ((w_arrays w a)[index := None]) w,
        w_arrays := (w_arrays w)(a := removed_array e ((w_arrays w a)[index := None]) w)\<rparr>)"
proof -
  obtain kept i stop where c: "compact_loop (dq_current (w_queue w) = Some e) ((w_arrays w a)[index := None]) []
      (dq_i (w_queue w)) (dq_end (w_queue w)) = (kept, i, stop)"
    by (metis prod_cases3)
  then have "kept = map Some (somes ((w_arrays w a)[index := None]))"
    using compact_loop_keeps [of "dq_current (w_queue w) = Some e" "(w_arrays w a)[index := None]" "[]" "dq_i (w_queue w)" "dq_end (w_queue w)"]
    by simp
  with c assms show ?thesis
    by (simp add: Emitter_removeListener_def Let_def world_updates removed_array_def removed_queue_def compacts_def)
qed

lemma removeListener_known:
  assumes "well_kept w" "c \<in> set (live w e)" "em_size (w_emitters w e) \<noteq> 1"
  obtains a index where "listeners_of w e = Many a" "index_of (Some c) (w_arrays w a) = Some index"
    "index < length (w_arrays w a)" "w_arrays w a ! index = Some c"
proof -
  have "length (live w e) \<noteq> 1" using well_keptD(2) [OF assms(1), of e] assms(3) by simp
  then obtain a where a: "listeners_of w e = Many a"
    using assms(2) by (cases "listeners_of w e") (auto simp: live_def)
  then have "Some c \<in> set (w_arrays w a)" using assms(2) by (simp add: live_def)
  then obtain index where i: "index_of (Some c) (w_arrays w a) = Some index" by (simp add: index_of_def)
  show thesis using that [OF a i index_of_SomeD [OF i]] .
qed

lemma somes_removed_array:
  assumes "well_kept w" "listeners_of w e = Many a" "index < length (w_arrays w a)" "w_arrays w a ! index = Some c"
  shows "somes (removed_array e ((w_arrays w a)[index := None]) w) = filter (\<lambda>x. x \<noteq> c) (live w e)"
proof -
  have l: "live w e = somes (w_arrays w a)" using assms(2) by (simp add: live_def)
  then have "distinct (somes (w_arrays w a))" using well_keptD(3) [OF assms(1), of e] by simp
  then show ?thesis
    using somes_update_None [OF assms(3,4)] by (simp add: removed_array_def l)
qed

lemma live_removed:
  assumes "well_kept w" "c \<in> set (live w e)"
  shows "\<not> fst (Emitter_removeListener e c w)"
    "live (removed e c w) = (live w)(e := filter (\<lambda>x. x \<noteq> c) (live w e))"
    "listeners_of (removed e c w) e' = listeners_of w e' \<or> e' = e \<and> listeners_of (removed e c w) e' = No_listeners"
    "em_size (w_emitters (removed e c w) e') = em_size (w_emitters w e') - (if e' = e then 1 else 0)"
    "em_disposed (w_emitters (removed e c w) e') = em_disposed (w_emitters w e')"
    "w_id (removed e c w) = w_id w" "w_owner (removed e c w) = w_owner w"
    "w_arrayCount (removed e c w) = w_arrayCount w" "w_stack (removed e c w) = w_stack w"
    "w_rounds (removed e c w) = w_rounds w"
    "listeners_of w e \<noteq> Many b \<Longrightarrow> w_arrays (removed e c w) b = w_arrays w b"
proof -
  note k = well_keptD [OF assms(1)]
  have ne: "listeners_of w e \<noteq> No_listeners" using assms(2) by (auto simp: live_def)
  have "(\<not> fst (Emitter_removeListener e c w) \<and>
    live (removed e c w) = (live w)(e := filter (\<lambda>x. x \<noteq> c) (live w e))) \<and>
    (listeners_of (removed e c w) e' = listeners_of w e' \<or> e' = e \<and> listeners_of (removed e c w) e' = No_listeners) \<and>
    em_size (w_emitters (removed e c w) e') = em_size (w_emitters w e') - (if e' = e then 1 else 0) \<and>
    em_disposed (w_emitters (removed e c w) e') = em_disposed (w_emitters w e') \<and>
    w_id (removed e c w) = w_id w \<and> w_owner (removed e c w) = w_owner w \<and>
    w_arrayCount (removed e c w) = w_arrayCount w \<and> w_stack (removed e c w) = w_stack w \<and>
    w_rounds (removed e c w) = w_rounds w \<and>
    (listeners_of w e \<noteq> Many b \<longrightarrow> w_arrays (removed e c w) b = w_arrays w b)"
  proof (cases "em_size (w_emitters w e) = 1")
    case True
    then have "length (live w e) = Suc 0" using k(2) [of e] by simp
    then have c: "live w e = [c]" using assms(2) by (auto simp: length_Suc_conv)
    have "live (removed e c w) e' = ((live w)(e := [])) e'" for e'
      unfolding removed_def Emitter_removeListener_last [OF ne True] by (simp add: live_def split: listeners.splits)
    then have "live (removed e c w) = (live w)(e := filter (\<lambda>x. x \<noteq> c) (live w e))" by (auto simp: c)
    then show ?thesis
      using True by (simp add: removed_def Emitter_removeListener_last [OF ne True])
  next
    case False
    obtain a index where a: "listeners_of w e = Many a" and i: "index_of (Some c) (w_arrays w a) = Some index"
      "index < length (w_arrays w a)" "w_arrays w a ! index = Some c"
      using removeListener_known [OF assms False] .
    note r = Emitter_removeListener_several [OF a False i(1)]
    have "live (removed e c w) e' = ((live w)(e := filter (\<lambda>x. x \<noteq> c) (live w e))) e'" for e'
    proof (cases "e' = e")
      case True
      then show ?thesis
        using somes_removed_array [OF assms(1) a i(2,3)] a by (simp add: removed_def r live_def)
    next
      case False
      then have "listeners_of w e' \<noteq> Many a" using k(1) a by (auto simp: arrays_apart_def)
      with False show ?thesis
        by (auto simp: removed_def r live_def split: listeners.splits)
    qed
    then show ?thesis
      using a by (auto simp: removed_def r)
  qed
  then show "\<not> fst (Emitter_removeListener e c w)"
    "live (removed e c w) = (live w)(e := filter (\<lambda>x. x \<noteq> c) (live w e))"
    "listeners_of (removed e c w) e' = listeners_of w e' \<or> e' = e \<and> listeners_of (removed e c w) e' = No_listeners"
    "em_size (w_emitters (removed e c w) e') = em_size (w_emitters w e') - (if e' = e then 1 else 0)"
    "em_disposed (w_emitters (removed e c w) e') = em_disposed (w_emitters w e')"
    "w_id (removed e c w) = w_id w" "w_owner (removed e c w) = w_owner w"
    "w_arrayCount (removed e c w) = w_arrayCount w" "w_stack (removed e c w) = w_stack w"
    "w_rounds (removed e c w) = w_rounds w"
    "listeners_of w e \<noteq> Many b \<Longrightarrow> w_arrays (removed e c w) b = w_arrays w b"
    by blast+
qed

lemma length_filter_neq:
  "distinct xs \<Longrightarrow> x \<in> set xs \<Longrightarrow> int (length (filter (\<lambda>y. y \<noteq> x) xs)) = int (length xs) - 1"
  by (induction xs) auto


definition disown :: "nat \<Rightarrow> 'v world \<Rightarrow> 'v world" where
  "disown c w = w\<lparr>w_owner := (w_owner w)(c := None)\<rparr>"

lemma disown_sels [simp]:
  "w_emitters (disown c w) = w_emitters w" "w_arrays (disown c w) = w_arrays w" "w_arrayCount (disown c w) = w_arrayCount w"
  "w_id (disown c w) = w_id w" "w_owner (disown c w) = (w_owner w)(c := None)" "w_queue (disown c w) = w_queue w"
  "w_stack (disown c w) = w_stack w" "w_rounds (disown c w) = w_rounds w" "live (disown c w) = live w"
  by (simp_all add: disown_def live_def fun_eq_iff)

lemma call_hook_sels [simp]:
  "w_emitters (call_hook h w) = w_emitters w" "w_arrays (call_hook h w) = w_arrays w" "w_arrayCount (call_hook h w) = w_arrayCount w"
  "w_id (call_hook h w) = w_id w" "w_owner (call_hook h w) = w_owner w" "w_queue (call_hook h w) = w_queue w"
  "w_stack (call_hook h w) = w_stack w" "w_rounds (call_hook h w) = w_rounds w" "live (call_hook h w) = live w"
  by (simp_all add: call_hook_def live_def fun_eq_iff)

lemma well_kept_disown: "well_kept w \<Longrightarrow> well_kept (disown c w)"
  by (simp add: well_kept_def arrays_apart_def)

lemma well_kept_call_hook: "well_kept (call_hook h w) \<longleftrightarrow> well_kept w"
  by (simp add: well_kept_def arrays_apart_def)

lemma well_kept_removed:
  assumes "well_kept w" "c \<in> set (live w e)" "w_owner w c = None"
  shows "well_kept (removed e c w)"
proof -
  note k = well_keptD [OF assms(1)] and r = live_removed [OF assms(1,2)]
  have l: "listeners_of (removed e c w) e' = Many a \<Longrightarrow> listeners_of w e' = Many a" for e' a
    using r(3) [of e'] by auto
  have apart: "arrays_apart (removed e c w)"
    using k(1) l unfolding arrays_apart_def r(8) by metis
  show ?thesis
    unfolding well_kept_def
  proof (intro conjI allI impI ballI)
    fix e'
    show "em_size (w_emitters (removed e c w) e') = int (length (live (removed e c w) e'))"
      using length_filter_neq [OF k(3) assms(2)] by (simp add: r(2,4) k(2))
    show "em_disposed (w_emitters (removed e c w) e') \<Longrightarrow> listeners_of (removed e c w) e' = No_listeners"
      using k(5) [of e'] r(3) [of e'] by (auto simp: r(5))
  next
    fix c' e'
    assume o: "w_owner (removed e c w) c' = Some e'"
    then show "c' < w_id (removed e c w)" using k(6) by (simp add: r(6,7))
    have "c' \<noteq> c" using o assms(3) by (auto simp: r(7))
    then show "em_disposed (w_emitters (removed e c w) e') \<or> c' \<in> set (live (removed e c w) e')"
      using k(7) [of c' e'] o by (auto simp: r(2,5,7))
  next
    fix e' c'
    assume "c' \<in> set (live (removed e c w) e')"
    then show "c' < w_id (removed e c w)"
      using k(4) [of c' e'] by (auto simp: r(2,6) split: if_splits)
  qed (use apart k(3) in \<open>simp_all add: r(2)\<close>)
qed

lemma unsubscribe_cases:
  assumes "well_kept w"
  obtains "w_owner w c = None" "unsubscribe c w = (False, w)"
  | e where "w_owner w c = Some e" "em_disposed (w_emitters w e)"
      "unsubscribe c w = (False, call_hook (OnWillRemoveListener e) (disown c w))"
  | e where "w_owner w c = Some e" "\<not> em_disposed (w_emitters w e)" "c \<in> set (live w e)"
      "unsubscribe c w = (False, removed e c (disown c w))"
proof (cases "w_owner w c")
  case (Some e)
  note k = well_keptD [OF assms]
  show thesis
  proof (cases "em_disposed (w_emitters w e)")
    case True
    then show thesis
      using that(2) [OF Some True] Emitter_removeListener_not_listening [of "disown c w" e c] k(5) [OF True] Some
      by (simp add: unsubscribe_def disown_def)
  next
    case False
    have c: "c \<in> set (live w e)" using k(7) [OF Some False] .
    then have "\<not> fst (Emitter_removeListener e c (disown c w))"
      using live_removed(1) [OF well_kept_disown [OF assms]] by simp
    then show thesis
      using that(3) [OF Some False c] Some
      by (cases "Emitter_removeListener e c (disown c w)") (simp add: unsubscribe_def removed_def disown_def)
  qed
qed (simp add: that(1) unsubscribe_def)

lemma well_kept_unsubscribe:
  assumes "well_kept w"
  shows "well_kept (snd (unsubscribe c w))"
  by (rule unsubscribe_cases [OF assms, of c])
    (simp_all add: assms well_kept_call_hook well_kept_disown well_kept_removed)

section \<open>Disposal\<close>

lemma Emitter_dispose_sels [simp]:
  "w_owner (Emitter_dispose e w) = w_owner w" "w_id (Emitter_dispose e w) = w_id w"
  "w_arrays (Emitter_dispose e w) = w_arrays w" "w_arrayCount (Emitter_dispose e w) = w_arrayCount w"
  "w_stack (Emitter_dispose e w) = w_stack w" "w_rounds (Emitter_dispose e w) = w_rounds w"
  "em_disposed (w_emitters (Emitter_dispose e w) e') \<longleftrightarrow> e' = e \<or> em_disposed (w_emitters w e')"
  "e' \<noteq> e \<Longrightarrow> w_emitters (Emitter_dispose e w) e' = w_emitters w e'"
  by (auto simp: Emitter_dispose_def DeliveryQueue_reset_def Let_def world_updates)

lemma dispose_listeners:
  assumes "well_kept w"
  shows "listeners_of (Emitter_dispose e w) e = No_listeners" "em_size (w_emitters (Emitter_dispose e w) e) = 0"
    "live (Emitter_dispose e w) = (live w)(e := [])"
proof -
  note k = well_keptD [OF assms]
  have "listeners_of w e = No_listeners \<Longrightarrow> em_size (w_emitters w e) = 0"
    by (simp add: k(2) live_def)
  then show "em_size (w_emitters (Emitter_dispose e w) e) = 0"
    using k(5) [of e] by (auto simp: Emitter_dispose_def DeliveryQueue_reset_def Let_def world_updates)
  show l: "listeners_of (Emitter_dispose e w) e = No_listeners"
    using k(5) [of e] by (auto simp: Emitter_dispose_def DeliveryQueue_reset_def Let_def world_updates)
  have "live (Emitter_dispose e w) e' = ((live w)(e := [])) e'" for e'
    using l by (cases "e' = e") (simp_all add: live_def)
  then show "live (Emitter_dispose e w) = (live w)(e := [])" by blast
qed

lemma well_kept_dispose:
  assumes "well_kept w"
  shows "well_kept (Emitter_dispose e w)"
proof -
  note k = well_keptD [OF assms] and d = dispose_listeners [OF assms, of e]
  have l: "listeners_of (Emitter_dispose e w) e' = Many a \<Longrightarrow> listeners_of w e' = Many a" for e' a
    using d(1) by (cases "e' = e") simp_all
  have apart: "arrays_apart (Emitter_dispose e w)"
    using k(1) l unfolding arrays_apart_def Emitter_dispose_sels by blast
  show ?thesis
    unfolding well_kept_def
  proof (intro conjI allI impI ballI)
    fix e'
    show "em_size (w_emitters (Emitter_dispose e w) e') = int (length (live (Emitter_dispose e w) e'))"
      by (cases "e' = e") (simp_all add: d k(2))
    show "em_disposed (w_emitters (Emitter_dispose e w) e') \<Longrightarrow> listeners_of (Emitter_dispose e w) e' = No_listeners"
      using k(5) [of e'] d(1) by (cases "e' = e") simp_all
    show "distinct (live (Emitter_dispose e w) e')" using k(3) by (simp add: d(3))
  next
    fix e' c assume "c \<in> set (live (Emitter_dispose e w) e')"
    then show "c < w_id (Emitter_dispose e w)" using k(4) [of c e'] by (simp add: d(3) split: if_splits)
  next
    fix c e' assume o: "w_owner (Emitter_dispose e w) c = Some e'"
    then show "c < w_id (Emitter_dispose e w)" using k(6) by simp
    show "em_disposed (w_emitters (Emitter_dispose e w) e') \<or> c \<in> set (live (Emitter_dispose e w) e')"
      using k(7) [of c e'] o by (auto simp: d(3))
  qed (rule apart)
qed

section \<open>Delivery leaves the subscriptions\<close>

lemma same_subscriptions_refl [simp]: "same_subscriptions w w"
  by (simp add: same_subscriptions_def)

lemma run_queue_same:
  assumes "\<And>w'. same_subscriptions w w' \<Longrightarrow> same_subscriptions w (snd (after w'))"
  shows "same_subscriptions w (snd (run_queue l k after w))"
proof -
  obtain r i where l: "loop_next (array_of w l) (dq_i (w_queue w)) (dq_end (w_queue w)) = (r, i)" by fastforce
  show ?thesis
  proof (cases r)
    case Loop_ends
    then show ?thesis
      using l by (simp add: run_queue_def Let_def)
        (rule assms, simp add: same_subscriptions_def DeliveryQueue_reset_def)
  qed (use l in \<open>simp_all add: run_queue_def Let_def same_subscriptions_def call_listener_def\<close>)
qed

lemma fire_rest_same: "same_subscriptions w (snd (fire_rest e v w))"
proof (cases "listeners_of w e")
  case (Many a)
  let ?w = "DeliveryQueue_enqueue e v (int (length (w_arrays w a))) (start_round e v w)"
  have "same_subscriptions w ?w" by (simp add: same_subscriptions_def DeliveryQueue_enqueue_def start_round_def)
  then have "same_subscriptions w (snd (run_queue (Many a) Fire_done (Pair False) ?w))"
    using run_queue_same [of ?w "Pair False" "Many a" Fire_done] same_subscriptions_trans by auto
  with Many show ?thesis by (simp add: fire_rest_def)
qed (simp_all add: fire_rest_def same_subscriptions_def start_round_def call_listener_def)

lemma Emitter_deliverQueue_same: "same_subscriptions w (snd (Emitter_deliverQueue l k w))"
  unfolding Emitter_deliverQueue_def
  by (rule run_queue_same)
    (auto simp: continue_fire_def intro: same_subscriptions_trans fire_rest_same split: continuation.splits)

lemma Emitter_fire_same: "same_subscriptions w (snd (Emitter_fire e v w))"
  by (simp add: Emitter_fire_def Emitter_deliverQueue_same fire_rest_same split: option.splits)

lemma listener_returns_same: "same_subscriptions w (snd (listener_returns w))"
proof -
  have "same_subscriptions w (snd (Emitter_deliverQueue l k (w\<lparr>w_stack := fs\<rparr>)))" for l k fs
    by (rule same_subscriptions_trans [OF _ Emitter_deliverQueue_same]) (simp add: same_subscriptions_def)
  then show ?thesis
    by (auto simp: listener_returns_def same_subscriptions_def split: list.splits frame.splits)
qed

lemma well_kept_perform:
  assumes "well_kept w"
  shows "well_kept (snd (perform a w))"
proof (cases a)
  case (Fire e v)
  then show ?thesis
    using assms same_subscriptionsD(5) [OF Emitter_fire_same [of w e v]] by (simp add: perform_def)
next
  case Return
  then show ?thesis
    using assms same_subscriptionsD(5) [OF listener_returns_same [of w]] by (simp add: perform_def)
qed (simp_all add: perform_def assms well_kept_event well_kept_unsubscribe well_kept_dispose)

theorem emits_well_kept: "emits thresholds w \<Longrightarrow> well_kept w"
  by (induction rule: emits.induct) (simp, metis snd_conv well_kept_perform)

fun perform_all :: "'v action list \<Rightarrow> 'v world \<Rightarrow> 'v world" where
  "perform_all [] w = w"
| "perform_all (a # as) w = perform_all as (snd (perform a w))"

lemma emits_perform_all: "emits thresholds w \<Longrightarrow> emits thresholds (perform_all as w)"
proof (induction as arbitrary: w)
  case (Cons a as)
  then show ?case using emits.step [of thresholds w a "fst (perform a w)" "snd (perform a w)"] by simp
qed simp

section \<open>What the emitters promise of subscriptions\<close>

text \<open>
  Per emitter the listeners in the order in which they have subscribed, and what refuses further ones;
  per listener the emitter it can unsubscribe from.
\<close>

record subscriptions =
  s_live :: "nat \<Rightarrow> nat list"
  s_disposed :: "nat \<Rightarrow> bool"
  s_threshold :: "nat \<Rightarrow> int option"
  s_owner :: "nat \<rightharpoonup> nat"
  s_id :: nat

definition subscriptions_of :: "'v world \<Rightarrow> subscriptions" where
  "subscriptions_of w =
     \<lparr>s_live = live w, s_disposed = (\<lambda>e. em_disposed (w_emitters w e)), s_threshold = (\<lambda>e. em_threshold (w_emitters w e)),
       s_owner = w_owner w, s_id = w_id w\<rparr>"

definition refuses :: "nat \<Rightarrow> subscriptions \<Rightarrow> bool" where
  "refuses e s \<longleftrightarrow> s_disposed s e \<or> (case s_threshold s e of None \<Rightarrow> False | Some t \<Rightarrow> int (length (s_live s e)) > t * t)"

definition subscriptions_step :: "'v action \<Rightarrow> subscriptions \<Rightarrow> subscriptions" where
  "subscriptions_step a s =
     (case a of
        Subscribe e \<Rightarrow>
          if refuses e s then s
          else s\<lparr>s_live := (s_live s)(e := s_live s e @ [s_id s]), s_owner := (s_owner s)(s_id s \<mapsto> e), s_id := s_id s + 1\<rparr>
      | Unsubscribe c \<Rightarrow>
          (case s_owner s c of
             None \<Rightarrow> s
           | Some e \<Rightarrow> s\<lparr>s_live := (s_live s)(e := filter (\<lambda>x. x \<noteq> c) (s_live s e)), s_owner := (s_owner s)(c := None)\<rparr>)
      | Dispose e \<Rightarrow> s\<lparr>s_live := (s_live s)(e := []), s_disposed := (s_disposed s)(e := True)\<rparr>
      | _ \<Rightarrow> s)"

lemma removeListener_threshold:
  "em_threshold (w_emitters (snd (Emitter_removeListener e c w)) e') = em_threshold (w_emitters w e')"
proof (cases "\<exists>a. listeners_of w e = Many a \<and> em_size (w_emitters w e) \<noteq> 1 \<and> index_of (Some c) (w_arrays w a) \<noteq> None")
  case True
  then show ?thesis by (auto simp: Emitter_removeListener_several)
next
  case False
  then show ?thesis
    by (cases "listeners_of w e") (auto simp: Emitter_removeListener_def Let_def world_updates)
qed

lemma em_threshold_kept [simp]:
  "em_threshold (w_emitters (subscribed e w) e') = em_threshold (w_emitters w e')"
  "em_threshold (w_emitters (Emitter_dispose e w) e') = em_threshold (w_emitters w e')"
  "em_threshold (w_emitters (removed e c w) e') = em_threshold (w_emitters w e')"
  by (simp_all add: subscribed_def Emitter_dispose_def DeliveryQueue_reset_def removed_def removeListener_threshold Let_def world_updates)

lemma subscriptions_of_same:
  assumes "same_subscriptions w w'"
  shows "subscriptions_of w' = subscriptions_of w"
proof -
  have "w_owner w' = w_owner w" using assms by (simp add: same_subscriptions_def)
  then show ?thesis using same_subscriptionsD(1,3,4) [OF assms] by (simp add: subscriptions_of_def)
qed

lemma refuses_iff:
  assumes "well_kept w"
  shows "refuses e (subscriptions_of w) \<longleftrightarrow> Emitter_event e w = (None, w)"
  using well_keptD(2) [OF assms, of e]
  by (auto simp: refuses_def subscriptions_of_def Emitter_event_def Let_def split: option.splits)

lemma subscriptions_of_event:
  assumes "well_kept w"
  shows "subscriptions_of (snd (Emitter_event e w)) = subscriptions_step (Subscribe e) (subscriptions_of w)"
proof (cases "Emitter_event e w = (None, w)")
  case True
  then show ?thesis using refuses_iff [OF assms, of e] by (simp add: subscriptions_step_def)
next
  case False
  then obtain w' where e: "Emitter_event e w = (Some (w_id w), w')" using Emitter_event_cases [of e w] by auto
  then have "w' = subscribed e w" by (rule Emitter_event_eq)
  then show ?thesis
    using False refuses_iff [OF assms, of e] subscribed_live(1) [OF well_keptD(1) [OF assms], of e]
    by (simp add: e subscriptions_step_def) (simp add: subscriptions_of_def)
qed

lemma subscriptions_of_unsubscribe:
  assumes "well_kept w"
  shows "subscriptions_of (snd (unsubscribe c w)) = subscriptions_step (Unsubscribe c) (subscriptions_of w)"
proof (rule unsubscribe_cases [OF assms, of c])
  fix e
  assume e: "w_owner w c = Some e" "em_disposed (w_emitters w e)"
    "unsubscribe c w = (False, call_hook (OnWillRemoveListener e) (disown c w))"
  then have "live w e = []" using well_keptD(5) [OF assms] by (simp add: live_def)
  then show ?thesis
    using e by (simp add: subscriptions_step_def subscriptions_of_def fun_upd_idem)
next
  fix e
  assume e: "w_owner w c = Some e" "c \<in> set (live w e)" "unsubscribe c w = (False, removed e c (disown c w))"
  have "well_kept (disown c w)" "c \<in> set (live (disown c w) e)"
    using well_kept_disown [OF assms] e(2) by simp_all
  note r = live_removed [OF this]
  show ?thesis
    using e by (simp add: subscriptions_step_def subscriptions_of_def r)
qed (simp add: subscriptions_step_def subscriptions_of_def)

text \<open>
  C23. For any sequence of operations, however they are nested, the optimised representation (no
  listener, one, or an array with holes) keeps what the emitters promise of subscriptions: a new listener
  comes last, unless it is refused; unsubscribing removes the one listener from its emitter; disposing
  removes all of them; events change nothing.
\<close>

theorem Emitter_subscriptions_refine:
  assumes "emits thresholds w"
  shows "subscriptions_of (snd (perform a w)) = subscriptions_step a (subscriptions_of w)"
proof -
  have k: "well_kept w" using emits_well_kept [OF assms] .
  show ?thesis
  proof (cases a)
    case (Dispose e)
    then show ?thesis
      using dispose_listeners(3) [OF k, of e]
      by (auto simp: perform_def subscriptions_step_def subscriptions_of_def fun_eq_iff)
  next
    case (Fire e v)
    then show ?thesis
      using subscriptions_of_same [OF Emitter_fire_same] by (simp add: perform_def subscriptions_step_def)
  next
    case Return
    then show ?thesis
      using subscriptions_of_same [OF listener_returns_same] by (simp add: perform_def subscriptions_step_def)
  qed (simp_all add: perform_def subscriptions_of_event [OF k] subscriptions_of_unsubscribe [OF k])
qed

theorem Emitter_subscriptions_refine_witness:
  "s_live (subscriptions_of (snd (perform (Unsubscribe 1)
     (perform_all [Subscribe 0, Subscribe 0, Subscribe 0, Fire 0 (7::nat)] (world_new (\<lambda>_. None)))))) 0 = [0, 2]"
proof -
  let ?w = "perform_all [Subscribe 0, Subscribe 0, Subscribe 0, Fire 0 (7::nat)] (world_new (\<lambda>_. None))"
  have "emits (\<lambda>_. None) ?w" by (rule emits_perform_all [OF emits.start])
  note r = Emitter_subscriptions_refine [OF this, of "Unsubscribe 1"]
  have "s_live (subscriptions_step (Unsubscribe 1) (subscriptions_of ?w)) 0 = [0, 2]" by code_simp
  then show ?thesis by (simp only: r)
qed

text \<open>
  C24. The emitters and their listeners know each other, whatever is called when: \<open>_size\<close> is the number
  of listeners, which are distinct; a listener that can unsubscribe is one of
  its emitter, unless this is disposed; \<open>hasListeners\<close> is exact; and unsubscribing never finds an unknown listener.
\<close>

theorem Emitter_knows_its_listeners:
  assumes "emits thresholds w"
  shows "em_size (w_emitters w e) = int (length (live w e)) \<and> distinct (live w e) \<and>
    (w_owner w c = Some e \<longrightarrow> em_disposed (w_emitters w e) \<or> c \<in> set (live w e)) \<and>
    (em_disposed (w_emitters w e) \<longrightarrow> live w e = []) \<and> (Emitter_hasListeners e w \<longleftrightarrow> live w e \<noteq> []) \<and>
    \<not> fst (unsubscribe c w)"
proof -
  note k = emits_well_kept [OF assms]
  have "\<not> fst (unsubscribe c w)" by (rule unsubscribe_cases [OF k, of c]) simp_all
  moreover have none: "em_disposed (w_emitters w e) \<Longrightarrow> live w e = []"
    using well_keptD(5) [OF k, of e] by (simp add: live_def)
  ultimately show ?thesis
    using well_keptD(2,3,7) [OF k] by (auto simp: none Emitter_hasListeners_def)
qed

theorem Emitter_knows_its_listeners_witness:
  "em_size (w_emitters (perform_all [Subscribe 0, Subscribe 0, Fire 0 (7::nat), Subscribe 0, Unsubscribe 0] (world_new (\<lambda>_. None))) 0) = 2
   \<and> \<not> fst (unsubscribe 1 (perform_all [Subscribe 0, Subscribe 0, Fire 0 (7::nat), Subscribe 0, Unsubscribe 0] (world_new (\<lambda>_. None))))"
proof -
  let ?w = "perform_all [Subscribe 0, Subscribe 0, Fire 0 (7::nat), Subscribe 0, Unsubscribe 0] (world_new (\<lambda>_. None))"
  have "emits (\<lambda>_. None) ?w" by (rule emits_perform_all [OF emits.start])
  note k = Emitter_knows_its_listeners [OF this, of 0 1]
  have "live ?w 0 = [1, 2]" by code_simp
  then show ?thesis using k by simp
qed

end
