(* ===== verification/EmitterRounds.thy ===== *)
theory EmitterRounds
  imports EmitterProps
begin

text \<open>
  How the emitters of \<open>event.ts\<close> deliver events while listeners subscribe, unsubscribe, dispose and fire.
  \<open>pending\<close> is what the delivery queue still has to deliver; \<open>orderly\<close> relates the queue, the array it goes
  through and the recorded rounds. It is kept by every operation but some removals (\<open>careful\<close>), and what
  those do is shown at the end.
\<close>

section \<open>Clearing an element, compacting\<close>

definition clear :: "nat \<Rightarrow> nat option \<Rightarrow> nat option" where
  "clear c x = (if x = Some c then None else x)"

lemma somes_map_clear: "somes (map (clear c) xs) = filter (\<lambda>y. y \<noteq> c) (somes xs)"
proof (induction xs)
  case (Cons x xs)
  then show ?case by (cases x) (simp_all add: clear_def)
qed simp

lemma map_clear_id: "Some c \<notin> set xs \<Longrightarrow> map (clear c) xs = xs"
  by (rule map_idI) (auto simp: clear_def)

lemma update_None_eq_map_clear:
  assumes "i < length xs" "xs ! i = Some c" "distinct (somes xs)"
  shows "xs[i := None] = map (clear c) xs"
proof -
  obtain as bs where xs: "xs = as @ Some c # bs" and i: "i = length as"
    using assms(1,2) id_take_nth_drop [of i xs] by (metis length_take min.absorb4)
  then have "Some c \<notin> set as" "Some c \<notin> set bs"
    using assms(3) by auto
  then show ?thesis
    unfolding xs i by (simp add: map_clear_id) (simp add: clear_def)
qed

definition holes :: "'a option list \<Rightarrow> int" where
  "holes xs = int (length xs) - int (length (somes xs))"

lemma holes_simps [simp]:
  "holes [] = 0" "holes (Some x # xs) = holes xs" "holes (None # xs) = holes xs + 1"
  "holes (xs @ ys) = holes xs + holes ys"
  by (simp_all add: holes_def)

lemma holes_full: "None \<notin> set xs \<Longrightarrow> holes xs = 0"
proof (induction xs)
  case (Cons x xs)
  then show ?case by (cases x) simp_all
qed simp

lemma holes_nonneg: "0 \<le> holes xs"
proof (induction xs)
  case (Cons x xs)
  then show ?case by (cases x) simp_all
qed simp

lemma compact_loop_unadjusted: "snd (compact_loop False xs kept i stop) = (i, stop)"
  by (induction "False" xs kept i stop rule: compact_loop.induct) simp_all

lemma compact_loop_adjusted:
  "compact_loop True xs kept i stop =
     (kept @ map Some (somes xs), i - holes (take (nat (i - int (length kept))) xs), stop - holes xs)"
proof (induction "True" xs kept i stop rule: compact_loop.induct)
  case (1 kept i stop)
  then show ?case by simp
next
  case (2 l rest kept i stop)
  show ?case
  proof (cases "int (length kept) < i")
    case True
    then have "nat (i - int (length kept)) = Suc (nat (i - int (length (kept @ [Some l]))))" by simp
    then show ?thesis using 2 by simp
  qed (use 2 in simp)
next
  case (3 rest kept i stop)
  show ?case
  proof (cases "int (length kept) < i")
    case True
    then have "nat (i - int (length kept)) = Suc (nat (i - 1 - int (length kept)))" by simp
    then show ?thesis using 3 True by simp
  qed (use 3 in simp)
qed

lemma compact_loop_order:
  assumes "compact_loop adjust xs [] i stop = (kept, i', stop')" "stop \<le> i"
  shows "stop' \<le> i'"
proof (cases adjust)
  case True
  have "holes xs = holes (take (nat i) xs) + holes (drop (nat i) xs)"
    using holes_simps(4) [of "take (nat i) xs" "drop (nat i) xs"] by simp
  then show ?thesis
    using assms True holes_nonneg [of "drop (nat i) xs"] by (simp add: compact_loop_adjusted)
next
  case False
  then show ?thesis using assms compact_loop_unadjusted [of xs "[]" i stop] by simp
qed

text \<open>The part of the array that is still to be delivered, through a compaction.\<close>

lemma compact_slice:
  assumes "0 \<le> i" "i \<le> stop" "stop \<le> int (length xs)" "None \<notin> set (drop (nat stop) xs)"
    "compact_loop True xs [] i stop = (kept, i', stop')"
  shows "0 \<le> i'" "stop' \<le> int (length kept)" "kept = map Some (somes xs)"
    "drop (nat i') (take (nat stop') kept) = map Some (somes (drop (nat i) (take (nat stop) xs)))"
    "drop (nat stop') kept = drop (nat stop) xs"
proof -
  let ?a = "take (nat i) xs" and ?b = "drop (nat i) (take (nat stop) xs)" and ?c = "drop (nat stop) xs"
  have ab: "?a @ ?b = take (nat stop) xs"
    using assms(1,2) by (metis append_take_drop_id min.absorb1 nat_mono take_take)
  then have xs: "xs = ?a @ ?b @ ?c" by (metis append.assoc append_take_drop_id)
  have k: "kept = map Some (somes xs)" and i': "i' = i - holes ?a" and s': "stop' = stop - holes xs"
    using assms(5) by (simp_all add: compact_loop_adjusted)
  have "int (length ?a) = i" "int (length (?a @ ?b)) = stop"
    unfolding ab using assms(1-3) by simp_all
  moreover have "holes xs = holes (?a @ ?b)"
    using holes_full [OF assms(4)] xs holes_simps(4) by (metis add.right_neutral append.assoc)
  ultimately have li: "i' = int (length (somes ?a))" and ls: "stop' = int (length (somes (?a @ ?b)))"
    by (simp_all only: i' s' holes_def)
  have sx: "somes xs = somes ?a @ somes ?b @ somes ?c" using xs by (metis somes_append)
  have full: "map Some (somes zs) = zs" if "None \<notin> set zs" for zs :: "nat option list"
    using that
  proof (induction zs)
    case (Cons z zs)
    then show ?case by (cases z) simp_all
  qed simp
  show "0 \<le> i'" by (simp add: li)
  show "stop' \<le> int (length kept)" by (simp add: ls k sx)
  show "kept = map Some (somes xs)" by (rule k)
  show "drop (nat i') (take (nat stop') kept) = map Some (somes ?b)"
    by (simp add: li ls k sx)
  show "drop (nat stop') kept = ?c"
    using full [OF assms(4)] by (simp add: ls k sx)
qed

section \<open>The next listener\<close>

lemma loop_next_idle: "stop \<le> i \<Longrightarrow> loop_next xs i stop = (Loop_ends, i)"
  by (subst loop_next.simps) simp

lemma loop_next_slice:
  assumes "0 \<le> i" "stop \<le> int (length xs)" "i \<le> stop"
  shows "(\<exists>c i'. loop_next (Some xs) i stop = (Call c, i') \<and> i < i' \<and> i' \<le> stop \<and>
            somes (drop (nat i) (take (nat stop) xs)) = c # somes (drop (nat i') (take (nat stop) xs))) \<or>
         loop_next (Some xs) i stop = (Loop_ends, stop) \<and> somes (drop (nat i) (take (nat stop) xs)) = []"
  using assms
proof (induction "Some xs" i stop rule: loop_next.induct)
  case (1 i stop)
  show ?case
  proof (cases "i < stop")
    case True
    have n: "drop (nat i) (take (nat stop) xs) = xs ! nat i # drop (nat (i + 1)) (take (nat stop) xs)"
      using True 1(2,3) Cons_nth_drop_Suc [of "nat i" "take (nat stop) xs"] by (simp add: nat_add_distrib)
    have at: "array_at xs i = xs ! nat i" using True 1(2,3) by (simp add: array_at_def)
    show ?thesis
    proof (cases "xs ! nat i")
      case None
      have "loop_next (Some xs) i stop = loop_next (Some xs) (i + 1) stop"
        by (subst loop_next.simps) (simp add: True at None)
      moreover note 1(1) [OF True refl at [unfolded None]]
      ultimately show ?thesis
        using 1(2,3) True by (force simp: n None)
    next
      case (Some c)
      have "loop_next (Some xs) i stop = (Call c, i + 1)"
        by (subst loop_next.simps) (simp add: True at Some)
      then show ?thesis using True by (simp add: n Some)
    qed
  next
    case False
    then have "i = stop" using 1(4) by simp
    then show ?thesis by (simp add: loop_next_idle)
  qed
qed

section \<open>Rounds\<close>

definition pending :: "'v world \<Rightarrow> nat list" where
  "pending w =
     (case dq_current (w_queue w) of
        None \<Rightarrow> []
      | Some e \<Rightarrow>
          (case listeners_of w e of
             Many a \<Rightarrow> somes (drop (nat (dq_i (w_queue w))) (take (nat (dq_end (w_queue w))) (w_arrays w a)))
           | _ \<Rightarrow> []))"

definition round_ok :: "'v world \<Rightarrow> nat list \<Rightarrow> 'v round \<Rightarrow> bool" where
  "round_ok w ps r \<longleftrightarrow>
     distinct (r_snapshot r) \<and> (\<forall>c\<in>set (r_snapshot r). c < w_id w) \<and>
     subseq (map fst (r_delivered r) @ ps) (r_snapshot r) \<and>
     (\<forall>p\<in>set (r_delivered r). snd p = Some (r_value r)) \<and>
     (\<forall>c\<in>set (r_snapshot r). c \<in> set (live w (r_emitter r)) \<longrightarrow> c \<in> fst ` set (r_delivered r) \<union> set ps)"

definition rounds_ok :: "'v world \<Rightarrow> nat list \<Rightarrow> bool" where
  "rounds_ok w ps \<longleftrightarrow>
     (w_rounds w \<noteq> [] \<longrightarrow> round_ok w ps (last (w_rounds w))) \<and>
     (\<forall>r\<in>set (butlast (w_rounds w)). round_ok w [] r)"

text \<open>The queue delivers: the array it goes through, and the round that is recorded.\<close>

definition delivering :: "nat \<Rightarrow> 'v world \<Rightarrow> bool" where
  "delivering e w \<longleftrightarrow> dq_current (w_queue w) = Some e \<and> dq_i (w_queue w) < dq_end (w_queue w)"

definition delivers_from :: "nat \<Rightarrow> nat \<Rightarrow> 'v world \<Rightarrow> bool" where
  "delivers_from e a w \<longleftrightarrow>
     listeners_of w e = Many a \<and> 0 \<le> dq_i (w_queue w) \<and> dq_end (w_queue w) \<le> int (length (w_arrays w a)) \<and>
     None \<notin> set (drop (nat (dq_end (w_queue w))) (w_arrays w a)) \<and>
     w_rounds w \<noteq> [] \<and> r_emitter (last (w_rounds w)) = e \<and> dq_value (w_queue w) = Some (r_value (last (w_rounds w))) \<and>
     (\<forall>c\<in>set (r_snapshot (last (w_rounds w))). Some c \<notin> set (drop (nat (dq_end (w_queue w))) (w_arrays w a)))"

definition queue_ok :: "listeners \<Rightarrow> 'v world \<Rightarrow> bool" where
  "queue_ok l w \<longleftrightarrow> (\<forall>e. delivering e w \<longrightarrow> (\<exists>a. l = Many a \<and> delivers_from e a w))"

fun top_listeners :: "'v frame list \<Rightarrow> listeners" where
  "top_listeners (In_queue l k # fs) = l"
| "top_listeners fs = No_listeners"

definition at_rest :: "'v world \<Rightarrow> bool" where
  "at_rest w \<longleftrightarrow> (dq_current (w_queue w) = None \<longrightarrow> dq_end (w_queue w) \<le> dq_i (w_queue w) \<or> set (w_stack w) \<subseteq> {In_single})"

definition orderly :: "'v world \<Rightarrow> bool" where
  "orderly w \<longleftrightarrow> well_kept w \<and> queue_ok (top_listeners (w_stack w)) w \<and> at_rest w \<and> rounds_ok w (pending w)"

lemma orderly_world_new [simp]: "orderly (world_new thresholds)"
proof -
  have w: "w_queue (world_new thresholds) = DeliveryQueue_new" "w_stack (world_new thresholds) = []"
    "w_rounds (world_new thresholds) = []"
    by (simp_all add: world_new_def)
  show ?thesis
    unfolding orderly_def queue_ok_def at_rest_def rounds_ok_def delivering_def w
    by (simp add: DeliveryQueue_new_def)
qed

lemma round_ok_later:
  assumes "round_ok w ps r" "w_id w \<le> w_id w'"
    "\<And>c. c < w_id w \<Longrightarrow> c \<in> set (live w' (r_emitter r)) \<Longrightarrow> c \<in> set (live w (r_emitter r))"
    "subseq ps' ps" "\<And>c. c \<in> set ps \<Longrightarrow> c \<notin> set ps' \<Longrightarrow> c \<notin> set (live w' (r_emitter r))"
  shows "round_ok w' ps' r"
proof -
  have "subseq (map fst (r_delivered r) @ ps') (r_snapshot r)"
    using assms(1,4) subseq_order.trans list_emb_append_mono [OF subseq_order.refl assms(4), of "map fst (r_delivered r)"]
    unfolding round_ok_def by blast
  then show ?thesis
    using assms(1-3,5) unfolding round_ok_def by (metis UnCI UnE less_le_trans)
qed

lemma rounds_ok_later:
  assumes "rounds_ok w ps" "w_rounds w' = w_rounds w" "w_id w \<le> w_id w'"
    "\<And>e c. c < w_id w \<Longrightarrow> c \<in> set (live w' e) \<Longrightarrow> c \<in> set (live w e)"
    "subseq ps' ps"
    "\<And>c. w_rounds w \<noteq> [] \<Longrightarrow> c \<in> set ps \<Longrightarrow> c \<notin> set ps' \<Longrightarrow> c \<notin> set (live w' (r_emitter (last (w_rounds w))))"
  shows "rounds_ok w' ps'"
proof -
  have "round_ok w' ps' (last (w_rounds w))" if "w_rounds w \<noteq> []"
    using round_ok_later [OF _ assms(3) assms(4) assms(5) assms(6)] assms(1) that unfolding rounds_ok_def by blast
  moreover have "round_ok w' [] r" if "r \<in> set (butlast (w_rounds w))" for r
    using round_ok_later [OF _ assms(3) assms(4), of "[]" r "[]"] assms(1) that unfolding rounds_ok_def by auto
  ultimately show ?thesis by (simp add: rounds_ok_def assms(2))
qed

lemma pending_idle: "dq_end (w_queue w) \<le> dq_i (w_queue w) \<Longrightarrow> pending w = []"
  by (auto simp: pending_def split: option.splits listeners.splits)

lemma pending_delivers:
  "delivering e w \<Longrightarrow> listeners_of w e = Many a \<Longrightarrow>
   pending w = somes (drop (nat (dq_i (w_queue w))) (take (nat (dq_end (w_queue w))) (w_arrays w a)))"
  by (simp add: pending_def delivering_def)

section \<open>Running the queue\<close>

text \<open>The queue before a run with the listeners \<open>l\<close>, and behind it.\<close>

definition ready :: "listeners \<Rightarrow> 'v world \<Rightarrow> bool" where
  "ready l w \<longleftrightarrow> well_kept w \<and> queue_ok l w \<and> rounds_ok w (pending w) \<and>
     (dq_current (w_queue w) = None \<longrightarrow> dq_end (w_queue w) \<le> dq_i (w_queue w))"

definition idle :: "'v world \<Rightarrow> bool" where
  "idle w \<longleftrightarrow> well_kept w \<and> dq_current (w_queue w) = None \<and> at_rest w \<and> rounds_ok w []"

lemma pending_no_current [simp]: "dq_current (w_queue w) = None \<Longrightarrow> pending w = []"
  by (simp add: pending_def)

lemma idle_orderly: "idle w \<Longrightarrow> orderly w"
  by (simp add: idle_def orderly_def queue_ok_def delivering_def)

lemma not_delivering: "dq_end (w_queue w) \<le> dq_i (w_queue w) \<Longrightarrow> \<not> delivering e w"
  by (simp add: delivering_def)

lemma same_rounds_ok:
  assumes "same_subscriptions w w'" "w_rounds w' = w_rounds w"
  shows "rounds_ok w' ps \<longleftrightarrow> rounds_ok w ps"
  using same_subscriptionsD(3,4) [OF assms(1)] by (simp add: rounds_ok_def round_ok_def assms(2))

lemma run_queue_orderly:
  assumes "ready l w"
    "\<And>w'. idle w' \<Longrightarrow> w_stack w' = w_stack w \<Longrightarrow> \<not> fst (after w') \<and> orderly (snd (after w'))"
  shows "\<not> fst (run_queue l k after w) \<and> orderly (snd (run_queue l k after w))"
proof -
  let ?q = "w_queue w"
  have ends: ?thesis if "loop_next (array_of w l) (dq_i ?q) (dq_end ?q) = (Loop_ends, i)" "rounds_ok w []" for i
  proof -
    let ?w = "DeliveryQueue_reset (w\<lparr>w_queue := ?q\<lparr>dq_i := i\<rparr>\<rparr>)"
    have "same_subscriptions w ?w" by (simp add: same_subscriptions_def DeliveryQueue_reset_def)
    then have "idle ?w"
      using assms(1) that(2) same_subscriptionsD(5) [of w ?w] same_rounds_ok [of w ?w]
      by (simp add: idle_def ready_def at_rest_def DeliveryQueue_reset_def)
    then have "\<not> fst (after ?w) \<and> orderly (snd (after ?w))"
      by (rule assms(2)) (simp add: DeliveryQueue_reset_def)
    then show ?thesis by (simp add: run_queue_def that(1))
  qed
  show ?thesis
  proof (cases "dq_i ?q < dq_end ?q")
    case False
    then show ?thesis
      using ends [OF loop_next_idle] pending_idle [of w] assms(1) by (simp add: ready_def)
  next
    case True
    then obtain e where d: "delivering e w"
      using assms(1) by (auto simp: ready_def delivering_def)
    then obtain a where l: "l = Many a" and a: "delivers_from e a w"
      using assms(1) by (auto simp: ready_def queue_ok_def)
    note f = a [unfolded delivers_from_def]
    have p: "pending w = somes (drop (nat (dq_i ?q)) (take (nat (dq_end ?q)) (w_arrays w a)))"
      using pending_delivers [OF d] f by blast
    consider "loop_next (Some (w_arrays w a)) (dq_i ?q) (dq_end ?q) = (Loop_ends, dq_end ?q)" "pending w = []"
      | c i' where "loop_next (Some (w_arrays w a)) (dq_i ?q) (dq_end ?q) = (Call c, i')" "dq_i ?q < i'" "i' \<le> dq_end ?q"
          "pending w = c # somes (drop (nat i') (take (nat (dq_end ?q)) (w_arrays w a)))"
      using loop_next_slice [of "dq_i ?q" "dq_end ?q" "w_arrays w a"] f True p by auto
    then show ?thesis
    proof cases
      case 1
      then show ?thesis using ends [of "dq_end ?q"] assms(1) by (simp add: l array_of_def ready_def)
    next
      case (2 c i')
      define w' where "w' = call_listener (In_queue l k) c (dq_value ?q) (w\<lparr>w_queue := ?q\<lparr>dq_i := i'\<rparr>\<rparr>)"
      have w: "run_queue l k after w = (False, w')"
        using 2(1) by (simp add: run_queue_def l array_of_def Let_def w'_def)
      obtain rs r where r: "w_rounds w = rs @ [r]" using f by (metis append_butlast_last_id)
      have ws: "w_rounds w' = rs @ [r\<lparr>r_delivered := r_delivered r @ [(c, dq_value ?q)]\<rparr>]"
        "w_queue w' = ?q\<lparr>dq_i := i'\<rparr>" "w_stack w' = In_queue l k # w_stack w"
        by (simp_all add: w'_def call_listener_def r)
      have s: "same_subscriptions w w'" by (simp add: w'_def same_subscriptions_def call_listener_def)
      note s = s same_subscriptionsD [OF s]
      have p': "pending w' = somes (drop (nat i') (take (nat (dq_end ?q)) (w_arrays w a)))"
        using d f by (simp add: pending_def ws s delivering_def)
      have "rounds_ok w' (pending w')"
        using assms(1) f 2(4) by (auto simp: ready_def rounds_ok_def round_ok_def r ws s p')
      moreover have "queue_ok l w'"
        using d f 2(2) by (auto simp: queue_ok_def delivers_from_def delivering_def l ws s r)
      moreover have "at_rest w'" using d by (simp add: at_rest_def ws delivering_def)
      ultimately show ?thesis
        using assms(1) s(6) unfolding w by (simp add: orderly_def ws(3) ready_def)
    qed
  qed
qed

section \<open>Operations\<close>

lemma start_round_ok:
  assumes "well_kept w" "rounds_ok w []" "w_rounds w' = w_rounds (start_round e v w)" "same_subscriptions w w'"
  shows "rounds_ok w' (live w e)"
proof -
  note k = well_keptD [OF assms(1)] and s = same_subscriptionsD [OF assms(4)]
  have "\<forall>r\<in>set (w_rounds w). round_ok w [] r"
    using assms(2) by (cases "w_rounds w" rule: rev_cases) (auto simp: rounds_ok_def)
  moreover have "round_ok w (live w e) \<lparr>r_emitter = e, r_value = v, r_snapshot = live w e, r_delivered = []\<rparr>"
    using k(3,4) by (simp add: round_ok_def)
  ultimately show ?thesis
    by (simp add: rounds_ok_def round_ok_def start_round_def assms(3) s(3,4))
qed

lemma fire_rest_orderly:
  assumes "idle w"
  shows "\<not> fst (fire_rest e v w) \<and> orderly (snd (fire_rest e v w))"
proof (cases "listeners_of w e")
  case No_listeners
  then show ?thesis using idle_orderly [OF assms] by (simp add: fire_rest_def)
next
  case (One c)
  define w' where "w' = call_listener In_single c (Some v) (start_round e v w)"
  have s: "same_subscriptions w w'" by (simp add: w'_def same_subscriptions_def call_listener_def start_round_def)
  have "rounds_ok (start_round e v w) [c]"
    using start_round_ok [of w "start_round e v w" e v] assms One
    by (simp add: idle_def live_def same_subscriptions_def start_round_def)
  then have "rounds_ok w' []"
    using One by (auto simp: rounds_ok_def round_ok_def w'_def call_listener_def start_round_def live_def)
  then have "orderly w'"
    using assms same_subscriptionsD(5) [OF s]
    by (auto simp: orderly_def idle_def at_rest_def queue_ok_def delivering_def w'_def call_listener_def start_round_def pending_def)
  then show ?thesis using One by (simp add: fire_rest_def w'_def)
next
  case (Many a)
  define w' where "w' = DeliveryQueue_enqueue e v (int (length (w_arrays w a))) (start_round e v w)"
  have s: "same_subscriptions w w'" by (simp add: w'_def same_subscriptions_def DeliveryQueue_enqueue_def start_round_def)
  note s = s same_subscriptionsD [OF s]
  have q: "w_queue w' = \<lparr>dq_i = 0, dq_end = int (length (w_arrays w a)), dq_current = Some e, dq_value = Some v\<rparr>"
    "w_rounds w' = w_rounds w @ [\<lparr>r_emitter = e, r_value = v, r_snapshot = live w e, r_delivered = []\<rparr>]"
    by (simp_all add: w'_def DeliveryQueue_enqueue_def start_round_def)
  have "pending w' = live w e" using Many by (simp add: pending_def q s live_def)
  then have "rounds_ok w' (pending w')"
    using start_round_ok [of w w' e v] assms s(1) by (simp add: idle_def q start_round_def)
  then have "ready (Many a) w'"
    using assms Many s(6) by (simp add: ready_def queue_ok_def delivering_def delivers_from_def q s idle_def)
  then have "\<not> fst (run_queue (Many a) Fire_done (Pair False) w') \<and> orderly (snd (run_queue (Many a) Fire_done (Pair False) w'))"
    by (rule run_queue_orderly) (simp add: idle_orderly)
  then show ?thesis using Many by (simp add: fire_rest_def w'_def)
qed

lemma Emitter_deliverQueue_orderly:
  "ready l w \<Longrightarrow> \<not> fst (Emitter_deliverQueue l k w) \<and> orderly (snd (Emitter_deliverQueue l k w))"
  unfolding Emitter_deliverQueue_def
  by (erule run_queue_orderly) (simp add: continue_fire_def idle_orderly fire_rest_orderly split: continuation.splits)

lemma orderly_ready:
  assumes "orderly w" "dq_current (w_queue w) \<noteq> None \<or> dq_end (w_queue w) \<le> dq_i (w_queue w)"
  shows "ready (top_listeners (w_stack w)) w"
  using assms by (auto simp: orderly_def ready_def)

lemma queue_ok_other:
  assumes "queue_ok l w" "\<And>e a. delivering e w \<Longrightarrow> l = Many a \<Longrightarrow> l' = Many a"
  shows "queue_ok l' w"
  using assms by (fastforce simp: queue_ok_def)

lemma Emitter_fire_orderly:
  assumes "orderly w"
  shows "\<not> fst (Emitter_fire e v w) \<and> orderly (snd (Emitter_fire e v w))"
proof (cases "dq_current (w_queue w)")
  case None
  then show ?thesis
    using assms fire_rest_orderly [of w e v] by (simp add: Emitter_fire_def idle_def orderly_def)
next
  case (Some c)
  have "queue_ok (listeners_of w c) w"
    using assms Some by (auto simp: orderly_def queue_ok_def delivering_def delivers_from_def)
  then have "ready (listeners_of w c) w" using assms Some by (simp add: orderly_def ready_def)
  then show ?thesis
    using Emitter_deliverQueue_orderly by (simp add: Emitter_fire_def Some)
qed

lemma stack_irrelevant:
  "same_subscriptions w (w\<lparr>w_stack := fs\<rparr>)" "pending (w\<lparr>w_stack := fs\<rparr>) = pending w"
  "delivering e (w\<lparr>w_stack := fs\<rparr>) \<longleftrightarrow> delivering e w" "delivers_from e a (w\<lparr>w_stack := fs\<rparr>) \<longleftrightarrow> delivers_from e a w"
  by (simp_all add: same_subscriptions_def pending_def delivering_def delivers_from_def cong: option.case_cong listeners.case_cong)

lemma listener_returns_orderly:
  assumes "orderly w"
  shows "\<not> fst (listener_returns w) \<and> orderly (snd (listener_returns w))"
proof (cases "w_stack w")
  case Nil
  then show ?thesis using assms by (simp add: listener_returns_def)
next
  case (Cons f fs)
  define w' where "w' = w\<lparr>w_stack := fs\<rparr>"
  have w': "same_subscriptions w w'" "pending w' = pending w" "w_queue w' = w_queue w" "w_rounds w' = w_rounds w"
    "\<And>e. delivering e w' \<longleftrightarrow> delivering e w" "\<And>e a. delivers_from e a w' \<longleftrightarrow> delivers_from e a w" "w_stack w' = fs"
    by (simp_all add: w'_def stack_irrelevant)
  have same: "well_kept w'" "rounds_ok w' (pending w)"
    using assms same_subscriptionsD(5) [OF w'(1)] same_rounds_ok [OF w'(1,4)] by (simp_all add: orderly_def)
  show ?thesis
  proof (cases f)
    case In_single
    then have "\<not> delivering e w" for e using assms Cons by (auto simp: orderly_def queue_ok_def)
    then have "orderly w'"
      using assms same Cons by (auto simp: orderly_def queue_ok_def at_rest_def w')
    then show ?thesis using In_single Cons by (simp add: listener_returns_def w'_def)
  next
    case (In_queue l k)
    then have "ready l w'"
      using assms same Cons by (auto simp: orderly_def ready_def queue_ok_def at_rest_def w')
    then show ?thesis
      using Emitter_deliverQueue_orderly In_queue Cons by (simp add: listener_returns_def w'_def)
  qed
qed

lemma Emitter_event_orderly:
  assumes "orderly w"
  shows "orderly (snd (Emitter_event e w))"
proof (cases "Emitter_event e w = (None, w)")
  case True
  then show ?thesis using assms by simp
next
  case False
  then obtain w' where e: "Emitter_event e w = (Some (w_id w), w')"
    using Emitter_event_cases [of e w] by auto
  have w': "w' = subscribed e w" and d: "\<not> em_disposed (w_emitters w e)"
    using Emitter_event_eq [OF e] by simp_all
  have o: "well_kept w" "queue_ok (top_listeners (w_stack w)) w" "at_rest w" "rounds_ok w (pending w)"
    using assms by (simp_all add: orderly_def)
  have apart: "arrays_apart w" using well_keptD(1) [OF o(1)] .
  note s = subscribed_live [OF apart, where e = e]
  have moved: "delivers_from e' a (subscribed e w) \<and> pending (subscribed e w) = pending w"
    if del: "delivering e' w" "delivers_from e' a w" for e' a
  proof -
    note f = del(2) [unfolded delivers_from_def]
    have fresh: "w_id w \<notin> set (r_snapshot (last (w_rounds w)))"
      using o(4) f by (auto simp: rounds_ok_def round_ok_def)
    have le: "nat (dq_end (w_queue w)) \<le> length (w_arrays w a)" using f by linarith
    have l: "listeners_of (subscribed e w) e' = Many a"
      using f s(3) [of e'] s(4) [of a] by (cases "e' = e") auto
    have "w_arrays (subscribed e w) a = w_arrays w a @ [Some (w_id w)] \<or> w_arrays (subscribed e w) a = w_arrays w a"
      using f s(4) [of a] s(5) [of a] apart by (auto simp: arrays_apart_def)
    then show ?thesis
      using f fresh le l del(1) by (auto simp: delivers_from_def pending_def delivering_def)
  qed
  have del: "delivering e' (subscribed e w) \<longleftrightarrow> delivering e' w" for e' by (simp add: delivering_def)
  have q: "queue_ok (top_listeners (w_stack w)) (subscribed e w)"
    using o(2) moved unfolding queue_ok_def del by blast
  have p: "pending (subscribed e w) = pending w"
  proof (cases "\<exists>e'. delivering e' w")
    case True
    then show ?thesis using o(2) moved unfolding queue_ok_def by blast
  next
    case False
    then have "dq_current (w_queue w) = None \<or> dq_end (w_queue w) \<le> dq_i (w_queue w)"
      by (auto simp: delivering_def)
    then show ?thesis using pending_idle [of w] pending_idle [of "subscribed e w"] by auto
  qed
  have "rounds_ok (subscribed e w) (pending w)"
    by (rule rounds_ok_later [OF o(4)]) (auto simp: s(1) split: if_splits)
  then show ?thesis
    using o(3) q p well_kept_subscribed [OF o(1) d] by (simp add: e w' orderly_def at_rest_def)
qed

lemma not_delivering_pending: "(\<And>e. \<not> delivering e w) \<Longrightarrow> pending w = []"
  using pending_idle [of w] by (fastforce simp: delivering_def)

lemma Emitter_dispose_orderly:
  assumes "orderly w"
  shows "orderly (Emitter_dispose e w)"
proof (cases "em_disposed (w_emitters w e)")
  case True
  then show ?thesis using assms by (simp add: Emitter_dispose_def)
next
  case False
  have o: "well_kept w" "queue_ok (top_listeners (w_stack w)) w" "at_rest w" "rounds_ok w (pending w)"
    using assms by (simp_all add: orderly_def)
  note d = dispose_listeners [OF o(1), of e]
  define w' where "w' = Emitter_dispose e w"
  have q: "w_queue w' = (if dq_current (w_queue w) = Some e then w_queue (DeliveryQueue_reset w) else w_queue w)"
    using False by (auto simp: w'_def Emitter_dispose_def Let_def world_updates DeliveryQueue_reset_def)
  have live: "live w' = (live w)(e := [])" by (simp add: w'_def d)
  have s: "w_id w' = w_id w" "w_arrays w' = w_arrays w" "w_stack w' = w_stack w" "w_rounds w' = w_rounds w"
    "\<And>e'. e' \<noteq> e \<Longrightarrow> w_emitters w' e' = w_emitters w e'"
    by (simp_all add: w'_def)
  have rounds: "rounds_ok w' ps"
    if "subseq ps (pending w)" "\<And>c. w_rounds w \<noteq> [] \<Longrightarrow> c \<in> set (pending w) \<Longrightarrow> c \<notin> set ps \<Longrightarrow> r_emitter (last (w_rounds w)) = e" for ps
    by (rule rounds_ok_later [OF o(4) _ _ _ that(1)]) (use that(2) in \<open>auto simp: live s split: if_splits\<close>)
  have "queue_ok (top_listeners (w_stack w)) w' \<and> at_rest w' \<and> rounds_ok w' (pending w')"
  proof (cases "dq_current (w_queue w) = Some e")
    case True
    have "r_emitter (last (w_rounds w)) = e" if "c \<in> set (pending w)" for c
    proof -
      have "delivering e w" using True that pending_idle [of w] by (fastforce simp: delivering_def)
      then show ?thesis using o(2) by (auto simp: queue_ok_def delivers_from_def)
    qed
    then have "rounds_ok w' []" by (intro rounds) auto
    then show ?thesis
      using True by (simp add: q queue_ok_def delivering_def at_rest_def DeliveryQueue_reset_def)
  next
    case False
    have p: "pending w' = pending w"
      using False s(5) by (auto simp: pending_def q s(2) split: option.splits listeners.splits)
    have "delivers_from e' a w' \<longleftrightarrow> delivers_from e' a w" if "delivering e' w" for e' a
      using that False s(5) [of e'] by (auto simp: delivers_from_def delivering_def q s)
    moreover have "delivering e' w' \<longleftrightarrow> delivering e' w" for e' using False by (simp add: delivering_def q)
    ultimately have "queue_ok (top_listeners (w_stack w)) w'" using o(2) by (simp add: queue_ok_def)
    moreover have "rounds_ok w' (pending w)" by (rule rounds) simp_all
    ultimately show ?thesis using o(3) False by (simp add: p at_rest_def q s(3))
  qed
  then show ?thesis using well_kept_dispose [OF o(1)] s(3) by (simp add: orderly_def w'_def)
qed

lemma removed_queue_facts:
  assumes "well_kept w" "c \<in> set (live w e)"
  shows "dq_current (w_queue (removed e c w)) = dq_current (w_queue w)"
    "dq_current (w_queue w) \<noteq> Some e \<Longrightarrow> w_queue (removed e c w) = w_queue w"
    "dq_end (w_queue w) \<le> dq_i (w_queue w) \<Longrightarrow> dq_end (w_queue (removed e c w)) \<le> dq_i (w_queue (removed e c w))"
proof -
  let ?q = "w_queue w"
  have removed_queue: "dq_current (removed_queue e xs w) = dq_current ?q \<and>
    (dq_current ?q \<noteq> Some e \<longrightarrow> removed_queue e xs w = ?q) \<and>
    (dq_end ?q \<le> dq_i ?q \<longrightarrow> dq_end (removed_queue e xs w) \<le> dq_i (removed_queue e xs w))" for xs
  proof -
    obtain kept i stop where l: "compact_loop (dq_current ?q = Some e) xs [] (dq_i ?q) (dq_end ?q) = (kept, i, stop)"
      by (metis prod_cases3)
    have "dq_current ?q \<noteq> Some e \<Longrightarrow> i = dq_i ?q \<and> stop = dq_end ?q"
      using l compact_loop_unadjusted [of xs "[]" "dq_i ?q" "dq_end ?q"] by simp
    then show ?thesis
      using l compact_loop_order [OF l] by (cases "dq_current ?q = Some e") (simp_all add: removed_queue_def)
  qed
  have "dq_current (w_queue (removed e c w)) = dq_current ?q \<and>
    (dq_current ?q \<noteq> Some e \<longrightarrow> w_queue (removed e c w) = ?q) \<and>
    (dq_end ?q \<le> dq_i ?q \<longrightarrow> dq_end (w_queue (removed e c w)) \<le> dq_i (w_queue (removed e c w)))"
  proof (cases "em_size (w_emitters w e) = 1")
    case True
    have "listeners_of w e \<noteq> No_listeners" using assms(2) by (auto simp: live_def)
    then show ?thesis by (simp add: removed_def Emitter_removeListener_last True)
  next
    case False
    obtain a index where a: "listeners_of w e = Many a" "index_of (Some c) (w_arrays w a) = Some index"
      using removeListener_known [OF assms False] .
    show ?thesis
      using removed_queue by (simp add: removed_def Emitter_removeListener_several [OF a(1) False a(2)])
  qed
  then show "dq_current (w_queue (removed e c w)) = dq_current ?q"
    "dq_current ?q \<noteq> Some e \<Longrightarrow> w_queue (removed e c w) = ?q"
    "dq_end ?q \<le> dq_i ?q \<Longrightarrow> dq_end (w_queue (removed e c w)) \<le> dq_i (w_queue (removed e c w))"
    by blast+
qed

text \<open>A listener that is due leaves while its emitter delivers: the others stay due.\<close>

lemma removed_while_delivering:
  assumes "orderly w" "delivering e w" "c \<in> set (live w e)" "em_size (w_emitters w e) \<noteq> 1"
    "c \<in> set (r_snapshot (last (w_rounds w)))"
  shows "pending (removed e c w) = filter (\<lambda>y. y \<noteq> c) (pending w)"
    "queue_ok (top_listeners (w_stack w)) (removed e c w)"
proof -
  have o: "well_kept w" "queue_ok (top_listeners (w_stack w)) w"
    using assms(1) by (simp_all add: orderly_def)
  let ?q = "w_queue w"
  obtain a where l: "top_listeners (w_stack w) = Many a" and a: "delivers_from e a w"
    using o(2) assms(2) by (auto simp: queue_ok_def)
  note f = a [unfolded delivers_from_def] and d = assms(2) [unfolded delivering_def]
  let ?xs = "w_arrays w a"
  obtain index where i: "index_of (Some c) ?xs = Some index" "index < length ?xs" "?xs ! index = Some c"
    using removeListener_known [OF o(1) assms(3,4)] f by auto
  define ys where "ys = ?xs[index := None]"
  have "distinct (somes ?xs)" using well_keptD(3) [OF o(1), of e] f by (simp add: live_def)
  then have ys: "ys = map (clear c) ?xs"
    using update_None_eq_map_clear [OF i(2,3)] by (simp add: ys_def)
  have r: "removed e c w = w\<lparr>w_hooks := w_hooks w @ [OnWillRemoveListener e],
        w_emitters := (w_emitters w)(e := (w_emitters w e)\<lparr>em_size := em_size (w_emitters w e) - 1\<rparr>),
        w_queue := removed_queue e ys w, w_arrays := (w_arrays w)(a := removed_array e ys w)\<rparr>"
    using Emitter_removeListener_several [OF _ assms(4) i(1)] f by (simp add: removed_def ys_def)
  have rest: "drop (nat (dq_end ?q)) ys = drop (nat (dq_end ?q)) ?xs"
    unfolding ys drop_map using f assms(5) by (intro map_clear_id) blast
  have p: "pending w = somes (drop (nat (dq_i ?q)) (take (nat (dq_end ?q)) ?xs))"
    using pending_delivers [OF assms(2)] f by blast
  have py: "filter (\<lambda>y. y \<noteq> c) (pending w) = somes (drop (nat (dq_i ?q)) (take (nat (dq_end ?q)) ys))"
    unfolding p ys take_map drop_map somes_map_clear ..
  define i' where "i' = dq_i (removed_queue e ys w)"
  define stop' where "stop' = dq_end (removed_queue e ys w)"
  have q: "removed_queue e ys w = ?q\<lparr>dq_i := i', dq_end := stop'\<rparr>"
    by (auto simp: i'_def stop'_def removed_queue_def split: prod.splits)
  have "0 \<le> i' \<and> stop' \<le> int (length (removed_array e ys w)) \<and>
    somes (drop (nat i') (take (nat stop') (removed_array e ys w))) = filter (\<lambda>y. y \<noteq> c) (pending w) \<and>
    drop (nat stop') (removed_array e ys w) = drop (nat (dq_end ?q)) ?xs"
  proof (cases "compacts e ys w")
    case True
    obtain kept i stop where c: "compact_loop True ys [] (dq_i ?q) (dq_end ?q) = (kept, i, stop)" by (metis prod_cases3)
    have q': "i' = i" "stop' = stop" using True c d by (simp_all add: i'_def stop'_def removed_queue_def)
    note k = compact_slice [OF _ _ _ _ c]
    have "0 \<le> dq_i ?q" "dq_i ?q \<le> dq_end ?q" "dq_end ?q \<le> int (length ys)" "None \<notin> set (drop (nat (dq_end ?q)) ys)"
      using f d rest by (simp_all add: ys_def)
    note k = k [OF this]
    show ?thesis using k True rest by (simp add: removed_array_def q' py)
  next
    case False
    then show ?thesis
      using f d rest by (simp add: removed_array_def i'_def stop'_def removed_queue_def py) (simp add: ys_def)
  qed
  then show "pending (removed e c w) = filter (\<lambda>y. y \<noteq> c) (pending w)"
    "queue_ok (top_listeners (w_stack w)) (removed e c w)"
    using f d by (auto simp: r pending_def queue_ok_def delivering_def delivers_from_def l q)
qed

lemma removed_orderly:
  assumes "orderly w" "c \<in> set (live w e)" "w_owner w c = None"
    "delivering e w \<Longrightarrow> em_size (w_emitters w e) \<noteq> 1 \<and> c \<in> set (r_snapshot (last (w_rounds w)))"
  shows "orderly (removed e c w)"
proof -
  have o: "well_kept w" "queue_ok (top_listeners (w_stack w)) w" "at_rest w" "rounds_ok w (pending w)"
    using assms(1) by (simp_all add: orderly_def)
  note r = live_removed [OF o(1) assms(2)] and q = removed_queue_facts [OF o(1) assms(2)]
  have rest: "at_rest (removed e c w)"
    using o(3) q by (auto simp: at_rest_def r(9))
  have rounds: "rounds_ok (removed e c w) (filter (\<lambda>y. y \<noteq> c) (pending w))"
    if "pending w \<noteq> [] \<Longrightarrow> delivering e w"
  proof (rule rounds_ok_later [OF o(4)])
    fix c' assume c': "c' \<in> set (pending w)" "c' \<notin> set (filter (\<lambda>y. y \<noteq> c) (pending w))"
    then have "delivering e w" using that by fastforce
    then have "r_emitter (last (w_rounds w)) = e" using o(2) by (auto simp: queue_ok_def delivers_from_def)
    then show "c' \<notin> set (live (removed e c w) (r_emitter (last (w_rounds w))))" using c' by (simp add: r(2))
  qed (simp_all add: r(2,6,10) split: if_splits)
  have "pending (removed e c w) = (if delivering e w then filter (\<lambda>y. y \<noteq> c) (pending w) else pending w) \<and>
    queue_ok (top_listeners (w_stack w)) (removed e c w)"
  proof (cases "delivering e w")
    case True
    then show ?thesis using removed_while_delivering [OF assms(1) True assms(2)] assms(4) by simp
  next
    case False
    show ?thesis
    proof (cases "\<exists>e'. delivering e' w")
      case True
      then obtain e' a where e': "delivering e' w" "top_listeners (w_stack w) = Many a" "delivers_from e' a w"
        using o(2) by (auto simp: queue_ok_def)
      then have ne: "e' \<noteq> e" using False by auto
      have "w_queue (removed e c w) = w_queue w" using e'(1) ne q(2) by (simp add: delivering_def)
      moreover have "listeners_of w e \<noteq> Many a"
        using well_keptD(1) [OF o(1)] e'(3) ne by (auto simp: arrays_apart_def delivers_from_def)
      ultimately show ?thesis
        using e' False ne r(3) [of e'] r(11) [of a]
        by (auto simp: queue_ok_def delivering_def delivers_from_def pending_def r(10))
    next
      case none: False
      then have "\<not> delivering e' (removed e c w)" for e'
        using q(1,3) by (auto simp: delivering_def not_less)
      then show ?thesis
        using False none not_delivering_pending by (metis queue_ok_def)
    qed
  qed
  moreover have "rounds_ok (removed e c w) (pending w)" if "\<not> delivering e w"
    by (rule rounds_ok_later [OF o(4)]) (simp_all add: r(2,6,10) split: if_splits)
  moreover have "rounds_ok (removed e c w) (filter (\<lambda>y. y \<noteq> c) (pending w))" if "delivering e w"
    by (rule rounds) (rule that)
  ultimately show ?thesis
    using well_kept_removed [OF o(1) assms(2,3)] rest by (simp add: orderly_def r(9))
qed

lemma orderly_same:
  assumes "orderly w" "well_kept w'" "live w' = live w" "w_emitters w' = w_emitters w" "w_arrays w' = w_arrays w"
    "w_queue w' = w_queue w" "w_stack w' = w_stack w" "w_rounds w' = w_rounds w" "w_id w' = w_id w"
  shows "orderly w'"
proof -
  have "pending w' = pending w" unfolding pending_def assms(4-6) ..
  then show ?thesis
    using assms(1,2) unfolding orderly_def queue_ok_def delivering_def delivers_from_def at_rest_def rounds_ok_def round_ok_def
      assms(3-9) by simp
qed

section \<open>Runs with careful removals\<close>

text \<open>
  The removals that the queue copes with: of a listener of another emitter than the one it delivers for,
  or of one that there was when the delivery began and that is not the only one left.
\<close>

definition careful :: "'v action \<Rightarrow> 'v world \<Rightarrow> bool" where
  "careful a w =
     (case a of
        Unsubscribe c \<Rightarrow>
          (case w_owner w c of
             None \<Rightarrow> True
           | Some e \<Rightarrow> delivering e w \<longrightarrow> em_size (w_emitters w e) > 1 \<and> c \<in> set (r_snapshot (last (w_rounds w))))
      | _ \<Rightarrow> True)"

inductive emits_carefully :: "(nat \<Rightarrow> int option) \<Rightarrow> 'v world \<Rightarrow> bool" for thresholds where
  start: "emits_carefully thresholds (world_new thresholds)"
| step: "emits_carefully thresholds w \<Longrightarrow> careful a w \<Longrightarrow> perform a w = (threw, w') \<Longrightarrow> emits_carefully thresholds w'"

lemma unsubscribe_orderly:
  assumes "orderly w" "careful (Unsubscribe c) w"
  shows "\<not> fst (unsubscribe c w) \<and> orderly (snd (unsubscribe c w))"
proof -
  have k: "well_kept w" using assms(1) by (simp add: orderly_def)
  have o: "orderly (disown c w)"
    by (rule orderly_same [OF assms(1) well_kept_disown [OF k]]) simp_all
  show ?thesis
  proof (rule unsubscribe_cases [OF k, of c])
    fix e
    assume "unsubscribe c w = (False, call_hook (OnWillRemoveListener e) (disown c w))"
    then show ?thesis
      using orderly_same [OF o, of "call_hook (OnWillRemoveListener e) (disown c w)"] o
      by (simp add: well_kept_call_hook well_kept_disown k)
  next
    fix e
    assume e: "w_owner w c = Some e" "c \<in> set (live w e)" "unsubscribe c w = (False, removed e c (disown c w))"
    have "orderly (removed e c (disown c w))"
      by (rule removed_orderly [OF o]) (use e assms(2) in \<open>auto simp: careful_def delivering_def\<close>)
    then show ?thesis by (simp add: e(3))
  qed (use assms(1) in simp)
qed

lemma perform_orderly:
  assumes "orderly w" "careful a w"
  shows "\<not> fst (perform a w) \<and> orderly (snd (perform a w))"
  using assms
  by (cases a)
    (simp_all add: perform_def Emitter_event_orderly unsubscribe_orderly Emitter_dispose_orderly Emitter_fire_orderly listener_returns_orderly)

lemma emits_carefully_orderly: "emits_carefully thresholds w \<Longrightarrow> orderly w"
  by (induction rule: emits_carefully.induct) (simp, metis perform_orderly snd_conv)

lemma orderly_pending:
  assumes "orderly w" "w_stack w = []"
  shows "pending w = []"
  using assms not_delivering_pending [of w] by (fastforce simp: orderly_def queue_ok_def)

fun careful_run :: "'v action list \<Rightarrow> 'v world \<Rightarrow> bool" where
  "careful_run [] w = True"
| "careful_run (a # as) w = (careful a w \<and> careful_run as (snd (perform a w)))"

lemma emits_carefully_run:
  assumes "emits_carefully thresholds w" "careful_run as w"
  shows "emits_carefully thresholds (perform_all as w)"
  using assms
proof (induction as arbitrary: w)
  case (Cons a as)
  then have "emits_carefully thresholds (snd (perform a w))"
    using emits_carefully.step [of thresholds w a "fst (perform a w)"] by simp
  with Cons show ?case by simp
qed simp

text \<open>
  C21. In every run with careful removals an event reaches the listeners in the order in which they have
  subscribed, each at most once and with its own value; only those that were there when its delivery
  began; and all of these, but for those that have unsubscribed and those that are still due. When
  control is with the code outside again, none is due.
\<close>

theorem Emitter_delivers_in_rounds:
  assumes "emits_carefully thresholds w" "r \<in> set (w_rounds w)"
  shows "distinct (r_snapshot r) \<and> subseq (map fst (r_delivered r)) (r_snapshot r) \<and>
    (\<forall>p\<in>set (r_delivered r). snd p = Some (r_value r)) \<and>
    (\<forall>c\<in>set (r_snapshot r) \<inter> set (live w (r_emitter r)).
       c \<in> fst ` set (r_delivered r) \<or> r = last (w_rounds w) \<and> c \<in> set (pending w)) \<and>
    (w_stack w = [] \<longrightarrow> pending w = [])"
proof -
  have o: "orderly w" using emits_carefully_orderly [OF assms(1)] .
  then have rs: "rounds_ok w (pending w)" by (simp add: orderly_def)
  have ne: "w_rounds w \<noteq> []" using assms(2) by auto
  have r: "r \<in> set (butlast (w_rounds w)) \<or> r = last (w_rounds w)"
    using assms(2) ne by (metis append_butlast_last_id in_set_conv_decomp insert_iff list.simps(15) rotate1.simps(2) set_rotate1)
  then obtain ps where ps: "round_ok w ps r" "ps = [] \<or> r = last (w_rounds w) \<and> ps = pending w"
    using rs ne by (auto simp: rounds_ok_def)
  have "subseq (map fst (r_delivered r)) (map fst (r_delivered r) @ ps)"
    by (rule list_emb_prefix) simp
  then have "subseq (map fst (r_delivered r)) (r_snapshot r)"
    using ps(1) subseq_order.trans unfolding round_ok_def by blast
  then show ?thesis
    using ps orderly_pending [OF o] by (auto simp: round_ok_def)
qed

theorem Emitter_delivers_in_rounds_witness:
  "let w = perform_all [Subscribe 0, Subscribe 0, Subscribe 0, Fire 0 (7::nat), Unsubscribe 1, Return] (world_new (\<lambda>_. None));
     r = \<lparr>r_emitter = 0, r_value = 7, r_snapshot = [0, 1, 2], r_delivered = [(0, Some 7), (2, Some 7)]\<rparr>
   in w_rounds w = [r] \<and> distinct (r_snapshot r) \<and> subseq (map fst (r_delivered r)) (r_snapshot r)"
proof -
  let ?as = "[Subscribe 0, Subscribe 0, Subscribe 0, Fire 0 (7::nat), Unsubscribe 1, Return]"
  let ?r = "\<lparr>r_emitter = 0, r_value = 7::nat, r_snapshot = [0, 1, 2], r_delivered = [(0, Some 7), (2, Some 7)]\<rparr>"
  have c: "careful_run ?as (world_new (\<lambda>_. None))" by code_simp
  have e: "emits_carefully (\<lambda>_. None) (perform_all ?as (world_new (\<lambda>_. None)))"
    by (rule emits_carefully_run [OF emits_carefully.start c])
  have w: "w_rounds (perform_all ?as (world_new (\<lambda>_. None))) = [?r]" by code_simp
  then show ?thesis
    using Emitter_delivers_in_rounds [OF e, of ?r] by (simp add: Let_def)
qed

text \<open>
  C22. In such a run no operation throws: neither the unsubscription, which asks for a known listener,
  nor the delivery, which asks for an array of listeners.
\<close>

theorem Emitter_careful_runs_do_not_throw:
  assumes "emits_carefully thresholds w" "careful a w"
  shows "\<not> fst (perform a w)"
  using perform_orderly [OF emits_carefully_orderly [OF assms(1)] assms(2)] by blast

theorem Emitter_careful_runs_do_not_throw_witness:
  "\<not> fst (perform (Fire 1 8) (perform_all [Subscribe 0, Subscribe 0, Subscribe 1, Fire 0 (7::nat), Unsubscribe 0] (world_new (\<lambda>_. None))))"
proof -
  let ?as = "[Subscribe 0, Subscribe 0, Subscribe 1, Fire 0 (7::nat), Unsubscribe 0]"
  have "careful_run ?as (world_new (\<lambda>_. None))" by code_simp
  then have "emits_carefully (\<lambda>_. None) (perform_all ?as (world_new (\<lambda>_. None)))"
    by (rule emits_carefully_run [OF emits_carefully.start])
  moreover have "careful (Fire 1 8) (perform_all ?as (world_new (\<lambda>_. None)))" by (simp add: careful_def)
  ultimately show ?thesis by (rule Emitter_careful_runs_do_not_throw)
qed

section \<open>What careless removals do\<close>

definition rounds_of :: "'v action list \<Rightarrow> (nat list \<times> 'v \<times> (nat \<times> 'v option) list) list" where
  "rounds_of as =
     map (\<lambda>r. (r_snapshot r, r_value r, r_delivered r)) (w_rounds (perform_all as (world_new (\<lambda>_. None))))"

text \<open>
  A listener subscribes another one, removes it again and then itself: the compaction of the array takes
  the hole behind the end of the delivery for one before it, and the second listener is skipped.
\<close>

lemma Emitter_skips_listener:
  "rounds_of [Subscribe 0, Subscribe 0, Fire 0 (7::nat), Subscribe 0, Unsubscribe 2, Unsubscribe 0, Return] =
     [([0, 1], 7, [(0, Some 7)])]"
  "live (perform_all [Subscribe 0, Subscribe 0, Fire 0 (7::nat), Subscribe 0, Unsubscribe 2, Unsubscribe 0, Return]
     (world_new (\<lambda>_. None))) 0 = [1]"
  by code_simp+

text \<open>
  A listener removes itself and the other one: the last removal leaves the queue as it is, and the other
  one is called all the same, though it has unsubscribed. A listener that fires meanwhile gets an error.
\<close>

lemma Emitter_calls_removed_listener:
  "rounds_of [Subscribe 0, Subscribe 0, Fire 0 (7::nat), Unsubscribe 0, Unsubscribe 1, Return] =
     [([0, 1], 7, [(0, Some 7), (1, Some 7)])]"
  "fst (perform (Fire 0 8) (perform_all [Subscribe 0, Subscribe 0, Fire 0 (7::nat), Unsubscribe 0, Unsubscribe 1]
     (world_new (\<lambda>_. None))))"
  by code_simp+

text \<open>Listeners that subscribe then get the old event, at the next event.\<close>

lemma Emitter_old_event_to_new_listener:
  "rounds_of [Subscribe 0, Subscribe 0, Fire 0 (7::nat), Unsubscribe 0, Unsubscribe 1, Subscribe 0, Subscribe 0, Fire 0 8] =
     [([0, 1], 7, [(0, Some 7), (2, Some 7)])]"
  by code_simp

text \<open>Two events that listeners fire during a delivery can reach the listeners in the other order.\<close>

lemma Emitter_reorders_events:
  "map (\<lambda>(_, v, _). v) (rounds_of ([Subscribe 0, Subscribe 0, Subscribe 0, Fire 0 (1::nat), Fire 0 2, Fire 0 3] @ replicate 8 Return)) =
     [1, 3, 2]"
  by code_simp

end
